(* ===== verification/Prelude.thy ===== *)
theory Prelude
  imports Main "HOL-Library.Word" "HOL-Library.Monad_Syntax" "HOL-Library.Multiset"
begin

text \<open>
  Shared vocabulary of the development.

  \<^item> C integers: \<open>b6b_int\<close> (\<^verbatim>\<open>long long\<close>, include/b6b/obj.h) is a 64-bit word read
    with \<open>sint\<close>; \<open>size_t\<close> counters that wrap are 64-bit words too, lengths of strings and
    lists are \<open>nat\<close>.
  \<^item> C strings: a \<^verbatim>\<open>char *\<close> with an explicit length is a \<open>string\<close> (bytes, NUL
    included); \<open>c_str\<close> is what a function that stops at the first NUL sees of it.
  \<^item> Failure: an operation of type \<open>'s \<Rightarrow> ('a \<times> 's) option\<close> returns \<open>None\<close> exactly where
    the C code would have no defined behaviour left (a dangling or NULL pointer is followed,
    memory outside a buffer is read, a counter's assertion fails, the C stack overflows, a
    signed integer overflows).  An error the code handles is never \<open>None\<close>: it is a value.

  The collections gather the facts that the component proofs pass to the simplifier.
\<close>

named_theorems heap_simps \<open>laws of the object store\<close>
named_theorems op_simps \<open>unfolding of monadic operations\<close>
named_theorems keeps \<open>what an operation leaves unchanged\<close>

unbundle bit_operations_syntax

type_synonym addr = nat
type_synonym b6b_int = "64 word"
type_synonym size_t = "64 word"
type_synonym u32 = "32 word"
type_synonym u8 = "8 word"

section \<open>Status codes\<close>

text \<open>\<^verbatim>\<open>enum b6b_res\<close> of include/b6b/core.h, in its order.\<close>

datatype b6b_res = B6B_OK | B6B_ERR | B6B_YIELD | B6B_BREAK | B6B_CONT | B6B_RET | B6B_EXIT

section \<open>C strings\<close>

definition NUL :: char where "NUL = CHR 0x00"

definition c_str :: "string \<Rightarrow> string" where
  "c_str s = takeWhile (\<lambda>c. c \<noteq> NUL) s"

text \<open>\<^verbatim>\<open>strcmp(a, b) == 0\<close> against a literal.\<close>

definition c_strcmp_eq :: "string \<Rightarrow> string \<Rightarrow> bool" where
  "c_strcmp_eq a b \<longleftrightarrow> c_str a = c_str b"

lemma c_str_no_nul: "NUL \<notin> set s \<Longrightarrow> c_str s = s"
  by (simp add: c_str_def takeWhile_eq_all_conv) metis

lemma NUL_notin_c_str: "NUL \<notin> set (c_str s)"
  unfolding c_str_def using set_takeWhileD by fastforce

lemma c_str_idem [simp]: "c_str (c_str s) = c_str s"
  by (rule c_str_no_nul) (rule NUL_notin_c_str)

text \<open>\<^verbatim>\<open>b6b_isspace\<close> of include/b6b/str.h.\<close>

definition b6b_isspace :: "char \<Rightarrow> bool" where
  "b6b_isspace c \<longleftrightarrow> c = CHR '' '' \<or> c = CHR 0x09 \<or> c = CHR 0x0A \<or> c = CHR 0x0D"

section \<open>Signed 64-bit integers\<close>

definition LLONG_MAX :: int where "LLONG_MAX = 2 ^ 63 - 1"
definition LLONG_MIN :: int where "LLONG_MIN = - (2 ^ 63)"

definition INT_MIN :: int where "INT_MIN = - (2 ^ 31)"
definition INT_MAX :: int where "INT_MAX = 2 ^ 31 - 1"

definition is_llong :: "int \<Rightarrow> bool" where
  "is_llong i \<longleftrightarrow> LLONG_MIN \<le> i \<and> i \<le> LLONG_MAX"

lemma sint_llong: "is_llong (sint (w :: b6b_int))"
  using sint_ge [of w] sint_lt [of w] by (simp add: is_llong_def LLONG_MIN_def LLONG_MAX_def)

lemma sint_of_int: "is_llong i \<Longrightarrow> sint (word_of_int i :: b6b_int) = i"
  by (simp add: is_llong_def LLONG_MIN_def LLONG_MAX_def int_word_sint)

text \<open>Signed addition that overflows has no defined result in C.\<close>

definition add_llong :: "b6b_int \<Rightarrow> b6b_int \<Rightarrow> b6b_int option" where
  "add_llong a b = (if is_llong (sint a + sint b) then Some (word_of_int (sint a + sint b)) else None)"

section \<open>Lists\<close>

lemma set_takeWhile_P: "x \<in> set (takeWhile P xs) \<Longrightarrow> P x"
  by (induction xs) (auto split: if_splits)

lemma takeWhile_all_app:
  assumes "\<forall>x\<in>set xs. P x"
  shows "takeWhile P (xs @ ys) = xs @ takeWhile P ys"
    and "dropWhile P (xs @ ys) = dropWhile P ys"
  using assms by (induction xs) auto

section \<open>Results that carry a state\<close>

lemma bind_SomeE:
  assumes "Option.bind x f = Some y"
  obtains z where "x = Some z" and "f z = Some y"
  using assms by (cases x) auto

lemmas bind_Some = Option.bind_eq_Some_conv

end
