(* ===== verification/Hash.thy ===== *)
theory Hash
  imports Prelude
begin

text \<open>
  The string hash of include/b6b/hash.h and src/b6b_hash.c: one-at-a-time hashing on
  \<^verbatim>\<open>uint32_t\<close>, kept at its width, so every addition and shift wraps as in the code.
\<close>

definition b6b_hash_init :: u32 where
  "b6b_hash_init = 0"

text \<open>One round of the loop, for one byte.\<close>

definition b6b_hash_byte :: "u32 \<Rightarrow> char \<Rightarrow> u32" where
  "b6b_hash_byte hash c =
     (let h = hash + (of_char c + push_bit 10 hash) in h XOR drop_bit 6 h)"

fun b6b_hash_update :: "u32 \<Rightarrow> string \<Rightarrow> u32" where
  "b6b_hash_update hash [] = hash"
| "b6b_hash_update hash (c # buf) = b6b_hash_update (b6b_hash_byte hash c) buf"

definition b6b_hash_finish :: "u32 \<Rightarrow> u32" where
  "b6b_hash_finish hash =
     (let h1 = hash + push_bit 3 hash; h2 = h1 XOR drop_bit 11 h1 in h2 + push_bit 15 h2)"

definition b6b_hash :: "string \<Rightarrow> u32" where
  "b6b_hash buf = b6b_hash_finish (b6b_hash_update b6b_hash_init buf)"

text \<open>Feeding a string in two parts gives the hash of the whole.\<close>

lemma b6b_hash_update_append:
  "b6b_hash_update h (xs @ ys) = b6b_hash_update (b6b_hash_update h xs) ys"
  by (induction xs arbitrary: h) auto

section \<open>One changed byte always changes the hash\<close>

text \<open>
  Every step is a bijection of the 32-bit words: a multiplication by an odd number, the xor
  with the value shifted right, the addition of the byte.  So two strings of equal length
  that differ in one byte have different hashes.
\<close>

lemma xor_shift_inj:
  fixes a b :: u32
  assumes "a XOR drop_bit k a = b XOR drop_bit k b" and "0 < k"
  shows "a = b"
proof (rule bit_word_eqI)
  fix n :: nat
  assume "n < LENGTH(32)"
  have eq: "bit (a XOR drop_bit k a) j = bit (b XOR drop_bit k b) j" for j
    using assms by simp
  show "bit a n = bit b n"
  proof (induction "32 - n" arbitrary: n rule: less_induct)
    case less
    show ?case
    proof (cases "n < 32")
      case True
      then have "bit a (n + k) = bit b (n + k)" using \<open>0 < k\<close> by (intro less) simp
      with eq [of n] show ?thesis by (auto simp: bit_xor_iff bit_drop_bit_eq add.commute)
    next
      case False
      then show ?thesis using bit_imp_le_length [of a n] bit_imp_le_length [of b n] by fastforce
    qed
  qed
qed

lemma mult_inverse_inj:
  fixes a b m i :: u32
  assumes "a * m = b * m" and "m * i = 1"
  shows "a = b"
proof -
  have "a * (m * i) = b * (m * i)" using assms(1) by (metis mult.assoc)
  with assms(2) show ?thesis by simp
qed

lemma shift_add_mult:
  fixes a :: u32
  shows "a + push_bit k a = a * (1 + 2 ^ k)"
  by (simp add: push_bit_eq_mult algebra_simps)

lemma b6b_hash_byte_inj_hash:
  assumes "b6b_hash_byte g c = b6b_hash_byte h c"
  shows "g = h"
proof -
  have "g + (of_char c + push_bit 10 g) = h + (of_char c + push_bit 10 h)"
    using assms unfolding b6b_hash_byte_def Let_def by (rule xor_shift_inj) simp
  then have "g + push_bit 10 g = h + push_bit 10 h" by (simp add: algebra_simps)
  then have "g * 1025 = h * 1025" by (simp add: shift_add_mult)
  then show ?thesis by (rule mult_inverse_inj [where i = 3222273025]) simp
qed

lemma of_char_u32_inj: "(of_char c :: u32) = of_char d \<Longrightarrow> c = d"
proof -
  assume eq: "(of_char c :: u32) = of_char d"
  have "unat (of_char x :: u32) = (of_char x :: nat)" for x
  proof -
    have "(of_char x :: nat) mod 4294967296 = of_char x"
      by (rule mod_less) (rule less_le_trans [OF nat_of_char_less_256], simp)
    then have "unat (of_nat (of_char x :: nat) :: u32) = of_char x"
      by (simp add: unat_of_nat del: of_nat_of_char)
    then show ?thesis by (simp only: of_nat_of_char)
  qed
  with eq have "(of_char c :: nat) = of_char d" by metis
  then show "c = d" by simp
qed

lemma b6b_hash_byte_inj_char:
  assumes "b6b_hash_byte h c = b6b_hash_byte h d"
  shows "c = d"
proof -
  have "h + (of_char c + push_bit 10 h) = h + (of_char d + push_bit 10 h)"
    using assms unfolding b6b_hash_byte_def Let_def by (rule xor_shift_inj) simp
  then show ?thesis by (simp add: of_char_u32_inj)
qed

lemma b6b_hash_update_inj:
  "b6b_hash_update g xs = b6b_hash_update h xs \<Longrightarrow> g = h"
  by (induction xs arbitrary: g h) (auto dest: b6b_hash_byte_inj_hash)

lemma b6b_hash_finish_inj:
  assumes "b6b_hash_finish g = b6b_hash_finish h"
  shows "g = h"
proof -
  define x where "x g = (g + push_bit 3 g) XOR drop_bit 11 (g + push_bit 3 g)" for g :: u32
  have "x g * 32769 = x h * 32769"
    using assms unfolding b6b_hash_finish_def Let_def x_def [symmetric] shift_add_mult [of "x _"]
    by simp
  then have "x g = x h" by (rule mult_inverse_inj [where i = 1073709057]) simp
  then have "g + push_bit 3 g = h + push_bit 3 h"
    unfolding x_def by (rule xor_shift_inj) simp
  then have "g * 9 = h * 9" by (simp add: shift_add_mult)
  then show ?thesis by (rule mult_inverse_inj [where i = 954437177]) simp
qed

text \<open>
  C31. Two strings that agree but for one byte have different hashes, so \<^verbatim>\<open>b6b_obj_eq\<close> and the
  dictionary never take the hash comparison to the bytes for such a pair.
\<close>

theorem b6b_hash_one_byte:
  "b6b_hash (xs @ c # ys) = b6b_hash (xs @ d # ys) \<longleftrightarrow> c = d"
proof
  assume "b6b_hash (xs @ c # ys) = b6b_hash (xs @ d # ys)"
  then have "b6b_hash_byte (b6b_hash_update b6b_hash_init xs) c = b6b_hash_byte (b6b_hash_update b6b_hash_init xs) d"
    unfolding b6b_hash_def by (auto simp: b6b_hash_update_append dest!: b6b_hash_finish_inj b6b_hash_update_inj)
  then show "c = d" by (rule b6b_hash_byte_inj_char)
qed simp

end
