(* ===== verification/Text.thy ===== *)
theory Text
  imports Prelude
begin

text \<open>
  The text of lists: how \<^verbatim>\<open>b6b_as_str\<close> (src/b6b_str.c) writes a list and how
  \<^verbatim>\<open>b6b_do_as_list\<close> (src/b6b_list.c) reads one.  A pointer into the text together with the
  number of bytes left is the suffix of the text that starts there, so \<open>s[i]\<close>, \<open>s[i+1]\<close>, ...
  are the characters of the suffix.  The brace and bracket counters are \<^verbatim>\<open>size_t\<close> and wrap.
  The round trip, and where it is lost, close the theory.
\<close>

section \<open>Writing a list\<close>

text \<open>\<^verbatim>\<open>b6b_spaced\<close>\<close>

definition b6b_spaced :: "string \<Rightarrow> bool" where
  "b6b_spaced s \<longleftrightarrow> (\<exists>c \<in> set s. b6b_isspace c)"

text \<open>
  One round of the loop of \<^verbatim>\<open>b6b_as_str\<close>: the text built so far (\<open>None\<close> while \<open>o->s\<close> is still
  \<^verbatim>\<open>NULL\<close>) and the string of the next item.
\<close>

definition render_item :: "string option \<Rightarrow> string \<Rightarrow> string" where
  "render_item acc s =
     (if s \<noteq> [] then
        (if b6b_spaced s then
           (case acc of
              Some p \<Rightarrow> p @ '' {'' @ s @ ''}''
            | None \<Rightarrow> ''{'' @ s @ ''}'')
         else
           (case acc of
              Some p \<Rightarrow> p @ '' '' @ s
            | None \<Rightarrow> s))
      else
        (case acc of
           Some p \<Rightarrow> p @ '' {}''
         | None \<Rightarrow> ''{}''))"

fun render_from :: "string option \<Rightarrow> string list \<Rightarrow> string option" where
  "render_from acc [] = acc"
| "render_from acc (s # ss) = render_from (Some (render_item acc s)) ss"

text \<open>The whole text; the empty list is a special case.\<close>

definition render :: "string list \<Rightarrow> string" where
  "render ss = (case render_from None ss of None \<Rightarrow> ''{}'' | Some t \<Rightarrow> t)"

section \<open>Reading a list\<close>

text \<open>
  The scan for the brace that closes a token, \<open>nbrac\<close> braces being open: the text before the
  closing brace and the text after it, \<open>None\<close> when the end of the text comes first.
\<close>

fun scan_brac :: "size_t \<Rightarrow> string \<Rightarrow> (string \<times> string) option" where
  "scan_brac nbrac [] = None"
| "scan_brac nbrac (c # cs) =
     (if c = CHR ''{'' then
        map_option (apfst ((#) c)) (scan_brac (nbrac + 1) cs)
      else if c = CHR ''}'' then
        (if nbrac - 1 = 0 then Some ([], cs)
         else map_option (apfst ((#) c)) (scan_brac (nbrac - 1) cs))
      else map_option (apfst ((#) c)) (scan_brac nbrac cs))"

text \<open>
  The scan for the bracket that closes a token: the text up to and including that bracket and
  the text after it.  A closing bracket counts even inside braces, but ends the token only
  when no brace is open.
\<close>

fun scan_brak :: "size_t \<Rightarrow> size_t \<Rightarrow> string \<Rightarrow> (string \<times> string) option" where
  "scan_brak nbrak nbrac [] = None"
| "scan_brak nbrak nbrac (c # cs) =
     (if c = CHR ''{'' then
        map_option (apfst ((#) c)) (scan_brak nbrak (nbrac + 1) cs)
      else if c = CHR ''}'' then
        map_option (apfst ((#) c)) (scan_brak nbrak (nbrac - 1) cs)
      else if c = CHR ''['' then
        map_option (apfst ((#) c)) (scan_brak (nbrak + 1) nbrac cs)
      else if c = CHR '']'' then
        (if nbrak - 1 = 0 \<and> nbrac = 0 then Some ([c], cs)
         else map_option (apfst ((#) c)) (scan_brak (nbrak - 1) nbrac cs))
      else map_option (apfst ((#) c)) (scan_brak nbrak nbrac cs))"

text \<open>One round of the loop of \<^verbatim>\<open>b6b_do_as_list\<close>, whitespace skipped.\<close>

datatype token = Tok_end | Tok_bad | Tok string string

fun next_token :: "string \<Rightarrow> token" where
  "next_token [] = Tok_end"
| "next_token (c # cs) =
     (if c = CHR ''{'' then
        (case scan_brac 1 cs of None \<Rightarrow> Tok_bad | Some (item, rest) \<Rightarrow> Tok item rest)
      else if c = CHR ''['' then
        (case scan_brak 1 0 cs of None \<Rightarrow> Tok_bad | Some (item, rest) \<Rightarrow> Tok (c # item) rest)
      else if b6b_isspace c then next_token cs
      else Tok (c # takeWhile (\<lambda>d. \<not> b6b_isspace d) cs)
               (drop 1 (dropWhile (\<lambda>d. \<not> b6b_isspace d) cs)))"

lemma scan_brac_shorter:
  "scan_brac n s = Some (item, rest) \<Longrightarrow> length item + length rest < length s"
  by (induction n s arbitrary: item rule: scan_brac.induct) (fastforce split: if_splits)+

lemma scan_brak_shorter:
  "scan_brak n m s = Some (item, rest) \<Longrightarrow> length rest < length s"
  by (induction n m s arbitrary: item rule: scan_brak.induct) (fastforce split: if_splits)+

lemma drop_dropWhile_le: "length (drop n (dropWhile P xs)) \<le> length xs"
  by (metis diff_le_self le_trans length_drop length_dropWhile_le)

lemma next_token_shorter:
  "next_token s = Tok item rest \<Longrightarrow> length rest < length s"
proof (induction s rule: next_token.induct)
  case (2 c cs)
  then show ?case
    using drop_dropWhile_le [of 1 "\<lambda>d. \<not> b6b_isspace d" cs]
    by (auto split: if_splits option.splits dest: scan_brac_shorter scan_brak_shorter)
qed simp

text \<open>The strings of the items that a text stands for; \<open>None\<close> when it is malformed.\<close>

function tokens :: "string \<Rightarrow> string list option" where
  "tokens s =
     (case next_token s of
        Tok_end \<Rightarrow> Some []
      | Tok_bad \<Rightarrow> None
      | Tok item rest \<Rightarrow> map_option ((#) item) (tokens rest))"
  by pat_completeness auto
termination
  by (relation "measure length") (auto dest: next_token_shorter)

declare tokens.simps [simp del]

text \<open>The items that are read before the end of the text or the first error, and which it is.\<close>

function lex :: "string \<Rightarrow> string list \<times> bool" where
  "lex s =
     (case next_token s of
        Tok_end \<Rightarrow> ([], True)
      | Tok_bad \<Rightarrow> ([], False)
      | Tok item rest \<Rightarrow> (case lex rest of (ss, ok) \<Rightarrow> (item # ss, ok)))"
  by pat_completeness auto
termination
  by (relation "measure length") (auto dest: next_token_shorter)

declare lex.simps [simp del]

lemma tokens_lex: "tokens s = (if snd (lex s) then Some (fst (lex s)) else None)"
proof (induction s rule: tokens.induct)
  case (1 s)
  then show ?case
    by (subst tokens.simps, subst (1 2) lex.simps) (auto split: token.splits prod.splits)
qed

section \<open>The round trip\<close>

lemma scan_brac_append:
  "scan_brac n s = Some (item, rest) \<Longrightarrow> scan_brac n (s @ r) = Some (item, rest @ r)"
  by (induction n s arbitrary: item rule: scan_brac.induct) (fastforce split: if_splits)+

lemma scan_brak_append:
  "scan_brak n m s = Some (item, rest) \<Longrightarrow> scan_brak n m (s @ r) = Some (item, rest @ r)"
  by (induction n m s arbitrary: item rule: scan_brak.induct) (fastforce split: if_splits)+

text \<open>What the reader has to find in an item: the item up to its end, and nothing behind it.\<close>

definition item_ok :: "string \<Rightarrow> bool" where
  "item_ok s \<longleftrightarrow>
     (if s = [] then True
      else if b6b_spaced s then scan_brac 1 (s @ ''}'') = Some (s, [])
      else if hd s = CHR ''{'' then False
      else if hd s = CHR ''['' then scan_brak 1 0 (tl s) = Some (tl s, [])
      else True)"

definition quote :: "string \<Rightarrow> string" where
  "quote s = (if s = [] then ''{}'' else if b6b_spaced s then ''{'' @ s @ ''}'' else s)"

lemma render_item_quote:
  "render_item None s = quote s"
  "render_item (Some p) s = p @ '' '' @ quote s"
  by (auto simp: render_item_def quote_def)

lemma render_from_Some:
  "render_from (Some p) ss = Some (p @ concat (map (\<lambda>s. '' '' @ quote s) ss))"
  by (induction ss arbitrary: p) (auto simp: render_item_quote)

lemma render_Cons:
  "render (s # ss) = quote s @ concat (map (\<lambda>s. '' '' @ quote s) ss)"
  by (simp add: render_def render_item_quote render_from_Some)

lemma isspace_simps [simp]:
  "b6b_isspace CHR '' ''" "\<not> b6b_isspace CHR ''{''" "\<not> b6b_isspace CHR ''}''"
  "\<not> b6b_isspace CHR ''[''" "\<not> b6b_isspace CHR '']''"
  by (simp_all add: b6b_isspace_def)

text \<open>What follows an item in the text of a list.\<close>

definition sep_or_end :: "string \<Rightarrow> bool" where
  "sep_or_end r \<longleftrightarrow> r = [] \<or> (\<exists>r'. r = CHR '' '' # r')"

lemma next_token_quote:
  assumes "item_ok s" and "sep_or_end r"
  shows "\<exists>r'. next_token (quote s @ r) = Tok s r' \<and> (r' = r \<or> r = CHR '' '' # r' \<or> (r = [] \<and> r' = []))"
proof -
  consider (empty) "s = []" | (spaced) "s \<noteq> []" "b6b_spaced s" | (plain) "s \<noteq> []" "\<not> b6b_spaced s"
    by blast
  then show ?thesis
  proof cases
    case empty
    then show ?thesis by (simp add: quote_def)
  next
    case spaced
    then have "scan_brac 1 (s @ ''}'') = Some (s, [])"
      using assms(1) by (simp add: item_ok_def)
    from scan_brac_append [OF this, of r] spaced show ?thesis
      by (simp add: quote_def)
  next
    case plain
    then obtain c cs where s: "s = c # cs" by (cases s) auto
    have nsp: "\<not> b6b_isspace c" "\<forall>d\<in>set cs. \<not> b6b_isspace d"
      using plain s by (auto simp: b6b_spaced_def)
    show ?thesis
    proof (cases "c = CHR ''[''")
      case True
      then have "scan_brak 1 0 cs = Some (cs, [])"
        using assms(1) plain s by (simp add: item_ok_def)
      from scan_brak_append [OF this, of r] True plain s show ?thesis
        by (simp add: quote_def)
    next
      case False
      then have "c \<noteq> CHR ''{''" using assms(1) plain s by (auto simp: item_ok_def)
      with False nsp plain s assms(2) show ?thesis
        by (auto simp: quote_def takeWhile_all_app sep_or_end_def)
    qed
  qed
qed

lemma tokens_space: "tokens (CHR '' '' # r) = tokens r"
  by (subst (1 2) tokens.simps) simp

lemma tokens_Nil: "tokens [] = Some []"
  by (subst tokens.simps) simp

lemma tokens_quote:
  assumes "item_ok s" and "sep_or_end r"
  shows "tokens (quote s @ r) = map_option ((#) s) (tokens r)"
proof -
  obtain r' where "next_token (quote s @ r) = Tok s r'"
    and "r' = r \<or> r = CHR '' '' # r' \<or> (r = [] \<and> r' = [])"
    using next_token_quote [OF assms] by blast
  then show ?thesis
    by (subst tokens.simps) (auto simp: tokens_space)
qed

lemma tokens_items:
  "\<forall>s\<in>set ss. item_ok s \<Longrightarrow> tokens (concat (map (\<lambda>s. '' '' @ quote s) ss)) = Some ss"
proof (induction ss)
  case Nil
  then show ?case by (simp add: tokens_Nil)
next
  case (Cons s ss)
  have "sep_or_end (concat (map (\<lambda>s. '' '' @ quote s) ss))"
    by (cases ss) (auto simp: sep_or_end_def)
  then have "tokens (quote s @ concat (map (\<lambda>s. '' '' @ quote s) ss)) = Some (s # ss)"
    using Cons by (simp add: tokens_quote)
  then show ?case by (simp add: tokens_space)
qed

lemma tokens_render_ok:
  assumes "ss \<noteq> []" and "\<forall>s\<in>set ss. item_ok s"
  shows "tokens (render ss) = Some ss"
proof (cases ss)
  case Nil
  with assms(1) show ?thesis by simp
next
  case (Cons t ts)
  have "sep_or_end (concat (map (\<lambda>s. '' '' @ quote s) ts))"
    by (cases ts) (auto simp: sep_or_end_def)
  moreover have "tokens (concat (map (\<lambda>s. '' '' @ quote s) ts)) = Some ts"
    using Cons assms(2) by (intro tokens_items) simp
  ultimately show ?thesis
    using Cons assms(2) by (simp only: render_Cons tokens_quote list.set_intros option.map)
qed

section \<open>The items that survive\<close>

text \<open>
  The grammar of these items, which knows nothing of the reader: texts in which braces match,
  and texts in which braces and brackets match and are nested properly.
\<close>

inductive balanced :: "string \<Rightarrow> bool" where
  balanced_Nil: "balanced []"
| balanced_char: "c \<notin> {CHR ''{'', CHR ''}''} \<Longrightarrow> balanced s \<Longrightarrow> balanced (c # s)"
| balanced_braces: "balanced s \<Longrightarrow> balanced t \<Longrightarrow> balanced (CHR ''{'' # s @ CHR ''}'' # t)"

inductive nested :: "string \<Rightarrow> bool" where
  nested_Nil: "nested []"
| nested_char: "c \<notin> {CHR ''{'', CHR ''}'', CHR ''['', CHR '']''} \<Longrightarrow> nested s \<Longrightarrow> nested (c # s)"
| nested_braces: "nested s \<Longrightarrow> nested t \<Longrightarrow> nested (CHR ''{'' # s @ CHR ''}'' # t)"
| nested_brackets: "nested s \<Longrightarrow> nested t \<Longrightarrow> nested (CHR ''['' # s @ CHR '']'' # t)"

text \<open>
  An item with whitespace, which is written in braces, is balanced; one without, which is written as it
  is, does not start with a brace, and if it starts with a bracket it is one bracketed expression.
  The reader's counters of braces and brackets are of the width of a size, as is the length of a text.
\<close>

definition readable :: "string \<Rightarrow> bool" where
  "readable s \<longleftrightarrow> length s < 2 ^ 64 - 1
     \<and> (if b6b_spaced s then balanced s
        else s = [] \<or> hd s \<notin> {CHR ''{'', CHR ''[''} \<or> (\<exists>t. nested t \<and> s = CHR ''['' # t @ '']''))"

lemma size_Suc:
  assumes "unat (n :: size_t) + k < 2 ^ 64" and "0 < k"
  shows "unat (n + 1) = Suc (unat n)" and "n + 1 \<noteq> 0"
proof -
  have "unat n + unat (1 :: size_t) < 2 ^ 64" using assms by simp
  then have "unat (n + 1) = unat n + unat (1 :: size_t)" by (simp add: unat_word_ariths)
  then show "unat (n + 1) = Suc (unat n)" by simp
  then show "n + 1 \<noteq> 0" by auto
qed

lemma map_apfst_comp: "map_option (apfst f) (map_option (apfst g) x) = map_option (apfst (\<lambda>u. f (g u))) x"
  by (cases x) auto

lemma map_apfst_id: "map_option (apfst (\<lambda>u. u)) x = x"
  by (cases x) auto

lemma append_fun: "(@) (c # s) = (\<lambda>u. c # s @ u)" "(@) (s @ t) = (\<lambda>u. s @ t @ u)"
  by auto

lemmas map_apfst = map_apfst_comp map_apfst_id append_fun

text \<open>The scans pass over such texts.\<close>

lemma scan_brac_balanced:
  "balanced s \<Longrightarrow> n \<noteq> 0 \<Longrightarrow> unat n + length s < 2 ^ 64 \<Longrightarrow>
     scan_brac n (s @ r) = map_option (apfst ((@) s)) (scan_brac n r)"
proof (induction arbitrary: n r rule: balanced.induct)
  case balanced_Nil
  then show ?case by (simp add: map_apfst)
next
  case (balanced_char c s)
  then show ?case by (simp add: map_apfst)
next
  case (balanced_braces s t)
  note n = size_Suc [of n "length (CHR ''{'' # s @ CHR ''}'' # t)"]
  have "scan_brac (n + 1) (s @ CHR ''}'' # t @ r) = map_option (apfst ((@) s)) (scan_brac (n + 1) (CHR ''}'' # t @ r))"
    using balanced_braces.prems n by (intro balanced_braces.IH(1)) simp_all
  moreover have "scan_brac n (t @ r) = map_option (apfst ((@) t)) (scan_brac n r)"
    using balanced_braces.prems by (intro balanced_braces.IH(2)) simp_all
  ultimately show ?case using balanced_braces.prems(1) by (simp add: map_apfst)
qed

lemma scan_brak_nested:
  "nested s \<Longrightarrow> n \<noteq> 0 \<Longrightarrow> unat n + length s < 2 ^ 64 \<Longrightarrow>
     scan_brak n m (s @ r) = map_option (apfst ((@) s)) (scan_brak n m r)"
proof (induction arbitrary: n m r rule: nested.induct)
  case nested_Nil
  then show ?case by (simp add: map_apfst)
next
  case (nested_char c s)
  then show ?case by (simp add: map_apfst)
next
  case (nested_braces s t)
  have "scan_brak n (m + 1) (s @ CHR ''}'' # t @ r) = map_option (apfst ((@) s)) (scan_brak n (m + 1) (CHR ''}'' # t @ r))"
    using nested_braces.prems by (intro nested_braces.IH(1)) simp_all
  moreover have "scan_brak n m (t @ r) = map_option (apfst ((@) t)) (scan_brak n m r)"
    using nested_braces.prems by (intro nested_braces.IH(2)) simp_all
  ultimately show ?case by (simp add: map_apfst)
next
  case (nested_brackets s t)
  note n = size_Suc [of n "length (CHR ''['' # s @ CHR '']'' # t)"]
  have "scan_brak (n + 1) m (s @ CHR '']'' # t @ r) = map_option (apfst ((@) s)) (scan_brak (n + 1) m (CHR '']'' # t @ r))"
    using nested_brackets.prems n by (intro nested_brackets.IH(1)) simp_all
  moreover have "scan_brak n m (t @ r) = map_option (apfst ((@) t)) (scan_brak n m r)"
    using nested_brackets.prems by (intro nested_brackets.IH(2)) simp_all
  ultimately show ?case using nested_brackets.prems(1) by (simp add: map_apfst)
qed

lemma balanced_closed: "balanced s \<Longrightarrow> length s < 2 ^ 64 - 1 \<Longrightarrow> scan_brac 1 (s @ CHR ''}'' # r) = Some (s, r)"
  by (subst scan_brac_balanced) simp_all

lemma readable_ok: "readable s \<Longrightarrow> item_ok s"
  by (auto simp: readable_def item_ok_def balanced_closed scan_brak_nested split: if_splits)

text \<open>
  C29. Reading what was written gives the items back, for every non-empty list of readable items: items
  with whitespace in which the braces match, and items without whitespace that do not start with a
  brace and are one bracketed expression if they start with a bracket.  The empty list is written
  like the list of the empty item, and read as that.
\<close>

theorem tokens_render:
  assumes "\<forall>s\<in>set ss. readable s"
  shows "tokens (render ss) = Some (if ss = [] then [''''] else ss)"
proof (cases "ss = []")
  case True
  then show ?thesis by (simp add: render_def tokens.simps [of "''{}''"] tokens_Nil)
next
  case False
  then have "tokens (render ss) = Some ss"
    by (rule tokens_render_ok) (use assms readable_ok in blast)
  with False show ?thesis by simp
qed

lemma readable_demo:
  "readable ''a {b c}''" "readable []" "readable ''[$f{x}]''" "readable ''k}{''"
proof -
  have "balanced ''b c''" by (intro balanced.intros) simp_all
  from balanced_braces [OF this balanced_Nil] have "balanced ''{b c}''" by simp
  then have "balanced '' {b c}''" using balanced_char [of "CHR '' ''"] by simp
  then have "balanced ''a {b c}''" using balanced_char [of "CHR ''a''"] by simp
  then show "readable ''a {b c}''" by (simp add: readable_def b6b_spaced_def)
  have "nested ''x''" by (intro nested.intros) simp_all
  from nested_braces [OF this nested_Nil] have "nested ''{x}''" by simp
  then have "nested ''f{x}''" using nested_char [of "CHR ''f''"] by simp
  then have "nested ''$f{x}''" using nested_char [of "CHR ''$''"] by simp
  then show "readable ''[$f{x}]''" unfolding readable_def
    by (intro conjI) (auto simp: b6b_spaced_def b6b_isspace_def intro!: exI [of _ "''$f{x}''"])
qed (simp_all add: readable_def b6b_spaced_def b6b_isspace_def)

lemma tokens_render_witness:
  "tokens (render [''a {b c}'', [], ''[$f{x}]'', ''k}{'']) = Some [''a {b c}'', [], ''[$f{x}]'', ''k}{'']"
  using tokens_render [of "[''a {b c}'', [], ''[$f{x}]'', ''k}{'']"] readable_demo by simp

end
