(* ===== verification/CDouble.thy ===== *)
theory CDouble
  imports Prelude
begin

text \<open>
  The C arithmetic behind \<^verbatim>\<open>b6b_float\<close> (\<^verbatim>\<open>double\<close>, include/b6b/obj.h): IEEE binary64 with
  rounding to nearest even, \<^verbatim>\<open>strtod\<close> in the C locale, \<^verbatim>\<open>printf("%.12f")\<close>, \<^verbatim>\<open>floor\<close> and the
  conversions to and from \<^verbatim>\<open>long long\<close>.  A finite value is a sign, a significand and an
  exponent, \<open>(-1)\<^sup>s \<cdot> m \<cdot> 2\<^sup>e\<close>, with \<open>m < 2\<^sup>5\<^sup>3\<close> and \<open>-1074 \<le> e \<le> 971\<close>.  The sign of a NaN,
  which C leaves open, is not modelled.
\<close>

datatype dbl = DNan | DInf bool | DFin bool int int

section \<open>Rounding\<close>

text \<open>
  Significands and quotients are computed on integers that are never negative; the sign is
  kept apart.
\<close>

function bitlen :: "int \<Rightarrow> int" where
  "bitlen n = (if n \<le> 0 then 0 else 1 + bitlen (n div 2))"
  by pat_completeness auto
termination
  by (relation "measure nat") auto

declare bitlen.simps [simp del]

text \<open>The quotient \<open>n / d\<close> rounded to the nearest integer, ties to even.\<close>

definition rne :: "int \<Rightarrow> int \<Rightarrow> int" where
  "rne n d = (let q = n div d; r = n mod d in
     if 2 * r < d then q else if 2 * r > d then q + 1 else if even q then q else q + 1)"

text \<open>\<open>n / d * 2 ^ t\<close> as a fraction.\<close>

definition scale :: "int \<Rightarrow> int \<Rightarrow> int \<Rightarrow> int \<times> int" where
  "scale n d t = (if 0 \<le> t then (n * 2 ^ nat t, d) else (n, d * 2 ^ nat (- t)))"

text \<open>The double nearest to \<open>(-1)\<^sup>s \<cdot> (n / d) \<cdot> 2\<^sup>k\<close>, for \<open>n \<ge> 0\<close> and \<open>d > 0\<close>.\<close>

definition dround :: "bool \<Rightarrow> int \<Rightarrow> int \<Rightarrow> int \<Rightarrow> dbl" where
  "dround s n d k =
     (if n = 0 then DFin s 0 (-1074)
      else let b = bitlen n - bitlen d + k;
               e0 = max (-1074) (b - 53);
               (n0, d0) = scale n d (k - e0);
               e = (if 2 ^ 53 \<le> n0 div d0 then e0 + 1 else e0);
               (n1, d1) = scale n d (k - e);
               q = rne n1 d1;
               (m, e') = (if q = 2 ^ 53 then (2 ^ 52, e + 1) else (q, e))
           in if e' > 971 then DInf s else DFin s m e')"

section \<open>Arithmetic\<close>

definition signed_of :: "bool \<Rightarrow> int \<Rightarrow> int" where
  "signed_of s m = (if s then - m else m)"

definition dof_int :: "int \<Rightarrow> dbl" where
  "dof_int i = dround (i < 0) \<bar>i\<bar> 1 0"

fun dneg :: "dbl \<Rightarrow> dbl" where
  "dneg DNan = DNan"
| "dneg (DInf s) = DInf (\<not> s)"
| "dneg (DFin s m e) = DFin (\<not> s) m e"

fun dadd :: "dbl \<Rightarrow> dbl \<Rightarrow> dbl" where
  "dadd DNan _ = DNan"
| "dadd _ DNan = DNan"
| "dadd (DInf s) (DInf t) = (if s = t then DInf s else DNan)"
| "dadd (DInf s) (DFin _ _ _) = DInf s"
| "dadd (DFin _ _ _) (DInf t) = DInf t"
| "dadd (DFin s m e) (DFin t n f) =
     (let g = min e f;
          v = signed_of s m * 2 ^ nat (e - g) + signed_of t n * 2 ^ nat (f - g)
      in if v = 0 then DFin (s \<and> t) 0 (-1074) else dround (v < 0) \<bar>v\<bar> 1 g)"

definition dsub :: "dbl \<Rightarrow> dbl \<Rightarrow> dbl" where
  "dsub a b = dadd a (dneg b)"

fun dmul :: "dbl \<Rightarrow> dbl \<Rightarrow> dbl" where
  "dmul DNan _ = DNan"
| "dmul _ DNan = DNan"
| "dmul (DInf s) (DInf t) = DInf (s \<noteq> t)"
| "dmul (DInf s) (DFin t n _) = (if n = 0 then DNan else DInf (s \<noteq> t))"
| "dmul (DFin s m _) (DInf t) = (if m = 0 then DNan else DInf (s \<noteq> t))"
| "dmul (DFin s m e) (DFin t n f) = dround (s \<noteq> t) (m * n) 1 (e + f)"

fun ddiv :: "dbl \<Rightarrow> dbl \<Rightarrow> dbl" where
  "ddiv DNan _ = DNan"
| "ddiv _ DNan = DNan"
| "ddiv (DInf s) (DInf t) = DNan"
| "ddiv (DInf s) (DFin t _ _) = DInf (s \<noteq> t)"
| "ddiv (DFin s m _) (DInf t) = DFin (s \<noteq> t) 0 (-1074)"
| "ddiv (DFin s m e) (DFin t n f) =
     (if n = 0 then (if m = 0 then DNan else DInf (s \<noteq> t))
      else dround (s \<noteq> t) m n (e - f))"

text \<open>Comparison: \<open>None\<close> when a NaN is involved, else the sign of \<open>a - b\<close>.\<close>

fun dcmp :: "dbl \<Rightarrow> dbl \<Rightarrow> int option" where
  "dcmp DNan _ = None"
| "dcmp _ DNan = None"
| "dcmp (DInf s) (DInf t) = Some (if s = t then 0 else if s then -1 else 1)"
| "dcmp (DInf s) (DFin _ _ _) = Some (if s then -1 else 1)"
| "dcmp (DFin _ _ _) (DInf t) = Some (if t then 1 else -1)"
| "dcmp (DFin s m e) (DFin t n f) =
     (let g = min e f
      in Some (sgn (signed_of s m * 2 ^ nat (e - g) - signed_of t n * 2 ^ nat (f - g))))"

definition dlt :: "dbl \<Rightarrow> dbl \<Rightarrow> bool" where "dlt a b \<longleftrightarrow> dcmp a b = Some (-1)"
definition dle :: "dbl \<Rightarrow> dbl \<Rightarrow> bool" where "dle a b \<longleftrightarrow> dcmp a b = Some (-1) \<or> dcmp a b = Some 0"
definition deq :: "dbl \<Rightarrow> dbl \<Rightarrow> bool" where "deq a b \<longleftrightarrow> dcmp a b = Some 0"

definition dzero :: dbl where "dzero = DFin False 0 (-1074)"

text \<open>\<^verbatim>\<open>d ? 1 : 0\<close>: everything but the two zeros is true.\<close>

definition dtrue :: "dbl \<Rightarrow> bool" where "dtrue d \<longleftrightarrow> \<not> deq d dzero"

text \<open>\<^verbatim>\<open>floor\<close>: the integer below a finite value.\<close>

fun dfloor :: "dbl \<Rightarrow> int option" where
  "dfloor (DFin s m e) =
     Some (if 0 \<le> e then signed_of s m * 2 ^ nat e else signed_of s m div 2 ^ nat (- e))"
| "dfloor _ = None"

text \<open>
  \<^verbatim>\<open>(b6b_int)floor(f)\<close> between \<^verbatim>\<open>feclearexcept\<close> and \<^verbatim>\<open>fetestexcept(FE_INVALID)\<close>:
  \<open>None\<close> when the conversion raises FE_INVALID (a NaN, an infinity, out of range).
\<close>

definition d_to_llong :: "dbl \<Rightarrow> b6b_int option" where
  "d_to_llong d = (case dfloor d of
       None \<Rightarrow> None
     | Some i \<Rightarrow> if is_llong i then Some (word_of_int i) else None)"

text \<open>
  \<^verbatim>\<open>remainder(m, n)\<close> between \<^verbatim>\<open>feclearexcept\<close> and the test of \<^verbatim>\<open>errno\<close> and
  \<^verbatim>\<open>FE_INVALID\<close>: \<open>None\<close> where one of them is set.  The result \<open>m - n * q\<close>, \<open>q\<close> the integer
  nearest to \<open>m / n\<close>, is exact.
\<close>

fun dremainder :: "dbl \<Rightarrow> dbl \<Rightarrow> dbl option" where
  "dremainder DNan _ = Some DNan"
| "dremainder _ DNan = Some DNan"
| "dremainder (DInf _) _ = None"
| "dremainder (DFin s m e) (DInf t) = Some (DFin s m e)"
| "dremainder (DFin s m e) (DFin t n f) =
     (if n = 0 then None
      else let g = min e f;
               a = m * 2 ^ nat (e - g);
               b = n * 2 ^ nat (f - g);
               v = a - b * rne a b;
               w = (if s then - v else v)
           in Some (if w = 0 then DFin s 0 (-1074) else dround (w < 0) \<bar>w\<bar> 1 g))"

section \<open>Text\<close>

definition digit_char :: "int \<Rightarrow> char" where
  "digit_char d = char_of (48 + d)"

function dec :: "int \<Rightarrow> string" where
  "dec n = (if n < 10 then [digit_char n] else dec (n div 10) @ [digit_char (n mod 10)])"
  by pat_completeness auto
termination
  by (relation "measure nat") auto

declare dec.simps [simp del]

text \<open>\<open>n\<close> in exactly \<open>k\<close> decimal digits.\<close>

fun dec_pad :: "nat \<Rightarrow> int \<Rightarrow> string" where
  "dec_pad 0 n = []"
| "dec_pad (Suc k) n = dec_pad k (n div 10) @ [digit_char (n mod 10)]"

text \<open>\<^verbatim>\<open>printf("%lld")\<close>, B6B_INT_FMT.\<close>

definition fmt_int :: "int \<Rightarrow> string" where
  "fmt_int i = (if i < 0 then CHR ''-'' # dec (- i) else dec i)"

text \<open>\<^verbatim>\<open>printf("%.12f")\<close>, B6B_FLOAT_FMT.\<close>

definition fmt_fixed12 :: "bool \<Rightarrow> int \<Rightarrow> string" where
  "fmt_fixed12 s N =
     (if s then ''-'' else '''') @ dec (N div 10 ^ 12) @ ''.'' @ dec_pad 12 (N mod 10 ^ 12)"

fun fmt_float :: "dbl \<Rightarrow> string" where
  "fmt_float DNan = ''nan''"
| "fmt_float (DInf s) = (if s then ''-inf'' else ''inf'')"
| "fmt_float (DFin s m e) =
     fmt_fixed12 s (if 0 \<le> e then m * 2 ^ nat e * 10 ^ 12
                    else rne (m * 10 ^ 12) (2 ^ nat (- e)))"

definition is_digit :: "char \<Rightarrow> bool" where
  "is_digit c \<longleftrightarrow> 48 \<le> (of_char c :: int) \<and> (of_char c :: int) \<le> 57"

definition to_lower :: "char \<Rightarrow> char" where
  "to_lower c = (let n = of_char c :: int in if 65 \<le> n \<and> n \<le> 90 then char_of (n + 32) else c)"

text \<open>The value of a hexadecimal digit; decimal digits are the first ten.\<close>

definition xdigit :: "char \<Rightarrow> int option" where
  "xdigit c = (let n = of_char (to_lower c) :: int in
     if 48 \<le> n \<and> n \<le> 57 then Some (n - 48)
     else if 97 \<le> n \<and> n \<le> 102 then Some (n - 87) else None)"

definition is_xdigit :: "char \<Rightarrow> bool" where
  "is_xdigit c \<longleftrightarrow> xdigit c \<noteq> None"

definition digits_val :: "int \<Rightarrow> string \<Rightarrow> int" where
  "digits_val base ds = foldl (\<lambda>acc c. base * acc + (case xdigit c of Some v \<Rightarrow> v | None \<Rightarrow> 0)) 0 ds"

text \<open>An optional sign and its remainder.\<close>

fun take_sign :: "string \<Rightarrow> bool \<times> string" where
  "take_sign (c # cs) =
     (if c = CHR ''-'' then (True, cs) else if c = CHR ''+'' then (False, cs) else (False, c # cs))"
| "take_sign [] = (False, [])"

text \<open>Digits, an optional point, more digits.\<close>

definition take_mantissa :: "(char \<Rightarrow> bool) \<Rightarrow> string \<Rightarrow> string \<times> string \<times> string" where
  "take_mantissa p s =
     (let ip = takeWhile p s; r = dropWhile p s in
      case r of
        c # r' \<Rightarrow>
          if c = CHR ''.'' \<and> (ip \<noteq> [] \<or> takeWhile p r' \<noteq> [])
          then (ip, takeWhile p r', dropWhile p r') else (ip, [], r)
      | [] \<Rightarrow> (ip, [], r))"

text \<open>An exponent part introduced by the letter \<open>x\<close>; no digits, no exponent part.\<close>

definition take_exponent :: "char \<Rightarrow> string \<Rightarrow> int \<times> string" where
  "take_exponent x s =
     (case s of
        [] \<Rightarrow> (0, [])
      | c # r \<Rightarrow>
          if to_lower c = x then
            (let (neg, r1) = take_sign r; ds = takeWhile is_digit r1 in
             if ds = [] then (0, s)
             else (signed_of neg (digits_val 10 ds), dropWhile is_digit r1))
          else (0, s))"

definition pow_frac :: "int \<Rightarrow> int \<Rightarrow> int \<times> int" where
  "pow_frac b k = (if 0 \<le> k then (b ^ nat k, 1) else (1, b ^ nat (- k)))"

definition has_prefix_ci :: "string \<Rightarrow> string \<Rightarrow> bool" where
  "has_prefix_ci p s \<longleftrightarrow> take (length p) (map to_lower s) = p"

text \<open>After \<open>nan\<close>: an optional parenthesised character sequence.\<close>

definition nan_rest :: "string \<Rightarrow> string" where
  "nan_rest s =
     (case s of
        [] \<Rightarrow> []
      | c # r \<Rightarrow>
          if c = CHR ''('' then
            (case dropWhile (\<lambda>c. is_digit c \<or> c = CHR ''_'' \<or>
                      (97 \<le> (of_char (to_lower c) :: int) \<and> (of_char (to_lower c) :: int) \<le> 122)) r of
               d # r' \<Rightarrow> if d = CHR '')'' then r' else s
             | [] \<Rightarrow> s)
          else s)"

definition is_cspace :: "char \<Rightarrow> bool" where
  "is_cspace c \<longleftrightarrow> c = CHR '' '' \<or> (9 \<le> (of_char c :: int) \<and> (of_char c :: int) \<le> 13)"

text \<open>The number after the sign, and what is left of the input; \<open>None\<close> if there is none.\<close>

definition strtod_body :: "bool \<Rightarrow> string \<Rightarrow> (dbl \<times> string) option" where
  "strtod_body neg s =
     (if has_prefix_ci ''infinity'' s then Some (DInf neg, drop 8 s)
      else if has_prefix_ci ''inf'' s then Some (DInf neg, drop 3 s)
      else if has_prefix_ci ''nan'' s then Some (DNan, nan_rest (drop 3 s))
      else
        let (hi, hf, hr) = take_mantissa is_xdigit (drop 2 s) in
        if has_prefix_ci ''0x'' s \<and> (hi \<noteq> [] \<or> hf \<noteq> []) then
          (let (x, r) = take_exponent (CHR ''p'') hr
           in Some (dround neg (digits_val 16 (hi @ hf)) 1 (x - 4 * int (length hf)), r))
        else
          (let (di, df, dr) = take_mantissa is_digit s in
           if di = [] \<and> df = [] then None
           else
             let (x, r) = take_exponent (CHR ''e'') dr;
                 (p, q) = pow_frac 10 (x - int (length df))
             in Some (dround neg (digits_val 10 (di @ df) * p) q 0, r)))"

text \<open>\<^verbatim>\<open>strtod(s, &p)\<close>: the value and the number of bytes consumed, \<open>p - s\<close>.\<close>

definition strtod :: "string \<Rightarrow> dbl \<times> nat" where
  "strtod s =
     (let (neg, r) = take_sign (dropWhile is_cspace s) in
      case strtod_body neg r of
        None \<Rightarrow> (dzero, 0)
      | Some (d, rest) \<Rightarrow> (d, length s - length rest))"

end
