(* ===== verification/Obj.thy ===== *)
theory Obj
  imports Hash Text CDouble
begin

text \<open>
  Objects and their lifetime: include/b6b/obj.h and src/b6b_obj.c.

  The heap is an explicit store from addresses to objects, so that sharing, in-place changes
  and reference counts are those of the code.  An address is never used twice.  A
  representation flag of \<^verbatim>\<open>struct b6b_obj\<close> is set exactly when the field is present:
  B6B_TYPE_STR and \<open>ob_s\<close>, B6B_TYPE_INT and \<open>ob_i\<close>, B6B_TYPE_FLOAT and \<open>ob_f\<close>,
  B6B_OBJ_HASHED and \<open>ob_hash\<close>, B6B_TYPE_LIST and \<open>ob_l\<close>; reading an absent field is
  undefined.  A list holds nodes (\<^verbatim>\<open>struct b6b_litem\<close>), each with an identity of its own,
  because the code keeps pointers to nodes while other code may free them.
  The second half shows that reference counting is exact: \<^verbatim>\<open>b6b_unref\<close> never follows a
  dangling pointer and leaves no object behind that nothing refers to.
\<close>

section \<open>Objects\<close>

text \<open>
  The function a \<^verbatim>\<open>b6b_procf\<close> points to, by the file that defines it; \<open>F_ext\<close> stands for
  the procedures of components outside this development.
\<close>

datatype core_fn = C_nop | C_echo | C_yield | C_return | C_continue | C_break | C_throw | C_exit
  | C_local | C_global | C_export | C_eval | C_repr | C_call | C_spawn | C_source
datatype logic_fn = L_not | L_eq | L_ne | L_and | L_or | L_xor | L_if
datatype loop_fn = Loop_map | Loop_loop | Loop_range
datatype list_fn = Li_new | Li_len | Li_copy | Li_append | Li_extend | Li_index | Li_range
  | Li_in | Li_pop
datatype dict_fn = D_get | D_set | D_unset
datatype str_fn = S_len | S_index | S_range | S_join | S_split | S_ord | S_chr | S_expand
  | S_in | S_rtrim | S_ltrim
datatype math_fn = M_add | M_sub | M_mul | M_div | M_mod | M_and | M_or | M_xor
  | M_lt | M_le | M_gt | M_ge
datatype rand_fn = R_choice | R_randint

datatype procf =
    F_obj \<comment> \<open>\<^verbatim>\<open>b6b_obj_proc\<close>, what \<^verbatim>\<open>b6b_new\<close> installs\<close>
  | F_proc \<comment> \<open>\<^verbatim>\<open>b6b_proc_proc\<close>, a procedure made by \<^verbatim>\<open>proc\<close>\<close>
  | F_proc_new \<comment> \<open>\<^verbatim>\<open>b6b_proc_proc_proc\<close>\<close>
  | F_try \<comment> \<open>\<^verbatim>\<open>b6b_exc_proc_try\<close>\<close>
  | F_core core_fn | F_logic logic_fn | F_loop loop_fn | F_list list_fn | F_dict dict_fn
  | F_str str_fn | F_math math_fn | F_rand rand_fn | F_ext nat

text \<open>
  The pair of \<^verbatim>\<open>del\<close> and \<^verbatim>\<open>priv\<close>: none; the body and the private data of a procedure
  (\<^verbatim>\<open>b6b_proc_del\<close>); an object kept alive (\<^verbatim>\<open>b6b_unref\<close> as \<^verbatim>\<open>del\<close>, src/b6b_strm.c);
  data of another component.
\<close>

datatype priv = No_priv | Priv_proc addr addr | Priv_unref addr | Priv_ext nat

type_synonym litem = nat

text \<open>\<open>Freed_items\<close> is a list head whose nodes were freed under it.\<close>

datatype lrep = No_list | Items "(litem \<times> addr) list" | Freed_items

record obj =
  ob_l :: lrep
  ob_s :: "string option"
  ob_i :: "b6b_int option"
  ob_f :: "dbl option"
  ob_hash :: "u32 option"
  ob_proc :: procf
  ob_priv :: priv
  ob_refc :: nat

section \<open>The store\<close>

record heap =
  cells :: "obj option list"
  next_li :: litem

definition hget :: "addr \<Rightarrow> heap \<Rightarrow> obj option" where
  "hget a h = (if a < length (cells h) then cells h ! a else None)"

definition hset :: "addr \<Rightarrow> obj \<Rightarrow> heap \<Rightarrow> heap" where
  "hset a ob h = h\<lparr>cells := (cells h)[a := Some ob]\<rparr>"

definition halloc :: "obj \<Rightarrow> heap \<Rightarrow> addr \<times> heap" where
  "halloc ob h = (length (cells h), h\<lparr>cells := cells h @ [Some ob]\<rparr>)"

definition hfree :: "addr \<Rightarrow> heap \<Rightarrow> heap" where
  "hfree a h = h\<lparr>cells := (cells h)[a := None]\<rparr>"

definition hupd :: "addr \<Rightarrow> (obj \<Rightarrow> obj) \<Rightarrow> heap \<Rightarrow> heap option" where
  "hupd a f h = map_option (\<lambda>ob. hset a (f ob) h) (hget a h)"

text \<open>
  What the rest of the development relies on: a store whose allocation is fresh and whose
  updates are local.
\<close>

locale object_store =
  fixes get :: "addr \<Rightarrow> 'h \<Rightarrow> 'o option"
    and set :: "addr \<Rightarrow> 'o \<Rightarrow> 'h \<Rightarrow> 'h"
    and new :: "'o \<Rightarrow> 'h \<Rightarrow> addr \<times> 'h"
    and free :: "addr \<Rightarrow> 'h \<Rightarrow> 'h"
  assumes get_set_law: "get a h = Some v \<Longrightarrow> get b (set a w h) = (if b = a then Some w else get b h)"
    and get_free_law: "get b (free a h) = (if b = a then None else get b h)"
    and get_new_law: "get b (snd (new w h)) = (if b = fst (new w h) then Some w else get b h)"
    and new_fresh: "get (fst (new w h)) h = None"
begin

lemma get_set_same: "get a h = Some v \<Longrightarrow> get a (set a w h) = Some w"
  by (simp add: get_set_law)

lemma get_set_other: "get a h = Some v \<Longrightarrow> b \<noteq> a \<Longrightarrow> get b (set a w h) = get b h"
  by (simp add: get_set_law)

lemma live_set: "get a h = Some v \<Longrightarrow> get b (set a w h) = None \<longleftrightarrow> get b h = None"
  by (simp add: get_set_law)

lemma new_live: "new w h = (a, h') \<Longrightarrow> get a h' = Some w"
  using get_new_law [of a w h] by simp

lemma new_old: "new w h = (a, h') \<Longrightarrow> get b h = Some v \<Longrightarrow> get b h' = Some v"
  using get_new_law [of b w h] new_fresh [of w h] by auto

lemma new_neq: "new w h = (a, h') \<Longrightarrow> get b h = Some v \<Longrightarrow> b \<noteq> a"
  using new_fresh [of w h] by auto

lemma set_free_other: "get b h = Some v \<Longrightarrow> a \<noteq> b \<Longrightarrow> get b (free a h) = Some v"
  by (simp add: get_free_law)

end

interpretation st: object_store hget hset halloc hfree
  by unfold_locales
    (auto simp: hget_def hset_def hfree_def halloc_def nth_append split: if_splits)

lemmas hget_hset = st.get_set_law and hget_hfree = st.get_free_law

lemma hget_halloc:
  "hget b (snd (halloc w h)) = (if b = fst (halloc w h) then Some w else hget b h)"
  by (rule st.get_new_law)

lemma hget_Some_less: "hget a h = Some ob \<Longrightarrow> a < length (cells h)"
  by (simp add: hget_def split: if_splits)

lemma hget_Some_nth: "hget a h = Some ob \<Longrightarrow> cells h ! a = Some ob"
  by (simp add: hget_def split: if_splits)

lemma hupd_Some: "hupd a f h = Some h' \<longleftrightarrow> (\<exists>ob. hget a h = Some ob \<and> h' = hset a (f ob) h)"
  by (auto simp: hupd_def)

lemma hset_fields [simp]:
  "next_li (hset a ob h) = next_li h" "length (cells (hset a ob h)) = length (cells h)"
  by (simp_all add: hset_def)

section \<open>References\<close>

fun priv_refs :: "priv \<Rightarrow> addr list" where
  "priv_refs (Priv_proc body p) = [p, body]"
| "priv_refs (Priv_unref a) = [a]"
| "priv_refs _ = []"

fun list_refs :: "lrep \<Rightarrow> addr list" where
  "list_refs (Items its) = map snd its"
| "list_refs _ = []"

text \<open>The references an object owns, in the order \<^verbatim>\<open>b6b_destroy\<close> gives them up.\<close>

definition refs_of :: "obj \<Rightarrow> addr list" where
  "refs_of ob = list_refs (ob_l ob) @ priv_refs (ob_priv ob)"

text \<open>\<^verbatim>\<open>b6b_new\<close>, with no representation yet.\<close>

definition new_obj :: obj where
  "new_obj = \<lparr>ob_l = No_list, ob_s = None, ob_i = None, ob_f = None, ob_hash = None,
     ob_proc = F_obj, ob_priv = No_priv, ob_refc = 1\<rparr>"

definition b6b_new :: "(obj \<Rightarrow> obj) \<Rightarrow> heap \<Rightarrow> addr \<times> heap" where
  "b6b_new init h = halloc (init new_obj) h"

definition b6b_ref :: "addr \<Rightarrow> heap \<Rightarrow> heap option" where
  "b6b_ref a h = hupd a (\<lambda>ob. ob\<lparr>ob_refc := Suc (ob_refc ob)\<rparr>) h"

text \<open>
  \<^verbatim>\<open>b6b_destroy_l\<close> on an object gives up the references of its nodes; a head whose nodes were
  freed before is followed to freed memory.
\<close>

definition destroy_refs :: "obj \<Rightarrow> addr list option" where
  "destroy_refs ob = (if ob_l ob = Freed_items then None else Some (refs_of ob))"

lemma destroy_refs_Some: "destroy_refs ob = Some rs \<longleftrightarrow> ob_l ob \<noteq> Freed_items \<and> rs = refs_of ob"
  by (auto simp: destroy_refs_def)

definition cell_size :: "obj option \<Rightarrow> nat" where
  "cell_size c = (case c of None \<Rightarrow> 0 | Some ob \<Rightarrow> length (refs_of ob))"

lemma sum_list_map_update:
  fixes f :: "'a \<Rightarrow> 'b :: comm_monoid_add"
  assumes "i < length xs"
  shows "sum_list (map f (xs[i := y])) + f (xs ! i) = sum_list (map f xs) + f y"
  using assms
proof (induction xs arbitrary: i)
  case Nil
  then show ?case by simp
next
  case (Cons x xs)
  show ?case
  proof (cases i)
    case 0
    then show ?thesis by (simp add: add.commute add.left_commute)
  next
    case (Suc j)
    with Cons show ?thesis by (simp add: add.assoc)
  qed
qed

lemma hfree_size:
  assumes "hget a h = Some ob"
  shows "sum_list (map cell_size (cells (hfree a h))) + length (refs_of ob)
       = sum_list (map cell_size (cells h))"
  using sum_list_map_update [of a "cells h" cell_size None] assms
  by (simp add: hfree_def cell_size_def hget_Some_less hget_Some_nth)

lemma hset_size:
  assumes "hget a h = Some ob" and "refs_of ob' = refs_of ob"
  shows "sum_list (map cell_size (cells (hset a ob' h))) = sum_list (map cell_size (cells h))"
  using sum_list_map_update [of a "cells h" cell_size "Some ob'"] assms
  by (simp add: hset_def cell_size_def hget_Some_less hget_Some_nth)

lemma refs_of_refc [simp]: "refs_of (ob\<lparr>ob_refc := n\<rparr>) = refs_of ob"
  by (simp add: refs_of_def)

text \<open>
  \<^verbatim>\<open>b6b_unref\<close> of each address of a list, one after the other.  An object whose count drops to
  zero is destroyed: its references are given up next, before the remaining addresses, which is
  the order of the recursion in \<^verbatim>\<open>b6b_destroy\<close>.
\<close>

function b6b_unrefs :: "addr list \<Rightarrow> heap \<Rightarrow> heap option" where
  "b6b_unrefs [] h = Some h"
| "b6b_unrefs (a # as) h =
     (case hget a h of
        None \<Rightarrow> None
      | Some ob \<Rightarrow>
          if ob_refc ob = 0 then None
          else if ob_refc ob = 1 then
            (case destroy_refs ob of
               None \<Rightarrow> None
             | Some rs \<Rightarrow> b6b_unrefs (rs @ as) (hfree a h))
          else b6b_unrefs as (hset a (ob\<lparr>ob_refc := ob_refc ob - 1\<rparr>) h))"
  by pat_completeness auto
termination
proof (relation "measure (\<lambda>(as, h). sum_list (map cell_size (cells h)) + length as)", goal_cases)
  case 1
  then show ?case by simp
next
  case (2 a as h ob rs)
  then show ?case using hfree_size [of a h ob] by (simp add: destroy_refs_Some)
next
  case (3 a as h ob)
  then show ?case using hset_size [of a h ob "ob\<lparr>ob_refc := ob_refc ob - 1\<rparr>"] by simp
qed

definition b6b_unref :: "addr \<Rightarrow> heap \<Rightarrow> heap option" where
  "b6b_unref a h = b6b_unrefs [a] h"

text \<open>\<^verbatim>\<open>b6b_destroy\<close> called directly, whatever the count.\<close>

definition b6b_destroy :: "addr \<Rightarrow> heap \<Rightarrow> heap option" where
  "b6b_destroy a h = do {
     ob \<leftarrow> hget a h;
     rs \<leftarrow> destroy_refs ob;
     b6b_unrefs rs (hfree a h)
   }"

section \<open>Reference counts are exact\<close>

definition cell_refs :: "obj option \<Rightarrow> addr multiset" where
  "cell_refs c = (case c of None \<Rightarrow> {#} | Some ob \<Rightarrow> mset (refs_of ob))"

text \<open>All references held inside the heap.\<close>

definition heap_refs :: "heap \<Rightarrow> addr multiset" where
  "heap_refs h = sum_list (map cell_refs (cells h))"

text \<open>
  The invariant: the count of a live object is the number of references to it, from other
  objects and from the \<open>roots\<close> (the pointers the running code owns); nothing refers to a
  freed address.
\<close>

definition rc_ok :: "addr multiset \<Rightarrow> heap \<Rightarrow> bool" where
  "rc_ok roots h \<longleftrightarrow>
     (\<forall>a < length (cells h). case cells h ! a of
        None \<Rightarrow> count (heap_refs h + roots) a = 0
      | Some ob \<Rightarrow> 0 < ob_refc ob \<and> ob_refc ob = count (heap_refs h + roots) a
                  \<and> ob_l ob \<noteq> Freed_items)
     \<and> (\<forall>a \<in># heap_refs h + roots. a < length (cells h))"

lemma rc_ok_iff:
  "rc_ok roots h \<longleftrightarrow>
     (\<forall>a. case hget a h of
        None \<Rightarrow> count (heap_refs h + roots) a = 0
      | Some ob \<Rightarrow> 0 < ob_refc ob \<and> ob_refc ob = count (heap_refs h + roots) a
                  \<and> ob_l ob \<noteq> Freed_items)"
proof
  assume ok: "rc_ok roots h"
  show "\<forall>a. case hget a h of None \<Rightarrow> count (heap_refs h + roots) a = 0
      | Some ob \<Rightarrow> 0 < ob_refc ob \<and> ob_refc ob = count (heap_refs h + roots) a \<and> ob_l ob \<noteq> Freed_items"
  proof
    fix a
    show "case hget a h of None \<Rightarrow> count (heap_refs h + roots) a = 0
      | Some ob \<Rightarrow> 0 < ob_refc ob \<and> ob_refc ob = count (heap_refs h + roots) a \<and> ob_l ob \<noteq> Freed_items"
    proof (cases "a < length (cells h)")
      case True
      with ok show ?thesis by (simp add: rc_ok_def hget_def)
    next
      case False
      then have "a \<notin># heap_refs h + roots" using ok unfolding rc_ok_def by blast
      with False show ?thesis by (simp add: hget_def not_in_iff)
    qed
  qed
next
  assume all: "\<forall>a. case hget a h of None \<Rightarrow> count (heap_refs h + roots) a = 0
      | Some ob \<Rightarrow> 0 < ob_refc ob \<and> ob_refc ob = count (heap_refs h + roots) a \<and> ob_l ob \<noteq> Freed_items"
  have "a < length (cells h)" if "a \<in># heap_refs h + roots" for a
  proof (rule ccontr)
    assume "\<not> a < length (cells h)"
    then have "count (heap_refs h + roots) a = 0" using all [rule_format, of a] by (simp add: hget_def)
    with that show False by (simp add: not_in_iff [symmetric] del: count_union)
  qed
  moreover have "case cells h ! a of None \<Rightarrow> count (heap_refs h + roots) a = 0
      | Some ob \<Rightarrow> 0 < ob_refc ob \<and> ob_refc ob = count (heap_refs h + roots) a \<and> ob_l ob \<noteq> Freed_items"
    if "a < length (cells h)" for a
    using all [rule_format, of a] that by (simp add: hget_def)
  ultimately show "rc_ok roots h" unfolding rc_ok_def by blast
qed

lemma rc_okD:
  assumes "rc_ok roots h" and "hget a h = Some ob"
  shows "0 < ob_refc ob" and "ob_refc ob = count (heap_refs h) a + count roots a"
    and "ob_l ob \<noteq> Freed_items"
  using assms [unfolded rc_ok_iff] by (auto dest!: spec [of _ a])

lemma rc_ok_live:
  assumes "rc_ok roots h" and "a \<in># heap_refs h + roots"
  obtains ob where "hget a h = Some ob"
  using assms unfolding rc_ok_iff by (cases "hget a h") (auto dest!: spec [of _ a] simp: count_eq_zero_iff)

lemma rc_ok_root_live:
  assumes "rc_ok roots h" and "a \<in># roots"
  obtains ob where "hget a h = Some ob"
  using rc_ok_live [of roots h a] assms by auto

lemma heap_refs_hset:
  assumes "hget a h = Some ob"
  shows "heap_refs (hset a ob' h) + mset (refs_of ob) = heap_refs h + mset (refs_of ob')"
  using sum_list_map_update [of a "cells h" cell_refs "Some ob'"] assms
  by (simp add: hset_def heap_refs_def cell_refs_def hget_Some_less hget_Some_nth)

lemma heap_refs_hset_same:
  assumes "hget a h = Some ob" and "refs_of ob' = refs_of ob"
  shows "heap_refs (hset a ob' h) = heap_refs h"
  using heap_refs_hset [OF assms(1), of ob'] assms(2) by simp

lemma heap_refs_hfree:
  assumes "hget a h = Some ob"
  shows "heap_refs (hfree a h) + mset (refs_of ob) = heap_refs h"
  using sum_list_map_update [of a "cells h" cell_refs None] assms
  by (simp add: hfree_def heap_refs_def cell_refs_def hget_Some_less hget_Some_nth)

lemma heap_refs_halloc: "heap_refs (snd (halloc ob h)) = heap_refs h + mset (refs_of ob)"
  by (simp add: halloc_def heap_refs_def cell_refs_def)

text \<open>Dropping one of several references, and the last one.\<close>

lemma rc_ok_decr:
  assumes ok: "rc_ok (add_mset a roots) h" and ob: "hget a h = Some ob" and "ob_refc ob \<noteq> 1"
  shows "rc_ok roots (hset a (ob\<lparr>ob_refc := ob_refc ob - 1\<rparr>) h)"
proof -
  have same: "heap_refs (hset a (ob\<lparr>ob_refc := ob_refc ob - 1\<rparr>) h) = heap_refs h"
    by (rule heap_refs_hset_same [OF ob]) simp
  show ?thesis
    unfolding rc_ok_iff same
  proof
    fix b
    show "case hget b (hset a (ob\<lparr>ob_refc := ob_refc ob - 1\<rparr>) h) of
        None \<Rightarrow> count (heap_refs h + roots) b = 0
      | Some ob \<Rightarrow> 0 < ob_refc ob \<and> ob_refc ob = count (heap_refs h + roots) b \<and> ob_l ob \<noteq> Freed_items"
      using ok [unfolded rc_ok_iff, rule_format, of b] ob assms(3)
      by (auto simp: hget_hset split: option.splits if_splits)
  qed
qed

lemma rc_ok_last:
  assumes ok: "rc_ok (add_mset a roots) h" and ob: "hget a h = Some ob" and "ob_refc ob = 1"
  shows "rc_ok (mset (refs_of ob) + roots) (hfree a h)"
proof -
  have refs: "heap_refs (hfree a h) + (mset (refs_of ob) + roots) = heap_refs h + roots"
    using heap_refs_hfree [OF ob] by (simp flip: add.assoc)
  show ?thesis
    unfolding rc_ok_iff refs
  proof
    fix b
    show "case hget b (hfree a h) of None \<Rightarrow> count (heap_refs h + roots) b = 0
      | Some ob \<Rightarrow> 0 < ob_refc ob \<and> ob_refc ob = count (heap_refs h + roots) b \<and> ob_l ob \<noteq> Freed_items"
      using ok [unfolded rc_ok_iff, rule_format, of b] ob assms(3)
      by (auto simp: hget_hfree split: option.splits if_splits)
  qed
qed

lemma unrefs_ok:
  "rc_ok (mset as + roots) h \<Longrightarrow> \<exists>h'. b6b_unrefs as h = Some h' \<and> rc_ok roots h'"
proof (induction as h rule: b6b_unrefs.induct)
  case (1 h)
  then show ?case by simp
next
  case (2 a as h)
  from "2.prems" obtain ob where ob: "hget a h = Some ob"
    by (auto elim: rc_ok_root_live)
  have pos: "ob_refc ob \<noteq> 0" and nf: "ob_l ob \<noteq> Freed_items"
    using rc_okD [OF "2.prems" ob] by auto
  show ?case
  proof (cases "ob_refc ob = 1")
    case True
    then have "rc_ok (mset (refs_of ob @ as) + roots) (hfree a h)"
      using rc_ok_last [of a "mset as + roots" h ob] "2.prems" ob by (simp add: add.assoc)
    with "2.IH"(1) [OF ob] pos True nf ob show ?thesis
      by (simp add: destroy_refs_def)
  next
    case False
    then have "rc_ok (mset as + roots) (hset a (ob\<lparr>ob_refc := ob_refc ob - 1\<rparr>) h)"
      using rc_ok_decr [of a "mset as + roots" h ob] "2.prems" ob by simp
    with "2.IH"(2) [OF ob] pos False ob show ?thesis by simp
  qed
qed

lemma unref_ok:
  assumes "rc_ok (add_mset a roots) h"
  obtains h' where "b6b_unref a h = Some h'" and "rc_ok roots h'"
  using unrefs_ok [of "[a]" roots h] assms by (auto simp: b6b_unref_def)

lemma ref_ok:
  assumes ok: "rc_ok roots h" and ob: "hget a h = Some ob"
  obtains h' where "b6b_ref a h = Some h'" and "rc_ok (add_mset a roots) h'"
    and "h' = hset a (ob\<lparr>ob_refc := Suc (ob_refc ob)\<rparr>) h"
proof -
  let ?h' = "hset a (ob\<lparr>ob_refc := Suc (ob_refc ob)\<rparr>) h"
  have same: "heap_refs ?h' = heap_refs h"
    by (rule heap_refs_hset_same [OF ob]) simp
  have "rc_ok (add_mset a roots) ?h'"
    unfolding rc_ok_iff same
  proof
    fix b
    show "case hget b ?h' of None \<Rightarrow> count (heap_refs h + add_mset a roots) b = 0
      | Some ob \<Rightarrow> 0 < ob_refc ob \<and> ob_refc ob = count (heap_refs h + add_mset a roots) b
          \<and> ob_l ob \<noteq> Freed_items"
      using ok [unfolded rc_ok_iff, rule_format, of b] ob
      by (auto simp: hget_hset split: option.splits if_splits)
  qed
  moreover have "b6b_ref a h = Some ?h'" by (simp add: b6b_ref_def hupd_def ob)
  ultimately show thesis by (rule that [rotated, OF _ refl])
qed

text \<open>A new object belongs to whoever allocated it.\<close>

lemma new_ok:
  assumes ok: "rc_ok roots h" and "ob_refc (init new_obj) = 1"
    and "refs_of (init new_obj) = []" and "ob_l (init new_obj) \<noteq> Freed_items"
    and new: "b6b_new init h = (a, h')"
  shows "rc_ok (add_mset a roots) h'" and "hget a h' = Some (init new_obj)"
proof -
  from new have al: "halloc (init new_obj) h = (a, h')" by (simp add: b6b_new_def)
  have refs: "heap_refs h' = heap_refs h"
    using heap_refs_halloc [of "init new_obj" h] al assms(3) by simp
  have fresh: "count (heap_refs h + roots) a = 0"
    using ok [unfolded rc_ok_iff, rule_format, of a] st.new_fresh [of "init new_obj" h] al by simp
  show "rc_ok (add_mset a roots) h'"
    unfolding rc_ok_iff refs
  proof
    fix b
    have get: "hget b h' = (if b = a then Some (init new_obj) else hget b h)"
      using hget_halloc [of b "init new_obj" h] al by simp
    show "case hget b h' of None \<Rightarrow> count (heap_refs h + add_mset a roots) b = 0
      | Some ob \<Rightarrow> 0 < ob_refc ob \<and> ob_refc ob = count (heap_refs h + add_mset a roots) b
          \<and> ob_l ob \<noteq> Freed_items"
      using ok [unfolded rc_ok_iff, rule_format, of b] fresh assms(2,4)
      by (auto simp: get split: option.splits if_splits)
  qed
  show "hget a h' = Some (init new_obj)"
    using hget_halloc [of a "init new_obj" h] al by simp
qed

text \<open>Changing an object without touching its references or its count.\<close>

lemma rc_ok_hset:
  assumes ok: "rc_ok roots h" and ob: "hget a h = Some ob" and "refs_of ob' = refs_of ob"
    and "ob_refc ob' = ob_refc ob" and "ob_l ob' \<noteq> Freed_items"
  shows "rc_ok roots (hset a ob' h)"
proof -
  have same: "heap_refs (hset a ob' h) = heap_refs h"
    by (rule heap_refs_hset_same [OF ob assms(3)])
  show ?thesis
    unfolding rc_ok_iff same
  proof
    fix b
    show "case hget b (hset a ob' h) of None \<Rightarrow> count (heap_refs h + roots) b = 0
      | Some ob \<Rightarrow> 0 < ob_refc ob \<and> ob_refc ob = count (heap_refs h + roots) b \<and> ob_l ob \<noteq> Freed_items"
      using ok [unfolded rc_ok_iff, rule_format, of b] ob assms(4,5)
      by (auto simp: hget_hset split: option.splits if_splits)
  qed
qed

text \<open>Moving references between the roots and an object.\<close>

lemma rc_ok_hset_refs:
  assumes ok: "rc_ok roots h" and ob: "hget a h = Some ob"
    and "mset (refs_of ob') + roots' = mset (refs_of ob) + roots"
    and "ob_refc ob' = ob_refc ob" and "ob_l ob' \<noteq> Freed_items"
  shows "rc_ok roots' (hset a ob' h)"
proof -
  have same: "heap_refs (hset a ob' h) + roots' = heap_refs h + roots"
  proof -
    have "heap_refs (hset a ob' h) + roots' + mset (refs_of ob)
        = heap_refs h + (mset (refs_of ob') + roots')"
      using heap_refs_hset [OF ob, of ob'] by (metis add.assoc add.commute)
    also have "\<dots> = heap_refs h + roots + mset (refs_of ob)"
      by (simp add: assms(3))
    finally show ?thesis by simp
  qed
  show ?thesis
    unfolding rc_ok_iff same
  proof
    fix b
    show "case hget b (hset a ob' h) of None \<Rightarrow> count (heap_refs h + roots) b = 0
      | Some ob \<Rightarrow> 0 < ob_refc ob \<and> ob_refc ob = count (heap_refs h + roots) b \<and> ob_l ob \<noteq> Freed_items"
      using ok [unfolded rc_ok_iff, rule_format, of b] ob assms(4,5)
      by (auto simp: hget_hset split: option.splits if_splits)
  qed
qed

text \<open>Giving up references frees objects and lowers counts; it changes nothing else.\<close>

lemma unrefs_frame:
  "b6b_unrefs as h = Some h' \<Longrightarrow> hget b h' = Some ob' \<Longrightarrow>
     \<exists>ob. hget b h = Some ob \<and> ob' = ob\<lparr>ob_refc := ob_refc ob'\<rparr>"
proof (induction as h arbitrary: ob' rule: b6b_unrefs.induct)
  case (1 h)
  then show ?case by simp
next
  case (2 a as h)
  from "2.prems"(1) obtain ob where ob: "hget a h = Some ob" "ob_refc ob \<noteq> 0"
    by (auto split: option.splits if_splits)
  show ?case
  proof (cases "ob_refc ob = 1")
    case True
    then obtain rs where "destroy_refs ob = Some rs"
      using "2.prems"(1) ob by (auto split: option.splits)
    then show ?thesis
      using "2.IH"(1) [OF ob(1) ob(2) True] "2.prems" ob True
      by (fastforce simp: hget_hfree split: if_splits)
  next
    case False
    then show ?thesis
      using "2.IH"(2) [OF ob(1) ob(2) False] "2.prems" ob
      by (fastforce simp: hget_hset split: if_splits)
  qed
qed

lemma unrefs_next_li: "b6b_unrefs as h = Some h' \<Longrightarrow> next_li h' = next_li h"
  by (induction as h rule: b6b_unrefs.induct)
    (auto simp: hfree_def split: option.splits if_splits)

lemma unrefs_cells: "b6b_unrefs as h = Some h' \<Longrightarrow> length (cells h') = length (cells h)"
  by (induction as h rule: b6b_unrefs.induct)
    (auto simp: hfree_def split: option.splits if_splits)

section \<open>Nothing leaks\<close>

text \<open>
  Without references from outside, and without cycles (\<open>rank\<close> decreases along every
  reference), no object is left.
\<close>

lemma rc_ok_no_roots_empty:
  assumes ok: "rc_ok {#} h"
    and rank: "\<And>a ob b. hget a h = Some ob \<Longrightarrow> b \<in> set (refs_of ob) \<Longrightarrow> (rank b :: nat) < rank a"
  shows "hget a h = None"
proof (rule ccontr)
  assume "hget a h \<noteq> None"
  define L where "L = {a. hget a h \<noteq> None}"
  have fin: "finite L"
    by (rule finite_subset [of _ "{..<length (cells h)}"]) (auto simp: L_def hget_def split: if_splits)
  have ne: "L \<noteq> {}" using \<open>hget a h \<noteq> None\<close> by (auto simp: L_def)
  define m where "m = Max (rank ` L)"
  have "m \<in> rank ` L" unfolding m_def using fin ne by (intro Max_in) auto
  then obtain x where x: "x \<in> L" "rank x = m" by auto
  from x(1) obtain ob where ob: "hget x h = Some ob" by (auto simp: L_def)
  have "x \<in># heap_refs h" using rc_okD(1,2) [OF ok ob] by simp
  then obtain c where c: "c \<in> set (cells h)" "x \<in># cell_refs c"
    unfolding heap_refs_def set_mset_sum_list by auto
  from c(1) obtain y where "y < length (cells h)" "cells h ! y = c"
    by (auto simp: in_set_conv_nth)
  with c(2) obtain ob' where y: "hget y h = Some ob'" "x \<in> set (refs_of ob')"
    by (cases c) (auto simp: cell_refs_def hget_def)
  then have "rank x < rank y" by (rule rank)
  moreover have "rank y \<le> m" unfolding m_def using fin y(1) by (intro Max_ge) (auto simp: L_def)
  ultimately show False using x(2) by simp
qed

end
