(* ===== verification/Conv.thy ===== *)
theory Conv
  imports Obj
begin

text \<open>
  The representations of an object and the conversions between them: \<^verbatim>\<open>b6b_as_str\<close>
  (src/b6b_str.c), \<^verbatim>\<open>b6b_as_int\<close> (src/b6b_int.c), \<^verbatim>\<open>b6b_as_float\<close> (src/b6b_float.c),
  \<^verbatim>\<open>b6b_as_list\<close> (src/b6b_list.c), \<^verbatim>\<open>b6b_obj_hash\<close>, \<^verbatim>\<open>b6b_obj_eq\<close>, \<^verbatim>\<open>b6b_obj_isnull\<close> and
  \<^verbatim>\<open>b6b_obj_istrue\<close> (src/b6b_obj.c, include/b6b/obj.h).  A conversion changes its object in
  place: it adds a representation and keeps the others.  Memory allocation succeeds
  (the build option B6B_OPTIMISTIC_ALLOC), so the branches for a failed \<^verbatim>\<open>malloc\<close> are absent.

  \<^verbatim>\<open>b6b_as_str\<close> recurses into the items of a list.  The recursion is given as many levels as
  the heap has cells: it needs more only if it enters an object it is still converting, and
  then the C recursion never ends either.
\<close>

section \<open>Creating objects\<close>

definition b6b_str_new :: "string \<Rightarrow> heap \<Rightarrow> addr \<times> heap" where
  "b6b_str_new s h = b6b_new (\<lambda>ob. ob\<lparr>ob_s := Some s\<rparr>) h"

definition b6b_str_copy :: "string \<Rightarrow> heap \<Rightarrow> addr \<times> heap" where
  "b6b_str_copy s h = b6b_str_new s h"

definition b6b_int_new :: "b6b_int \<Rightarrow> heap \<Rightarrow> addr \<times> heap" where
  "b6b_int_new i h = b6b_new (\<lambda>ob. ob\<lparr>ob_i := Some i\<rparr>) h"

definition b6b_float_new :: "dbl \<Rightarrow> heap \<Rightarrow> addr \<times> heap" where
  "b6b_float_new f h = b6b_new (\<lambda>ob. ob\<lparr>ob_f := Some f\<rparr>) h"

definition b6b_list_new :: "heap \<Rightarrow> addr \<times> heap" where
  "b6b_list_new h = b6b_new (\<lambda>ob. ob\<lparr>ob_l := Items []\<rparr>) h"

section \<open>To a string\<close>

text \<open>The end of the float branch: trailing zeros, then a trailing point.\<close>

definition strip_zeros :: "string \<Rightarrow> string" where
  "strip_zeros s =
     (case dropWhile (\<lambda>c. c = CHR ''0'') (rev s) of
        [] \<Rightarrow> []
      | c # r \<Rightarrow> if c = CHR ''.'' then rev r else rev (c # r))"

definition float_text :: "dbl \<Rightarrow> string" where
  "float_text f = strip_zeros (fmt_float f)"

definition int_text :: "b6b_int \<Rightarrow> string" where
  "int_text i = fmt_int (sint i)"

text \<open>The loop over the items: convert each, then append it to the text.\<close>

fun render_objs ::
  "(addr \<Rightarrow> heap \<Rightarrow> (bool \<times> heap) option) \<Rightarrow> addr list \<Rightarrow> string option \<Rightarrow> heap
     \<Rightarrow> (bool \<times> string option \<times> heap) option" where
  "render_objs as_str [] acc h = Some (True, acc, h)"
| "render_objs as_str (a # as) acc h = do {
     (ok, h1) \<leftarrow> as_str a h;
     if \<not> ok then Some (False, acc, h1)
     else do {
       ob \<leftarrow> hget a h1;
       s \<leftarrow> ob_s ob;
       render_objs as_str as (Some (render_item acc s)) h1
     }
   }"

fun as_str_f :: "nat \<Rightarrow> addr \<Rightarrow> heap \<Rightarrow> (bool \<times> heap) option" where
  "as_str_f 0 a h = None"
| "as_str_f (Suc n) a h = do {
     ob \<leftarrow> hget a h;
     if ob_s ob \<noteq> None then Some (True, h)
     else case ob_l ob of
       Items its \<Rightarrow> do {
         (ok, acc, h1) \<leftarrow> render_objs (as_str_f n) (map snd its) None h;
         if \<not> ok then Some (False, h1)
         else do {
           h2 \<leftarrow> hupd a (\<lambda>ob. ob\<lparr>ob_s := Some (case acc of None \<Rightarrow> ''{}'' | Some t \<Rightarrow> t)\<rparr>) h1;
           Some (True, h2)
         }
       }
     | Freed_items \<Rightarrow> None
     | No_list \<Rightarrow>
         (case ob_f ob of
            Some f \<Rightarrow> Some (True, hset a (ob\<lparr>ob_s := Some (float_text f)\<rparr>) h)
          | None \<Rightarrow>
              (case ob_i ob of
                 Some i \<Rightarrow> Some (True, hset a (ob\<lparr>ob_s := Some (int_text i)\<rparr>) h)
               | None \<Rightarrow> None))
   }"

definition b6b_as_str :: "addr \<Rightarrow> heap \<Rightarrow> (bool \<times> heap) option" where
  "b6b_as_str a h = as_str_f (Suc (length (cells h))) a h"

section \<open>To a number\<close>

text \<open>The conversion of a string by \<^verbatim>\<open>strtod\<close>: all of a non-empty string must be consumed.\<close>

definition float_of_text :: "string \<Rightarrow> dbl option" where
  "float_of_text s =
     (if s = [] then None
      else let (d, n) = strtod s in if n = length s then Some d else None)"

definition b6b_as_float :: "addr \<Rightarrow> heap \<Rightarrow> (bool \<times> heap) option" where
  "b6b_as_float a h = do {
     ob \<leftarrow> hget a h;
     if ob_f ob \<noteq> None then Some (True, h)
     else case ob_s ob of
       Some s \<Rightarrow>
         (case float_of_text s of
            None \<Rightarrow> Some (False, h)
          | Some d \<Rightarrow> Some (True, hset a (ob\<lparr>ob_f := Some d\<rparr>) h))
     | None \<Rightarrow>
         if ob_l ob \<noteq> No_list then do {
           (ok, h1) \<leftarrow> b6b_as_str a h;
           if \<not> ok then Some (False, h1)
           else do {
             ob1 \<leftarrow> hget a h1;
             s \<leftarrow> ob_s ob1;
             case float_of_text s of
               None \<Rightarrow> Some (False, h1)
             | Some d \<Rightarrow> Some (True, hset a (ob1\<lparr>ob_f := Some d\<rparr>) h1)
           }
         }
         else do {
           i \<leftarrow> ob_i ob;
           Some (True, hset a (ob\<lparr>ob_f := Some (dof_int (sint i))\<rparr>) h)
         }
   }"

definition b6b_as_int :: "addr \<Rightarrow> heap \<Rightarrow> (bool \<times> heap) option" where
  "b6b_as_int a h = do {
     ob \<leftarrow> hget a h;
     if ob_i ob \<noteq> None then Some (True, h)
     else do {
       (ok, h1) \<leftarrow> b6b_as_float a h;
       if \<not> ok then Some (False, h1)
       else do {
         ob1 \<leftarrow> hget a h1;
         f \<leftarrow> ob_f ob1;
         case d_to_llong f of
           None \<Rightarrow> Some (False, h1)
         | Some i \<Rightarrow> Some (True, hset a (ob1\<lparr>ob_i := Some i\<rparr>) h1)
       }
     }
   }"

section \<open>Hashing, equality, truth\<close>

definition b6b_obj_hash :: "addr \<Rightarrow> heap \<Rightarrow> (bool \<times> heap) option" where
  "b6b_obj_hash a h = do {
     ob \<leftarrow> hget a h;
     if ob_hash ob \<noteq> None then Some (True, h)
     else do {
       (ok, h1) \<leftarrow> b6b_as_str a h;
       if \<not> ok then Some (False, h1)
       else do {
         ob1 \<leftarrow> hget a h1;
         s \<leftarrow> ob_s ob1;
         Some (True, hset a (ob1\<lparr>ob_hash := Some (b6b_hash s)\<rparr>) h1)
       }
     }
   }"

definition b6b_obj_eq :: "addr \<Rightarrow> addr \<Rightarrow> heap \<Rightarrow> bool option" where
  "b6b_obj_eq a b h = do {
     oa \<leftarrow> hget a h;
     ob \<leftarrow> hget b h;
     ha \<leftarrow> ob_hash oa;
     hb \<leftarrow> ob_hash ob;
     sa \<leftarrow> ob_s oa;
     sb \<leftarrow> ob_s ob;
     Some (ha = hb \<and> length sa = length sb \<and> sa = sb)
   }"

definition b6b_list_empty :: "obj \<Rightarrow> bool option" where
  "b6b_list_empty ob =
     (case ob_l ob of Items its \<Rightarrow> Some (its = []) | _ \<Rightarrow> None)"

definition b6b_obj_isnull :: "addr \<Rightarrow> heap \<Rightarrow> bool option" where
  "b6b_obj_isnull a h = do {
     ob \<leftarrow> hget a h;
     case ob_s ob of
       Some s \<Rightarrow> Some (s = [])
     | None \<Rightarrow> if ob_l ob \<noteq> No_list then b6b_list_empty ob else Some False
   }"

text \<open>\<^verbatim>\<open>strtod\<close> and the test of \<^verbatim>\<open>*p\<close>: the byte after the number, NUL at the end.\<close>

definition text_true :: "string \<Rightarrow> bool" where
  "text_true s =
     (if s = [] then False
      else let (d, n) = strtod s in
        if (if n < length s then s ! n else NUL) \<noteq> NUL then True else dtrue d)"

definition b6b_obj_istrue :: "addr \<Rightarrow> heap \<Rightarrow> bool option" where
  "b6b_obj_istrue a h = do {
     ob \<leftarrow> hget a h;
     if ob_l ob \<noteq> No_list then map_option Not (b6b_list_empty ob)
     else case ob_s ob of
       Some s \<Rightarrow> Some (text_true s)
     | None \<Rightarrow>
         (case ob_i ob of
            Some i \<Rightarrow> Some (i \<noteq> 0)
          | None \<Rightarrow> map_option dtrue (ob_f ob))
   }"

section \<open>To a list\<close>

text \<open>\<^verbatim>\<open>b6b_list_do_add\<close>: a new node at the tail, with a reference to the object.\<close>

definition b6b_list_do_add :: "addr \<Rightarrow> addr \<Rightarrow> heap \<Rightarrow> heap option" where
  "b6b_list_do_add l a h = do {
     h1 \<leftarrow> b6b_ref a h;
     ob \<leftarrow> hget l h1;
     case ob_l ob of
       Items its \<Rightarrow>
         Some ((hset l (ob\<lparr>ob_l := Items (its @ [(next_li h1, a)])\<rparr>) h1)\<lparr>next_li := Suc (next_li h1)\<rparr>)
     | _ \<Rightarrow> None
   }"

text \<open>
  \<^verbatim>\<open>b6b_destroy_l\<close> on an object that lives on: the nodes are freed, and if there were any the
  head is left pointing at them.
\<close>

definition b6b_destroy_l :: "addr \<Rightarrow> heap \<Rightarrow> heap option" where
  "b6b_destroy_l a h = do {
     ob \<leftarrow> hget a h;
     case ob_l ob of
       Items its \<Rightarrow> do {
         h1 \<leftarrow> b6b_unrefs (map snd its) h;
         hupd a (\<lambda>ob. ob\<lparr>ob_l := (if its = [] then Items [] else Freed_items)\<rparr>) h1
       }
     | _ \<Rightarrow> None
   }"

text \<open>The loop of \<^verbatim>\<open>b6b_do_as_list\<close> from the text that is left.\<close>

function b6b_do_as_list :: "addr \<Rightarrow> string \<Rightarrow> heap \<Rightarrow> (bool \<times> heap) option" where
  "b6b_do_as_list a s h =
     (case next_token s of
        Tok_end \<Rightarrow> Some (True, h)
      | Tok_bad \<Rightarrow> map_option (Pair False) (b6b_destroy_l a h)
      | Tok item rest \<Rightarrow>
          (case b6b_str_copy item h of (i, h1) \<Rightarrow> do {
             h2 \<leftarrow> b6b_list_do_add a i h1;
             h3 \<leftarrow> b6b_unref i h2;
             b6b_do_as_list a rest h3
           }))"
  by pat_completeness auto
termination
  by (relation "measure (\<lambda>(a, s, h). length s)") (auto dest: next_token_shorter)

declare b6b_do_as_list.simps [simp del]

text \<open>
  The flag B6B_TYPE_LIST is set only after success, so a failure leaves an object without a
  list.
\<close>

definition b6b_as_list :: "addr \<Rightarrow> heap \<Rightarrow> (bool \<times> heap) option" where
  "b6b_as_list a h = do {
     ob \<leftarrow> hget a h;
     if ob_l ob \<noteq> No_list then Some (True, h)
     else do {
       (ok, h1) \<leftarrow> b6b_as_str a h;
       if \<not> ok then Some (False, h1)
       else do {
         ob1 \<leftarrow> hget a h1;
         s \<leftarrow> ob_s ob1;
         (ok2, h2) \<leftarrow> b6b_do_as_list a s (hset a (ob1\<lparr>ob_l := Items []\<rparr>) h1);
         if \<not> ok2 then do {
           h3 \<leftarrow> hupd a (\<lambda>ob. ob\<lparr>ob_l := No_list\<rparr>) h2;
           Some (False, h3)
         }
         else Some (True, h2)
       }
     }
   }"

text \<open>
  \<^verbatim>\<open>b6b_list_from\<close>: here the object is a list from the start, and a failure destroys it after
  \<^verbatim>\<open>b6b_do_as_list\<close> has freed its nodes.
\<close>

definition b6b_list_from :: "string \<Rightarrow> heap \<Rightarrow> (addr option \<times> heap) option" where
  "b6b_list_from s h =
     (case b6b_list_new h of (a, h1) \<Rightarrow> do {
        (ok, h2) \<leftarrow> b6b_do_as_list a s h1;
        if \<not> ok then do {
          h3 \<leftarrow> b6b_destroy a h2;
          Some (None, h3)
        }
        else Some (Some a, h2)
      })"

text \<open>\<^verbatim>\<open>b6b_list_flush\<close> drops every representation but the list.\<close>

definition b6b_list_flush :: "addr \<Rightarrow> heap \<Rightarrow> heap option" where
  "b6b_list_flush l h =
     hupd l (\<lambda>ob. ob\<lparr>ob_s := None, ob_i := None, ob_f := None, ob_hash := None\<rparr>) h"

end
