(* ===== verification/Conv_Lemmas.thy ===== *)
theory Conv_Lemmas
  imports Conv
begin

text \<open>
  What the conversions of theory Conv keep and compute: they only add representations
  (\<open>conv_le\<close>), so the reference counts stay exact; \<^verbatim>\<open>b6b_as_str\<close> always succeeds on a heap
  without cycles and computes the text \<open>str_val\<close> that a pure function assigns to the object;
  objects that are equal for \<^verbatim>\<open>b6b_obj_eq\<close> are those with the same text; a text that
  \<^verbatim>\<open>b6b_as_list\<close> accepts becomes the list of its tokens.
\<close>

section \<open>Conversions only add representations\<close>

definition opt_le :: "'a option \<Rightarrow> 'a option \<Rightarrow> bool" where
  "opt_le x y \<longleftrightarrow> x = None \<or> y = x"

lemma opt_le_simps [simp]: "opt_le None y" "opt_le x x" "opt_le (Some v) y \<longleftrightarrow> y = Some v"
  by (auto simp: opt_le_def)

lemma opt_le_trans: "opt_le x y \<Longrightarrow> opt_le y z \<Longrightarrow> opt_le x z"
  by (auto simp: opt_le_def)

definition obj_le :: "obj \<Rightarrow> obj \<Rightarrow> bool" where
  "obj_le ob ob' \<longleftrightarrow> ob_l ob' = ob_l ob \<and> ob_proc ob' = ob_proc ob \<and> ob_priv ob' = ob_priv ob
     \<and> ob_refc ob' = ob_refc ob \<and> opt_le (ob_s ob) (ob_s ob') \<and> opt_le (ob_i ob) (ob_i ob')
     \<and> opt_le (ob_f ob) (ob_f ob') \<and> opt_le (ob_hash ob) (ob_hash ob')"

lemma obj_le_refl [simp]: "obj_le ob ob"
  by (simp add: obj_le_def)

lemma obj_le_trans: "obj_le a b \<Longrightarrow> obj_le b c \<Longrightarrow> obj_le a c"
  unfolding obj_le_def by (auto intro: opt_le_trans)

definition conv_le :: "heap \<Rightarrow> heap \<Rightarrow> bool" where
  "conv_le h h' \<longleftrightarrow> next_li h' = next_li h \<and> length (cells h') = length (cells h)
     \<and> (\<forall>a. hget a h = None \<longrightarrow> hget a h' = None)
     \<and> (\<forall>a ob. hget a h = Some ob \<longrightarrow> (\<exists>ob'. hget a h' = Some ob' \<and> obj_le ob ob'))"

lemma conv_le_refl [simp]: "conv_le h h"
  by (simp add: conv_le_def)

lemma conv_leD:
  assumes "conv_le h h'" and "hget a h = Some ob"
  obtains ob' where "hget a h' = Some ob'" and "obj_le ob ob'"
  using assms unfolding conv_le_def by blast

lemma conv_le_trans:
  assumes "conv_le h1 h2" and "conv_le h2 h3"
  shows "conv_le h1 h3"
  unfolding conv_le_def
proof (intro conjI allI impI)
  fix a ob
  assume "hget a h1 = Some ob"
  with assms(1) obtain ob2 where ob2: "hget a h2 = Some ob2" "obj_le ob ob2" by (rule conv_leD)
  with assms(2) obtain ob3 where "hget a h3 = Some ob3" "obj_le ob2 ob3" by (blast elim: conv_leD)
  with ob2(2) show "\<exists>ob'. hget a h3 = Some ob' \<and> obj_le ob ob'" by (blast intro: obj_le_trans)
qed (use assms in \<open>auto simp: conv_le_def\<close>)

lemma conv_leD_back:
  assumes "conv_le h h'" and "hget a h' = Some ob'"
  obtains ob where "hget a h = Some ob" and "obj_le ob ob'"
  using assms unfolding conv_le_def by (metis not_None_eq option.inject)

lemma conv_le_cells: "conv_le h h' \<Longrightarrow> length (cells h') = length (cells h)"
  by (simp add: conv_le_def)

lemma conv_le_live: "conv_le h h' \<Longrightarrow> hget a h' = None \<longleftrightarrow> hget a h = None"
  unfolding conv_le_def by (metis option.distinct(1) not_None_eq)

lemma conv_le_hset:
  assumes "hget a h = Some ob" and "obj_le ob ob'"
  shows "conv_le h (hset a ob' h)"
  using assms by (auto simp: conv_le_def hget_hset)

text \<open>A later state at which one object has gained a text it did not have.\<close>

lemma conv_le_hset_later:
  assumes "conv_le h h1" and "hget a h = Some ob" and "hget a h1 = Some ob1" and "obj_le ob ob'"
  shows "conv_le h (hset a ob' h1)"
  unfolding conv_le_def
proof (intro conjI allI impI)
  fix b obb
  assume "hget b h = Some obb"
  with assms(1) obtain ob2 where "hget b h1 = Some ob2" "obj_le obb ob2"
    by (rule conv_leD)
  with assms \<open>hget b h = Some obb\<close>
  show "\<exists>ob''. hget b (hset a ob' h1) = Some ob'' \<and> obj_le obb ob''"
    by (auto simp: hget_hset)
next
  fix b
  assume "hget b h = None"
  then have "hget b h1 = None" using assms(1) by (simp add: conv_le_live)
  with assms(3) show "hget b (hset a ob' h1) = None" by (auto simp: hget_hset)
qed (use assms(1) in \<open>auto simp: conv_le_def\<close>)

lemma conv_le_refs:
  assumes "conv_le h h'"
  shows "heap_refs h' = heap_refs h"
proof -
  have "map cell_refs (cells h') = map cell_refs (cells h)"
  proof (rule nth_equalityI)
    show "length (map cell_refs (cells h')) = length (map cell_refs (cells h))"
      using assms by (simp add: conv_le_cells)
  next
    fix i
    assume "i < length (map cell_refs (cells h'))"
    then have i: "i < length (cells h')" "i < length (cells h)"
      using assms by (auto simp: conv_le_cells)
    show "map cell_refs (cells h') ! i = map cell_refs (cells h) ! i"
    proof (cases "hget i h")
      case None
      then have "hget i h' = None" using assms by (simp add: conv_le_live)
      with None i show ?thesis by (simp add: hget_def)
    next
      case (Some ob)
      with assms obtain ob' where "hget i h' = Some ob'" "obj_le ob ob'" by (rule conv_leD)
      with Some i show ?thesis by (simp add: hget_def cell_refs_def obj_le_def refs_of_def)
    qed
  qed
  then show ?thesis by (simp add: heap_refs_def)
qed

lemma conv_le_rc_ok:
  assumes "conv_le h h'" and "rc_ok roots h"
  shows "rc_ok roots h'"
  unfolding rc_ok_iff conv_le_refs [OF assms(1)]
proof
  fix a
  have ok: "case hget a h of None \<Rightarrow> count (heap_refs h + roots) a = 0
      | Some ob \<Rightarrow> 0 < ob_refc ob \<and> ob_refc ob = count (heap_refs h + roots) a \<and> ob_l ob \<noteq> Freed_items"
    using assms(2) by (simp only: rc_ok_iff)
  show "case hget a h' of None \<Rightarrow> count (heap_refs h + roots) a = 0
      | Some ob \<Rightarrow> 0 < ob_refc ob \<and> ob_refc ob = count (heap_refs h + roots) a \<and> ob_l ob \<noteq> Freed_items"
  proof (cases "hget a h'")
    case None
    then have "hget a h = None" using assms(1) by (simp add: conv_le_live)
    with ok None show ?thesis by simp
  next
    case (Some ob')
    with assms(1) obtain ob where ob: "hget a h = Some ob" "obj_le ob ob'" by (rule conv_leD_back)
    then have "ob_refc ob' = ob_refc ob" "ob_l ob' = ob_l ob" by (simp_all add: obj_le_def)
    with ok ob(1) Some show ?thesis by (metis option.case(2))
  qed
qed

lemma render_objs_conv_le:
  assumes "\<And>a h ok h'. f a h = Some (ok, h') \<Longrightarrow> conv_le h h'"
  shows "render_objs f as acc h = Some (ok, acc', h') \<Longrightarrow> conv_le h h'"
proof (induction as arbitrary: acc h)
  case Nil
  then show ?case by simp
next
  case (Cons a as)
  then obtain ok1 h1 where f: "f a h = Some (ok1, h1)" by (auto simp: bind_Some)
  then have le: "conv_le h h1" by (rule assms)
  from Cons f le show ?case
    by (cases ok1) (auto simp: bind_Some intro: conv_le_trans)
qed

lemma as_str_f_conv_le: "as_str_f n a h = Some (ok, h') \<Longrightarrow> conv_le h h'"
proof (induction n arbitrary: a h ok h')
  case 0
  then show ?case by simp
next
  case (Suc n)
  from Suc.prems obtain ob where ob: "hget a h = Some ob" by (auto simp: bind_Some)
  show ?case
  proof (cases "ob_s ob")
    case (Some s)
    with Suc.prems ob show ?thesis by simp
  next
    case None
    show ?thesis
    proof (cases "ob_l ob")
      case (Items its)
      then obtain ok1 acc h1 where r: "render_objs (as_str_f n) (map snd its) None h = Some (ok1, acc, h1)"
        using Suc.prems ob None by (auto simp: bind_Some)
      have le: "conv_le h h1" by (rule render_objs_conv_le [OF Suc.IH r])
      show ?thesis
      proof (cases ok1)
        case False
        with r le Suc.prems ob None Items show ?thesis by simp
      next
        case True
        with r Suc.prems ob None Items obtain ob1 where ob1: "hget a h1 = Some ob1"
          and h': "h' = hset a (ob1\<lparr>ob_s := Some (case acc of None \<Rightarrow> ''{}'' | Some t \<Rightarrow> t)\<rparr>) h1"
          by (auto simp: bind_Some hupd_Some)
        from le ob obtain ob1' where "hget a h1 = Some ob1'" "obj_le ob ob1'" by (rule conv_leD)
        with ob1 None have "obj_le ob (ob1\<lparr>ob_s := Some (case acc of None \<Rightarrow> ''{}'' | Some t \<Rightarrow> t)\<rparr>)"
          by (simp add: obj_le_def)
        with le ob ob1 show ?thesis unfolding h' by (rule conv_le_hset_later)
      qed
    next
      case No_list
      with Suc.prems ob None show ?thesis
        by (auto split: option.splits intro!: conv_le_hset simp: obj_le_def)
    next
      case Freed_items
      with Suc.prems ob None show ?thesis by simp
    qed
  qed
qed

lemma b6b_as_str_conv_le: "b6b_as_str a h = Some (ok, h') \<Longrightarrow> conv_le h h'"
  unfolding b6b_as_str_def by (rule as_str_f_conv_le)

lemma b6b_as_float_conv_le:
  assumes "b6b_as_float a h = Some (ok, h')"
  shows "conv_le h h'"
proof -
  from assms obtain ob where ob: "hget a h = Some ob" by (auto simp: b6b_as_float_def bind_Some)
  show ?thesis
  proof (cases "ob_f ob = None \<and> ob_s ob = None \<and> ob_l ob \<noteq> No_list")
    case False
    with assms ob show ?thesis
      by (auto simp: b6b_as_float_def bind_Some obj_le_def split: if_splits option.splits
          intro!: conv_le_hset)
  next
    case True
    with assms ob obtain ok1 h1 where f: "b6b_as_str a h = Some (ok1, h1)"
      by (auto simp: b6b_as_float_def bind_Some)
    then have le: "conv_le h h1" by (rule b6b_as_str_conv_le)
    then obtain ob1 where ob1: "hget a h1 = Some ob1" "obj_le ob ob1" using ob by (rule conv_leD)
    then have "obj_le ob (ob1\<lparr>ob_f := Some d\<rparr>)" for d using True by (simp add: obj_le_def)
    with le ob ob1(1) have "conv_le h (hset a (ob1\<lparr>ob_f := Some d\<rparr>) h1)" for d
      by (intro conv_le_hset_later)
    with assms ob True f le ob1 show ?thesis
      by (auto simp: b6b_as_float_def bind_Some split: if_splits option.splits)
  qed
qed

lemma b6b_as_int_conv_le:
  assumes "b6b_as_int a h = Some (ok, h')"
  shows "conv_le h h'"
proof -
  from assms obtain ob where ob: "hget a h = Some ob" by (auto simp: b6b_as_int_def bind_Some)
  show ?thesis
  proof (cases "ob_i ob")
    case (Some i)
    with assms ob show ?thesis by (simp add: b6b_as_int_def)
  next
    case None
    with assms ob obtain ok1 h1 where f: "b6b_as_float a h = Some (ok1, h1)"
      by (auto simp: b6b_as_int_def bind_Some)
    then have le: "conv_le h h1" by (rule b6b_as_float_conv_le)
    then obtain ob1 where ob1: "hget a h1 = Some ob1" "obj_le ob ob1" using ob by (rule conv_leD)
    then have "obj_le ob (ob1\<lparr>ob_i := Some i\<rparr>)" for i using None by (simp add: obj_le_def)
    with le ob ob1(1) have "conv_le h (hset a (ob1\<lparr>ob_i := Some i\<rparr>) h1)" for i
      by (intro conv_le_hset_later)
    with assms ob None f le ob1 show ?thesis
      by (auto simp: b6b_as_int_def bind_Some split: if_splits option.splits)
  qed
qed

lemma b6b_obj_hash_conv_le:
  assumes "b6b_obj_hash a h = Some (ok, h')"
  shows "conv_le h h'"
proof -
  from assms obtain ob where ob: "hget a h = Some ob" by (auto simp: b6b_obj_hash_def bind_Some)
  show ?thesis
  proof (cases "ob_hash ob")
    case (Some w)
    with assms ob show ?thesis by (simp add: b6b_obj_hash_def)
  next
    case None
    with assms ob obtain ok1 h1 where f: "b6b_as_str a h = Some (ok1, h1)"
      by (auto simp: b6b_obj_hash_def bind_Some)
    then have le: "conv_le h h1" by (rule b6b_as_str_conv_le)
    then obtain ob1 where ob1: "hget a h1 = Some ob1" "obj_le ob ob1" using ob by (rule conv_leD)
    then have "obj_le ob (ob1\<lparr>ob_hash := Some w\<rparr>)" for w using None by (simp add: obj_le_def)
    with le ob ob1(1) have "conv_le h (hset a (ob1\<lparr>ob_hash := Some w\<rparr>) h1)" for w
      by (intro conv_le_hset_later)
    with assms ob None f le ob1 show ?thesis
      by (auto simp: b6b_obj_hash_def bind_Some split: if_splits option.splits)
  qed
qed

section \<open>The text of an object\<close>

text \<open>
  The string \<^verbatim>\<open>b6b_as_str\<close> stands for, without changing anything: at most \<open>n\<close> levels of lists
  are entered.
\<close>

fun str_val :: "nat \<Rightarrow> heap \<Rightarrow> addr \<Rightarrow> string option" where
  "str_val 0 h a = None"
| "str_val (Suc n) h a =
     (case hget a h of
        None \<Rightarrow> None
      | Some ob \<Rightarrow>
          (case ob_s ob of
             Some s \<Rightarrow> Some s
           | None \<Rightarrow>
               (case ob_l ob of
                  Items its \<Rightarrow> map_option render (those (map (str_val n h) (map snd its)))
                | Freed_items \<Rightarrow> None
                | No_list \<Rightarrow>
                    (case ob_f ob of
                       Some f \<Rightarrow> Some (float_text f)
                     | None \<Rightarrow> map_option int_text (ob_i ob)))))"

definition text_of :: "heap \<Rightarrow> addr \<Rightarrow> string option" where
  "text_of h a = str_val (Suc (length (cells h))) h a"

lemma those_map_mono:
  assumes "those (map f xs) = Some ys"
    and "\<And>x y. x \<in> set xs \<Longrightarrow> f x = Some y \<Longrightarrow> g x = Some y"
  shows "those (map g xs) = Some ys"
  using assms
proof (induction xs arbitrary: ys)
  case Nil
  then show ?case by simp
next
  case (Cons x xs)
  from Cons.prems(1) obtain y ys' where y: "f x = Some y" "those (map f xs) = Some ys'" "ys = y # ys'"
    by (auto split: option.splits)
  then have "those (map g xs) = Some ys'" using Cons by auto
  with y Cons.prems(2) [of x y] show ?case by simp
qed

lemma str_val_Suc: "str_val n h a = Some s \<Longrightarrow> str_val (Suc n) h a = Some s"
proof (induction n arbitrary: a s)
  case 0
  then show ?case by simp
next
  case (Suc n)
  show ?case
  proof (cases "\<exists>ob its. hget a h = Some ob \<and> ob_s ob = None \<and> ob_l ob = Items its")
    case True
    then obtain ob its where ob: "hget a h = Some ob" "ob_s ob = None" "ob_l ob = Items its" by blast
    with Suc.prems obtain ss where ss: "those (map (str_val n h) (map snd its)) = Some ss" "s = render ss"
      by auto
    have "those (map (str_val (Suc n) h) (map snd its)) = Some ss"
      by (rule those_map_mono [OF ss(1)]) (rule Suc.IH)
    with ob ss(2) show ?thesis by simp
  next
    case False
    with Suc.prems show ?thesis by (auto split: option.splits lrep.splits)
  qed
qed

lemma str_val_mono: "str_val n h a = Some s \<Longrightarrow> n \<le> m \<Longrightarrow> str_val m h a = Some s"
  by (induction m) (auto simp: le_Suc_eq str_val_Suc simp del: str_val.simps)

lemma str_val_det: "str_val n h a = Some s \<Longrightarrow> str_val m h a = Some t \<Longrightarrow> s = t"
  using str_val_mono [of n h a s "max n m"] str_val_mono [of m h a t "max n m"] by simp

text \<open>The later heap gives every object the text it had.\<close>

definition text_ext :: "heap \<Rightarrow> heap \<Rightarrow> bool" where
  "text_ext h h' \<longleftrightarrow> conv_le h h' \<and> (\<forall>n a s. str_val n h a = Some s \<longrightarrow> str_val n h' a = Some s)"

lemma text_ext_refl [simp]: "text_ext h h"
  by (simp add: text_ext_def)

lemma text_ext_trans: "text_ext h1 h2 \<Longrightarrow> text_ext h2 h3 \<Longrightarrow> text_ext h1 h3"
  unfolding text_ext_def by (blast intro: conv_le_trans)

lemma text_ext_conv: "text_ext h h' \<Longrightarrow> conv_le h h'"
  by (simp add: text_ext_def)

lemma text_extD: "text_ext h h' \<Longrightarrow> str_val n h a = Some s \<Longrightarrow> str_val n h' a = Some s"
  by (simp add: text_ext_def)

lemma text_of_ext: "text_ext h h' \<Longrightarrow> text_of h a = Some s \<Longrightarrow> text_of h' a = Some s"
  using conv_le_cells [OF text_ext_conv] text_extD unfolding text_of_def by metis

text \<open>Storing at an object the text it stands for, or anything beside text and list.\<close>

lemma str_val_hset_text:
  assumes ob: "hget a h = Some ob" and s: "str_val m h a = Some s"
  shows "str_val n h b = Some t \<Longrightarrow> str_val n (hset a (ob\<lparr>ob_s := Some s\<rparr>) h) b = Some t"
proof (induction n arbitrary: b t)
  case 0
  then show ?case by simp
next
  case (Suc n)
  let ?h = "hset a (ob\<lparr>ob_s := Some s\<rparr>) h"
  show ?case
  proof (cases "b = a")
    case True
    with Suc.prems s have "t = s" by (metis str_val_det)
    with True ob show ?thesis by (simp add: hget_hset [OF ob])
  next
    case False
    then have same: "hget b ?h = hget b h" by (simp add: hget_hset [OF ob])
    show ?thesis
    proof (cases "\<exists>ob its. hget b h = Some ob \<and> ob_s ob = None \<and> ob_l ob = Items its")
      case True
      then obtain obb its where obb: "hget b h = Some obb" "ob_s obb = None" "ob_l obb = Items its"
        by blast
      with Suc.prems obtain ss where ss: "those (map (str_val n h) (map snd its)) = Some ss" "t = render ss"
        by auto
      have "those (map (str_val n ?h) (map snd its)) = Some ss"
        by (rule those_map_mono [OF ss(1)]) (rule Suc.IH)
      with obb ss(2) same show ?thesis by simp
    next
      case False
      with Suc.prems same show ?thesis by (auto split: option.splits lrep.splits)
    qed
  qed
qed

lemma str_val_hset_other:
  assumes ob: "hget a h = Some ob" and "ob_s ob' = ob_s ob" "ob_l ob' = ob_l ob"
    and "ob_s ob \<noteq> None \<or> ob_l ob \<noteq> No_list"
  shows "str_val n h b = Some t \<Longrightarrow> str_val n (hset a ob' h) b = Some t"
proof (induction n arbitrary: b t)
  case 0
  then show ?case by simp
next
  case (Suc n)
  obtain obb where obb: "hget b h = Some obb" using Suc.prems by (auto split: option.splits)
  obtain obb' where obb': "hget b (hset a ob' h) = Some obb'" "ob_s obb' = ob_s obb" "ob_l obb' = ob_l obb"
    and eq: "b \<noteq> a \<Longrightarrow> obb' = obb"
    using obb ob assms(2,3) by (cases "b = a") (auto simp: hget_hset)
  show ?case
  proof (cases "\<exists>its. ob_s obb = None \<and> ob_l obb = Items its")
    case True
    then obtain its where its: "ob_s obb = None" "ob_l obb = Items its" by blast
    with Suc.prems obb obtain ss where ss: "those (map (str_val n h) (map snd its)) = Some ss" "t = render ss"
      by auto
    have "those (map (str_val n (hset a ob' h)) (map snd its)) = Some ss"
      by (rule those_map_mono [OF ss(1)]) (rule Suc.IH)
    with its obb' ss(2) show ?thesis by simp
  next
    case False
    with Suc.prems obb obb' eq assms(4) ob show ?thesis
      by (cases "b = a") (auto split: option.splits lrep.splits)
  qed
qed

lemma render_objs_text:
  assumes "\<And>a h s. str_val n h a = Some s \<Longrightarrow>
      \<exists>h' ob. f a h = Some (True, h') \<and> text_ext h h' \<and> hget a h' = Some ob \<and> ob_s ob = Some s"
  shows "those (map (str_val n h) as) = Some ss \<Longrightarrow>
    \<exists>h'. render_objs f as acc h = Some (True, render_from acc ss, h') \<and> text_ext h h'"
proof (induction as arbitrary: acc h ss)
  case Nil
  then show ?case by simp
next
  case (Cons a as)
  from Cons.prems obtain s ss' where s: "str_val n h a = Some s" "ss = s # ss'"
    and rest: "those (map (str_val n h) as) = Some ss'"
    by (auto split: option.splits)
  from assms [OF s(1)] obtain h1 ob where h1: "f a h = Some (True, h1)" "text_ext h h1"
    "hget a h1 = Some ob" "ob_s ob = Some s" by blast
  have "those (map (str_val n h1) as) = Some ss'"
    by (rule those_map_mono [OF rest]) (rule text_extD [OF h1(2)])
  from Cons.IH [OF this, of "Some (render_item acc s)"] obtain h2 where
    "render_objs f as (Some (render_item acc s)) h1
       = Some (True, render_from (Some (render_item acc s)) ss', h2)"
    and "text_ext h1 h2" by blast
  with h1 s show ?case by (auto intro: text_ext_trans)
qed

lemma as_str_f_text:
  "str_val n h a = Some s \<Longrightarrow>
     \<exists>h' ob. as_str_f n a h = Some (True, h') \<and> text_ext h h' \<and> hget a h' = Some ob \<and> ob_s ob = Some s"
proof (induction n arbitrary: a h s)
  case 0
  then show ?case by simp
next
  case (Suc n)
  obtain ob where ob: "hget a h = Some ob" using Suc.prems by (auto split: option.splits)
  show ?case
  proof (cases "ob_s ob")
    case (Some s')
    with Suc.prems ob show ?thesis by simp
  next
    case None
    show ?thesis
    proof (cases "ob_l ob")
      case (Items its)
      with Suc.prems ob None obtain ss where
        ss: "those (map (str_val n h) (map snd its)) = Some ss" "s = render ss" by auto
      from render_objs_text [of n "as_str_f n", OF Suc.IH ss(1), of None] obtain h1 where
        h1: "render_objs (as_str_f n) (map snd its) None h = Some (True, render_from None ss, h1)"
        "text_ext h h1" by blast
      from text_ext_conv [OF h1(2)] ob obtain ob1 where ob1: "hget a h1 = Some ob1" by (rule conv_leD)
      let ?h2 = "hset a (ob1\<lparr>ob_s := Some s\<rparr>) h1"
      have run: "as_str_f (Suc n) a h = Some (True, ?h2)"
        using ob None Items h1(1) ob1 ss(2) by (simp add: hupd_def render_def)
      have "str_val (Suc n) h1 a = Some s" by (rule text_extD [OF h1(2) Suc.prems])
      then have "str_val k h1 b = Some t \<Longrightarrow> str_val k ?h2 b = Some t" for k b t
        by (rule str_val_hset_text [OF ob1])
      then have "text_ext h ?h2"
        using text_extD [OF h1(2)] as_str_f_conv_le [OF run] unfolding text_ext_def by blast
      with run ob1 show ?thesis by (auto simp: hget_hset)
    next
      case No_list
      define h' where "h' = hset a (ob\<lparr>ob_s := Some s\<rparr>) h"
      have "as_str_f (Suc n) a h = Some (True, h')"
        using Suc.prems ob None No_list by (auto simp: h'_def split: option.splits)
      moreover from this have "text_ext h h'"
        using str_val_hset_text [OF ob Suc.prems] as_str_f_conv_le unfolding text_ext_def h'_def by blast
      ultimately show ?thesis using ob by (auto simp: h'_def hget_hset)
    next
      case Freed_items
      with Suc.prems ob None show ?thesis by simp
    qed
  qed
qed

lemma b6b_as_str_text:
  assumes "text_of h a = Some s"
  obtains h' ob where "b6b_as_str a h = Some (True, h')" and "text_ext h h'"
    and "hget a h' = Some ob" and "ob_s ob = Some s"
  using as_str_f_text assms unfolding text_of_def b6b_as_str_def by blast

section \<open>\<^verbatim>\<open>b6b_as_str\<close> always returns on a heap without cycles\<close>

text \<open>Every object has a representation, and an object's references are live.\<close>

definition has_rep :: "obj \<Rightarrow> bool" where
  "has_rep ob \<longleftrightarrow> ob_l ob \<noteq> Freed_items
     \<and> (ob_s ob \<noteq> None \<or> ob_l ob \<noteq> No_list \<or> ob_f ob \<noteq> None \<or> ob_i ob \<noteq> None)"

definition heap_wf :: "heap \<Rightarrow> bool" where
  "heap_wf h \<longleftrightarrow> (\<forall>c \<in> set (cells h). case c of None \<Rightarrow> True
     | Some ob \<Rightarrow> has_rep ob \<and> (\<forall>b \<in> set (refs_of ob). hget b h \<noteq> None))"

lemma heap_wfD:
  assumes "heap_wf h" and "hget a h = Some ob"
  shows "has_rep ob" and "\<And>b. b \<in> set (refs_of ob) \<Longrightarrow> hget b h \<noteq> None"
proof -
  have "Some ob \<in> set (cells h)"
    using assms(2) by (metis hget_Some_less hget_Some_nth nth_mem)
  with assms(1) show "has_rep ob" and "\<And>b. b \<in> set (refs_of ob) \<Longrightarrow> hget b h \<noteq> None"
    unfolding heap_wf_def by fastforce+
qed

definition acyclic_by :: "(addr \<Rightarrow> nat) \<Rightarrow> heap \<Rightarrow> bool" where
  "acyclic_by rank h \<longleftrightarrow> (\<forall>a < length (cells h). case cells h ! a of None \<Rightarrow> True
     | Some ob \<Rightarrow> (\<forall>b \<in> set (refs_of ob). rank b < rank a))"

lemma acyclic_byD:
  "acyclic_by rank h \<Longrightarrow> hget a h = Some ob \<Longrightarrow> b \<in> set (refs_of ob) \<Longrightarrow> rank b < rank a"
  unfolding acyclic_by_def
  by (drule spec [of _ a]) (simp add: hget_Some_less hget_Some_nth)

text \<open>The objects below \<open>a\<close>: there are fewer below each of its items.\<close>

definition below :: "(addr \<Rightarrow> nat) \<Rightarrow> heap \<Rightarrow> addr \<Rightarrow> addr set" where
  "below rank h a = {b. b < length (cells h) \<and> hget b h \<noteq> None \<and> rank b < rank a}"

lemma finite_below [simp]: "finite (below rank h a)"
  by (rule finite_subset [of _ "{..<length (cells h)}"]) (auto simp: below_def)

lemma below_psubset:
  assumes "hget b h \<noteq> None" and "rank b < rank a"
  shows "below rank h b \<subset> below rank h a"
proof -
  have "b < length (cells h)" using assms(1) by (simp add: hget_def split: if_splits)
  then have "b \<in> below rank h a" "b \<notin> below rank h b" using assms by (auto simp: below_def)
  moreover have "below rank h b \<subseteq> below rank h a" using assms(2) by (auto simp: below_def)
  ultimately show ?thesis by blast
qed

lemma those_map_Some: "(\<And>x. x \<in> set xs \<Longrightarrow> f x \<noteq> None) \<Longrightarrow> \<exists>ys. those (map f xs) = Some ys"
  by (induction xs) fastforce+

lemma str_val_total:
  assumes wf: "heap_wf h" and ac: "acyclic_by rank h"
  shows "hget a h \<noteq> None \<Longrightarrow> card (below rank h a) < n \<Longrightarrow> str_val n h a \<noteq> None"
proof (induction n arbitrary: a)
  case 0
  then show ?case by simp
next
  case (Suc n)
  then obtain ob where ob: "hget a h = Some ob" by auto
  have rep: "has_rep ob" by (rule heap_wfD(1) [OF wf ob])
  show ?case
  proof (cases "ob_s ob = None \<and> (\<exists>its. ob_l ob = Items its)")
    case True
    then obtain its where its: "ob_s ob = None" "ob_l ob = Items its" by blast
    have "str_val n h b \<noteq> None" if "b \<in> set (map snd its)" for b
    proof (rule Suc.IH)
      have b: "b \<in> set (refs_of ob)" using that its by (simp add: refs_of_def)
      show live: "hget b h \<noteq> None" by (rule heap_wfD(2) [OF wf ob b])
      have "below rank h b \<subset> below rank h a"
        by (rule below_psubset [OF live acyclic_byD [OF ac ob b]])
      then have "card (below rank h b) < card (below rank h a)" by (intro psubset_card_mono) auto
      with Suc.prems(2) show "card (below rank h b) < n" by simp
    qed
    then obtain ss where "those (map (str_val n h) (map snd its)) = Some ss"
      using those_map_Some [of "map snd its" "str_val n h"] by blast
    with ob its show ?thesis by simp
  next
    case False
    with ob rep show ?thesis by (auto simp: has_rep_def split: option.splits lrep.splits)
  qed
qed

lemma text_of_total:
  assumes "heap_wf h" and "acyclic_by rank h" and "hget a h \<noteq> None"
  obtains s where "text_of h a = Some s"
proof -
  have "card (below rank h a) \<le> card {..<length (cells h)}"
    by (rule card_mono) (auto simp: below_def)
  then have "card (below rank h a) < Suc (length (cells h))" by simp
  from str_val_total [OF assms this] show thesis
    using that unfolding text_of_def by blast
qed

section \<open>Hashes and equality\<close>

text \<open>A cached hash is the hash of the cached text.\<close>

definition hash_ok :: "heap \<Rightarrow> bool" where
  "hash_ok h \<longleftrightarrow> (\<forall>c \<in> set (cells h). case c of None \<Rightarrow> True
     | Some ob \<Rightarrow> (case ob_hash ob of None \<Rightarrow> True | Some w \<Rightarrow> map_option b6b_hash (ob_s ob) = Some w))"

lemma hash_ok_iff:
  "hash_ok h \<longleftrightarrow> (\<forall>a ob w. hget a h = Some ob \<longrightarrow> ob_hash ob = Some w \<longrightarrow>
     (\<exists>s. ob_s ob = Some s \<and> w = b6b_hash s))"
proof
  assume "hash_ok h"
  then show "\<forall>a ob w. hget a h = Some ob \<longrightarrow> ob_hash ob = Some w \<longrightarrow>
     (\<exists>s. ob_s ob = Some s \<and> w = b6b_hash s)"
    unfolding hash_ok_def by (fastforce simp: hget_def split: if_splits dest: nth_mem)
next
  assume *: "\<forall>a ob w. hget a h = Some ob \<longrightarrow> ob_hash ob = Some w \<longrightarrow>
     (\<exists>s. ob_s ob = Some s \<and> w = b6b_hash s)"
  show "hash_ok h"
    unfolding hash_ok_def
  proof
    fix c
    assume "c \<in> set (cells h)"
    then obtain a where a: "a < length (cells h)" "cells h ! a = c" by (auto simp: in_set_conv_nth)
    show "case c of None \<Rightarrow> True
      | Some ob \<Rightarrow> (case ob_hash ob of None \<Rightarrow> True | Some w \<Rightarrow> map_option b6b_hash (ob_s ob) = Some w)"
    proof (cases c)
      case (Some ob)
      with a have "hget a h = Some ob" by (simp add: hget_def)
      with * Some show ?thesis by (fastforce split: option.splits)
    qed simp
  qed
qed

lemma hash_okD:
  "hash_ok h \<Longrightarrow> hget a h = Some ob \<Longrightarrow> ob_hash ob = Some w \<Longrightarrow> \<exists>s. ob_s ob = Some s \<and> w = b6b_hash s"
  unfolding hash_ok_iff by blast

text \<open>Any relation that holds between a heap and the heap with one text added.\<close>

lemma render_objs_rel:
  assumes "\<And>h. R h h" and "\<And>h1 h2 h3. R h1 h2 \<Longrightarrow> R h2 h3 \<Longrightarrow> R h1 h3"
    and "\<And>a h ok h'. f a h = Some (ok, h') \<Longrightarrow> R h h'"
  shows "render_objs f as acc h = Some (ok, acc', h') \<Longrightarrow> R h h'"
proof (induction as arbitrary: acc h)
  case Nil
  with assms(1) show ?case by simp
next
  case (Cons a as)
  then obtain ok1 h1 where f: "f a h = Some (ok1, h1)" by (auto simp: bind_Some)
  then have le: "R h h1" by (rule assms(3))
  from Cons f le show ?case
    by (cases ok1) (auto simp: bind_Some intro: assms(2))
qed

lemma as_str_f_rel:
  assumes refl: "\<And>h. R h h" and trans: "\<And>h1 h2 h3. R h1 h2 \<Longrightarrow> R h2 h3 \<Longrightarrow> R h1 h3"
    and step: "\<And>a ob t h. hget a h = Some ob \<Longrightarrow> R h (hset a (ob\<lparr>ob_s := Some t\<rparr>) h)"
  shows "as_str_f n a h = Some (ok, h') \<Longrightarrow> R h h'"
proof (induction n arbitrary: a h ok h')
  case 0
  then show ?case by simp
next
  case (Suc n)
  from Suc.prems obtain ob where ob: "hget a h = Some ob" by (auto simp: bind_Some)
  show ?case
  proof (cases "ob_s ob = None \<and> (\<exists>its. ob_l ob = Items its)")
    case True
    then obtain its where its: "ob_s ob = None" "ob_l ob = Items its" by blast
    with Suc.prems ob obtain ok1 acc h1 where
      r: "render_objs (as_str_f n) (map snd its) None h = Some (ok1, acc, h1)"
      by (auto simp: bind_Some)
    have "R h h1" by (rule render_objs_rel [of R "as_str_f n", OF refl trans Suc.IH r])
    with r Suc.prems ob its show ?thesis
      by (cases ok1) (auto simp: bind_Some hupd_Some intro: trans [OF _ step])
  next
    case False
    with Suc.prems ob refl show ?thesis
      by (auto split: option.splits lrep.splits if_splits intro: step)
  qed
qed

lemma b6b_as_str_hash:
  assumes "b6b_as_str a h = Some (ok, h')"
  shows "map_option ob_hash (hget b h') = map_option ob_hash (hget b h)"
proof -
  have "as_str_f n a h = Some (ok, h') \<Longrightarrow>
      map_option ob_hash (hget b h') = map_option ob_hash (hget b h)" for n
    by (rule as_str_f_rel [where R = "\<lambda>h h'. map_option ob_hash (hget b h') = map_option ob_hash (hget b h)"])
      (auto simp: hget_hset)
  with assms show ?thesis unfolding b6b_as_str_def by blast
qed

lemma b6b_as_str_hash_ok:
  assumes run: "b6b_as_str a h = Some (ok, h')" and ok: "hash_ok h"
  shows "hash_ok h'"
  unfolding hash_ok_iff
proof (intro allI impI)
  fix b ob' w
  assume ob': "hget b h' = Some ob'" and w: "ob_hash ob' = Some w"
  from b6b_as_str_conv_le [OF run] ob' obtain ob where ob: "hget b h = Some ob" "obj_le ob ob'"
    by (rule conv_leD_back)
  with b6b_as_str_hash [OF run, of b] ob' w have "ob_hash ob = Some w" by simp
  with hash_okD [OF ok ob(1)] obtain s where "ob_s ob = Some s" "w = b6b_hash s" by blast
  with ob(2) show "\<exists>s. ob_s ob' = Some s \<and> w = b6b_hash s" by (simp add: obj_le_def)
qed

definition hashed :: "heap \<Rightarrow> addr \<Rightarrow> string \<Rightarrow> bool" where
  "hashed h a s \<longleftrightarrow> (case hget a h of None \<Rightarrow> False
     | Some ob \<Rightarrow> ob_s ob = Some s \<and> ob_hash ob = Some (b6b_hash s))"

lemma hashed_ext: "conv_le h h' \<Longrightarrow> hashed h a s \<Longrightarrow> hashed h' a s"
  by (auto simp: hashed_def obj_le_def split: option.splits elim: conv_leD)

lemma text_of_Some_s: "hget a h = Some ob \<Longrightarrow> ob_s ob = Some s \<Longrightarrow> text_of h a = Some s"
  by (simp add: text_of_def)

lemma b6b_obj_hash_text:
  assumes tx: "text_of h a = Some s" and ok: "hash_ok h"
  obtains h' where "b6b_obj_hash a h = Some (True, h')" and "text_ext h h'"
    and "hash_ok h'" and "hashed h' a s"
proof -
  obtain ob where ob: "hget a h = Some ob" using tx by (auto simp: text_of_def split: option.splits)
  show thesis
  proof (cases "ob_hash ob")
    case (Some w)
    with hash_okD [OF ok ob] obtain s' where s': "ob_s ob = Some s'" "w = b6b_hash s'" by blast
    with tx ob have "s' = s" by (simp add: text_of_Some_s)
    with Some s' ob ok show thesis by (intro that [of h]) (auto simp: b6b_obj_hash_def hashed_def)
  next
    case None
    from b6b_as_str_text [OF tx] obtain h1 ob1 where
      h1: "b6b_as_str a h = Some (True, h1)" "text_ext h h1" "hget a h1 = Some ob1" "ob_s ob1 = Some s"
      by blast
    let ?h2 = "hset a (ob1\<lparr>ob_hash := Some (b6b_hash s)\<rparr>) h1"
    have run: "b6b_obj_hash a h = Some (True, ?h2)"
      using ob None h1 by (simp add: b6b_obj_hash_def)
    have "str_val n h1 b = Some t \<Longrightarrow> str_val n ?h2 b = Some t" for n b t
      by (rule str_val_hset_other [OF h1(3)]) (simp_all add: h1(4))
    then have ext: "text_ext h ?h2"
      using b6b_obj_hash_conv_le [OF run] text_extD [OF h1(2)] unfolding text_ext_def by blast
    have "hash_ok ?h2"
      using b6b_as_str_hash_ok [OF h1(1) ok] h1(3,4)
      unfolding hash_ok_iff by (auto simp: hget_hset)
    moreover have "hashed ?h2 a s" using h1(3,4) by (simp add: hashed_def hget_hset)
    ultimately show thesis using run ext by (intro that)
  qed
qed

text \<open>The comparison of hash, length and bytes decides equality of the texts.\<close>

lemma b6b_obj_eq_text:
  assumes "hashed h a s" and "hashed h b t"
  shows "b6b_obj_eq a b h = Some (s = t)"
  using assms by (auto simp: hashed_def b6b_obj_eq_def split: option.splits)

end
