(* ===== verification/Lists.thy ===== *)
theory Lists
  imports Conv_Lemmas
begin

text \<open>
  The list operations of src/b6b_list.c that work on the heap alone, and their correctness:
  adding, extending, copying and removing keep the reference counts exact and do to the items
  what they say.  A pointer to a node is its identity; following a pointer to a node that is
  no longer in the list is undefined.
\<close>

section \<open>Nodes\<close>

text \<open>\<^verbatim>\<open>b6b_list_next\<close>: \<open>None\<close> if the node is not in the list, \<open>Some None\<close> after the last.\<close>

fun next_in :: "litem \<Rightarrow> (litem \<times> addr) list \<Rightarrow> litem option option" where
  "next_in li [] = None"
| "next_in li ((n, a) # its) =
     (if n = li then Some (case its of [] \<Rightarrow> None | (m, _) # _ \<Rightarrow> Some m) else next_in li its)"

definition first_in :: "(litem \<times> addr) list \<Rightarrow> litem option" where
  "first_in its = (case its of [] \<Rightarrow> None | (n, _) # _ \<Rightarrow> Some n)"

definition items_of :: "addr \<Rightarrow> heap \<Rightarrow> (litem \<times> addr) list option" where
  "items_of l h = do {
     ob \<leftarrow> hget l h;
     case ob_l ob of Items its \<Rightarrow> Some its | _ \<Rightarrow> None
   }"

section \<open>Operations\<close>

definition b6b_list_add :: "addr \<Rightarrow> addr \<Rightarrow> heap \<Rightarrow> heap option" where
  "b6b_list_add l a h = do {
     h1 \<leftarrow> b6b_list_do_add l a h;
     b6b_list_flush l h1
   }"

fun list_do_add_all :: "addr \<Rightarrow> addr list \<Rightarrow> heap \<Rightarrow> heap option" where
  "list_do_add_all l [] h = Some h"
| "list_do_add_all l (a # as) h = do {
     h1 \<leftarrow> b6b_list_do_add l a h;
     list_do_add_all l as h1
   }"

text \<open>\<^verbatim>\<open>b6b_list_build\<close>, its arguments as a list.\<close>

definition b6b_list_build :: "addr list \<Rightarrow> heap \<Rightarrow> (addr \<times> heap) option" where
  "b6b_list_build as h =
     (case b6b_list_new h of (l, h1) \<Rightarrow> map_option (Pair l) (list_do_add_all l as h1))"

text \<open>\<^verbatim>\<open>b6b_list_copy\<close> walks over a list that the walk does not change.\<close>

definition b6b_list_copy :: "addr \<Rightarrow> heap \<Rightarrow> (addr \<times> heap) option" where
  "b6b_list_copy l h = do {
     its \<leftarrow> items_of l h;
     b6b_list_build (map snd its) h
   }"

text \<open>
  \<^verbatim>\<open>b6b_list_extend\<close> walks over \<open>l2\<close> while it appends to \<open>l\<close>, which may be the same list; the
  walk reads the next node after the append.
\<close>

partial_function (option) extend_loop ::
  "addr \<Rightarrow> addr \<Rightarrow> litem option \<Rightarrow> heap \<Rightarrow> heap option" where
  "extend_loop l l2 p h =
     (case p of
        None \<Rightarrow> Some h
      | Some li \<Rightarrow> do {
          its \<leftarrow> items_of l2 h;
          a \<leftarrow> map_of its li;
          h1 \<leftarrow> b6b_list_do_add l a h;
          its1 \<leftarrow> items_of l2 h1;
          p1 \<leftarrow> next_in li its1;
          extend_loop l l2 p1 h1
        })"

declare extend_loop.simps [code]

definition b6b_list_extend :: "addr \<Rightarrow> addr \<Rightarrow> heap \<Rightarrow> heap option" where
  "b6b_list_extend l l2 h = do {
     its \<leftarrow> items_of l2 h;
     h1 \<leftarrow> extend_loop l l2 (first_in its) h;
     b6b_list_flush l h1
   }"

text \<open>\<^verbatim>\<open>b6b_list_remove\<close> and \<^verbatim>\<open>free(li)\<close>: the reference passes to the caller.\<close>

definition list_unlink :: "addr \<Rightarrow> litem \<Rightarrow> heap \<Rightarrow> (addr \<times> heap) option" where
  "list_unlink l li h = do {
     ob \<leftarrow> hget l h;
     its \<leftarrow> items_of l h;
     a \<leftarrow> map_of its li;
     Some (a, hset l (ob\<lparr>ob_l := Items (filter (\<lambda>(n, _). n \<noteq> li) its)\<rparr>) h)
   }"

text \<open>\<^verbatim>\<open>b6b_list_pop\<close>; without a node it takes the last, and returns \<^verbatim>\<open>NULL\<close> if there is none.\<close>

definition b6b_list_pop :: "addr \<Rightarrow> litem option \<Rightarrow> heap \<Rightarrow> (addr option \<times> heap) option" where
  "b6b_list_pop l li h = do {
     its \<leftarrow> items_of l h;
     if li = None \<and> its = [] then Some (None, h)
     else do {
       (a, h1) \<leftarrow> list_unlink l (case li of Some n \<Rightarrow> n | None \<Rightarrow> fst (last its)) h;
       h2 \<leftarrow> b6b_list_flush l h1;
       Some (Some a, h2)
     }
   }"

section \<open>Parsing of arguments\<close>

text \<open>What a format character stores through its pointer: an object, or for \<open>*\<close> a node.\<close>

datatype parg = Arg addr | Rest litem

text \<open>The conversion a format character asks for; \<open>None\<close> for a character that is none.\<close>

definition convert_arg :: "char \<Rightarrow> addr \<Rightarrow> heap \<Rightarrow> (bool \<times> heap) option" where
  "convert_arg c a h =
     (if c = CHR ''o'' then Some (True, h)
      else if c = CHR ''s'' then b6b_as_str a h
      else if c = CHR ''l'' then b6b_as_list a h
      else if c = CHR ''i'' then b6b_as_int a h
      else if c = CHR ''f'' then b6b_as_float a h
      else Some (False, h))"

text \<open>
  \<^verbatim>\<open>b6b_list_vparse\<close> from one format character on: \<open>opt\<close> after \<open>|\<close>, the nodes that are left,
  the number \<open>n\<close> of arguments so far.  \<open>wants\<close> tells which of the variable arguments are not
  \<^verbatim>\<open>NULL\<close>; an argument whose pointer is \<^verbatim>\<open>NULL\<close> is neither converted nor stored.
\<close>

fun vparse :: "string \<Rightarrow> bool list \<Rightarrow> bool \<Rightarrow> (litem \<times> addr) list \<Rightarrow> nat \<Rightarrow> heap
    \<Rightarrow> (nat \<times> parg list \<times> heap) option" where
  "vparse [] wants opt its n h = Some (if its = [] then n else 0, [], h)"
| "vparse (c # fmt) wants opt its n h =
     (if c = CHR ''|'' then vparse fmt wants True its n h
      else case its of
        [] \<Rightarrow> Some (if opt then n else 0, [], h)
      | (li, a) # its' \<Rightarrow>
          (case wants of
             [] \<Rightarrow> None
           | want # wants' \<Rightarrow>
               if \<not> want then vparse fmt wants' opt its' (Suc n) h
               else if c = CHR ''*'' then Some (Suc n, [Rest li], h)
               else do {
                 (ok, h1) \<leftarrow> convert_arg c a h;
                 if \<not> ok then Some (0, [], h1)
                 else do {
                   (m, args, h2) \<leftarrow> vparse fmt wants' opt its' (Suc n) h1;
                   Some (m, Arg a # args, h2)
                 }
               }))"

definition b6b_list_vparse :: "addr \<Rightarrow> string \<Rightarrow> bool list \<Rightarrow> heap \<Rightarrow> (nat \<times> parg list \<times> heap) option" where
  "b6b_list_vparse l fmt wants h = do {
     its \<leftarrow> items_of l h;
     vparse fmt wants False its 0 h
   }"

section \<open>Adding keeps the counts exact\<close>

lemma heap_refs_next_li [simp]: "heap_refs (h\<lparr>next_li := n\<rparr>) = heap_refs h"
  by (simp add: heap_refs_def)

lemma rc_ok_next_li [simp]: "rc_ok roots (h\<lparr>next_li := n\<rparr>) = rc_ok roots h"
  unfolding rc_ok_def heap_refs_next_li by simp

lemma hget_next_li [simp]: "hget a (h\<lparr>next_li := n\<rparr>) = hget a h"
  by (simp add: hget_def)

lemma cells_next_li [simp]: "cells (h\<lparr>next_li := n\<rparr>) = cells h"
  by simp

lemma items_of_Some:
  "items_of l h = Some its \<longleftrightarrow> (\<exists>ob. hget l h = Some ob \<and> ob_l ob = Items its)"
  by (cases "hget l h") (auto simp: items_of_def split: lrep.splits)

text \<open>The object after one more reference to it.\<close>

definition ref_if :: "bool \<Rightarrow> obj \<Rightarrow> obj" where
  "ref_if c ob = (if c then ob\<lparr>ob_refc := Suc (ob_refc ob)\<rparr> else ob)"

lemma ref_if_simps [simp]:
  "ob_l (ref_if c ob) = ob_l ob" "ob_s (ref_if c ob) = ob_s ob" "ob_i (ref_if c ob) = ob_i ob"
  "ob_f (ref_if c ob) = ob_f ob" "ob_hash (ref_if c ob) = ob_hash ob"
  "ob_proc (ref_if c ob) = ob_proc ob" "ob_priv (ref_if c ob) = ob_priv ob"
  "refs_of (ref_if c ob) = refs_of ob"
  by (simp_all add: ref_if_def)

lemma map_ref_if_False [simp]: "map_option (ref_if False) x = x"
  by (cases x) (simp_all add: ref_if_def)

lemma list_do_add_ok:
  assumes ok: "rc_ok roots h" and lo: "hget l h = Some lo" and its: "ob_l lo = Items its"
    and xo: "hget x h = Some xo"
  obtains h' where "b6b_list_do_add l x h = Some h'" and "rc_ok roots h'"
    and "\<And>b. hget b h' =
      (if b = l then Some ((ref_if (x = l) lo)\<lparr>ob_l := Items (its @ [(next_li h, x)])\<rparr>)
       else map_option (ref_if (b = x)) (hget b h))"
    and "next_li h' = Suc (next_li h)" and "length (cells h') = length (cells h)"
proof -
  from ref_ok [OF ok xo] obtain h1 where h1: "b6b_ref x h = Some h1" "rc_ok (add_mset x roots) h1"
    "h1 = hset x (xo\<lparr>ob_refc := Suc (ob_refc xo)\<rparr>) h" by blast
  define lo1 where "lo1 = ref_if (x = l) lo"
  have lo1: "hget l h1 = Some lo1"
    using lo xo h1(3) by (auto simp: hget_hset lo1_def ref_if_def)
  define lo2 where "lo2 = lo1\<lparr>ob_l := Items (its @ [(next_li h, x)])\<rparr>"
  define h2 where "h2 = (hset l lo2 h1)\<lparr>next_li := Suc (next_li h)\<rparr>"
  have nli: "next_li h1 = next_li h" using h1(3) by simp
  have "rc_ok roots (hset l lo2 h1)"
    by (rule rc_ok_hset_refs [OF h1(2) lo1])
      (simp_all add: lo2_def lo1_def refs_of_def its)
  then have "rc_ok roots h2" by (simp add: h2_def)
  moreover have "b6b_list_do_add l x h = Some h2"
    using h1(1) lo1 its nli by (simp add: b6b_list_do_add_def h2_def lo2_def lo1_def)
  moreover have "hget b h2 = (if b = l then Some lo2 else map_option (ref_if (b = x)) (hget b h))" for b
    using lo1 xo by (auto simp: h2_def hget_hset h1(3)) (auto simp: ref_if_def)
  moreover have "next_li h2 = Suc (next_li h)" "length (cells h2) = length (cells h)"
    by (simp_all add: h2_def h1(3))
  ultimately show thesis using that unfolding lo2_def lo1_def by blast
qed

definition flushed :: "obj \<Rightarrow> obj" where
  "flushed ob = ob\<lparr>ob_s := None, ob_i := None, ob_f := None, ob_hash := None\<rparr>"

lemma flushed_simps [simp]:
  "ob_l (flushed ob) = ob_l ob" "ob_s (flushed ob) = None" "ob_i (flushed ob) = None"
  "ob_f (flushed ob) = None" "ob_hash (flushed ob) = None" "ob_proc (flushed ob) = ob_proc ob"
  "ob_priv (flushed ob) = ob_priv ob" "ob_refc (flushed ob) = ob_refc ob"
  "refs_of (flushed ob) = refs_of ob"
  by (simp_all add: flushed_def refs_of_def)

lemma list_flush_ok:
  assumes ok: "rc_ok roots h" and lo: "hget l h = Some lo"
  obtains h' where "b6b_list_flush l h = Some h'" and "rc_ok roots h'"
    and "h' = hset l (flushed lo) h"
proof
  show "b6b_list_flush l h = Some (hset l (flushed lo) h)"
    using lo by (simp add: b6b_list_flush_def hupd_def flushed_def)
  show "rc_ok roots (hset l (flushed lo) h)"
    using rc_okD(3) [OF ok lo] by (intro rc_ok_hset [OF ok lo]) auto
qed simp

lemma list_add_ok:
  assumes ok: "rc_ok roots h" and lo: "hget l h = Some lo" and its: "ob_l lo = Items its"
    and xo: "hget x h = Some xo"
  obtains h' where "b6b_list_add l x h = Some h'" and "rc_ok roots h'"
    and "\<And>b. hget b h' =
      (if b = l then Some (flushed ((ref_if (x = l) lo)\<lparr>ob_l := Items (its @ [(next_li h, x)])\<rparr>))
       else map_option (ref_if (b = x)) (hget b h))"
    and "next_li h' = Suc (next_li h)" and "length (cells h') = length (cells h)"
proof -
  from list_do_add_ok [OF ok lo its xo] obtain h1 where h1: "b6b_list_do_add l x h = Some h1"
    "rc_ok roots h1"
    "\<And>b. hget b h1 =
      (if b = l then Some ((ref_if (x = l) lo)\<lparr>ob_l := Items (its @ [(next_li h, x)])\<rparr>)
       else map_option (ref_if (b = x)) (hget b h))"
    "next_li h1 = Suc (next_li h)" "length (cells h1) = length (cells h)" by metis
  then have l1: "hget l h1 = Some ((ref_if (x = l) lo)\<lparr>ob_l := Items (its @ [(next_li h, x)])\<rparr>)"
    by simp
  from list_flush_ok [OF h1(2) l1] obtain h2 where h2: "b6b_list_flush l h1 = Some h2" "rc_ok roots h2"
    "h2 = hset l (flushed ((ref_if (x = l) lo)\<lparr>ob_l := Items (its @ [(next_li h, x)])\<rparr>)) h1" by blast
  show thesis
  proof (rule that)
    show "b6b_list_add l x h = Some h2" using h1(1) h2(1) by (simp add: b6b_list_add_def)
    show "hget b h2 =
      (if b = l then Some (flushed ((ref_if (x = l) lo)\<lparr>ob_l := Items (its @ [(next_li h, x)])\<rparr>))
       else map_option (ref_if (b = x)) (hget b h))" for b
      using l1 h1(3) by (simp add: h2(3) hget_hset)
  qed (use h1 h2 in simp_all)
qed

section \<open>\<^verbatim>\<open>b6b_as_list\<close> reads the tokens of the text\<close>

lemma heap_refs_sum:
  assumes "length (cells h) \<le> n"
  shows "heap_refs h = (\<Sum>a<n. cell_refs (hget a h))"
proof -
  have "heap_refs h = (\<Sum>a<length (cells h). cell_refs (cells h ! a))"
    by (simp add: heap_refs_def sum_list_sum_nth atLeast0LessThan)
  also have "\<dots> = (\<Sum>a<length (cells h). cell_refs (hget a h))"
    by (rule sum.cong) (simp_all add: hget_def)
  also have "\<dots> = (\<Sum>a<n. cell_refs (hget a h))"
    using assms by (intro sum.mono_neutral_left) (auto simp: hget_def cell_refs_def)
  finally show ?thesis .
qed

lemma heap_refs_cong:
  assumes "\<And>a. hget a h = hget a h'"
  shows "heap_refs h = heap_refs h'"
  using heap_refs_sum [of h "max (length (cells h)) (length (cells h'))"]
    heap_refs_sum [of h' "max (length (cells h)) (length (cells h'))"] assms by simp

lemma rc_ok_cong:
  assumes "\<And>a. hget a h = hget a h'"
  shows "rc_ok roots h = rc_ok roots h'"
  unfolding rc_ok_iff heap_refs_cong [OF assms] using assms by simp

definition str_obj :: "string \<Rightarrow> obj" where
  "str_obj s = new_obj\<lparr>ob_s := Some s\<rparr>"

lemma str_obj_simps [simp]:
  "ob_refc (str_obj s) = 1" "refs_of (str_obj s) = []" "ob_l (str_obj s) = No_list"
  "ob_s (str_obj s) = Some s" "ob_hash (str_obj s) = None" "ob_priv (str_obj s) = No_priv"
  by (simp_all add: str_obj_def new_obj_def refs_of_def)

lemma str_copy_ok:
  assumes "rc_ok roots h" and "b6b_str_copy s h = (a, h1)"
  shows "rc_ok (add_mset a roots) h1" and "a = length (cells h)" and "next_li h1 = next_li h"
    and "length (cells h1) = Suc (length (cells h))"
    and "hget b h1 = (if b = a then Some (str_obj s) else hget b h)"
proof -
  have new: "b6b_new (\<lambda>ob. ob\<lparr>ob_s := Some s\<rparr>) h = (a, h1)"
    using assms(2) by (simp add: b6b_str_copy_def b6b_str_new_def)
  show "rc_ok (add_mset a roots) h1"
    by (rule new_ok(1) [OF assms(1) _ _ _ new]) (simp_all add: new_obj_def refs_of_def)
  from new show "a = length (cells h)" "next_li h1 = next_li h"
    "length (cells h1) = Suc (length (cells h))"
    by (auto simp: b6b_new_def halloc_def)
  from new show "hget b h1 = (if b = a then Some (str_obj s) else hget b h)"
    using hget_halloc [of b "str_obj s" h] by (simp add: b6b_new_def str_obj_def)
qed

text \<open>One token: a new string object whose only reference is the new node.\<close>

lemma token_step:
  assumes ok: "rc_ok roots h" and lo: "hget l h = Some lo" and its: "ob_l lo = Items its"
    and new: "b6b_str_copy t h = (i, h1)"
  obtains h2 h3 where "b6b_list_do_add l i h1 = Some h2" and "b6b_unref i h2 = Some h3"
    and "rc_ok roots h3" and "i = length (cells h)"
    and "\<And>b. hget b h3 = (if b = l then Some (lo\<lparr>ob_l := Items (its @ [(next_li h, i)])\<rparr>)
          else if b = i then Some (str_obj t) else hget b h)"
    and "next_li h3 = Suc (next_li h)" and "length (cells h3) = Suc (length (cells h))"
proof -
  note h1 = str_copy_ok [OF ok new]
  have il: "i \<noteq> l" using h1(2) lo by (auto simp: hget_def)
  have l1: "hget l h1 = Some lo" and i1: "hget i h1 = Some (str_obj t)"
    using il lo by (simp_all add: h1(5))
  from list_do_add_ok [OF h1(1) l1 its i1] obtain h2 where h2: "b6b_list_do_add l i h1 = Some h2"
    "rc_ok (add_mset i roots) h2"
    "\<And>b. hget b h2 = (if b = l then Some ((ref_if (i = l) lo)\<lparr>ob_l := Items (its @ [(next_li h1, i)])\<rparr>)
       else map_option (ref_if (b = i)) (hget b h1))"
    "next_li h2 = Suc (next_li h1)" "length (cells h2) = length (cells h1)" by metis
  have i2: "hget i h2 = Some (ref_if True (str_obj t))" using il i1 by (simp add: h2(3))
  define h3 where "h3 = hset i (str_obj t) h2"
  have un: "b6b_unref i h2 = Some h3"
    using i2 by (simp add: b6b_unref_def h3_def ref_if_def)
      (simp add: str_obj_def new_obj_def)
  from unref_ok [OF h2(2)] un have "rc_ok roots h3" by auto
  moreover have "hget b h3 = (if b = l then Some (lo\<lparr>ob_l := Items (its @ [(next_li h, i)])\<rparr>)
      else if b = i then Some (str_obj t) else hget b h)" for b
    using i2 il by (auto simp: h3_def hget_hset h2(3) h1(3,5)) (auto simp: ref_if_def)
  ultimately show thesis using h2 h1 un that by (simp add: h3_def)
qed

text \<open>The whole loop, up to the end of the text or the first malformed token.\<close>

lemma do_as_list_run:
  "rc_ok roots h \<Longrightarrow> hget l h = Some lo \<Longrightarrow> ob_l lo = Items its \<Longrightarrow>
   \<exists>h' new. b6b_do_as_list l s h =
        (if snd (lex s) then Some (True, h') else map_option (Pair False) (b6b_destroy_l l h'))
     \<and> rc_ok roots h' \<and> hget l h' = Some (lo\<lparr>ob_l := Items (its @ new)\<rparr>)
     \<and> map fst new = [next_li h ..< next_li h + length (fst (lex s))]
     \<and> map snd new = [length (cells h) ..< length (cells h) + length (fst (lex s))]
     \<and> next_li h' = next_li h + length (fst (lex s))
     \<and> length (cells h') = length (cells h) + length (fst (lex s))
     \<and> map (\<lambda>p. hget (snd p) h') new = map (Some \<circ> str_obj) (fst (lex s))
     \<and> (\<forall>b. b \<noteq> l \<longrightarrow> b < length (cells h) \<longrightarrow> hget b h' = hget b h)"
proof (induction s arbitrary: h lo its rule: lex.induct)
  case (1 s)
  show ?case
  proof (cases "next_token s")
    case Tok_end
    then have "b6b_do_as_list l s h = Some (True, h)" "lex s = ([], True)"
      by (simp_all add: b6b_do_as_list.simps lex.simps)
    with "1.prems" show ?thesis by (intro exI [of _ h] exI [of _ "[]"]) simp
  next
    case Tok_bad
    then have "b6b_do_as_list l s h = map_option (Pair False) (b6b_destroy_l l h)" "lex s = ([], False)"
      by (simp_all add: b6b_do_as_list.simps lex.simps)
    with "1.prems" show ?thesis by (intro exI [of _ h] exI [of _ "[]"]) simp
  next
    case (Tok item rest)
    obtain i h1 where new: "b6b_str_copy item h = (i, h1)" by (cases "b6b_str_copy item h")
    from token_step [OF "1.prems" new] obtain h2 h3 where
      run: "b6b_list_do_add l i h1 = Some h2" "b6b_unref i h2 = Some h3" "rc_ok roots h3"
      and i: "i = length (cells h)"
      and get: "\<And>b. hget b h3 = (if b = l then Some (lo\<lparr>ob_l := Items (its @ [(next_li h, i)])\<rparr>)
          else if b = i then Some (str_obj item) else hget b h)"
      and sizes: "next_li h3 = Suc (next_li h)" "length (cells h3) = Suc (length (cells h))"
      by metis
    have eqs: "b6b_do_as_list l s h = b6b_do_as_list l rest h3"
      "fst (lex s) = item # fst (lex rest)" "snd (lex s) = snd (lex rest)"
      using Tok new run(1,2) by (simp_all add: b6b_do_as_list.simps [of l s] lex.simps [of s] split: prod.split)
    have l3: "hget l h3 = Some (lo\<lparr>ob_l := Items (its @ [(next_li h, i)])\<rparr>)" by (simp add: get)
    from "1.IH" [OF Tok run(3) l3] obtain h' new' where IH:
      "b6b_do_as_list l rest h3 =
        (if snd (lex rest) then Some (True, h') else map_option (Pair False) (b6b_destroy_l l h'))"
      "rc_ok roots h'" "hget l h' = Some (lo\<lparr>ob_l := Items ((its @ [(next_li h, i)]) @ new')\<rparr>)"
      "map fst new' = [next_li h3 ..< next_li h3 + length (fst (lex rest))]"
      "map snd new' = [length (cells h3) ..< length (cells h3) + length (fst (lex rest))]"
      "next_li h' = next_li h3 + length (fst (lex rest))"
      "length (cells h') = length (cells h3) + length (fst (lex rest))"
      "map (\<lambda>p. hget (snd p) h') new' = map (Some \<circ> str_obj) (fst (lex rest))"
      "\<forall>b. b \<noteq> l \<longrightarrow> b < length (cells h3) \<longrightarrow> hget b h' = hget b h3" by auto
    have il: "i \<noteq> l" using i "1.prems"(2) by (auto simp: hget_def)
    have "hget i h' = Some (str_obj item)"
      using IH(9) sizes(2) il i by (simp add: get)
    moreover have "\<forall>b. b \<noteq> l \<longrightarrow> b < length (cells h) \<longrightarrow> hget b h' = hget b h"
      using IH(9) sizes(2) i by (simp add: get)
    ultimately show ?thesis
      using IH(1-8) eqs sizes i
      by (intro exI [of _ h'] exI [of _ "(next_li h, i) # new'"])
        (simp del: upt_Suc add: upt_conv_Cons)
  qed
qed

text \<open>Giving up objects that refer to nothing and are referred to once.\<close>

lemma unrefs_leaves:
  "distinct as \<Longrightarrow> (\<And>a. a \<in> set as \<Longrightarrow> \<exists>t. hget a h = Some (str_obj t)) \<Longrightarrow>
   \<exists>h'. b6b_unrefs as h = Some h' \<and> (\<forall>b. hget b h' = (if b \<in> set as then None else hget b h))"
proof (induction as arbitrary: h)
  case Nil
  then show ?case by simp
next
  case (Cons a as)
  obtain t where a: "hget a h = Some (str_obj t)" using Cons.prems by auto
  have "\<exists>t. hget b (hfree a h) = Some (str_obj t)" if "b \<in> set as" for b
    using Cons.prems that by (auto simp: hget_hfree)
  with Cons.IH [of "hfree a h"] Cons.prems obtain h' where
    h': "b6b_unrefs as (hfree a h) = Some h'"
    "\<forall>b. hget b h' = (if b \<in> set as then None else hget b (hfree a h))" by auto
  moreover have "b6b_unrefs (a # as) h = b6b_unrefs as (hfree a h)"
    using a by (simp add: destroy_refs_def)
  ultimately show ?case by (auto simp: hget_hfree)
qed

text \<open>
  A text that is well formed becomes the list of its tokens, each a new string object owned by
  its node alone; a malformed text leaves every object as it was.
\<close>

lemma do_as_list_bad:
  assumes ok: "rc_ok roots h" and lo: "hget l h = Some lo" and its: "ob_l lo = Items []"
    and bad: "\<not> snd (lex s)"
  obtains h' where "b6b_do_as_list l s h = Some (False, h')"
    and "\<And>b. b \<noteq> l \<Longrightarrow> hget b h' = hget b h"
    and "hget l h' = Some (lo\<lparr>ob_l := (if fst (lex s) = [] then Items [] else Freed_items)\<rparr>)"
    and "next_li h \<le> next_li h'"
proof -
  from do_as_list_run [OF ok lo its, of s] bad obtain h1 new where h1:
    "b6b_do_as_list l s h = map_option (Pair False) (b6b_destroy_l l h1)"
    "rc_ok roots h1" "hget l h1 = Some (lo\<lparr>ob_l := Items new\<rparr>)"
    "map snd new = [length (cells h) ..< length (cells h) + length (fst (lex s))]"
    "map (\<lambda>p. hget (snd p) h1) new = map (Some \<circ> str_obj) (fst (lex s))"
    "\<forall>b. b \<noteq> l \<longrightarrow> b < length (cells h) \<longrightarrow> hget b h1 = hget b h"
    "length (cells h1) = length (cells h) + length (fst (lex s))"
    "next_li h1 = next_li h + length (fst (lex s))"
    by auto
  have dist: "distinct (map snd new)" using h1(4) by simp
  have leaves: "\<exists>t. hget a h1 = Some (str_obj t)" if "a \<in> set (map snd new)" for a
  proof -
    from that have "hget a h1 \<in> set (map (\<lambda>p. hget (snd p) h1) new)" by force
    then show ?thesis unfolding h1(5) by auto
  qed
  from unrefs_leaves [OF dist leaves] obtain h2 where h2: "b6b_unrefs (map snd new) h1 = Some h2"
    "\<forall>b. hget b h2 = (if b \<in> set (map snd new) then None else hget b h1)" by blast
  have lnew: "l \<notin> set (map snd new)" using h1(4) lo by (auto simp: hget_def)
  then have l2: "hget l h2 = Some (lo\<lparr>ob_l := Items new\<rparr>)" using h2(2) h1(3) by simp
  define h3 where "h3 = hset l (lo\<lparr>ob_l := (if new = [] then Items [] else Freed_items)\<rparr>) h2"
  have "b6b_destroy_l l h1 = Some h3"
    using h1(3) h2(1) l2 by (simp add: b6b_destroy_l_def hupd_def h3_def)
  with h1(1) have "b6b_do_as_list l s h = Some (False, h3)" by simp
  moreover have "hget b h3 = hget b h" if "b \<noteq> l" for b
  proof -
    have "hget b h3 = (if b \<in> set (map snd new) then None else hget b h1)"
      using that l2 h2(2) by (simp add: h3_def hget_hset)
    also have "\<dots> = hget b h"
    proof (cases "b < length (cells h)")
      case True
      then show ?thesis using h1(4,6) that by auto
    next
      case False
      then show ?thesis using h1(4,7) by (auto simp: hget_def)
    qed
    finally show ?thesis .
  qed
  moreover have "hget l h3 = Some (lo\<lparr>ob_l := (if fst (lex s) = [] then Items [] else Freed_items)\<rparr>)"
  proof -
    have "length new = length (fst (lex s))" using h1(4) by (metis add_diff_cancel_left' length_map length_upt)
    then have "(new = []) = (fst (lex s) = [])" by (metis length_0_conv)
    with l2 show ?thesis by (simp add: h3_def hget_hset)
  qed
  moreover have "next_li h \<le> next_li h3"
    using unrefs_next_li [OF h2(1)] h1(8) by (simp add: h3_def)
  ultimately show thesis by (rule that)
qed

lemma rc_ok_set_empty_list:
  assumes "rc_ok roots h" and "hget l h = Some lo" and "ob_l lo = No_list"
  shows "rc_ok roots (hset l (lo\<lparr>ob_l := Items []\<rparr>) h)"
  by (rule rc_ok_hset [OF assms(1,2)]) (simp_all add: refs_of_def assms(3))

lemma b6b_as_list_bad:
  assumes ok: "rc_ok roots h" and lo: "hget l h = Some lo" and nl: "ob_l lo = No_list"
    and s: "ob_s lo = Some s" and bad: "tokens s = None"
  obtains h' where "b6b_as_list l h = Some (False, h')" and "\<And>b. hget b h' = hget b h"
    and "rc_ok roots h'" and "next_li h \<le> next_li h'"
proof -
  let ?h1 = "hset l (lo\<lparr>ob_l := Items []\<rparr>) h"
  have str: "b6b_as_str l h = Some (True, h)" using lo s by (simp add: b6b_as_str_def)
  have ok1: "rc_ok roots ?h1" by (rule rc_ok_set_empty_list [OF ok lo nl])
  have l1: "hget l ?h1 = Some (lo\<lparr>ob_l := Items []\<rparr>)" using lo by (simp add: hget_hset)
  have "\<not> snd (lex s)" using bad by (simp add: tokens_lex split: if_splits)
  from do_as_list_bad [OF ok1 l1 _ this] obtain h2 where h2:
    "b6b_do_as_list l s ?h1 = Some (False, h2)" "\<And>b. b \<noteq> l \<Longrightarrow> hget b h2 = hget b ?h1"
    "hget l h2 = Some (lo\<lparr>ob_l := (if fst (lex s) = [] then Items [] else Freed_items)\<rparr>)"
    "next_li ?h1 \<le> next_li h2"
    by (auto split: if_splits)
  let ?h3 = "hset l (lo\<lparr>ob_l := No_list\<rparr>) h2"
  have run: "b6b_as_list l h = Some (False, ?h3)"
    using lo nl str s h2(1,3) by (simp add: b6b_as_list_def hupd_def)
  have same: "hget b ?h3 = hget b h" for b
    using h2(2,3) lo nl by (cases "b = l") (auto simp: hget_hset)
  have "rc_ok roots ?h3" using rc_ok_cong [of ?h3 h, OF same] ok by simp
  moreover have "next_li h \<le> next_li ?h3" using h2(4) by simp
  ultimately show thesis using run same that by blast
qed

lemma b6b_as_list_ok:
  assumes ok: "rc_ok roots h" and lo: "hget l h = Some lo" and nl: "ob_l lo = No_list"
    and s: "ob_s lo = Some s" and ss: "tokens s = Some ss"
  obtains h' new where "b6b_as_list l h = Some (True, h')" and "rc_ok roots h'"
    and "hget l h' = Some (lo\<lparr>ob_l := Items new\<rparr>)"
    and "map (\<lambda>p. hget (snd p) h') new = map (Some \<circ> str_obj) ss"
    and "map fst new = [next_li h ..< next_li h + length ss]"
    and "\<And>b ob. b \<noteq> l \<Longrightarrow> hget b h = Some ob \<Longrightarrow> hget b h' = Some ob"
    and "\<And>b. b \<noteq> l \<Longrightarrow> hget b h' = hget b h \<or> (\<exists>t. hget b h' = Some (str_obj t))"
    and "next_li h' = next_li h + length ss"
proof -
  let ?h1 = "hset l (lo\<lparr>ob_l := Items []\<rparr>) h"
  have str: "b6b_as_str l h = Some (True, h)" using lo s by (simp add: b6b_as_str_def)
  have ok1: "rc_ok roots ?h1" by (rule rc_ok_set_empty_list [OF ok lo nl])
  have l1: "hget l ?h1 = Some (lo\<lparr>ob_l := Items []\<rparr>)" using lo by (simp add: hget_hset)
  have lex: "snd (lex s)" "fst (lex s) = ss" using ss by (simp_all add: tokens_lex split: if_splits)
  from do_as_list_run [OF ok1 l1, of "[]" s] lex obtain h2 new where h2:
    "b6b_do_as_list l s ?h1 = Some (True, h2)" "rc_ok roots h2"
    "hget l h2 = Some (lo\<lparr>ob_l := Items new\<rparr>)"
    "map (\<lambda>p. hget (snd p) h2) new = map (Some \<circ> str_obj) ss"
    "map fst new = [next_li h ..< next_li h + length ss]"
    "\<forall>b. b \<noteq> l \<longrightarrow> b < length (cells h) \<longrightarrow> hget b h2 = hget b ?h1"
    "map snd new = [length (cells h) ..< length (cells h) + length ss]"
    "length (cells h2) = length (cells h) + length ss" "next_li h2 = next_li h + length ss" by auto
  have "b6b_as_list l h = Some (True, h2)"
    using lo nl str s h2(1) by (simp add: b6b_as_list_def)
  moreover have "hget b h2 = Some ob" if "b \<noteq> l" "hget b h = Some ob" for b ob
    using h2(6) that lo by (auto simp: hget_hset dest: hget_Some_less)
  moreover have "hget b h2 = hget b h \<or> (\<exists>t. hget b h2 = Some (str_obj t))" if "b \<noteq> l" for b
  proof -
    consider "b < length (cells h)" | "b \<in> set (map snd new)" | "length (cells h2) \<le> b"
      using h2(7,8) by fastforce
    then show ?thesis
    proof cases
      case 1
      then show ?thesis using h2(6) that lo by (simp add: hget_hset)
    next
      case 2
      then have "hget b h2 \<in> set (map (\<lambda>p. hget (snd p) h2) new)" by force
      then show ?thesis unfolding h2(4) by auto
    next
      case 3
      then show ?thesis using h2(8) by (simp add: hget_def)
    qed
  qed
  ultimately show thesis using h2 that by blast
qed

end
