(* ===== verification/Dict.thy ===== *)
theory Dict
  imports Lists
begin

text \<open>
  Dictionaries: src/b6b_dict.c.  A dictionary is a list in which keys and values alternate.
  The walk hashes the keys it passes; hashing changes no list, so the nodes are read once.
  The abstract side is a partial map from texts to objects: the locale states what the rest of
  the interpreter expects of the three operations, and the interpretation discharges it for the
  operations of the code.
\<close>

section \<open>Operations\<close>

text \<open>
  What the walk over the keys ends with: an error, no such key, or the nodes of the key and of
  its value.  \<^verbatim>\<open>b6b_dict_set\<close> hashes a key before it looks for its value
  (\<open>hash_first\<close>), the other two after.
\<close>

datatype dict_pos = D_fail | D_absent | D_at litem addr litem addr

fun dict_walk :: "bool \<Rightarrow> addr \<Rightarrow> (litem \<times> addr) list \<Rightarrow> heap \<Rightarrow> (dict_pos \<times> heap) option" where
  "dict_walk hash_first k [] h = Some (D_absent, h)"
| "dict_walk hash_first k [(kn, ka)] h =
     (if hash_first then map_option (\<lambda>(ok, h1). (D_fail, h1)) (b6b_obj_hash ka h)
      else Some (D_fail, h))"
| "dict_walk hash_first k ((kn, ka) # (vn, va) # its) h = do {
     (ok, h1) \<leftarrow> b6b_obj_hash ka h;
     if \<not> ok then Some (D_fail, h1)
     else do {
       eq \<leftarrow> b6b_obj_eq ka k h1;
       if eq then Some (D_at kn ka vn va, h1) else dict_walk hash_first k its h1
     }
   }"

definition dict_find :: "bool \<Rightarrow> addr \<Rightarrow> addr \<Rightarrow> heap \<Rightarrow> (dict_pos \<times> heap) option" where
  "dict_find hash_first d k h = do {
     (ok, h1) \<leftarrow> b6b_obj_hash k h;
     if \<not> ok then Some (D_fail, h1)
     else do {
       its \<leftarrow> items_of d h1;
       dict_walk hash_first k its h1
     }
   }"

text \<open>The result of \<^verbatim>\<open>b6b_dict_get\<close>: \<open>None\<close> for failure, else what it stores in \<^verbatim>\<open>*v\<close>.\<close>

definition b6b_dict_get :: "addr \<Rightarrow> addr \<Rightarrow> heap \<Rightarrow> (addr option option \<times> heap) option" where
  "b6b_dict_get d k h = do {
     (p, h1) \<leftarrow> dict_find False d k h;
     Some (case p of D_fail \<Rightarrow> None | D_absent \<Rightarrow> Some None | D_at _ _ _ v \<Rightarrow> Some (Some v), h1)
   }"

text \<open>\<^verbatim>\<open>vli->o = v\<close>; the node must still be there.\<close>

definition set_node :: "addr \<Rightarrow> litem \<Rightarrow> addr \<Rightarrow> heap \<Rightarrow> heap option" where
  "set_node l li a h = do {
     its \<leftarrow> items_of l h;
     old \<leftarrow> map_of its li;
     hupd l (\<lambda>ob. ob\<lparr>ob_l := Items (map (\<lambda>(n, x). (n, if n = li then a else x)) its)\<rparr>) h
   }"

definition b6b_dict_set :: "addr \<Rightarrow> addr \<Rightarrow> addr \<Rightarrow> heap \<Rightarrow> (bool \<times> heap) option" where
  "b6b_dict_set d k v h = do {
     (p, h1) \<leftarrow> dict_find True d k h;
     case p of
       D_fail \<Rightarrow> Some (False, h1)
     | D_at _ _ vli old \<Rightarrow> do {
         h2 \<leftarrow> b6b_unref old h1;
         h3 \<leftarrow> b6b_ref v h2;
         h4 \<leftarrow> set_node d vli v h3;
         h5 \<leftarrow> b6b_list_flush d h4;
         Some (True, h5)
       }
     | D_absent \<Rightarrow> do {
         h2 \<leftarrow> b6b_list_add d k h1;
         h3 \<leftarrow> b6b_list_add d v h2;
         Some (True, h3)
       }
   }"

text \<open>\<^verbatim>\<open>b6b_unref(b6b_list_pop(d, li))\<close>.\<close>

definition pop_unref :: "addr \<Rightarrow> litem \<Rightarrow> heap \<Rightarrow> heap option" where
  "pop_unref d li h = do {
     (a, h1) \<leftarrow> b6b_list_pop d (Some li) h;
     x \<leftarrow> a;
     b6b_unref x h1
   }"

definition b6b_dict_unset :: "addr \<Rightarrow> addr \<Rightarrow> heap \<Rightarrow> (bool \<times> heap) option" where
  "b6b_dict_unset d k h = do {
     (p, h1) \<leftarrow> dict_find False d k h;
     case p of
       D_fail \<Rightarrow> Some (False, h1)
     | D_absent \<Rightarrow> Some (True, h1)
     | D_at li _ vli _ \<Rightarrow> do {
         h2 \<leftarrow> pop_unref d li h1;
         h3 \<leftarrow> pop_unref d vli h2;
         Some (True, h3)
       }
   }"

end
