(* ===== verification/Interp.thy ===== *)
theory Interp
  imports Dict
begin

text \<open>
  The interpreter's state and the operations on it that run no code: include/b6b/interp.h,
  include/b6b/thread.h, include/b6b/frame.h, src/b6b_frame.c, src/b6b_thread.c, the variables
  and return values of src/b6b_interp.c, and the argument check of src/b6b_proc.c.

  \<^verbatim>\<open>interp->fg\<close> points into the queue \<^verbatim>\<open>interp->threads\<close>; here the queue is the
  threads before it, the thread itself and the threads after it.  The frames of a thread are its
  chain from \<^verbatim>\<open>curr\<close> along \<^verbatim>\<open>prev\<close>, without the global frame that ends every chain.
\<close>

section \<open>State\<close>

definition B6B_QUANT_LEN :: "u8" where "B6B_QUANT_LEN = 16"
definition B6B_MAX_NESTING :: nat where "B6B_MAX_NESTING = 64"

definition B6B_OPT_CMD :: u8 where "B6B_OPT_CMD = 1"
definition B6B_OPT_RAISE :: u8 where "B6B_OPT_RAISE = 2"
definition B6B_OPT_NBF :: u8 where "B6B_OPT_NBF = 4"
definition B6B_OPT_TRACE :: u8 where "B6B_OPT_TRACE = 8"

record frame =
  locals :: addr
  fargs :: addr

record thread =
  t_id :: nat \<comment> \<open>identity, the address of the structure\<close>
  t_curr :: "frame list"
  t_fn :: "addr option"
  t_ret :: addr \<comment> \<open>the field \<^verbatim>\<open>_\<close>\<close>
  t_depth :: nat
  t_bg :: bool
  t_fg :: bool
  t_done :: bool
  t_blocked :: bool

record interp =
  hp :: heap
  tq_before :: "thread list"
  fg :: thread
  tq_after :: "thread list"
  global :: frame
  i_null :: addr
  i_zero :: addr
  i_one :: addr
  i_dot :: addr
  i_at :: addr
  i_us :: addr \<comment> \<open>the field \<^verbatim>\<open>_\<close>\<close>
  exiting :: bool
  seed :: u32
  qstep :: u8
  opts :: u8
  next_tid :: nat
  err_out :: string \<comment> \<open>what the process has written to standard error\<close>

definition threads :: "interp \<Rightarrow> thread list" where
  "threads I = tq_before I @ fg I # tq_after I"

definition has_opt :: "u8 \<Rightarrow> interp \<Rightarrow> bool" where
  "has_opt opt I \<longleftrightarrow> opts I AND opt \<noteq> 0"

text \<open>\<^verbatim>\<open>b6b_threaded\<close>: there is a second thread.\<close>

definition b6b_threaded :: "interp \<Rightarrow> bool" where
  "b6b_threaded I \<longleftrightarrow> length (threads I) \<ge> 2"

text \<open>
  What the interpreter takes from outside: \<^verbatim>\<open>mbrtowc\<close> in the locale of the process (the
  length of the first character, \<open>None\<close> when it is none), \<^verbatim>\<open>rand_r\<close>, the contents of a file
  that can be read, and the procedures of the extensions that are not modelled.
\<close>

record env =
  e_mbr :: "string \<Rightarrow> nat option"
  e_rand :: "u32 \<Rightarrow> u32 \<times> u32"
  e_file :: "string \<Rightarrow> string option"
  e_ext :: "nat \<Rightarrow> addr \<Rightarrow> interp \<Rightarrow> (b6b_res \<times> interp) option"

section \<open>Heap operations inside the interpreter\<close>

definition on_heap :: "(heap \<Rightarrow> ('a \<times> heap) option) \<Rightarrow> interp \<Rightarrow> ('a \<times> interp) option" where
  "on_heap f I = do {
     (x, h) \<leftarrow> f (hp I);
     Some (x, I\<lparr>hp := h\<rparr>)
   }"

definition upd_heap :: "(heap \<Rightarrow> heap option) \<Rightarrow> interp \<Rightarrow> interp option" where
  "upd_heap f I = map_option (\<lambda>h. I\<lparr>hp := h\<rparr>) (f (hp I))"

definition new_heap :: "(heap \<Rightarrow> addr \<times> heap) \<Rightarrow> interp \<Rightarrow> addr \<times> interp" where
  "new_heap f I = (case f (hp I) of (a, h) \<Rightarrow> (a, I\<lparr>hp := h\<rparr>))"

text \<open>Reading a field of an object through its pointer.\<close>

definition obj_at :: "addr \<Rightarrow> interp \<Rightarrow> obj option" where
  "obj_at a I = hget a (hp I)"

definition str_at :: "addr \<Rightarrow> interp \<Rightarrow> string option" where
  "str_at a I = Option.bind (obj_at a I) ob_s"

definition int_at :: "addr \<Rightarrow> interp \<Rightarrow> b6b_int option" where
  "int_at a I = Option.bind (obj_at a I) ob_i"

definition float_at :: "addr \<Rightarrow> interp \<Rightarrow> dbl option" where
  "float_at a I = Option.bind (obj_at a I) ob_f"

definition items_at :: "addr \<Rightarrow> interp \<Rightarrow> (litem \<times> addr) list option" where
  "items_at a I = items_of a (hp I)"

section \<open>Return values\<close>

definition set_ret :: "addr \<Rightarrow> interp \<Rightarrow> interp" where
  "set_ret a I = I\<lparr>fg := (fg I)\<lparr>t_ret := a\<rparr>\<rparr>"

text \<open>\<^verbatim>\<open>b6b_return\<close> takes over the reference to \<open>a\<close>.\<close>

definition b6b_return :: "addr \<Rightarrow> interp \<Rightarrow> (b6b_res \<times> interp) option" where
  "b6b_return a I = do {
     I \<leftarrow> upd_heap (b6b_unref (t_ret (fg I))) I;
     Some (B6B_OK, set_ret a I)
   }"

text \<open>\<^verbatim>\<open>b6b_return(interp, b6b_ref(a))\<close>.\<close>

definition return_ref :: "addr \<Rightarrow> interp \<Rightarrow> (b6b_res \<times> interp) option" where
  "return_ref a I = do {
     I \<leftarrow> upd_heap (b6b_ref a) I;
     b6b_return a I
   }"

definition b6b_return_int :: "b6b_int \<Rightarrow> interp \<Rightarrow> (b6b_res \<times> interp) option" where
  "b6b_return_int i I = (case new_heap (b6b_int_new i) I of (a, I) \<Rightarrow> b6b_return a I)"

definition b6b_return_float :: "dbl \<Rightarrow> interp \<Rightarrow> (b6b_res \<times> interp) option" where
  "b6b_return_float f I = (case new_heap (b6b_float_new f) I of (a, I) \<Rightarrow> b6b_return a I)"

definition b6b_return_str :: "string \<Rightarrow> interp \<Rightarrow> (b6b_res \<times> interp) option" where
  "b6b_return_str s I = (case new_heap (b6b_str_copy s) I of (a, I) \<Rightarrow> b6b_return a I)"

definition b6b_return_bool :: "bool \<Rightarrow> interp \<Rightarrow> (b6b_res \<times> interp) option" where
  "b6b_return_bool b I = return_ref (if b then i_one I else i_zero I) I"

text \<open>An error message: the return value is the message, the status B6B_ERR.\<close>

definition fail_with :: "string \<Rightarrow> interp \<Rightarrow> (b6b_res \<times> interp) option" where
  "fail_with s I = do {
     (_, I) \<leftarrow> b6b_return_str s I;
     Some (B6B_ERR, I)
   }"

section \<open>Frames\<close>

definition b6b_frame_new :: "heap \<Rightarrow> frame \<times> heap" where
  "b6b_frame_new h =
     (case b6b_list_new h of (d, h1) \<Rightarrow>
      case b6b_list_new h1 of (a, h2) \<Rightarrow> (\<lparr>locals = d, fargs = a\<rparr>, h2))"

definition b6b_frame_destroy :: "frame \<Rightarrow> heap \<Rightarrow> heap option" where
  "b6b_frame_destroy f h = do {
     h1 \<leftarrow> b6b_unref (fargs f) h;
     b6b_unref (locals f) h1
   }"

text \<open>\<^verbatim>\<open>b6b_frame_push\<close> returns the frame, \<open>None\<close> if the chain is at its limit.\<close>

definition b6b_frame_push :: "interp \<Rightarrow> (frame option \<times> interp) option" where
  "b6b_frame_push I =
     (if t_depth (fg I) \<ge> B6B_MAX_NESTING then do {
        (_, I) \<leftarrow> b6b_return_str ''call stack overflow'' I;
        Some (None, I)
      }
      else
        (case b6b_frame_new (hp I) of (f, h) \<Rightarrow>
           Some (Some f, I\<lparr>hp := h,
             fg := (fg I)\<lparr>t_curr := f # t_curr (fg I), t_depth := Suc (t_depth (fg I))\<rparr>\<rparr>)))"

definition b6b_frame_pop :: "interp \<Rightarrow> interp option" where
  "b6b_frame_pop I =
     (case t_curr (fg I) of
        [] \<Rightarrow> None
      | f # fs \<Rightarrow> do {
          I \<leftarrow> upd_heap (b6b_frame_destroy f) I;
          Some (I\<lparr>fg := (fg I)\<lparr>t_curr := fs, t_depth := t_depth (fg I) - 1\<rparr>\<rparr>)
        })"

text \<open>The chain of frames from \<^verbatim>\<open>fg->curr\<close> to the global frame.\<close>

definition chain :: "interp \<Rightarrow> frame list" where
  "chain I = t_curr (fg I) @ [global I]"

definition curr :: "interp \<Rightarrow> frame" where
  "curr I = hd (chain I)"

section \<open>Variables\<close>

definition b6b_local :: "addr \<Rightarrow> addr \<Rightarrow> interp \<Rightarrow> (bool \<times> interp) option" where
  "b6b_local k v I = on_heap (b6b_dict_set (locals (curr I)) k v) I"

definition b6b_global :: "addr \<Rightarrow> addr \<Rightarrow> interp \<Rightarrow> (bool \<times> interp) option" where
  "b6b_global k v I = on_heap (b6b_dict_set (locals (global I)) k v) I"

text \<open>
  The numbered arguments: the loop of \<^verbatim>\<open>b6b_frame_set_args\<close>.  The number of steps left is
  the length of the list at the start: \<^verbatim>\<open>b6b_dict_set\<close> adds items to the dictionary only, so
  the steps run out before the list does only if that list is the dictionary itself, and then
  the loop of the code has no end.
\<close>

fun set_args_loop :: "addr \<Rightarrow> addr \<Rightarrow> litem option \<Rightarrow> b6b_int \<Rightarrow> nat \<Rightarrow> heap \<Rightarrow> (bool \<times> heap) option" where
  "set_args_loop d l p i 0 h = (if p = None then Some (True, h) else None)"
| "set_args_loop d l p i (Suc n) h =
     (case p of
        None \<Rightarrow> Some (True, h)
      | Some li \<Rightarrow>
          (case b6b_int_new i h of (io, h) \<Rightarrow> do {
             its \<leftarrow> items_of l h;
             a \<leftarrow> map_of its li;
             (ok, h) \<leftarrow> b6b_dict_set d io a h;
             if \<not> ok then do {
               h \<leftarrow> b6b_destroy io h;
               Some (False, h)
             }
             else do {
               h \<leftarrow> b6b_unref io h;
               its \<leftarrow> items_of l h;
               p \<leftarrow> next_in li its;
               i \<leftarrow> add_llong i 1;
               set_args_loop d l p i n h
             }
           }))"

definition b6b_frame_set_args :: "frame \<Rightarrow> addr \<Rightarrow> interp \<Rightarrow> (bool \<times> interp) option" where
  "b6b_frame_set_args f args I = do {
     (ok, I) \<leftarrow> on_heap (b6b_as_list args) I;
     if \<not> ok then Some (False, I)
     else do {
       (ok, I) \<leftarrow> on_heap (b6b_dict_set (locals f) (i_at I) args) I;
       if \<not> ok then Some (False, I)
       else do {
         its \<leftarrow> items_at args I;
         on_heap (set_args_loop (locals f) args (first_in its) 0 (length its)) I
       }
     }
   }"

text \<open>The loop of \<^verbatim>\<open>b6b_get\<close> over the chain.\<close>

fun get_in :: "addr \<Rightarrow> frame list \<Rightarrow> heap \<Rightarrow> (addr option option \<times> heap) option" where
  "get_in k [] h = Some (Some None, h)"
| "get_in k (f # fs) h = do {
     (r, h) \<leftarrow> b6b_dict_get (locals f) k h;
     case r of
       None \<Rightarrow> Some (None, h)
     | Some (Some v) \<Rightarrow> Some (Some (Some v), h)
     | Some None \<Rightarrow> get_in k fs h
   }"

definition b6b_get :: "addr \<Rightarrow> interp \<Rightarrow> (addr option \<times> interp) option" where
  "b6b_get k I = do {
     (ok, I) \<leftarrow> on_heap (b6b_as_str k) I;
     if \<not> ok then Some (None, I)
     else do {
       (r, I) \<leftarrow> on_heap (get_in k (chain I)) I;
       case r of
         None \<Rightarrow> Some (None, I)
       | Some (Some v) \<Rightarrow> Some (Some v, I)
       | Some None \<Rightarrow> do {
           s \<leftarrow> str_at k I;
           (_, I) \<leftarrow> b6b_return_str (''no such obj: '' @ c_str s) I;
           Some (None, I)
         }
     }
   }"

section \<open>Arguments of a procedure\<close>

text \<open>
  The description of the expected arguments, built in \<^verbatim>\<open>buf[16]\<close>: each character takes two
  bytes, the last one's second is the NUL.
\<close>

fun usage_loop :: "string \<Rightarrow> string" where
  "usage_loop [] = []"
| "usage_loop [c] = [c]"
| "usage_loop (c # cs) = c # CHR '' '' # usage_loop cs"

definition usage :: "string \<Rightarrow> string option" where
  "usage fmt =
     (let c = tl fmt in if 2 * length c \<le> 16 then Some (usage_loop c) else None)"

definition QUOTE :: char where "QUOTE = CHR 0x27"

definition b6b_proc_get_args ::
  "addr \<Rightarrow> string \<Rightarrow> bool list \<Rightarrow> interp \<Rightarrow> (nat \<times> parg list \<times> interp) option" where
  "b6b_proc_get_args l fmt wants I = do {
     ((argc, ps), I) \<leftarrow> on_heap (\<lambda>h. map_option (\<lambda>(n, ps, h). ((n, ps), h)) (b6b_list_vparse l fmt wants h)) I;
     if argc \<noteq> 0 then Some (argc, ps, I)
     else do {
       its \<leftarrow> items_at l I;
       (case its of
          [] \<Rightarrow> None
        | (_, a) # _ \<Rightarrow> do {
            (ok, I) \<leftarrow> on_heap (b6b_as_str a) I;
            if \<not> ok then Some (0, ps, I)
            else do {
              (ok, I) \<leftarrow> on_heap (b6b_as_str l) I;
              if \<not> ok then Some (0, ps, I)
              else do {
                buf \<leftarrow> usage fmt;
                ls \<leftarrow> str_at l I;
                s \<leftarrow> str_at a I;
                (_, I) \<leftarrow> b6b_return_str (''bad call: '' @ [QUOTE] @ c_str ls @ [QUOTE] @ '', expect '' @ [QUOTE] @ c_str s @ '' '' @ buf @ [QUOTE]) I;
                Some (0, ps, I)
              }
            }
          })
     }
   }"

end
