(* ===== verification/Procs_List.thy ===== *)
theory Procs_List
  imports Interp
begin

text \<open>
  The procedures of src/b6b_list.c and src/b6b_dict.c: \<^verbatim>\<open>list.*\<close> and \<^verbatim>\<open>dict.*\<close>.  Each takes
  the list of its arguments, the procedure's own name first.
\<close>

section \<open>Lists\<close>

fun list_add_all :: "addr \<Rightarrow> addr list \<Rightarrow> heap \<Rightarrow> heap option" where
  "list_add_all l [] h = Some h"
| "list_add_all l (a # as) h = do {
     h \<leftarrow> b6b_list_add l a h;
     list_add_all l as h
   }"

text \<open>The loop advances before it tests, so it needs a first item.\<close>

definition b6b_list_proc_new :: "addr \<Rightarrow> interp \<Rightarrow> (b6b_res \<times> interp) option" where
  "b6b_list_proc_new args I =
     (case new_heap b6b_list_new I of (l, I) \<Rightarrow> do {
        its \<leftarrow> items_at args I;
        if its = [] then None
        else do {
          I \<leftarrow> upd_heap (list_add_all l (map snd (tl its))) I;
          b6b_return l I
        }
      })"

definition b6b_list_proc_len :: "addr \<Rightarrow> interp \<Rightarrow> (b6b_res \<times> interp) option" where
  "b6b_list_proc_len args I = do {
     (argc, ps, I) \<leftarrow> b6b_proc_get_args args ''ol'' [False, True] I;
     if argc = 0 then Some (B6B_ERR, I)
     else case ps of
       [Arg l] \<Rightarrow> do {
         its \<leftarrow> items_at l I;
         b6b_return_int (of_nat (length its)) I
       }
     | _ \<Rightarrow> None
   }"

definition b6b_list_proc_append :: "addr \<Rightarrow> interp \<Rightarrow> (b6b_res \<times> interp) option" where
  "b6b_list_proc_append args I = do {
     (argc, ps, I) \<leftarrow> b6b_proc_get_args args ''olo'' [False, True, True] I;
     if argc = 0 then Some (B6B_ERR, I)
     else case ps of
       [Arg l, Arg x] \<Rightarrow> do {
         I \<leftarrow> upd_heap (b6b_list_add l x) I;
         return_ref l I
       }
     | _ \<Rightarrow> None
   }"

definition b6b_list_proc_copy :: "addr \<Rightarrow> interp \<Rightarrow> (b6b_res \<times> interp) option" where
  "b6b_list_proc_copy args I = do {
     (argc, ps, I) \<leftarrow> b6b_proc_get_args args ''ol'' [False, True] I;
     if argc = 0 then Some (B6B_ERR, I)
     else case ps of
       [Arg l] \<Rightarrow> do {
         (l2, I) \<leftarrow> on_heap (b6b_list_copy l) I;
         b6b_return l2 I
       }
     | _ \<Rightarrow> None
   }"

definition b6b_list_proc_extend :: "addr \<Rightarrow> interp \<Rightarrow> (b6b_res \<times> interp) option" where
  "b6b_list_proc_extend args I = do {
     (argc, ps, I) \<leftarrow> b6b_proc_get_args args ''oll'' [False, True, True] I;
     if argc = 0 then Some (B6B_ERR, I)
     else case ps of
       [Arg l, Arg l2] \<Rightarrow> do {
         I \<leftarrow> upd_heap (b6b_list_extend l l2) I;
         return_ref l I
       }
     | _ \<Rightarrow> None
   }"

definition b6b_list_proc_index :: "addr \<Rightarrow> interp \<Rightarrow> (b6b_res \<times> interp) option" where
  "b6b_list_proc_index args I = do {
     (argc, ps, I) \<leftarrow> b6b_proc_get_args args ''oli'' [False, True, True] I;
     if argc = 0 then Some (B6B_ERR, I)
     else case ps of
       [Arg l, Arg i] \<Rightarrow> do {
         i \<leftarrow> int_at i I;
         its \<leftarrow> items_at l I;
         if sint i < 0 then Some (B6B_ERR, I)
         else if sint i \<ge> int (length its) then Some (B6B_ERR, I)
         else return_ref (snd (its ! nat (sint i))) I
       }
     | _ \<Rightarrow> None
   }"

text \<open>The result is built item by item; it is destroyed if the list ends too early.\<close>

definition b6b_list_proc_range :: "addr \<Rightarrow> interp \<Rightarrow> (b6b_res \<times> interp) option" where
  "b6b_list_proc_range args I = do {
     (argc, ps, I) \<leftarrow> b6b_proc_get_args args ''olii'' [False, True, True, True] I;
     if argc = 0 then Some (B6B_ERR, I)
     else case ps of
       [Arg l, Arg start, Arg end] \<Rightarrow> do {
         s \<leftarrow> int_at start I;
         e \<leftarrow> int_at end I;
         its \<leftarrow> items_at l I;
         if sint s < 0 \<or> sint e < 0 \<or> sint e = LLONG_MAX \<or> sint s > sint e then Some (B6B_ERR, I)
         else if its = [] \<or> sint s \<ge> int (length its) then Some (B6B_ERR, I)
         else
           (case new_heap b6b_list_new I of (r, I) \<Rightarrow>
              let from = drop (nat (sint s)) (map snd its); n = nat (sint e - sint s + 1) in do {
                I \<leftarrow> upd_heap (list_add_all r (take n from)) I;
                if n \<le> length from then b6b_return r I
                else do {
                  I \<leftarrow> upd_heap (b6b_destroy r) I;
                  Some (B6B_ERR, I)
                }
              })
       }
     | _ \<Rightarrow> None
   }"

text \<open>\<open>None\<close> if a conversion failed, else whether an item is equal.\<close>

fun in_loop :: "addr \<Rightarrow> addr list \<Rightarrow> heap \<Rightarrow> (bool option \<times> heap) option" where
  "in_loop x [] h = Some (Some False, h)"
| "in_loop x (a # as) h = do {
     (ok, h) \<leftarrow> b6b_obj_hash a h;
     if \<not> ok then Some (None, h)
     else do {
       eq \<leftarrow> b6b_obj_eq x a h;
       if eq then Some (Some True, h) else in_loop x as h
     }
   }"

definition b6b_list_proc_in :: "addr \<Rightarrow> interp \<Rightarrow> (b6b_res \<times> interp) option" where
  "b6b_list_proc_in args I = do {
     (argc, ps, I) \<leftarrow> b6b_proc_get_args args ''ool'' [False, True, True] I;
     if argc = 0 then Some (B6B_ERR, I)
     else case ps of
       [Arg x, Arg l] \<Rightarrow> do {
         (ok, I) \<leftarrow> on_heap (b6b_obj_hash x) I;
         if \<not> ok then Some (B6B_ERR, I)
         else do {
           its \<leftarrow> items_at l I;
           (r, I) \<leftarrow> on_heap (in_loop x (map snd its)) I;
           case r of
             None \<Rightarrow> Some (B6B_ERR, I)
           | Some b \<Rightarrow> b6b_return_bool b I
         }
       }
     | _ \<Rightarrow> None
   }"

text \<open>The node is unlinked and its object returned; the list is not flushed.\<close>

definition b6b_list_proc_pop :: "addr \<Rightarrow> interp \<Rightarrow> (b6b_res \<times> interp) option" where
  "b6b_list_proc_pop args I = do {
     (argc, ps, I) \<leftarrow> b6b_proc_get_args args ''oli'' [False, True, True] I;
     if argc = 0 then Some (B6B_ERR, I)
     else case ps of
       [Arg l, Arg i] \<Rightarrow> do {
         i \<leftarrow> int_at i I;
         its \<leftarrow> items_at l I;
         if sint i < 0 then Some (B6B_ERR, I)
         else if its = [] then fail_with ''pop from {}'' I
         else if sint i \<ge> int (length its) then Some (B6B_ERR, I)
         else do {
           (a, I) \<leftarrow> on_heap (list_unlink l (fst (its ! nat (sint i)))) I;
           b6b_return a I
         }
       }
     | _ \<Rightarrow> None
   }"

section \<open>Dictionaries\<close>

definition b6b_dict_proc_get :: "addr \<Rightarrow> interp \<Rightarrow> (b6b_res \<times> interp) option" where
  "b6b_dict_proc_get args I = do {
     (argc, ps, I) \<leftarrow> b6b_proc_get_args args ''olo|o'' [False, True, True, True] I;
     if argc = 0 then Some (B6B_ERR, I)
     else case ps of
       Arg d # Arg k # f \<Rightarrow> do {
         (r, I) \<leftarrow> on_heap (b6b_dict_get d k) I;
         case r of
           None \<Rightarrow> Some (B6B_ERR, I)
         | Some (Some v) \<Rightarrow> return_ref v I
         | Some None \<Rightarrow>
             (case f of
                [Arg f] \<Rightarrow> return_ref f I
              | _ \<Rightarrow> Some (B6B_ERR, I))
       }
     | _ \<Rightarrow> None
   }"

definition b6b_dict_proc_set :: "addr \<Rightarrow> interp \<Rightarrow> (b6b_res \<times> interp) option" where
  "b6b_dict_proc_set args I = do {
     (argc, ps, I) \<leftarrow> b6b_proc_get_args args ''oloo'' [False, True, True, True] I;
     if argc = 0 then Some (B6B_ERR, I)
     else case ps of
       [Arg d, Arg k, Arg v] \<Rightarrow> do {
         (ok, I) \<leftarrow> on_heap (b6b_dict_set d k v) I;
         if ok then return_ref d I else Some (B6B_ERR, I)
       }
     | _ \<Rightarrow> None
   }"

definition b6b_dict_proc_unset :: "addr \<Rightarrow> interp \<Rightarrow> (b6b_res \<times> interp) option" where
  "b6b_dict_proc_unset args I = do {
     (argc, ps, I) \<leftarrow> b6b_proc_get_args args ''olo'' [False, True, True] I;
     if argc = 0 then Some (B6B_ERR, I)
     else case ps of
       [Arg d, Arg k] \<Rightarrow> do {
         (ok, I) \<leftarrow> on_heap (b6b_dict_unset d k) I;
         if ok then return_ref d I else Some (B6B_ERR, I)
       }
     | _ \<Rightarrow> None
   }"

section \<open>Dispatch\<close>

definition list_proc :: "list_fn \<Rightarrow> addr \<Rightarrow> interp \<Rightarrow> (b6b_res \<times> interp) option" where
  "list_proc f = (case f of
     Li_new \<Rightarrow> b6b_list_proc_new | Li_len \<Rightarrow> b6b_list_proc_len | Li_copy \<Rightarrow> b6b_list_proc_copy
   | Li_append \<Rightarrow> b6b_list_proc_append | Li_extend \<Rightarrow> b6b_list_proc_extend
   | Li_index \<Rightarrow> b6b_list_proc_index | Li_range \<Rightarrow> b6b_list_proc_range
   | Li_in \<Rightarrow> b6b_list_proc_in | Li_pop \<Rightarrow> b6b_list_proc_pop)"

definition dict_proc :: "dict_fn \<Rightarrow> addr \<Rightarrow> interp \<Rightarrow> (b6b_res \<times> interp) option" where
  "dict_proc f = (case f of
     D_get \<Rightarrow> b6b_dict_proc_get | D_set \<Rightarrow> b6b_dict_proc_set | D_unset \<Rightarrow> b6b_dict_proc_unset)"

end
