(* ===== verification/Procs_Str.thy ===== *)
theory Procs_Str
  imports Procs_List
begin

text \<open>
  The string procedures: \<^verbatim>\<open>str.*\<close> of src/b6b_str.c, and \<^verbatim>\<open>b6b_obj_proc\<close> of
  src/b6b_obj.c with \<^verbatim>\<open>b6b_str_decode\<close>.  A loop over the bytes of a string is a function of the
  bytes that are left; a read behind the terminating NUL has no defined result.
\<close>

section \<open>Decoding\<close>

text \<open>A new string object that only the list refers to.\<close>

definition list_add_str :: "addr \<Rightarrow> string \<Rightarrow> heap \<Rightarrow> heap option" where
  "list_add_str l s h =
     (case b6b_str_copy s h of (c, h) \<Rightarrow> do {
        h \<leftarrow> b6b_list_add l c h;
        b6b_unref c h
      })"

function decode_loop :: "(string \<Rightarrow> nat option) \<Rightarrow> addr \<Rightarrow> string \<Rightarrow> heap \<Rightarrow> (addr option \<times> heap) option" where
  "decode_loop mbr l s h =
     (if s = [] then Some (Some l, h)
      else case mbr s of
        None \<Rightarrow> map_option (Pair None) (b6b_destroy l h)
      | Some n \<Rightarrow>
          if n = 0 \<or> n > length s then None
          else do {
            h \<leftarrow> list_add_str l (take n s) h;
            decode_loop mbr l (drop n s) h
          })"
  by pat_completeness auto
termination
  by (relation "measure (\<lambda>(mbr, l, s, h). length s)") auto

declare decode_loop.simps [simp del]

definition b6b_str_decode :: "env \<Rightarrow> string \<Rightarrow> heap \<Rightarrow> (addr option \<times> heap) option" where
  "b6b_str_decode E s h = (case b6b_list_new h of (l, h) \<Rightarrow> decode_loop (e_mbr E) l s h)"

definition b6b_obj_proc :: "env \<Rightarrow> addr \<Rightarrow> interp \<Rightarrow> (b6b_res \<times> interp) option" where
  "b6b_obj_proc E args I = do {
     (argc, ps, I) \<leftarrow> b6b_proc_get_args args ''ss'' [True, True] I;
     if argc = 0 then Some (B6B_ERR, I)
     else case ps of
       [Arg s, Arg opn] \<Rightarrow> do {
         os \<leftarrow> str_at opn I;
         if \<not> c_strcmp_eq os ''decode'' then Some (B6B_ERR, I)
         else do {
           ss \<leftarrow> str_at s I;
           (r, I) \<leftarrow> on_heap (b6b_str_decode E ss) I;
           case r of
             None \<Rightarrow> Some (B6B_ERR, I)
           | Some l \<Rightarrow> b6b_return l I
         }
       }
     | _ \<Rightarrow> None
   }"

section \<open>Length, characters, ranges\<close>

definition b6b_str_proc_len :: "addr \<Rightarrow> interp \<Rightarrow> (b6b_res \<times> interp) option" where
  "b6b_str_proc_len args I = do {
     (argc, ps, I) \<leftarrow> b6b_proc_get_args args ''os'' [False, True] I;
     if argc = 0 then Some (B6B_ERR, I)
     else case ps of
       [Arg s] \<Rightarrow> do {
         s \<leftarrow> str_at s I;
         b6b_return_int (of_nat (length s)) I
       }
     | _ \<Rightarrow> None
   }"

definition b6b_str_proc_index :: "addr \<Rightarrow> interp \<Rightarrow> (b6b_res \<times> interp) option" where
  "b6b_str_proc_index args I = do {
     (argc, ps, I) \<leftarrow> b6b_proc_get_args args ''osi'' [False, True, True] I;
     if argc = 0 then Some (B6B_ERR, I)
     else case ps of
       [Arg s, Arg i] \<Rightarrow> do {
         s \<leftarrow> str_at s I;
         i \<leftarrow> int_at i I;
         if sint i < 0 \<or> sint i \<ge> int (length s) then Some (B6B_ERR, I)
         else b6b_return_str [s ! nat (sint i)] I
       }
     | _ \<Rightarrow> None
   }"

definition b6b_str_proc_range :: "addr \<Rightarrow> interp \<Rightarrow> (b6b_res \<times> interp) option" where
  "b6b_str_proc_range args I = do {
     (argc, ps, I) \<leftarrow> b6b_proc_get_args args ''osii'' [False, True, True, True] I;
     if argc = 0 then Some (B6B_ERR, I)
     else case ps of
       [Arg s, Arg start, Arg end] \<Rightarrow> do {
         s \<leftarrow> str_at s I;
         i \<leftarrow> int_at start I;
         j \<leftarrow> int_at end I;
         if sint i < 0 \<or> sint i \<ge> int (length s) \<or> sint j < 0 \<or> sint j \<ge> int (length s)
           \<or> sint i > sint j
         then Some (B6B_ERR, I)
         else b6b_return_str (take (nat (sint j - sint i) + 1) (drop (nat (sint i)) s)) I
       }
     | _ \<Rightarrow> None
   }"

definition b6b_str_proc_ord :: "addr \<Rightarrow> interp \<Rightarrow> (b6b_res \<times> interp) option" where
  "b6b_str_proc_ord args I = do {
     (argc, ps, I) \<leftarrow> b6b_proc_get_args args ''os'' [False, True] I;
     if argc = 0 then Some (B6B_ERR, I)
     else case ps of
       [Arg s] \<Rightarrow> do {
         s \<leftarrow> str_at s I;
         case s of
           [c] \<Rightarrow> b6b_return_int (of_nat (of_char c)) I
         | _ \<Rightarrow> Some (B6B_ERR, I)
       }
     | _ \<Rightarrow> None
   }"

definition b6b_str_proc_chr :: "addr \<Rightarrow> interp \<Rightarrow> (b6b_res \<times> interp) option" where
  "b6b_str_proc_chr args I = do {
     (argc, ps, I) \<leftarrow> b6b_proc_get_args args ''oi'' [False, True] I;
     if argc = 0 then Some (B6B_ERR, I)
     else case ps of
       [Arg n] \<Rightarrow> do {
         n \<leftarrow> int_at n I;
         if sint n < 0 \<or> sint n > 255 then Some (B6B_ERR, I)
         else (case new_heap (b6b_str_new [char_of (nat (sint n))]) I of (s, I) \<Rightarrow> b6b_return s I)
       }
     | _ \<Rightarrow> None
   }"

section \<open>Joining and splitting\<close>

text \<open>\<open>None\<close> in the result: an item has no text.\<close>

fun join_loop :: "string \<Rightarrow> addr list \<Rightarrow> string \<Rightarrow> heap \<Rightarrow> (string option \<times> heap) option" where
  "join_loop d [] acc h = Some (Some acc, h)"
| "join_loop d (a # as) acc h = do {
     (ok, h) \<leftarrow> b6b_as_str a h;
     if \<not> ok then Some (None, h)
     else do {
       ob \<leftarrow> hget a h;
       s \<leftarrow> ob_s ob;
       join_loop d as (acc @ d @ s) h
     }
   }"

definition b6b_str_proc_join :: "addr \<Rightarrow> interp \<Rightarrow> (b6b_res \<times> interp) option" where
  "b6b_str_proc_join args I = do {
     (argc, ps, I) \<leftarrow> b6b_proc_get_args args ''osl'' [False, True, True] I;
     if argc = 0 then Some (B6B_ERR, I)
     else case ps of
       [Arg d, Arg l] \<Rightarrow> do {
         ds \<leftarrow> str_at d I;
         its \<leftarrow> items_at l I;
         case its of
           [] \<Rightarrow> b6b_return_str [] I
         | (_, a) # its \<Rightarrow> do {
             (ok, I) \<leftarrow> on_heap (b6b_as_str a) I;
             if \<not> ok then Some (B6B_ERR, I)
             else do {
               s \<leftarrow> str_at a I;
               (r, I) \<leftarrow> on_heap (join_loop ds (map snd its) s) I;
               case r of
                 None \<Rightarrow> Some (B6B_ERR, I)
               | Some t \<Rightarrow> (case new_heap (b6b_str_new t) I of (x, I) \<Rightarrow> b6b_return x I)
             }
           }
       }
     | _ \<Rightarrow> None
   }"

text \<open>
  The pieces: \<open>tok\<close> is the text from \<^verbatim>\<open>prev\<close> to \<^verbatim>\<open>p\<close>, \<open>r\<close> the text from \<^verbatim>\<open>p\<close> on.
  \<^verbatim>\<open>memcmp\<close> reads as many bytes as the delimiter has, of which at most one may lie behind the
  text: the terminating NUL.  A match that includes it carries \<^verbatim>\<open>p\<close> past the end.
\<close>

function split_from :: "string \<Rightarrow> string \<Rightarrow> string \<Rightarrow> string list option" where
  "split_from d tok r =
     (if r = [] then Some (if d \<noteq> [] then [tok] else [])
      else if d = [] then map_option ((#) [hd r]) (split_from d [] (tl r))
      else if length d > length r + 1 then None
      else if take (length d) (r @ [NUL]) \<noteq> d then split_from d (tok @ [hd r]) (tl r)
      else if length d > length r then None
      else map_option ((#) tok) (split_from d [] (drop (length d) r)))"
  by pat_completeness auto
termination
  by (relation "measure (\<lambda>(d, tok, r). length r)") auto

declare split_from.simps [simp del]

definition str_split :: "string \<Rightarrow> string \<Rightarrow> string list option" where
  "str_split s d = split_from d [] s"

fun list_add_strs :: "addr \<Rightarrow> string list \<Rightarrow> heap \<Rightarrow> heap option" where
  "list_add_strs l [] h = Some h"
| "list_add_strs l (s # ss) h = do {
     h \<leftarrow> list_add_str l s h;
     list_add_strs l ss h
   }"

definition b6b_str_proc_split :: "addr \<Rightarrow> interp \<Rightarrow> (b6b_res \<times> interp) option" where
  "b6b_str_proc_split args I = do {
     (argc, ps, I) \<leftarrow> b6b_proc_get_args args ''oss'' [False, True, True] I;
     if argc = 0 then Some (B6B_ERR, I)
     else case ps of
       [Arg s, Arg d] \<Rightarrow>
         (case new_heap b6b_list_new I of (l, I) \<Rightarrow> do {
            ss \<leftarrow> str_at s I;
            ds \<leftarrow> str_at d I;
            pieces \<leftarrow> str_split ss ds;
            I \<leftarrow> upd_heap (list_add_strs l pieces) I;
            b6b_return l I
          })
     | _ \<Rightarrow> None
   }"

section \<open>Escapes\<close>

text \<open>The two digits after \<open>x\<close>, \<open>None\<close> if one of them is none.\<close>

definition hex_char :: "char \<Rightarrow> char \<Rightarrow> char option" where
  "hex_char a b = do {
     x \<leftarrow> xdigit a;
     y \<leftarrow> xdigit b;
     Some (char_of (nat (16 * x + y)))
   }"

definition escape_char :: "char \<Rightarrow> char option" where
  "escape_char c =
     (if c = CHR ''0'' then Some NUL
      else if c = CHR 0x5C then Some (CHR 0x5C)
      else if c = CHR ''n'' then Some (CHR 0x0A)
      else if c = CHR ''t'' then Some (CHR 0x09)
      else if c = CHR ''r'' then Some (CHR 0x0D)
      else None)"

text \<open>
  \<open>i\<close> and \<open>j\<close> are the positions in the input and in the output, \<open>lst\<close> the last position of
  the input; the last argument is the input from \<open>i\<close> on.  The result is an error message or
  the text.
\<close>

function expand_from :: "nat \<Rightarrow> nat \<Rightarrow> nat \<Rightarrow> string \<Rightarrow> string + string" where
  "expand_from lst i j r =
     (case r of
        [] \<Rightarrow> Inr []
      | c # r' \<Rightarrow>
          if c \<noteq> CHR 0x5C then map_sum id ((#) c) (expand_from lst (i + 1) (j + 1) r')
          else if j = lst then Inl ''bad escape''
          else
            (case r' of
               [] \<Rightarrow> Inl ''bad escape''
             | e # r'' \<Rightarrow>
                 if e = CHR ''x'' then
                   if i + 3 > lst then Inl ''bad hex escape''
                   else (case hex_char (r'' ! 0) (r'' ! 1) of
                       None \<Rightarrow> Inl ''bad hex digit''
                     | Some b \<Rightarrow> map_sum id ((#) b) (expand_from lst (i + 4) (j + 1) (drop 2 r'')))
                 else (case escape_char e of
                     None \<Rightarrow> Inl ''bad escape''
                   | Some b \<Rightarrow> map_sum id ((#) b) (expand_from lst (i + 2) (j + 1) r''))))"
  by pat_completeness auto
termination
  by (relation "measure (\<lambda>(lst, i, j, r). length r)") auto

declare expand_from.simps [simp del]

definition str_expand :: "string \<Rightarrow> string + string" where
  "str_expand s = expand_from (length s - 1) 0 0 s"

definition b6b_str_proc_expand :: "addr \<Rightarrow> interp \<Rightarrow> (b6b_res \<times> interp) option" where
  "b6b_str_proc_expand args I = do {
     (argc, ps, I) \<leftarrow> b6b_proc_get_args args ''os'' [False, True] I;
     if argc = 0 then Some (B6B_ERR, I)
     else case ps of
       [Arg s] \<Rightarrow> do {
         s \<leftarrow> str_at s I;
         case str_expand s of
           Inl msg \<Rightarrow> fail_with msg I
         | Inr t \<Rightarrow> (case new_heap (b6b_str_new t) I of (x, I) \<Rightarrow> b6b_return x I)
       }
     | _ \<Rightarrow> None
   }"

section \<open>Searching and trimming\<close>

fun occurs :: "string \<Rightarrow> string \<Rightarrow> bool" where
  "occurs sub [] \<longleftrightarrow> sub = []"
| "occurs sub (c # s) \<longleftrightarrow> take (length sub) (c # s) = sub \<or> occurs sub s"

definition b6b_str_proc_in :: "addr \<Rightarrow> interp \<Rightarrow> (b6b_res \<times> interp) option" where
  "b6b_str_proc_in args I = do {
     (argc, ps, I) \<leftarrow> b6b_proc_get_args args ''oss'' [False, True, True] I;
     if argc = 0 then Some (B6B_ERR, I)
     else case ps of
       [Arg sub, Arg s] \<Rightarrow> do {
         sb \<leftarrow> str_at sub I;
         ss \<leftarrow> str_at s I;
         if sb = [] then Some (B6B_ERR, I)
         else if length ss > length sb then b6b_return_bool (occurs sb ss) I
         else if length ss = length sb then do {
           (ok, I) \<leftarrow> on_heap (b6b_obj_hash s) I;
           if \<not> ok then Some (B6B_ERR, I)
           else do {
             (ok, I) \<leftarrow> on_heap (b6b_obj_hash sub) I;
             if \<not> ok then Some (B6B_ERR, I)
             else do {
               eq \<leftarrow> b6b_obj_eq sub s (hp I);
               b6b_return_bool eq I
             }
           }
         }
         else b6b_return_bool False I
       }
     | _ \<Rightarrow> None
   }"

text \<open>The loop runs down to the position before the string if it meets nothing but spaces.\<close>

definition str_rtrim :: "string \<Rightarrow> string option" where
  "str_rtrim s =
     (if s = [] then Some []
      else case dropWhile b6b_isspace (rev s) of
        [] \<Rightarrow> None
      | r \<Rightarrow> Some (rev r))"

definition b6b_str_proc_rtrim :: "addr \<Rightarrow> interp \<Rightarrow> (b6b_res \<times> interp) option" where
  "b6b_str_proc_rtrim args I = do {
     (argc, ps, I) \<leftarrow> b6b_proc_get_args args ''os'' [False, True] I;
     if argc = 0 then Some (B6B_ERR, I)
     else case ps of
       [Arg s] \<Rightarrow> do {
         s \<leftarrow> str_at s I;
         t \<leftarrow> str_rtrim s;
         b6b_return_str t I
       }
     | _ \<Rightarrow> None
   }"

definition b6b_str_proc_ltrim :: "addr \<Rightarrow> interp \<Rightarrow> (b6b_res \<times> interp) option" where
  "b6b_str_proc_ltrim args I = do {
     (argc, ps, I) \<leftarrow> b6b_proc_get_args args ''os'' [False, True] I;
     if argc = 0 then Some (B6B_ERR, I)
     else case ps of
       [Arg s] \<Rightarrow> do {
         s \<leftarrow> str_at s I;
         b6b_return_str (dropWhile b6b_isspace s) I
       }
     | _ \<Rightarrow> None
   }"

definition str_proc :: "str_fn \<Rightarrow> addr \<Rightarrow> interp \<Rightarrow> (b6b_res \<times> interp) option" where
  "str_proc f = (case f of
     S_len \<Rightarrow> b6b_str_proc_len | S_index \<Rightarrow> b6b_str_proc_index | S_range \<Rightarrow> b6b_str_proc_range
   | S_join \<Rightarrow> b6b_str_proc_join | S_split \<Rightarrow> b6b_str_proc_split | S_ord \<Rightarrow> b6b_str_proc_ord
   | S_chr \<Rightarrow> b6b_str_proc_chr | S_expand \<Rightarrow> b6b_str_proc_expand | S_in \<Rightarrow> b6b_str_proc_in
   | S_rtrim \<Rightarrow> b6b_str_proc_rtrim | S_ltrim \<Rightarrow> b6b_str_proc_ltrim)"

end
