(* ===== verification/Procs_Math.thy ===== *)
theory Procs_Math
  imports Interp
begin

text \<open>
  Arithmetic and comparison (src/b6b_math.c, with B6B_HAVE_FENV), random numbers
  (src/b6b_rand.c), ranges of integers (\<^verbatim>\<open>range\<close> of src/b6b_loop.c) and the logical
  procedures of src/b6b_logic.c that call no code.
\<close>

section \<open>Arithmetic\<close>

text \<open>The two operands as floats, and what is done with them.\<close>

definition float_args ::
  "(dbl \<Rightarrow> dbl \<Rightarrow> interp \<Rightarrow> (b6b_res \<times> interp) option) \<Rightarrow> addr \<Rightarrow> interp \<Rightarrow> (b6b_res \<times> interp) option" where
  "float_args body args I = do {
     (argc, ps, I) \<leftarrow> b6b_proc_get_args args ''off'' [False, True, True] I;
     if argc = 0 then Some (B6B_ERR, I)
     else case ps of
       [Arg m, Arg n] \<Rightarrow> do {
         mf \<leftarrow> float_at m I;
         nf \<leftarrow> float_at n I;
         body mf nf I
       }
     | _ \<Rightarrow> None
   }"

definition int_args ::
  "(b6b_int \<Rightarrow> b6b_int \<Rightarrow> interp \<Rightarrow> (b6b_res \<times> interp) option) \<Rightarrow> addr \<Rightarrow> interp \<Rightarrow> (b6b_res \<times> interp) option" where
  "int_args body args I = do {
     (argc, ps, I) \<leftarrow> b6b_proc_get_args args ''oii'' [False, True, True] I;
     if argc = 0 then Some (B6B_ERR, I)
     else case ps of
       [Arg m, Arg n] \<Rightarrow> do {
         mi \<leftarrow> int_at m I;
         ni \<leftarrow> int_at n I;
         body mi ni I
       }
     | _ \<Rightarrow> None
   }"

definition b6b_math_proc_add :: "addr \<Rightarrow> interp \<Rightarrow> (b6b_res \<times> interp) option" where
  "b6b_math_proc_add = float_args (\<lambda>m n. b6b_return_float (dadd m n))"

definition b6b_math_proc_sub :: "addr \<Rightarrow> interp \<Rightarrow> (b6b_res \<times> interp) option" where
  "b6b_math_proc_sub = float_args (\<lambda>m n. b6b_return_float (dsub m n))"

definition b6b_math_proc_mul :: "addr \<Rightarrow> interp \<Rightarrow> (b6b_res \<times> interp) option" where
  "b6b_math_proc_mul = float_args (\<lambda>m n. b6b_return_float (dmul m n))"

definition b6b_math_proc_div :: "addr \<Rightarrow> interp \<Rightarrow> (b6b_res \<times> interp) option" where
  "b6b_math_proc_div = float_args (\<lambda>m n.
     if deq n dzero then fail_with ''/ by 0'' else b6b_return_float (ddiv m n))"

text \<open>The value \<^verbatim>\<open>%\<close> returns for a divisor other than zero; \<open>None\<close> is an error.\<close>

definition b6b_mod :: "dbl \<Rightarrow> dbl \<Rightarrow> dbl option" where
  "b6b_mod m n = do {
     p \<leftarrow> dremainder m n;
     Some (if dlt p dzero \<and> dlt dzero n then dadd p n else p)
   }"

definition b6b_math_proc_mod :: "addr \<Rightarrow> interp \<Rightarrow> (b6b_res \<times> interp) option" where
  "b6b_math_proc_mod = float_args (\<lambda>m n.
     if deq n dzero then fail_with ''% by 0''
     else case b6b_mod m n of
       None \<Rightarrow> (\<lambda>I. Some (B6B_ERR, I))
     | Some p \<Rightarrow> b6b_return_float p)"

definition b6b_math_proc_and :: "addr \<Rightarrow> interp \<Rightarrow> (b6b_res \<times> interp) option" where
  "b6b_math_proc_and = int_args (\<lambda>m n. b6b_return_int (m AND n))"

definition b6b_math_proc_or :: "addr \<Rightarrow> interp \<Rightarrow> (b6b_res \<times> interp) option" where
  "b6b_math_proc_or = int_args (\<lambda>m n. b6b_return_int (m OR n))"

definition b6b_math_proc_xor :: "addr \<Rightarrow> interp \<Rightarrow> (b6b_res \<times> interp) option" where
  "b6b_math_proc_xor = int_args (\<lambda>m n. b6b_return_int (m XOR n))"

definition b6b_math_proc_lt :: "addr \<Rightarrow> interp \<Rightarrow> (b6b_res \<times> interp) option" where
  "b6b_math_proc_lt = float_args (\<lambda>m n. b6b_return_bool (dlt m n))"

definition b6b_math_proc_le :: "addr \<Rightarrow> interp \<Rightarrow> (b6b_res \<times> interp) option" where
  "b6b_math_proc_le = float_args (\<lambda>m n. b6b_return_bool (dle m n))"

definition b6b_math_proc_gt :: "addr \<Rightarrow> interp \<Rightarrow> (b6b_res \<times> interp) option" where
  "b6b_math_proc_gt = float_args (\<lambda>m n. b6b_return_bool (dlt n m))"

definition b6b_math_proc_ge :: "addr \<Rightarrow> interp \<Rightarrow> (b6b_res \<times> interp) option" where
  "b6b_math_proc_ge = float_args (\<lambda>m n. b6b_return_bool (dle n m))"

definition math_proc :: "math_fn \<Rightarrow> addr \<Rightarrow> interp \<Rightarrow> (b6b_res \<times> interp) option" where
  "math_proc f = (case f of
     M_add \<Rightarrow> b6b_math_proc_add | M_sub \<Rightarrow> b6b_math_proc_sub | M_mul \<Rightarrow> b6b_math_proc_mul
   | M_div \<Rightarrow> b6b_math_proc_div | M_mod \<Rightarrow> b6b_math_proc_mod | M_and \<Rightarrow> b6b_math_proc_and
   | M_or \<Rightarrow> b6b_math_proc_or | M_xor \<Rightarrow> b6b_math_proc_xor | M_lt \<Rightarrow> b6b_math_proc_lt
   | M_le \<Rightarrow> b6b_math_proc_le | M_gt \<Rightarrow> b6b_math_proc_gt | M_ge \<Rightarrow> b6b_math_proc_ge)"

section \<open>Random numbers\<close>

text \<open>
  The loop of \<^verbatim>\<open>choice\<close>: the random number \<open>c\<close>, the counter \<open>i\<close>, the items from \<^verbatim>\<open>li\<close> on,
  and all items.
\<close>

fun choice_from :: "nat \<Rightarrow> nat \<Rightarrow> addr list \<Rightarrow> addr list \<Rightarrow> addr option" where
  "choice_from c i [] all = None"
| "choice_from c i (a # rest) all =
     (if i < c then
        (case rest of
           [] \<Rightarrow> (if c mod i < length all then Some (all ! (c mod i)) else None)
         | _ \<Rightarrow> choice_from c (Suc i) rest all)
      else Some a)"

definition b6b_rand_proc_choice :: "env \<Rightarrow> addr \<Rightarrow> interp \<Rightarrow> (b6b_res \<times> interp) option" where
  "b6b_rand_proc_choice E args I = do {
     (argc, ps, I) \<leftarrow> b6b_proc_get_args args ''ol'' [False, True] I;
     if argc = 0 then Some (B6B_ERR, I)
     else case ps of
       [Arg l] \<Rightarrow> do {
         its \<leftarrow> items_at l I;
         if its = [] then Some (B6B_ERR, I)
         else
           (case e_rand E (seed I) of (c, sd) \<Rightarrow> do {
              a \<leftarrow> choice_from (unat c) 1 (map snd its) (map snd its);
              return_ref a (I\<lparr>seed := sd\<rparr>)
            })
       }
     | _ \<Rightarrow> None
   }"

text \<open>The number between \<open>s\<close> and \<open>e\<close> that the random number \<open>r\<close> selects.\<close>

definition randint_of :: "b6b_int \<Rightarrow> b6b_int \<Rightarrow> u32 \<Rightarrow> b6b_int option" where
  "randint_of s e r =
     (if sint s < INT_MIN \<or> sint s \<ge> INT_MAX \<or> sint e \<le> sint s \<or> sint e > INT_MAX then None
      else let delta = (word_of_int (sint e - sint s) :: u32) in
        if delta = -1 then None
        else Some (word_of_int (sint s + uint (r mod (delta + 1)))))"

definition b6b_rand_proc_randint :: "env \<Rightarrow> addr \<Rightarrow> interp \<Rightarrow> (b6b_res \<times> interp) option" where
  "b6b_rand_proc_randint E args I = do {
     (argc, ps, I) \<leftarrow> b6b_proc_get_args args ''oii'' [False, True, True] I;
     if argc = 0 then Some (B6B_ERR, I)
     else case ps of
       [Arg start, Arg end] \<Rightarrow> do {
         s \<leftarrow> int_at start I;
         e \<leftarrow> int_at end I;
         case e_rand E (seed I) of (r, sd) \<Rightarrow>
           (case randint_of s e r of
              None \<Rightarrow> Some (B6B_ERR, I)
            | Some i \<Rightarrow> b6b_return_int i (I\<lparr>seed := sd\<rparr>))
       }
     | _ \<Rightarrow> None
   }"

definition rand_proc :: "env \<Rightarrow> rand_fn \<Rightarrow> addr \<Rightarrow> interp \<Rightarrow> (b6b_res \<times> interp) option" where
  "rand_proc E f = (case f of R_choice \<Rightarrow> b6b_rand_proc_choice E | R_randint \<Rightarrow> b6b_rand_proc_randint E)"

section \<open>Ranges\<close>

text \<open>
  The loop from \<open>i\<close> up to \<open>e\<close>.  The step is positive here; the addition that overflows has no
  defined result, even where the loop would end after it.
\<close>

function range_loop :: "addr \<Rightarrow> int \<Rightarrow> int \<Rightarrow> int \<Rightarrow> heap \<Rightarrow> heap option" where
  "range_loop l i e step h =
     (if i > e then Some h
      else if step \<le> 0 then None
      else (case b6b_int_new (word_of_int i) h of (io, h) \<Rightarrow> do {
          h \<leftarrow> b6b_list_add l io h;
          h \<leftarrow> b6b_unref io h;
          if is_llong (i + step) then range_loop l (i + step) e step h else None
        }))"
  by pat_completeness auto
termination
  by (relation "measure (\<lambda>(l, i, e, step, h). nat (e - i + 1))") auto

declare range_loop.simps [simp del]

definition b6b_loop_proc_range :: "addr \<Rightarrow> interp \<Rightarrow> (b6b_res \<times> interp) option" where
  "b6b_loop_proc_range args I = do {
     (argc, ps, I) \<leftarrow> b6b_proc_get_args args ''oii|i'' [False, True, True, True] I;
     if argc = 0 then Some (B6B_ERR, I)
     else case ps of
       Arg start # Arg end # stepo \<Rightarrow> do {
         s \<leftarrow> int_at start I;
         e \<leftarrow> int_at end I;
         step \<leftarrow> (case stepo of [Arg x] \<Rightarrow> map_option sint (int_at x I) | _ \<Rightarrow> Some 1);
         if step \<le> 0 \<or> sint s > sint e then Some (B6B_ERR, I)
         else
           (case new_heap b6b_list_new I of (l, I) \<Rightarrow> do {
              I \<leftarrow> upd_heap (range_loop l (sint s) (sint e) step) I;
              b6b_return l I
            })
       }
     | _ \<Rightarrow> None
   }"

section \<open>Logic\<close>

definition b6b_logic_proc_not :: "addr \<Rightarrow> interp \<Rightarrow> (b6b_res \<times> interp) option" where
  "b6b_logic_proc_not args I = do {
     (argc, ps, I) \<leftarrow> b6b_proc_get_args args ''oo'' [False, True] I;
     if argc = 0 then Some (B6B_ERR, I)
     else case ps of
       [Arg x] \<Rightarrow> do {
         b \<leftarrow> b6b_obj_istrue x (hp I);
         b6b_return_bool (\<not> b) I
       }
     | _ \<Rightarrow> None
   }"

text \<open>\<^verbatim>\<open>eq\<close> (\<open>same\<close>) and \<^verbatim>\<open>ne\<close>.\<close>

definition eq_args :: "bool \<Rightarrow> addr \<Rightarrow> interp \<Rightarrow> (b6b_res \<times> interp) option" where
  "eq_args same args I = do {
     (argc, ps, I) \<leftarrow> b6b_proc_get_args args ''ooo'' [False, True, True] I;
     if argc = 0 then Some (B6B_ERR, I)
     else case ps of
       [Arg a, Arg b] \<Rightarrow> do {
         (ok, I) \<leftarrow> on_heap (b6b_obj_hash a) I;
         if \<not> ok then Some (B6B_ERR, I)
         else do {
           (ok, I) \<leftarrow> on_heap (b6b_obj_hash b) I;
           if \<not> ok then Some (B6B_ERR, I)
           else do {
             eq \<leftarrow> b6b_obj_eq a b (hp I);
             b6b_return_bool (eq = same) I
           }
         }
       }
     | _ \<Rightarrow> None
   }"

definition b6b_logic_proc_eq :: "addr \<Rightarrow> interp \<Rightarrow> (b6b_res \<times> interp) option" where
  "b6b_logic_proc_eq = eq_args True"

definition b6b_logic_proc_ne :: "addr \<Rightarrow> interp \<Rightarrow> (b6b_res \<times> interp) option" where
  "b6b_logic_proc_ne = eq_args False"

text \<open>The second operand is read when the first does not decide.\<close>

definition truth_args ::
  "(bool \<Rightarrow> bool) \<Rightarrow> (bool \<Rightarrow> bool \<Rightarrow> bool) \<Rightarrow> addr \<Rightarrow> interp \<Rightarrow> (b6b_res \<times> interp) option" where
  "truth_args decides f args I = do {
     (argc, ps, I) \<leftarrow> b6b_proc_get_args args ''ooo'' [False, True, True] I;
     if argc = 0 then Some (B6B_ERR, I)
     else case ps of
       [Arg a, Arg b] \<Rightarrow> do {
         x \<leftarrow> b6b_obj_istrue a (hp I);
         if decides x then b6b_return_bool x I
         else do {
           y \<leftarrow> b6b_obj_istrue b (hp I);
           b6b_return_bool (f x y) I
         }
       }
     | _ \<Rightarrow> None
   }"

definition b6b_logic_proc_and :: "addr \<Rightarrow> interp \<Rightarrow> (b6b_res \<times> interp) option" where
  "b6b_logic_proc_and = truth_args Not (\<and>)"

definition b6b_logic_proc_or :: "addr \<Rightarrow> interp \<Rightarrow> (b6b_res \<times> interp) option" where
  "b6b_logic_proc_or = truth_args (\<lambda>x. x) (\<or>)"

definition b6b_logic_proc_xor :: "addr \<Rightarrow> interp \<Rightarrow> (b6b_res \<times> interp) option" where
  "b6b_logic_proc_xor = truth_args (\<lambda>_. False) (\<noteq>)"

end
