(* ===== verification/Procs_Core.thy ===== *)
theory Procs_Core
  imports Procs_Str Procs_Math
begin

text \<open>
  The procedures of src/b6b_core.c and src/b6b_proc.c that run no code: status codes, variables
  of other frames, \<^verbatim>\<open>repr\<close>, \<^verbatim>\<open>spawn\<close> with \<^verbatim>\<open>b6b_start\<close>, and \<^verbatim>\<open>proc\<close>.
\<close>

section \<open>Status codes\<close>

definition b6b_core_proc_echo :: "addr \<Rightarrow> interp \<Rightarrow> (b6b_res \<times> interp) option" where
  "b6b_core_proc_echo args I = do {
     (argc, ps, I) \<leftarrow> b6b_proc_get_args args ''oo'' [False, True] I;
     if argc = 0 then Some (B6B_ERR, I)
     else case ps of [Arg x] \<Rightarrow> return_ref x I | _ \<Rightarrow> None
   }"

text \<open>
  \<^verbatim>\<open>return\<close>, \<^verbatim>\<open>throw\<close> and \<^verbatim>\<open>exit\<close>: an optional value, then the status; \<open>bad\<close> is the status
  when there are too many arguments.
\<close>

definition value_and_status :: "b6b_res \<Rightarrow> addr \<Rightarrow> interp \<Rightarrow> (b6b_res \<times> interp) option" where
  "value_and_status res args I = do {
     (argc, ps, I) \<leftarrow> b6b_proc_get_args args ''o|o'' [False, True] I;
     if argc = 0 then Some (B6B_ERR, I)
     else case ps of
       [Arg x] \<Rightarrow> do {
         (_, I) \<leftarrow> return_ref x I;
         Some (res, I)
       }
     | _ \<Rightarrow> Some (res, I)
   }"

definition b6b_core_proc_return :: "addr \<Rightarrow> interp \<Rightarrow> (b6b_res \<times> interp) option" where
  "b6b_core_proc_return = value_and_status B6B_RET"

text \<open>\<^verbatim>\<open>throw\<close> gives up the old value before it takes the reference to the new one.\<close>

definition b6b_core_proc_throw :: "addr \<Rightarrow> interp \<Rightarrow> (b6b_res \<times> interp) option" where
  "b6b_core_proc_throw args I = do {
     (argc, ps, I) \<leftarrow> b6b_proc_get_args args ''o|o'' [False, True] I;
     if argc = 0 then Some (B6B_ERR, I)
     else case ps of
       [Arg x] \<Rightarrow> do {
         I \<leftarrow> upd_heap (b6b_unref (t_ret (fg I))) I;
         I \<leftarrow> upd_heap (b6b_ref x) I;
         Some (B6B_ERR, set_ret x I)
       }
     | _ \<Rightarrow> Some (B6B_ERR, I)
   }"

definition b6b_core_proc_exit :: "addr \<Rightarrow> interp \<Rightarrow> (b6b_res \<times> interp) option" where
  "b6b_core_proc_exit = value_and_status B6B_EXIT"

section \<open>Variables\<close>

definition b6b_core_proc_local :: "addr \<Rightarrow> interp \<Rightarrow> (b6b_res \<times> interp) option" where
  "b6b_core_proc_local args I = do {
     (argc, ps, I) \<leftarrow> b6b_proc_get_args args ''ooo'' [False, True, True] I;
     if argc = 0 then Some (B6B_ERR, I)
     else case ps of
       [Arg k, Arg v] \<Rightarrow> do {
         let f = (case chain I of _ # prev # _ \<Rightarrow> prev | _ \<Rightarrow> curr I);
         (ok, I) \<leftarrow> on_heap (b6b_dict_set (locals f) k v) I;
         if ok then return_ref v I else Some (B6B_ERR, I)
       }
     | _ \<Rightarrow> None
   }"

definition b6b_core_proc_global :: "addr \<Rightarrow> interp \<Rightarrow> (b6b_res \<times> interp) option" where
  "b6b_core_proc_global args I = do {
     (argc, ps, I) \<leftarrow> b6b_proc_get_args args ''ooo'' [False, True, True] I;
     if argc = 0 then Some (B6B_ERR, I)
     else case ps of
       [Arg k, Arg v] \<Rightarrow> do {
         (ok, I) \<leftarrow> b6b_global k v I;
         if ok then return_ref v I else Some (B6B_ERR, I)
       }
     | _ \<Rightarrow> None
   }"

text \<open>
  The value goes to the frame before the previous one; \<^verbatim>\<open>f->prev\<close> with \<^verbatim>\<open>f\<close> the null pointer
  is undefined.
\<close>

definition export_to :: "addr \<Rightarrow> addr \<Rightarrow> interp \<Rightarrow> (b6b_res \<times> interp) option" where
  "export_to k v I =
     (case chain I of
        _ # _ # f # _ \<Rightarrow> do {
          (ok, I) \<leftarrow> on_heap (b6b_dict_set (locals f) k v) I;
          if ok then return_ref v I else Some (B6B_ERR, I)
        }
      | [_, _] \<Rightarrow> Some (B6B_ERR, I)
      | _ \<Rightarrow> None)"

definition b6b_core_proc_export :: "addr \<Rightarrow> interp \<Rightarrow> (b6b_res \<times> interp) option" where
  "b6b_core_proc_export args I = do {
     (argc, ps, I) \<leftarrow> b6b_proc_get_args args ''os|o'' [False, True, True] I;
     if argc = 0 then Some (B6B_ERR, I)
     else case ps of
       [Arg k, Arg v] \<Rightarrow> export_to k v I
     | [Arg k] \<Rightarrow> do {
         (r, I) \<leftarrow> b6b_get k I;
         case r of
           Some v \<Rightarrow> export_to k v I
         | None \<Rightarrow> Some (B6B_ERR, I)
       }
     | _ \<Rightarrow> None
   }"

section \<open>Quoting\<close>

definition repr_text :: "string \<Rightarrow> string" where
  "repr_text s =
     (if s = [] then ''{}''
      else if (hd s \<noteq> CHR 0x7B \<or> last s \<noteq> CHR 0x7D) \<and> b6b_spaced s
      then CHR 0x7B # s @ [CHR 0x7D]
      else s)"

text \<open>A string that needs no braces is returned itself.\<close>

definition b6b_core_proc_repr :: "addr \<Rightarrow> interp \<Rightarrow> (b6b_res \<times> interp) option" where
  "b6b_core_proc_repr args I = do {
     (argc, ps, I) \<leftarrow> b6b_proc_get_args args ''os'' [False, True] I;
     if argc = 0 then Some (B6B_ERR, I)
     else case ps of
       [Arg s] \<Rightarrow> do {
         t \<leftarrow> str_at s I;
         if length t \<ge> 2 ^ 64 - 3 then Some (B6B_ERR, I)
         else if t \<noteq> [] \<and> repr_text t = t then return_ref s I
         else b6b_return_str (repr_text t) I
       }
     | _ \<Rightarrow> None
   }"

section \<open>Threads\<close>

text \<open>\<^verbatim>\<open>b6b_thread_new\<close>: a thread at the start of its routine, in a frame of its own.\<close>

definition b6b_thread_new :: "addr \<Rightarrow> interp \<Rightarrow> (thread \<times> interp) option" where
  "b6b_thread_new fn I =
     (case b6b_frame_new (hp I) of (f, h) \<Rightarrow> do {
        h \<leftarrow> b6b_ref fn h;
        h \<leftarrow> b6b_ref (i_null I) h;
        Some (\<lparr>t_id = next_tid I, t_curr = [f], t_fn = Some fn, t_ret = i_null I, t_depth = 1,
               t_bg = True, t_fg = False, t_done = False, t_blocked = False\<rparr>,
              I\<lparr>hp := h, next_tid := Suc (next_tid I)\<rparr>)
      })"

text \<open>\<^verbatim>\<open>b6b_start\<close>: the new thread is next after the running one.\<close>

definition b6b_start :: "addr \<Rightarrow> interp \<Rightarrow> interp option" where
  "b6b_start fn I = do {
     (t, I) \<leftarrow> b6b_thread_new fn I;
     Some (I\<lparr>tq_after := t # tq_after I\<rparr>)
   }"

definition b6b_core_proc_spawn :: "addr \<Rightarrow> interp \<Rightarrow> (b6b_res \<times> interp) option" where
  "b6b_core_proc_spawn args I = do {
     (argc, ps, I) \<leftarrow> b6b_proc_get_args args ''oo'' [False, True] I;
     if argc = 0 then Some (B6B_ERR, I)
     else case ps of
       [Arg x] \<Rightarrow> do {
         I \<leftarrow> b6b_start x I;
         Some (B6B_OK, I)
       }
     | _ \<Rightarrow> None
   }"

section \<open>Making procedures\<close>

definition b6b_proc_proc_proc :: "addr \<Rightarrow> interp \<Rightarrow> (b6b_res \<times> interp) option" where
  "b6b_proc_proc_proc args I = do {
     (argc, ps, I) \<leftarrow> b6b_proc_get_args args ''oso|o'' [False, True, True, True] I;
     if argc = 0 then Some (B6B_ERR, I)
     else case ps of
       Arg n # Arg b # p \<Rightarrow> do {
         name \<leftarrow> str_at n I;
         case new_heap (b6b_str_copy name) I of (ob, I) \<Rightarrow> do {
           (ok, I) \<leftarrow> (if name \<noteq> [] then b6b_global n ob I else Some (True, I));
           if \<not> ok then do {
             I \<leftarrow> upd_heap (b6b_destroy ob) I;
             Some (B6B_ERR, I)
           }
           else do {
             let priv = (case p of [Arg x] \<Rightarrow> x | _ \<Rightarrow> i_null I);
             I \<leftarrow> upd_heap (b6b_ref b) I;
             I \<leftarrow> upd_heap (b6b_ref priv) I;
             I \<leftarrow> upd_heap (hupd ob (\<lambda>x. x\<lparr>ob_priv := Priv_proc b priv, ob_proc := F_proc\<rparr>)) I;
             b6b_return ob I
           }
         }
       }
     | _ \<Rightarrow> None
   }"

end
