(* ===== verification/Eval.thy ===== *)
theory Eval
  imports Procs_Core
begin

text \<open>
  Evaluation: \<^verbatim>\<open>b6b_eval\<close>, \<^verbatim>\<open>b6b_stmt_call\<close>, \<^verbatim>\<open>b6b_call\<close>, \<^verbatim>\<open>b6b_on_res\<close>,
  \<^verbatim>\<open>b6b_yield\<close> and \<^verbatim>\<open>b6b_wait\<close> of src/b6b_interp.c, and the procedures that run code:
  \<^verbatim>\<open>proc\<close>s (src/b6b_proc.c), \<^verbatim>\<open>if\<close> (src/b6b_logic.c), \<^verbatim>\<open>map\<close> and \<^verbatim>\<open>loop\<close> (src/b6b_loop.c),
  \<^verbatim>\<open>try\<close> (src/b6b_exc.c), \<^verbatim>\<open>eval\<close>, \<^verbatim>\<open>call\<close> and \<^verbatim>\<open>source\<close> (src/b6b_core.c).

  \<^item> A computation ends in \<open>Ret\<close>, meets undefined behaviour (\<open>Undef\<close>), or gives the processor to
    another thread: \<open>Swap I k\<close> is the state at \<^verbatim>\<open>swapcontext\<close> and what this thread does
    when it is switched to again.
  \<^item> The C functions call each other.  Here each takes the meaning \<open>sc\<close> of
    \<^verbatim>\<open>b6b_stmt_call\<close>, through which every cycle of calls goes, and \<open>stmt_call\<close> closes the
    cycle with fuel.  \<open>No_fuel\<close> is not a behaviour of the code: with more fuel the
    computation goes on.
  \<^item> A loop over a list holds a pointer to a node while the loop's body runs; it reads the list
    again after the body.
\<close>

section \<open>Computations\<close>

datatype 'a res = Ret 'a interp | Undef | No_fuel | Swap interp "interp \<Rightarrow> 'a res"

primrec rbind :: "'a res \<Rightarrow> ('a \<Rightarrow> interp \<Rightarrow> 'b res) \<Rightarrow> 'b res" where
  "rbind (Ret x I) f = f x I"
| "rbind Undef f = Undef"
| "rbind No_fuel f = No_fuel"
| "rbind (Swap I k) f = Swap I (\<lambda>I'. rbind (k I') f)"

definition lift :: "('a \<times> interp) option \<Rightarrow> 'a res" where
  "lift r = (case r of None \<Rightarrow> Undef | Some (x, I) \<Rightarrow> Ret x I)"

definition lift_read :: "interp \<Rightarrow> 'a option \<Rightarrow> 'a res" where
  "lift_read I r = (case r of None \<Rightarrow> Undef | Some x \<Rightarrow> Ret x I)"

definition lift_upd :: "interp option \<Rightarrow> unit res" where
  "lift_upd r = (case r of None \<Rightarrow> Undef | Some I \<Rightarrow> Ret () I)"

text \<open>The node after \<open>li\<close> and the object at \<open>li\<close>, as the list is now.\<close>

definition node_obj :: "addr \<Rightarrow> litem \<Rightarrow> interp \<Rightarrow> addr option" where
  "node_obj l li I = Option.bind (items_at l I) (\<lambda>its. map_of its li)"

definition node_next :: "addr \<Rightarrow> litem \<Rightarrow> interp \<Rightarrow> litem option option" where
  "node_next l li I = Option.bind (items_at l I) (next_in li)"

definition node_first :: "addr \<Rightarrow> interp \<Rightarrow> litem option option" where
  "node_first l I = map_option first_in (items_at l I)"

section \<open>Switching threads\<close>

definition pending :: "thread \<Rightarrow> bool" where
  "pending t \<longleftrightarrow> t_bg t \<and> \<not> t_done t"

fun split_at :: "('a \<Rightarrow> bool) \<Rightarrow> 'a list \<Rightarrow> ('a list \<times> 'a \<times> 'a list) option" where
  "split_at P [] = None"
| "split_at P (x # xs) =
     (if P x then Some ([], x, xs)
      else map_option (\<lambda>(as, y, bs). (x # as, y, bs)) (split_at P xs))"

text \<open>\<^verbatim>\<open>b6b_thread_swap\<close> up to the switch of stacks: the flags of both threads.\<close>

definition to_fg :: "thread \<Rightarrow> thread" where "to_fg t = t\<lparr>t_bg := False, t_fg := True\<rparr>"
definition to_bg :: "thread \<Rightarrow> thread" where "to_bg t = t\<lparr>t_fg := False, t_bg := True\<rparr>"

text \<open>\<^verbatim>\<open>b6b_thread_destroy\<close>: only the frame at the top of the chain is freed.\<close>

definition b6b_thread_destroy :: "thread \<Rightarrow> heap \<Rightarrow> heap option" where
  "b6b_thread_destroy t h = do {
     h \<leftarrow> b6b_unref (t_ret t) h;
     h \<leftarrow> (case t_fn t of None \<Rightarrow> Some h | Some a \<Rightarrow> b6b_unref a h);
     case t_curr t of
       [] \<Rightarrow> None
     | f # _ \<Rightarrow> b6b_frame_destroy f h
   }"

fun destroy_done :: "thread list \<Rightarrow> heap \<Rightarrow> heap option" where
  "destroy_done [] h = Some h"
| "destroy_done (t # ts) h =
     (if t_done t then do {
        h \<leftarrow> b6b_thread_destroy t h;
        destroy_done ts h
      }
      else destroy_done ts h)"

text \<open>\<^verbatim>\<open>b6b_wait\<close> frees the threads that are done; the running one must not be among them.\<close>

definition b6b_wait :: "interp \<Rightarrow> interp option" where
  "b6b_wait I =
     (if t_done (fg I) then None
      else do {
        h \<leftarrow> destroy_done (threads I) (hp I);
        Some (I\<lparr>hp := h, tq_before := filter (\<lambda>t. \<not> t_done t) (tq_before I),
               tq_after := filter (\<lambda>t. \<not> t_done t) (tq_after I)\<rparr>)
      })"

text \<open>The next thread to run, in the queue's order from the running one on, then around.\<close>

definition next_thread :: "interp \<Rightarrow> interp option" where
  "next_thread I =
     (case split_at pending (tq_after I) of
        Some (xs, t, ys) \<Rightarrow>
          Some (I\<lparr>tq_before := tq_before I @ to_bg (fg I) # xs, fg := to_fg t, tq_after := ys, qstep := 0\<rparr>)
      | None \<Rightarrow>
          (case split_at pending (tq_before I) of
             Some (xs, t, ys) \<Rightarrow>
               Some (I\<lparr>tq_before := xs, fg := to_fg t, tq_after := ys @ to_bg (fg I) # tq_after I, qstep := 0\<rparr>)
           | None \<Rightarrow> None))"

definition b6b_yield :: "interp \<Rightarrow> bool res" where
  "b6b_yield I =
     (case next_thread I of
        None \<Rightarrow> rbind (lift_upd (b6b_wait I)) (\<lambda>_ I. Ret False I)
      | Some I' \<Rightarrow> Swap I' (\<lambda>I. rbind (lift_upd (b6b_wait I)) (\<lambda>_ I. Ret True I)))"

section \<open>After a statement\<close>

definition b6b_on_res :: "b6b_res \<Rightarrow> interp \<Rightarrow> b6b_res res" where
  "b6b_on_res res I =
     (if res = B6B_YIELD then rbind (b6b_yield I) (\<lambda>_ I. Ret B6B_OK I)
      else
        let I = I\<lparr>qstep := qstep I + 1\<rparr> in
        rbind (lift (b6b_local (i_us I) (t_ret (fg I)) I)) (\<lambda>ok I.
          if \<not> ok then Ret B6B_ERR I
          else if res = B6B_EXIT then Ret res (I\<lparr>exiting := True\<rparr>)
          else if qstep I = B6B_QUANT_LEN then rbind (b6b_yield I) (\<lambda>_ I. Ret res I)
          else Ret res I))"

section \<open>Expressions\<close>

definition b6b_eval :: "(addr \<Rightarrow> interp \<Rightarrow> b6b_res res) \<Rightarrow> addr \<Rightarrow> interp \<Rightarrow> b6b_res res" where
  "b6b_eval sc e I =
     rbind (lift_read I (str_at e I)) (\<lambda>s I.
       if s \<noteq> [] \<and> hd s = CHR ''$'' then
         (case new_heap (b6b_str_new (tl s)) I of (name, I) \<Rightarrow>
            rbind (lift (b6b_get name I)) (\<lambda>r I.
              let I = I\<lparr>hp := hfree name (hp I)\<rparr> in
              case r of
                Some x \<Rightarrow> lift (return_ref x I)
              | None \<Rightarrow> Ret B6B_ERR I))
       else if s \<noteq> [] \<and> hd s = CHR ''['' then
         if length s = 1 \<or> last s \<noteq> CHR '']'' then lift (fail_with ''uneven []'' I)
         else
           rbind (lift (on_heap (b6b_list_from (butlast (tl s))) I)) (\<lambda>r I.
             case r of
               None \<Rightarrow> Ret B6B_ERR I
             | Some stmt \<Rightarrow>
                 rbind (sc stmt I) (\<lambda>res I.
                   rbind (lift_upd (upd_heap (b6b_unref stmt) I)) (\<lambda>_ I. Ret res I)))
       else lift (return_ref e I))"

section \<open>Blocks\<close>

text \<open>The loop of \<^verbatim>\<open>b6b_call\<close> from a node on.\<close>

fun call_loop :: "(addr \<Rightarrow> interp \<Rightarrow> b6b_res res) \<Rightarrow> nat \<Rightarrow> addr \<Rightarrow> litem option \<Rightarrow> interp \<Rightarrow> b6b_res res" where
  "call_loop sc 0 l p I = No_fuel"
| "call_loop sc (Suc n) l p I =
     (case p of
        None \<Rightarrow> Ret B6B_OK I
      | Some li \<Rightarrow>
          rbind (lift_read I (node_obj l li I)) (\<lambda>a I.
          rbind (lift (on_heap (b6b_as_str a) I)) (\<lambda>ok I.
            if \<not> ok then Ret B6B_ERR I
            else rbind (lift_read I (str_at a I)) (\<lambda>s I.
              rbind (if s \<noteq> [] \<and> hd s \<noteq> CHR ''#'' then sc a I else Ret B6B_OK I) (\<lambda>res I.
                if res \<noteq> B6B_OK then Ret res I
                else rbind (lift_read I (node_next l li I)) (\<lambda>p I. call_loop sc n l p I))))))"

definition b6b_call :: "(addr \<Rightarrow> interp \<Rightarrow> b6b_res res) \<Rightarrow> nat \<Rightarrow> addr \<Rightarrow> interp \<Rightarrow> b6b_res res" where
  "b6b_call sc n stmts I =
     rbind (lift (on_heap (b6b_as_list stmts) I)) (\<lambda>ok I.
       if \<not> ok then Ret B6B_ERR I
       else rbind (lift_read I (node_first stmts I)) (\<lambda>p I. call_loop sc n stmts p I))"

definition b6b_call_copy :: "(addr \<Rightarrow> interp \<Rightarrow> b6b_res res) \<Rightarrow> nat \<Rightarrow> string \<Rightarrow> interp \<Rightarrow> b6b_res res" where
  "b6b_call_copy sc n s I =
     (case new_heap (b6b_str_copy s) I of (a, I) \<Rightarrow>
        rbind (b6b_call sc n a I) (\<lambda>res I.
          rbind (lift_upd (upd_heap (b6b_unref a) I)) (\<lambda>_ I. Ret res I)))"

text \<open>
  What \<^verbatim>\<open>b6b_source\<close> runs of a file.  After a shebang the text starts at the end of the first
  line and has as many bytes as follow that line's newline, so it lacks the file's last byte.
\<close>

definition script_of :: "string \<Rightarrow> string option" where
  "script_of s =
     (if s = [] then None
      else if hd s \<noteq> CHR ''#'' \<or> length s < 2 \<or> s ! 1 \<noteq> CHR ''!'' then Some s
      else
        let line = takeWhile (\<lambda>c. c \<noteq> CHR 0x0A) (c_str s); off = length line in
        if off = length (c_str s) then None
        else Some (take (length s - (off + 1)) (drop off s)))"

definition b6b_source :: "env \<Rightarrow> (addr \<Rightarrow> interp \<Rightarrow> b6b_res res) \<Rightarrow> nat \<Rightarrow> string \<Rightarrow> interp \<Rightarrow> b6b_res res" where
  "b6b_source E sc n path I =
     (case Option.bind (e_file E path) script_of of
        None \<Rightarrow> Ret B6B_ERR I
      | Some s \<Rightarrow> b6b_call_copy sc n s I)"

section \<open>Procedures that run code\<close>

definition b6b_proc_proc :: "(addr \<Rightarrow> interp \<Rightarrow> b6b_res res) \<Rightarrow> nat \<Rightarrow> addr \<Rightarrow> interp \<Rightarrow> b6b_res res" where
  "b6b_proc_proc sc n args I =
     rbind (lift_read I (Option.bind (items_at args I) (\<lambda>its.
       case its of [] \<Rightarrow> None | (_, a) # _ \<Rightarrow>
         Option.bind (obj_at a I) (\<lambda>ob. case ob_priv ob of Priv_proc b p \<Rightarrow> Some (b, p) | _ \<Rightarrow> None))))
     (\<lambda>(body, priv) I.
       rbind (lift (b6b_frame_set_args (curr I) args I)) (\<lambda>ok I.
         if \<not> ok then Ret B6B_ERR I
         else rbind (lift (b6b_local (i_dot I) priv I)) (\<lambda>ok I.
           if \<not> ok then Ret B6B_ERR I
           else rbind (b6b_call sc n body I) (\<lambda>res I.
             Ret (if res = B6B_RET then B6B_OK else res) I))))"

definition b6b_logic_proc_if :: "(addr \<Rightarrow> interp \<Rightarrow> b6b_res res) \<Rightarrow> nat \<Rightarrow> addr \<Rightarrow> interp \<Rightarrow> b6b_res res" where
  "b6b_logic_proc_if sc n args I =
     rbind (lift (map_option (\<lambda>(argc, ps, I). ((argc, ps), I))
       (b6b_proc_get_args args ''ooo|o'' [False, True, True, True] I))) (\<lambda>(argc, ps) I.
       if argc = 0 then Ret B6B_ERR I
       else case ps of
         Arg b # Arg t # f \<Rightarrow>
           rbind (lift_read I (b6b_obj_istrue b (hp I))) (\<lambda>c I.
             if c then b6b_call sc n t I
             else case f of
               [Arg f] \<Rightarrow> b6b_call sc n f I
             | _ \<Rightarrow> Ret B6B_OK I)
       | _ \<Rightarrow> Undef)"

text \<open>\<^verbatim>\<open>do { ... } while (res == B6B_OK)\<close>.\<close>

fun loop_from :: "(addr \<Rightarrow> interp \<Rightarrow> b6b_res res) \<Rightarrow> nat \<Rightarrow> addr \<Rightarrow> interp \<Rightarrow> b6b_res res" where
  "loop_from sc 0 b I = No_fuel"
| "loop_from sc (Suc n) b I =
     rbind (b6b_call sc n b I) (\<lambda>res I.
       if res = B6B_BREAK then Ret B6B_OK I
       else if res = B6B_OK then loop_from sc n b I
       else Ret res I)"

definition b6b_loop_proc_loop :: "(addr \<Rightarrow> interp \<Rightarrow> b6b_res res) \<Rightarrow> nat \<Rightarrow> addr \<Rightarrow> interp \<Rightarrow> b6b_res res" where
  "b6b_loop_proc_loop sc n args I =
     rbind (lift (map_option (\<lambda>(argc, ps, I). ((argc, ps), I))
       (b6b_proc_get_args args ''oo'' [False, True] I))) (\<lambda>(argc, ps) I.
       if argc = 0 then Ret B6B_ERR I
       else case ps of
         [Arg b] \<Rightarrow> loop_from sc n b I
       | _ \<Rightarrow> Undef)"

text \<open>
  One round of \<^verbatim>\<open>map\<close> binds the keys from \<open>kp\<close> on to the items from \<open>lp\<close> on.  The result is
  the next item, or the failure, with the result list destroyed.
\<close>

fun map_bind :: "nat \<Rightarrow> addr \<Rightarrow> addr \<Rightarrow> addr \<Rightarrow> litem option \<Rightarrow> litem option \<Rightarrow> interp
    \<Rightarrow> litem option option res" where
  "map_bind 0 ks l r kp lp I = No_fuel"
| "map_bind (Suc n) ks l r kp lp I =
     (case kp of
        None \<Rightarrow> Ret (Some lp) I
      | Some kli \<Rightarrow>
          (case lp of
             None \<Rightarrow>
               rbind (lift_upd (upd_heap (b6b_destroy r) I)) (\<lambda>_ I.
               rbind (lift (b6b_return_str ''not enough items'' I)) (\<lambda>_ I. Ret None I))
           | Some li \<Rightarrow>
               rbind (lift_read I (node_obj ks kli I)) (\<lambda>k I.
               rbind (lift_read I (node_obj l li I)) (\<lambda>v I.
               rbind (lift (b6b_local k v I)) (\<lambda>ok I.
                 if \<not> ok then rbind (lift_upd (upd_heap (b6b_destroy r) I)) (\<lambda>_ I. Ret None I)
                 else
                   rbind (lift_read I (node_next l li I)) (\<lambda>lp I.
                   rbind (lift_read I (node_next ks kli I)) (\<lambda>kp I.
                     map_bind n ks l r kp lp I)))))))"

fun map_loop :: "(addr \<Rightarrow> interp \<Rightarrow> b6b_res res) \<Rightarrow> nat \<Rightarrow> addr \<Rightarrow> addr \<Rightarrow> addr \<Rightarrow> addr \<Rightarrow> litem option
    \<Rightarrow> interp \<Rightarrow> b6b_res res" where
  "map_loop sc 0 ks l b r lp I = No_fuel"
| "map_loop sc (Suc n) ks l b r lp I =
     (if lp = None then lift (b6b_return r I)
      else
        rbind (lift_read I (node_first ks I)) (\<lambda>kp I.
        rbind (map_bind n ks l r kp lp I) (\<lambda>next I.
          case next of
            None \<Rightarrow> Ret B6B_ERR I
          | Some lp \<Rightarrow>
              rbind (b6b_call sc n b I) (\<lambda>res I.
                if res = B6B_OK then
                  rbind (lift_upd (upd_heap (b6b_list_add r (t_ret (fg I))) I)) (\<lambda>_ I.
                    map_loop sc n ks l b r lp I)
                else if res = B6B_CONT then map_loop sc n ks l b r lp I
                else if res = B6B_BREAK then lift (b6b_return r I)
                else rbind (lift_upd (upd_heap (b6b_destroy r) I)) (\<lambda>_ I. Ret res I)))))"

definition b6b_loop_proc_map :: "(addr \<Rightarrow> interp \<Rightarrow> b6b_res res) \<Rightarrow> nat \<Rightarrow> addr \<Rightarrow> interp \<Rightarrow> b6b_res res" where
  "b6b_loop_proc_map sc n args I =
     rbind (lift (map_option (\<lambda>(argc, ps, I). ((argc, ps), I))
       (b6b_proc_get_args args ''ollo'' [False, True, True, True] I))) (\<lambda>(argc, ps) I.
       if argc = 0 then Ret B6B_ERR I
       else case ps of
         [Arg ks, Arg l, Arg b] \<Rightarrow>
           rbind (lift_read I (items_at ks I)) (\<lambda>kits I.
             if kits = [] then Ret B6B_ERR I
             else
               (case new_heap b6b_list_new I of (r, I) \<Rightarrow>
                  rbind (lift_read I (node_first l I)) (\<lambda>lp I. map_loop sc n ks l b r lp I)))
       | _ \<Rightarrow> Undef)"

text \<open>
  \<^verbatim>\<open>try\<close>: the handler's status, with the option B6B_OPT_RAISE; the finally block runs with
  the exit flag cleared, and its return value is discarded.
\<close>

definition try_except :: "(addr \<Rightarrow> interp \<Rightarrow> b6b_res res) \<Rightarrow> nat \<Rightarrow> addr \<Rightarrow> interp \<Rightarrow> b6b_res res" where
  "try_except sc n e I =
     (if has_opt B6B_OPT_RAISE I then
        rbind (b6b_call sc n e I) (\<lambda>eres I. Ret (if eres = B6B_EXIT then eres else B6B_ERR) I)
      else b6b_call sc n e I)"

definition try_finally ::
  "(addr \<Rightarrow> interp \<Rightarrow> b6b_res res) \<Rightarrow> nat \<Rightarrow> addr \<Rightarrow> b6b_res \<Rightarrow> b6b_res \<Rightarrow> interp \<Rightarrow> b6b_res res" where
  "try_finally sc n f res eres I =
     (let ex = exiting I; I = I\<lparr>exiting := False\<rparr>; x = t_ret (fg I) in
      rbind (lift_upd (upd_heap (b6b_ref x) I)) (\<lambda>_ I.
      rbind (b6b_call sc n f I) (\<lambda>fres I.
      rbind (lift_upd (upd_heap (b6b_unref (t_ret (fg I))) I)) (\<lambda>_ I.
        let I = (set_ret x I)\<lparr>exiting := ex\<rparr> in
        if res = B6B_RET \<or> res = B6B_EXIT then Ret res I
        else if res = B6B_ERR \<and> eres \<noteq> B6B_OK then Ret eres I
        else Ret fres I))))"

definition b6b_exc_proc_try :: "(addr \<Rightarrow> interp \<Rightarrow> b6b_res res) \<Rightarrow> nat \<Rightarrow> addr \<Rightarrow> interp \<Rightarrow> b6b_res res" where
  "b6b_exc_proc_try sc n args I =
     rbind (lift (map_option (\<lambda>(argc, ps, I). ((argc, ps), I))
       (b6b_proc_get_args args ''oo|oo'' [False, True, True, True] I))) (\<lambda>(argc, ps) I.
       if argc = 0 then Ret B6B_ERR I
       else case ps of
         Arg t # ef \<Rightarrow>
           rbind (b6b_call sc n t I) (\<lambda>res I.
             if res = B6B_ERR \<and> argc = 2 then
               Ret (if has_opt B6B_OPT_RAISE I then res else B6B_OK) I
             else
               rbind (if res = B6B_ERR then
                        (case ef of Arg e # _ \<Rightarrow> try_except sc n e I | _ \<Rightarrow> Undef)
                      else Ret B6B_ERR I) (\<lambda>eres I.
                 case ef of
                   [_, Arg f] \<Rightarrow> try_finally sc n f res eres I
                 | _ \<Rightarrow> Ret (if res = B6B_ERR then eres else res) I))
       | _ \<Rightarrow> Undef)"

definition b6b_core_proc_eval :: "(addr \<Rightarrow> interp \<Rightarrow> b6b_res res) \<Rightarrow> addr \<Rightarrow> interp \<Rightarrow> b6b_res res" where
  "b6b_core_proc_eval sc args I =
     rbind (lift (map_option (\<lambda>(argc, ps, I). ((argc, ps), I))
       (b6b_proc_get_args args ''oo'' [False, True] I))) (\<lambda>(argc, ps) I.
       if argc = 0 then Ret B6B_ERR I
       else case ps of
         [Arg e] \<Rightarrow>
           rbind (lift (on_heap (b6b_as_str e) I)) (\<lambda>ok I.
             if ok then b6b_eval sc e I else Ret B6B_ERR I)
       | _ \<Rightarrow> Undef)"

definition b6b_core_proc_call :: "(addr \<Rightarrow> interp \<Rightarrow> b6b_res res) \<Rightarrow> nat \<Rightarrow> addr \<Rightarrow> interp \<Rightarrow> b6b_res res" where
  "b6b_core_proc_call sc n args I =
     rbind (lift (map_option (\<lambda>(argc, ps, I). ((argc, ps), I))
       (b6b_proc_get_args args ''oo'' [False, True] I))) (\<lambda>(argc, ps) I.
       if argc = 0 then Ret B6B_ERR I
       else case ps of
         [Arg stmts] \<Rightarrow> b6b_call sc n stmts I
       | _ \<Rightarrow> Undef)"

definition b6b_core_proc_source :: "env \<Rightarrow> (addr \<Rightarrow> interp \<Rightarrow> b6b_res res) \<Rightarrow> nat \<Rightarrow> addr \<Rightarrow> interp \<Rightarrow> b6b_res res" where
  "b6b_core_proc_source E sc n args I =
     rbind (lift (map_option (\<lambda>(argc, ps, I). ((argc, ps), I))
       (b6b_proc_get_args args ''os'' [False, True] I))) (\<lambda>(argc, ps) I.
       if argc = 0 then Ret B6B_ERR I
       else case ps of
         [Arg path] \<Rightarrow>
           rbind (lift_read I (str_at path I)) (\<lambda>s I.
             if s = [] then Ret B6B_ERR I else b6b_source E sc n (c_str s) I)
       | _ \<Rightarrow> Undef)"

section \<open>Dispatch through the procedure pointer\<close>

definition core_proc ::
  "env \<Rightarrow> (addr \<Rightarrow> interp \<Rightarrow> b6b_res res) \<Rightarrow> nat \<Rightarrow> core_fn \<Rightarrow> addr \<Rightarrow> interp \<Rightarrow> b6b_res res" where
  "core_proc E sc n f args I = (case f of
     C_nop \<Rightarrow> Ret B6B_OK I
   | C_echo \<Rightarrow> lift (b6b_core_proc_echo args I)
   | C_yield \<Rightarrow> Ret B6B_YIELD I
   | C_return \<Rightarrow> lift (b6b_core_proc_return args I)
   | C_continue \<Rightarrow> Ret B6B_CONT I
   | C_break \<Rightarrow> Ret B6B_BREAK I
   | C_throw \<Rightarrow> lift (b6b_core_proc_throw args I)
   | C_exit \<Rightarrow> lift (b6b_core_proc_exit args I)
   | C_local \<Rightarrow> lift (b6b_core_proc_local args I)
   | C_global \<Rightarrow> lift (b6b_core_proc_global args I)
   | C_export \<Rightarrow> lift (b6b_core_proc_export args I)
   | C_eval \<Rightarrow> b6b_core_proc_eval sc args I
   | C_repr \<Rightarrow> lift (b6b_core_proc_repr args I)
   | C_call \<Rightarrow> b6b_core_proc_call sc n args I
   | C_spawn \<Rightarrow> lift (b6b_core_proc_spawn args I)
   | C_source \<Rightarrow> b6b_core_proc_source E sc n args I)"

definition logic_proc ::
  "(addr \<Rightarrow> interp \<Rightarrow> b6b_res res) \<Rightarrow> nat \<Rightarrow> logic_fn \<Rightarrow> addr \<Rightarrow> interp \<Rightarrow> b6b_res res" where
  "logic_proc sc n f args I = (case f of
     L_not \<Rightarrow> lift (b6b_logic_proc_not args I)
   | L_eq \<Rightarrow> lift (b6b_logic_proc_eq args I)
   | L_ne \<Rightarrow> lift (b6b_logic_proc_ne args I)
   | L_and \<Rightarrow> lift (b6b_logic_proc_and args I)
   | L_or \<Rightarrow> lift (b6b_logic_proc_or args I)
   | L_xor \<Rightarrow> lift (b6b_logic_proc_xor args I)
   | L_if \<Rightarrow> b6b_logic_proc_if sc n args I)"

definition loop_proc ::
  "(addr \<Rightarrow> interp \<Rightarrow> b6b_res res) \<Rightarrow> nat \<Rightarrow> loop_fn \<Rightarrow> addr \<Rightarrow> interp \<Rightarrow> b6b_res res" where
  "loop_proc sc n f args I = (case f of
     Loop_map \<Rightarrow> b6b_loop_proc_map sc n args I
   | Loop_loop \<Rightarrow> b6b_loop_proc_loop sc n args I
   | Loop_range \<Rightarrow> lift (b6b_loop_proc_range args I))"

definition call_proc ::
  "env \<Rightarrow> (addr \<Rightarrow> interp \<Rightarrow> b6b_res res) \<Rightarrow> nat \<Rightarrow> procf \<Rightarrow> addr \<Rightarrow> interp \<Rightarrow> b6b_res res" where
  "call_proc E sc n f args I = (case f of
     F_obj \<Rightarrow> lift (b6b_obj_proc E args I)
   | F_proc \<Rightarrow> b6b_proc_proc sc n args I
   | F_proc_new \<Rightarrow> lift (b6b_proc_proc_proc args I)
   | F_try \<Rightarrow> b6b_exc_proc_try sc n args I
   | F_core c \<Rightarrow> core_proc E sc n c args I
   | F_logic c \<Rightarrow> logic_proc sc n c args I
   | F_loop c \<Rightarrow> loop_proc sc n c args I
   | F_list c \<Rightarrow> lift (list_proc c args I)
   | F_dict c \<Rightarrow> lift (dict_proc c args I)
   | F_str c \<Rightarrow> lift (str_proc c args I)
   | F_math c \<Rightarrow> lift (math_proc c args I)
   | F_rand c \<Rightarrow> lift (rand_proc E c args I)
   | F_ext k \<Rightarrow> lift (e_ext E k args I))"

section \<open>Statements\<close>

text \<open>
  The evaluation of the arguments from a node on: whether all of them succeeded, and the
  variable \<^verbatim>\<open>res\<close>.
\<close>

fun args_loop :: "(addr \<Rightarrow> interp \<Rightarrow> b6b_res res) \<Rightarrow> nat \<Rightarrow> addr \<Rightarrow> addr \<Rightarrow> litem option \<Rightarrow> b6b_res \<Rightarrow> interp
    \<Rightarrow> (bool \<times> b6b_res) res" where
  "args_loop sc 0 stmt fa p res I = No_fuel"
| "args_loop sc (Suc n) stmt fa p res I =
     (case p of
        None \<Rightarrow> Ret (True, res) I
      | Some li \<Rightarrow>
          rbind (lift_read I (node_obj stmt li I)) (\<lambda>a I.
          rbind (lift (on_heap (b6b_as_str a) I)) (\<lambda>ok I.
            if \<not> ok then Ret (False, res) I
            else rbind (b6b_eval sc a I) (\<lambda>res I.
              if res \<noteq> B6B_OK then Ret (False, res) I
              else
                rbind (lift_upd (upd_heap (b6b_list_add fa (t_ret (fg I))) I)) (\<lambda>_ I.
                rbind (lift_read I (node_next stmt li I)) (\<lambda>p I.
                  args_loop sc n stmt fa p res I))))))"

text \<open>
  The trace of a statement.  Writing to standard error succeeds, but \<^verbatim>\<open>fwrite\<close> of no bytes
  returns 0, which the code takes for a failure.
\<close>

definition trace_text :: "string \<Rightarrow> string option" where
  "trace_text s =
     (let line = takeWhile (\<lambda>c. c \<noteq> CHR 0x0A) (c_str s) in
      if length line < length (c_str s) then
        (if line = [] then None else Some (line @ '' ...'' @ [CHR 0x0A]))
      else if s = [] then None
      else Some (s @ [CHR 0x0A]))"

definition trace_stmt :: "addr \<Rightarrow> interp \<Rightarrow> (bool \<times> interp) option" where
  "trace_stmt fa I =
     (if \<not> has_opt B6B_OPT_TRACE I then Some (True, I)
      else do {
        (ok, I) \<leftarrow> on_heap (b6b_as_str fa) I;
        if \<not> ok then Some (False, I)
        else do {
          s \<leftarrow> str_at fa I;
          case trace_text s of
            None \<Rightarrow> Some (False, I\<lparr>err_out := err_out I @ ''+ ''\<rparr>)
          | Some t \<Rightarrow> Some (True, I\<lparr>err_out := err_out I @ ''+ '' @ t\<rparr>)
        }
      })"

text \<open>The statement between \<^verbatim>\<open>b6b_frame_push\<close> and \<^verbatim>\<open>b6b_frame_pop\<close>.\<close>

definition stmt_run ::
  "env \<Rightarrow> (addr \<Rightarrow> interp \<Rightarrow> b6b_res res) \<Rightarrow> nat \<Rightarrow> addr \<Rightarrow> addr \<Rightarrow> interp \<Rightarrow> b6b_res res" where
  "stmt_run E sc n stmt fa I =
     rbind (lift (on_heap (b6b_as_list stmt) I)) (\<lambda>ok I.
       if \<not> ok then Ret B6B_ERR I
       else
         rbind (lift_read I (node_first stmt I)) (\<lambda>p I.
         rbind (args_loop sc n stmt fa p B6B_ERR I) (\<lambda>(ok, res) I.
           if \<not> ok then Ret res I
           else rbind (lift (trace_stmt fa I)) (\<lambda>ok I.
             if \<not> ok then Ret res I
             else
               rbind (lift_upd (upd_heap (b6b_unref (t_ret (fg I))) I)) (\<lambda>_ I.
               rbind (lift_upd (upd_heap (b6b_ref (i_null I)) (set_ret (i_null I) I))) (\<lambda>_ I.
               rbind (lift_read I (Option.bind (items_at fa I) (\<lambda>its.
                 case its of [] \<Rightarrow> None | (_, a) # _ \<Rightarrow> map_option ob_proc (obj_at a I)))) (\<lambda>f I.
                 call_proc E sc n f fa I)))))))"

definition stmt_call_body ::
  "env \<Rightarrow> (addr \<Rightarrow> interp \<Rightarrow> b6b_res res) \<Rightarrow> nat \<Rightarrow> addr \<Rightarrow> interp \<Rightarrow> b6b_res res" where
  "stmt_call_body E sc n stmt I =
     (if exiting I then Ret B6B_EXIT I
      else rbind (lift (b6b_frame_push I)) (\<lambda>f I.
        case f of
          None \<Rightarrow> b6b_on_res B6B_ERR I
        | Some f \<Rightarrow>
            rbind (stmt_run E sc n stmt (fargs f) I) (\<lambda>res I.
            rbind (lift_upd (b6b_frame_pop I)) (\<lambda>_ I. b6b_on_res res I))))"

text \<open>\<^verbatim>\<open>b6b_stmt_call\<close> with fuel: the depth of calls and the rounds of each loop.\<close>

primrec stmt_call :: "env \<Rightarrow> nat \<Rightarrow> addr \<Rightarrow> interp \<Rightarrow> b6b_res res" where
  "stmt_call E 0 = (\<lambda>stmt I. No_fuel)"
| "stmt_call E (Suc n) = stmt_call_body E (stmt_call E n) n"

end
