(* ===== verification/Boot.thy ===== *)
theory Boot
  imports Eval
begin

text \<open>
  A whole program: \<^verbatim>\<open>b6b_interp_new\<close> with the tables of the procedures (the arrays
  \<^verbatim>\<open>b6b_ext_obj\<close> of each file), \<^verbatim>\<open>b6b_interp_new_argv\<close>, \<^verbatim>\<open>b6b_interp_destroy\<close>, the routine
  of a thread, the main program of src/b6b.c for a script, and the scheduler: the effect of
  \<^verbatim>\<open>swapcontext\<close>, which continues the computation of the thread that is switched to.
\<close>

section \<open>The tables\<close>

datatype ext_val = Ext_str string | Ext_int b6b_int

text \<open>\<^verbatim>\<open>struct b6b_ext_obj\<close>: name, value and procedure.\<close>

type_synonym ext_obj = "string \<times> ext_val \<times> procf option"

definition ext_proc :: "string \<Rightarrow> procf \<Rightarrow> ext_obj" where
  "ext_proc name f = (name, Ext_str name, Some f)"

definition b6b_core_table :: "ext_obj list" where
  "b6b_core_table = map (\<lambda>(s, f). ext_proc s (F_core f))
     [(''nop'', C_nop), (''echo'', C_echo), (''yield'', C_yield), (''return'', C_return),
      (''continue'', C_continue), (''break'', C_break), (''throw'', C_throw), (''exit'', C_exit),
      (''local'', C_local), (''global'', C_global), (''export'', C_export), (''eval'', C_eval),
      (''repr'', C_repr), (''call'', C_call), (''spawn'', C_spawn), (''source'', C_source)]"

definition b6b_logic_table :: "ext_obj list" where
  "b6b_logic_table = map (\<lambda>(s, f). ext_proc s (F_logic f))
     [(''!'', L_not), (''=='', L_eq), (''!='', L_ne), (''&&'', L_and), (''||'', L_or),
      (''^^'', L_xor), (''if'', L_if)]"

definition b6b_loop_table :: "ext_obj list" where
  "b6b_loop_table = map (\<lambda>(s, f). ext_proc s (F_loop f))
     [(''map'', Loop_map), (''loop'', Loop_loop), (''range'', Loop_range)]"

definition b6b_list_table :: "ext_obj list" where
  "b6b_list_table = map (\<lambda>(s, f). ext_proc s (F_list f))
     [(''list.new'', Li_new), (''list.len'', Li_len), (''list.copy'', Li_copy),
      (''list.append'', Li_append), (''list.extend'', Li_extend), (''list.index'', Li_index),
      (''list.range'', Li_range), (''list.in'', Li_in), (''list.pop'', Li_pop)]"

definition b6b_dict_table :: "ext_obj list" where
  "b6b_dict_table = map (\<lambda>(s, f). ext_proc s (F_dict f))
     [(''dict.get'', D_get), (''dict.set'', D_set), (''dict.unset'', D_unset)]"

definition b6b_str_table :: "ext_obj list" where
  "b6b_str_table = map (\<lambda>(s, f). ext_proc s (F_str f))
     [(''str.len'', S_len), (''str.index'', S_index), (''str.range'', S_range),
      (''str.join'', S_join), (''str.split'', S_split), (''str.ord'', S_ord),
      (''str.chr'', S_chr), (''str.expand'', S_expand), (''str.in'', S_in),
      (''rtrim'', S_rtrim), (''ltrim'', S_ltrim)]"

definition b6b_math_table :: "ext_obj list" where
  "b6b_math_table = map (\<lambda>(s, f). ext_proc s (F_math f))
     [(''+'', M_add), (''-'', M_sub), (''*'', M_mul), (''/'', M_div), (''%'', M_mod),
      (''&'', M_and), (''|'', M_or), (''^'', M_xor), (''<'', M_lt), (''<='', M_le),
      (''>'', M_gt), (''>='', M_ge)]"

definition b6b_rand_table :: "ext_obj list" where
  "b6b_rand_table = map (\<lambda>(s, f). ext_proc s (F_rand f))
     [(''choice'', R_choice), (''randint'', R_randint)]"

definition b6b_exts :: "ext_obj list" where
  "b6b_exts = [ext_proc ''try'' F_try] @ b6b_rand_table @ b6b_math_table @ b6b_core_table
     @ b6b_logic_table @ b6b_dict_table @ [ext_proc ''proc'' F_proc_new] @ b6b_str_table
     @ b6b_list_table @ b6b_loop_table"

text \<open>\<^verbatim>\<open>b6b_interp_new_ext_obj\<close>.\<close>

definition b6b_interp_new_ext_obj :: "ext_obj \<Rightarrow> interp \<Rightarrow> (bool \<times> interp) option" where
  "b6b_interp_new_ext_obj eo I = (case eo of (name, val, prc) \<Rightarrow>
     (case new_heap (b6b_str_copy name) I of (k, I) \<Rightarrow>
      (case new_heap (case val of Ext_str s \<Rightarrow> b6b_str_copy s | Ext_int i \<Rightarrow> b6b_int_new i) I of (v, I) \<Rightarrow> do {
        I \<leftarrow> (case prc of None \<Rightarrow> Some I
               | Some f \<Rightarrow> upd_heap (hupd v (\<lambda>ob. ob\<lparr>ob_proc := f\<rparr>)) I);
        (ok, I) \<leftarrow> b6b_global k v I;
        if \<not> ok then do {
          I \<leftarrow> upd_heap (b6b_destroy v) I;
          I \<leftarrow> upd_heap (b6b_destroy k) I;
          Some (False, I)
        }
        else do {
          I \<leftarrow> upd_heap (b6b_unref v) I;
          I \<leftarrow> upd_heap (b6b_unref k) I;
          Some (True, I)
        }
      })))"

fun new_ext_objs :: "ext_obj list \<Rightarrow> interp \<Rightarrow> (bool \<times> interp) option" where
  "new_ext_objs [] I = Some (True, I)"
| "new_ext_objs (eo # eos) I = do {
     (ok, I) \<leftarrow> b6b_interp_new_ext_obj eo I;
     if ok then new_ext_objs eos I else Some (False, I)
   }"

section \<open>Creating an interpreter\<close>

text \<open>
  \<^verbatim>\<open>b6b_interp_new\<close> up to the main thread.  The record holds a thread from the start, where
  the code has the null pointer until \<^verbatim>\<open>b6b_thread_self\<close>; nothing reads it before.
\<close>

definition interp_start :: "addr \<Rightarrow> u8 \<Rightarrow> u32 \<Rightarrow> heap \<Rightarrow> (bool \<times> interp) option" where
  "interp_start args opt now h = do {
     (null, h) \<leftarrow> Some (b6b_str_copy [] h);
     (zero, h) \<leftarrow> Some (b6b_int_new 0 h);
     (one, h) \<leftarrow> Some (b6b_int_new 1 h);
     (dot, h) \<leftarrow> Some (b6b_str_copy ''.'' h);
     (at, h) \<leftarrow> Some (b6b_str_copy ''@'' h);
     (us, h) \<leftarrow> Some (b6b_str_copy ''_'' h);
     (gf, h) \<leftarrow> Some (b6b_frame_new h);
     (ok, I) \<leftarrow> b6b_frame_set_args gf args
       \<lparr>hp = h, tq_before = [],
        fg = \<lparr>t_id = 0, t_curr = [], t_fn = None, t_ret = null, t_depth = 0,
              t_bg = False, t_fg = False, t_done = False, t_blocked = False\<rparr>,
        tq_after = [], global = gf, i_null = null, i_zero = zero, i_one = one, i_dot = dot,
        i_at = at, i_us = us, exiting = False, seed = now, qstep = 0,
        opts = opt AND B6B_OPT_NBF, next_tid = 1, err_out = []\<rparr>;
     if \<not> ok then Some (False, I)
     else do {
       (f, h) \<leftarrow> Some (b6b_frame_new (hp I));
       h \<leftarrow> b6b_ref null h;
       Some (True, I\<lparr>hp := h,
         fg := \<lparr>t_id = 0, t_curr = [f], t_fn = None, t_ret = null, t_depth = 1,
               t_bg = False, t_fg = True, t_done = False, t_blocked = False\<rparr>\<rparr>)
     }
   }"

text \<open>The end of \<^verbatim>\<open>b6b_interp_destroy\<close>.\<close>

definition interp_free :: "interp \<Rightarrow> heap \<Rightarrow> heap option" where
  "interp_free I h = do {
     h \<leftarrow> b6b_frame_destroy (global I) h;
     h \<leftarrow> b6b_unref (i_us I) h;
     h \<leftarrow> b6b_unref (i_at I) h;
     h \<leftarrow> b6b_unref (i_dot I) h;
     h \<leftarrow> b6b_unref (i_one I) h;
     h \<leftarrow> b6b_unref (i_zero I) h;
     b6b_unref (i_null I) h
   }"

text \<open>\<^verbatim>\<open>b6b_join\<close>: yield until no other thread can run, then free the first one.\<close>

fun yield_all :: "nat \<Rightarrow> interp \<Rightarrow> unit res" where
  "yield_all 0 I = No_fuel"
| "yield_all (Suc n) I = rbind (b6b_yield I) (\<lambda>more I. if more then yield_all n I else Ret () I)"

definition b6b_interp_destroy :: "nat \<Rightarrow> interp \<Rightarrow> heap res" where
  "b6b_interp_destroy n I =
     rbind (yield_all n (I\<lparr>exiting := True\<rparr>)) (\<lambda>_ I.
       lift_read I (do {
         h \<leftarrow> b6b_thread_destroy (hd (threads I)) (hp I);
         interp_free I h
       }))"

text \<open>\<^verbatim>\<open>b6b_co_init\<close>, the init function of src/b6b_co.c, runs this text.\<close>

definition NL :: string where "NL = [CHR 0x0A]"

definition B6B_CO_BODY :: string where
  "B6B_CO_BODY =
     ''{$global _fco 1}'' @ NL @
     ''{$global _cos {}}'' @ NL @
     ''{$proc co {'' @
       ''{$list.append $_cos $1}'' @ NL @
       ''{$if $_fco {'' @
         ''{$spawn {'' @
           ''{$loop {'' @
             ''{$if $_cos {'' @
               ''{$try {'' @
                 ''{$call [$list.pop $_cos 0]}'' @
               ''}}'' @
             ''} {'' @
               ''{$global _fco 1}'' @ NL @
               ''{$return}'' @
             ''}}'' @
           ''}}'' @
         ''}}'' @ NL @
         ''{$global _fco 0}'' @
       ''}}'' @
     ''}}''"

fun run_inits :: "(addr \<Rightarrow> interp \<Rightarrow> b6b_res res) \<Rightarrow> nat \<Rightarrow> string list \<Rightarrow> interp \<Rightarrow> bool res" where
  "run_inits sc n [] I = Ret True I"
| "run_inits sc n (s # ss) I =
     rbind (b6b_call_copy sc n s I) (\<lambda>res I.
       if res = B6B_OK then run_inits sc n ss I else Ret False I)"

text \<open>
  \<^verbatim>\<open>b6b_interp_new\<close> after \<open>interp_start\<close>; \<open>exts\<close> and \<open>inits\<close> are the tables and the init texts linked in.
\<close>

definition b6b_interp_new :: "env \<Rightarrow> nat \<Rightarrow> ext_obj list \<Rightarrow> string list \<Rightarrow> u8 \<Rightarrow> interp \<Rightarrow> bool res" where
  "b6b_interp_new E n exts inits opt I =
     rbind (lift (new_ext_objs exts I)) (\<lambda>ok I.
       if \<not> ok then Ret False I
       else rbind (run_inits (stmt_call E n) n inits I) (\<lambda>ok I.
         if \<not> ok then Ret False I else Ret True (I\<lparr>opts := opt\<rparr>)))"

section \<open>Threads\<close>

definition b6b_thread_routine :: "env \<Rightarrow> nat \<Rightarrow> interp \<Rightarrow> b6b_res res" where
  "b6b_thread_routine E n I =
     (case t_fn (fg I) of
        None \<Rightarrow> Undef
      | Some fn \<Rightarrow>
          rbind (b6b_call (stmt_call E n) n fn I) (\<lambda>_ I.
            rbind (b6b_yield (I\<lparr>fg := (fg I)\<lparr>t_done := True\<rparr>\<rparr>)) (\<lambda>_ I. Undef)))"

text \<open>
  The threads that have been switched away from, and the one that runs, \<open>cur\<close>.  A thread that
  never ran starts its routine.
\<close>

fun schedule :: "nat \<Rightarrow> (interp \<Rightarrow> 'a res) \<Rightarrow> (nat \<rightharpoonup> (interp \<Rightarrow> 'a res)) \<Rightarrow> nat \<Rightarrow> 'a res \<Rightarrow> 'a res" where
  "schedule m start ks cur (Ret x I) = Ret x I"
| "schedule m start ks cur Undef = Undef"
| "schedule m start ks cur No_fuel = No_fuel"
| "schedule 0 start ks cur (Swap I k) = No_fuel"
| "schedule (Suc m) start ks cur (Swap I k) =
     (let t = t_id (fg I); ks = ks(cur \<mapsto> k) in
      schedule m start ks t (case ks t of None \<Rightarrow> start I | Some k \<Rightarrow> k I))"

section \<open>The main program\<close>

text \<open>The exit status \<^verbatim>\<open>main\<close> derives from the result, EXIT_SUCCESS being 0 and EXIT_FAILURE 1.\<close>

definition exit_status :: "b6b_res \<Rightarrow> interp \<Rightarrow> (int \<times> interp) option" where
  "exit_status res I =
     (if res = B6B_OK then Some (0, I)
      else if res = B6B_EXIT then do {
        nul \<leftarrow> b6b_obj_isnull (t_ret (fg I)) (hp I);
        if nul then Some (0, I)
        else do {
          (ok, I) \<leftarrow> on_heap (b6b_as_int (t_ret (fg I))) I;
          if \<not> ok then Some (1, I)
          else do {
            i \<leftarrow> int_at (t_ret (fg I)) I;
            Some (if INT_MIN \<le> sint i \<and> sint i \<le> INT_MAX then sint i else 1, I)
          }
        }
      }
      else Some (1, I))"

definition empty_heap :: heap where
  "empty_heap = \<lparr>cells = [], next_li = 0\<rparr>"

text \<open>\<^verbatim>\<open>b6b_interp_new_argv\<close>: the arguments as a list of strings.\<close>

definition argv_list :: "string list \<Rightarrow> heap \<Rightarrow> (addr \<times> heap) option" where
  "argv_list argv h = (case b6b_list_new h of (l, h) \<Rightarrow> map_option (Pair l) (list_add_strs l argv h))"

text \<open>
  How a process ends: the exit status and the heap after \<^verbatim>\<open>b6b_interp_destroy\<close>, or the heap
  after an interpreter that could not be set up and its arguments have been destroyed.
\<close>

datatype outcome = Exit_with int heap | Start_failed heap

text \<open>
  \<^verbatim>\<open>main\<close> after the options, with what it runs: the interpreter is made and destroyed around it, and its
  result gives the exit status.
\<close>

definition run_to_exit :: "nat \<Rightarrow> b6b_res res \<Rightarrow> outcome res" where
  "run_to_exit n m =
     rbind m (\<lambda>res I.
     rbind (lift (exit_status res I)) (\<lambda>status I.
     rbind (b6b_interp_destroy n I) (\<lambda>h I. Ret (Exit_with status h) I)))"

definition with_interp :: "env \<Rightarrow> nat \<Rightarrow> ext_obj list \<Rightarrow> string list \<Rightarrow> u8 \<Rightarrow> u32 \<Rightarrow> string list
    \<Rightarrow> (interp \<Rightarrow> outcome res) \<Rightarrow> outcome res" where
  "with_interp E n exts inits opt now argv run =
     (case argv_list argv empty_heap of
        None \<Rightarrow> Undef
      | Some (args, h) \<Rightarrow>
          rbind (lift (interp_start args opt now h)) (\<lambda>ok I.
            if \<not> ok then
              rbind (lift_read I (Option.bind (interp_free I (hp I)) (b6b_destroy args))) (\<lambda>h I. Ret (Start_failed h) I)
            else rbind (b6b_interp_new E n exts inits opt I) (\<lambda>ok I.
              if \<not> ok then
                rbind (b6b_interp_destroy n I) (\<lambda>h I.
                rbind (lift_read I (b6b_destroy args h)) (\<lambda>h I. Ret (Start_failed h) I))
              else
                rbind (lift_upd (upd_heap (b6b_unref args) I)) (\<lambda>_ I. run I))))"

text \<open>A script: the first argument is its text with the option \<^verbatim>\<open>-c\<close>, and its path without.\<close>

definition run_script :: "env \<Rightarrow> nat \<Rightarrow> string \<Rightarrow> interp \<Rightarrow> outcome res" where
  "run_script E n script I =
     run_to_exit n (if has_opt B6B_OPT_CMD I then b6b_call_copy (stmt_call E n) n script I
       else b6b_source E (stmt_call E n) n script I)"

text \<open>Without a script the prompt is run, which is itself a script.\<close>

definition B6B_SHELL :: string where
  "B6B_SHELL =
     ''{$global chld [$b6b $@]}'' @ NL @
     ''{$loop {'' @
       ''{$local stmt [$linenoise.read {>>> }]}'' @ NL @
       ''{$if [$str.len $stmt] {'' @
         ''{$try {'' @
           ''{$stdout writeln [$repr [$chld call [$list.new $stmt]]]}'' @
         ''} {'' @
           ''{$local err $_}'' @ NL @
           ''{$stdout write {Error: }}'' @ NL @
           ''{$stdout writeln [$repr $err]}'' @
         ''} {'' @
           ''{$try {'' @
             ''{$linenoise.add $stmt}'' @
           ''}}'' @
         ''}}'' @
       ''}}'' @
     ''}}''"

definition run_shell :: "env \<Rightarrow> nat \<Rightarrow> interp \<Rightarrow> outcome res" where
  "run_shell E n I = run_to_exit n (b6b_call_copy (stmt_call E n) n B6B_SHELL I)"

text \<open>\<^verbatim>\<open>main\<close> after the options: \<open>argv\<close> is what the process was given, \<open>rest\<close> what the options left of it.\<close>

definition b6b_main :: "env \<Rightarrow> nat \<Rightarrow> ext_obj list \<Rightarrow> string list \<Rightarrow> u8 \<Rightarrow> u32 \<Rightarrow> string list \<Rightarrow> string list \<Rightarrow> outcome res" where
  "b6b_main E n exts inits opt now argv rest =
     (if rest \<noteq> [] then with_interp E n exts inits opt now rest (run_script E n (hd rest))
      else with_interp E n exts inits opt now argv (run_shell E n))"

text \<open>
  The options.  \<^verbatim>\<open>getopt\<close> takes letters from the words that start with a dash, up to \<^verbatim>\<open>--\<close>; it stops
  at the first other word, unless it moves such words to the end (\<open>permute\<close>), as that of glibc does.  The
  result is \<open>None\<close> for a letter that is no option.
\<close>

fun add_opts :: "string \<Rightarrow> u8 \<Rightarrow> u8 option" where
  "add_opts [] opt = Some opt"
| "add_opts (c # cs) opt =
     (if c = CHR ''c'' then add_opts cs (opt OR B6B_OPT_CMD)
      else if c = CHR ''e'' then add_opts cs (opt OR B6B_OPT_RAISE)
      else if c = CHR ''u'' then add_opts cs (opt OR B6B_OPT_NBF)
      else if c = CHR ''x'' then add_opts cs (opt OR B6B_OPT_TRACE)
      else None)"

fun read_opts :: "bool \<Rightarrow> string list \<Rightarrow> string list \<Rightarrow> u8 \<Rightarrow> (u8 \<times> string list) option" where
  "read_opts permute [] skipped opt = Some (opt, skipped)"
| "read_opts permute (a # as) skipped opt =
     (if a = ''--'' then Some (opt, skipped @ as)
      else if length a \<ge> 2 \<and> hd a = CHR ''-'' then
        (case add_opts (tl a) opt of
           None \<Rightarrow> None
         | Some opt \<Rightarrow> read_opts permute as skipped opt)
      else if permute then read_opts permute as (skipped @ [a]) opt
      else Some (opt, skipped @ a # as))"

text \<open>The program with its threads; \<open>None\<close> is the exit with EXIT_FAILURE that follows a letter that is no option.\<close>

definition b6b_program :: "env \<Rightarrow> nat \<Rightarrow> ext_obj list \<Rightarrow> string list \<Rightarrow> bool \<Rightarrow> u32 \<Rightarrow> string list \<Rightarrow> outcome res option" where
  "b6b_program E n exts inits permute now argv =
     (case read_opts permute (tl argv) [] 0 of
        None \<Rightarrow> None
      | Some (opt, rest) \<Rightarrow>
          Some (schedule n (\<lambda>I. rbind (b6b_thread_routine E n I) (\<lambda>_ _. Undef)) Map.empty 0
            (b6b_main E n exts inits opt now argv rest)))"

end
