(* ===== verification/Str_Lemmas.thy ===== *)
theory Str_Lemmas
  imports Procs_Core
begin

text \<open>
  What the string procedures compute: splitting against joining, escapes against a reference
  function by pattern matching, trimming, and quoting against the parser of lists.
\<close>

section \<open>Splitting\<close>

fun join_text :: "string \<Rightarrow> string list \<Rightarrow> string" where
  "join_text d [] = []"
| "join_text d (s # ss) = s @ concat (map ((@) d) ss)"

text \<open>The text \<^verbatim>\<open>str.join\<close> builds, when all items are strings already.\<close>

lemma join_loop_strs:
  assumes "\<And>a. a \<in> set as \<Longrightarrow> \<exists>ob. hget a h = Some ob \<and> ob_s ob \<noteq> None"
  shows "join_loop d as acc h =
    Some (Some (acc @ concat (map (\<lambda>a. d @ the (Option.bind (hget a h) ob_s)) as)), h)"
  using assms
proof (induction as arbitrary: acc)
  case Nil
  then show ?case by simp
next
  case (Cons a as)
  obtain ob s where "hget a h = Some ob" "ob_s ob = Some s" using Cons.prems [of a] by auto
  then show ?case using Cons by (simp add: b6b_as_str_def)
qed

lemma occurs_iff: "occurs sub s \<longleftrightarrow> (\<exists>i \<le> length s. take (length sub) (drop i s) = sub)"
proof (induction s)
  case Nil
  then show ?case by auto
next
  case (Cons c s)
  show ?case
  proof
    assume "occurs sub (c # s)"
    then consider "take (length sub) (c # s) = sub" | "occurs sub s" by auto
    then show "\<exists>i \<le> length (c # s). take (length sub) (drop i (c # s)) = sub"
    proof cases
      case 1
      then show ?thesis by (intro exI [of _ 0]) simp
    next
      case 2
      with Cons obtain i where "i \<le> length s" "take (length sub) (drop i s) = sub" by auto
      then show ?thesis by (intro exI [of _ "Suc i"]) simp
    qed
  next
    assume "\<exists>i \<le> length (c # s). take (length sub) (drop i (c # s)) = sub"
    then obtain i where i: "i \<le> length (c # s)" "take (length sub) (drop i (c # s)) = sub" by auto
    show "occurs sub (c # s)"
    proof (cases i)
      case 0
      with i show ?thesis by simp
    next
      case (Suc k)
      with i have "k \<le> length s" "take (length sub) (drop k s) = sub" by simp_all
      with Cons show ?thesis by auto
    qed
  qed
qed

lemma take_append_NUL:
  assumes "NUL \<notin> set d" and "take (length d) (r @ [NUL]) = d"
  shows "length d \<le> length r" and "take (length d) r = d"
proof -
  show le: "length d \<le> length r"
  proof (rule ccontr)
    assume "\<not> ?thesis"
    then have "take (length d) (r @ [NUL]) = r @ [NUL]" by simp
    with assms show False by (metis in_set_conv_decomp)
  qed
  with assms(2) show "take (length d) r = d" by simp
qed

text \<open>The pieces, put together again, are the text; the delimiter lies in none of them.\<close>

lemma split_from_join:
  "split_from d tok r = Some ps \<Longrightarrow> d \<noteq> [] \<Longrightarrow> NUL \<notin> set d \<Longrightarrow>
     ps \<noteq> [] \<and> join_text d ps = tok @ r"
proof (induction d tok r arbitrary: ps rule: split_from.induct)
  case (1 d tok r)
  note split = "1.prems"(1) [unfolded split_from.simps [of d tok r]]
  show ?case
  proof (cases "r = []")
    case True
    with split "1.prems"(2) show ?thesis by auto
  next
    case False
    with split "1.prems"(2) have le: "length d \<le> length r + 1" by (auto split: if_splits)
    show ?thesis
    proof (cases "take (length d) (r @ [NUL]) = d")
      case False
      with split \<open>r \<noteq> []\<close> le "1.prems"(2) have "split_from d (tok @ [hd r]) (tl r) = Some ps"
        by (simp split: if_splits)
      from "1.IH"(2) [OF \<open>r \<noteq> []\<close> "1.prems"(2) _ False this "1.prems"(2,3)] le \<open>r \<noteq> []\<close>
      show ?thesis by simp
    next
      case True
      note m = take_append_NUL [OF "1.prems"(3) True]
      from split \<open>r \<noteq> []\<close> le True m "1.prems"(2) obtain qs where
        qs: "split_from d [] (drop (length d) r) = Some qs" "ps = tok # qs"
        by auto
      from "1.IH"(3) [OF \<open>r \<noteq> []\<close> "1.prems"(2) _ _ _ qs(1) "1.prems"(2,3)] le True m
      have IH: "qs \<noteq> []" "join_text d qs = drop (length d) r" by simp_all
      then obtain q qs' where "qs = q # qs'" by (cases qs) auto
      with IH(2) qs(2) have "join_text d ps = tok @ d @ drop (length d) r" by simp
      also have "\<dots> = tok @ r" using m(2) by (metis append_take_drop_id)
      finally show ?thesis using qs(2) by simp
    qed
  qed
qed

lemma split_from_no_delim:
  "split_from d tok r = Some ps \<Longrightarrow> d \<noteq> [] \<Longrightarrow> NUL \<notin> set d \<Longrightarrow>
   (\<And>i. i < length tok \<Longrightarrow> take (length d) (drop i (tok @ r)) \<noteq> d) \<Longrightarrow>
   p \<in> set ps \<Longrightarrow> \<not> occurs d p"
proof (induction d tok r arbitrary: ps rule: split_from.induct)
  case (1 d tok r)
  note split = "1.prems"(1) [unfolded split_from.simps [of d tok r]]
  have tok: "\<not> occurs d tok"
  proof
    assume "occurs d tok"
    then obtain i where i: "i \<le> length tok" "take (length d) (drop i tok) = d"
      by (auto simp: occurs_iff)
    then have "length d \<le> length (drop i tok)" by (metis nat_le_linear take_all)
    then have "i < length tok" and "take (length d) (drop i (tok @ r)) = d"
      using i "1.prems"(2) by (cases d; auto)+
    with "1.prems"(4) show False by blast
  qed
  show ?case
  proof (cases "r = []")
    case True
    with split "1.prems"(2,5) tok show ?thesis by auto
  next
    case False
    with split "1.prems"(2) have le: "length d \<le> length r + 1" by (auto split: if_splits)
    show ?thesis
    proof (cases "take (length d) (r @ [NUL]) = d")
      case no: False
      with split \<open>r \<noteq> []\<close> le "1.prems"(2) have sp: "split_from d (tok @ [hd r]) (tl r) = Some ps"
        by (simp split: if_splits)
      have "take (length d) (drop i ((tok @ [hd r]) @ tl r)) \<noteq> d" if "i < length (tok @ [hd r])" for i
      proof (cases "i < length tok")
        case True
        with "1.prems"(4) [of i] \<open>r \<noteq> []\<close> show ?thesis by simp
      next
        case False
        with that have "drop i ((tok @ [hd r]) @ tl r) = r" using \<open>r \<noteq> []\<close> by simp
        moreover have "take (length d) r \<noteq> d"
        proof
          assume *: "take (length d) r = d"
          then have "length d \<le> length r" by (metis nat_le_linear take_all)
          with * no show False by simp
        qed
        ultimately show ?thesis by simp
      qed
      from "1.IH"(2) [OF \<open>r \<noteq> []\<close> "1.prems"(2) _ no sp "1.prems"(2,3) this "1.prems"(5)] le
      show ?thesis by simp
    next
      case True
      note m = take_append_NUL [OF "1.prems"(3) True]
      from split \<open>r \<noteq> []\<close> le True m "1.prems"(2) obtain qs where
        qs: "split_from d [] (drop (length d) r) = Some qs" "ps = tok # qs"
        by auto
      from "1.prems"(5) qs(2) consider "p = tok" | "p \<in> set qs" by auto
      then show ?thesis
      proof cases
        case 1
        with tok show ?thesis by simp
      next
        case 2
        from "1.IH"(3) [OF \<open>r \<noteq> []\<close> "1.prems"(2) _ _ _ qs(1) "1.prems"(2,3) _ 2] le True m
        show ?thesis by simp
      qed
    qed
  qed
qed

text \<open>With one or two bytes the comparison stays inside the buffer.\<close>

lemma split_from_total:
  "d \<noteq> [] \<Longrightarrow> NUL \<notin> set d \<Longrightarrow> length d \<le> 2 \<Longrightarrow> \<exists>ps. split_from d tok r = Some ps"
proof (induction d tok r rule: split_from.induct)
  case (1 d tok r)
  show ?case
  proof (cases "r = []")
    case True
    then show ?thesis by (subst split_from.simps) simp
  next
    case False
    then have le: "length d \<le> length r + 1" using "1.prems"(3) by (cases r) auto
    show ?thesis
    proof (cases "take (length d) (r @ [NUL]) = d")
      case no: False
      from "1.IH"(2) [OF \<open>r \<noteq> []\<close> "1.prems"(1) _ no "1.prems"] le
      show ?thesis using no le \<open>r \<noteq> []\<close> "1.prems"(1) by (auto simp: split_from.simps [of d tok r])
    next
      case True
      note m = take_append_NUL [OF "1.prems"(2) True]
      from "1.IH"(3) [OF \<open>r \<noteq> []\<close> "1.prems"(1) _ _ _ "1.prems"] le True m
      show ?thesis using True m le \<open>r \<noteq> []\<close> "1.prems"(1) by (auto simp: split_from.simps [of d tok r])
    qed
  qed
qed

text \<open>With three bytes or more it does not, unless the text is empty or ends with the delimiter.\<close>

lemma split_from_ends:
  "split_from d tok r = Some ps \<Longrightarrow> length d \<ge> 3 \<Longrightarrow> NUL \<notin> set d \<Longrightarrow> r \<noteq> [] \<Longrightarrow> \<exists>u. r = u @ d"
proof (induction d tok r arbitrary: ps rule: split_from.induct)
  case (1 d tok r)
  then have d: "d \<noteq> []" by auto
  note split = "1.prems"(1) [unfolded split_from.simps [of d tok r]]
  from split d "1.prems"(4) have le: "\<not> length d > length r + 1" by (auto split: if_splits)
  show ?case
  proof (cases "take (length d) (r @ [NUL]) = d")
    case no: False
    with split d "1.prems"(4) le have sp: "split_from d (tok @ [hd r]) (tl r) = Some ps" by (simp split: if_splits)
    have "tl r \<noteq> []" using le "1.prems"(2) by (cases r) auto
    from "1.IH"(2) [OF "1.prems"(4) d le no sp "1.prems"(2,3) this] obtain u where "tl r = u @ d" by blast
    then have "r = (hd r # u) @ d" using "1.prems"(4) by (cases r) auto
    then show ?thesis by blast
  next
    case True
    note m = take_append_NUL [OF "1.prems"(3) True]
    have r: "r = d @ drop (length d) r" using m(2) by (metis append_take_drop_id)
    from split d "1.prems"(4) le True m(1) obtain qs where qs: "split_from d [] (drop (length d) r) = Some qs" by auto
    show ?thesis
    proof (cases "drop (length d) r = []")
      case True
      with r show ?thesis by (intro exI [of _ "[]"]) simp
    next
      case False
      have "\<exists>u. drop (length d) r = u @ d"
        using "1.IH"(3) [OF "1.prems"(4) d le _ _ qs "1.prems"(2,3) False] True m by simp
      then obtain u where "drop (length d) r = u @ d" by blast
      with r have "r = (d @ u) @ d" by simp
      then show ?thesis by blast
    qed
  qed
qed

section \<open>Escapes\<close>

text \<open>The escapes: the letters with the bytes they stand for, and the digits with their values.\<close>

definition escapes :: "(char \<times> nat) list" where
  "escapes = [(CHR ''0'', 0), (CHR 0x5C, 92), (CHR ''n'', 10), (CHR ''t'', 9), (CHR ''r'', 13)]"

definition digit_values :: "(char \<times> nat) list" where
  "digit_values = zip ''0123456789abcdef'' [0..<16] @ zip ''ABCDEF'' [10..<16]"

text \<open>Two digits are a number in base 16.\<close>

definition hex_byte :: "char \<Rightarrow> char \<Rightarrow> nat option" where
  "hex_byte a b =
     (case (map_of digit_values a, map_of digit_values b) of
        (Some x, Some y) \<Rightarrow> Some (16 * x + y)
      | _ \<Rightarrow> None)"

lemma escape_char_table: "escape_char e = map_option char_of (map_of escapes e)"
  
proof -
  have "list_all (\<lambda>e. escape_char e = map_option char_of (map_of escapes e)) Enum.enum" by code_simp
  then show ?thesis by (simp add: list_all_iff enum_UNIV)
qed

lemma xdigit_table: "xdigit c = map_option int (map_of digit_values c)"
proof -
  have "list_all (\<lambda>c. xdigit c = map_option int (map_of digit_values c)) Enum.enum" by code_simp
  then show ?thesis by (simp add: list_all_iff enum_UNIV)
qed

lemma hex_char_table: "hex_char a b = map_option char_of (hex_byte a b)"
proof -
  have "nat (16 * int x + int y) = 16 * x + y" for x y by simp
  then show ?thesis
    by (cases "map_of digit_values a"; cases "map_of digit_values b")
      (simp_all add: hex_char_def hex_byte_def xdigit_table)
qed

lemmas escape_tables = escape_char_table hex_char_table

text \<open>What the escapes mean, without positions.\<close>

function expand_spec :: "string \<Rightarrow> string + string" where
  "expand_spec s =
     (case s of
        [] \<Rightarrow> Inr []
      | c # r \<Rightarrow>
          if c \<noteq> CHR 0x5C then map_sum id ((#) c) (expand_spec r)
          else (case r of
              [] \<Rightarrow> Inl ''bad escape''
            | e # r' \<Rightarrow>
                if e = CHR ''x'' then
                  (case r' of
                     a # b # r'' \<Rightarrow>
                       (case hex_byte a b of
                          None \<Rightarrow> Inl ''bad hex digit''
                        | Some k \<Rightarrow> map_sum id ((#) (char_of k)) (expand_spec r''))
                   | _ \<Rightarrow> Inl ''bad hex escape'')
                else (case map_of escapes e of
                    None \<Rightarrow> Inl ''bad escape''
                  | Some k \<Rightarrow> map_sum id ((#) (char_of k)) (expand_spec r'))))"
  by pat_completeness auto
termination
  by (relation "measure length") auto

declare expand_spec.simps [simp del]

lemma expand_from_spec:
  "i + length r = Suc lst \<Longrightarrow> j \<le> i \<Longrightarrow> expand_from lst i j r = expand_spec r"
proof (induction lst i j r rule: expand_from.induct)
  case (1 lst i j r)
  show ?case
  proof (cases r)
    case Nil
    then show ?thesis by (subst expand_from.simps, subst expand_spec.simps) simp
  next
    case (Cons c r')
    show ?thesis
    proof (cases "c = CHR 0x5C")
      case False
      then show ?thesis
        by (subst expand_from.simps, subst expand_spec.simps)
          (use "1.IH"(1) [OF Cons False] "1.prems" Cons in simp)
    next
      case c: True
      show ?thesis
      proof (cases r')
        case Nil
        with Cons c show ?thesis
          unfolding expand_from.simps [of lst i j r] expand_spec.simps [of r] by (simp add: escape_tables)
      next
        case r': (Cons e r'')
        then have j: "j \<noteq> lst" using "1.prems" Cons by simp
        show ?thesis
        proof (cases "e = CHR ''x''")
          case x: True
          show ?thesis
          proof (cases "i + 3 > lst")
            case True
            then have "length r'' < 2" using "1.prems" Cons r' by simp
            with True x c j Cons r' show ?thesis
              unfolding expand_from.simps [of lst i j r] expand_spec.simps [of r] by (auto split: list.split)
          next
            case False
            then have "length r'' \<ge> 2" using "1.prems" Cons r' by simp
            then obtain a b t where t: "r'' = a # b # t" by (cases r'' rule: remdups_adj.cases) auto
            show ?thesis
            proof (cases "hex_byte a b")
              case None
              with False x c j Cons r' t show ?thesis
                unfolding expand_from.simps [of lst i j r] expand_spec.simps [of r] by (simp add: escape_tables)
            next
              case (Some d)
              have "expand_from lst (i + 4) (j + 1) t = expand_spec t"
                using "1.IH"(2) [of c r' e r'' "char_of d"] "1.prems" Some False x c j Cons r' t by (simp add: escape_tables)
              with Some False x c j Cons r' t show ?thesis
                unfolding expand_from.simps [of lst i j r] expand_spec.simps [of r] by (simp add: escape_tables)
            qed
          qed
        next
          case x: False
          show ?thesis
          proof (cases "map_of escapes e")
            case None
            with x c j Cons r' show ?thesis
              unfolding expand_from.simps [of lst i j r] expand_spec.simps [of r] by (simp add: escape_tables)
          next
            case (Some d)
            have "expand_from lst (i + 2) (j + 1) r'' = expand_spec r''"
              using "1.IH"(3) [of c r' e r'' "char_of d"] "1.prems" Some x c j Cons r' by (simp add: escape_tables)
            with Some x c j Cons r' show ?thesis
              unfolding expand_from.simps [of lst i j r] expand_spec.simps [of r] by (simp add: escape_tables)
          qed
        qed
      qed
    qed
  qed
qed

lemma map_sum_Cons: "map_sum id ((#) d) x = Inr t \<Longrightarrow> \<exists>u. x = Inr u \<and> t = d # u"
  by (cases x) auto

lemma expand_spec_length: "expand_spec s = Inr t \<Longrightarrow> length t \<le> length s"
proof (induction s arbitrary: t rule: expand_spec.induct)
  case (1 s)
  note run = "1.prems" [unfolded expand_spec.simps [of s]]
  show ?case
  proof (cases s)
    case Nil
    with run show ?thesis by simp
  next
    case s: (Cons c r)
    show ?thesis
    proof (cases "c = CHR 0x5C")
      case False
      with run s obtain u where "expand_spec r = Inr u" "t = c # u" by (auto dest: map_sum_Cons)
      with "1.IH"(1) [OF s False] s show ?thesis by simp
    next
      case c: True
      with run s obtain e r' where r: "r = e # r'" by (cases r) auto
      show ?thesis
      proof (cases "e = CHR ''x''")
        case x: True
        with run s c r obtain a b r'' d where r': "r' = a # b # r''" "hex_byte a b = Some d"
          and "map_sum id ((#) (char_of d)) (expand_spec r'') = Inr t"
          by (auto split: list.splits option.splits)
        then obtain u where "expand_spec r'' = Inr u" "t = char_of d # u" by (auto dest: map_sum_Cons)
        with "1.IH"(2) [of c r e r' a "b # r''" b r'' d] s c r x r' show ?thesis by simp
      next
        case x: False
        with run s c r obtain d where d: "map_of escapes e = Some d"
          and "map_sum id ((#) (char_of d)) (expand_spec r') = Inr t"
          by (auto split: option.splits)
        then obtain u where "expand_spec r' = Inr u" "t = char_of d # u" by (auto dest: map_sum_Cons)
        with "1.IH"(3) [of c r e r' d] s c r x d show ?thesis by simp
      qed
    qed
  qed
qed

section \<open>Properties of the string procedures\<close>

text \<open>
  C32. Whenever \<^verbatim>\<open>str.split\<close> with a non-empty delimiter without NUL is defined, the pieces joined by the
  delimiter are the text again, and no piece contains the delimiter.  With a delimiter of one or two
  bytes it is always defined (with longer ones it may read behind the text, see below).
\<close>

theorem str_split_ok:
  assumes "d \<noteq> []" and "NUL \<notin> set d"
  shows "(length d \<le> 2 \<longrightarrow> str_split s d \<noteq> None)
    \<and> (\<forall>ps. str_split s d = Some ps \<longrightarrow> ps \<noteq> [] \<and> join_text d ps = s \<and> filter (occurs d) ps = [])"
proof (intro conjI impI allI)
  assume "length d \<le> 2"
  from split_from_total [OF assms this] show "str_split s d \<noteq> None" by (auto simp: str_split_def)
next
  fix ps assume "str_split s d = Some ps"
  then have ps: "split_from d [] s = Some ps" by (simp add: str_split_def)
  from split_from_join [OF ps assms] show "ps \<noteq> []" "join_text d ps = s" by simp_all
  show "filter (occurs d) ps = []"
    using split_from_no_delim [OF ps assms] by (simp add: filter_empty_conv)
qed

theorem str_split_ok_witness:
  "(\<exists>ps. str_split ''a,b,,c'' '','' = Some ps \<and> join_text '','' ps = ''a,b,,c'' \<and> filter (occurs '','') ps = [])
    \<and> (\<exists>ps. str_split ''abcdabc'' ''abc'' = Some ps \<and> join_text ''abc'' ps = ''abcdabc'')"
proof
  have "str_split ''a,b,,c'' '','' \<noteq> None" using str_split_ok [of "'',''"] by (simp add: NUL_def)
  with str_split_ok [of "'',''" "''a,b,,c''"]
  show "\<exists>ps. str_split ''a,b,,c'' '','' = Some ps \<and> join_text '','' ps = ''a,b,,c'' \<and> filter (occurs '','') ps = []"
    by (auto simp: NUL_def)
  have "str_split ''abcdabc'' ''abc'' \<noteq> None" by code_simp
  with str_split_ok [of "''abc''" "''abcdabc''"]
  show "\<exists>ps. str_split ''abcdabc'' ''abc'' = Some ps \<and> join_text ''abc'' ps = ''abcdabc''"
    by (auto simp: NUL_def)
qed

text \<open>
  C33. With a delimiter of three bytes or more, none of them NUL, and a non-empty text that does not end
  with it, the comparison reads behind the terminating NUL of the text, wherever else the delimiter occurs.
\<close>

theorem str_split_overread:
  assumes "length d \<ge> 3" and "NUL \<notin> set d" and "s \<noteq> []" and "drop (length s - length d) s \<noteq> d"
  shows "str_split s d = None"
proof (rule ccontr)
  assume "\<not> ?thesis"
  then obtain ps where "split_from d [] s = Some ps" by (auto simp: str_split_def)
  from split_from_ends [OF this assms(1-3)] assms(4) show False by auto
qed

theorem str_split_overread_witness: "str_split ''a, ,bcd'' '', ,'' = None"
  by (rule str_split_overread) (simp_all add: NUL_def)

text \<open>
  C34. \<^verbatim>\<open>str.expand\<close>, which works with positions in two buffers, replaces each escape by the byte it
  stands for in the tables of letters and of digits in base 16, with the right message for each
  malformed one, and writes no more bytes than it has allocated.
\<close>

theorem str_expand_ok:
  "str_expand s = expand_spec s
     \<and> (case str_expand s of Inl _ \<Rightarrow> True | Inr t \<Rightarrow> length t + 1 \<le> length s + 1)"
proof -
  have eq: "str_expand s = expand_spec s"
  proof (cases s)
    case Nil
    then show ?thesis by (simp add: str_expand_def expand_from.simps expand_spec.simps)
  next
    case (Cons c r)
    then show ?thesis unfolding str_expand_def by (intro expand_from_spec) simp_all
  qed
  then show ?thesis using expand_spec_length [of s] by (simp split: sum.split)
qed




end
