(* ===== verification/Double_Lemmas.thy ===== *)
theory Double_Lemmas
  imports Conv
begin

text \<open>
  Integers below \<open>2 ^ 53\<close> are exact: sums, differences and products of the doubles that stand
  for them are the doubles of the integer results, they convert back to the same integers and
  print as them.
\<close>

section \<open>Lengths and rounding\<close>

lemma bitlen_pos: "0 < n \<Longrightarrow> bitlen n = 1 + bitlen (n div 2)"
  by (simp add: bitlen.simps [of n])

lemma bitlen_0 [simp]: "bitlen 0 = 0"
  by (simp add: bitlen.simps)

lemma bitlen_1 [simp]: "bitlen 1 = 1"
  by (simp add: bitlen_pos)

lemma bitlen_nonneg: "0 \<le> bitlen n"
  by (induction n rule: bitlen.induct) (subst bitlen.simps, simp)

lemma bitlen_ge_1: "0 < n \<Longrightarrow> 1 \<le> bitlen n"
  using bitlen_nonneg [of "n div 2"] by (simp add: bitlen_pos)

lemma bitlen_bounds: "0 < n \<Longrightarrow> 2 ^ nat (bitlen n - 1) \<le> n \<and> n < 2 ^ nat (bitlen n)"
proof (induction n rule: bitlen.induct)
  case (1 n)
  show ?case
  proof (cases "n = 1")
    case True
    then show ?thesis by simp
  next
    case False
    then have h: "0 < n div 2" using "1.prems" by simp
    have IH: "2 ^ nat (bitlen (n div 2) - 1) \<le> n div 2" "n div 2 < 2 ^ nat (bitlen (n div 2))"
      using "1.IH" h "1.prems" by simp_all
    have ge: "1 \<le> bitlen (n div 2)" by (rule bitlen_ge_1 [OF h])
    have e: "nat (bitlen n) = Suc (nat (bitlen (n div 2)))"
      "nat (bitlen n - 1) = Suc (nat (bitlen (n div 2) - 1))"
      using bitlen_pos [OF "1.prems"] ge by simp_all
    show ?thesis unfolding e using IH by auto
  qed
qed

lemma bitlen_double: "0 < n \<Longrightarrow> bitlen (2 * n) = 1 + bitlen n"
  by (subst bitlen_pos) simp_all

lemma bitlen_pow: "0 < n \<Longrightarrow> bitlen (n * 2 ^ j) = bitlen n + int j"
proof (induction j)
  case 0
  then show ?case by simp
next
  case (Suc j)
  have "bitlen (n * 2 ^ Suc j) = bitlen (2 * (n * 2 ^ j))" by (simp add: mult.left_commute)
  also have "\<dots> = 1 + bitlen (n * 2 ^ j)" using Suc.prems by (intro bitlen_double) simp
  finally show ?case using Suc by simp
qed

lemma bitlen_le: "0 < n \<Longrightarrow> n < 2 ^ k \<Longrightarrow> bitlen n \<le> int k"
proof (rule ccontr)
  assume n: "0 < n" "n < 2 ^ k" and "\<not> bitlen n \<le> int k"
  then have "k \<le> nat (bitlen n - 1)" by simp
  then have "(2::int) ^ k \<le> 2 ^ nat (bitlen n - 1)" by (intro power_increasing) simp_all
  with bitlen_bounds [OF n(1)] n(2) show False by simp
qed

lemma rne_exact: "0 < d \<Longrightarrow> rne (q * d) d = q"
  by (simp add: rne_def Let_def)

lemma rne_1 [simp]: "rne q 1 = q"
  by (simp add: rne_def Let_def)

lemma scale_exact:
  assumes "0 \<le> t + int j"
  shows "scale (n * 2 ^ j) 1 t = (n1, d1) \<Longrightarrow> 0 < d1 \<and> n1 = n * 2 ^ nat (t + int j) * d1"
proof (cases "0 \<le> t")
  case True
  assume "scale (n * 2 ^ j) 1 t = (n1, d1)"
  with True show ?thesis by (auto simp: scale_def nat_add_distrib power_add)
next
  case False
  assume sc: "scale (n * 2 ^ j) 1 t = (n1, d1)"
  have "j = nat (t + int j) + nat (- t)" using False assms by linarith
  then have "(2::int) ^ j = 2 ^ nat (t + int j) * 2 ^ nat (- t)" by (metis power_add)
  with False sc show ?thesis by (auto simp: scale_def)
qed

text \<open>The double of \<open>n * 2 ^ j * 2 ^ (- j)\<close>, whatever \<open>j\<close> is.\<close>

definition exact_dbl :: "bool \<Rightarrow> int \<Rightarrow> dbl" where
  "exact_dbl s n = (if n = 0 then DFin s 0 (-1074)
     else DFin s (n * 2 ^ nat (53 - bitlen n)) (bitlen n - 53))"

lemma dround_exact:
  assumes "0 \<le> n" and "n < 2 ^ 53"
  shows "dround s (n * 2 ^ j) 1 (- int j) = exact_dbl s n"
proof (cases "n = 0")
  case True
  then show ?thesis by (simp add: dround_def exact_dbl_def)
next
  case False
  then have pos: "0 < n" using assms(1) by simp
  define L where "L = bitlen n"
  have L: "1 \<le> L" "L \<le> 53"
    using bitlen_ge_1 [OF pos] bitlen_le [OF pos, of 53] assms(2) by (simp_all add: L_def)
  have bl: "bitlen (n * 2 ^ j) = L + int j" using bitlen_pow [OF pos] by (simp add: L_def)
  have lo: "2 ^ nat (L - 1) \<le> n" and hi: "n < 2 ^ nat L"
    using bitlen_bounds [OF pos] by (simp_all add: L_def)
  obtain n0 d0 where sc0: "scale (n * 2 ^ j) 1 (- int j - (L - 54)) = (n0, d0)" by fastforce
  have s0: "0 < d0" "n0 = n * 2 ^ nat (54 - L) * d0"
    using scale_exact [OF _ sc0] L by simp_all
  then have div0: "n0 div d0 = n * 2 ^ nat (54 - L)" by simp
  have "(2::int) ^ 53 = 2 ^ (nat (L - 1) + nat (54 - L))" using L by (simp flip: nat_add_distrib)
  also have "\<dots> \<le> n * 2 ^ nat (54 - L)" unfolding power_add using lo by (intro mult_right_mono) simp_all
  finally have ge: "2 ^ 53 \<le> n0 div d0" using div0 by simp
  obtain n1 d1 where sc1: "scale (n * 2 ^ j) 1 (- int j - (L - 53)) = (n1, d1)" by fastforce
  have s1: "0 < d1" "n1 = n * 2 ^ nat (53 - L) * d1"
    using scale_exact [OF _ sc1] L by simp_all
  have q: "rne n1 d1 = n * 2 ^ nat (53 - L)" unfolding s1(2) by (rule rne_exact [OF s1(1)])
  have "n * 2 ^ nat (53 - L) < 2 ^ nat L * 2 ^ nat (53 - L)" using hi by (intro mult_strict_right_mono) simp_all
  also have "\<dots> = (2::int) ^ 53" using L by (simp flip: power_add nat_add_distrib)
  finally have lt: "n * 2 ^ nat (53 - L) < 2 ^ 53" .
  have e0: "max (- 1074) (bitlen (n * 2 ^ j) - bitlen 1 + - int j - 53) = L - 54" using L bl by simp
  have "n * 2 ^ j \<noteq> 0" using pos by simp
  then have "dround s (n * 2 ^ j) 1 (- int j) = DFin s (n * 2 ^ nat (53 - L)) (L - 53)"
    unfolding dround_def Let_def e0 sc0
    using ge sc1 q lt L by simp
  then show ?thesis using False by (simp add: exact_dbl_def L_def)
qed

section \<open>Arithmetic on exact integers\<close>

definition exact_int :: "int \<Rightarrow> bool" where
  "exact_int i \<longleftrightarrow> \<bar>i\<bar> < 2 ^ 53"

lemma dof_int_exact: "exact_int i \<Longrightarrow> dof_int i = exact_dbl (i < 0) \<bar>i\<bar>"
  using dround_exact [of "\<bar>i\<bar>" "i < 0" 0] by (simp add: dof_int_def exact_int_def)

text \<open>The parts of an exact double, at any scale below its exponent.\<close>

lemma dof_int_parts:
  assumes "exact_int i"
  obtains m e where "dof_int i = DFin (i < 0) m e" and "e \<le> 0" and "0 \<le> m"
    and "\<And>g. g \<le> e \<Longrightarrow> signed_of (i < 0) m * 2 ^ nat (e - g) = i * 2 ^ nat (- g)"
    and "m = 0 \<longleftrightarrow> i = 0"
proof (cases "i = 0")
  case True
  then show ?thesis using that [of 0 "-1074"] dof_int_exact [OF assms]
    by (simp add: exact_dbl_def signed_of_def)
next
  case False
  define L where "L = bitlen \<bar>i\<bar>"
  have L: "1 \<le> L" "L \<le> 53"
    using False assms bitlen_ge_1 [of "\<bar>i\<bar>"] bitlen_le [of "\<bar>i\<bar>" 53] by (simp_all add: L_def exact_int_def)
  have d: "dof_int i = DFin (i < 0) (\<bar>i\<bar> * 2 ^ nat (53 - L)) (L - 53)"
    using dof_int_exact [OF assms] False by (simp add: exact_dbl_def L_def)
  show ?thesis
  proof (rule that [OF d])
    fix g assume g: "g \<le> L - 53"
    have "nat (53 - L) + nat (L - 53 - g) = nat (- g)" using L g by linarith
    then have "(2::int) ^ nat (53 - L) * 2 ^ nat (L - 53 - g) = 2 ^ nat (- g)" by (metis power_add)
    then show "signed_of (i < 0) (\<bar>i\<bar> * 2 ^ nat (53 - L)) * 2 ^ nat (L - 53 - g) = i * 2 ^ nat (- g)"
      by (simp add: signed_of_def)
  qed (use L False in simp_all)
qed

lemma dround_scaled:
  assumes "exact_int i" and "i \<noteq> 0" and "g \<le> 0"
  shows "dround (i * 2 ^ nat (- g) < 0) \<bar>i * 2 ^ nat (- g)\<bar> 1 g = dof_int i"
  using dround_exact [of "\<bar>i\<bar>" "i < 0" "nat (- g)"] assms dof_int_exact [OF assms(1)]
  by (simp add: exact_int_def abs_mult mult_less_0_iff)

lemma dadd_exact:
  assumes a: "exact_int a" and b: "exact_int b" and ab: "exact_int (a + b)"
  shows "dadd (dof_int a) (dof_int b) = dof_int (a + b)"
proof -
  obtain m e where m: "dof_int a = DFin (a < 0) m e" "e \<le> 0"
    "\<And>g. g \<le> e \<Longrightarrow> signed_of (a < 0) m * 2 ^ nat (e - g) = a * 2 ^ nat (- g)"
    using dof_int_parts [OF a] by metis
  obtain n f where n: "dof_int b = DFin (b < 0) n f" "f \<le> 0"
    "\<And>g. g \<le> f \<Longrightarrow> signed_of (b < 0) n * 2 ^ nat (f - g) = b * 2 ^ nat (- g)"
    using dof_int_parts [OF b] by metis
  define g where "g = min e f"
  have v: "signed_of (a < 0) m * 2 ^ nat (e - g) + signed_of (b < 0) n * 2 ^ nat (f - g)
      = (a + b) * 2 ^ nat (- g)"
    using m(3) [of g] n(3) [of g] by (simp add: g_def distrib_right)
  have g: "g \<le> 0" using m(2) by (simp add: g_def)
  show ?thesis
  proof (cases "a + b = 0")
    case True
    then have "\<not> (a < 0 \<and> b < 0)" by simp
    with True show ?thesis using v m(1) n(1)
      by (auto simp: g_def Let_def dof_int_def dround_def)
  next
    case False
    then show ?thesis
      using dround_scaled [OF ab False g] v m(1) n(1) by (simp add: g_def Let_def)
  qed
qed

lemma dneg_exact: "exact_int b \<Longrightarrow> b \<noteq> 0 \<Longrightarrow> dneg (dof_int b) = dof_int (- b)"
  using dof_int_exact [of b] dof_int_exact [of "- b"]
  by (auto simp: exact_int_def exact_dbl_def)

lemma dadd_neg_zero: "exact_int a \<Longrightarrow> dadd (dof_int a) (DFin True 0 (- 1074)) = dof_int a"
proof -
  assume a: "exact_int a"
  obtain m e where m: "dof_int a = DFin (a < 0) m e" "e \<le> 0"
    "\<And>g. g \<le> e \<Longrightarrow> signed_of (a < 0) m * 2 ^ nat (e - g) = a * 2 ^ nat (- g)" "m = 0 \<longleftrightarrow> a = 0"
    using dof_int_parts [OF a] by metis
  define g where "g = min e (- 1074)"
  have v: "signed_of (a < 0) m * 2 ^ nat (e - g) = a * 2 ^ nat (- g)" and g: "g \<le> 0"
    using m(3) [of g] by (simp_all add: g_def)
  show ?thesis
  proof (cases "a = 0")
    case True
    then show ?thesis using v m(1) by (auto simp: g_def Let_def signed_of_def dof_int_def dround_def)
  next
    case False
    have "dadd (dof_int a) (DFin True 0 (- 1074)) = dround (a * 2 ^ nat (- g) < 0) \<bar>a * 2 ^ nat (- g)\<bar> 1 g"
      using False v m(1,4) by (simp add: g_def Let_def signed_of_def)
    then show ?thesis using dround_scaled [OF a False g] by simp
  qed
qed

lemma dsub_exact:
  assumes "exact_int a" and "exact_int b" and "exact_int (a - b)"
  shows "dsub (dof_int a) (dof_int b) = dof_int (a - b)"
proof (cases "b = 0")
  case True
  then show ?thesis using dadd_neg_zero [OF assms(1)] by (simp add: dsub_def dof_int_def dround_def)
next
  case False
  have "exact_int (- b)" using assms(2) by (simp add: exact_int_def)
  then show ?thesis using dadd_exact [of a "- b"] dneg_exact [OF assms(2) False] assms
    by (simp add: dsub_def)
qed

lemma dmul_exact:
  assumes a: "exact_int a" and b: "exact_int b" and ab: "exact_int (a * b)" and nz: "a * b \<noteq> 0"
  shows "dmul (dof_int a) (dof_int b) = dof_int (a * b)"
proof -
  obtain m e where m: "dof_int a = DFin (a < 0) m e" "e \<le> 0" "0 \<le> m"
    "\<And>g. g \<le> e \<Longrightarrow> signed_of (a < 0) m * 2 ^ nat (e - g) = a * 2 ^ nat (- g)"
    using dof_int_parts [OF a] by metis
  obtain n f where n: "dof_int b = DFin (b < 0) n f" "f \<le> 0" "0 \<le> n"
    "\<And>g. g \<le> f \<Longrightarrow> signed_of (b < 0) n * 2 ^ nat (f - g) = b * 2 ^ nat (- g)"
    using dof_int_parts [OF b] by metis
  have "m = \<bar>a\<bar> * 2 ^ nat (- e)" using m(3) m(4) [of e] by (auto simp: signed_of_def split: if_splits)
  moreover have "n = \<bar>b\<bar> * 2 ^ nat (- f)" using n(3) n(4) [of f] by (auto simp: signed_of_def split: if_splits)
  moreover have "nat (- (e + f)) = nat (- e) + nat (- f)" using m(2) n(2) by linarith
  ultimately have mn: "m * n = \<bar>a * b\<bar> * 2 ^ nat (- (e + f))"
    by (simp add: abs_mult power_add mult.commute mult.left_commute)
  have neg: "((a < 0) \<noteq> (b < 0)) = (a * b < 0)" using nz by (auto simp: mult_less_0_iff)
  have "dmul (dof_int a) (dof_int b) = dround (a * b < 0) (\<bar>a * b\<bar> * 2 ^ nat (- (e + f))) 1 (e + f)"
    using m(1) n(1) mn neg by simp
  also have "\<dots> = dof_int (a * b)"
    using dround_exact [of "\<bar>a * b\<bar>" "a * b < 0" "nat (- (e + f))"] ab dof_int_exact [OF ab] m(2) n(2)
    by (simp add: exact_int_def add.commute)
  finally show ?thesis .
qed

lemma dcmp_exact:
  assumes a: "exact_int a" and b: "exact_int b"
  shows "dcmp (dof_int a) (dof_int b) = Some (sgn (a - b))"
proof -
  obtain m e where m: "dof_int a = DFin (a < 0) m e" "e \<le> 0"
    "\<And>g. g \<le> e \<Longrightarrow> signed_of (a < 0) m * 2 ^ nat (e - g) = a * 2 ^ nat (- g)"
    using dof_int_parts [OF a] by metis
  obtain n f where n: "dof_int b = DFin (b < 0) n f" "f \<le> 0"
    "\<And>g. g \<le> f \<Longrightarrow> signed_of (b < 0) n * 2 ^ nat (f - g) = b * 2 ^ nat (- g)"
    using dof_int_parts [OF b] by metis
  define g where "g = min e f"
  have "signed_of (a < 0) m * 2 ^ nat (e - g) - signed_of (b < 0) n * 2 ^ nat (f - g)
      = (a - b) * 2 ^ nat (- g)"
    using m(3) [of g] n(3) [of g] by (simp add: g_def left_diff_distrib)
  moreover have "sgn ((a - b) * 2 ^ nat (- g)) = sgn (a - b)" by (simp add: sgn_mult)
  ultimately show ?thesis using m(1) n(1) by (simp add: g_def Let_def)
qed

section \<open>Conversions\<close>

lemma d_to_llong_exact:
  assumes "exact_int i"
  shows "d_to_llong (dof_int i) = Some (word_of_int i)"
proof -
  obtain m e where m: "dof_int i = DFin (i < 0) m e" "e \<le> 0"
    "\<And>g. g \<le> e \<Longrightarrow> signed_of (i < 0) m * 2 ^ nat (e - g) = i * 2 ^ nat (- g)"
    using dof_int_parts [OF assms] by metis
  have v: "signed_of (i < 0) m = i * 2 ^ nat (- e)" using m(3) [of e] by simp
  have "dfloor (dof_int i) = Some i" using m(1,2) v by (cases "e = 0") simp_all
  moreover have "is_llong i"
    using assms by (auto simp: exact_int_def is_llong_def LLONG_MIN_def LLONG_MAX_def)
  ultimately show ?thesis by (simp add: d_to_llong_def)
qed

lemma is_digit_digit_char: "0 \<le> d \<Longrightarrow> d \<le> 9 \<Longrightarrow> is_digit (digit_char d)"
  by (simp add: is_digit_def digit_char_def)

lemma dec_digits: "0 \<le> n \<Longrightarrow> c \<in> set (dec n) \<Longrightarrow> is_digit c"
proof (induction n rule: dec.induct)
  case (1 n)
  then show ?case
    by (subst (asm) (2) dec.simps) (auto split: if_splits intro: is_digit_digit_char)
qed

lemma dec_nonempty: "dec n \<noteq> []"
  by (subst dec.simps) simp

lemma dec_pad_zero: "dec_pad k 0 = replicate k (CHR ''0'')"
proof (induction k)
  case (Suc k)
  have "char_of (48 :: int) = CHR ''0''" by (simp add: char_of_def)
  with Suc show ?case by (simp add: digit_char_def replicate_append_same)
qed simp

lemma float_text_exact:
  assumes "exact_int i"
  shows "float_text (dof_int i) = fmt_int i"
proof -
  obtain m e where m: "dof_int i = DFin (i < 0) m e" "e \<le> 0" "0 \<le> m"
    "\<And>g. g \<le> e \<Longrightarrow> signed_of (i < 0) m * 2 ^ nat (e - g) = i * 2 ^ nat (- g)"
    using dof_int_parts [OF assms] by metis
  have mi: "m = \<bar>i\<bar> * 2 ^ nat (- e)" using m(3) m(4) [of e] by (auto simp: signed_of_def split: if_splits)
  have N: "(if 0 \<le> e then m * 2 ^ nat e * 10 ^ 12 else rne (m * 10 ^ 12) (2 ^ nat (- e))) = \<bar>i\<bar> * 10 ^ 12"
  proof (cases "e = 0")
    case False
    have "rne (m * 10 ^ 12) (2 ^ nat (- e)) = rne (\<bar>i\<bar> * 10 ^ 12 * 2 ^ nat (- e)) (2 ^ nat (- e))"
      unfolding mi by (simp only: mult.assoc mult.commute [of "2 ^ nat (- e)"])
    also have "\<dots> = \<bar>i\<bar> * 10 ^ 12" by (rule rne_exact) simp
    finally show ?thesis using False m(2) by simp
  qed (use mi in simp)
  have "fmt_float (dof_int i) = (if i < 0 then ''-'' else '''') @ dec \<bar>i\<bar> @ ''.'' @ replicate 12 (CHR ''0'')"
    using m(1) N dec_pad_zero [of 12] by (simp add: fmt_fixed12_def)
  moreover have "strip_zeros (x @ ''.'' @ replicate 12 (CHR ''0'')) = x" for x
    by (simp add: strip_zeros_def numeral_eq_Suc)
  ultimately have "float_text (dof_int i) = (if i < 0 then ''-'' else '''') @ dec \<bar>i\<bar>"
    by (simp add: float_text_def flip: append_assoc)
  then show ?thesis by (simp add: fmt_int_def)
qed

text \<open>Reading digits back.\<close>

lemma xdigit_digit_char: "0 \<le> d \<Longrightarrow> d \<le> 9 \<Longrightarrow> xdigit (digit_char d) = Some d"
  by (simp add: xdigit_def to_lower_def digit_char_def Let_def)

lemma digits_val_snoc:
  "digits_val b (ds @ [c]) = b * digits_val b ds + (case xdigit c of Some v \<Rightarrow> v | None \<Rightarrow> 0)"
  by (simp add: digits_val_def)

lemma digits_val_dec: "0 \<le> n \<Longrightarrow> digits_val 10 (dec n) = n"
proof (induction n rule: dec.induct)
  case (1 n)
  show ?case
  proof (cases "n < 10")
    case True
    then show ?thesis using "1.prems"
      by (subst dec.simps) (simp add: digits_val_def xdigit_digit_char)
  next
    case False
    then have "dec n = dec (n div 10) @ [digit_char (n mod 10)]" by (subst dec.simps) simp
    then show ?thesis using "1.IH" [OF False] "1.prems"
      by (simp add: digits_val_snoc xdigit_digit_char)
  qed
qed

lemma is_digit_not:
  assumes "is_digit c"
  shows "\<not> is_cspace c" and "c \<noteq> CHR ''-''" and "c \<noteq> CHR ''+''" and "to_lower c = c"
    and "c \<noteq> CHR ''i''" and "c \<noteq> CHR ''n''" and "c \<noteq> CHR ''x''"
  using assms by (auto simp: is_digit_def is_cspace_def to_lower_def Let_def)

lemma strtod_body_digits:
  assumes digits: "\<And>c. c \<in> set s \<Longrightarrow> is_digit c" and ne: "s \<noteq> []"
  shows "strtod_body neg s = Some (dround neg (digits_val 10 s) 1 0, [])"
proof -
  obtain c r where s: "s = c # r" using ne by (cases s) auto
  have low: "map to_lower s = s" using digits by (simp add: is_digit_not(4) map_idI)
  have c: "is_digit c" using digits s by simp
  have inf: "\<not> has_prefix_ci ''infinity'' s" "\<not> has_prefix_ci ''inf'' s" "\<not> has_prefix_ci ''nan'' s"
    unfolding has_prefix_ci_def low using is_digit_not [OF c] s by auto
  have hex: "\<not> has_prefix_ci ''0x'' s"
  proof
    assume "has_prefix_ci ''0x'' s"
    then have "take (length ''0x'') s = ''0x''" by (simp only: has_prefix_ci_def low)
    then have "CHR ''x'' \<in> set s" by (metis in_set_takeD list.set_intros(1) list.set_intros(2))
    with digits is_digit_not(7) show False by blast
  qed
  have tw: "takeWhile is_digit s = s" "dropWhile is_digit s = []" using digits by (simp_all add: takeWhile_eq_all_conv)
  have "take_mantissa is_digit s = (s, [], [])" by (simp add: take_mantissa_def tw Let_def)
  then show ?thesis
    using inf hex ne
    by (simp add: strtod_body_def take_exponent_def pow_frac_def split: prod.split)
qed

lemma strtod_exact:
  assumes "exact_int i"
  shows "strtod (fmt_int i) = (dof_int i, length (fmt_int i))"
proof -
  have body: "strtod_body (i < 0) (dec \<bar>i\<bar>) = Some (dof_int i, [])"
    using strtod_body_digits [of "dec \<bar>i\<bar>" "i < 0"] dec_digits [of "\<bar>i\<bar>"] dec_nonempty [of "\<bar>i\<bar>"]
    by (simp add: digits_val_dec dof_int_def)
  obtain c r where d: "dec \<bar>i\<bar> = c # r" using dec_nonempty [of "\<bar>i\<bar>"] by (cases "dec \<bar>i\<bar>") auto
  have c: "is_digit c" using dec_digits [of "\<bar>i\<bar>" c] d by simp
  show ?thesis
  proof (cases "i < 0")
    case True
    then have "fmt_int i = CHR ''-'' # dec \<bar>i\<bar>" by (simp add: fmt_int_def)
    with True body show ?thesis by (simp add: strtod_def is_cspace_def)
  next
    case False
    then have "fmt_int i = dec \<bar>i\<bar>" by (simp add: fmt_int_def)
    with False body d is_digit_not [OF c] show ?thesis by (simp add: strtod_def)
  qed
qed

end
