(* ===== verification/Heap_Inv.thy ===== *)
theory Heap_Inv
  imports Dict
begin

text \<open>
  Every heap operation keeps the reference counts exact.  The form of the statements is: if the
  operation returns at all, then it leads from one heap with exact counts to another, with the
  roots (the pointers that C variables own) changed as the operation's contract says.
  Objects that only one C variable knows, the lists under construction, form the set of
  \<open>private\<close> objects: no operation is ever given one to refer to, so their count stays one and
  \<^verbatim>\<open>b6b_destroy\<close> may free them without looking at the count.
\<close>

section \<open>The invariant\<close>

text \<open>The nodes of a list are different, and older than the next node to be made.\<close>

definition obj_nodes_ok :: "litem \<Rightarrow> obj \<Rightarrow> bool" where
  "obj_nodes_ok n ob = (case ob_l ob of
     Items its \<Rightarrow> distinct (map fst its) \<and> list_all (\<lambda>(m, _). m < n) its
   | _ \<Rightarrow> True)"

lemma obj_nodes_ok_cong: "ob_l ob' = ob_l ob \<Longrightarrow> obj_nodes_ok n ob' = obj_nodes_ok n ob"
  by (simp add: obj_nodes_ok_def)

definition nodes_ok :: "heap \<Rightarrow> bool" where
  "nodes_ok h = list_all (\<lambda>c. case c of None \<Rightarrow> True | Some ob \<Rightarrow> obj_nodes_ok (next_li h) ob) (cells h)"

lemma nodes_ok_iff:
  "nodes_ok h \<longleftrightarrow> (\<forall>a ob. hget a h = Some ob \<longrightarrow> obj_nodes_ok (next_li h) ob)"
proof
  assume ok: "nodes_ok h"
  show "\<forall>a ob. hget a h = Some ob \<longrightarrow> obj_nodes_ok (next_li h) ob"
  proof (intro allI impI)
    fix a ob
    assume "hget a h = Some ob"
    then have "Some ob \<in> set (cells h)" by (metis hget_Some_less hget_Some_nth nth_mem)
    with ok show "obj_nodes_ok (next_li h) ob" by (auto simp: nodes_ok_def list_all_iff)
  qed
next
  assume all: "\<forall>a ob. hget a h = Some ob \<longrightarrow> obj_nodes_ok (next_li h) ob"
  have "case c of None \<Rightarrow> True | Some ob \<Rightarrow> obj_nodes_ok (next_li h) ob" if c: "c \<in> set (cells h)" for c
  proof -
    from c obtain a where "a < length (cells h)" "cells h ! a = c" by (auto simp: in_set_conv_nth)
    then have "hget a h = c" by (simp add: hget_def)
    then show ?thesis using all by (cases c) simp_all
  qed
  then show "nodes_ok h" by (simp add: nodes_ok_def list_all_iff)
qed

definition refc_at :: "addr \<Rightarrow> heap \<Rightarrow> nat option" where
  "refc_at a h = map_option ob_refc (hget a h)"

definition hinv :: "addr set \<Rightarrow> addr multiset \<Rightarrow> heap \<Rightarrow> bool" where
  "hinv P R h \<longleftrightarrow> rc_ok R h \<and> nodes_ok h \<and> (\<forall>a\<in>P. count R a = 1 \<and> refc_at a h = Some 1)"

lemma hinvI:
  assumes "hinv P R h" and "rc_ok R' h'" and "nodes_ok h'" and "\<And>a. a \<in> P \<Longrightarrow> count R' a = count R a"
    and "\<And>a. a \<in> P \<Longrightarrow> refc_at a h' = refc_at a h"
  shows "hinv P R' h'"
  using assms by (simp add: hinv_def)

lemma hinv_rc: "hinv P R h \<Longrightarrow> rc_ok R h"
  by (simp add: hinv_def)

lemma hinv_nodes: "hinv P R h \<Longrightarrow> nodes_ok h"
  by (simp add: hinv_def)

lemma hinv_private: "hinv P R h \<Longrightarrow> a \<in> P \<Longrightarrow> count R a = 1 \<and> refc_at a h = Some 1"
  by (simp add: hinv_def)

text \<open>What the heap refers to is not private, and what is not there is not private.\<close>

lemma heap_refs_mem:
  assumes "hget a h = Some ob" and "x \<in> set (refs_of ob)"
  shows "x \<in># heap_refs h"
proof -
  have "heap_refs h = heap_refs (hfree a h) + mset (refs_of ob)"
    using heap_refs_hfree [OF assms(1)] by simp
  then show ?thesis using assms(2) by simp
qed

lemma hinv_count_0:
  assumes "hinv P R h" and "a \<in> P"
  shows "count (heap_refs h) a = 0"
proof -
  from assms have "count R a = 1" "refc_at a h = Some 1" by (auto dest: hinv_private)
  then obtain ob where "hget a h = Some ob" "ob_refc ob = 1" by (auto simp: refc_at_def)
  then show ?thesis using rc_okD(2) [OF hinv_rc [OF assms(1)]] \<open>count R a = 1\<close> by force
qed

lemma hinv_not_ref: "hinv P R h \<Longrightarrow> a \<in># heap_refs h \<Longrightarrow> a \<notin> P"
  using hinv_count_0 by (metis count_greater_zero_iff less_numeral_extra(3))

lemma hinv_fresh: "hinv P R h \<Longrightarrow> hget a h = None \<Longrightarrow> a \<notin> P"
  by (auto dest: hinv_private simp: refc_at_def)

lemma hinv_item:
  assumes "hinv P R h" and "items_of l h = Some its" and "x \<in> set (map snd its)"
  shows "x \<notin> P"
proof -
  from assms(2) obtain ob where ob: "hget l h = Some ob" "ob_l ob = Items its" by (auto simp: items_of_Some)
  then have "x \<in> set (refs_of ob)" using assms(3) by (simp add: refs_of_def)
  with ob(1) have "x \<in># heap_refs h" by (rule heap_refs_mem)
  with assms(1) show ?thesis by (rule hinv_not_ref)
qed

lemma hinv_node:
  "hinv P R h \<Longrightarrow> items_of l h = Some its \<Longrightarrow> map_of its n = Some x \<Longrightarrow> x \<notin> P"
  by (erule hinv_item, assumption) (force dest: map_of_SomeD)

lemma hinv_live: "hinv P R h \<Longrightarrow> a \<in># R \<Longrightarrow> hget a h \<noteq> None"
  by (auto elim: rc_ok_root_live dest: hinv_rc)

lemma item_live:
  assumes inv: "hinv P R h" and its: "items_of d h = Some its" and a: "a \<in> set (map snd its)"
  shows "hget a h \<noteq> None"
proof -
  from its obtain ob where ob: "hget d h = Some ob" "ob_l ob = Items its" by (auto simp: items_of_Some)
  with a have "a \<in> set (refs_of ob)" by (simp add: refs_of_def)
  with ob(1) have "a \<in># heap_refs h + R" by (auto dest: heap_refs_mem)
  with hinv_rc [OF inv] show ?thesis by (auto elim: rc_ok_live)
qed

lemma hinv_less_private: "hinv P R h \<Longrightarrow> Q \<subseteq> P \<Longrightarrow> hinv Q R h"
  by (auto simp: hinv_def)

text \<open>One object replaced by another with the same count.\<close>

lemma hinv_hset:
  assumes inv: "hinv P R h" and ob: "hget a h = Some ob"
    and refs: "mset (refs_of ob') + R' = mset (refs_of ob) + R"
    and rc: "ob_refc ob' = ob_refc ob" and l: "ob_l ob' \<noteq> Freed_items"
    and n: "obj_nodes_ok (next_li h) ob'" and cnt: "\<And>a. a \<in> P \<Longrightarrow> count R' a = count R a"
  shows "hinv P R' (hset a ob' h)"
proof (rule hinvI [OF inv])
  show "rc_ok R' (hset a ob' h)" by (rule rc_ok_hset_refs [OF hinv_rc [OF inv] ob refs rc l])
  show "nodes_ok (hset a ob' h)"
    using hinv_nodes [OF inv] n ob by (auto simp: nodes_ok_iff hget_hset split: if_splits)
  show "refc_at b (hset a ob' h) = refc_at b h" for b
    using ob rc by (auto simp: refc_at_def hget_hset)
qed (rule cnt)

lemma hinv_hset_same:
  assumes "hinv P R h" and "hget a h = Some ob" and "refs_of ob' = refs_of ob"
    and "ob_refc ob' = ob_refc ob" and "ob_l ob' = ob_l ob"
  shows "hinv P R (hset a ob' h)"
proof (rule hinv_hset [OF assms(1,2)])
  show "ob_l ob' \<noteq> Freed_items" using rc_okD(3) [OF hinv_rc [OF assms(1)] assms(2)] assms(5) by simp
  show "obj_nodes_ok (next_li h) ob'"
    using hinv_nodes [OF assms(1)] assms(2,5) by (auto simp: nodes_ok_iff obj_nodes_ok_def)
qed (use assms in simp_all)

section \<open>Counting\<close>

lemma hinv_conv:
  assumes "hinv P R h" and le: "conv_le h h'"
  shows "hinv P R h'"
proof (rule hinvI [OF assms(1)])
  show "rc_ok R h'" using conv_le_rc_ok [OF le] hinv_rc [OF assms(1)] by blast
  show "nodes_ok h'"
    unfolding nodes_ok_iff
  proof (intro allI impI)
    fix a ob'
    assume "hget a h' = Some ob'"
    with le obtain ob where "hget a h = Some ob" "obj_le ob ob'" by (elim conv_leD_back)
    with hinv_nodes [OF assms(1)] le show "obj_nodes_ok (next_li h') ob'"
      by (auto simp: nodes_ok_iff obj_nodes_ok_def obj_le_def conv_le_def)
  qed
  show "refc_at a h' = refc_at a h" for a
  proof (cases "hget a h")
    case None
    with le show ?thesis by (simp add: conv_le_def refc_at_def)
  next
    case (Some ob)
    with le obtain ob' where "hget a h' = Some ob'" "obj_le ob ob'" by (elim conv_leD)
    with Some show ?thesis by (simp add: refc_at_def obj_le_def)
  qed
qed simp

lemma b6b_ref_hinv:
  assumes inv: "hinv P R h" and "b6b_ref a h = Some h'" and "a \<notin> P"
  shows "hinv P (add_mset a R) h'"
proof -
  from assms(2) obtain ob where ob: "hget a h = Some ob" by (auto simp: b6b_ref_def hupd_Some)
  from ref_ok [OF hinv_rc [OF inv] ob] assms(2)
  have h': "h' = hset a (ob\<lparr>ob_refc := Suc (ob_refc ob)\<rparr>) h" and rc: "rc_ok (add_mset a R) h'" by auto
  show ?thesis
  proof (rule hinvI [OF inv rc])
    show "nodes_ok h'"
      using hinv_nodes [OF inv] ob by (auto simp: h' nodes_ok_iff hget_hset obj_nodes_ok_def split: if_splits)
    show "refc_at b h' = refc_at b h" if "b \<in> P" for b
      using that assms(3) ob by (auto simp: h' refc_at_def hget_hset)
  qed (use assms(3) in auto)
qed

lemma heap_refs_unrefs: "b6b_unrefs as h = Some h' \<Longrightarrow> heap_refs h' \<subseteq># heap_refs h"
proof (induction as h rule: b6b_unrefs.induct)
  case (1 h)
  then show ?case by simp
next
  case (2 a as h)
  from "2.prems" obtain ob where ob: "hget a h = Some ob" "ob_refc ob \<noteq> 0"
    by (auto split: option.splits if_splits)
  show ?case
  proof (cases "ob_refc ob = 1")
    case True
    with "2.prems" ob obtain rs where rs: "destroy_refs ob = Some rs" "b6b_unrefs (rs @ as) (hfree a h) = Some h'"
      by (auto split: option.splits)
    have "heap_refs h' \<subseteq># heap_refs (hfree a h)"
      using "2.IH"(1) [OF ob(1) _ True rs(1) rs(2)] ob(2) by simp
    also have "\<dots> \<subseteq># heap_refs h"
      using heap_refs_hfree [OF ob(1)] by (metis mset_subset_eq_add_left)
    finally show ?thesis .
  next
    case False
    with "2.prems" ob have "b6b_unrefs as (hset a (ob\<lparr>ob_refc := ob_refc ob - 1\<rparr>) h) = Some h'" by simp
    then have "heap_refs h' \<subseteq># heap_refs (hset a (ob\<lparr>ob_refc := ob_refc ob - 1\<rparr>) h)"
      using "2.IH"(2) [OF ob(1,2) False] by simp
    also have "heap_refs (hset a (ob\<lparr>ob_refc := ob_refc ob - 1\<rparr>) h) = heap_refs h"
      by (rule heap_refs_hset_same [OF ob(1)]) simp
    finally show ?thesis .
  qed
qed

lemma b6b_unrefs_hinv:
  assumes inv: "hinv P (mset as + R) h" and run: "b6b_unrefs as h = Some h'"
    and "set as \<inter> P = {}"
  shows "hinv P R h'"
proof -
  from unrefs_ok [OF hinv_rc [OF inv]] run have rc: "rc_ok R h'" by simp
  have cnt: "count R a = count (mset as + R) a" if "a \<in> P" for a
  proof -
    have "a \<notin> set as" using that assms(3) by blast
    then have "count (mset as) a = 0" by (simp add: count_mset_0_iff)
    then show ?thesis by simp
  qed
  have refc: "refc_at a h' = refc_at a h" if "a \<in> P" for a
  proof -
    have one: "count R a = 1" "refc_at a h = Some 1"
      using hinv_private [OF inv that] by (simp_all only: cnt [OF that])
    then have "a \<in># R" by (cases "a \<in># R") (simp_all add: not_in_iff)
    with rc obtain ob' where ob': "hget a h' = Some ob'" by (rule rc_ok_root_live)
    have "count (heap_refs h') a = 0"
      using hinv_count_0 [OF inv that] mset_subset_eq_count [OF heap_refs_unrefs [OF run], of a] by simp
    then have "ob_refc ob' = 1" using rc_okD(2) [OF rc ob'] one(1) by simp
    with ob' have "refc_at a h' = Some 1" by (simp add: refc_at_def)
    with one(2) show ?thesis by simp
  qed
  show ?thesis
  proof (rule hinvI [OF inv rc _ cnt refc])
    show "nodes_ok h'"
      unfolding nodes_ok_iff
    proof (intro allI impI)
      fix a ob'
      assume "hget a h' = Some ob'"
      with unrefs_frame [OF run] obtain ob where ob: "hget a h = Some ob"
        and eq: "ob' = ob\<lparr>ob_refc := ob_refc ob'\<rparr>" by blast
      have "ob_l ob' = ob_l ob" by (subst eq) simp
      from obj_nodes_ok_cong [OF this] have "obj_nodes_ok (next_li h) ob' = obj_nodes_ok (next_li h) ob" .
      then show "obj_nodes_ok (next_li h') ob'"
        using hinv_nodes [OF inv] ob unrefs_next_li [OF run] by (simp add: nodes_ok_iff)
    qed
  qed
qed

lemma b6b_unref_hinv:
  assumes "hinv P (add_mset a R) h" and "b6b_unref a h = Some h'" and "a \<notin> P"
  shows "hinv P R h'"
  using b6b_unrefs_hinv [of P "[a]" R h h'] assms by (simp add: b6b_unref_def)

text \<open>\<^verbatim>\<open>b6b_destroy\<close> of a private object is \<^verbatim>\<open>b6b_unref\<close>.\<close>

lemma b6b_destroy_hinv:
  assumes inv: "hinv P (add_mset a R) h" and run: "b6b_destroy a h = Some h'" and a: "a \<in> P"
  shows "hinv (P - {a}) R h'"
proof -
  have "refc_at a h = Some 1" using hinv_private [OF inv a] by simp
  then have "b6b_unref a h = Some h'"
    using run by (auto simp: refc_at_def b6b_destroy_def b6b_unref_def bind_Some)
  then show ?thesis
    using b6b_unref_hinv [of "P - {a}" a R h h'] hinv_less_private [OF inv, of "P - {a}"] by blast
qed

lemma b6b_new_hinv:
  assumes inv: "hinv P R h" and new: "b6b_new init h = (a, h')"
    and "ob_refc (init new_obj) = 1" "refs_of (init new_obj) = []" "ob_l (init new_obj) \<in> {No_list, Items []}"
  shows "hinv P (add_mset a R) h'" and "a \<notin> P" and "hget a h' = Some (init new_obj)"
    and "hinv (insert a P) (add_mset a R) h'"
proof -
  from new_ok [OF hinv_rc [OF inv] assms(3,4) _ new] assms(5)
  have rc: "rc_ok (add_mset a R) h'" and a': "hget a h' = Some (init new_obj)" by auto
  have al: "halloc (init new_obj) h = (a, h')" using new by (simp add: b6b_new_def)
  then have fresh: "hget a h = None" using st.new_fresh [of "init new_obj" h] by simp
  have get: "hget b h' = (if b = a then Some (init new_obj) else hget b h)" for b
    using hget_halloc [of b "init new_obj" h] al by simp
  have nli: "next_li h' = next_li h" using al by (auto simp: halloc_def)
  show notP: "a \<notin> P" by (rule hinv_fresh [OF inv fresh])
  show "hget a h' = Some (init new_obj)" by (rule a')
  have "a \<notin># R" using hinv_live [OF inv] fresh by blast
  show main: "hinv P (add_mset a R) h'"
  proof (rule hinvI [OF inv rc])
    show "nodes_ok h'"
      using hinv_nodes [OF inv] assms(5) by (auto simp: nodes_ok_iff get nli obj_nodes_ok_def split: if_splits)
    show "refc_at b h' = refc_at b h" if "b \<in> P" for b
      using that notP by (auto simp: refc_at_def get)
  qed (use notP in auto)
  have "count (add_mset a R) a = 1" using \<open>a \<notin># R\<close> by (simp add: not_in_iff)
  moreover have "refc_at a h' = Some 1" using assms(3) a' by (simp add: refc_at_def)
  ultimately show "hinv (insert a P) (add_mset a R) h'"
    using main unfolding hinv_def by blast
qed

section \<open>New objects\<close>

lemma b6b_str_new_hinv:
  assumes "hinv P R h" and "b6b_str_new s h = (a, h')"
  shows "hinv P (add_mset a R) h'" and "a \<notin> P"
  using b6b_new_hinv [OF assms(1) assms(2) [unfolded b6b_str_new_def]]
  by (simp_all add: new_obj_def refs_of_def)

lemma b6b_str_copy_hinv:
  assumes "hinv P R h" and "b6b_str_copy s h = (a, h')"
  shows "hinv P (add_mset a R) h'" and "a \<notin> P"
  using b6b_str_new_hinv [OF assms(1) assms(2) [unfolded b6b_str_copy_def]] by simp_all

lemma b6b_int_new_hinv:
  assumes "hinv P R h" and "b6b_int_new i h = (a, h')"
  shows "hinv P (add_mset a R) h'" and "a \<notin> P"
  using b6b_new_hinv [OF assms(1) assms(2) [unfolded b6b_int_new_def]]
  by (simp_all add: new_obj_def refs_of_def)

lemma b6b_float_new_hinv:
  assumes "hinv P R h" and "b6b_float_new f h = (a, h')"
  shows "hinv P (add_mset a R) h'" and "a \<notin> P"
  using b6b_new_hinv [OF assms(1) assms(2) [unfolded b6b_float_new_def]]
  by (simp_all add: new_obj_def refs_of_def)

lemma b6b_list_new_hinv:
  assumes "hinv P R h" and "b6b_list_new h = (a, h')"
  shows "hinv P (add_mset a R) h'" and "a \<notin> P" and "hinv (insert a P) (add_mset a R) h'"
  using b6b_new_hinv [OF assms(1) assms(2) [unfolded b6b_list_new_def]]
  by (simp_all add: new_obj_def refs_of_def)

section \<open>Lists\<close>

lemma obj_nodes_ok_snoc:
  assumes "obj_nodes_ok n ob" and "ob_l ob = Items its"
  shows "obj_nodes_ok (Suc n) (ob'\<lparr>ob_l := Items (its @ [(n, x)])\<rparr>)"
  using assms by (auto simp: obj_nodes_ok_def list_all_iff)

lemma obj_nodes_ok_mono: "obj_nodes_ok n ob \<Longrightarrow> n \<le> m \<Longrightarrow> obj_nodes_ok m ob"
  by (auto simp: obj_nodes_ok_def list_all_iff split: lrep.splits)

lemma b6b_list_do_add_hinv:
  assumes inv: "hinv P R h" and run: "b6b_list_do_add l x h = Some h'" and x: "x \<notin> P"
  shows "hinv P R h'"
proof -
  from run obtain h1 lo1 its where r: "b6b_ref x h = Some h1" "hget l h1 = Some lo1" "ob_l lo1 = Items its"
  proof -
    from run obtain h1 lo1 where r: "b6b_ref x h = Some h1" "hget l h1 = Some lo1"
      by (auto simp: b6b_list_do_add_def bind_Some)
    with run show ?thesis using that by (cases "ob_l lo1") (auto simp: b6b_list_do_add_def)
  qed
  note inv1 = b6b_ref_hinv [OF inv r(1) x]
  define lo2 where "lo2 = lo1\<lparr>ob_l := Items (its @ [(next_li h1, x)])\<rparr>"
  have h': "h' = (hset l lo2 h1)\<lparr>next_li := Suc (next_li h1)\<rparr>"
    using run r by (simp add: b6b_list_do_add_def lo2_def)
  have refs: "mset (refs_of lo2) + R = mset (refs_of lo1) + add_mset x R"
    by (simp add: lo2_def refs_of_def r(3))
  show ?thesis
  proof (rule hinvI [OF inv])
    have "rc_ok R (hset l lo2 h1)"
      by (rule rc_ok_hset_refs [OF hinv_rc [OF inv1] r(2) refs]) (simp_all add: lo2_def)
    then show "rc_ok R h'" by (simp add: h')
    show "nodes_ok h'"
      unfolding nodes_ok_iff
    proof (intro allI impI)
      fix a ob
      assume "hget a h' = Some ob"
      then have a: "hget a (hset l lo2 h1) = Some ob" by (simp add: h')
      have old: "obj_nodes_ok (next_li h1) ob1" if "hget b h1 = Some ob1" for b ob1
        using hinv_nodes [OF inv1] that by (simp add: nodes_ok_iff)
      show "obj_nodes_ok (next_li h') ob"
      proof (cases "a = l")
        case True
        then have "ob = lo2" using a r(2) by (simp add: hget_hset)
        then show ?thesis using obj_nodes_ok_snoc [OF old [OF r(2)] r(3)] by (simp add: h' lo2_def)
      next
        case False
        then have "hget a h1 = Some ob" using a r(2) by (simp add: hget_hset)
        from obj_nodes_ok_mono [OF old [OF this]] show ?thesis by (simp add: h')
      qed
    qed
    show "refc_at a h' = refc_at a h" if "a \<in> P" for a
    proof -
      have "refc_at a h' = refc_at a h1" using r(2) by (auto simp: refc_at_def h' hget_hset lo2_def)
      also have "\<dots> = refc_at a h" using that hinv_private [OF inv] hinv_private [OF inv1] by simp
      finally show ?thesis .
    qed
  qed simp
qed

lemma b6b_list_flush_hinv:
  assumes "hinv P R h" and "b6b_list_flush l h = Some h'"
  shows "hinv P R h'"
proof -
  from assms(2) obtain lo where lo: "hget l h = Some lo" and h': "h' = hset l (flushed lo) h"
    by (auto simp: b6b_list_flush_def hupd_Some flushed_def)
  show ?thesis unfolding h' by (rule hinv_hset_same [OF assms(1) lo]) simp_all
qed

lemma b6b_list_add_hinv:
  assumes "hinv P R h" and "b6b_list_add l x h = Some h'" and "x \<notin> P"
  shows "hinv P R h'"
  using assms by (auto simp: b6b_list_add_def bind_Some
      intro: b6b_list_flush_hinv b6b_list_do_add_hinv)

lemma list_do_add_all_hinv:
  "hinv P R h \<Longrightarrow> list_do_add_all l xs h = Some h' \<Longrightarrow> set xs \<inter> P = {} \<Longrightarrow> hinv P R h'"
proof (induction xs arbitrary: h)
  case (Cons x xs)
  then obtain h1 where "b6b_list_do_add l x h = Some h1" "list_do_add_all l xs h1 = Some h'"
    by (auto simp: bind_Some)
  with Cons show ?case using b6b_list_do_add_hinv [of P R h l x h1] by simp
qed simp

lemma b6b_list_copy_hinv:
  assumes inv: "hinv P R h" and run: "b6b_list_copy l h = Some (l2, h')"
  shows "hinv P (add_mset l2 R) h'" and "l2 \<notin> P"
proof -
  from run obtain its where its: "items_of l h = Some its" "b6b_list_build (map snd its) h = Some (l2, h')"
    by (auto simp: b6b_list_copy_def bind_Some)
  obtain l1 h1 where n1: "b6b_list_new h = (l1, h1)" by fastforce
  with its have r: "items_of l h = Some its" "b6b_list_new h = (l2, h1)"
    "list_do_add_all l2 (map snd its) h1 = Some h'"
    by (auto simp: b6b_list_build_def)
  note n = b6b_list_new_hinv [OF inv r(2)]
  have "set (map snd its) \<inter> P = {}" using hinv_item [OF inv r(1)] by blast
  from list_do_add_all_hinv [OF n(1) r(3) this] show "hinv P (add_mset l2 R) h'" .
  show "l2 \<notin> P" by (rule n(2))
qed

lemma extend_loop_hinv:
  assumes "extend_loop l l2 p h = Some h'" and "hinv P R h"
  shows "hinv P R h'"
proof -
  have "hinv P R h \<longrightarrow> hinv P R h'"
  proof (rule extend_loop.raw_induct [where P = "\<lambda>l l2 p h h'. hinv P R h \<longrightarrow> hinv P R h'", OF _ assms(1)],
      rule impI)
    fix loop l l2 p h h'
    assume IH: "\<And>l l2 p h h'. loop l l2 p h = Some h' \<Longrightarrow> hinv P R h \<longrightarrow> hinv P R h'"
      and body: "(case p of None \<Rightarrow> Some h
        | Some li \<Rightarrow> do {
            its \<leftarrow> items_of l2 h;
            a \<leftarrow> map_of its li;
            h1 \<leftarrow> b6b_list_do_add l a h;
            its1 \<leftarrow> items_of l2 h1;
            p1 \<leftarrow> next_in li its1;
            loop l l2 p1 h1
          }) = Some h'"
      and inv: "hinv P R h"
    show "hinv P R h'"
    proof (cases p)
      case None
      with body inv show ?thesis by simp
    next
      case (Some li)
      with body obtain its x h1 its1 p1 where r: "items_of l2 h = Some its" "map_of its li = Some x"
        "b6b_list_do_add l x h = Some h1" "loop l l2 p1 h1 = Some h'"
        by (auto simp: bind_Some)
      have "x \<notin> P" by (rule hinv_node [OF inv r(1,2)])
      from IH [OF r(4)] b6b_list_do_add_hinv [OF inv r(3) this] show ?thesis by blast
    qed
  qed
  with assms(2) show ?thesis by blast
qed

lemma b6b_list_extend_hinv:
  assumes "hinv P R h" and "b6b_list_extend l l2 h = Some h'"
  shows "hinv P R h'"
  using assms by (auto simp: b6b_list_extend_def bind_Some
      intro: b6b_list_flush_hinv extend_loop_hinv)

text \<open>The reference of the node passes to the caller.\<close>

lemma mset_remove_node:
  assumes "distinct (map fst its)" and "map_of its n = Some x"
  shows "mset (map snd its) = add_mset x (mset (map snd (filter (\<lambda>(m, _). m \<noteq> n) its)))"
  using assms
proof (induction its)
  case Nil
  then show ?case by simp
next
  case (Cons p its)
  obtain m y where p: "p = (m, y)" by fastforce
  show ?case
  proof (cases "m = n")
    case True
    have "n \<notin> set (map fst its)" using Cons.prems(1) p True by simp
    then have "filter (\<lambda>(m, _). m \<noteq> n) its = its" by (intro filter_True) force
    with True Cons.prems(2) p show ?thesis by simp
  next
    case False
    with Cons p show ?thesis by simp
  qed
qed

lemma list_unlink_hinv:
  assumes inv: "hinv P R h" and run: "list_unlink l n h = Some (x, h')"
  shows "hinv P (add_mset x R) h'" and "x \<notin> P"
proof -
  from run obtain ob its where r: "hget l h = Some ob" "items_of l h = Some its" "map_of its n = Some x"
    and h': "h' = hset l (ob\<lparr>ob_l := Items (filter (\<lambda>(m, _). m \<noteq> n) its)\<rparr>) h"
    by (auto simp: list_unlink_def bind_Some)
  from r have its: "ob_l ob = Items its" by (auto simp: items_of_Some)
  have ok: "obj_nodes_ok (next_li h) ob" using hinv_nodes [OF inv] r(1) by (simp add: nodes_ok_iff)
  then have dist: "distinct (map fst its)" by (simp add: obj_nodes_ok_def its)
  show x: "x \<notin> P" by (rule hinv_node [OF inv r(2,3)])
  show "hinv P (add_mset x R) h'"
    unfolding h'
  proof (rule hinv_hset [OF inv r(1)])
    show "mset (refs_of (ob\<lparr>ob_l := Items (filter (\<lambda>(m, _). m \<noteq> n) its)\<rparr>)) + add_mset x R
        = mset (refs_of ob) + R"
      using mset_remove_node [OF dist r(3)] by (simp add: refs_of_def its)
    show "obj_nodes_ok (next_li h) (ob\<lparr>ob_l := Items (filter (\<lambda>(m, _). m \<noteq> n) its)\<rparr>)"
      using ok by (auto simp: obj_nodes_ok_def its list_all_iff distinct_map_filter)
  qed (use x in auto)
qed

lemma b6b_list_pop_hinv:
  assumes "hinv P R h" and "b6b_list_pop l li h = Some (Some x, h')"
  shows "hinv P (add_mset x R) h'" and "x \<notin> P"
  using assms
  by (auto simp: b6b_list_pop_def bind_Some split: if_splits option.splits
      dest: list_unlink_hinv intro: b6b_list_flush_hinv)

section \<open>From text to list\<close>

lemma nodes_ok_as_list:
  assumes "nodes_ok h" and "next_li h \<le> next_li h'"
    and "\<And>b. hget b h' = hget b h \<or> (\<exists>ob. hget b h' = Some ob \<and> obj_nodes_ok (next_li h') ob)"
  shows "nodes_ok h'"
  unfolding nodes_ok_iff
proof (intro allI impI)
  fix a ob
  assume "hget a h' = Some ob"
  with assms(3) [of a] consider "hget a h = Some ob" | "obj_nodes_ok (next_li h') ob" by auto
  then show "obj_nodes_ok (next_li h') ob"
    using assms(1,2) by cases (auto simp: nodes_ok_iff intro: obj_nodes_ok_mono)
qed

lemma b6b_as_list_hinv:
  assumes inv: "hinv P R h" and run: "b6b_as_list l h = Some (ok, h')"
  shows "hinv P R h'"
proof -
  from run obtain lo where lo: "hget l h = Some lo" by (auto simp: b6b_as_list_def bind_Some)
  show ?thesis
  proof (cases "ob_l lo = No_list")
    case False
    with run lo inv show ?thesis by (simp add: b6b_as_list_def)
  next
    case nl: True
    with run lo obtain k h1 where str: "b6b_as_str l h = Some (k, h1)"
      by (auto simp: b6b_as_list_def bind_Some)
    have le: "conv_le h h1" by (rule b6b_as_str_conv_le [OF str])
    note inv1 = hinv_conv [OF inv le]
    obtain lo1 where lo1: "hget l h1 = Some lo1" "obj_le lo lo1" using conv_leD [OF le lo] by blast
    have nl1: "ob_l lo1 = No_list" using lo1(2) nl by (simp add: obj_le_def)
    show ?thesis
    proof (cases k)
      case False
      with run lo nl str inv1 show ?thesis by (simp add: b6b_as_list_def)
    next
      case True
      with run lo nl str lo1 obtain s where s: "ob_s lo1 = Some s"
        by (auto simp: b6b_as_list_def bind_Some)
      have run1: "b6b_as_list l h1 = Some (ok, h')"
        using run lo nl str True lo1 nl1 s by (simp add: b6b_as_list_def b6b_as_str_def)
      show ?thesis
      proof (cases "tokens s")
        case None
        obtain h2 where run2: "b6b_as_list l h1 = Some (False, h2)"
          and h2: "\<And>b. hget b h2 = hget b h1" "rc_ok R h2" "next_li h1 \<le> next_li h2"
          by (rule b6b_as_list_bad [OF hinv_rc [OF inv1] lo1(1) nl1 s None]) blast
        have "h2 = h'" using run1 run2 by simp
        note h' = h2 [unfolded this]
        show ?thesis
        proof (rule hinvI [OF inv1 h'(2)])
          show "nodes_ok h'" by (rule nodes_ok_as_list [OF hinv_nodes [OF inv1] h'(3)]) (simp add: h'(1))
        qed (simp_all add: refc_at_def h'(1))
      next
        case (Some ss)
        obtain h2 new where run2: "b6b_as_list l h1 = Some (True, h2)"
          and h2: "rc_ok R h2" "hget l h2 = Some (lo1\<lparr>ob_l := Items new\<rparr>)"
          "map fst new = [next_li h1 ..< next_li h1 + length ss]"
          "\<And>b ob. b \<noteq> l \<Longrightarrow> hget b h1 = Some ob \<Longrightarrow> hget b h2 = Some ob"
          "\<And>b. b \<noteq> l \<Longrightarrow> hget b h2 = hget b h1 \<or> (\<exists>t. hget b h2 = Some (str_obj t))"
          "next_li h2 = next_li h1 + length ss"
          by (rule b6b_as_list_ok [OF hinv_rc [OF inv1] lo1(1) nl1 s Some]) blast
        have "h2 = h'" using run1 run2 by simp
        note h' = h2 [unfolded this]
        have new: "distinct (map fst new)" "\<And>n. n \<in> set (map fst new) \<Longrightarrow> n < next_li h'"
          unfolding h'(3,6) by simp_all
        have "obj_nodes_ok (next_li h') (lo1\<lparr>ob_l := Items new\<rparr>)"
          using new by (force simp: obj_nodes_ok_def list_all_iff)
        moreover have "obj_nodes_ok n (str_obj t)" for n t by (simp add: obj_nodes_ok_def)
        ultimately have "hget b h' = hget b h1 \<or> (\<exists>ob. hget b h' = Some ob \<and> obj_nodes_ok (next_li h') ob)" for b
          using h'(2,5) by (cases "b = l") blast+
        then have "nodes_ok h'"
          using h'(6) by (intro nodes_ok_as_list [OF hinv_nodes [OF inv1]]) simp_all
        moreover have "refc_at a h' = refc_at a h1" if aP: "a \<in> P" for a
        proof (cases "a = l")
          case True
          then show ?thesis using h'(2) lo1(1) by (simp add: refc_at_def)
        next
          case False
          obtain ob where "hget a h1 = Some ob" using hinv_private [OF inv1 aP] by (auto simp: refc_at_def)
          with h'(4) [OF False this] show ?thesis by (simp add: refc_at_def)
        qed
        ultimately show ?thesis by (intro hinvI [OF inv1 h'(1)]) simp_all
      qed
    qed
  qed
qed

text \<open>
  \<^verbatim>\<open>b6b_list_from\<close> builds the same list in an object of its own; it returns only if the text is
  well formed, or malformed in its first item.
\<close>

lemma b6b_list_from_hinv:
  assumes inv: "hinv P R h" and run: "b6b_list_from s h = Some (r, h')"
  shows "case r of None \<Rightarrow> hinv P R h' | Some l \<Rightarrow> hinv P (add_mset l R) h' \<and> l \<notin> P"
proof -
  obtain l h1 where new: "b6b_list_new h = (l, h1)" by fastforce
  note n = b6b_list_new_hinv [OF inv new]
  define lo where "lo = new_obj\<lparr>ob_l := Items []\<rparr>"
  have lo: "hget l h1 = Some lo" "ob_l lo = Items []"
    using b6b_new_hinv(3) [OF inv new [unfolded b6b_list_new_def]]
    by (simp_all add: new_obj_def refs_of_def lo_def)
  have leaf: "obj_nodes_ok k (str_obj t)" for k t by (simp add: obj_nodes_ok_def)
  show ?thesis
  proof (cases "snd (lex s)")
    case True
    from do_as_list_run [OF hinv_rc [OF n(1)] lo, of s] True obtain h2 its where
      r: "b6b_do_as_list l s h1 = Some (True, h2)" "rc_ok (add_mset l R) h2"
      "hget l h2 = Some (lo\<lparr>ob_l := Items its\<rparr>)"
      "map fst its = [next_li h1 ..< next_li h1 + length (fst (lex s))]"
      "map snd its = [length (cells h1) ..< length (cells h1) + length (fst (lex s))]"
      "next_li h2 = next_li h1 + length (fst (lex s))"
      "length (cells h2) = length (cells h1) + length (fst (lex s))"
      "map (\<lambda>p. hget (snd p) h2) its = map (Some \<circ> str_obj) (fst (lex s))"
      "\<forall>b. b \<noteq> l \<longrightarrow> b < length (cells h1) \<longrightarrow> hget b h2 = hget b h1"
      by auto
    have h': "r = Some l" "h' = h2" using run new r(1) by (simp_all add: b6b_list_from_def)
    have "hget b h2 = hget b h1 \<or> (\<exists>ob. hget b h2 = Some ob \<and> obj_nodes_ok (next_li h2) ob)" for b
    proof -
      consider "b = l" | "b \<noteq> l" "b < length (cells h1)" | "b \<in> set (map snd its)" | "length (cells h2) \<le> b"
        using r(5,7) by fastforce
      then show ?thesis
      proof cases
        case 1
        have "distinct (map fst its)" "\<And>n. n \<in> set (map fst its) \<Longrightarrow> n < next_li h2"
          unfolding r(4,6) by simp_all
        then have "obj_nodes_ok (next_li h2) (lo\<lparr>ob_l := Items its\<rparr>)"
          by (force simp: obj_nodes_ok_def list_all_iff)
        with 1 r(3) show ?thesis by blast
      next
        case 3
        then have "hget b h2 \<in> set (map (\<lambda>p. hget (snd p) h2) its)" by force
        then show ?thesis using leaf unfolding r(8) by auto
      next
        case 4
        then show ?thesis using r(7) by (simp add: hget_def)
      qed (use r(9) in blast)
    qed
    then have "nodes_ok h2"
      using r(6) by (intro nodes_ok_as_list [OF hinv_nodes [OF n(1)]]) simp_all
    moreover have "refc_at a h2 = refc_at a h1" if aP: "a \<in> P" for a
    proof -
      obtain ob where ob: "hget a h1 = Some ob" using hinv_private [OF n(1) aP] by (auto simp: refc_at_def)
      have "a \<noteq> l" using n(2) aP by blast
      with r(9) hget_Some_less [OF ob] show ?thesis by (simp add: refc_at_def)
    qed
    ultimately have "hinv P (add_mset l R) h2" by (intro hinvI [OF n(1) r(2)]) simp_all
    with h' n(2) show ?thesis by simp
  next
    case False
    from do_as_list_bad [OF hinv_rc [OF n(1)] lo False] obtain h2 where
      r: "b6b_do_as_list l s h1 = Some (False, h2)" "\<And>b. b \<noteq> l \<Longrightarrow> hget b h2 = hget b h1"
      "hget l h2 = Some (lo\<lparr>ob_l := (if fst (lex s) = [] then Items [] else Freed_items)\<rparr>)"
      "next_li h1 \<le> next_li h2"
      by blast
    with run new obtain h3 where h3: "r = None" "b6b_destroy l h2 = Some h3" "h' = h3"
      by (auto simp: b6b_list_from_def bind_Some)
    have e: "fst (lex s) = []"
      using h3(2) r(3) by (auto simp: b6b_destroy_def bind_Some destroy_refs_def split: if_splits)
    have same: "hget b h2 = hget b h1" for b
      using r(2,3) lo e by (cases "b = l") simp_all
    have "hinv (insert l P) (add_mset l R) h2"
    proof (rule hinvI [OF n(3)])
      show "rc_ok (add_mset l R) h2" using rc_ok_cong [of h2 h1, OF same] hinv_rc [OF n(1)] by simp
      show "nodes_ok h2"
        by (rule nodes_ok_as_list [OF hinv_nodes [OF n(1)] r(4)]) (simp add: same)
    qed (simp_all add: refc_at_def same)
    from b6b_destroy_hinv [OF this h3(2)] n(2) h3 show ?thesis by simp
  qed
qed

section \<open>Dictionaries\<close>

lemma dict_walk_step:
  assumes "dict_walk hf k (x # y # its) h = Some (p, h')"
  obtains "b6b_obj_hash (snd x) h = Some (False, h')" and "p = D_fail"
  | "b6b_obj_hash (snd x) h = Some (True, h')" and "b6b_obj_eq (snd x) k h' = Some True"
      and "p = D_at (fst x) (snd x) (fst y) (snd y)"
  | h1 where "b6b_obj_hash (snd x) h = Some (True, h1)" and "b6b_obj_eq (snd x) k h1 = Some False"
      and "dict_walk hf k its h1 = Some (p, h')"
  using assms by (cases x; cases y) (auto simp: bind_Some split: if_splits)

lemma dict_walk_conv: "dict_walk hf k its h = Some (p, h') \<Longrightarrow> conv_le h h'"
proof (induction its arbitrary: h rule: induct_list012)
  case 1
  then show ?case by simp
next
  case (2 x)
  then show ?case by (cases x) (auto split: if_splits dest: b6b_obj_hash_conv_le)
next
  case (3 x y its)
  from "3.prems" show ?case
    by (cases rule: dict_walk_step) (blast intro: conv_le_trans "3.IH" dest: b6b_obj_hash_conv_le)+
qed

lemma dict_walk_hinv: "dict_walk hf k its h = Some (p, h') \<Longrightarrow> hinv P R h \<Longrightarrow> hinv P R h'"
  by (blast intro: hinv_conv dict_walk_conv)

lemma dict_find_hinv: "dict_find hf d k h = Some (p, h') \<Longrightarrow> hinv P R h \<Longrightarrow> hinv P R h'"
  by (auto simp: dict_find_def bind_Some split: if_splits dest!: b6b_obj_hash_conv_le
      intro: hinv_conv dict_walk_hinv)

text \<open>The nodes found are nodes of the dictionary.\<close>

lemma dict_walk_at:
  "dict_walk hf k its h = Some (D_at kn ka vn va, h') \<Longrightarrow> (kn, ka) \<in> set its \<and> (vn, va) \<in> set its"
proof (induction its arbitrary: h rule: induct_list012)
  case 1
  then show ?case by simp
next
  case (2 x)
  then show ?case by (cases x) (auto split: if_splits)
next
  case (3 x y its)
  from "3.prems" show ?case by (cases rule: dict_walk_step) (use "3.IH" in force)+
qed

lemma items_of_conv: "conv_le h h' \<Longrightarrow> items_of d h = Some its \<Longrightarrow> items_of d h' = Some its"
  by (auto simp: items_of_Some obj_le_def elim: conv_leD)

lemma dict_find_conv: "dict_find hf d k h = Some (p, h') \<Longrightarrow> conv_le h h'"
  by (auto simp: dict_find_def bind_Some split: if_splits
      dest!: b6b_obj_hash_conv_le dict_walk_conv intro: conv_le_trans)

lemma dict_find_at:
  assumes "dict_find hf d k h = Some (D_at kn ka vn va, h')"
  obtains its where "items_of d h' = Some its" and "(kn, ka) \<in> set its" and "(vn, va) \<in> set its"
proof -
  from assms obtain h1 its where r: "b6b_obj_hash k h = Some (True, h1)" "items_of d h1 = Some its"
    "dict_walk hf k its h1 = Some (D_at kn ka vn va, h')"
    by (auto simp: dict_find_def bind_Some split: if_splits)
  from that [OF items_of_conv [OF dict_walk_conv [OF r(3)] r(2)]] dict_walk_at [OF r(3)]
  show thesis by blast
qed

lemma b6b_dict_get_hinv:
  assumes inv: "hinv P R h" and run: "b6b_dict_get d k h = Some (r, h')"
  shows "hinv P R h'" and "r = Some (Some v) \<Longrightarrow> v \<notin> P"
proof -
  from run obtain p where p: "dict_find False d k h = Some (p, h')"
    "r = (case p of D_fail \<Rightarrow> None | D_absent \<Rightarrow> Some None | D_at _ _ _ v \<Rightarrow> Some (Some v))"
    by (auto simp: b6b_dict_get_def bind_Some)
  show inv': "hinv P R h'" by (rule dict_find_hinv [OF p(1) inv])
  assume "r = Some (Some v)"
  with p(2) obtain kn ka vn where "p = D_at kn ka vn v" by (auto split: dict_pos.splits)
  with p(1) obtain its where "items_of d h' = Some its" "(vn, v) \<in> set its" by (auto elim: dict_find_at)
  with hinv_item [OF inv'] show "v \<notin> P" by force
qed

text \<open>
  \<^verbatim>\<open>b6b_unref(vli->o); vli->o = b6b_ref(v)\<close>: for a moment the dictionary still lists the old
  value.  The destruction does not look at a list that stays alive, so it runs as if the value
  were gone from it.
\<close>

lemma unrefs_hset_ahead:
  "b6b_unrefs as (hset d ob' h) = Some h1 \<Longrightarrow> hget d h = Some ob \<Longrightarrow> ob_refc ob' = ob_refc ob \<Longrightarrow>
   hget d h1 \<noteq> None \<Longrightarrow>
   \<exists>c. hget d h1 = Some (ob'\<lparr>ob_refc := c\<rparr>) \<and> b6b_unrefs as h = Some (hset d (ob\<lparr>ob_refc := c\<rparr>) h1)"
proof (induction as h arbitrary: ob ob' rule: b6b_unrefs.induct)
  case (1 h)
  then have h1: "h1 = hset d ob' h" by simp
  have "hset d ob (hset d ob' h) = h" using "1.prems"(2)
    by (simp add: hset_def hget_Some_nth list_update_same_conv hget_Some_less)
  moreover have "ob'\<lparr>ob_refc := ob_refc ob\<rparr> = ob'" using "1.prems"(3) by (cases ob') simp
  moreover have "ob\<lparr>ob_refc := ob_refc ob\<rparr> = ob" by (cases ob) simp
  ultimately have "hget d h1 = Some (ob'\<lparr>ob_refc := ob_refc ob\<rparr>)
      \<and> b6b_unrefs [] h = Some (hset d (ob\<lparr>ob_refc := ob_refc ob\<rparr>) h1)"
    using h1 "1.prems"(2) by (simp add: hget_hset)
  then show ?case by (rule exI)
next
  case (2 a as h)
  obtain x where x: "hget a (hset d ob' h) = Some x" "ob_refc x \<noteq> 0"
    using "2.prems"(1) by (auto split: option.splits if_splits)
  then obtain y where y: "hget a h = Some y" "ob_refc y = ob_refc x" "a \<noteq> d \<Longrightarrow> y = x"
    using "2.prems"(2,3) by (auto simp: hget_hset split: if_splits)
  show ?case
  proof (cases "ob_refc x = 1")
    case True
    have ad: "a \<noteq> d"
    proof
      assume "a = d"
      with "2.prems"(1) x True obtain rs where "b6b_unrefs (rs @ as) (hfree d (hset d ob' h)) = Some h1"
        by (auto split: option.splits)
      then have "hget d h1 = None" using unrefs_frame by (cases "hget d h1") (fastforce simp: hget_hfree)+
      with "2.prems"(4) show False by simp
    qed
    with "2.prems"(1) x True obtain rs where rs: "destroy_refs x = Some rs"
      "b6b_unrefs (rs @ as) (hfree a (hset d ob' h)) = Some h1"
      by (auto split: option.splits)
    have eq: "hfree a (hset d ob' h) = hset d ob' (hfree a h)"
      using ad by (simp add: hfree_def hset_def list_update_swap)
    have "hget d (hfree a h) = Some ob" using ad "2.prems"(2) by (simp add: hget_hfree)
    from "2.IH"(1) [OF y(1) _ _ rs(1) [folded y(3) [OF ad]] rs(2) [unfolded eq] this "2.prems"(3,4)]
    obtain c where "hget d h1 = Some (ob'\<lparr>ob_refc := c\<rparr>)"
      "b6b_unrefs (rs @ as) (hfree a h) = Some (hset d (ob\<lparr>ob_refc := c\<rparr>) h1)"
      using x(2) y(2) True by auto
    then show ?thesis using y x(2) True rs(1) ad by auto
  next
    case False
    let ?x = "x\<lparr>ob_refc := ob_refc x - 1\<rparr>" and ?y = "y\<lparr>ob_refc := ob_refc y - 1\<rparr>"
    have run: "b6b_unrefs as (hset a ?x (hset d ob' h)) = Some h1" using "2.prems"(1) x False by simp
    show ?thesis
    proof (cases "a = d")
      case True
      then have xo: "x = ob'" "y = ob" using x y "2.prems"(2) by (auto simp: hget_hset)
      have eq: "hset a ?x (hset d ob' h) = hset d ?x (hset a ?y h)" using True by (simp add: hset_def)
      have "hget d (hset a ?y h) = Some ?y" using "2.prems"(2) True by (simp add: hget_hset)
      from "2.IH"(2) [OF y(1) _ _ run [unfolded eq] this _ "2.prems"(4)]
      obtain c where "hget d h1 = Some (?x\<lparr>ob_refc := c\<rparr>)"
        "b6b_unrefs as (hset a ?y h) = Some (hset d (?y\<lparr>ob_refc := c\<rparr>) h1)"
        using x(2) y(2) False True by auto
      then show ?thesis using y x(2) False xo True by auto
    next
      case ad: False
      then have xy: "y = x" by (rule y(3))
      have eq: "hset a ?x (hset d ob' h) = hset d ob' (hset a ?x h)"
        using ad by (simp add: hset_def list_update_swap)
      have "hget d (hset a ?x h) = Some ob" using ad y(1) "2.prems"(2) by (simp add: hget_hset)
      from "2.IH"(2) [OF y(1) _ _ run [unfolded eq, folded xy] this [folded xy] "2.prems"(3,4)]
      obtain c where "hget d h1 = Some (ob'\<lparr>ob_refc := c\<rparr>)"
        "b6b_unrefs as (hset a ?x h) = Some (hset d (ob\<lparr>ob_refc := c\<rparr>) h1)"
        using x(2) y(2) False xy by auto
      then show ?thesis using y x(2) False xy by auto
    qed
  qed
qed

lemma map_of_set_node:
  assumes "distinct (map fst its)" and "map_of its n = Some old"
  shows "add_mset old (mset (map snd (map (\<lambda>(m, x). (m, if m = n then a else x)) its)))
       = add_mset a (mset (map snd its))"
  using assms
proof (induction its)
  case Nil
  then show ?case by simp
next
  case (Cons p its)
  obtain m y where p: "p = (m, y)" by fastforce
  show ?case
  proof (cases "m = n")
    case True
    have "n \<notin> set (map fst its)" using Cons.prems(1) p True by simp
    then have "map (\<lambda>(m, x). (m, if m = n then a else x)) its = its" by (intro map_idI) force
    with True Cons.prems(2) p show ?thesis by simp
  next
    case False
    with Cons p show ?thesis by (simp add: add_mset_commute)
  qed
qed

lemma b6b_ref_hset_ahead:
  assumes "b6b_ref v (hset d y h) = Some h3" and "hget d h = Some x" and "ob_refc y = ob_refc x"
  obtains c h3' where "b6b_ref v h = Some h3'" and "h3 = hset d (y\<lparr>ob_refc := c\<rparr>) h3'"
    and "hget d h3' = Some (x\<lparr>ob_refc := c\<rparr>)"
proof -
  obtain vo where vo: "hget v (hset d y h) = Some vo" "h3 = hset v (vo\<lparr>ob_refc := Suc (ob_refc vo)\<rparr>) (hset d y h)"
    using assms(1) by (auto simp: b6b_ref_def hupd_Some)
  show thesis
  proof (cases "v = d")
    case True
    with vo(1) assms(2) have vo_y: "vo = y" by (simp add: hget_hset)
    have "b6b_ref v h = Some (hset d (x\<lparr>ob_refc := Suc (ob_refc x)\<rparr>) h)"
      using True assms(2) by (simp add: b6b_ref_def hupd_def)
    moreover have "h3 = hset d (y\<lparr>ob_refc := Suc (ob_refc x)\<rparr>) (hset d (x\<lparr>ob_refc := Suc (ob_refc x)\<rparr>) h)"
      using vo(2) True assms(3) vo_y by (simp add: hset_def)
    moreover have "hget d (hset d (x\<lparr>ob_refc := Suc (ob_refc x)\<rparr>) h) = Some (x\<lparr>ob_refc := Suc (ob_refc x)\<rparr>)"
      using assms(2) by (simp add: hget_hset)
    ultimately show thesis by (rule that)
  next
    case False
    with vo(1) assms(2) have v: "hget v h = Some vo" by (simp add: hget_hset)
    let ?w = "vo\<lparr>ob_refc := Suc (ob_refc vo)\<rparr>"
    have "b6b_ref v h = Some (hset v ?w h)" using v by (simp add: b6b_ref_def hupd_def)
    moreover have "y\<lparr>ob_refc := ob_refc x\<rparr> = y" using assms(3) by (cases y) simp
    then have "h3 = hset d (y\<lparr>ob_refc := ob_refc x\<rparr>) (hset v ?w h)"
      using vo(2) False by (simp add: hset_def list_update_swap)
    moreover have "hget d (hset v ?w h) = Some (x\<lparr>ob_refc := ob_refc x\<rparr>)"
      using assms(2) False v by (simp add: hget_hset)
    ultimately show thesis by (rule that)
  qed
qed

lemma set_node_hset:
  assumes run: "set_node d n v (hset d x h) = Some h'" and d: "hget d h \<noteq> None"
    and l: "ob_l x = Items its" and old: "map_of its n = Some old"
  shows "h' = hset d (x\<lparr>ob_l := Items (map (\<lambda>(m, y). (m, if m = n then v else y)) its)\<rparr>) h"
proof -
  have "hget d (hset d x h) = Some x" using d by (auto simp: hget_hset)
  with run l old show ?thesis by (simp add: set_node_def items_of_def hupd_def) (auto simp: hset_def)
qed

text \<open>Replacing the value of a node: one reference taken out of the list, one put in.\<close>

lemma hset_same: "hget a h = Some ob \<Longrightarrow> hset a ob h = h"
  by (metis hget_Some_nth hset_def list_update_id heap.surjective heap.update_convs(1))

lemma replace_item_hinv:
  assumes inv: "hinv P R h" and its: "items_of d h = Some its" "(n, old) \<in> set its" and v: "v \<notin> P"
    and r: "b6b_unref old h = Some h2" "b6b_ref v h2 = Some h3" "set_node d n v h3 = Some h4"
  shows "hinv P R h4"
proof -
  from its obtain ob where ob: "hget d h = Some ob" "ob_l ob = Items its" by (auto simp: items_of_Some)
  have ok: "obj_nodes_ok (next_li h) ob" using hinv_nodes [OF inv] ob(1) by (simp add: nodes_ok_iff)
  then have dist: "distinct (map fst its)" by (simp add: obj_nodes_ok_def ob(2))
  have ids: "\<forall>p\<in>set its. fst p < next_li h" using ok by (simp add: obj_nodes_ok_def ob(2) list_all_iff case_prod_beta)
  have old: "map_of its n = Some old" by (rule map_of_is_SomeI [OF dist its(2)])
  have oldP: "old \<notin> P" by (rule hinv_node [OF inv its(1) old])
  define ob' where "ob' = ob\<lparr>ob_l := Items (filter (\<lambda>(m, _). m \<noteq> n) its)\<rparr>"
  have inv': "hinv P (add_mset old R) (hset d ob' h)"
  proof (rule hinv_hset [OF inv ob(1)])
    show "mset (refs_of ob') + add_mset old R = mset (refs_of ob) + R"
      using mset_remove_node [OF dist old] by (simp add: refs_of_def ob(2) ob'_def)
    show "obj_nodes_ok (next_li h) ob'"
      using ids distinct_map_filter [OF dist] by (simp add: obj_nodes_ok_def ob'_def list_all_iff case_prod_beta)
  qed (use oldP in \<open>auto simp: ob'_def\<close>)
  \<comment> \<open>the list is still there after the destruction: its node is written\<close>
  have live: "hget d h2 \<noteq> None"
  proof -
    from r(3) have "hget d h3 \<noteq> None" by (auto simp: set_node_def items_of_def bind_Some)
    with r(2) show ?thesis by (auto simp: b6b_ref_def hupd_Some hget_hset split: if_splits)
  qed
  have undo: "hset d ob (hset d ob' h) = h"
    using ob(1) by (simp add: hset_def hget_Some_nth list_update_same_conv hget_Some_less)
  have d': "hget d (hset d ob' h) = Some ob'" using ob(1) by (simp add: hget_hset)
  have "b6b_unrefs [old] (hset d ob (hset d ob' h)) = Some h2" using r(1) by (simp add: undo b6b_unref_def)
  from unrefs_hset_ahead [OF this d' _ live] obtain c2 where
    h2o: "hget d h2 = Some (ob\<lparr>ob_refc := c2\<rparr>)"
    and h2u: "b6b_unrefs [old] (hset d ob' h) = Some (hset d (ob'\<lparr>ob_refc := c2\<rparr>) h2)" by (auto simp: ob'_def)
  define h2' where "h2' = hset d (ob'\<lparr>ob_refc := c2\<rparr>) h2"
  have h2': "b6b_unref old (hset d ob' h) = Some h2'" using h2u by (simp add: b6b_unref_def h2'_def)
  note inv2 = b6b_unref_hinv [OF inv' h2' oldP]
  have d2': "hget d h2' = Some (ob'\<lparr>ob_refc := c2\<rparr>)" using h2o by (simp add: h2'_def hget_hset)
  have h2: "h2 = hset d (ob\<lparr>ob_refc := c2\<rparr>) h2'"
    using hset_same [OF h2o] by (simp add: h2'_def hset_def)
  have same: "ob_refc (ob\<lparr>ob_refc := c2\<rparr>) = ob_refc (ob'\<lparr>ob_refc := c2\<rparr>)" by simp
  obtain c h3' where h3': "b6b_ref v h2' = Some h3'"
    and h3u: "h3 = hset d (ob\<lparr>ob_refc := c2, ob_refc := c\<rparr>) h3'"
    and d3u: "hget d h3' = Some (ob'\<lparr>ob_refc := c2, ob_refc := c\<rparr>)"
    by (rule b6b_ref_hset_ahead [OF r(2) [unfolded h2] d2' same])
  have h3: "h3 = hset d (ob\<lparr>ob_refc := c\<rparr>) h3'" and d3: "hget d h3' = Some (ob'\<lparr>ob_refc := c\<rparr>)"
    using h3u d3u by simp_all
  note inv3 = b6b_ref_hinv [OF inv2 h3' v]
  define its' where "its' = map (\<lambda>(m, x). (m, if m = n then v else x)) its"
  have live3: "hget d h3' \<noteq> None" using d3 by simp
  have l3: "ob_l (ob\<lparr>ob_refc := c\<rparr>) = Items its" by (simp add: ob(2))
  have h4: "h4 = hset d (ob\<lparr>ob_refc := c, ob_l := Items its'\<rparr>) h3'"
    unfolding its'_def by (rule set_node_hset [OF r(3) [unfolded h3] live3 l3 old])
  have nl: "next_li h \<le> next_li h3'"
    using unrefs_next_li [OF h2' [unfolded b6b_unref_def]] h3' by (auto simp: b6b_ref_def hupd_Some)
  have "add_mset old (mset (map snd its'))
      = add_mset old (add_mset v (mset (map snd (filter (\<lambda>(m, _). m \<noteq> n) its))))"
    unfolding its'_def map_of_set_node [OF dist old] mset_remove_node [OF dist old] by (rule add_mset_commute)
  then have its'_mset: "mset (map snd its') = add_mset v (mset (map snd (filter (\<lambda>(m, _). m \<noteq> n) its)))"
    by (simp only: add_mset_add_mset_same_iff)
  have fst': "map fst its' = map fst its" unfolding its'_def by (induction its) auto
  show ?thesis
    unfolding h4
  proof (rule hinv_hset [OF inv3 d3])
    show "mset (refs_of (ob\<lparr>ob_refc := c, ob_l := Items its'\<rparr>)) + R
        = mset (refs_of (ob'\<lparr>ob_refc := c\<rparr>)) + add_mset v R"
      using its'_mset by (simp add: refs_of_def ob'_def)
    have "fst ` set its' = fst ` set its" using fst' by (metis list.set_map)
    moreover have "\<forall>m\<in>fst ` set its. m < next_li h3'" using ids nl by fastforce
    ultimately have "\<forall>p\<in>set its'. fst p < next_li h3'" by (metis imageI)
    then show "obj_nodes_ok (next_li h3') (ob\<lparr>ob_refc := c, ob_l := Items its'\<rparr>)"
      using dist fst' by (simp add: obj_nodes_ok_def list_all_iff case_prod_beta)
  qed (use v in auto)
qed

lemma b6b_dict_set_hinv:
  assumes inv: "hinv P R h" and run: "b6b_dict_set d k v h = Some (ok, h')"
    and k: "k \<notin> P" and v: "v \<notin> P"
  shows "hinv P R h'"
proof -
  from run obtain p h1 where p: "dict_find True d k h = Some (p, h1)"
    by (auto simp: b6b_dict_set_def bind_Some)
  note inv1 = dict_find_hinv [OF p inv]
  show ?thesis
  proof (cases p)
    case D_fail
    with run p inv1 show ?thesis by (simp add: b6b_dict_set_def)
  next
    case D_absent
    with run p obtain h2 where r: "b6b_list_add d k h1 = Some h2" "b6b_list_add d v h2 = Some h'"
      by (auto simp: b6b_dict_set_def bind_Some)
    show ?thesis by (rule b6b_list_add_hinv [OF b6b_list_add_hinv [OF inv1 r(1) k] r(2) v])
  next
    case (D_at kn ka n old)
    with run p obtain h2 h3 h4 where r: "b6b_unref old h1 = Some h2" "b6b_ref v h2 = Some h3"
      "set_node d n v h3 = Some h4" "b6b_list_flush d h4 = Some h'"
      by (auto simp: b6b_dict_set_def bind_Some)
    from p D_at obtain its where "items_of d h1 = Some its" "(n, old) \<in> set its"
      by (auto elim: dict_find_at)
    from replace_item_hinv [OF inv1 this v r(1-3)] have "hinv P R h4" .
    from b6b_list_flush_hinv [OF this r(4)] show ?thesis .
  qed
qed

lemma pop_unref_hinv:
  assumes inv: "hinv P R h" and run: "pop_unref d n h = Some h'"
  shows "hinv P R h'"
proof -
  from run obtain x h1 where r: "b6b_list_pop d (Some n) h = Some (Some x, h1)" "b6b_unref x h1 = Some h'"
    by (auto simp: pop_unref_def bind_Some)
  note p = b6b_list_pop_hinv [OF inv r(1)]
  show ?thesis by (rule b6b_unref_hinv [OF p(1) r(2) p(2)])
qed

lemma b6b_dict_unset_hinv:
  assumes inv: "hinv P R h" and run: "b6b_dict_unset d k h = Some (ok, h')"
  shows "hinv P R h'"
proof -
  from run obtain p h1 where p: "dict_find False d k h = Some (p, h1)"
    by (auto simp: b6b_dict_unset_def bind_Some)
  note inv1 = dict_find_hinv [OF p inv]
  show ?thesis
  proof (cases p)
    case (D_at kn ka vn va)
    with run p obtain h2 where "pop_unref d kn h1 = Some h2" "pop_unref d vn h2 = Some h'"
      by (auto simp: b6b_dict_unset_def bind_Some)
    then show ?thesis by (blast intro: pop_unref_hinv inv1)
  qed (use run p inv1 in \<open>auto simp: b6b_dict_unset_def\<close>)
qed

section \<open>Arguments\<close>

lemma convert_arg_hinv:
  "hinv P R h \<Longrightarrow> convert_arg c a h = Some (ok, h') \<Longrightarrow> hinv P R h'"
  by (auto simp: convert_arg_def split: if_splits intro: b6b_as_list_hinv
      dest!: b6b_as_str_conv_le b6b_as_int_conv_le b6b_as_float_conv_le dest: hinv_conv)

definition parg_addr :: "parg \<Rightarrow> addr set" where
  "parg_addr p = (case p of Arg a \<Rightarrow> {a} | Rest _ \<Rightarrow> {})"

lemma vparse_hinv:
  "vparse fmt wants opt its m h = Some (argc, ps, h') \<Longrightarrow> hinv P R h \<Longrightarrow>
   hinv P R h' \<and> (\<Union>(parg_addr ` set ps) \<subseteq> set (map snd its))"
proof (induction fmt wants opt its m h arbitrary: argc ps rule: vparse.induct)
  case (1 wants opt its n h)
  then show ?case by auto
next
  case (2 c fmt wants opt its n h)
  show ?case
  proof (cases "c = CHR ''|''")
    case True
    with 2 show ?thesis by simp
  next
    case bar: False
    show ?thesis
    proof (cases its)
      case Nil
      with "2.prems" bar show ?thesis by auto
    next
      case (Cons p its')
      obtain li a where p: "p = (li, a)" by fastforce
      show ?thesis
      proof (cases wants)
        case Nil
        with "2.prems" bar Cons p show ?thesis by simp
      next
        case w: (Cons want wants')
        show ?thesis
        proof (cases "\<not> want")
          case True
          with "2.prems" bar Cons p w have "vparse fmt wants' opt its' (Suc n) h = Some (argc, ps, h')" by simp
          from "2.IH"(2) [OF bar Cons p [symmetric] w True this "2.prems"(2)] Cons p show ?thesis by auto
        next
          case want: False
          show ?thesis
          proof (cases "c = CHR ''*''")
            case True
            with "2.prems" bar Cons p w want show ?thesis by (auto simp: parg_addr_def)
          next
            case star: False
            with "2.prems" bar Cons p w want obtain ok h1 where conv: "convert_arg c a h = Some (ok, h1)"
              by (auto simp: bind_Some)
            note inv1 = convert_arg_hinv [OF "2.prems"(2) conv]
            show ?thesis
            proof (cases ok)
              case False
              with "2.prems" bar Cons p w want star conv inv1 show ?thesis by simp
            next
              case True
              with "2.prems" bar Cons p w want star conv obtain ps' where
                rest: "vparse fmt wants' opt its' (Suc n) h1 = Some (argc, ps', h')" "ps = Arg a # ps'"
                by (auto simp: bind_Some)
              from "2.IH"(3) [OF bar Cons p [symmetric] w want star, of "(ok, h1)" ok h1] conv True rest inv1
              have "hinv P R h' \<and> \<Union>(parg_addr ` set ps') \<subseteq> set (map snd its')" by simp
              then show ?thesis using rest(2) Cons p by (auto simp: parg_addr_def)
            qed
          qed
        qed
      qed
    qed
  qed
qed

lemma b6b_list_vparse_hinv:
  assumes inv: "hinv P R h" and run: "b6b_list_vparse l fmt wants h = Some (argc, ps, h')"
  shows "hinv P R h'" and "Arg a \<in> set ps \<Longrightarrow> a \<notin> P"
proof -
  from run obtain its where its: "items_of l h = Some its" "vparse fmt wants False its 0 h = Some (argc, ps, h')"
    by (auto simp: b6b_list_vparse_def bind_Some)
  note v = vparse_hinv [OF its(2) inv]
  show "hinv P R h'" using v by simp
  assume "Arg a \<in> set ps"
  then have "a \<in> set (map snd its)" using v by (force simp: parg_addr_def)
  with hinv_item [OF inv its(1)] show "a \<notin> P" by blast
qed

end
