(* ===== verification/Heap_Props.thy ===== *)
theory Heap_Props
  imports Heap_Inv
begin

text \<open>
  The properties of objects, conversions and lists (src/b6b_obj.c, src/b6b_str.c,
  src/b6b_list.c): what the operations compute, and that their reference counting is exact.
  The heaps \<open>demo_heap\<close> and \<open>self_heap\<close> are the concrete inputs of the witnesses.
\<close>

section \<open>Concrete heaps\<close>

text \<open>
  A list of the integer 7 and the string \<open>a b\<close>, which only the list refers to, and two more
  strings.
\<close>

definition demo_heap :: heap where
  "demo_heap = \<lparr>cells =
     [Some (new_obj\<lparr>ob_l := Items [(0, 1), (1, 2)]\<rparr>), Some (new_obj\<lparr>ob_i := Some 7\<rparr>),
      Some (new_obj\<lparr>ob_s := Some ''a b''\<rparr>), Some (new_obj\<lparr>ob_s := Some ''{a b} c''\<rparr>),
      Some (new_obj\<lparr>ob_s := Some ''7''\<rparr>)], next_li = 2\<rparr>"

definition demo_rank :: "addr \<Rightarrow> nat" where
  "demo_rank a = (if a = 0 then 1 else 0)"

lemma demo_heap_ok:
  "heap_wf demo_heap" "acyclic_by demo_rank demo_heap" "hash_ok demo_heap"
  "rc_ok {#0, 3, 4#} demo_heap" "nodes_ok demo_heap"
  by code_simp+

section \<open>Conversion to a string\<close>

text \<open>
  C27. Every object of a heap without reference cycles has a text, and \<^verbatim>\<open>b6b_as_str\<close> succeeds
  on it, stores that text at the object, and only adds representations: no list, count or
  existing representation changes, and every object keeps the text it stands for.  In
  particular the recursion into lists ends.
\<close>

theorem as_str_total:
  assumes "heap_wf h" and "acyclic_by rank h" and "hget a h \<noteq> None"
  shows "\<exists>t h' ob. text_of h a = Some t \<and> b6b_as_str a h = Some (True, h') \<and> hget a h' = Some ob
    \<and> ob_s ob = Some t \<and> conv_le h h' \<and> (\<forall>b s. text_of h b = Some s \<longrightarrow> text_of h' b = Some s)"
proof -
  from text_of_total [OF assms] obtain t where t: "text_of h a = Some t" .
  from b6b_as_str_text [OF t] obtain h' ob where "b6b_as_str a h = Some (True, h')" "text_ext h h'"
    "hget a h' = Some ob" "ob_s ob = Some t" .
  moreover have "conv_le h h'" "\<forall>b s. text_of h b = Some s \<longrightarrow> text_of h' b = Some s"
    using \<open>text_ext h h'\<close> by (auto intro: text_ext_conv text_of_ext)
  ultimately show ?thesis using t by blast
qed

lemma as_str_total_witness:
  "\<exists>h' ob. b6b_as_str 0 demo_heap = Some (True, h') \<and> hget 0 h' = Some ob \<and> ob_s ob = Some ''7 {a b}''"
proof -
  have "hget 0 demo_heap \<noteq> None" and t: "text_of demo_heap 0 = Some ''7 {a b}''" by code_simp+
  from as_str_total [OF demo_heap_ok(1,2) this(1)] t show ?thesis by auto
qed

section \<open>Equality\<close>

text \<open>
  C30. \<^verbatim>\<open>b6b_obj_eq\<close>, after \<^verbatim>\<open>b6b_obj_hash\<close> of both objects, tells whether they have the same
  text, whatever their representations: comparing the cached hashes first changes nothing,
  and hashing changes no text.
\<close>

theorem obj_eq_texts:
  assumes "hash_ok h" and a: "text_of h a = Some s" and b: "text_of h b = Some t"
  shows "\<exists>h1 h2. b6b_obj_hash a h = Some (True, h1) \<and> b6b_obj_hash b h1 = Some (True, h2)
    \<and> b6b_obj_eq a b h2 = Some (s = t) \<and> hash_ok h2 \<and> conv_le h h2"
proof -
  from b6b_obj_hash_text [OF a assms(1)] obtain h1 where h1: "b6b_obj_hash a h = Some (True, h1)"
    "text_ext h h1" "hash_ok h1" "hashed h1 a s" .
  from b6b_obj_hash_text [OF text_of_ext [OF h1(2) b] h1(3)] obtain h2 where h2:
    "b6b_obj_hash b h1 = Some (True, h2)" "text_ext h1 h2" "hash_ok h2" "hashed h2 b t" .
  have "b6b_obj_eq a b h2 = Some (s = t)"
    by (rule b6b_obj_eq_text [OF hashed_ext [OF text_ext_conv [OF h2(2)] h1(4)] h2(4)])
  moreover have "conv_le h h2" by (rule text_ext_conv [OF text_ext_trans [OF h1(2) h2(2)]])
  ultimately show ?thesis using h1(1) h2(1,3) by blast
qed

lemma obj_eq_texts_witness:
  "\<exists>h1 h2. b6b_obj_hash 1 demo_heap = Some (True, h1) \<and> b6b_obj_hash 4 h1 = Some (True, h2)
    \<and> b6b_obj_eq 1 4 h2 = Some True"
proof -
  have "text_of demo_heap 1 = Some ''7''" "text_of demo_heap 4 = Some ''7''" by code_simp+
  from obj_eq_texts [OF demo_heap_ok(3) this] show ?thesis by auto
qed

section \<open>Conversion to a list\<close>

text \<open>
  C28. \<^verbatim>\<open>b6b_as_list\<close> on a string object reads the text as a list.  A well-formed text becomes
  a list of new string objects, one per token, each with the list's reference as its only one;
  other objects stay as they are.  A malformed text is refused and every object, the
  string's own included, is as before.  In both cases the counts are exact.
\<close>

theorem as_list_parses:
  assumes "rc_ok R h" and "hget l h = Some lo" and "ob_l lo = No_list" and "ob_s lo = Some s"
  shows "case tokens s of
      None \<Rightarrow> \<exists>h'. b6b_as_list l h = Some (False, h') \<and> rc_ok R h' \<and> (\<forall>b. hget b h' = hget b h)
    | Some ss \<Rightarrow> \<exists>h' new. b6b_as_list l h = Some (True, h') \<and> rc_ok R h'
        \<and> hget l h' = Some (lo\<lparr>ob_l := Items new\<rparr>)
        \<and> map (\<lambda>p. hget (snd p) h') new = map (Some \<circ> str_obj) ss
        \<and> (\<forall>b ob. b \<noteq> l \<longrightarrow> hget b h = Some ob \<longrightarrow> hget b h' = Some ob)"
proof (cases "tokens s")
  case None
  obtain h' where "b6b_as_list l h = Some (False, h')" "\<And>b. hget b h' = hget b h" "rc_ok R h'"
    using b6b_as_list_bad [OF assms None] by metis
  with None show ?thesis by auto
next
  case (Some ss)
  obtain h' new where "b6b_as_list l h = Some (True, h')" "rc_ok R h'"
    "hget l h' = Some (lo\<lparr>ob_l := Items new\<rparr>)"
    "map (\<lambda>p. hget (snd p) h') new = map (Some \<circ> str_obj) ss"
    "\<And>b ob. b \<noteq> l \<Longrightarrow> hget b h = Some ob \<Longrightarrow> hget b h' = Some ob"
    using b6b_as_list_ok [OF assms Some] by metis
  then show ?thesis unfolding Some by auto
qed

lemma as_list_parses_witness:
  "\<exists>h' (new :: (litem \<times> addr) list). b6b_as_list 3 demo_heap = Some (True, h')
    \<and> map (\<lambda>p. hget (snd p) h') new = [Some (str_obj ''a b''), Some (str_obj ''c'')]"
proof -
  have "hget 3 demo_heap = Some (str_obj ''{a b} c'')" by code_simp
  moreover have "tokens ''{a b} c'' = Some [''a b'', ''c'']" by code_simp
  ultimately show ?thesis
    using as_list_parses [OF demo_heap_ok(4), of 3 "str_obj ''{a b} c''" "''{a b} c''"]
    by (simp del: map_eq_Cons_conv) (elim exE conjE, intro exI conjI)
qed

section \<open>Reference counting\<close>

text \<open>
  C12. On a heap whose counts are exact, giving up one reference with \<^verbatim>\<open>b6b_unref\<close> ends and
  never follows a freed pointer or frees an object twice, however deep the destruction
  goes; afterwards the counts are exact again, what remains is unchanged but for its count, and
  an object is gone only if nothing refers to it any more.
\<close>

theorem unref_exact:
  assumes "rc_ok (add_mset a R) h"
  shows "\<exists>h'. b6b_unref a h = Some h' \<and> rc_ok R h'
    \<and> (\<forall>b ob'. hget b h' = Some ob' \<longrightarrow> (\<exists>ob. hget b h = Some ob \<and> ob' = ob\<lparr>ob_refc := ob_refc ob'\<rparr>))
    \<and> (\<forall>b. hget b h' = None \<longrightarrow> count (heap_refs h' + R) b = 0)"
proof -
  from unref_ok [OF assms] obtain h' where h': "b6b_unref a h = Some h'" "rc_ok R h'" .
  have "\<exists>ob. hget b h = Some ob \<and> ob' = ob\<lparr>ob_refc := ob_refc ob'\<rparr>" if "hget b h' = Some ob'" for b ob'
    by (rule unrefs_frame [OF h'(1) [unfolded b6b_unref_def] that])
  moreover have "count (heap_refs h' + R) b = 0" if "hget b h' = None" for b
    using h'(2) [unfolded rc_ok_iff, rule_format, of b] that by simp
  ultimately show ?thesis using h' by blast
qed

lemma unref_exact_witness:
  "\<exists>h'. b6b_unref 0 demo_heap = Some h' \<and> rc_ok {#3, 4#} h' \<and> hget 1 h' = None"
proof -
  have "rc_ok (add_mset 0 {#3, 4#}) demo_heap" using demo_heap_ok(4) by (simp add: add_mset_commute)
  from unref_exact [OF this] obtain h' where "b6b_unref 0 demo_heap = Some h'" "rc_ok {#3, 4#} h'" by blast
  moreover have "map_option (hget 1) (b6b_unref 0 demo_heap) = Some None" by code_simp
  ultimately show ?thesis by auto
qed

end
