(* ===== verification/Dict_Props.thy ===== *)
theory Dict_Props
  imports Heap_Props
begin

text \<open>
  Dictionaries as partial maps.  \<open>entries\<close> reads the alternating list of a dictionary as
  triples of key object, key text and value; the dictionary stands for the map of the texts to
  the values.  The locale \<open>text_map\<close> is the contract that variables, arguments and the
  \<^verbatim>\<open>dict.*\<close> procedures rely on, and the interpretation at the end shows that
  \<^verbatim>\<open>b6b_dict_get\<close>, \<^verbatim>\<open>b6b_dict_set\<close> and \<^verbatim>\<open>b6b_dict_unset\<close> fulfil it, with exact reference
  counts.
\<close>

section \<open>The contract\<close>

text \<open>
  \<open>denotes\<close> is what an object stands for as a key, \<open>cached\<close> a text that no operation on the map
  takes away again.
\<close>

locale text_map =
  fixes inv :: "'h \<Rightarrow> bool"
    and valid :: "'k \<Rightarrow> bool"
    and denotes :: "'h \<Rightarrow> 'k \<Rightarrow> string option"
    and cached :: "'h \<Rightarrow> 'k \<Rightarrow> string option"
    and look :: "'h \<Rightarrow> string \<Rightarrow> 'k option"
    and get :: "'k \<Rightarrow> 'h \<Rightarrow> ('k option option \<times> 'h) option"
    and set :: "'k \<Rightarrow> 'k \<Rightarrow> 'h \<Rightarrow> (bool \<times> 'h) option"
    and unset :: "'k \<Rightarrow> 'h \<Rightarrow> (bool \<times> 'h) option"
  assumes cached_text: "cached h k = Some s \<Longrightarrow> denotes h k = Some s"
    and get_law: "inv h \<Longrightarrow> denotes h k = Some s \<Longrightarrow>
      \<exists>h'. get k h = Some (Some (look h s), h') \<and> inv h' \<and> look h' = look h
        \<and> (\<forall>k' t. cached h k' = Some t \<longrightarrow> cached h' k' = Some t)"
    and set_law: "inv h \<Longrightarrow> valid k \<Longrightarrow> valid v \<Longrightarrow> denotes h k = Some s \<Longrightarrow>
      \<exists>h'. set k v h = Some (True, h') \<and> inv h' \<and> look h' = (look h)(s \<mapsto> v) \<and> cached h' k = Some s
        \<and> (\<forall>k' t. valid k' \<longrightarrow> cached h k' = Some t \<longrightarrow> cached h' k' = Some t)"
    and unset_law: "inv h \<Longrightarrow> valid k \<Longrightarrow> denotes h k = Some s \<Longrightarrow>
      \<exists>h'. unset k h = Some (True, h') \<and> inv h' \<and> look h' = (look h)(s := None) \<and> cached h' k = Some s
        \<and> (\<forall>k' t. valid k' \<longrightarrow> cached h k' = Some t \<longrightarrow> cached h' k' = Some t)"
begin

lemma get_after_set:
  assumes "inv h" "valid k" "valid v" "denotes h k = Some s"
  shows "\<exists>h1 h2. set k v h = Some (True, h1) \<and> get k h1 = Some (Some (Some v), h2) \<and> inv h2"
proof -
  from set_law [OF assms] obtain h1 where h1: "set k v h = Some (True, h1)" "inv h1"
    "look h1 = (look h)(s \<mapsto> v)" "cached h1 k = Some s" by blast
  from get_law [OF h1(2) cached_text [OF h1(4)]] h1 show ?thesis by auto
qed

lemma get_after_set_other:
  assumes "inv h" "valid k" "valid v" "denotes h k = Some s" "valid k'" "cached h k' = Some t" "t \<noteq> s"
  shows "\<exists>h1 h2. set k v h = Some (True, h1) \<and> get k' h1 = Some (Some (look h t), h2) \<and> inv h2"
proof -
  from set_law [OF assms(1-4)] assms(5,6) obtain h1 where h1: "set k v h = Some (True, h1)" "inv h1"
    "look h1 = (look h)(s \<mapsto> v)" "cached h1 k' = Some t" by blast
  from get_law [OF h1(2) cached_text [OF h1(4)]] h1 assms(7) show ?thesis by auto
qed

lemma get_after_unset:
  assumes "inv h" "valid k" "denotes h k = Some s"
  shows "\<exists>h1 h2. unset k h = Some (True, h1) \<and> get k h1 = Some (Some None, h2) \<and> inv h2"
proof -
  from unset_law [OF assms] obtain h1 where h1: "unset k h = Some (True, h1)" "inv h1"
    "look h1 = (look h)(s := None)" "cached h1 k = Some s" by blast
  from get_law [OF h1(2) cached_text [OF h1(4)]] h1 show ?thesis by auto
qed

lemma last_set_wins:
  assumes "inv h" "valid k" "valid v" "valid w" "denotes h k = Some s"
  shows "\<exists>h1 h2. set k v h = Some (True, h1) \<and> set k w h1 = Some (True, h2) \<and> inv h2
    \<and> look h2 = (look h)(s \<mapsto> w)"
proof -
  from set_law [OF assms(1,2,3,5)] obtain h1 where h1: "set k v h = Some (True, h1)" "inv h1"
    "look h1 = (look h)(s \<mapsto> v)" "cached h1 k = Some s" by blast
  from set_law [OF h1(2) assms(2,4) cached_text [OF h1(4)]] h1 show ?thesis by auto
qed

end

section \<open>Entries\<close>

definition key_str :: "heap \<Rightarrow> addr \<Rightarrow> string option" where
  "key_str h a = Option.bind (hget a h) ob_s"

fun entries :: "heap \<Rightarrow> (litem \<times> addr) list \<Rightarrow> (addr \<times> string \<times> addr) list option" where
  "entries h [] = Some []"
| "entries h [x] = None"
| "entries h (k # v # its) = do {
     s \<leftarrow> key_str h (snd k);
     es \<leftarrow> entries h its;
     Some ((snd k, s, snd v) # es)
   }"

definition dict_rep :: "addr \<Rightarrow> heap \<Rightarrow> (addr \<times> string \<times> addr) list option" where
  "dict_rep d h = Option.bind (items_of d h) (entries h)"

text \<open>The map a dictionary stands for.\<close>

definition dict_map :: "addr \<Rightarrow> heap \<Rightarrow> string \<Rightarrow> addr option" where
  "dict_map d h = (case dict_rep d h of None \<Rightarrow> Map.empty | Some es \<Rightarrow> map_of (map snd es))"

text \<open>Keys are pairwise different texts, and no key is the dictionary itself.\<close>

definition entries_ok :: "addr \<Rightarrow> (addr \<times> string \<times> addr) list \<Rightarrow> bool" where
  "entries_ok d es \<longleftrightarrow> distinct (map (fst \<circ> snd) es) \<and> d \<notin> set (map fst es)"

definition dict_ok :: "addr \<Rightarrow> heap \<Rightarrow> bool" where
  "dict_ok d h \<longleftrightarrow> (case dict_rep d h of None \<Rightarrow> False | Some es \<Rightarrow> entries_ok d es)"

lemma entries_even: "entries h its = Some es \<Longrightarrow> length its = 2 * length es"
  by (induction h its arbitrary: es rule: entries.induct) (auto simp: bind_Some)

lemma entries_append:
  "even (length xs) \<Longrightarrow> entries h (xs @ ys) = do { e1 \<leftarrow> entries h xs; e2 \<leftarrow> entries h ys; Some (e1 @ e2) }"
proof (induction h xs rule: entries.induct)
  case (3 h k v its)
  then show ?case
    by (cases "key_str h (snd k)"; cases "entries h its"; cases "entries h ys") simp_all
qed simp_all

lemma entries_cong:
  "entries h its = Some es \<Longrightarrow> (\<And>a s v. (a, s, v) \<in> set es \<Longrightarrow> key_str h' a = Some s) \<Longrightarrow> entries h' its = Some es"
  by (induction h its arbitrary: es rule: entries.induct) (fastforce simp: bind_Some)+

lemma entries_key: "entries h its = Some es \<Longrightarrow> (a, s, v) \<in> set es \<Longrightarrow> key_str h a = Some s \<and> a \<in> set (map snd its)"
  by (induction h its arbitrary: es rule: entries.induct) (fastforce simp: bind_Some)+

lemma entries_key_item:
  assumes "entries h its = Some es" and "a \<in> set (map fst es)"
  shows "a \<in> set (map snd its)"
proof -
  from assms(2) obtain s v where "(a, s, v) \<in> set es" by fastforce
  with entries_key [OF assms(1)] show ?thesis by blast
qed

lemma key_str_conv: "conv_le h h' \<Longrightarrow> key_str h a = Some s \<Longrightarrow> key_str h' a = Some s"
  by (auto simp: key_str_def bind_Some obj_le_def elim!: conv_leD)

lemma key_str_text: "key_str h a = Some s \<Longrightarrow> text_of h a = Some s"
  by (auto simp: key_str_def bind_Some intro: text_of_Some_s)

lemma entries_conv: "conv_le h h' \<Longrightarrow> entries h its = Some es \<Longrightarrow> entries h' its = Some es"
  using entries_cong [of h its es h'] entries_key [of h its es] key_str_conv [of h h'] by blast

lemma dict_rep_conv: "conv_le h h' \<Longrightarrow> dict_rep d h = Some es \<Longrightarrow> dict_rep d h' = Some es"
  by (auto simp: dict_rep_def bind_Some intro: items_of_conv entries_conv)

section \<open>The walk\<close>

text \<open>Where the walk over the items ends: at the first entry with the key's text.\<close>

definition walk_result :: "(litem \<times> addr) list \<Rightarrow> (addr \<times> string \<times> addr) list \<Rightarrow> string \<Rightarrow> dict_pos \<Rightarrow> bool" where
  "walk_result its es s p \<longleftrightarrow>
     (if s \<in> set (map (fst \<circ> snd) es) then
        \<exists>pre kn ka vn va post es1 es2. p = D_at kn ka vn va \<and> its = pre @ (kn, ka) # (vn, va) # post
          \<and> even (length pre) \<and> length pre = 2 * length es1 \<and> es = es1 @ (ka, s, va) # es2
          \<and> s \<notin> set (map (fst \<circ> snd) es1)
      else p = D_absent)"

lemma dict_walk_entries:
  "entries h its = Some es \<Longrightarrow> hash_ok h \<Longrightarrow> hashed h k s \<Longrightarrow>
   \<exists>p h'. dict_walk hf k its h = Some (p, h') \<and> conv_le h h' \<and> hash_ok h' \<and> walk_result its es s p"
proof (induction its arbitrary: h es rule: induct_list012)
  case 1
  then show ?case by (simp add: walk_result_def)
next
  case (2 x)
  then show ?case by simp
next
  case (3 x y its)
  obtain kn ka vn va where xy: "x = (kn, ka)" "y = (vn, va)" by (cases x; cases y)
  from "3.prems"(1) xy obtain t es' where t: "key_str h ka = Some t" "entries h its = Some es'"
    "es = (ka, t, va) # es'" by (auto simp: bind_Some)
  from b6b_obj_hash_text [OF key_str_text [OF t(1)] "3.prems"(2)] obtain h1 where h1:
    "b6b_obj_hash ka h = Some (True, h1)" "text_ext h h1" "hash_ok h1" "hashed h1 ka t" .
  note le1 = text_ext_conv [OF h1(2)]
  have k1: "hashed h1 k s" by (rule hashed_ext [OF le1 "3.prems"(3)])
  have eq: "b6b_obj_eq ka k h1 = Some (t = s)" by (rule b6b_obj_eq_text [OF h1(4) k1])
  show ?case
  proof (cases "t = s")
    case True
    have "dict_walk hf k (x # y # its) h = Some (D_at kn ka vn va, h1)"
      using xy h1(1) eq True by simp
    moreover have "walk_result (x # y # its) es s (D_at kn ka vn va)"
      unfolding walk_result_def using t(3) True xy
      by (simp, intro exI [of _ "[]"] exI [of _ es']) simp
    ultimately show ?thesis using le1 h1(3) by blast
  next
    case False
    from "3.IH"(1) [OF entries_conv [OF le1 t(2)] h1(3) k1] obtain p h' where IH:
      "dict_walk hf k its h1 = Some (p, h')" "conv_le h1 h'" "hash_ok h'" "walk_result its es' s p" by blast
    have "dict_walk hf k (x # y # its) h = Some (p, h')" using xy h1(1) eq False IH(1) by simp
    moreover have "walk_result (x # y # its) es s p"
    proof (cases "s \<in> set (map (fst \<circ> snd) es')")
      case True
      with IH(4) obtain pre kn' ka' vn' va' post es1 es2 where w: "p = D_at kn' ka' vn' va'"
        "its = pre @ (kn', ka') # (vn', va') # post" "even (length pre)" "length pre = 2 * length es1"
        "es' = es1 @ (ka', s, va') # es2" "s \<notin> set (map (fst \<circ> snd) es1)"
        unfolding walk_result_def by auto
      have "x # y # its = (x # y # pre) @ (kn', ka') # (vn', va') # post" using w(2) by simp
      moreover have "es = ((ka, t, va) # es1) @ (ka', s, va') # es2" using w(5) t(3) by simp
      moreover have "s \<notin> set (map (fst \<circ> snd) ((ka, t, va) # es1))" using w(6) False by simp
      moreover have "even (length (x # y # pre))" "length (x # y # pre) = 2 * length ((ka, t, va) # es1)"
        using w(3,4) by simp_all
      moreover have "s \<in> set (map (fst \<circ> snd) es)" using True t(3) by simp
      ultimately show ?thesis unfolding walk_result_def using w(1) by metis
    next
      case absent: False
      with IH(4) have "p = D_absent" by (simp add: walk_result_def)
      moreover have "s \<notin> set (map (fst \<circ> snd) es)" using absent False t(3) by simp
      ultimately show ?thesis unfolding walk_result_def by simp
    qed
    ultimately show ?thesis using conv_le_trans [OF le1 IH(2)] IH(3) by blast
  qed
qed

lemma dict_find_entries:
  assumes ok: "hash_ok h" and k: "text_of h k = Some s" and its: "items_of d h = Some its" and es: "entries h its = Some es"
  shows "\<exists>p h'. dict_find hf d k h = Some (p, h') \<and> conv_le h h' \<and> hash_ok h' \<and> key_str h' k = Some s
    \<and> walk_result its es s p"
proof -
  from b6b_obj_hash_text [OF k ok] obtain h1 where h1:
    "b6b_obj_hash k h = Some (True, h1)" "text_ext h h1" "hash_ok h1" "hashed h1 k s" .
  note le1 = text_ext_conv [OF h1(2)]
  from dict_walk_entries [OF entries_conv [OF le1 es] h1(3,4), of hf] obtain p h' where w:
    "dict_walk hf k its h1 = Some (p, h')" "conv_le h1 h'" "hash_ok h'" "walk_result its es s p" by blast
  have "dict_find hf d k h = Some (p, h')"
    using h1(1) items_of_conv [OF le1 its] w(1) by (simp add: dict_find_def)
  moreover have "key_str h1 k = Some s" using h1(4) by (auto simp: hashed_def key_str_def split: option.splits)
  with w(2) have "key_str h' k = Some s" by (rule key_str_conv)
  ultimately show ?thesis using conv_le_trans [OF le1 w(2)] w(3,4) by blast
qed

lemma walk_result_map:
  assumes "walk_result its es s p"
  shows "map_of (map snd es) s = (case p of D_at _ _ _ v \<Rightarrow> Some v | _ \<Rightarrow> None)"
proof (cases "s \<in> set (map (fst \<circ> snd) es)")
  case True
  with assms obtain kn ka vn va es1 es2 where w: "p = D_at kn ka vn va" "es = es1 @ (ka, s, va) # es2"
    "s \<notin> set (map (fst \<circ> snd) es1)"
    unfolding walk_result_def by auto
  have "map_of (map snd es1) s = None" using w(3) by (force simp: map_of_eq_None_iff)
  with w show ?thesis by (simp add: map_add_def)
next
  case False
  then have "p = D_absent" using assms by (simp add: walk_result_def)
  moreover have "map_of (map snd es) s = None" using False by (force simp: map_of_eq_None_iff)
  ultimately show ?thesis by simp
qed

section \<open>Effects outside the dictionary\<close>

text \<open>Other objects keep everything but their count; the dictionary's own hash is gone.\<close>

definition keeps_others :: "addr \<Rightarrow> heap \<Rightarrow> heap \<Rightarrow> bool" where
  "keeps_others d h h' \<longleftrightarrow>
     (\<forall>b ob'. hget b h' = Some ob' \<longrightarrow> b \<noteq> d \<longrightarrow> (\<exists>ob. hget b h = Some ob \<and> ob' = ob\<lparr>ob_refc := ob_refc ob'\<rparr>))
     \<and> (\<forall>ob'. hget d h' = Some ob' \<longrightarrow> ob_hash ob' = None)"

lemma same_but_refc:
  assumes "ob' = ob\<lparr>ob_refc := n\<rparr>"
  shows "ob_l ob' = ob_l ob" and "ob_s ob' = ob_s ob" and "ob_hash ob' = ob_hash ob"
  unfolding assms by simp_all

lemma hinv_distinct_nodes:
  assumes "hinv P R h" and "items_of d h = Some its"
  shows "distinct (map fst its)"
proof -
  from assms(2) obtain ob where ob: "hget d h = Some ob" "ob_l ob = Items its" by (auto simp: items_of_Some)
  with hinv_nodes [OF assms(1)] have "obj_nodes_ok (next_li h) ob" by (simp add: nodes_ok_iff)
  with ob(2) show ?thesis by (simp add: obj_nodes_ok_def)
qed

lemma keeps_othersD:
  assumes "keeps_others d h h'" and "hget b h' = Some ob'" and "b \<noteq> d"
  obtains ob where "hget b h = Some ob" and "ob_s ob' = ob_s ob" and "ob_hash ob' = ob_hash ob" and "ob_l ob' = ob_l ob"
proof -
  from assms obtain ob where "hget b h = Some ob" and eq: "ob' = ob\<lparr>ob_refc := ob_refc ob'\<rparr>"
    unfolding keeps_others_def by blast
  moreover note same_but_refc [OF eq]
  ultimately show thesis using that by blast
qed

lemma keeps_others_hash_ok:
  assumes "keeps_others d h h'" and "hash_ok h"
  shows "hash_ok h'"
  unfolding hash_ok_iff
proof (intro allI impI)
  fix b ob' w
  assume ob': "hget b h' = Some ob'" "ob_hash ob' = Some w"
  then have "b \<noteq> d" using assms(1) by (auto simp: keeps_others_def)
  with assms(1) ob'(1) obtain ob where "hget b h = Some ob" "ob_s ob' = ob_s ob" "ob_hash ob' = ob_hash ob"
    by (elim keeps_othersD)
  with hash_okD [OF assms(2)] ob'(2) show "\<exists>s. ob_s ob' = Some s \<and> w = b6b_hash s" by metis
qed

lemma keeps_others_key_str:
  assumes "keeps_others d h h'" and "b \<noteq> d" and "hget b h' \<noteq> None"
  shows "key_str h' b = key_str h b"
proof -
  from assms(3) obtain ob' where ob': "hget b h' = Some ob'" by blast
  from keeps_othersD [OF assms(1) this assms(2)] obtain ob where "hget b h = Some ob" "ob_s ob' = ob_s ob" .
  with ob' show ?thesis by (simp add: key_str_def)
qed

lemma keeps_others_add:
  assumes ok: "rc_ok R h" and d: "hget d h = Some lo" "ob_l lo = Items its" and x: "hget x h \<noteq> None"
  obtains h' where "b6b_list_add d x h = Some h'" and "items_of d h' = Some (its @ [(next_li h, x)])"
    and "keeps_others d h h'" and "\<And>b. hget b h' = None \<longleftrightarrow> hget b h = None"
proof -
  from x obtain xo where "hget x h = Some xo" by blast
  from list_add_ok [OF ok d this] obtain h' where h': "b6b_list_add d x h = Some h'"
    "\<And>b. hget b h' = (if b = d then Some (flushed ((ref_if (x = d) lo)\<lparr>ob_l := Items (its @ [(next_li h, x)])\<rparr>))
       else map_option (ref_if (b = x)) (hget b h))" by metis
  have "items_of d h' = Some (its @ [(next_li h, x)])" by (simp add: items_of_Some h'(2))
  moreover have "keeps_others d h h'"
    unfolding keeps_others_def h'(2) by (auto simp: ref_if_def)
  moreover have "hget b h' = None \<longleftrightarrow> hget b h = None" for b using d(1) by (auto simp: h'(2))
  ultimately show thesis using h'(1) by (rule that [rotated])
qed

lemma keeps_others_trans:
  assumes "keeps_others d h1 h2" and "keeps_others d h2 h3"
  shows "keeps_others d h1 h3"
  unfolding keeps_others_def
proof (intro conjI allI impI)
  fix b ob3
  assume b: "hget b h3 = Some ob3" "b \<noteq> d"
  with assms(2) obtain ob2 where ob2: "hget b h2 = Some ob2" "ob3 = ob2\<lparr>ob_refc := ob_refc ob3\<rparr>"
    unfolding keeps_others_def by blast
  with assms(1) b(2) obtain ob1 where ob1: "hget b h1 = Some ob1" "ob2 = ob1\<lparr>ob_refc := ob_refc ob2\<rparr>"
    unfolding keeps_others_def by blast
  have "ob3 = ob1\<lparr>ob_refc := ob_refc ob3\<rparr>" by (subst ob2(2), subst ob1(2)) simp
  with ob1(1) show "\<exists>ob. hget b h1 = Some ob \<and> ob3 = ob\<lparr>ob_refc := ob_refc ob3\<rparr>" by blast
next
  fix ob'
  assume "hget d h3 = Some ob'"
  with assms(2) show "ob_hash ob' = None" unfolding keeps_others_def by blast
qed

lemma keeps_others_hset:
  assumes "keeps_others d h1 h2" and "hget d h2 \<noteq> None" and "ob_hash ob = None"
  shows "keeps_others d h1 (hset d ob h2)"
  using assms by (auto simp: keeps_others_def hget_hset)

lemma unrefs_keeps:
  assumes run: "b6b_unrefs as h = Some h'" and d: "hget d h = Some ob" and "ob_hash ob = None"
  shows "keeps_others d h h'"
  unfolding keeps_others_def
proof (intro conjI allI impI)
  fix ob'
  assume "hget d h' = Some ob'"
  from unrefs_frame [OF run this] d have "ob' = ob\<lparr>ob_refc := ob_refc ob'\<rparr>" by auto
  then have "ob_hash ob' = ob_hash ob" by (rule same_but_refc)
  with assms(3) show "ob_hash ob' = None" by simp
qed (use unrefs_frame [OF run] in blast)

text \<open>Removing one node of the dictionary and dropping its object.\<close>

lemma pop_unref_runs:
  assumes inv: "hinv {} R h" and d: "d \<in># R" and its: "items_of d h = Some its" and n: "(n, x) \<in> set its"
  obtains h' where "pop_unref d n h = Some h'" and "hinv {} R h'"
    and "items_of d h' = Some (filter (\<lambda>(m, _). m \<noteq> n) its)" and "keeps_others d h h'"
proof -
  from its obtain ob where ob: "hget d h = Some ob" "ob_l ob = Items its" by (auto simp: items_of_Some)
  have "distinct (map fst its)" by (rule hinv_distinct_nodes [OF inv its])
  then have nx: "map_of its n = Some x" by (rule map_of_is_SomeI [OF _ n])
  let ?its = "filter (\<lambda>(m, _). m \<noteq> n) its"
  define h1 where "h1 = hset d (ob\<lparr>ob_l := Items ?its\<rparr>) h"
  have un: "list_unlink d n h = Some (x, h1)" using ob(1) its nx by (simp add: list_unlink_def h1_def)
  have d1: "hget d h1 = Some (ob\<lparr>ob_l := Items ?its\<rparr>)" using ob by (simp add: h1_def hget_hset)
  define fo where "fo = flushed (ob\<lparr>ob_l := Items ?its\<rparr>)"
  define h2 where "h2 = hset d fo h1"
  have fl: "b6b_list_flush d h1 = Some h2" using d1 by (simp add: b6b_list_flush_def hupd_def h2_def fo_def flushed_def)
  have "its \<noteq> []" using n by auto
  then have pop: "b6b_list_pop d (Some n) h = Some (Some x, h2)"
    using its un fl by (simp add: b6b_list_pop_def)
  have inv2: "hinv {} (add_mset x R) h2" by (rule b6b_list_pop_hinv(1) [OF inv pop])
  from unref_ok [OF hinv_rc [OF inv2]] obtain h' where h': "b6b_unref x h2 = Some h'" .
  have inv': "hinv {} R h'" by (rule b6b_unref_hinv [OF inv2 h']) simp
  have d2: "hget d h2 = Some fo" using d1 by (simp add: h2_def hget_hset)
  have k2: "keeps_others d h h2"
    unfolding keeps_others_def using ob d1 by (auto simp: h2_def h1_def hget_hset fo_def)
  have "keeps_others d h2 h'"
    by (rule unrefs_keeps [OF h' [unfolded b6b_unref_def] d2]) (simp add: fo_def)
  with k2 have "keeps_others d h h'" by (rule keeps_others_trans)
  moreover have "items_of d h' = Some ?its"
  proof -
    from hinv_live [OF inv' d] obtain ob' where ob': "hget d h' = Some ob'" by blast
    from unrefs_frame [OF h' [unfolded b6b_unref_def] ob'] d2 have "ob' = fo\<lparr>ob_refc := ob_refc ob'\<rparr>" by auto
    then have "ob_l ob' = ob_l fo" by (rule same_but_refc)
    with ob' show ?thesis by (simp add: items_of_Some fo_def)
  qed
  moreover have "pop_unref d n h = Some h'" using pop h' by (simp add: pop_unref_def)
  ultimately show thesis using inv' that by blast
qed

text \<open>Replacing the value at a node.\<close>

lemma replace_item_runs:
  assumes inv: "hinv {} R h" and d: "d \<in># R" and v: "v \<in># R"
    and its: "items_of d h = Some its" "(n, old) \<in> set its"
  obtains h2 h3 h4 h5 where "b6b_unref old h = Some h2" and "b6b_ref v h2 = Some h3"
    and "set_node d n v h3 = Some h4" and "b6b_list_flush d h4 = Some h5" and "hinv {} R h5"
    and "items_of d h5 = Some (map (\<lambda>(m, x). (m, if m = n then v else x)) its)"
    and "keeps_others d h h5"
proof -
  from its obtain ob where ob: "hget d h = Some ob" "ob_l ob = Items its" by (auto simp: items_of_Some)
  have "distinct (map fst its)" by (rule hinv_distinct_nodes [OF inv its(1)])
  then have old: "map_of its n = Some old" by (rule map_of_is_SomeI [OF _ its(2)])
  have un: "list_unlink d n h = Some (old, hset d (ob\<lparr>ob_l := Items (filter (\<lambda>(m, _). m \<noteq> n) its)\<rparr>) h)"
    using ob(1) its(1) old by (simp add: list_unlink_def)
  define ob' where "ob' = ob\<lparr>ob_l := Items (filter (\<lambda>(m, _). m \<noteq> n) its)\<rparr>"
  have inv': "hinv {} (add_mset old R) (hset d ob' h)" using list_unlink_hinv(1) [OF inv un] by (simp add: ob'_def)
  from unref_ok [OF hinv_rc [OF inv']] obtain h2' where h2': "b6b_unref old (hset d ob' h) = Some h2'" .
  have inv2': "hinv {} R h2'" by (rule b6b_unref_hinv [OF inv' h2']) simp
  have "ob_refc ob' = ob_refc ob" by (simp add: ob'_def)
  from unrefs_hset_ahead [OF h2' [unfolded b6b_unref_def] ob(1) this hinv_live [OF inv2' d]]
  obtain c where c: "b6b_unrefs [old] h = Some (hset d (ob\<lparr>ob_refc := c\<rparr>) h2')" by blast
  define h2 where "h2 = hset d (ob\<lparr>ob_refc := c\<rparr>) h2'"
  have r1: "b6b_unref old h = Some h2" using c by (simp add: b6b_unref_def h2_def)
  have d2: "hget d h2 = Some (ob\<lparr>ob_refc := c\<rparr>)" using hinv_live [OF inv2' d] by (auto simp: h2_def hget_hset)
  have "hget v h2 \<noteq> None" using hinv_live [OF inv2' v] hinv_live [OF inv2' d] by (auto simp: h2_def hget_hset)
  then obtain vo where vo: "hget v h2 = Some vo" by blast
  define h3 where "h3 = hset v (vo\<lparr>ob_refc := Suc (ob_refc vo)\<rparr>) h2"
  have r2: "b6b_ref v h2 = Some h3" using vo by (simp add: b6b_ref_def hupd_def h3_def)
  obtain dob where d3: "hget d h3 = Some dob" "ob_l dob = Items its"
    using d2 vo ob(2) by (cases "v = d") (auto simp: h3_def hget_hset)
  let ?its = "map (\<lambda>(m, x). (m, if m = n then v else x)) its"
  define h4 where "h4 = hset d (dob\<lparr>ob_l := Items ?its\<rparr>) h3"
  have r3: "set_node d n v h3 = Some h4"
    using d3 old by (simp add: set_node_def items_of_def hupd_def h4_def)
  have d4: "hget d h4 = Some (dob\<lparr>ob_l := Items ?its\<rparr>)" using d3 by (simp add: h4_def hget_hset)
  define h5 where "h5 = hset d (flushed (dob\<lparr>ob_l := Items ?its\<rparr>)) h4"
  have r4: "b6b_list_flush d h4 = Some h5" using d4 by (simp add: b6b_list_flush_def hupd_def h5_def flushed_def)
  have "hinv {} R h4" by (rule replace_item_hinv [OF inv its _ r1 r2 r3]) simp
  then have inv5: "hinv {} R h5" by (rule b6b_list_flush_hinv [OF _ r4])
  have d5: "hget d h5 = Some (flushed (dob\<lparr>ob_l := Items ?its\<rparr>))" using d4 by (simp add: h5_def hget_hset)
  have other: "hget b h5 = hget b h3" if "b \<noteq> d" for b using that d3 d4 by (simp add: h5_def h4_def hget_hset)
  have "keeps_others d h h5"
    unfolding keeps_others_def
  proof (intro conjI allI impI)
    fix b bo
    assume b: "hget b h5 = Some bo" "b \<noteq> d"
    then obtain b2 where b2: "hget b h2 = Some b2" "bo = b2\<lparr>ob_refc := ob_refc bo\<rparr>"
      using other [OF b(2)] vo by (auto simp: h3_def hget_hset split: if_splits)
    from unrefs_frame [OF r1 [unfolded b6b_unref_def] b2(1)] obtain b1 where b1: "hget b h = Some b1"
      "b2 = b1\<lparr>ob_refc := ob_refc b2\<rparr>" by blast
    have "bo = b1\<lparr>ob_refc := ob_refc bo\<rparr>" by (subst b2(2), subst b1(2)) simp
    with b1(1) show "\<exists>ob. hget b h = Some ob \<and> bo = ob\<lparr>ob_refc := ob_refc bo\<rparr>" by blast
  qed (use d5 in simp)
  moreover have "items_of d h5 = Some ?its" using d5 by (simp add: items_of_Some)
  ultimately show thesis using that r1 r2 r3 r4 inv5 by blast
qed

section \<open>The laws\<close>

definition dict_inv :: "addr multiset \<Rightarrow> addr \<Rightarrow> heap \<Rightarrow> bool" where
  "dict_inv R d h \<longleftrightarrow> hinv {} R h \<and> hash_ok h \<and> d \<in># R \<and> dict_ok d h"

lemma dict_invE:
  assumes "dict_inv R d h"
  obtains its es where "hinv {} R h" and "hash_ok h" and "d \<in># R" and "items_of d h = Some its"
    and "entries h its = Some es" and "entries_ok d es" and "dict_map d h = map_of (map snd es)"
  using assms by (auto simp: dict_inv_def dict_ok_def dict_rep_def dict_map_def bind_Some split: option.splits)

lemma dict_invI:
  assumes "hinv {} R h" and "hash_ok h" and "d \<in># R" and "items_of d h = Some its"
    and "entries h its = Some es" and "entries_ok d es"
  shows "dict_inv R d h" and "dict_map d h = map_of (map snd es)"
  using assms by (simp_all add: dict_inv_def dict_ok_def dict_rep_def dict_map_def)

lemma entries_keeps:
  assumes keeps: "keeps_others d h h'" and es: "entries h its = Some es" and ok: "entries_ok d es"
    and live: "\<And>a. a \<in> set (map fst es) \<Longrightarrow> hget a h' \<noteq> None"
  shows "entries h' its = Some es"
proof (rule entries_cong [OF es])
  fix a s v
  assume a: "(a, s, v) \<in> set es"
  then have "a \<in> set (map fst es)" by force
  moreover have "a \<noteq> d" using \<open>a \<in> set (map fst es)\<close> ok by (auto simp: entries_ok_def)
  ultimately have "key_str h' a = key_str h a" using keeps_others_key_str [OF keeps] live by blast
  with entries_key [OF es a] show "key_str h' a = Some s" by simp
qed

lemma dict_get_law:
  assumes inv: "dict_inv R d h" and k: "text_of h k = Some s"
  shows "\<exists>h'. b6b_dict_get d k h = Some (Some (dict_map d h s), h') \<and> dict_inv R d h' \<and> dict_map d h' = dict_map d h
    \<and> conv_le h h'"
proof -
  from inv obtain its es where d: "hinv {} R h" "hash_ok h" "d \<in># R" "items_of d h = Some its"
    "entries h its = Some es" "entries_ok d es" "dict_map d h = map_of (map snd es)" by (rule dict_invE)
  from dict_find_entries [OF d(2) k d(4,5), of False] obtain p h' where p: "dict_find False d k h = Some (p, h')"
    "conv_le h h'" "hash_ok h'" "walk_result its es s p" by blast
  from dict_invI [OF hinv_conv [OF d(1) p(2)] p(3) d(3) items_of_conv [OF p(2) d(4)] entries_conv [OF p(2) d(5)] d(6)]
  have "dict_inv R d h'" "dict_map d h' = dict_map d h" by (simp_all add: d(7))
  moreover have "p \<noteq> D_fail" using p(4) by (auto simp: walk_result_def split: if_splits)
  then have "b6b_dict_get d k h = Some (Some (dict_map d h s), h')"
    using p(1) walk_result_map [OF p(4)] by (auto simp: b6b_dict_get_def d(7) split: dict_pos.splits)
  ultimately show ?thesis using p(2) by blast
qed

text \<open>What is left to show once the items and entries after an update are known.\<close>

lemma dict_updated:
  assumes "hinv {} R h'" and "d \<in># R" and keeps: "keeps_others d h h'" and "hash_ok h"
    and its: "items_of d h' = Some its'" and es: "entries h' its' = Some es'" and "entries_ok d es'"
    and k: "key_str h k = Some s" "k \<in># R" "k \<noteq> d"
  shows "dict_inv R d h'" and "dict_map d h' = map_of (map snd es')" and "key_str h' k = Some s"
    and "\<And>k' t. k' \<in># R \<Longrightarrow> k' \<noteq> d \<Longrightarrow> key_str h k' = Some t \<Longrightarrow> key_str h' k' = Some t"
proof -
  show "dict_inv R d h'" "dict_map d h' = map_of (map snd es')"
    by (rule dict_invI [OF assms(1) keeps_others_hash_ok [OF keeps assms(4)] assms(2) its es assms(7)])+
  show "key_str h' k' = Some t" if "k' \<in># R" "k' \<noteq> d" "key_str h k' = Some t" for k' t
    using keeps_others_key_str [OF keeps that(2) hinv_live [OF assms(1) that(1)]] that(3) by simp
  from this [OF k(2,3,1)] show "key_str h' k = Some s" .
qed

lemma nodes_without:
  assumes "n \<notin> fst ` set its"
  shows "filter (\<lambda>(m, _). m \<noteq> n) its = its" and "map (\<lambda>(m, x). (m, if m = n then v else x)) its = its"
  using assms by (induction its) auto

lemma split_nodes:
  assumes "distinct (map fst (pre @ (kn, ka) # (n, x) # post))"
  shows "map (\<lambda>(m, y). (m, if m = n then v else y)) (pre @ (kn, ka) # (n, x) # post) = pre @ (kn, ka) # (n, v) # post"
    and "filter (\<lambda>(m, _). m \<noteq> kn) (pre @ (kn, ka) # (n, x) # post) = pre @ (n, x) # post"
    and "filter (\<lambda>(m, _). m \<noteq> n) (pre @ (n, x) # post) = pre @ post"
proof -
  have "n \<notin> fst ` set pre" "n \<notin> fst ` set post" "kn \<notin> fst ` set pre" "kn \<notin> fst ` set post" "kn \<noteq> n"
    using assms by auto
  then show "map (\<lambda>(m, y). (m, if m = n then v else y)) (pre @ (kn, ka) # (n, x) # post) = pre @ (kn, ka) # (n, v) # post"
    "filter (\<lambda>(m, _). m \<noteq> kn) (pre @ (kn, ka) # (n, x) # post) = pre @ (n, x) # post"
    "filter (\<lambda>(m, _). m \<noteq> n) (pre @ (n, x) # post) = pre @ post"
    by (simp_all add: nodes_without)
qed

lemma walk_result_at:
  assumes w: "walk_result its es s p" and s: "s \<in> set (map (fst \<circ> snd) es)" and es: "entries h its = Some es"
  obtains pre kn ka n old post f1 f2 where "p = D_at kn ka n old" and "its = pre @ (kn, ka) # (n, old) # post"
    and "even (length pre)" and "entries h pre = Some f1" and "entries h post = Some f2"
    and "es = f1 @ (ka, s, old) # f2" and "key_str h ka = Some s"
proof -
  from w s obtain pre kn ka n old post e1 e2 where w: "p = D_at kn ka n old"
    "its = pre @ (kn, ka) # (n, old) # post" "even (length pre)" "length pre = 2 * length e1"
    "es = e1 @ (ka, s, old) # e2" unfolding walk_result_def by auto
  from es [unfolded w(2)] obtain f1 f2 t where f: "entries h pre = Some f1" "entries h post = Some f2"
    "es = f1 @ (ka, t, old) # f2" "key_str h ka = Some t"
    by (auto simp: entries_append [OF w(3)] bind_Some)
  have "length f1 = length e1" using entries_even [OF f(1)] w(4) by simp
  with f(3) w(5) have "t = s" by simp
  with w f that show thesis by blast
qed

lemma entries_ok_map:
  assumes "entries_ok d (f1 @ (ka, s, x) # f2)"
  shows "map_of (map snd (f1 @ (ka, s, v) # f2)) = (map_of (map snd (f1 @ (ka, s, x) # f2)))(s \<mapsto> v)"
    and "map_of (map snd (f1 @ f2)) = (map_of (map snd (f1 @ (ka, s, x) # f2)))(s := None)"
proof -
  have "s \<notin> fst ` set (map snd f1)" "s \<notin> fst ` set (map snd f2)"
    using assms by (auto simp: entries_ok_def image_iff)
  then have n: "map_of (map snd f1) s = None" "map_of (map snd f2) s = None"
    unfolding map_of_eq_None_iff by blast+
  then show "map_of (map snd (f1 @ (ka, s, v) # f2)) = (map_of (map snd (f1 @ (ka, s, x) # f2)))(s \<mapsto> v)"
    by (auto simp: map_add_def fun_eq_iff split: option.splits)
  from n show "map_of (map snd (f1 @ f2)) = (map_of (map snd (f1 @ (ka, s, x) # f2)))(s := None)"
    by (auto simp: map_add_def fun_eq_iff split: option.splits)
qed

lemma dict_set_absent:
  assumes inv: "hinv {} R h" and d: "d \<in># R" and its: "items_of d h = Some its" and es: "entries h its = Some es"
    and ok: "entries_ok d es" and k: "k \<in># R" "k \<noteq> d" "key_str h k = Some s" and v: "v \<in># R"
    and new: "s \<notin> set (map (fst \<circ> snd) es)"
  obtains h2 h3 its3 where "b6b_list_add d k h = Some h2" and "b6b_list_add d v h2 = Some h3" and "hinv {} R h3"
    and "keeps_others d h h3" and "items_of d h3 = Some its3" and "entries h3 its3 = Some (es @ [(k, s, v)])"
    and "entries_ok d (es @ [(k, s, v)])" and "map_of (map snd (es @ [(k, s, v)])) = (map_of (map snd es))(s \<mapsto> v)"
proof -
  from its obtain lo where lo: "hget d h = Some lo" "ob_l lo = Items its" by (auto simp: items_of_Some)
  from keeps_others_add [OF hinv_rc [OF inv] lo hinv_live [OF inv k(1)]] obtain h2 where h2:
    "b6b_list_add d k h = Some h2" "items_of d h2 = Some (its @ [(next_li h, k)])" "keeps_others d h h2"
    "\<And>b. hget b h2 = None \<longleftrightarrow> hget b h = None" by metis
  have inv2: "hinv {} R h2" by (rule b6b_list_add_hinv [OF inv h2(1)]) simp
  from h2(2) obtain lo2 where lo2: "hget d h2 = Some lo2" "ob_l lo2 = Items (its @ [(next_li h, k)])"
    by (auto simp: items_of_Some)
  from keeps_others_add [OF hinv_rc [OF inv2] lo2 hinv_live [OF inv2 v]] obtain h3 where h3:
    "b6b_list_add d v h2 = Some h3" "items_of d h3 = Some ((its @ [(next_li h, k)]) @ [(next_li h2, v)])"
    "keeps_others d h2 h3" "\<And>b. hget b h3 = None \<longleftrightarrow> hget b h2 = None" by metis
  have inv3: "hinv {} R h3" by (rule b6b_list_add_hinv [OF inv2 h3(1)]) simp
  note keeps = keeps_others_trans [OF h2(3) h3(3)]
  have live: "hget a h3 \<noteq> None" if a: "a \<in> set (map fst es)" for a
  proof -
    from entries_key_item [OF es a] have "a \<in> set (map snd its)" by blast
    with item_live [OF inv its] h2(4) h3(4) show ?thesis by blast
  qed
  have "key_str h3 k = Some s"
    using keeps_others_key_str [OF keeps k(2) hinv_live [OF inv3 k(1)]] k(3) by simp
  moreover have "entries h3 its = Some es" by (rule entries_keeps [OF keeps es ok live])
  ultimately have e3: "entries h3 (its @ [(next_li h, k), (next_li h2, v)]) = Some (es @ [(k, s, v)])"
    using entries_even [OF es] by (simp add: entries_append)
  have ok3: "entries_ok d (es @ [(k, s, v)])" using ok new k(2) by (simp add: entries_ok_def)
  have "map_of (map snd es) s = None" using new by (force simp: map_of_eq_None_iff)
  then have m3: "map_of (map snd (es @ [(k, s, v)])) = (map_of (map snd es))(s \<mapsto> v)"
    by (auto simp: map_add_def fun_eq_iff split: option.splits)
  from h3(2) have "items_of d h3 = Some (its @ [(next_li h, k), (next_li h2, v)])" by simp
  from that [OF h2(1) h3(1) inv3 keeps this e3 ok3 m3] show thesis .
qed

lemma dict_set_law:
  assumes inv: "dict_inv R d h" and k: "k \<in># R" "k \<noteq> d" and v: "v \<in># R" and tx: "text_of h k = Some s"
  shows "\<exists>h'. b6b_dict_set d k v h = Some (True, h') \<and> dict_inv R d h' \<and> dict_map d h' = (dict_map d h)(s \<mapsto> v)
    \<and> key_str h' k = Some s
    \<and> (\<forall>k' t. k' \<in># R \<and> k' \<noteq> d \<longrightarrow> key_str h k' = Some t \<longrightarrow> key_str h' k' = Some t)"
proof -
  from inv obtain its es where d: "hinv {} R h" "hash_ok h" "d \<in># R" "items_of d h = Some its"
    "entries h its = Some es" "entries_ok d es" "dict_map d h = map_of (map snd es)" by (rule dict_invE)
  from dict_find_entries [OF d(2) tx d(4,5), of True] obtain p h1 where p: "dict_find True d k h = Some (p, h1)"
    "conv_le h h1" "hash_ok h1" "key_str h1 k = Some s" "walk_result its es s p" by blast
  note inv1 = hinv_conv [OF d(1) p(2)] and its1 = items_of_conv [OF p(2) d(4)] and es1 = entries_conv [OF p(2) d(5)]
  have "\<exists>h' its' es'. b6b_dict_set d k v h = Some (True, h') \<and> hinv {} R h' \<and> keeps_others d h1 h'
    \<and> items_of d h' = Some its' \<and> entries h' its' = Some es' \<and> entries_ok d es'
    \<and> map_of (map snd es') = (dict_map d h)(s \<mapsto> v)"
  proof (cases "s \<in> set (map (fst \<circ> snd) es)")
    case False
    then have pa: "p = D_absent" using p(5) by (simp add: walk_result_def)
    obtain h2 h3 its3 where r: "b6b_list_add d k h1 = Some h2" "b6b_list_add d v h2 = Some h3" "hinv {} R h3"
      "keeps_others d h1 h3" "items_of d h3 = Some its3" "entries h3 its3 = Some (es @ [(k, s, v)])"
      "entries_ok d (es @ [(k, s, v)])" "map_of (map snd (es @ [(k, s, v)])) = (map_of (map snd es))(s \<mapsto> v)"
      by (rule dict_set_absent [OF inv1 d(3) its1 es1 d(6) k p(4) v False])
    have "b6b_dict_set d k v h = Some (True, h3)" using p(1) pa r(1,2) by (simp add: b6b_dict_set_def)
    with r(3-8) show ?thesis unfolding d(7) by blast
  next
    case True
    obtain pre kn ka n old post f1 f2 where w: "p = D_at kn ka n old" "its = pre @ (kn, ka) # (n, old) # post"
      "even (length pre)" "entries h1 pre = Some f1" "entries h1 post = Some f2"
      "es = f1 @ (ka, s, old) # f2" "key_str h1 ka = Some s"
      by (rule walk_result_at [OF p(5) True es1])
    have "(n, old) \<in> set its" using w(2) by simp
    from replace_item_runs [OF inv1 d(3) v its1 this] obtain h2 h3 h4 h5 where r:
      "b6b_unref old h1 = Some h2" "b6b_ref v h2 = Some h3" "set_node d n v h3 = Some h4"
      "b6b_list_flush d h4 = Some h5" and inv5: "hinv {} R h5"
      and its5: "items_of d h5 = Some (map (\<lambda>(m, x). (m, if m = n then v else x)) its)"
      and keeps: "keeps_others d h1 h5" .
    have run: "b6b_dict_set d k v h = Some (True, h5)" using p(1) w(1) r by (simp add: b6b_dict_set_def)
    note same = split_nodes(1) [OF hinv_distinct_nodes [OF inv1 its1, unfolded w(2)], of v]
    have its5': "items_of d h5 = Some (pre @ (kn, ka) # (n, v) # post)" using its5 unfolding w(2) same .
    have e1: "entries h1 (pre @ (kn, ka) # (n, v) # post) = Some (f1 @ (ka, s, v) # f2)"
      using w(4,5,7) by (simp add: entries_append [OF w(3)])
    have ok: "entries_ok d (f1 @ (ka, s, v) # f2)" using d(6) w(6) by (simp add: entries_ok_def)
    have "hget a h5 \<noteq> None" if a: "a \<in> set (map fst (f1 @ (ka, s, v) # f2))" for a
    proof -
      from entries_key_item [OF e1 a] have "a \<in> set (map snd (pre @ (kn, ka) # (n, v) # post))" by blast
      with item_live [OF inv5 its5'] show ?thesis .
    qed
    then have "entries h5 (pre @ (kn, ka) # (n, v) # post) = Some (f1 @ (ka, s, v) # f2)"
      by (rule entries_keeps [OF keeps e1 ok])
    moreover have "map_of (map snd (f1 @ (ka, s, v) # f2)) = (dict_map d h)(s \<mapsto> v)"
      unfolding d(7) w(6) by (rule entries_ok_map(1)) (use d(6) w(6) in simp)
    ultimately show ?thesis using run inv5 keeps its5' ok by blast
  qed
  then obtain h' its' es' where r: "b6b_dict_set d k v h = Some (True, h')" "hinv {} R h'" "keeps_others d h1 h'"
    "items_of d h' = Some its'" "entries h' its' = Some es'" "entries_ok d es'"
    "map_of (map snd es') = (dict_map d h)(s \<mapsto> v)" by blast
  from dict_updated [OF r(2) d(3) r(3) p(3) r(4,5,6) p(4) k] r(1,7) key_str_conv [OF p(2)] show ?thesis by metis
qed

lemma dict_unset_law:
  assumes inv: "dict_inv R d h" and k: "k \<in># R" "k \<noteq> d" and tx: "text_of h k = Some s"
  shows "\<exists>h'. b6b_dict_unset d k h = Some (True, h') \<and> dict_inv R d h' \<and> dict_map d h' = (dict_map d h)(s := None)
    \<and> key_str h' k = Some s
    \<and> (\<forall>k' t. k' \<in># R \<and> k' \<noteq> d \<longrightarrow> key_str h k' = Some t \<longrightarrow> key_str h' k' = Some t)"
proof -
  from inv obtain its es where d: "hinv {} R h" "hash_ok h" "d \<in># R" "items_of d h = Some its"
    "entries h its = Some es" "entries_ok d es" "dict_map d h = map_of (map snd es)" by (rule dict_invE)
  from dict_find_entries [OF d(2) tx d(4,5), of False] obtain p h1 where p: "dict_find False d k h = Some (p, h1)"
    "conv_le h h1" "hash_ok h1" "key_str h1 k = Some s" "walk_result its es s p" by blast
  note inv1 = hinv_conv [OF d(1) p(2)] and its1 = items_of_conv [OF p(2) d(4)] and es1 = entries_conv [OF p(2) d(5)]
  show ?thesis
  proof (cases "s \<in> set (map (fst \<circ> snd) es)")
    case False
    then have "p = D_absent" using p(5) by (simp add: walk_result_def)
    then have "b6b_dict_unset d k h = Some (True, h1)" using p(1) by (simp add: b6b_dict_unset_def)
    moreover from dict_invI [OF inv1 p(3) d(3) its1 es1 d(6)]
    have "dict_inv R d h1" "dict_map d h1 = dict_map d h" by (simp_all add: d(7))
    moreover have "dict_map d h s = None" using False by (force simp: d(7) map_of_eq_None_iff)
    then have "(dict_map d h)(s := None) = dict_map d h" by auto
    ultimately show ?thesis using p(4) key_str_conv [OF p(2)] by auto
  next
    case True
    obtain pre kn ka n old post f1 f2 where w: "p = D_at kn ka n old" "its = pre @ (kn, ka) # (n, old) # post"
      "even (length pre)" "entries h1 pre = Some f1" "entries h1 post = Some f2"
      "es = f1 @ (ka, s, old) # f2" "key_str h1 ka = Some s"
      by (rule walk_result_at [OF p(5) True es1])
    note filt = split_nodes(2,3) [OF hinv_distinct_nodes [OF inv1 its1, unfolded w(2)]]
    have "(kn, ka) \<in> set its" using w(2) by simp
    from pop_unref_runs [OF inv1 d(3) its1 this] obtain h2 where h2: "pop_unref d kn h1 = Some h2" "hinv {} R h2"
      "items_of d h2 = Some (pre @ (n, old) # post)" "keeps_others d h1 h2" unfolding w(2) filt .
    have "(n, old) \<in> set (pre @ (n, old) # post)" by simp
    from pop_unref_runs [OF h2(2) d(3) h2(3) this] obtain h3 where h3: "pop_unref d n h2 = Some h3" "hinv {} R h3"
      "items_of d h3 = Some (pre @ post)" "keeps_others d h2 h3" unfolding filt .
    note keeps = keeps_others_trans [OF h2(4) h3(4)]
    have run: "b6b_dict_unset d k h = Some (True, h3)" using p(1) w(1) h2(1) h3(1) by (simp add: b6b_dict_unset_def)
    have ok: "entries_ok d (f1 @ f2)" using d(6) w(6) by (auto simp: entries_ok_def)
    have e1: "entries h1 (pre @ post) = Some (f1 @ f2)" using w(4,5) by (simp add: entries_append [OF w(3)])
    have "hget a h3 \<noteq> None" if a: "a \<in> set (map fst (f1 @ f2))" for a
    proof -
      from entries_key_item [OF e1 a] have "a \<in> set (map snd (pre @ post))" by blast
      with item_live [OF h3(2,3)] show ?thesis .
    qed
    then have e3: "entries h3 (pre @ post) = Some (f1 @ f2)" by (rule entries_keeps [OF keeps e1 ok])
    have m: "map_of (map snd (f1 @ f2)) = (dict_map d h)(s := None)"
      unfolding d(7) w(6) by (rule entries_ok_map(2)) (use d(6) w(6) in simp)
    from dict_updated [OF h3(2) d(3) keeps p(3) h3(3) e3 ok p(4) k] run m key_str_conv [OF p(2)]
    show ?thesis by metis
  qed
qed

text \<open>
  The heap operations fulfil the contract, for every multiset \<open>R\<close> of references owned by the
  caller: the keys and values it passes are among them.
\<close>

interpretation dict: text_map "dict_inv R d" "\<lambda>k. k \<in># R \<and> k \<noteq> d" text_of key_str "dict_map d"
  "b6b_dict_get d" "b6b_dict_set d" "b6b_dict_unset d" for R d
proof
  show "\<exists>h'. b6b_dict_get d k h = Some (Some (dict_map d h s), h') \<and> dict_inv R d h' \<and> dict_map d h' = dict_map d h
      \<and> (\<forall>k' t. key_str h k' = Some t \<longrightarrow> key_str h' k' = Some t)"
    if "dict_inv R d h" "text_of h k = Some s" for h k s
    using dict_get_law [OF that] key_str_conv by blast
qed (use key_str_text dict_set_law dict_unset_law in \<open>auto simp: conj_imp_eq_imp_imp\<close>)

end
