(* ===== verification/Run_Inv.thy ===== *)
theory Run_Inv
  imports Heap_Inv Boot
begin

text \<open>
  The invariant of a running interpreter: every reference count is the number of references
  from the heap, from the interpreter and its threads, and from the C variables of the running
  and of the suspended computations.

  \<^item> \<open>iroots\<close> are the references that the structures of the interpreter own.
  \<^item> A \<open>ctx\<close> collects what suspended computations hold: references and private objects of their
    C variables, and the frames their threads had when they were switched away from.
  \<^item> \<open>world D I\<close> is the invariant, with \<open>D\<close> for all computations; \<open>st_ok C R P s I\<close> is the same
    seen from the running one, which owns \<open>R\<close> and \<open>P\<close> and whose thread is in state \<open>s\<close>, with
    \<open>C\<close> for all others.
  \<^item> \<open>okres res Q C\<close>: whatever the other threads do in between, the computation \<open>res\<close> keeps the
    invariant up to each switch, and returns only in a state with \<open>Q\<close>.  Undefined behaviour
    and exhausted fuel satisfy it.
\<close>

section \<open>Roots\<close>

definition froots :: "frame \<Rightarrow> addr multiset" where
  "froots f = {#locals f, fargs f#}"

definition troots :: "thread \<Rightarrow> addr multiset" where
  "troots t = add_mset (t_ret t)
     (mset (case t_fn t of None \<Rightarrow> [] | Some a \<Rightarrow> [a]) + sum_list (map froots (t_curr t)))"

definition groots :: "interp \<Rightarrow> addr multiset" where
  "groots I = froots (global I) + {#i_null I, i_zero I, i_one I, i_dot I, i_at I, i_us I#}"

definition iroots :: "interp \<Rightarrow> addr multiset" where
  "iroots I = groots I + sum_list (map troots (threads I))"

section \<open>Threads\<close>

text \<open>What other threads leave alone while a thread is suspended.\<close>

type_synonym tst = "nat \<times> frame list \<times> addr option \<times> nat"

definition tst :: "thread \<Rightarrow> tst" where
  "tst t = (t_id t, t_curr t, t_fn t, t_depth t)"

definition thread_ok :: "nat \<Rightarrow> thread \<Rightarrow> bool" where
  "thread_ok n t \<longleftrightarrow> t_id t < n \<and> t_depth t = length (t_curr t) \<and> t_curr t \<noteq> []
     \<and> t_depth t \<le> B6B_MAX_NESTING \<and> (if t_done t then t_depth t = 1 \<and> t_id t \<noteq> 0 else True)"

definition sched_ok :: "interp \<Rightarrow> bool" where
  "sched_ok I \<longleftrightarrow> distinct (map t_id (threads I)) \<and> list_all (thread_ok (next_tid I)) (threads I)
     \<and> list_all (\<lambda>t. t_bg t \<and> \<not> t_fg t) (tq_before I @ tq_after I) \<and> t_fg (fg I) \<and> \<not> t_bg (fg I)
     \<and> t_id (hd (threads I)) = 0"

section \<open>The invariant\<close>

record ctx =
  c_refs :: "addr multiset"
  c_priv :: "addr set"
  c_thr :: "nat \<rightharpoonup> tst"
  c_self :: nat \<comment> \<open>the thread that runs\<close>

text \<open>A thread that \<open>c_thr\<close> does not list has not run yet, or is done.\<close>

definition world0 :: "ctx \<Rightarrow> interp \<Rightarrow> bool" where
  "world0 D I \<longleftrightarrow> hinv (c_priv D) (c_refs D + iroots I) (hp I) \<and> sched_ok I
     \<and> c_priv D \<subseteq> set_mset (c_refs D)
     \<and> (\<forall>i s. c_thr D i = Some s \<longrightarrow> fst s = i \<and> (\<exists>t\<in>set (threads I). tst t = s \<and> \<not> t_done t))
     \<and> (\<forall>t\<in>set (threads I). c_thr D (t_id t) = None \<longrightarrow> t_depth t = 1 \<and> t_id t \<noteq> 0)"

definition world :: "ctx \<Rightarrow> interp \<Rightarrow> bool" where
  "world D I \<longleftrightarrow> world0 D I \<and> \<not> t_done (fg I)"

lemma world_thr:
  assumes "world0 D I" and "c_thr D i = Some s"
  shows "fst s = i" and "\<exists>t\<in>set (threads I). tst t = s \<and> \<not> t_done t"
  using assms unfolding world0_def by blast+

lemma world_fresh: "world0 D I \<Longrightarrow> t \<in> set (threads I) \<Longrightarrow> c_thr D (t_id t) = None \<Longrightarrow> t_depth t = 1 \<and> t_id t \<noteq> 0"
  unfolding world0_def by blast

lemma world_parts:
  assumes "world0 D I"
  shows "hinv (c_priv D) (c_refs D + iroots I) (hp I)" and "sched_ok I" and "c_priv D \<subseteq> set_mset (c_refs D)"
  using assms unfolding world0_def by blast+

lemma world_intro:
  assumes "hinv (c_priv D) (c_refs D + iroots I) (hp I)" and "sched_ok I" and "c_priv D \<subseteq> set_mset (c_refs D)"
    and "\<And>i s. c_thr D i = Some s \<Longrightarrow> fst s = i \<and> (\<exists>t\<in>set (threads I). tst t = s \<and> \<not> t_done t)"
    and "\<And>t. t \<in> set (threads I) \<Longrightarrow> c_thr D (t_id t) = None \<Longrightarrow> t_depth t = 1 \<and> t_id t \<noteq> 0"
  shows "world0 D I"
  unfolding world0_def
proof (intro conjI allI impI ballI)
  fix i s
  assume "c_thr D i = Some s"
  from assms(4) [OF this] show "fst s = i" "\<exists>t\<in>set (threads I). tst t = s \<and> \<not> t_done t"
    by (rule conjunct1, rule conjunct2)
next
  fix t
  assume "t \<in> set (threads I)" "c_thr D (t_id t) = None"
  from assms(5) [OF this] show "t_depth t = 1" "t_id t \<noteq> 0" by (rule conjunct1, rule conjunct2)
qed (rule assms(1-3))+

definition with_own :: "ctx \<Rightarrow> addr multiset \<Rightarrow> addr set \<Rightarrow> tst \<Rightarrow> ctx" where
  "with_own C R P s = C\<lparr>c_refs := c_refs C + R, c_priv := c_priv C \<union> P, c_thr := (c_thr C)(fst s \<mapsto> s)\<rparr>"

definition st_ok :: "ctx \<Rightarrow> addr multiset \<Rightarrow> addr set \<Rightarrow> tst \<Rightarrow> interp \<Rightarrow> bool" where
  "st_ok C R P s I \<longleftrightarrow> world (with_own C R P s) I \<and> tst (fg I) = s
     \<and> c_priv C \<subseteq> set_mset (c_refs C) \<and> P \<subseteq> set_mset R \<and> c_self C = fst s \<and> c_thr C (fst s) = None"

text \<open>The finished case: a thread that is done owns nothing and never returns.\<close>

primrec okres :: "'a res \<Rightarrow> ('a \<Rightarrow> ctx \<Rightarrow> interp \<Rightarrow> bool) \<Rightarrow> ctx \<Rightarrow> bool" where
  "okres (Ret x I) Q C = Q x C I"
| "okres Undef Q C = True"
| "okres No_fuel Q C = True"
| "okres (Swap I k) Q C =
     ((\<exists>R P s. world (with_own C R P s) I \<and> P \<subseteq> set_mset R \<and> fst s = c_self C
         \<and> (\<forall>C' I'. st_ok C' R P s I' \<longrightarrow> okres (k I') Q C'))
      \<or> (world C I \<and> (\<forall>C' I'. okres (k I') Q C')))"

lemma okres_bind:
  assumes "okres r Q C" and "\<And>x C' I'. Q x C' I' \<Longrightarrow> okres (f x I') Q' C'"
  shows "okres (rbind r f) Q' C"
  using assms(1)
proof (induction r arbitrary: C)
  case (Swap I k)
  from Swap.prems consider R P s where "world (with_own C R P s) I" "P \<subseteq> set_mset R" "fst s = c_self C"
      "\<And>C' I'. st_ok C' R P s I' \<Longrightarrow> okres (k I') Q C'"
    | "world C I" "\<And>C' I'. okres (k I') Q C'" by auto
  then show ?case
  proof cases
    case 1
    then have "\<forall>C' I'. st_ok C' R P s I' \<longrightarrow> okres (rbind (k I') f) Q' C'"
      using Swap.IH [OF rangeI] by blast
    with 1(1-3) show ?thesis by (simp only: rbind.simps okres.simps) blast
  next
    case 2
    then have "\<forall>C' I'. okres (rbind (k I') f) Q' C'" using Swap.IH [OF rangeI] by blast
    with 2(1) show ?thesis by simp
  qed
qed (auto intro: assms(2))

lemma okres_mono: "okres r Q C \<Longrightarrow> (\<And>x C' I'. Q x C' I' \<Longrightarrow> Q' x C' I') \<Longrightarrow> okres r Q' C"
proof (induction r arbitrary: C)
  case (Swap I k)
  then show ?case by simp blast
qed auto

lemma okres_lift: "(\<And>x I. r = Some (x, I) \<Longrightarrow> Q x C I) \<Longrightarrow> okres (lift r) Q C"
  by (cases r) (auto simp: lift_def)

lemma okres_lift_read: "(\<And>x. r = Some x \<Longrightarrow> Q x C I) \<Longrightarrow> okres (lift_read I r) Q C"
  by (cases r) (auto simp: lift_read_def)

lemma okres_lift_upd: "(\<And>I. r = Some I \<Longrightarrow> Q () C I) \<Longrightarrow> okres (lift_upd r) Q C"
  by (cases r) (auto simp: lift_upd_def)

lemma okres_bind_lift:
  "(\<And>x I. r = Some (x, I) \<Longrightarrow> okres (f x I) Q C) \<Longrightarrow> okres (rbind (lift r) f) Q C"
  by (cases r) (auto simp: lift_def)

lemma okres_bind_read:
  "(\<And>x. r = Some x \<Longrightarrow> okres (f x I) Q C) \<Longrightarrow> okres (rbind (lift_read I r) f) Q C"
  by (cases r) (auto simp: lift_read_def)

lemma okres_bind_upd:
  "(\<And>I. r = Some I \<Longrightarrow> okres (f () I) Q C) \<Longrightarrow> okres (rbind (lift_upd r) f) Q C"
  by (cases r) (auto simp: lift_upd_def)

lemmas okres_steps = okres_bind_lift okres_bind_read okres_bind_upd

section \<open>Using the invariant\<close>

definition npriv :: "ctx \<Rightarrow> addr set \<Rightarrow> addr \<Rightarrow> bool" where
  "npriv C P a \<longleftrightarrow> a \<notin> c_priv C \<union> P"

lemma with_own_simps [simp]:
  "c_refs (with_own C R P s) = c_refs C + R" "c_priv (with_own C R P s) = c_priv C \<union> P"
  "c_thr (with_own C R P s) = (c_thr C)(fst s \<mapsto> s)" "c_self (with_own C R P s) = c_self C"
  by (simp_all add: with_own_def)

lemma st_ok_hinv: "st_ok C R P s I \<Longrightarrow> hinv (c_priv C \<union> P) (c_refs C + R + iroots I) (hp I)"
  by (simp add: st_ok_def world_def world0_def)

lemma st_ok_sched: "st_ok C R P s I \<Longrightarrow> sched_ok I \<and> \<not> t_done (fg I) \<and> tst (fg I) = s"
  by (simp add: st_ok_def world_def world0_def)

lemma st_ok_world: "st_ok C R P s I \<Longrightarrow> world (with_own C R P s) I"
  by (simp add: st_ok_def)

text \<open>A step that keeps the suspended threads as they are.\<close>

lemma st_ok_world0: "st_ok C R P s I \<Longrightarrow> world0 (with_own C R P s) I"
  by (simp add: st_ok_def world_def)

lemma worldI:
  assumes w: "world0 D I" and "hinv (c_priv D') (c_refs D' + iroots I') (hp I')" and "sched_ok I'"
    and "c_priv D' \<subseteq> set_mset (c_refs D')" and thr: "c_thr D' = c_thr D" and sub: "set (threads I) \<subseteq> set (threads I')"
    and new: "\<And>t. t \<in> set (threads I') \<Longrightarrow> t \<notin> set (threads I) \<Longrightarrow> t_depth t = 1 \<and> t_id t \<noteq> 0"
  shows "world0 D' I'"
proof (rule world_intro)
  fix i s
  assume "c_thr D' i = Some s"
  then have "c_thr D i = Some s" unfolding thr .
  from world_thr [OF w this] sub show "fst s = i \<and> (\<exists>t\<in>set (threads I'). tst t = s \<and> \<not> t_done t)" by blast
next
  fix t
  assume "t \<in> set (threads I')" "c_thr D' (t_id t) = None"
  then show "t_depth t = 1 \<and> t_id t \<noteq> 0"
    using new [of t] world_fresh [OF w, of t] unfolding thr by blast
qed (rule assms)+

text \<open>An address the interpreter owns is not private.\<close>

lemma two_refs:
  assumes "a \<in># A" and "a \<in># B"
  shows "count (A + B) a \<noteq> 1"
proof -
  from assms obtain A' B' where "A = add_mset a A'" "B = add_mset a B'" by (metis insert_DiffM)
  then show ?thesis by simp
qed

lemma st_ok_root:
  assumes ok: "st_ok C R P s I" and a: "a \<in># iroots I"
  shows "npriv C P a"
proof (rule ccontr)
  assume "\<not> npriv C P a"
  then have p: "a \<in> c_priv C \<union> P" by (simp add: npriv_def)
  then have "a \<in># c_refs C + R" using ok by (auto simp: st_ok_def)
  from two_refs [OF this a] have "count (c_refs C + R + iroots I) a \<noteq> 1" .
  moreover have "count (c_refs C + R + iroots I) a = 1" using hinv_private [OF st_ok_hinv [OF ok] p] by simp
  ultimately show False by simp
qed

lemma st_ok_heap:
  assumes ok: "st_ok C R P s I" and "hinv (c_priv C \<union> P') (c_refs C + R' + iroots I) h" and "P' \<subseteq> set_mset R'"
  shows "st_ok C R' P' s (I\<lparr>hp := h\<rparr>)"
proof -
  have eqs: "iroots (I\<lparr>hp := h\<rparr>) = iroots I" "sched_ok (I\<lparr>hp := h\<rparr>) = sched_ok I" "threads (I\<lparr>hp := h\<rparr>) = threads I"
    by (simp_all add: iroots_def groots_def threads_def sched_ok_def)
  have c: "c_priv C \<subseteq> set_mset (c_refs C)" using ok by (simp add: st_ok_def)
  have "world0 (with_own C R' P' s) (I\<lparr>hp := h\<rparr>)"
  proof (rule worldI [OF st_ok_world0 [OF ok]])
    show "hinv (c_priv (with_own C R' P' s)) (c_refs (with_own C R' P' s) + iroots (I\<lparr>hp := h\<rparr>)) (hp (I\<lparr>hp := h\<rparr>))"
      using assms(2) by (simp add: eqs)
    show "c_priv (with_own C R' P' s) \<subseteq> set_mset (c_refs (with_own C R' P' s))" using c assms(3) by auto
  qed (use st_ok_sched [OF ok] in \<open>simp_all add: eqs\<close>)
  then show ?thesis
    using ok assms(3) by (simp add: st_ok_def world_def)
qed

lemma st_ok_upd_heap:
  assumes "upd_heap f I = Some I'" and "st_ok C R P s I"
    and "\<And>h. f (hp I) = Some h \<Longrightarrow> hinv (c_priv C \<union> P') (c_refs C + R' + iroots I) h" and "P' \<subseteq> set_mset R'"
  shows "st_ok C R' P' s I'"
  using assms by (auto simp: upd_heap_def intro!: st_ok_heap)

lemma st_ok_on_heap:
  assumes "on_heap f I = Some (x, I')" and "st_ok C R P s I"
    and "\<And>h. f (hp I) = Some (x, h) \<Longrightarrow> hinv (c_priv C \<union> P') (c_refs C + R' + iroots I) h" and "P' \<subseteq> set_mset R'"
  shows "st_ok C R' P' s I'"
  using assms by (auto simp: on_heap_def bind_Some intro!: st_ok_heap)

lemma st_ok_own: "st_ok C R P s I \<Longrightarrow> P \<subseteq> set_mset R"
  by (simp add: st_ok_def)

text \<open>Heap operations that keep the roots, of either form.\<close>

lemma st_ok_on_heap_same:
  assumes "on_heap f I = Some (x, I')" and ok: "st_ok C R P s I"
    and "\<And>P R h h'. hinv P R h \<Longrightarrow> f h = Some (x, h') \<Longrightarrow> hinv P R h'"
  shows "st_ok C R P s I'"
  by (rule st_ok_on_heap [OF assms(1,2) _ st_ok_own [OF ok]]) (rule assms(3) [OF st_ok_hinv [OF ok]])

lemma hinv_as_str: "hinv P R h \<Longrightarrow> b6b_as_str a h = Some (x, h') \<Longrightarrow> hinv P R h'"
  by (rule hinv_conv [OF _ b6b_as_str_conv_le])

lemma hinv_as_int: "hinv P R h \<Longrightarrow> b6b_as_int a h = Some (x, h') \<Longrightarrow> hinv P R h'"
  by (rule hinv_conv [OF _ b6b_as_int_conv_le])

lemma hinv_obj_hash: "hinv P R h \<Longrightarrow> b6b_obj_hash a h = Some (x, h') \<Longrightarrow> hinv P R h'"
  by (rule hinv_conv [OF _ b6b_obj_hash_conv_le])

lemma as_str_ok: "on_heap (b6b_as_str a) I = Some (x, I') \<Longrightarrow> st_ok C R P s I \<Longrightarrow> st_ok C R P s I'"
  by (erule st_ok_on_heap_same, assumption) (rule hinv_as_str)

lemma as_int_ok: "on_heap (b6b_as_int a) I = Some (x, I') \<Longrightarrow> st_ok C R P s I \<Longrightarrow> st_ok C R P s I'"
  by (erule st_ok_on_heap_same, assumption) (rule hinv_as_int)

lemma obj_hash_ok: "on_heap (b6b_obj_hash a) I = Some (x, I') \<Longrightarrow> st_ok C R P s I \<Longrightarrow> st_ok C R P s I'"
  by (erule st_ok_on_heap_same, assumption) (rule hinv_obj_hash)

lemma as_list_ok: "on_heap (b6b_as_list a) I = Some (x, I') \<Longrightarrow> st_ok C R P s I \<Longrightarrow> st_ok C R P s I'"
  by (erule st_ok_on_heap_same, assumption) (rule b6b_as_list_hinv)

lemma dict_unset_ok: "on_heap (b6b_dict_unset d k) I = Some (x, I') \<Longrightarrow> st_ok C R P s I \<Longrightarrow> st_ok C R P s I'"
  by (erule st_ok_on_heap_same, assumption) (rule b6b_dict_unset_hinv)

lemma dict_get_ok: "on_heap (b6b_dict_get d k) I = Some (x, I') \<Longrightarrow> st_ok C R P s I \<Longrightarrow> st_ok C R P s I'"
  by (erule st_ok_on_heap_same, assumption) (rule b6b_dict_get_hinv(1))

lemma dict_get_npriv:
  assumes "on_heap (b6b_dict_get d k) I = Some (Some (Some v), I')" and "st_ok C R P s I"
  shows "npriv C P v"
  using assms(1) b6b_dict_get_hinv(2) [OF st_ok_hinv [OF assms(2)]]
  by (auto simp: on_heap_def bind_Some npriv_def)

lemma items_npriv:
  assumes "items_at l I = Some its" and "st_ok C R P s I" and "a \<in> snd ` set its"
  shows "npriv C P a"
  using hinv_item [OF st_ok_hinv [OF assms(2)] assms(1) [unfolded items_at_def]] assms(3) by (simp add: npriv_def)

lemma node_obj_npriv:
  "node_obj l li I = Some a \<Longrightarrow> st_ok C R P s I \<Longrightarrow> npriv C P a"
  by (auto simp: node_obj_def bind_Some dest!: map_of_SomeD intro!: items_npriv) force

lemma dict_set_ok:
  assumes "on_heap (b6b_dict_set d k v) I = Some (x, I')" and ok: "st_ok C R P s I"
    and "npriv C P k" and "npriv C P v"
  shows "st_ok C R P s I'"
  using assms(3,4) b6b_dict_set_hinv [OF st_ok_hinv [OF ok]]
  by (intro st_ok_on_heap [OF assms(1) ok _ st_ok_own [OF ok]]) (auto simp: npriv_def)

lemma list_add_ok_st:
  assumes "upd_heap (b6b_list_add l x) I = Some I'" and ok: "st_ok C R P s I" and "npriv C P x"
  shows "st_ok C R P s I'"
  using assms(3) b6b_list_add_hinv [OF st_ok_hinv [OF ok]]
  by (intro st_ok_upd_heap [OF assms(1) ok _ st_ok_own [OF ok]]) (auto simp: npriv_def)

lemma list_extend_ok:
  assumes "upd_heap (b6b_list_extend l m) I = Some I'" and ok: "st_ok C R P s I"
  shows "st_ok C R P s I'"
  using b6b_list_extend_hinv [OF st_ok_hinv [OF ok]]
  by (intro st_ok_upd_heap [OF assms(1) ok _ st_ok_own [OF ok]])

text \<open>Taking, dropping and creating references.\<close>

lemma ref_ok_st:
  assumes "upd_heap (b6b_ref a) I = Some I'" and ok: "st_ok C R P s I" and "npriv C P a"
  shows "st_ok C (add_mset a R) P s I'"
  using b6b_ref_hinv [OF st_ok_hinv [OF ok]] assms(3) st_ok_own [OF ok]
  by (intro st_ok_upd_heap [OF assms(1) ok]) (auto simp: npriv_def)

lemma unref_ok_st:
  assumes "upd_heap (b6b_unref a) I = Some I'" and ok: "st_ok C (add_mset a R) P s I" and "npriv C P a"
  shows "st_ok C R P s I'"
proof (rule st_ok_upd_heap [OF assms(1) ok])
  show "hinv (c_priv C \<union> P) (c_refs C + R + iroots I) h" if "b6b_unref a (hp I) = Some h" for h
    using b6b_unref_hinv [of "c_priv C \<union> P" a "c_refs C + R + iroots I" "hp I" h] st_ok_hinv [OF ok] that assms(3)
    by (simp add: npriv_def)
  show "P \<subseteq> set_mset R" using st_ok_own [OF ok] assms(3) by (auto simp: npriv_def)
qed

lemma new_heap_ok:
  assumes "new_heap f I = (a, I')" and ok: "st_ok C R P s I"
    and "\<And>P R h h' a. hinv P R h \<Longrightarrow> f h = (a, h') \<Longrightarrow> hinv P (add_mset a R) h'"
  shows "st_ok C (add_mset a R) P s I'"
proof -
  from assms(1) obtain h where h: "f (hp I) = (a, h)" "I' = I\<lparr>hp := h\<rparr>" by (auto simp: new_heap_def split: prod.splits)
  have "hinv (c_priv C \<union> P) (c_refs C + add_mset a R + iroots I) h"
    using assms(3) [OF st_ok_hinv [OF ok] h(1)] by simp
  then show ?thesis unfolding h(2) using st_ok_own [OF ok] by (intro st_ok_heap [OF ok]) auto
qed

lemma new_heap_npriv:
  assumes "new_heap f I = (a, I')" and ok: "st_ok C R P s I"
    and "\<And>P R h h' a. hinv P R h \<Longrightarrow> f h = (a, h') \<Longrightarrow> a \<notin> P"
  shows "npriv C P a"
proof -
  from assms(1) obtain h where "f (hp I) = (a, h)" by (auto simp: new_heap_def split: prod.splits)
  from assms(3) [OF st_ok_hinv [OF ok] this] show ?thesis by (simp add: npriv_def)
qed

lemma str_new_ok:
  assumes "new_heap (b6b_str_new t) I = (a, I')" and "st_ok C R P s I"
  shows "st_ok C (add_mset a R) P s I'" and "npriv C P a"
  by (rule new_heap_ok [OF assms], erule (1) b6b_str_new_hinv(1)) (rule new_heap_npriv [OF assms], erule (1) b6b_str_new_hinv(2))

lemma str_copy_ok_st:
  assumes "new_heap (b6b_str_copy t) I = (a, I')" and "st_ok C R P s I"
  shows "st_ok C (add_mset a R) P s I'" and "npriv C P a"
  by (rule new_heap_ok [OF assms], erule (1) b6b_str_copy_hinv(1)) (rule new_heap_npriv [OF assms], erule (1) b6b_str_copy_hinv(2))

lemma int_new_ok:
  assumes "new_heap (b6b_int_new i) I = (a, I')" and "st_ok C R P s I"
  shows "st_ok C (add_mset a R) P s I'" and "npriv C P a"
  by (rule new_heap_ok [OF assms], erule (1) b6b_int_new_hinv(1)) (rule new_heap_npriv [OF assms], erule (1) b6b_int_new_hinv(2))

lemma float_new_ok:
  assumes "new_heap (b6b_float_new f) I = (a, I')" and "st_ok C R P s I"
  shows "st_ok C (add_mset a R) P s I'" and "npriv C P a"
  by (rule new_heap_ok [OF assms], erule (1) b6b_float_new_hinv(1)) (rule new_heap_npriv [OF assms], erule (1) b6b_float_new_hinv(2))

lemma list_new_ok:
  assumes "new_heap b6b_list_new I = (a, I')" and "st_ok C R P s I"
  shows "st_ok C (add_mset a R) P s I'" and "npriv C P a"
  by (rule new_heap_ok [OF assms], erule (1) b6b_list_new_hinv(1)) (rule new_heap_npriv [OF assms], erule (1) b6b_list_new_hinv(2))

text \<open>A new list as a private object, its destruction, and making it public.\<close>

lemma list_new_private:
  assumes "new_heap b6b_list_new I = (a, I')" and ok: "st_ok C R P s I"
  shows "st_ok C (add_mset a R) (insert a P) s I'"
proof -
  from assms(1) obtain h where h: "b6b_list_new (hp I) = (a, h)" "I' = I\<lparr>hp := h\<rparr>"
    by (auto simp: new_heap_def split: prod.splits)
  have "hinv (c_priv C \<union> insert a P) (c_refs C + add_mset a R + iroots I) h"
    using b6b_list_new_hinv(3) [OF st_ok_hinv [OF ok] h(1)] by simp
  then show ?thesis unfolding h(2) using st_ok_own [OF ok] by (intro st_ok_heap [OF ok]) auto
qed

lemma own_not_ctx_priv:
  assumes ok: "st_ok C R P s I" and "a \<in># R"
  shows "a \<notin> c_priv C"
proof
  assume a: "a \<in> c_priv C"
  then have "a \<in># c_refs C" using ok by (auto simp: st_ok_def)
  moreover have "a \<in># R + iroots I" using assms(2) by simp
  ultimately have "count (c_refs C + (R + iroots I)) a \<noteq> 1" by (rule two_refs)
  then have "count (c_refs C + R + iroots I) a \<noteq> 1" by (simp add: add.assoc)
  moreover have "count (c_refs C + R + iroots I) a = 1" using hinv_private [OF st_ok_hinv [OF ok]] a by blast
  ultimately show False by simp
qed

lemma make_public:
  assumes ok: "st_ok C R P s I" and "Q \<subseteq> P"
  shows "st_ok C R Q s I"
proof -
  have "st_ok C R Q s (I\<lparr>hp := hp I\<rparr>)"
    by (rule st_ok_heap [OF ok hinv_less_private [OF st_ok_hinv [OF ok]]]) (use assms st_ok_own [OF ok] in auto)
  then show ?thesis by simp
qed

lemma private_npriv:
  assumes "st_ok C (add_mset a R) (insert a P) s I" and "a \<notin> P"
  shows "npriv C P a"
  using own_not_ctx_priv [OF assms(1)] assms(2) by (simp add: npriv_def)

lemma destroy_private_ok:
  assumes "upd_heap (b6b_destroy a) I = Some I'" and ok: "st_ok C (add_mset a R) (insert a P) s I" and "a \<notin> P"
  shows "st_ok C R P s I'"
proof (rule st_ok_upd_heap [OF assms(1) ok])
  have a: "a \<notin> c_priv C" by (rule own_not_ctx_priv [OF ok]) simp
  show "hinv (c_priv C \<union> P) (c_refs C + R + iroots I) h" if "b6b_destroy a (hp I) = Some h" for h
  proof -
    have "c_priv C \<union> insert a P - {a} = c_priv C \<union> P" using a assms(3) by auto
    with b6b_destroy_hinv [of "c_priv C \<union> insert a P" a "c_refs C + R + iroots I" "hp I" h] st_ok_hinv [OF ok] that
    show ?thesis by simp
  qed
  have "count (c_refs C + add_mset a R + iroots I) a = 1" using hinv_private [OF st_ok_hinv [OF ok]] by blast
  then show "P \<subseteq> set_mset R" using st_ok_own [OF ok] assms(3) by auto
qed
section \<open>The running thread's own fields\<close>

text \<open>The roots but for the return value and the frames of the running thread.\<close>

definition xroots :: "interp \<Rightarrow> addr multiset" where
  "xroots I = groots I + mset (case t_fn (fg I) of None \<Rightarrow> [] | Some a \<Rightarrow> [a])
     + sum_list (map troots (tq_before I @ tq_after I))"

lemma iroots_split:
  "iroots I = xroots I + add_mset (t_ret (fg I)) (sum_list (map froots (t_curr (fg I))))"
  by (simp add: iroots_def xroots_def threads_def troots_def ac_simps)

lemma xroots_simps [simp]:
  "xroots (I\<lparr>hp := h\<rparr>) = xroots I" "t_fn t = t_fn (fg I) \<Longrightarrow> xroots (I\<lparr>fg := t\<rparr>) = xroots I"
  "t_fn t = t_fn (fg I) \<Longrightarrow> xroots (I\<lparr>hp := h, fg := t\<rparr>) = xroots I"
  by (simp_all add: xroots_def groots_def)

lemma froots_sum: "f \<in> set fs \<Longrightarrow> locals f \<in># sum_list (map froots fs) \<and> fargs f \<in># sum_list (map froots fs)"
  by (induction fs) (auto simp: froots_def)

lemma chain_root:
  assumes "f \<in> set (chain I)"
  shows "locals f \<in># iroots I" and "fargs f \<in># iroots I"
proof -
  from assms consider "f \<in> set (t_curr (fg I))" | "f = global I" by (auto simp: chain_def)
  then have "locals f \<in># iroots I \<and> fargs f \<in># iroots I"
  proof cases
    case 1
    then show ?thesis using froots_sum by (simp add: iroots_split)
  next
    case 2
    then show ?thesis by (simp add: iroots_def groots_def froots_def)
  qed
  then show "locals f \<in># iroots I" "fargs f \<in># iroots I" by simp_all
qed

lemma curr_root: "locals (curr I) \<in># iroots I" "fargs (curr I) \<in># iroots I"
  by (rule chain_root, simp add: curr_def chain_def, cases "t_curr (fg I)", simp_all)+

lemma roots [simp]:
  "t_ret (fg I) \<in># iroots I" "i_null I \<in># iroots I" "i_zero I \<in># iroots I" "i_one I \<in># iroots I"
  "i_dot I \<in># iroots I" "i_at I \<in># iroots I" "i_us I \<in># iroots I" "locals (global I) \<in># iroots I"
  by (auto simp: iroots_split xroots_def groots_def froots_def)

lemma st_ok_change:
  assumes ok: "st_ok C R P s I"
    and t: "t_id t = t_id (fg I)" "t_bg t = t_bg (fg I)" "t_fg t = t_fg (fg I)" "t_done t = t_done (fg I)"
      "thread_ok (next_tid I) t"
    and inv: "hinv (c_priv C \<union> P') (c_refs C + R' + iroots (I\<lparr>hp := h, fg := t\<rparr>)) h" and own: "P' \<subseteq> set_mset R'"
  shows "st_ok C R' P' (tst t) (I\<lparr>hp := h, fg := t\<rparr>)"
proof -
  let ?I = "I\<lparr>hp := h, fg := t\<rparr>" and ?D = "with_own C R' P' (tst t)"
  from ok have w: "world0 (with_own C R P s) I" and s: "tst (fg I) = s" and c: "c_priv C \<subseteq> set_mset (c_refs C)"
    by (simp_all add: st_ok_def world_def)
  have ids: "fst (tst t) = fst s" "t_id t = fst s" "t_id (fg I) = fst s" using t(1) s by (auto simp: tst_def)
  have so: "sched_ok I" by (rule world_parts(2) [OF w])
  have "world0 ?D ?I"
  proof (rule world_intro)
    show "sched_ok ?I" using so t by (cases "tq_before I") (auto simp: sched_ok_def threads_def)
    show "hinv (c_priv ?D) (c_refs ?D + iroots ?I) (hp ?I)" using inv by simp
    show "c_priv ?D \<subseteq> set_mset (c_refs ?D)" using c own by auto
  next
    fix i x
    assume x: "c_thr ?D i = Some x"
    show "fst x = i \<and> (\<exists>u\<in>set (threads ?I). tst u = x \<and> \<not> t_done u)"
    proof (cases "i = fst s")
      case True
      with x ids have "x = tst t" by simp
      with True ids t(4) st_ok_sched [OF ok] show ?thesis by (auto simp: threads_def)
    next
      case False
      then have "c_thr (with_own C R P s) i = Some x" using x ids by simp
      note th = world_thr [OF w this]
      from th(2) obtain u where u: "u \<in> set (threads I)" "tst u = x" "\<not> t_done u" by (elim bexE conjE)
      have "u \<noteq> fg I" using u(2) th(1) False ids(3) by (auto simp: tst_def)
      with u(1) have "u \<in> set (threads ?I)" by (auto simp: threads_def)
      with u th(1) show ?thesis by (intro conjI bexI [of _ u]) simp_all
    qed
  next
    fix u
    assume u: "u \<in> set (threads ?I)" "c_thr ?D (t_id u) = None"
    then have "t_id u \<noteq> fst s" using ids by auto
    then have "u \<noteq> t" "c_thr (with_own C R P s) (t_id u) = None" using u ids by auto
    with u show "t_depth u = 1 \<and> t_id u \<noteq> 0" by (intro world_fresh [OF w]) (auto simp: threads_def)
  qed
  then show ?thesis
    using st_ok_sched [OF ok] ok own c t(4) ids by (simp add: st_ok_def world_def)
qed

lemma st_ok_thread: "st_ok C R P s I \<Longrightarrow> thread_ok (next_tid I) (fg I)"
  using st_ok_sched by (auto simp: sched_ok_def threads_def)

lemma st_ok_set_ret:
  assumes ok: "st_ok C R P s I"
    and inv: "hinv (c_priv C \<union> P') (c_refs C + R' + add_mset a (xroots I + sum_list (map froots (t_curr (fg I))))) h"
    and own: "P' \<subseteq> set_mset R'"
  shows "st_ok C R' P' s (set_ret a (I\<lparr>hp := h\<rparr>))"
proof -
  let ?t = "(fg I)\<lparr>t_ret := a\<rparr>"
  have "st_ok C R' P' (tst ?t) (I\<lparr>hp := h, fg := ?t\<rparr>)"
  proof (rule st_ok_change [OF ok])
    show "thread_ok (next_tid I) ?t" using st_ok_thread [OF ok] by (simp add: thread_ok_def split: if_splits)
    show "hinv (c_priv C \<union> P') (c_refs C + R' + iroots (I\<lparr>hp := h, fg := ?t\<rparr>)) h"
      using inv by (simp add: iroots_split)
  qed (use own in simp_all)
  moreover have "tst ?t = s" using st_ok_sched [OF ok] by (simp add: tst_def)
  ultimately show ?thesis by (simp add: set_ret_def)
qed

lemma st_ok_ret_hinv:
  assumes "st_ok C R P s I"
  shows "hinv (c_priv C \<union> P)
    (add_mset (t_ret (fg I)) (c_refs C + R + (xroots I + sum_list (map froots (t_curr (fg I)))))) (hp I)"
  using st_ok_hinv [OF assms] by (simp add: iroots_split)

lemma ret_npriv: "st_ok C R P s I \<Longrightarrow> npriv C P (t_ret (fg I))"
  by (erule st_ok_root) simp

text \<open>The old return value given up, a new one put in its place.\<close>

lemma replace_ret_ok:
  assumes "upd_heap (b6b_unref (t_ret (fg I))) I = Some I'" and ok: "st_ok C (add_mset a R) P s I" and a: "npriv C P a"
  shows "st_ok C R P s (set_ret a I')"
proof -
  from assms(1) obtain h where h: "b6b_unref (t_ret (fg I)) (hp I) = Some h" "I' = I\<lparr>hp := h\<rparr>"
    by (auto simp: upd_heap_def)
  have "t_ret (fg I) \<notin> c_priv C \<union> P" using ret_npriv [OF ok] by (simp add: npriv_def)
  from b6b_unref_hinv [OF st_ok_ret_hinv [OF ok] h(1) this]
  have "hinv (c_priv C \<union> P) (c_refs C + R + add_mset a (xroots I + sum_list (map froots (t_curr (fg I))))) h"
    by simp
  moreover have "P \<subseteq> set_mset R" using st_ok_own [OF ok] a by (auto simp: npriv_def)
  ultimately show ?thesis unfolding h(2) by (rule st_ok_set_ret [OF ok])
qed

lemma b6b_return_ok:
  "b6b_return a I = Some (r, I') \<Longrightarrow> st_ok C (add_mset a R) P s I \<Longrightarrow> npriv C P a \<Longrightarrow> st_ok C R P s I'"
  by (auto simp: b6b_return_def bind_Some intro: replace_ret_ok)

lemma return_ref_ok:
  "return_ref a I = Some (r, I') \<Longrightarrow> st_ok C R P s I \<Longrightarrow> npriv C P a \<Longrightarrow> st_ok C R P s I'"
  by (auto simp: return_ref_def bind_Some intro: b6b_return_ok ref_ok_st)

lemma b6b_return_bool_ok: "b6b_return_bool b I = Some (r, I') \<Longrightarrow> st_ok C R P s I \<Longrightarrow> st_ok C R P s I'"
  unfolding b6b_return_bool_def by (erule return_ref_ok) (auto intro: st_ok_root)

lemma b6b_return_str_ok: "b6b_return_str t I = Some (r, I') \<Longrightarrow> st_ok C R P s I \<Longrightarrow> st_ok C R P s I'"
  by (auto simp: b6b_return_str_def split: prod.splits intro: b6b_return_ok str_copy_ok_st)

lemma b6b_return_int_ok: "b6b_return_int i I = Some (r, I') \<Longrightarrow> st_ok C R P s I \<Longrightarrow> st_ok C R P s I'"
  by (auto simp: b6b_return_int_def split: prod.splits intro: b6b_return_ok int_new_ok)

lemma b6b_return_float_ok: "b6b_return_float f I = Some (r, I') \<Longrightarrow> st_ok C R P s I \<Longrightarrow> st_ok C R P s I'"
  by (auto simp: b6b_return_float_def split: prod.splits intro: b6b_return_ok float_new_ok)

lemma fail_with_ok: "fail_with t I = Some (r, I') \<Longrightarrow> st_ok C R P s I \<Longrightarrow> st_ok C R P s I'"
  by (auto simp: fail_with_def bind_Some intro: b6b_return_str_ok)

text \<open>The same with the new reference taken after the old value is gone.\<close>

lemma replace_ret_ref_ok:
  assumes u: "upd_heap (b6b_unref (t_ret (fg I))) I = Some I1" and r: "upd_heap (b6b_ref a) I1 = Some I2"
    and ok: "st_ok C R P s I" and a: "npriv C P a"
  shows "st_ok C R P s (set_ret a I2)"
proof -
  from u obtain h where h: "b6b_unref (t_ret (fg I)) (hp I) = Some h" "I1 = I\<lparr>hp := h\<rparr>"
    by (auto simp: upd_heap_def)
  with r obtain h2 where h2: "b6b_ref a h = Some h2" "I2 = I\<lparr>hp := h2\<rparr>" by (auto simp: upd_heap_def)
  have "t_ret (fg I) \<notin> c_priv C \<union> P" using ret_npriv [OF ok] by (simp add: npriv_def)
  from b6b_unref_hinv [OF st_ok_ret_hinv [OF ok] h(1) this]
  have "hinv (c_priv C \<union> P) (c_refs C + R + (xroots I + sum_list (map froots (t_curr (fg I))))) h" .
  from b6b_ref_hinv [OF this h2(1)] a
  have "hinv (c_priv C \<union> P) (c_refs C + R + add_mset a (xroots I + sum_list (map froots (t_curr (fg I))))) h2"
    by (simp add: npriv_def)
  then show ?thesis unfolding h2(2) using st_ok_own [OF ok] by (rule st_ok_set_ret [OF ok])
qed

section \<open>Frames\<close>

lemma b6b_frame_new_hinv:
  assumes "hinv P R h" and "b6b_frame_new h = (f, h')"
  shows "hinv P (R + froots f) h'"
proof -
  obtain d h1 where d: "b6b_list_new h = (d, h1)" by fastforce
  obtain a h2 where a: "b6b_list_new h1 = (a, h2)" by fastforce
  from assms(2) d a have f: "f = \<lparr>locals = d, fargs = a\<rparr>" "h' = h2" by (simp_all add: b6b_frame_new_def)
  from b6b_list_new_hinv(1) [OF b6b_list_new_hinv(1) [OF assms(1) d] a] f show ?thesis
    by (simp add: froots_def add_mset_commute)
qed

lemma b6b_frame_destroy_hinv:
  assumes inv: "hinv P (R + froots f) h" and "b6b_frame_destroy f h = Some h'" and "set_mset (froots f) \<inter> P = {}"
  shows "hinv P R h'"
proof -
  from assms(2) obtain h1 where r: "b6b_unref (fargs f) h = Some h1" "b6b_unref (locals f) h1 = Some h'"
    by (auto simp: b6b_frame_destroy_def bind_Some)
  have "hinv P (add_mset (fargs f) (add_mset (locals f) R)) h" using inv by (simp add: froots_def add_mset_commute)
  from b6b_unref_hinv [OF b6b_unref_hinv [OF this r(1)] r(2)] assms(3) show ?thesis by (simp add: froots_def)
qed

lemma frame_push_ok:
  assumes "b6b_frame_push I = Some (fo, I')" and ok: "st_ok C R P s I"
  shows "case fo of None \<Rightarrow> st_ok C R P s I'
    | Some f \<Rightarrow> st_ok C R P (fst s, f # fst (snd s), fst (snd (snd s)), Suc (snd (snd (snd s)))) I'"
proof (cases "t_depth (fg I) \<ge> B6B_MAX_NESTING")
  case True
  with assms(1) show ?thesis by (auto simp: b6b_frame_push_def bind_Some intro: b6b_return_str_ok [OF _ ok])
next
  case False
  obtain f h where f: "b6b_frame_new (hp I) = (f, h)" by fastforce
  let ?t = "(fg I)\<lparr>t_curr := f # t_curr (fg I), t_depth := Suc (t_depth (fg I))\<rparr>"
  have I': "fo = Some f" "I' = I\<lparr>hp := h, fg := ?t\<rparr>"
    using assms(1) False f by (auto simp: b6b_frame_push_def)
  have "hinv (c_priv C \<union> P) (c_refs C + R + iroots (I\<lparr>hp := h, fg := ?t\<rparr>)) h"
    using b6b_frame_new_hinv [OF st_ok_hinv [OF ok] f] by (simp add: iroots_split ac_simps)
  moreover have "thread_ok (next_tid I) ?t"
    using st_ok_thread [OF ok] False st_ok_sched [OF ok] by (auto simp: thread_ok_def)
  ultimately have "st_ok C R P (tst ?t) (I\<lparr>hp := h, fg := ?t\<rparr>)"
    by (intro st_ok_change [OF ok]) (use st_ok_own [OF ok] in simp_all)
  moreover have "tst ?t = (fst s, f # fst (snd s), fst (snd (snd s)), Suc (snd (snd (snd s))))"
    using st_ok_sched [OF ok] by (auto simp: tst_def)
  ultimately show ?thesis by (simp add: I')
qed

lemma frame_pop_ok:
  assumes "b6b_frame_pop I = Some I'" and ok: "st_ok C R P (i, f # fs, fn, Suc n) I" and ne: "fs \<noteq> []"
  shows "st_ok C R P (i, fs, fn, n) I'"
proof -
  have t: "t_curr (fg I) = f # fs" "t_id (fg I) = i" "t_fn (fg I) = fn" "t_depth (fg I) = Suc n"
    using st_ok_sched [OF ok] by (auto simp: tst_def)
  from assms(1) t obtain h where h: "b6b_frame_destroy f (hp I) = Some h"
    and I': "I' = I\<lparr>hp := h, fg := (fg I)\<lparr>t_curr := fs, t_depth := n\<rparr>\<rparr>"
    by (auto simp: b6b_frame_pop_def bind_Some upd_heap_def)
  let ?t = "(fg I)\<lparr>t_curr := fs, t_depth := n\<rparr>"
  have f: "set_mset (froots f) \<inter> (c_priv C \<union> P) = {}"
  proof -
    have "f \<in> set (chain I)" using t(1) by (simp add: chain_def)
    from chain_root [OF this] st_ok_root [OF ok] show ?thesis by (auto simp: froots_def npriv_def)
  qed
  have "hinv (c_priv C \<union> P) (c_refs C + R + iroots (I\<lparr>hp := h, fg := ?t\<rparr>)) h"
  proof (rule b6b_frame_destroy_hinv [OF _ h f])
    show "hinv (c_priv C \<union> P) (c_refs C + R + iroots (I\<lparr>hp := h, fg := ?t\<rparr>) + froots f) (hp I)"
      using st_ok_hinv [OF ok] t(1) by (simp add: iroots_split ac_simps)
  qed
  moreover have "thread_ok (next_tid I) ?t" using st_ok_thread [OF ok] t ne st_ok_sched [OF ok] by (auto simp: thread_ok_def)
  ultimately have "st_ok C R P (tst ?t) (I\<lparr>hp := h, fg := ?t\<rparr>)"
    by (intro st_ok_change [OF ok]) (use st_ok_own [OF ok] in simp_all)
  moreover have "tst ?t = (i, fs, fn, n)" using t by (simp add: tst_def)
  ultimately show ?thesis by (simp add: I')
qed
section \<open>Variables and arguments\<close>

lemma b6b_local_ok:
  "b6b_local k v I = Some (x, I') \<Longrightarrow> st_ok C R P s I \<Longrightarrow> npriv C P k \<Longrightarrow> npriv C P v \<Longrightarrow> st_ok C R P s I'"
  unfolding b6b_local_def by (rule dict_set_ok)

lemma b6b_global_ok:
  "b6b_global k v I = Some (x, I') \<Longrightarrow> st_ok C R P s I \<Longrightarrow> npriv C P k \<Longrightarrow> npriv C P v \<Longrightarrow> st_ok C R P s I'"
  unfolding b6b_global_def by (rule dict_set_ok)

text \<open>An update that fails has only converted objects.\<close>

lemma b6b_dict_set_fail_conv:
  assumes "b6b_dict_set d k v h = Some (False, h')"
  shows "conv_le h h'"
proof -
  from assms obtain p h1 where p: "dict_find True d k h = Some (p, h1)" by (auto simp: b6b_dict_set_def bind_Some)
  with assms have "h1 = h'" by (cases p) (auto simp: b6b_dict_set_def bind_Some)
  with p show ?thesis by (auto dest: dict_find_conv)
qed

lemma b6b_dict_set_fail_hinv: "b6b_dict_set d k v h = Some (False, h') \<Longrightarrow> hinv P R h \<Longrightarrow> hinv P R h'"
  by (rule hinv_conv [OF _ b6b_dict_set_fail_conv])

lemma dict_set_fail_ok: "on_heap (b6b_dict_set d k v) I = Some (False, I') \<Longrightarrow> st_ok C R P s I \<Longrightarrow> st_ok C R P s I'"
  by (erule st_ok_on_heap_same, assumption) (rule b6b_dict_set_fail_hinv)

lemma set_args_loop_hinv:
  "set_args_loop d l p i n h = Some (ok, h') \<Longrightarrow> hinv P R h \<Longrightarrow> hinv P R h'"
proof (induction n arbitrary: p i h)
  case 0
  then show ?case by (auto split: if_splits)
next
  case (Suc n)
  show ?case
  proof (cases p)
    case None
    with Suc.prems show ?thesis by simp
  next
    case (Some li)
    obtain io h1 where new: "b6b_int_new i h = (io, h1)" by fastforce
    with Suc.prems(1) Some obtain its a ok2 h2 where r: "items_of l h1 = Some its" "map_of its li = Some a"
      "b6b_dict_set d io a h1 = Some (ok2, h2)"
      by (auto simp: bind_Some)
    note new' = new [unfolded b6b_int_new_def]
    have pub: "hinv P (add_mset io R) h1" and io: "io \<notin> P" using b6b_int_new_hinv [OF Suc.prems(2) new] by simp_all
    have priv: "hinv (insert io P) (add_mset io R) h1"
      by (rule b6b_new_hinv(4) [OF Suc.prems(2) new']) (simp_all add: new_obj_def refs_of_def)
    show ?thesis
    proof (cases ok2)
      case False
      with r(3) have "b6b_dict_set d io a h1 = Some (False, h2)" by simp
      from b6b_dict_set_fail_hinv [OF this priv] have "hinv (insert io P) (add_mset io R) h2" .
      moreover have "b6b_destroy io h2 = Some h'" using Suc.prems(1) Some new r False by (auto simp: bind_Some)
      ultimately have "hinv (insert io P - {io}) R h'" by (rule b6b_destroy_hinv) simp
      then show ?thesis using io by simp
    next
      case True
      have "a \<notin> P" by (rule hinv_node [OF pub r(1,2)])
      from b6b_dict_set_hinv [OF pub r(3) io this] have inv2: "hinv P (add_mset io R) h2" .
      from Suc.prems(1) Some new r True obtain h3 p' i' where h3: "b6b_unref io h2 = Some h3"
        "set_args_loop d l p' i' n h3 = Some (ok, h')"
        by (auto simp: bind_Some)
      from Suc.IH [OF h3(2) b6b_unref_hinv [OF inv2 h3(1) io]] show ?thesis .
    qed
  qed
qed

lemma frame_set_args_ok:
  assumes run: "b6b_frame_set_args f args I = Some (x, I')" and ok: "st_ok C R P s I" and args: "npriv C P args"
  shows "st_ok C R P s I'"
proof -
  from run obtain ok1 I1 where r1: "on_heap (b6b_as_list args) I = Some (ok1, I1)" by (auto simp: b6b_frame_set_args_def bind_Some)
  note s1 = as_list_ok [OF r1 ok]
  show ?thesis
  proof (cases ok1)
    case False
    with run r1 s1 show ?thesis by (simp add: b6b_frame_set_args_def)
  next
    case True
    with run r1 obtain ok2 I2 where r2: "on_heap (b6b_dict_set (locals f) (i_at I1) args) I1 = Some (ok2, I2)"
      by (auto simp: b6b_frame_set_args_def bind_Some)
    have s2: "st_ok C R P s I2" by (rule dict_set_ok [OF r2 s1 _ args]) (rule st_ok_root [OF s1], simp)
    show ?thesis
    proof (cases ok2)
      case False
      with True run r1 r2 s2 show ?thesis by (simp add: b6b_frame_set_args_def)
    next
      case ok2: True
      with True run r1 r2 obtain its where r3: "on_heap (set_args_loop (locals f) args (first_in its) 0 (length its)) I2 = Some (x, I')"
        by (auto simp: b6b_frame_set_args_def bind_Some)
      show ?thesis
        using set_args_loop_hinv [OF _ st_ok_hinv [OF s2]]
        by (intro st_ok_on_heap [OF r3 s2 _ st_ok_own [OF s2]]) blast
    qed
  qed
qed

lemma get_in_hinv:
  "get_in k fs h = Some (r, h') \<Longrightarrow> hinv P R h \<Longrightarrow> hinv P R h' \<and> (case r of Some (Some v) \<Rightarrow> v \<notin> P | _ \<Rightarrow> True)"
proof (induction k fs h rule: get_in.induct)
  case (1 k h)
  then show ?case by auto
next
  case (2 k f fs h)
  from "2.prems"(1) obtain q h1 where q: "b6b_dict_get (locals f) k h = Some (q, h1)" by (auto simp: bind_Some)
  note inv1 = b6b_dict_get_hinv [OF "2.prems"(2) q]
  show ?case
  proof (cases q)
    case None
    with "2.prems" q inv1 show ?thesis by auto
  next
    case (Some w)
    show ?thesis
    proof (cases w)
      case None
      with "2.prems"(1) q Some have "get_in k fs h1 = Some (r, h')" by simp
      from "2.IH" [OF q refl Some None this inv1(1)] show ?thesis .
    next
      case (Some v)
      with "2.prems" q \<open>q = Some w\<close> inv1 show ?thesis by auto
    qed
  qed
qed

lemma b6b_get_ok:
  assumes run: "b6b_get k I = Some (r, I')" and ok: "st_ok C R P s I"
  shows "st_ok C R P s I'" and "r = Some v \<Longrightarrow> npriv C P v"
proof -
  from run obtain ok1 I1 where r1: "on_heap (b6b_as_str k) I = Some (ok1, I1)" by (auto simp: b6b_get_def bind_Some)
  note s1 = as_str_ok [OF r1 ok]
  have "st_ok C R P s I' \<and> (\<forall>v. r = Some v \<longrightarrow> npriv C P v)"
  proof (cases ok1)
    case False
    with run r1 s1 show ?thesis by (auto simp: b6b_get_def)
  next
    case True
    with run r1 obtain q I2 where r2: "on_heap (get_in k (chain I1)) I1 = Some (q, I2)"
      by (auto simp: b6b_get_def bind_Some)
    have s2: "st_ok C R P s I2"
      using get_in_hinv [OF _ st_ok_hinv [OF s1]] by (intro st_ok_on_heap [OF r2 s1 _ st_ok_own [OF s1]]) blast
    have np: "npriv C P v" if "q = Some (Some v)" for v
      using r2 get_in_hinv [OF _ st_ok_hinv [OF s1], of k "chain I1" q] that
      by (auto simp: on_heap_def bind_Some npriv_def)
    show ?thesis
      using run r1 r2 True s2 np
      by (auto simp: b6b_get_def bind_Some split: option.splits intro: b6b_return_str_ok)
  qed
  then show "st_ok C R P s I'" "r = Some v \<Longrightarrow> npriv C P v" by simp_all
qed

lemma get_args_ok:
  assumes run: "b6b_proc_get_args l fmt wants I = Some (argc, ps, I')" and ok: "st_ok C R P s I"
  shows "st_ok C R P s I'" and "Arg a \<in> set ps \<Longrightarrow> npriv C P a"
proof -
  let ?f = "\<lambda>h. map_option (\<lambda>(n, ps, h). ((n, ps), h)) (b6b_list_vparse l fmt wants h)"
  from run obtain n qs I1 where r1: "on_heap ?f I = Some ((n, qs), I1)"
    and cont: "(if n \<noteq> 0 then Some (n, qs, I1) else do {
        its \<leftarrow> items_at l I1;
        (case its of
          [] \<Rightarrow> None
        | (_, a) # _ \<Rightarrow> do {
            (ok, I) \<leftarrow> on_heap (b6b_as_str a) I1;
            if \<not> ok then Some (0, qs, I)
            else do {
              (ok, I) \<leftarrow> on_heap (b6b_as_str l) I;
              if \<not> ok then Some (0, qs, I)
              else do {
                buf \<leftarrow> usage fmt;
                ls \<leftarrow> str_at l I;
                s \<leftarrow> str_at a I;
                (_, I) \<leftarrow> b6b_return_str (''bad call: '' @ [QUOTE] @ c_str ls @ [QUOTE] @ '', expect '' @ [QUOTE] @ c_str s @ '' '' @ buf @ [QUOTE]) I;
                Some (0, qs, I)
              }
            }
          })
      }) = Some (argc, ps, I')"
    by (auto simp: b6b_proc_get_args_def bind_Some)
  have v: "hinv (c_priv C \<union> P) (c_refs C + R + iroots I) h \<and> (Arg a \<in> set qs \<longrightarrow> npriv C P a)"
    if "?f (hp I) = Some ((n, qs), h)" for h a
    using that b6b_list_vparse_hinv [OF st_ok_hinv [OF ok]] by (auto simp: npriv_def)
  have s1: "st_ok C R P s I1" by (rule st_ok_on_heap [OF r1 ok _ st_ok_own [OF ok]]) (use v in blast)
  have "ps = qs \<and> st_ok C R P s I'"
  proof (cases "n = 0")
    case False
    with cont s1 show ?thesis by simp
  next
    case True
    with cont obtain its where its: "items_at l I1 = Some its" by (auto simp: bind_Some)
    show ?thesis
    proof (cases its)
      case Nil
      with cont True its show ?thesis by simp
    next
      case (Cons q its')
      obtain li b where q: "q = (li, b)" by fastforce
      from cont True its Cons q obtain ok2 I2 where r2: "on_heap (b6b_as_str b) I1 = Some (ok2, I2)"
        by (auto simp: bind_Some)
      note s2 = as_str_ok [OF r2 s1]
      show ?thesis
      proof (cases ok2)
        case False
        with cont True its Cons q r2 s2 show ?thesis by simp
      next
        case ok2: True
        with cont True its Cons q r2 obtain ok3 I3 where r3: "on_heap (b6b_as_str l) I2 = Some (ok3, I3)"
          by (auto simp: bind_Some)
        note s3 = as_str_ok [OF r3 s2]
        show ?thesis
        proof (cases ok3)
          case False
          with cont True its Cons q r2 r3 ok2 s3 show ?thesis by simp
        next
          case ok3: True
          with cont True its Cons q r2 r3 ok2 obtain msg r where "b6b_return_str msg I3 = Some (r, I')" "ps = qs"
            by (simp add: bind_Some) blast
          with s3 show ?thesis by (simp add: b6b_return_str_ok)
        qed
      qed
    qed
  qed
  then have "ps = qs" and fin: "st_ok C R P s I'" by simp_all
  moreover have "Arg a \<in> set qs \<longrightarrow> npriv C P a"
    using r1 v by (auto simp: on_heap_def bind_Some)
  ultimately show "Arg a \<in> set ps \<Longrightarrow> npriv C P a" by simp
  show "st_ok C R P s I'" by (rule fin)
qed

section \<open>Fields the invariant does not read\<close>

lemma st_ok_same:
  assumes "threads J = threads I" "iroots J = iroots I" "sched_ok J = sched_ok I" "hp J = hp I" "fg J = fg I"
  shows "st_ok C R P s J = st_ok C R P s I"
  unfolding st_ok_def world_def world0_def assms ..

lemma st_ok_fields:
  "st_ok C R P s (I\<lparr>seed := sd\<rparr>) = st_ok C R P s I"
  "st_ok C R P s (I\<lparr>qstep := q\<rparr>) = st_ok C R P s I"
  "st_ok C R P s (I\<lparr>exiting := x\<rparr>) = st_ok C R P s I"
  "st_ok C R P s (I\<lparr>err_out := t\<rparr>) = st_ok C R P s I"
  "st_ok C R P s (I\<lparr>opts := opt\<rparr>) = st_ok C R P s I"
  by (rule st_ok_same; simp add: iroots_def groots_def threads_def sched_ok_def)+

end
