(* ===== verification/Run_Procs.thy ===== *)
theory Run_Procs
  imports Run_Inv
begin

text \<open>
  Every procedure that runs no code keeps the invariant of theory Run_Inv: the references the
  running computation owns and the state of its thread are the same before and after.
\<close>

lemmas [keeps] = as_str_ok as_int_ok as_list_ok obj_hash_ok dict_unset_ok dict_get_ok dict_get_npriv
  dict_set_fail_ok list_add_ok_st list_extend_ok ref_ok_st unref_ok_st str_new_ok str_copy_ok_st
  int_new_ok float_new_ok list_new_ok b6b_return_ok return_ref_ok b6b_return_bool_ok
  b6b_return_str_ok b6b_return_int_ok b6b_return_float_ok fail_with_ok b6b_local_ok b6b_global_ok
  b6b_get_ok items_npriv

section \<open>The shape of a procedure\<close>

text \<open>Whatever \<open>m\<close> returns, it leaves the running computation with what it owned.\<close>

definition pres :: "ctx \<Rightarrow> addr multiset \<Rightarrow> addr set \<Rightarrow> tst \<Rightarrow> ('a \<times> interp) option \<Rightarrow> bool" where
  "pres C R P s m \<longleftrightarrow> (\<forall>r I. m = Some (r, I) \<longrightarrow> st_ok C R P s I)"

lemma presI: "(\<And>r I. m = Some (r, I) \<Longrightarrow> st_ok C R P s I) \<Longrightarrow> pres C R P s m"
  by (simp add: pres_def)

lemma presD: "pres C R P s m \<Longrightarrow> m = Some (r, I) \<Longrightarrow> st_ok C R P s I"
  by (simp add: pres_def)

definition np_args :: "ctx \<Rightarrow> addr set \<Rightarrow> parg list \<Rightarrow> bool" where
  "np_args C P ps \<longleftrightarrow> list_all (\<lambda>p. case p of Arg a \<Rightarrow> npriv C P a | Rest _ \<Rightarrow> True) ps"

lemma np_args_simps [simp]:
  "np_args C P []" "np_args C P (Arg a # ps) \<longleftrightarrow> npriv C P a \<and> np_args C P ps"
  "np_args C P (Rest n # ps) \<longleftrightarrow> np_args C P ps"
  by (simp_all add: np_args_def)

lemma pres_get_args:
  assumes ok: "st_ok C R P s I"
    and body: "\<And>argc ps I. st_ok C R P s I \<Longrightarrow> np_args C P ps \<Longrightarrow> argc \<noteq> 0 \<Longrightarrow> pres C R P s (g argc ps I)"
  shows "pres C R P s (Option.bind (b6b_proc_get_args args fmt wants I)
    (\<lambda>(argc, ps, I). if argc = 0 then Some (x, I) else g argc ps I))"
proof (cases "b6b_proc_get_args args fmt wants I")
  case None
  then show ?thesis by (simp add: pres_def)
next
  case (Some q)
  obtain argc ps I1 where q: "q = (argc, ps, I1)" by (cases q)
  note g = get_args_ok [OF Some [unfolded q] ok]
  have "np_args C P ps" using g(2) by (auto simp: np_args_def list_all_iff split: parg.split)
  from body [OF g(1) this] g(1) show ?thesis unfolding Some q by (simp add: pres_def)
qed

lemma pres_bind2: "(\<And>x I. m = Some (x, I) \<Longrightarrow> pres C R P s (f x I)) \<Longrightarrow> pres C R P s (Option.bind m (\<lambda>(x, I). f x I))"
  by (cases m) (auto simp: pres_def)

lemma pres_bind: "(\<And>x. m = Some x \<Longrightarrow> pres C R P s (f x)) \<Longrightarrow> pres C R P s (Option.bind m f)"
  by (cases m) (auto simp: pres_def)

lemma pres_Some: "st_ok C R P s I \<Longrightarrow> pres C R P s (Some (r, I))"
  by (simp add: pres_def)

lemma pres_None: "pres C R P s None"
  by (simp add: pres_def)

lemma pres_if: "(c \<Longrightarrow> pres C R P s a) \<Longrightarrow> (\<not> c \<Longrightarrow> pres C R P s b) \<Longrightarrow> pres C R P s (if c then a else b)"
  by simp

lemma pres_let: "pres C R P s (f a) \<Longrightarrow> pres C R P s (let x = a in f x)"
  by simp

lemma pres_prod: "(\<And>a b. x = (a, b) \<Longrightarrow> pres C R P s (f a b)) \<Longrightarrow> pres C R P s (case x of (a, b) \<Rightarrow> f a b)"
  by (cases x) simp

lemma pres_option:
  "(x = None \<Longrightarrow> pres C R P s a) \<Longrightarrow> (\<And>y. x = Some y \<Longrightarrow> pres C R P s (f y)) \<Longrightarrow>
   pres C R P s (case x of None \<Rightarrow> a | Some y \<Rightarrow> f y)"
  by (cases x) simp_all

lemma pres_list:
  "(xs = [] \<Longrightarrow> pres C R P s a) \<Longrightarrow> (\<And>y ys. xs = y # ys \<Longrightarrow> pres C R P s (f y ys)) \<Longrightarrow>
   pres C R P s (case xs of [] \<Rightarrow> a | y # ys \<Rightarrow> f y ys)"
  by (cases xs) simp_all

lemma pres_parg:
  "(\<And>a. p = Arg a \<Longrightarrow> pres C R P s (f a)) \<Longrightarrow> (\<And>n. p = Rest n \<Longrightarrow> pres C R P s (g n)) \<Longrightarrow>
   pres C R P s (case p of Arg a \<Rightarrow> f a | Rest n \<Rightarrow> g n)"
  by (cases p) simp_all

lemma pres_sum:
  "(\<And>a. x = Inl a \<Longrightarrow> pres C R P s (f a)) \<Longrightarrow> (\<And>b. x = Inr b \<Longrightarrow> pres C R P s (g b)) \<Longrightarrow>
   pres C R P s (case x of Inl a \<Rightarrow> f a | Inr b \<Rightarrow> g b)"
  by (cases x) simp_all

lemma pres_returns:
  "st_ok C (add_mset a R) P s I \<Longrightarrow> npriv C P a \<Longrightarrow> pres C R P s (b6b_return a I)"
  "st_ok C R P s I \<Longrightarrow> npriv C P a \<Longrightarrow> pres C R P s (return_ref a I)"
  "st_ok C R P s I \<Longrightarrow> pres C R P s (b6b_return_bool b I)"
  "st_ok C R P s I \<Longrightarrow> pres C R P s (b6b_return_str t I)"
  "st_ok C R P s I \<Longrightarrow> pres C R P s (b6b_return_int i I)"
  "st_ok C R P s I \<Longrightarrow> pres C R P s (b6b_return_float f I)"
  "st_ok C R P s I \<Longrightarrow> pres C R P s (fail_with t I)"
  by (auto intro!: presI dest: b6b_return_ok return_ref_ok b6b_return_bool_ok b6b_return_str_ok
      b6b_return_int_ok b6b_return_float_ok fail_with_ok)

lemmas pres_rules = pres_returns pres_get_args pres_bind2 pres_bind pres_Some pres_None pres_if pres_let
  pres_option pres_list pres_parg pres_sum pres_prod

section \<open>Lists\<close>

lemma list_add_all_ok [keeps]:
  assumes "upd_heap (list_add_all l xs) I = Some I'" and ok: "st_ok C R P s I" and "\<And>x. x \<in> set xs \<Longrightarrow> npriv C P x"
  shows "st_ok C R P s I'"
proof -
  have "list_add_all l xs h = Some h' \<Longrightarrow> hinv Q S h \<Longrightarrow> set xs \<inter> Q = {} \<Longrightarrow> hinv Q S h'" for h h' Q S
  proof (induction xs arbitrary: h)
    case (Cons x xs)
    from Cons.prems(1) obtain h1 where h1: "b6b_list_add l x h = Some h1" "list_add_all l xs h1 = Some h'"
      by (auto simp: bind_Some)
    have "hinv Q S h1" using Cons.prems(2,3) h1(1) by (auto intro: b6b_list_add_hinv)
    with Cons.IH [OF h1(2)] Cons.prems(3) show ?case by simp
  qed simp
  from this [OF _ st_ok_hinv [OF ok]] assms(3) show ?thesis
    by (intro st_ok_upd_heap [OF assms(1) ok _ st_ok_own [OF ok]]) (auto simp: npriv_def)
qed

lemma list_copy_ok [keeps]:
  assumes run: "on_heap (b6b_list_copy l) I = Some (a, I')" and ok: "st_ok C R P s I"
  shows "st_ok C (add_mset a R) P s I'" and "npriv C P a"
proof -
  show "st_ok C (add_mset a R) P s I'"
    using b6b_list_copy_hinv(1) [OF st_ok_hinv [OF ok]] st_ok_own [OF ok]
    by (intro st_ok_on_heap [OF run ok]) auto
  show "npriv C P a"
    using run b6b_list_copy_hinv(2) [OF st_ok_hinv [OF ok]] by (auto simp: on_heap_def bind_Some npriv_def)
qed

lemma in_loop_ok [keeps]:
  assumes "on_heap (in_loop x as) I = Some (r, I')" and ok: "st_ok C R P s I"
  shows "st_ok C R P s I'"
proof (rule st_ok_on_heap_same [OF assms])
  show "in_loop x as h = Some (r, h') \<Longrightarrow> hinv P R h'" if "hinv P R h" for P R h h'
    using that by (induction as arbitrary: h) (auto simp: bind_Some split: if_splits intro: hinv_obj_hash)
qed

lemma list_unlink_ok [keeps]:
  assumes run: "on_heap (list_unlink l n) I = Some (a, I')" and ok: "st_ok C R P s I"
  shows "st_ok C (add_mset a R) P s I'" and "npriv C P a"
proof -
  show "st_ok C (add_mset a R) P s I'"
    using list_unlink_hinv(1) [OF st_ok_hinv [OF ok]] st_ok_own [OF ok]
    by (intro st_ok_on_heap [OF run ok]) auto
  show "npriv C P a"
    using run list_unlink_hinv(2) [OF st_ok_hinv [OF ok]] by (auto simp: on_heap_def bind_Some npriv_def)
qed

lemma list_proc_new_ok:
  assumes run: "b6b_list_proc_new args I = Some (r, I')" and ok: "st_ok C R P s I"
  shows "st_ok C R P s I'"
proof -
  obtain l I1 where new: "new_heap b6b_list_new I = (l, I1)" by fastforce
  note n = list_new_ok [OF new ok]
  from run new obtain its I2 where its: "items_at args I1 = Some its" "its \<noteq> []"
    "upd_heap (list_add_all l (map snd (tl its))) I1 = Some I2" "b6b_return l I2 = Some (r, I')"
    by (auto simp: b6b_list_proc_new_def bind_Some split: if_splits)
  have "npriv C P x" if "x \<in> set (map snd (tl its))" for x
    using that its(2) by (intro items_npriv [OF its(1) n(1)]) (auto dest: list.set_sel(2))
  from list_add_all_ok [OF its(3) n(1) this] show ?thesis by (rule b6b_return_ok [OF its(4) _ n(2)])
qed

lemma list_proc_len_ok: "st_ok C R P s I \<Longrightarrow> pres C R P s (b6b_list_proc_len args I)"
  unfolding b6b_list_proc_len_def by (rule pres_rules | assumption | erule keeps | simp)+

lemma list_proc_append_ok: "st_ok C R P s I \<Longrightarrow> pres C R P s (b6b_list_proc_append args I)"
  unfolding b6b_list_proc_append_def by (rule pres_rules | assumption | erule keeps | simp)+

lemma list_proc_copy_ok: "st_ok C R P s I \<Longrightarrow> pres C R P s (b6b_list_proc_copy args I)"
  unfolding b6b_list_proc_copy_def by (rule pres_rules | assumption | erule keeps | simp)+

lemma list_proc_extend_ok: "st_ok C R P s I \<Longrightarrow> pres C R P s (b6b_list_proc_extend args I)"
  unfolding b6b_list_proc_extend_def by (rule pres_rules | assumption | erule keeps | simp)+

lemma list_proc_in_ok: "st_ok C R P s I \<Longrightarrow> pres C R P s (b6b_list_proc_in args I)"
  unfolding b6b_list_proc_in_def by (rule pres_rules | assumption | erule keeps | simp)+

lemma list_proc_pop_ok: "st_ok C R P s I \<Longrightarrow> pres C R P s (b6b_list_proc_pop args I)"
  unfolding b6b_list_proc_pop_def by (rule pres_rules | assumption | erule keeps | simp)+

lemma items_nth_npriv [keeps]:
  "items_at l I = Some its \<Longrightarrow> st_ok C R P s I \<Longrightarrow> n < length its \<Longrightarrow> npriv C P (snd (its ! n))"
  by (erule (1) items_npriv) simp

lemma list_proc_index_ok: "st_ok C R P s I \<Longrightarrow> pres C R P s (b6b_list_proc_index args I)"
  unfolding b6b_list_proc_index_def
  by (rule pres_rules | assumption | erule keeps | simp)+

text \<open>The slice is built in a private list, which is destroyed if the source is too short.\<close>

lemma slice_ok:
  assumes new: "new_heap b6b_list_new I = (r, I2)" and ok: "st_ok C R P s I" and its: "items_at l I = Some its"
  shows "pres C R P s (do {
      I \<leftarrow> upd_heap (list_add_all r (take n (drop m (map snd its)))) I2;
      if k then b6b_return r I
      else do {
        I \<leftarrow> upd_heap (b6b_destroy r) I;
        Some (x, I)
      }
    })"
proof -
  note pr = list_new_private [OF new ok] and r = list_new_ok(2) [OF new ok]
  have "r \<notin> P" using r by (simp add: npriv_def)
  have np: "npriv C (insert r P) y" if "y \<in> set (take n (drop m (map snd its)))" for y
  proof -
    from that have y: "y \<in> snd ` set its" by (metis in_set_dropD in_set_takeD list.set_map)
    then have "npriv C P y" by (rule items_npriv [OF its ok])
    moreover have "y \<noteq> r"
    proof
      assume "y = r"
      obtain h where h: "b6b_list_new (hp I) = (r, h)" using new by (auto simp: new_heap_def split: prod.splits)
      from y have "r \<in> set (map snd its)" using \<open>y = r\<close> by simp
      from item_live [OF st_ok_hinv [OF ok] its [unfolded items_at_def] this]
      show False using h by (auto simp: b6b_list_new_def b6b_new_def halloc_def hget_def split: if_splits)
    qed
    ultimately show ?thesis by (simp add: npriv_def)
  qed
  show ?thesis
  proof (rule pres_bind)
    fix I3
    assume "upd_heap (list_add_all r (take n (drop m (map snd its)))) I2 = Some I3"
    note s3 = list_add_all_ok [OF this pr np]
    show "pres C R P s (if k then b6b_return r I3 else do { I \<leftarrow> upd_heap (b6b_destroy r) I3; Some (x, I) })"
    proof (rule pres_if)
      have "st_ok C (add_mset r R) P s I3" by (rule make_public [OF s3]) auto
      then show "pres C R P s (b6b_return r I3)" using r by (rule pres_returns(1))
      show "pres C R P s (do { I \<leftarrow> upd_heap (b6b_destroy r) I3; Some (x, I) })"
        by (rule pres_bind, rule pres_Some, rule destroy_private_ok [OF _ s3 \<open>r \<notin> P\<close>])
    qed
  qed
qed

lemma list_proc_range_ok: "st_ok C R P s I \<Longrightarrow> pres C R P s (b6b_list_proc_range args I)"
  unfolding b6b_list_proc_range_def
  by (rule slice_ok pres_rules | assumption | simp only: Let_def)+

lemma list_proc_ok: "st_ok C R P s I \<Longrightarrow> pres C R P s (list_proc f args I)"
  unfolding list_proc_def
  by (cases f) (simp_all add: list_proc_len_ok list_proc_append_ok list_proc_copy_ok list_proc_extend_ok
      list_proc_in_ok list_proc_pop_ok list_proc_index_ok list_proc_range_ok presI [OF list_proc_new_ok])

section \<open>Dictionaries, numbers, logic\<close>

lemmas [keeps] = dict_set_ok

lemma dict_proc_ok: "st_ok C R P s I \<Longrightarrow> pres C R P s (dict_proc f args I)"
proof (cases f)
  case D_get
  show "st_ok C R P s I \<Longrightarrow> pres C R P s (dict_proc f args I)"
    unfolding D_get dict_proc_def b6b_dict_proc_get_def dict_fn.case
    by (rule pres_rules | assumption | erule keeps | simp)+
next
  case D_set
  show "st_ok C R P s I \<Longrightarrow> pres C R P s (dict_proc f args I)"
    unfolding D_set dict_proc_def b6b_dict_proc_set_def dict_fn.case
    by (rule pres_rules | assumption | erule keeps | simp)+
next
  case D_unset
  show "st_ok C R P s I \<Longrightarrow> pres C R P s (dict_proc f args I)"
    unfolding D_unset dict_proc_def b6b_dict_proc_unset_def dict_fn.case
    by (rule pres_rules | assumption | erule keeps | simp)+
qed

lemma float_args_ok:
  assumes "\<And>m n I. st_ok C R P s I \<Longrightarrow> pres C R P s (body m n I)"
  shows "st_ok C R P s I \<Longrightarrow> pres C R P s (float_args body args I)"
  unfolding float_args_def by (rule pres_rules assms | assumption | simp)+

lemma int_args_ok:
  assumes "\<And>m n I. st_ok C R P s I \<Longrightarrow> pres C R P s (body m n I)"
  shows "st_ok C R P s I \<Longrightarrow> pres C R P s (int_args body args I)"
  unfolding int_args_def by (rule pres_rules assms | assumption | simp)+

lemma math_proc_ok: "st_ok C R P s I \<Longrightarrow> pres C R P s (math_proc f args I)"
  unfolding math_proc_def b6b_math_proc_add_def b6b_math_proc_sub_def b6b_math_proc_mul_def
    b6b_math_proc_div_def b6b_math_proc_mod_def b6b_math_proc_and_def b6b_math_proc_or_def
    b6b_math_proc_xor_def b6b_math_proc_lt_def b6b_math_proc_le_def b6b_math_proc_gt_def b6b_math_proc_ge_def
  by (cases f)
    (auto intro!: float_args_ok int_args_ok pres_returns pres_Some split: option.split)

lemma items_all_npriv:
  assumes "items_at l I = Some its" and "st_ok C R P s I"
  shows "list_all (npriv C P) (map snd its)"
  using items_npriv [OF assms] by (auto simp: list_all_iff)

lemma choice_from_mem: "choice_from c i rest all = Some a \<Longrightarrow> set rest \<subseteq> set all \<Longrightarrow> a \<in> set all"
  by (induction c i rest all rule: choice_from.induct) (auto split: if_splits list.splits)

lemma choice_npriv [keeps]:
  assumes "choice_from c i (map snd its) (map snd its) = Some a" and "items_at l I = Some its" and "st_ok C R P s I"
  shows "npriv C P a"
  using items_all_npriv [OF assms(2,3)] choice_from_mem [OF assms(1) subset_refl] by (auto simp: list_all_iff)

lemma rand_proc_ok: "st_ok C R P s I \<Longrightarrow> pres C R P s (rand_proc E f args I)"
proof (cases f)
  case R_choice
  show "st_ok C R P s I \<Longrightarrow> pres C R P s (rand_proc E f args I)"
    unfolding R_choice rand_proc_def b6b_rand_proc_choice_def rand_fn.case
    by (rule pres_rules st_ok_fields [THEN iffD2] | assumption | erule keeps | simp)+
next
  case R_randint
  show "st_ok C R P s I \<Longrightarrow> pres C R P s (rand_proc E f args I)"
    unfolding R_randint rand_proc_def b6b_rand_proc_randint_def rand_fn.case
    by (rule pres_rules st_ok_fields [THEN iffD2] | assumption | erule keeps | simp)+
qed

lemma eq_args_ok: "st_ok C R P s I \<Longrightarrow> pres C R P s (eq_args b args I)"
  unfolding eq_args_def by (rule pres_rules | assumption | erule keeps | simp)+

lemma truth_args_ok: "st_ok C R P s I \<Longrightarrow> pres C R P s (truth_args d g args I)"
  unfolding truth_args_def by (rule pres_rules | assumption | erule keeps | simp)+

lemma logic_not_ok: "st_ok C R P s I \<Longrightarrow> pres C R P s (b6b_logic_proc_not args I)"
  unfolding b6b_logic_proc_not_def by (rule pres_rules | assumption | erule keeps | simp)+

lemma range_loop_hinv:
  "range_loop l i e step h = Some h' \<Longrightarrow> hinv P R h \<Longrightarrow> hinv P R h'"
proof (induction l i e step h rule: range_loop.induct)
  case (1 l i e step h)
  obtain io h1 where new: "b6b_int_new (word_of_int i) h = (io, h1)" by fastforce
  show ?case
  proof (cases "i > e \<or> step \<le> 0")
    case True
    with "1.prems" show ?thesis by (subst (asm) range_loop.simps) (auto split: if_splits)
  next
    case False
    with "1.prems"(1) new obtain h2 h3 where r: "b6b_list_add l io h1 = Some h2" "b6b_unref io h2 = Some h3"
      "is_llong (i + step)" "range_loop l (i + step) e step h3 = Some h'"
      by (subst (asm) range_loop.simps) (auto simp: bind_Some split: if_splits)
    note n = b6b_int_new_hinv [OF "1.prems"(2) new]
    have "hinv P R h3"
      by (rule b6b_unref_hinv [OF b6b_list_add_hinv [OF n(1) r(1) n(2)] r(2) n(2)])
    from "1.IH" [OF _ _ new [symmetric] r(1,2,3,4) this] False show ?thesis by simp
  qed
qed

lemma range_loop_ok [keeps]: "upd_heap (range_loop l i e step) I = Some I' \<Longrightarrow> st_ok C R P s I \<Longrightarrow> st_ok C R P s I'"
  by (erule st_ok_upd_heap, assumption) (auto intro: range_loop_hinv st_ok_hinv dest: st_ok_own)

lemma loop_range_ok: "st_ok C R P s I \<Longrightarrow> pres C R P s (b6b_loop_proc_range args I)"
  unfolding b6b_loop_proc_range_def
  by (rule pres_rules | assumption | erule keeps | simp)+

section \<open>Strings\<close>

lemma list_add_str_hinv:
  assumes "hinv P R h" and "list_add_str l t h = Some h'"
  shows "hinv P R h'"
proof -
  obtain c h1 where new: "b6b_str_copy t h = (c, h1)" by fastforce
  with assms(2) obtain h2 where r: "b6b_list_add l c h1 = Some h2" "b6b_unref c h2 = Some h'"
    by (auto simp: list_add_str_def bind_Some)
  note n = b6b_str_copy_hinv [OF assms(1) new]
  show ?thesis by (rule b6b_unref_hinv [OF b6b_list_add_hinv [OF n(1) r(1) n(2)] r(2) n(2)])
qed

lemma list_add_strs_hinv: "list_add_strs l ts h = Some h' \<Longrightarrow> hinv P R h \<Longrightarrow> hinv P R h'"
  by (induction ts arbitrary: h) (auto simp: bind_Some intro: list_add_str_hinv)

lemma list_add_strs_ok [keeps]: "upd_heap (list_add_strs l ts) I = Some I' \<Longrightarrow> st_ok C R P s I \<Longrightarrow> st_ok C R P s I'"
  by (erule st_ok_upd_heap, assumption) (auto intro: list_add_strs_hinv st_ok_hinv dest: st_ok_own)

text \<open>The decoded characters are collected in a private list.\<close>

lemma decode_loop_hinv:
  "decode_loop mbr l t h = Some (r, h') \<Longrightarrow> hinv P R h \<Longrightarrow>
   (case r of Some l' \<Rightarrow> l' = l \<and> hinv P R h' | None \<Rightarrow> \<exists>h1. hinv P R h1 \<and> b6b_destroy l h1 = Some h')"
proof (induction mbr l t h rule: decode_loop.induct)
  case (1 mbr l t h)
  show ?case
  proof (cases "t = []")
    case True
    with "1.prems" show ?thesis by (simp add: decode_loop.simps) auto
  next
    case ne: False
    show ?thesis
    proof (cases "mbr t")
      case None
      with "1.prems" ne show ?thesis by (auto simp: decode_loop.simps [of mbr l t h])
    next
      case (Some n)
      with "1.prems"(1) ne obtain h1 where n: "\<not> (n = 0 \<or> n > length t)" and
        r: "list_add_str l (take n t) h = Some h1" "decode_loop mbr l (drop n t) h1 = Some (r, h')"
        by (auto simp: decode_loop.simps [of mbr l t h] bind_Some split: if_splits)
      from "1.IH" [OF ne Some n r(1,2) list_add_str_hinv [OF "1.prems"(2) r(1)]] show ?thesis .
    qed
  qed
qed

lemma str_decode_ok:
  assumes run: "on_heap (b6b_str_decode E t) I = Some (r, I')" and ok: "st_ok C R P s I"
  shows "case r of None \<Rightarrow> st_ok C R P s I' | Some l \<Rightarrow> st_ok C (add_mset l R) P s I' \<and> npriv C P l"
proof -
  let ?P = "c_priv C \<union> P" and ?R = "c_refs C + R + iroots I"
  from run obtain h' where h': "b6b_str_decode E t (hp I) = Some (r, h')" "I' = I\<lparr>hp := h'\<rparr>"
    by (auto simp: on_heap_def bind_Some)
  obtain l h where new: "b6b_list_new (hp I) = (l, h)" by fastforce
  note n = b6b_list_new_hinv [OF st_ok_hinv [OF ok] new]
  have loop: "decode_loop (e_mbr E) l t h = Some (r, h')" using h'(1) new by (simp add: b6b_str_decode_def)
  note d = decode_loop_hinv [OF loop n(3)]
  show ?thesis
  proof (cases r)
    case None
    with d obtain h1 where h1: "hinv (insert l ?P) (add_mset l ?R) h1" "b6b_destroy l h1 = Some h'" by auto
    from b6b_destroy_hinv [OF h1] n(2) have "hinv ?P ?R h'" by simp
    then show ?thesis using None st_ok_own [OF ok] unfolding h'(2) by (auto intro: st_ok_heap [OF ok])
  next
    case (Some l')
    with d have l: "l' = l" "hinv (insert l ?P) (add_mset l ?R) h'" by auto
    from hinv_less_private [OF l(2)] have "hinv ?P (c_refs C + add_mset l R + iroots I) h'" by auto
    then have "st_ok C (add_mset l R) P s I'"
      unfolding h'(2) by (rule st_ok_heap [OF ok]) (use st_ok_own [OF ok] in auto)
    moreover have "npriv C P l" using n(2) by (simp add: npriv_def)
    ultimately show ?thesis using Some l(1) by simp
  qed
qed

lemma decode_keeps [keeps]:
  "on_heap (b6b_str_decode E t) I = Some (None, I') \<Longrightarrow> st_ok C R P s I \<Longrightarrow> st_ok C R P s I'"
  "on_heap (b6b_str_decode E t) I = Some (Some l, I') \<Longrightarrow> st_ok C R P s I \<Longrightarrow> st_ok C (add_mset l R) P s I'"
  "on_heap (b6b_str_decode E t) I = Some (Some l, I') \<Longrightarrow> st_ok C R P s I \<Longrightarrow> npriv C P l"
  by (auto dest: str_decode_ok)

lemma join_loop_ok [keeps]:
  assumes "on_heap (join_loop d as acc) I = Some (r, I')" and ok: "st_ok C R P s I"
  shows "st_ok C R P s I'"
proof (rule st_ok_on_heap_same [OF assms])
  show "join_loop d as acc h = Some (r, h') \<Longrightarrow> hinv P R h'" if "hinv P R h" for P R h h'
    using that by (induction as arbitrary: h acc) (auto simp: bind_Some split: if_splits intro: hinv_as_str)
qed

lemma obj_proc_ok: "st_ok C R P s I \<Longrightarrow> pres C R P s (b6b_obj_proc E args I)"
  unfolding b6b_obj_proc_def by (rule pres_rules | assumption | erule keeps | simp)+

lemma str_proc_ok: "st_ok C R P s I \<Longrightarrow> pres C R P s (str_proc f args I)"
  unfolding str_proc_def b6b_str_proc_len_def b6b_str_proc_index_def b6b_str_proc_range_def
    b6b_str_proc_join_def b6b_str_proc_split_def b6b_str_proc_ord_def b6b_str_proc_chr_def
    b6b_str_proc_expand_def b6b_str_proc_in_def b6b_str_proc_rtrim_def b6b_str_proc_ltrim_def
  by (cases f; simp only: str_fn.case; (rule pres_rules | assumption | erule keeps | simp)+)

section \<open>Core procedures\<close>

lemma value_and_status_ok: "st_ok C R P s I \<Longrightarrow> pres C R P s (value_and_status x args I)"
  unfolding value_and_status_def by (rule pres_rules | assumption | erule keeps | simp)+

lemma core_echo_ok: "st_ok C R P s I \<Longrightarrow> pres C R P s (b6b_core_proc_echo args I)"
  unfolding b6b_core_proc_echo_def by (rule pres_rules | assumption | erule keeps | simp)+

lemma core_throw_ok: "st_ok C R P s I \<Longrightarrow> pres C R P s (b6b_core_proc_throw args I)"
  unfolding b6b_core_proc_throw_def
  by (rule pres_rules | assumption | erule replace_ret_ref_ok | simp)+

lemma core_local_ok: "st_ok C R P s I \<Longrightarrow> pres C R P s (b6b_core_proc_local args I)"
  unfolding b6b_core_proc_local_def Let_def by (rule pres_rules | assumption | erule keeps | simp)+

lemma core_global_ok: "st_ok C R P s I \<Longrightarrow> pres C R P s (b6b_core_proc_global args I)"
  unfolding b6b_core_proc_global_def by (rule pres_rules | assumption | erule keeps | simp)+

lemma export_to_ok: "st_ok C R P s I \<Longrightarrow> npriv C P k \<Longrightarrow> npriv C P v \<Longrightarrow> pres C R P s (export_to k v I)"
  unfolding export_to_def by (rule pres_rules | assumption | erule keeps | simp)+

lemma core_export_ok: "st_ok C R P s I \<Longrightarrow> pres C R P s (b6b_core_proc_export args I)"
  unfolding b6b_core_proc_export_def
  by (rule pres_rules export_to_ok | assumption | erule b6b_get_ok | simp)+

lemma core_repr_ok: "st_ok C R P s I \<Longrightarrow> pres C R P s (b6b_core_proc_repr args I)"
  unfolding b6b_core_proc_repr_def by (rule pres_rules | assumption | erule keeps | simp)+

section \<open>Threads\<close>

lemma b6b_start_ok [keeps]:
  assumes run: "b6b_start fn I = Some I'" and ok: "st_ok C R P s I" and fn: "npriv C P fn"
  shows "st_ok C R P s I'"
proof -
  obtain f h where f: "b6b_frame_new (hp I) = (f, h)" by fastforce
  with run obtain h1 h2 where r: "b6b_ref fn h = Some h1" "b6b_ref (i_null I) h1 = Some h2"
    by (auto simp: b6b_start_def b6b_thread_new_def bind_Some)
  define t where "t = \<lparr>t_id = next_tid I, t_curr = [f], t_fn = Some fn, t_ret = i_null I, t_depth = 1,
      t_bg = True, t_fg = False, t_done = False, t_blocked = False\<rparr>"
  have I': "I' = I\<lparr>hp := h2, next_tid := Suc (next_tid I), tq_after := t # tq_after I\<rparr>"
    using run f r by (auto simp: b6b_start_def b6b_thread_new_def t_def)
  have roots_eq: "iroots I' = iroots I + troots t"
    by (simp add: I' iroots_def groots_def threads_def ac_simps)
  have "i_null I \<notin> c_priv C \<union> P" using st_ok_root [OF ok, of "i_null I"] by (simp add: npriv_def)
  from b6b_ref_hinv [OF b6b_ref_hinv [OF b6b_frame_new_hinv [OF st_ok_hinv [OF ok] f] r(1)] r(2) this] fn
  have "hinv (c_priv C \<union> P) (c_refs C + R + (iroots I + troots t)) h2"
    by (simp add: npriv_def troots_def t_def ac_simps)
  then have inv: "hinv (c_priv C \<union> P) (c_refs C + R + iroots I') (hp I')"
    unfolding roots_eq by (simp add: I')
  have so': "sched_ok I'"
  proof -
    have so: "sched_ok I" using st_ok_sched [OF ok] by simp
    have old: "t_id u < next_tid I" if "u \<in> set (threads I)" for u
      using so that by (auto simp: sched_ok_def list_all_iff thread_ok_def)
    have "thread_ok (Suc (next_tid I)) u" if "u \<in> set (threads I)" for u
      using so that by (auto simp: sched_ok_def list_all_iff thread_ok_def)
    moreover have "thread_ok (Suc (next_tid I)) t" by (simp add: thread_ok_def t_def B6B_MAX_NESTING_def)
    moreover have "next_tid I \<notin> t_id ` set (threads I)" using old by fastforce
    moreover have "distinct (map t_id (threads I))" using so by (simp add: sched_ok_def)
    moreover have "t_id t = next_tid I" "t_bg t" "\<not> t_fg t" by (simp_all add: t_def)
    moreover have "t_id (hd (threads I)) = 0" using so by (simp add: sched_ok_def)
    moreover have "t_id (hd (threads I')) = t_id (hd (threads I))"
      by (cases "tq_before I") (simp_all add: threads_def I')
    ultimately show ?thesis
      using so by (auto simp: sched_ok_def list_all_iff threads_def I')
  qed
  have eqs: "hp I' = h2" "fg I' = fg I" "set (threads I) \<subseteq> set (threads I')"
    by (auto simp: I' threads_def)
  have "c_priv C \<subseteq> set_mset (c_refs C)" "P \<subseteq> set_mset R" using ok by (simp_all add: st_ok_def)
  then have own: "c_priv (with_own C R P s) \<subseteq> set_mset (c_refs (with_own C R P s))" by auto
  have "t_id (hd (threads I)) = 0" "thread_ok (next_tid I) (hd (threads I))"
    using st_ok_sched [OF ok] by (cases "tq_before I"; simp add: sched_ok_def threads_def)+
  then have new: "t_depth t = 1" "t_id t \<noteq> 0" by (simp_all add: t_def thread_ok_def)
  have "world0 (with_own C R P s) I'"
  proof (rule worldI [OF st_ok_world0 [OF ok] _ so' own refl eqs(3)])
    show "hinv (c_priv (with_own C R P s)) (c_refs (with_own C R P s) + iroots I') (hp I')" using inv by simp
    show "t_depth u = 1 \<and> t_id u \<noteq> 0" if "u \<in> set (threads I')" "u \<notin> set (threads I)" for u
    proof -
      have "u = t" using that by (auto simp: I' threads_def)
      with new show ?thesis by simp
    qed
  qed
  with ok show ?thesis by (simp add: st_ok_def world_def eqs)
qed

lemma core_spawn_ok: "st_ok C R P s I \<Longrightarrow> pres C R P s (b6b_core_proc_spawn args I)"
  unfolding b6b_core_proc_spawn_def by (rule pres_rules | assumption | erule keeps | simp)+

section \<open>Making a procedure\<close>

text \<open>Private data stays where it is.\<close>

definition priv_same :: "heap \<Rightarrow> heap \<Rightarrow> bool" where
  "priv_same h h' \<longleftrightarrow> (\<forall>a ob'. hget a h' = Some ob' \<longrightarrow> (\<exists>ob. hget a h = Some ob \<and> ob_priv ob = ob_priv ob'))"

lemma priv_same_trans: "priv_same h1 h2 \<Longrightarrow> priv_same h2 h3 \<Longrightarrow> priv_same h1 h3"
  unfolding priv_same_def by metis

lemma priv_same_conv: "conv_le h h' \<Longrightarrow> priv_same h h'"
  unfolding priv_same_def
proof (intro allI impI)
  fix a ob'
  assume "conv_le h h'" "hget a h' = Some ob'"
  then obtain ob where "hget a h = Some ob" "obj_le ob ob'" by (rule conv_leD_back)
  then show "\<exists>ob. hget a h = Some ob \<and> ob_priv ob = ob_priv ob'" by (auto simp: obj_le_def)
qed

lemma priv_same_hset: "hget a h = Some ob \<Longrightarrow> ob_priv ob' = ob_priv ob \<Longrightarrow> priv_same h (hset a ob' h)"
  by (auto simp: priv_same_def hget_hset)

lemma priv_same_ref: "b6b_ref a h = Some h' \<Longrightarrow> priv_same h h'"
  by (auto simp: b6b_ref_def hupd_Some intro: priv_same_hset)

lemma priv_same_unref:
  assumes "b6b_unref a h = Some h'"
  shows "priv_same h h'"
  unfolding priv_same_def
proof (intro allI impI)
  fix b ob'
  assume "hget b h' = Some ob'"
  from unrefs_frame [OF assms [unfolded b6b_unref_def] this] obtain ob where
    "hget b h = Some ob" and eq: "ob' = ob\<lparr>ob_refc := ob_refc ob'\<rparr>" by blast
  moreover have "ob_priv ob' = ob_priv ob" by (subst eq) simp
  ultimately show "\<exists>ob. hget b h = Some ob \<and> ob_priv ob = ob_priv ob'" by auto
qed

lemma priv_same_flush: "b6b_list_flush l h = Some h' \<Longrightarrow> priv_same h h'"
  by (auto simp: b6b_list_flush_def hupd_Some intro: priv_same_hset)

lemma priv_same_set_node: "set_node d n v h = Some h' \<Longrightarrow> priv_same h h'"
  by (auto simp: set_node_def hupd_Some bind_Some intro: priv_same_hset)

lemma priv_same_add:
  assumes "b6b_list_add l a h = Some h'"
  shows "priv_same h h'"
proof -
  from assms obtain h1 ob where q: "b6b_ref a h = Some h1" "hget l h1 = Some ob"
    by (auto simp: b6b_list_add_def b6b_list_do_add_def bind_Some)
  with assms obtain its where r: "b6b_ref a h = Some h1" "hget l h1 = Some ob"
    "b6b_list_flush l ((hset l (ob\<lparr>ob_l := Items (its @ [(next_li h1, a)])\<rparr>) h1)\<lparr>next_li := Suc (next_li h1)\<rparr>) = Some h'"
    by (cases "ob_l ob") (auto simp: b6b_list_add_def b6b_list_do_add_def bind_Some)
  have "priv_same h1 ((hset l (ob\<lparr>ob_l := Items (its @ [(next_li h1, a)])\<rparr>) h1)\<lparr>next_li := Suc (next_li h1)\<rparr>)"
    using priv_same_hset [OF r(2), of "ob\<lparr>ob_l := Items (its @ [(next_li h1, a)])\<rparr>"] by (simp add: priv_same_def)
  with priv_same_ref [OF r(1)] priv_same_flush [OF r(3)] show ?thesis by (blast intro: priv_same_trans)
qed

lemma priv_same_dict_set:
  assumes "b6b_dict_set d k v h = Some (ok, h')"
  shows "priv_same h h'"
proof -
  from assms obtain p h1 where p: "dict_find True d k h = Some (p, h1)" by (auto simp: b6b_dict_set_def bind_Some)
  note c = priv_same_conv [OF dict_find_conv [OF p]]
  show ?thesis
  proof (cases p)
    case D_fail
    with assms p c show ?thesis by (simp add: b6b_dict_set_def)
  next
    case D_absent
    with assms p obtain h2 where "b6b_list_add d k h1 = Some h2" "b6b_list_add d v h2 = Some h'"
      by (auto simp: b6b_dict_set_def bind_Some)
    with c show ?thesis by (blast intro: priv_same_trans priv_same_add)
  next
    case (D_at kn ka n old)
    with assms p obtain h2 h3 h4 where "b6b_unref old h1 = Some h2" "b6b_ref v h2 = Some h3"
      "set_node d n v h3 = Some h4" "b6b_list_flush d h4 = Some h'"
      by (auto simp: b6b_dict_set_def bind_Some)
    then have "priv_same h1 h2" "priv_same h2 h3" "priv_same h3 h4" "priv_same h4 h'"
      by (blast intro: priv_same_unref priv_same_ref priv_same_set_node priv_same_flush)+
    with c show ?thesis using priv_same_trans by metis
  qed
qed

text \<open>The new object takes over the references to the body and to the private data.\<close>

lemma set_proc_ok:
  assumes run: "upd_heap (hupd ob (\<lambda>x. x\<lparr>ob_priv := Priv_proc b p, ob_proc := F_proc\<rparr>)) I = Some I'"
    and ok: "st_ok C (add_mset p (add_mset b R)) P s I" and np: "npriv C P b" "npriv C P p"
    and x: "hget ob (hp I) = Some x" "ob_priv x = No_priv"
  shows "st_ok C R P s I'"
proof (rule st_ok_upd_heap [OF run ok])
  let ?P = "c_priv C \<union> P"
  have inv: "hinv ?P (c_refs C + add_mset p (add_mset b R) + iroots I) (hp I)" by (rule st_ok_hinv [OF ok])
  show "hinv ?P (c_refs C + R + iroots I) h"
    if "hupd ob (\<lambda>x. x\<lparr>ob_priv := Priv_proc b p, ob_proc := F_proc\<rparr>) (hp I) = Some h" for h
  proof -
    have h: "h = hset ob (x\<lparr>ob_priv := Priv_proc b p, ob_proc := F_proc\<rparr>) (hp I)"
      using that x by (simp add: hupd_def)
    show ?thesis
      unfolding h
    proof (rule hinv_hset [OF inv x(1)])
      show "mset (refs_of (x\<lparr>ob_priv := Priv_proc b p, ob_proc := F_proc\<rparr>)) + (c_refs C + R + iroots I)
          = mset (refs_of x) + (c_refs C + add_mset p (add_mset b R) + iroots I)"
        using x(2) by (simp add: refs_of_def)
      show "ob_l (x\<lparr>ob_priv := Priv_proc b p, ob_proc := F_proc\<rparr>) \<noteq> Freed_items"
        using rc_okD(3) [OF hinv_rc [OF inv] x(1)] by simp
      show "obj_nodes_ok (next_li (hp I)) (x\<lparr>ob_priv := Priv_proc b p, ob_proc := F_proc\<rparr>)"
        using hinv_nodes [OF inv] x(1) by (auto simp: nodes_ok_iff obj_nodes_ok_def)
    qed (use np in \<open>auto simp: npriv_def\<close>)
  qed
  show "P \<subseteq> set_mset R" using st_ok_own [OF ok] np by (auto simp: npriv_def)
qed

lemma str_copy_private:
  assumes "new_heap (b6b_str_copy t) I = (a, I')" and ok: "st_ok C R P s I"
  shows "st_ok C (add_mset a R) (insert a P) s I'" and "hget a (hp I') = Some (new_obj\<lparr>ob_s := Some t\<rparr>)"
proof -
  from assms(1) obtain h where h: "b6b_new (\<lambda>ob. ob\<lparr>ob_s := Some t\<rparr>) (hp I) = (a, h)" "I' = I\<lparr>hp := h\<rparr>"
    by (auto simp: new_heap_def b6b_str_copy_def b6b_str_new_def split: prod.splits)
  note n = b6b_new_hinv [OF st_ok_hinv [OF ok] h(1)]
  have "hinv (c_priv C \<union> insert a P) (c_refs C + add_mset a R + iroots I) h"
    using n(4) by (simp add: new_obj_def refs_of_def)
  then show "st_ok C (add_mset a R) (insert a P) s I'"
    unfolding h(2) using st_ok_own [OF ok] by (intro st_ok_heap [OF ok]) auto
  show "hget a (hp I') = Some (new_obj\<lparr>ob_s := Some t\<rparr>)" using n(3) h(2) by (simp add: new_obj_def refs_of_def)
qed

lemma hupd_obj: "upd_heap (hupd a f) I = Some I' \<Longrightarrow> \<exists>x. hget a (hp I) = Some x"
  by (auto simp: upd_heap_def hupd_Some)

text \<open>\<open>proc\<close> defines the name first; until then the new procedure is private.\<close>

lemma proc_proc_proc_ok:
  assumes ok: "st_ok C R P s I"
  shows "pres C R P s (b6b_proc_proc_proc args I)"
  unfolding b6b_proc_proc_proc_def
proof (rule pres_get_args [OF ok])
  fix argc ps I1
  assume ok: "st_ok C R P s I1" and np: "np_args C P ps"
  let ?tail = "\<lambda>ob p b I. do {
      let priv = (case p of [Arg x] \<Rightarrow> x | _ \<Rightarrow> i_null I);
      I \<leftarrow> upd_heap (b6b_ref b) I;
      I \<leftarrow> upd_heap (b6b_ref priv) I;
      I \<leftarrow> upd_heap (hupd ob (\<lambda>x. x\<lparr>ob_priv := Priv_proc b priv, ob_proc := F_proc\<rparr>)) I;
      b6b_return ob I }"
  show "pres C R P s (case ps of
       Arg n # Arg b # p \<Rightarrow> do {
         name \<leftarrow> str_at n I1;
         case new_heap (b6b_str_copy name) I1 of (ob, I) \<Rightarrow> do {
           (ok, I) \<leftarrow> (if name \<noteq> [] then b6b_global n ob I else Some (True, I));
           if \<not> ok then do {
             I \<leftarrow> upd_heap (b6b_destroy ob) I;
             Some (B6B_ERR, I)
           }
           else ?tail ob p b I
         }
       }
     | _ \<Rightarrow> None)"
  proof ((rule pres_list pres_parg pres_None pres_bind2 pres_prod pres_bind)+)
    fix q qs n q2 p b name ob I2 good I3
    assume ps: "ps = q # qs" "q = Arg n" "qs = q2 # p" "q2 = Arg b"
      and new: "new_heap (b6b_str_copy name) I1 = (ob, I2)"
      and glob: "(if name \<noteq> [] then b6b_global n ob I2 else Some (True, I2)) = Some (good, I3)"
    note new_ok = str_copy_ok_st [OF new ok] and new_priv = str_copy_private [OF new ok]
    have nps: "npriv C P n" "npriv C P b" "np_args C P p" using np ps by simp_all
    have ob: "ob \<notin> P" using new_ok(2) by (simp add: npriv_def)
    show "pres C R P s (if \<not> good then do {
             I \<leftarrow> upd_heap (b6b_destroy ob) I3;
             Some (B6B_ERR, I)
           } else ?tail ob p b I3)"
    proof (cases good)
      case False
      with glob have "on_heap (b6b_dict_set (locals (global I2)) n ob) I2 = Some (False, I3)"
        by (auto simp: b6b_global_def split: if_splits)
      from dict_set_fail_ok [OF this new_priv(1)] have s3: "st_ok C (add_mset ob R) (insert ob P) s I3" .
      have "pres C R P s (do { I \<leftarrow> upd_heap (b6b_destroy ob) I3; Some (B6B_ERR, I) })"
        by (rule pres_bind, rule pres_Some, rule destroy_private_ok [OF _ s3 ob])
      with False show ?thesis by simp
    next
      case True
      have s3: "st_ok C (add_mset ob R) P s I3"
        using glob new_ok nps(1) by (cases "name = []") (auto elim: b6b_global_ok)
      have same: "priv_same (hp I2) (hp I3)"
      proof (cases "name = []")
        case True
        with glob show ?thesis by (simp add: priv_same_def)
      next
        case False
        with glob \<open>good\<close> have "b6b_dict_set (locals (global I2)) n ob (hp I2) = Some (True, hp I3)"
          by (auto simp: b6b_global_def on_heap_def bind_Some)
        then show ?thesis by (rule priv_same_dict_set)
      qed
      define priv where "priv = (case p of [Arg x] \<Rightarrow> x | _ \<Rightarrow> i_null I3)"
      have np_priv: "npriv C P priv"
        using nps(3) st_ok_root [OF s3, of "i_null I3"] unfolding priv_def
        by (auto split: list.split parg.split)
      have "pres C R P s (do {
          I \<leftarrow> upd_heap (b6b_ref b) I3;
          I \<leftarrow> upd_heap (b6b_ref priv) I;
          I \<leftarrow> upd_heap (hupd ob (\<lambda>x. x\<lparr>ob_priv := Priv_proc b priv, ob_proc := F_proc\<rparr>)) I;
          b6b_return ob I })"
      proof (intro pres_bind)
        fix I4 I5 I6
        assume r: "upd_heap (b6b_ref b) I3 = Some I4" "upd_heap (b6b_ref priv) I4 = Some I5"
          "upd_heap (hupd ob (\<lambda>x. x\<lparr>ob_priv := Priv_proc b priv, ob_proc := F_proc\<rparr>)) I5 = Some I6"
        have s5: "st_ok C (add_mset priv (add_mset b (add_mset ob R))) P s I5"
          by (rule ref_ok_st [OF r(2) ref_ok_st [OF r(1) s3 nps(2)] np_priv])
        have "priv_same (hp I3) (hp I4)" "priv_same (hp I4) (hp I5)"
          using r(1,2) by (auto simp: upd_heap_def intro: priv_same_ref)
        with same have ps5: "priv_same (hp I2) (hp I5)" using priv_same_trans by metis
        from hupd_obj [OF r(3)] obtain x where x: "hget ob (hp I5) = Some x" by blast
        with ps5 obtain y where "hget ob (hp I2) = Some y" "ob_priv y = ob_priv x"
          unfolding priv_same_def by metis
        with new_priv(2) have "ob_priv x = No_priv" by (auto simp: new_obj_def)
        from set_proc_ok [OF r(3) s5 nps(2) np_priv x this]
        show "pres C R P s (b6b_return ob I6)" using new_ok(2) by (rule pres_returns(1))
      qed
      with True show ?thesis by (simp add: Let_def priv_def)
    qed
  qed (rule pres_None)+
qed

end
