(* ===== verification/Run_Eval.thy ===== *)
theory Run_Eval
  imports Run_Procs
begin

text \<open>
  Evaluation keeps the invariant of theory Run_Inv across every switch of threads.  The locale
  \<open>stmt_caller\<close> is what the procedures need of \<^verbatim>\<open>b6b_stmt_call\<close>, and \<open>ext_env\<close> what the
  interpreter needs of the procedures that are not modelled; a statement called with any fuel is
  a \<open>stmt_caller\<close>.
\<close>

section \<open>The queue of threads\<close>

lemma split_at_Some:
  "split_at P xs = Some (as, y, bs) \<Longrightarrow> xs = as @ y # bs \<and> P y \<and> list_all (\<lambda>a. \<not> P a) as"
  by (induction xs arbitrary: as) (auto split: if_splits)

lemma split_at_None: "split_at P xs = None \<longleftrightarrow> list_all (\<lambda>a. \<not> P a) xs"
  by (induction xs) auto

text \<open>A switch changes the flags of two threads, and the order of none.\<close>

lemma next_thread_map:
  assumes nt: "next_thread I = Some I'" and g: "\<And>t. g (to_fg t) = g t" "\<And>t. g (to_bg t) = g t"
  shows "map g (threads I') = map g (threads I)"
  using nt by (auto simp: next_thread_def threads_def g split: option.splits prod.splits dest!: split_at_Some)

lemma next_thread_fields:
  assumes "next_thread I = Some I'"
  shows "hp I' = hp I" "next_tid I' = next_tid I" "groots I' = groots I" "\<not> t_done (fg I')"
    "t_id (fg I') \<in> t_id ` set (tq_before I @ tq_after I)" "exiting I' = exiting I"
  using assms by (auto simp: next_thread_def groots_def to_fg_def pending_def split: option.splits prod.splits dest!: split_at_Some)

lemma flags_irrelevant:
  "troots (to_fg t) = troots t" "troots (to_bg t) = troots t" "tst (to_fg t) = tst t" "tst (to_bg t) = tst t"
  "thread_ok n (to_fg t) = thread_ok n t" "thread_ok n (to_bg t) = thread_ok n t"
  "t_id (to_fg t) = t_id t" "t_id (to_bg t) = t_id t" "t_done (to_fg t) = t_done t" "t_done (to_bg t) = t_done t"
  by (simp_all add: troots_def tst_def thread_ok_def to_fg_def to_bg_def)

lemma next_thread_iroots: "next_thread I = Some I' \<Longrightarrow> iroots I' = iroots I"
  using next_thread_map [of I I' troots] by (simp add: iroots_def flags_irrelevant next_thread_fields)

lemma next_thread_others:
  assumes nt: "next_thread I = Some I'"
    and "list_all (\<lambda>t. t_bg t \<and> \<not> t_fg t) (tq_before I @ tq_after I)"
  shows "list_all (\<lambda>t. t_bg t \<and> \<not> t_fg t) (tq_before I' @ tq_after I')" and "t_fg (fg I') \<and> \<not> t_bg (fg I')"
  using assms by (auto simp: next_thread_def to_fg_def to_bg_def split: option.splits prod.splits dest!: split_at_Some)

lemma next_thread_sched:
  assumes nt: "next_thread I = Some I'" and ok: "sched_ok I"
  shows "sched_ok I'"
proof -
  have ids: "map t_id (threads I') = map t_id (threads I)"
    by (rule next_thread_map [OF nt]) (simp_all add: flags_irrelevant)
  have "map (thread_ok (next_tid I)) (threads I') = map (thread_ok (next_tid I)) (threads I)"
    by (rule next_thread_map [OF nt]) (simp_all add: flags_irrelevant)
  then have "set (map (thread_ok (next_tid I)) (threads I')) \<subseteq> {True}"
    using ok by (auto simp: sched_ok_def list_all_iff)
  then have thr: "list_all (thread_ok (next_tid I')) (threads I')"
    using next_thread_fields(2) [OF nt] by (auto simp: list_all_iff)
  have "hd (map t_id (threads I')) = hd (map t_id (threads I))" using ids by simp
  moreover have "threads J \<noteq> []" for J by (simp add: threads_def)
  ultimately have "t_id (hd (threads I')) = t_id (hd (threads I))" by (simp add: hd_map)
  then show ?thesis
    using ok ids next_thread_others [OF nt] thr by (simp add: sched_ok_def)
qed

lemma next_thread_world:
  assumes nt: "next_thread I = Some I'" and w: "world0 D I"
  shows "world D I'"
proof -
  let ?g = "\<lambda>t. (tst t, t_done t)"
  have "map ?g (threads I') = map ?g (threads I)"
    by (rule next_thread_map [OF nt]) (simp_all add: flags_irrelevant)
  then have set: "?g ` set (threads I') = ?g ` set (threads I)" unfolding set_map [symmetric] by (rule arg_cong)
  have same: "\<exists>u\<in>set (threads I). tst u = tst t \<and> t_done u = t_done t" if "t \<in> set (threads I')" for t
  proof -
    have "?g t \<in> ?g ` set (threads I)" using that unfolding set [symmetric] by (rule imageI)
    then obtain u where "?g t = ?g u" "u \<in> set (threads I)" by (rule imageE)
    then show ?thesis by (intro bexI [of _ u]) simp_all
  qed
  have same': "\<exists>u\<in>set (threads I'). tst u = tst t \<and> t_done u = t_done t" if "t \<in> set (threads I)" for t
  proof -
    have "?g t \<in> ?g ` set (threads I')" using that unfolding set by (rule imageI)
    then obtain u where "?g t = ?g u" "u \<in> set (threads I')" by (rule imageE)
    then show ?thesis by (intro bexI [of _ u]) simp_all
  qed
  have "world0 D I'"
  proof (rule world_intro)
    fix i s
    assume "c_thr D i = Some s"
    note s = world_thr [OF w this]
    from s(2) obtain t where t: "t \<in> set (threads I)" "tst t = s" "\<not> t_done t" by (elim bexE conjE)
    from same' [OF t(1)] obtain u where u: "u \<in> set (threads I')" "tst u = tst t" "t_done u = t_done t"
      by (elim bexE conjE)
    from u(2,3) t(2,3) have "tst u = s \<and> \<not> t_done u" by simp
    with u(1) have "\<exists>t\<in>set (threads I'). tst t = s \<and> \<not> t_done t" by (rule bexI [rotated])
    with s(1) show "fst s = i \<and> (\<exists>t\<in>set (threads I'). tst t = s \<and> \<not> t_done t)" by (rule conjI)
  next
    fix t
    assume t: "t \<in> set (threads I')" "c_thr D (t_id t) = None"
    from same [OF t(1)] obtain u where u: "u \<in> set (threads I)" "tst u = tst t" by (elim bexE conjE)
    from u(2) have "t_id u = t_id t" "t_depth u = t_depth t" by (simp_all add: tst_def)
    with world_fresh [OF w u(1)] t(2) show "t_depth t = 1 \<and> t_id t \<noteq> 0" by simp
  next
    show "hinv (c_priv D) (c_refs D + iroots I') (hp I')"
      unfolding next_thread_iroots [OF nt] next_thread_fields(1) [OF nt] by (rule world_parts(1) [OF w])
  qed (rule next_thread_sched [OF nt world_parts(2) [OF w]] world_parts(3) [OF w])+
  with next_thread_fields(4) [OF nt] show ?thesis by (simp add: world_def)
qed

section \<open>Threads that are done are freed\<close>

lemma thread_destroy_hinv:
  assumes inv: "hinv P (R + troots t) h" and run: "b6b_thread_destroy t h = Some h'"
    and one: "t_curr t = [f]" and disj: "set_mset (troots t) \<inter> P = {}"
  shows "hinv P R h'"
proof -
  from run one obtain h1 h2 where r: "b6b_unref (t_ret t) h = Some h1"
    "(case t_fn t of None \<Rightarrow> Some h1 | Some a \<Rightarrow> b6b_unref a h1) = Some h2" "b6b_frame_destroy f h2 = Some h'"
    by (auto simp: b6b_thread_destroy_def bind_Some)
  let ?fn = "mset (case t_fn t of None \<Rightarrow> [] | Some a \<Rightarrow> [a])"
  have tr: "troots t = add_mset (t_ret t) (?fn + froots f)" by (simp add: troots_def one)
  have "hinv P (add_mset (t_ret t) (R + froots f + ?fn)) h" using inv by (simp add: tr ac_simps)
  from b6b_unref_hinv [OF this r(1)] disj have i1: "hinv P (R + froots f + ?fn) h1" by (simp add: tr)
  have "hinv P (R + froots f) h2"
  proof (cases "t_fn t")
    case None
    with i1 r(2) show ?thesis by simp
  next
    case (Some a)
    then have "hinv P (add_mset a (R + froots f)) h1" using i1 by simp
    from b6b_unref_hinv [OF this] r(2) Some disj show ?thesis by (simp add: tr)
  qed
  then show ?thesis by (rule b6b_frame_destroy_hinv [OF _ r(3)]) (use disj tr in auto)
qed

lemma destroy_done_hinv:
  "destroy_done ts h = Some h' \<Longrightarrow> hinv P (R + sum_list (map troots ts)) h \<Longrightarrow> list_all (thread_ok n) ts \<Longrightarrow>
   set_mset (sum_list (map troots ts)) \<inter> P = {} \<Longrightarrow>
   hinv P (R + sum_list (map troots (filter (\<lambda>t. \<not> t_done t) ts))) h'"
proof (induction ts arbitrary: h R)
  case (Cons t ts)
  show ?case
  proof (cases "t_done t")
    case False
    have "set_mset (sum_list (map troots ts)) \<inter> P = {}" using Cons.prems(4) by auto
    moreover have "hinv P (R + troots t + sum_list (map troots ts)) h" using Cons.prems(2) by (simp add: ac_simps)
    ultimately have "hinv P (R + troots t + sum_list (map troots (filter (\<lambda>t. \<not> t_done t) ts))) h'"
      using Cons.prems(1,3) False by (intro Cons.IH [of h "R + troots t"]) simp_all
    with False show ?thesis by (simp add: ac_simps)
  next
    case True
    with Cons.prems(1) obtain h1 where r: "b6b_thread_destroy t h = Some h1" "destroy_done ts h1 = Some h'"
      by (auto simp: bind_Some)
    from Cons.prems(3) True obtain f where one: "t_curr t = [f]"
      by (cases "t_curr t") (auto simp: thread_ok_def)
    have "hinv P (R + sum_list (map troots ts) + troots t) h" using Cons.prems(2) by (simp add: ac_simps)
    from thread_destroy_hinv [OF this r(1) one] Cons.prems(4)
    have "hinv P (R + sum_list (map troots ts)) h1" by auto
    from Cons.IH [OF r(2) this] Cons.prems(3,4) True show ?thesis by auto
  qed
qed simp

lemma wait_ok:
  assumes run: "b6b_wait I = Some I'" and ok: "st_ok C R P s I"
  shows "st_ok C R P s I'"
proof -
  note so = st_ok_sched [OF ok]
  from run so obtain h where h: "destroy_done (threads I) (hp I) = Some h"
    and I': "I' = I\<lparr>hp := h, tq_before := filter (\<lambda>t. \<not> t_done t) (tq_before I),
               tq_after := filter (\<lambda>t. \<not> t_done t) (tq_after I)\<rparr>"
    by (auto simp: b6b_wait_def bind_Some)
  have th: "threads I' = filter (\<lambda>t. \<not> t_done t) (threads I)" using so by (simp add: I' threads_def)
  have "set_mset (sum_list (map troots (threads I))) \<inter> (c_priv C \<union> P) = {}"
    using st_ok_root [OF ok] by (auto simp: iroots_def npriv_def)
  moreover have "hinv (c_priv C \<union> P) (c_refs C + R + groots I + sum_list (map troots (threads I))) (hp I)"
    using st_ok_hinv [OF ok] by (simp add: iroots_def ac_simps)
  moreover have "list_all (thread_ok (next_tid I)) (threads I)" using so by (simp add: sched_ok_def)
  ultimately have "hinv (c_priv C \<union> P) (c_refs C + R + groots I + sum_list (map troots (threads I'))) h"
    unfolding th using destroy_done_hinv [OF h] by blast
  moreover have "groots I' = groots I" by (simp add: I' groots_def)
  ultimately have inv: "hinv (c_priv C \<union> P) (c_refs C + R + iroots I') (hp I')"
    by (simp add: iroots_def I' ac_simps)
  have fg: "fg I' = fg I" "next_tid I' = next_tid I" by (simp_all add: I')
  have sched: "sched_ok I'"
  proof -
    have "t_id (hd (threads I)) = 0" "list_all (thread_ok (next_tid I)) (threads I)" using so by (simp_all add: sched_ok_def)
    then have "\<not> t_done (hd (threads I))" by (cases "tq_before I") (auto simp: threads_def thread_ok_def)
    then have "hd (threads I') = hd (threads I)" unfolding th by (cases "threads I") (auto simp: threads_def)
    moreover have "distinct (map t_id (threads I'))"
      using so unfolding th sched_ok_def by (auto intro: distinct_map_filter)
    moreover have "list_all (thread_ok (next_tid I)) (threads I')" using so by (auto simp: th sched_ok_def list_all_iff)
    moreover have "list_all (\<lambda>t. t_bg t \<and> \<not> t_fg t) (tq_before I' @ tq_after I')"
      using so by (auto simp: I' sched_ok_def list_all_iff)
    ultimately show ?thesis
      using so unfolding sched_ok_def fg by simp
  qed
  have "world0 (with_own C R P s) I'"
  proof (rule world_intro)
    fix i s'
    assume "c_thr (with_own C R P s) i = Some s'"
    from world_thr [OF st_ok_world0 [OF ok] this]
    show "fst s' = i \<and> (\<exists>t\<in>set (threads I'). tst t = s' \<and> \<not> t_done t)" unfolding th by auto
  next
    fix t
    assume "t \<in> set (threads I')" "c_thr (with_own C R P s) (t_id t) = None"
    then show "t_depth t = 1 \<and> t_id t \<noteq> 0" using world_fresh [OF st_ok_world0 [OF ok], of t] unfolding th by simp
  qed (use inv sched so world_parts(3) [OF st_ok_world0 [OF ok]] in \<open>simp_all add: fg\<close>)
  then show ?thesis using ok so by (simp add: st_ok_def world_def fg)
qed

section \<open>Computations that give back what they own\<close>

abbreviation kept :: "addr multiset \<Rightarrow> addr set \<Rightarrow> tst \<Rightarrow> 'a \<Rightarrow> ctx \<Rightarrow> interp \<Rightarrow> bool" where
  "kept R P s \<equiv> \<lambda>_ C I. st_ok C R P s I"

lemma okres_Ret: "Q x C I \<Longrightarrow> okres (Ret x I) Q C"
  by simp

lemma okres_Undef: "okres Undef Q C" and okres_No_fuel: "okres No_fuel Q C"
  by simp_all

lemma okres_pres: "pres C R P s m \<Longrightarrow> okres (lift m) (kept R P s) C"
  by (rule okres_lift) (simp add: pres_def)

lemma okres_seq:
  assumes "okres r (kept R P s) C" and "\<And>x C I. st_ok C R P s I \<Longrightarrow> okres (f x I) Q C"
  shows "okres (rbind r f) Q C"
  using assms by (rule okres_bind)

lemma okres_if: "(c \<Longrightarrow> okres a Q C) \<Longrightarrow> (\<not> c \<Longrightarrow> okres b Q C) \<Longrightarrow> okres (if c then a else b) Q C"
  by simp

lemma okres_prod: "(\<And>a b. x = (a, b) \<Longrightarrow> okres (f a b) Q C) \<Longrightarrow> okres (case x of (a, b) \<Rightarrow> f a b) Q C"
  by (cases x) simp

lemma okres_prod2: "(\<And>a b. x = (a, b) \<Longrightarrow> okres (f a b I) Q C) \<Longrightarrow> okres ((case x of (a, b) \<Rightarrow> f a b) I) Q C"
  by (cases x) simp

lemma okres_option:
  "(x = None \<Longrightarrow> okres a Q C) \<Longrightarrow> (\<And>y. x = Some y \<Longrightarrow> okres (f y) Q C) \<Longrightarrow>
   okres (case x of None \<Rightarrow> a | Some y \<Rightarrow> f y) Q C"
  by (cases x) simp_all

lemma okres_list:
  "(xs = [] \<Longrightarrow> okres a Q C) \<Longrightarrow> (\<And>y ys. xs = y # ys \<Longrightarrow> okres (f y ys) Q C) \<Longrightarrow>
   okres (case xs of [] \<Rightarrow> a | y # ys \<Rightarrow> f y ys) Q C"
  by (cases xs) simp_all

lemma okres_parg:
  "(\<And>a. p = Arg a \<Longrightarrow> okres (f a) Q C) \<Longrightarrow> (\<And>n. p = Rest n \<Longrightarrow> okres (g n) Q C) \<Longrightarrow>
   okres (case p of Arg a \<Rightarrow> f a | Rest n \<Rightarrow> g n) Q C"
  by (cases p) simp_all

lemma okres_let: "okres (f a) Q C \<Longrightarrow> okres (let x = a in f x) Q C"
  by simp

lemma okres_args:
  assumes ok: "st_ok C R P s I"
    and body: "\<And>argc ps I. st_ok C R P s I \<Longrightarrow> np_args C P ps \<Longrightarrow> okres (g argc ps I) Q C"
  shows "okres (rbind (lift (map_option (\<lambda>(argc, ps, I). ((argc, ps), I))
       (b6b_proc_get_args args fmt wants I))) (\<lambda>(argc, ps) I. g argc ps I)) Q C"
proof (cases "b6b_proc_get_args args fmt wants I")
  case None
  then show ?thesis by (simp add: lift_def)
next
  case (Some q)
  obtain argc ps I1 where q: "q = (argc, ps, I1)" by (cases q)
  note g = get_args_ok [OF Some [unfolded q] ok]
  have "np_args C P ps" using g(2) by (auto simp: np_args_def list_all_iff split: parg.split)
  from body [OF g(1) this] show ?thesis unfolding Some q by (simp add: lift_def)
qed

lemmas okres_rules = okres_Ret okres_Undef okres_No_fuel okres_args okres_steps okres_if okres_let
  okres_option okres_list okres_parg okres_prod okres_prod2

section \<open>Switching\<close>

lemma b6b_yield_ok:
  assumes ok: "st_ok C R P s I"
  shows "okres (b6b_yield I) (kept R P s) C"
proof (cases "next_thread I")
  case None
  then show ?thesis using ok by (auto simp: b6b_yield_def intro!: okres_bind_upd wait_ok)
next
  case (Some I')
  have resume: "okres (rbind (lift_upd (b6b_wait J)) (\<lambda>_ I. Ret True I)) (kept R P s) D" if "st_ok D R P s J" for D J
    using that by (auto intro!: okres_bind_upd wait_ok)
  have "world (with_own C R P s) I'" by (rule next_thread_world [OF Some st_ok_world0 [OF ok]])
  moreover have "P \<subseteq> set_mset R" "fst s = c_self C" using ok by (simp_all add: st_ok_def)
  ultimately show ?thesis
    using resume unfolding b6b_yield_def Some option.case okres.simps by blast
qed

lemma b6b_on_res_ok:
  assumes ok: "st_ok C R P s I"
  shows "okres (b6b_on_res res I) (kept R P s) C"
proof (cases "res = B6B_YIELD")
  case True
  then show ?thesis by (auto simp: b6b_on_res_def intro!: okres_seq [OF b6b_yield_ok [OF ok]])
next
  case False
  let ?J = "I\<lparr>qstep := qstep I + 1\<rparr>"
  have J: "st_ok C R P s ?J" using ok by (simp add: st_ok_fields)
  have np: "npriv C P (i_us ?J)" "npriv C P (t_ret (fg ?J))" by (rule st_ok_root [OF J], rule roots)+
  show ?thesis
    unfolding b6b_on_res_def Let_def if_not_P [OF False]
  proof (rule okres_bind_lift)
    fix good I1
    assume "b6b_local (i_us ?J) (t_ret (fg ?J)) ?J = Some (good, I1)"
    from b6b_local_ok [OF this J np] have s1: "st_ok C R P s I1" .
    show "okres (if \<not> good then Ret B6B_ERR I1
          else if res = B6B_EXIT then Ret res (I1\<lparr>exiting := True\<rparr>)
          else if qstep I1 = B6B_QUANT_LEN then rbind (b6b_yield I1) (\<lambda>_ I. Ret res I)
          else Ret res I1) (kept R P s) C"
      using s1 by (auto intro!: okres_seq [OF b6b_yield_ok [OF s1]] simp: st_ok_fields)
  qed
qed

section \<open>A private name\<close>

lemma str_new_private:
  assumes "new_heap (b6b_str_new t) I = (a, I')" and "st_ok C R P s I"
  shows "st_ok C (add_mset a R) (insert a P) s I'" and "hget a (hp I') = Some (new_obj\<lparr>ob_s := Some t\<rparr>)"
proof -
  from assms(1) have "new_heap (b6b_str_copy t) I = (a, I')" by (simp add: new_heap_def b6b_str_copy_def)
  note c = str_copy_private [OF this assms(2)]
  show "st_ok C (add_mset a R) (insert a P) s I'" "hget a (hp I') = Some (new_obj\<lparr>ob_s := Some t\<rparr>)" by (fact c)+
qed

lemma no_refs_conv:
  assumes "conv_le h h'" and "hget a h = Some ob" and "refs_of ob = []"
  shows "\<exists>ob'. hget a h' = Some ob' \<and> refs_of ob' = []"
proof -
  from assms obtain ob' where "hget a h' = Some ob'" "obj_le ob ob'" unfolding conv_le_def by metis
  with assms(3) show ?thesis by (auto simp: obj_le_def refs_of_def)
qed

lemma get_in_conv: "get_in k fs h = Some (r, h') \<Longrightarrow> conv_le h h'"
proof (induction k fs h rule: get_in.induct)
  case (2 k f fs h)
  from "2.prems" obtain q h1 where q: "b6b_dict_get (locals f) k h = Some (q, h1)" by (auto simp: bind_Some)
  from q obtain p h2 where p: "dict_find False (locals f) k h = Some (p, h2)"
    by (auto simp: b6b_dict_get_def bind_Some)
  with q have "h2 = h1" by (cases p) (auto simp: b6b_dict_get_def)
  with dict_find_conv [OF p] have "conv_le h h1" by simp
  then show ?case using "2.prems" "2.IH" [OF q refl] q
    by (auto split: option.splits intro: conv_le_trans)
qed auto

lemma return_str_keeps:
  assumes "b6b_return_str t I = Some (r, I')" and "hget a (hp I') = Some ob'" and "hget a (hp I) \<noteq> None"
  shows "\<exists>ob. hget a (hp I) = Some ob \<and> refs_of ob' = refs_of ob"
proof -
  obtain b h where new: "halloc (new_obj\<lparr>ob_s := Some t\<rparr>) (hp I) = (b, h)" by fastforce
  with assms(1) obtain h' where h': "b6b_unref (t_ret (fg I)) h = Some h'" "hp I' = h'"
    by (auto simp: b6b_return_str_def new_heap_def b6b_str_copy_def b6b_str_new_def b6b_new_def b6b_return_def
        upd_heap_def set_ret_def bind_Some)
  have "a \<noteq> b" using assms(3) new st.new_fresh [of "new_obj\<lparr>ob_s := Some t\<rparr>" "hp I"] by auto
  then have "hget a h = hget a (hp I)" using hget_halloc [of a "new_obj\<lparr>ob_s := Some t\<rparr>" "hp I"] new by simp
  moreover from unrefs_frame [OF h'(1) [unfolded b6b_unref_def]] assms(2) h'(2)
  obtain ob where "hget a h = Some ob" "ob' = ob\<lparr>ob_refc := ob_refc ob'\<rparr>" by blast
  ultimately show ?thesis by (metis refs_of_refc)
qed

lemma b6b_get_private:
  assumes run: "b6b_get k I = Some (r, I')" and ok: "st_ok C R P s I" and a: "a \<in> P"
    and ob: "hget a (hp I) = Some ob" "refs_of ob = []"
  shows "\<exists>ob'. hget a (hp I') = Some ob' \<and> refs_of ob' = []"
proof -
  have live: "\<exists>x. hget a (hp J) = Some x" if "st_ok D R P s J" for D J
    using hinv_private [OF st_ok_hinv [OF that], of a] a by (auto simp: refc_at_def split: option.splits)
  from run obtain ok1 I1 where r1: "on_heap (b6b_as_str k) I = Some (ok1, I1)" by (auto simp: b6b_get_def bind_Some)
  then have "conv_le (hp I) (hp I1)" by (auto simp: on_heap_def bind_Some dest: b6b_as_str_conv_le)
  from no_refs_conv [OF this ob] obtain ob1 where ob1: "hget a (hp I1) = Some ob1" "refs_of ob1 = []" by blast
  show ?thesis
  proof (cases ok1)
    case False
    with run r1 ob1 show ?thesis by (auto simp: b6b_get_def)
  next
    case True
    with run r1 obtain q I2 where r2: "on_heap (get_in k (chain I1)) I1 = Some (q, I2)"
      by (auto simp: b6b_get_def bind_Some)
    then have "conv_le (hp I1) (hp I2)" by (auto simp: on_heap_def bind_Some dest: get_in_conv)
    from no_refs_conv [OF this ob1] obtain ob2 where ob2: "hget a (hp I2) = Some ob2" "refs_of ob2 = []" by blast
    show ?thesis
    proof (cases "q = Some None")
      case False
      with run r1 r2 True ob2 show ?thesis by (auto simp: b6b_get_def split: option.splits)
    next
      case q: True
      with run r1 r2 True obtain msg x where r3: "b6b_return_str msg I2 = Some (x, I')"
        by (auto simp: b6b_get_def bind_Some)
      from live [OF b6b_get_ok(1) [OF run ok]] obtain ob' where "hget a (hp I') = Some ob'" by blast
      with return_str_keeps [OF r3] ob2 show ?thesis by force
    qed
  qed
qed

lemma free_private:
  assumes ok: "st_ok C (add_mset a R) (insert a P) s I" and a: "a \<notin> P"
    and ob: "hget a (hp I) = Some ob" "refs_of ob = []"
  shows "st_ok C R P s (I\<lparr>hp := hfree a (hp I)\<rparr>)"
proof (rule destroy_private_ok [OF _ ok a])
  have "ob_l ob \<noteq> Freed_items" by (rule rc_okD(3) [OF hinv_rc [OF st_ok_hinv [OF ok]] ob(1)])
  then have "b6b_destroy a (hp I) = Some (hfree a (hp I))"
    using ob by (simp add: b6b_destroy_def destroy_refs_def)
  then show "upd_heap (b6b_destroy a) I = Some (I\<lparr>hp := hfree a (hp I)\<rparr>)" by (simp add: upd_heap_def)
qed

lemma owned_npriv: "st_ok C (add_mset a R) P s I \<Longrightarrow> a \<notin> P \<Longrightarrow> npriv C P a"
  using own_not_ctx_priv [of C "add_mset a R" P s I a] by (simp add: npriv_def)

text \<open>An owned reference is given up after other threads have run.\<close>

lemma unref_after:
  assumes "st_ok C (add_mset a R) P s I" and "a \<notin> P"
  shows "okres (rbind (lift_upd (upd_heap (b6b_unref a) I)) (\<lambda>_ I. Ret x I)) (kept R P s) C"
proof (rule okres_bind_upd)
  fix J
  assume "upd_heap (b6b_unref a) I = Some J"
  from unref_ok_st [OF this assms(1) owned_npriv [OF assms]] show "okres (Ret x J) (kept R P s) C" by simp
qed

lemma list_from_ok:
  assumes run: "on_heap (b6b_list_from t) I = Some (r, I')" and ok: "st_ok C R P s I"
  shows "case r of None \<Rightarrow> st_ok C R P s I' | Some l \<Rightarrow> st_ok C (add_mset l R) P s I' \<and> npriv C P l"
proof -
  from run obtain h where h: "b6b_list_from t (hp I) = Some (r, h)" "I' = I\<lparr>hp := h\<rparr>"
    by (auto simp: on_heap_def bind_Some)
  note f = b6b_list_from_hinv [OF st_ok_hinv [OF ok] h(1)]
  show ?thesis
  proof (cases r)
    case None
    with f h(2) st_ok_own [OF ok] show ?thesis by (auto intro: st_ok_heap [OF ok])
  next
    case (Some l)
    with f have "hinv (c_priv C \<union> P) (c_refs C + add_mset l R + iroots I) h" "npriv C P l"
      by (simp_all add: npriv_def)
    from st_ok_heap [OF ok this(1)] this(2) st_ok_own [OF ok] Some h(2) show ?thesis by auto
  qed
qed

section \<open>What the procedures need of a statement call\<close>

locale stmt_caller =
  fixes sc :: "addr \<Rightarrow> interp \<Rightarrow> b6b_res res"
  assumes call_law: "st_ok C R P s I \<Longrightarrow> okres (sc stmt I) (kept R P s) C"

text \<open>A procedure outside the model keeps the counts of the references it is given.\<close>

locale ext_env =
  fixes E :: env
  assumes ext_law: "st_ok C R P s I \<Longrightarrow> pres C R P s (e_ext E k args I)"

context stmt_caller begin

lemma b6b_eval_ok:
  assumes ok: "st_ok C R P s I" and e: "npriv C P e"
  shows "okres (b6b_eval sc e I) (kept R P s) C"
  unfolding b6b_eval_def
proof (rule okres_bind_read, rule okres_if)
  fix t
  show "okres (case new_heap (b6b_str_new (tl t)) I of (name, I) \<Rightarrow>
            rbind (lift (b6b_get name I)) (\<lambda>r I.
              let I = I\<lparr>hp := hfree name (hp I)\<rparr> in
              case r of
                Some x \<Rightarrow> lift (return_ref x I)
              | None \<Rightarrow> Ret B6B_ERR I)) (kept R P s) C"
  proof (rule okres_prod, rule okres_bind_lift)
    fix name I1 r I2
    assume new: "new_heap (b6b_str_new (tl t)) I = (name, I1)" and get: "b6b_get name I1 = Some (r, I2)"
    note n = str_new_private [OF new ok]
    have "npriv C P name" by (rule str_new_ok(2) [OF new ok])
    then have "name \<notin> P" by (simp add: npriv_def)
    note s2 = b6b_get_ok [OF get n(1)]
    from b6b_get_private [OF get n(1) insertI1 n(2)]
    obtain ob where "hget name (hp I2) = Some ob" "refs_of ob = []" by (auto simp: refs_of_def new_obj_def)
    from free_private [OF s2(1) \<open>name \<notin> P\<close> this]
    have s3: "st_ok C R P s (I2\<lparr>hp := hfree name (hp I2)\<rparr>)" .
    moreover have "npriv C P x" if "r = Some x" for x using s2(2) [OF that] by (simp add: npriv_def)
    ultimately show "okres (let I = I2\<lparr>hp := hfree name (hp I2)\<rparr> in
              case r of Some x \<Rightarrow> lift (return_ref x I) | None \<Rightarrow> Ret B6B_ERR I) (kept R P s) C"
      by (cases r) (auto intro!: okres_pres pres_returns)
  qed
next
  fix t
  show "okres (if t \<noteq> [] \<and> hd t = CHR ''['' then
         if length t = 1 \<or> last t \<noteq> CHR '']'' then lift (fail_with ''uneven []'' I)
         else
           rbind (lift (on_heap (b6b_list_from (butlast (tl t))) I)) (\<lambda>r I.
             case r of
               None \<Rightarrow> Ret B6B_ERR I
             | Some stmt \<Rightarrow>
                 rbind (sc stmt I) (\<lambda>res I.
                   rbind (lift_upd (upd_heap (b6b_unref stmt) I)) (\<lambda>_ I. Ret res I)))
       else lift (return_ref e I)) (kept R P s) C"
  proof (intro okres_if okres_pres pres_returns ok e)
    show "okres (rbind (lift (on_heap (b6b_list_from (butlast (tl t))) I)) (\<lambda>r I.
             case r of
               None \<Rightarrow> Ret B6B_ERR I
             | Some stmt \<Rightarrow>
                 rbind (sc stmt I) (\<lambda>res I.
                   rbind (lift_upd (upd_heap (b6b_unref stmt) I)) (\<lambda>_ I. Ret res I)))) (kept R P s) C"
    proof (rule okres_bind_lift)
      fix r I1
      assume run: "on_heap (b6b_list_from (butlast (tl t))) I = Some (r, I1)"
      note from_ok = list_from_ok [OF run ok]
      show "okres (case r of None \<Rightarrow> Ret B6B_ERR I1 | Some stmt \<Rightarrow>
                 rbind (sc stmt I1) (\<lambda>res I.
                   rbind (lift_upd (upd_heap (b6b_unref stmt) I)) (\<lambda>_ I. Ret res I))) (kept R P s) C"
      proof (cases r)
        case None
        with from_ok show ?thesis by simp
      next
        case (Some stmt)
        with from_ok have s1: "st_ok C (add_mset stmt R) P s I1" and np: "npriv C P stmt" by simp_all
        have "okres (rbind (sc stmt I1) (\<lambda>res I.
            rbind (lift_upd (upd_heap (b6b_unref stmt) I)) (\<lambda>_ I. Ret res I))) (kept R P s) C"
          using np by (intro okres_seq [OF call_law [OF s1]] unref_after) (auto simp: npriv_def)
        with Some show ?thesis by simp
      qed
    qed
  qed
qed

lemma call_loop_ok: "st_ok C R P s I \<Longrightarrow> okres (call_loop sc n l p I) (kept R P s) C"
proof (induction n arbitrary: C p I)
  case (Suc n)
  show ?case
    unfolding call_loop.simps
  proof (intro okres_option okres_Ret Suc.prems okres_bind_read okres_bind_lift okres_if)
    fix li a good I1
    assume run: "on_heap (b6b_as_str a) I = Some (good, I1)"
    note s1 = as_str_ok [OF run Suc.prems]
    show "st_ok C R P s I1" by (rule s1)
    fix t
    have "okres (if t \<noteq> [] \<and> hd t \<noteq> CHR ''#'' then sc a I1 else Ret B6B_OK I1) (kept R P s) C"
      using s1 by (auto intro: call_law)
    then show "okres (rbind (if t \<noteq> [] \<and> hd t \<noteq> CHR ''#'' then sc a I1 else Ret B6B_OK I1) (\<lambda>res I.
        if res \<noteq> B6B_OK then Ret res I
        else rbind (lift_read I (node_next l li I)) (\<lambda>p I. call_loop sc n l p I))) (kept R P s) C"
    proof (rule okres_seq)
      fix res C' I'
      assume "st_ok C' R P s I'"
      then show "okres (if res \<noteq> B6B_OK then Ret res I'
          else rbind (lift_read I' (node_next l li I')) (\<lambda>p I. call_loop sc n l p I)) (kept R P s) C'"
        by (intro okres_if okres_Ret okres_bind_read Suc.IH)
    qed
  qed
qed simp

lemma b6b_call_ok: "st_ok C R P s I \<Longrightarrow> okres (b6b_call sc n stmts I) (kept R P s) C"
  unfolding b6b_call_def
  by (rule okres_bind_lift) (intro okres_if okres_Ret okres_bind_read call_loop_ok; erule (1) as_list_ok)

lemma b6b_call_copy_ok: 
  assumes ok: "st_ok C R P s I"
  shows "okres (b6b_call_copy sc n t I) (kept R P s) C"
  unfolding b6b_call_copy_def
proof (rule okres_prod)
  fix a I1
  assume "new_heap (b6b_str_copy t) I = (a, I1)"
  from str_copy_ok_st [OF this ok]
  show "okres (rbind (b6b_call sc n a I1) (\<lambda>res I.
      rbind (lift_upd (upd_heap (b6b_unref a) I)) (\<lambda>_ I. Ret res I))) (kept R P s) C"
    by (intro okres_seq [OF b6b_call_ok] unref_after) (auto simp: npriv_def)
qed

lemma b6b_source_ok: "st_ok C R P s I \<Longrightarrow> okres (b6b_source E sc n path I) (kept R P s) C"
  unfolding b6b_source_def by (intro okres_option okres_Ret b6b_call_copy_ok)

section \<open>Procedures that run code\<close>

lemma b6b_proc_proc_ok:
  assumes ok: "st_ok C R P s I" and args: "npriv C P args"
  shows "okres (b6b_proc_proc sc n args I) (kept R P s) C"
  unfolding b6b_proc_proc_def
proof (rule okres_bind_read, rule okres_prod2, rule okres_bind_lift)
  fix x body prv good I1
  assume get: "Option.bind (items_at args I) (\<lambda>its.
      case its of [] \<Rightarrow> None | (_, a) # _ \<Rightarrow>
        Option.bind (obj_at a I) (\<lambda>ob. case ob_priv ob of Priv_proc b p \<Rightarrow> Some (b, p) | _ \<Rightarrow> None)) = Some x"
    and x: "x = (body, prv)" and set: "b6b_frame_set_args (curr I) args I = Some (good, I1)"
  from get obtain its where its: "items_at args I = Some its" by (cases "items_at args I") simp_all
  with get obtain li a its' where "its = (li, a) # its'" by (cases its) auto
  with get its obtain ob where "obj_at a I = Some ob" by (cases "obj_at a I") auto
  with get its \<open>its = (li, a) # its'\<close> x have ob: "obj_at a I = Some ob" "ob_priv ob = Priv_proc body prv"
    by (cases "ob_priv ob", auto)+
  from ob have "prv \<in># heap_refs (hp I)"
    unfolding obj_at_def by (auto intro!: heap_refs_mem simp: refs_of_def)
  from hinv_not_ref [OF st_ok_hinv [OF ok] this] have prv: "npriv C P prv" by (simp add: npriv_def)
  note s1 = frame_set_args_ok [OF set ok args]
  show "okres (if \<not> good then Ret B6B_ERR I1
         else rbind (lift (b6b_local (i_dot I1) prv I1)) (\<lambda>ok I.
           if \<not> ok then Ret B6B_ERR I
           else rbind (b6b_call sc n body I) (\<lambda>res I.
             Ret (if res = B6B_RET then B6B_OK else res) I))) (kept R P s) C"
  proof (intro okres_if okres_Ret s1 okres_bind_lift)
    fix good2 I2
    assume "b6b_local (i_dot I1) prv I1 = Some (good2, I2)"
    from b6b_local_ok [OF this s1 st_ok_root [OF s1 roots(5)] prv] have s2: "st_ok C R P s I2" .
    then show "st_ok C R P s I2" .
    show "okres (rbind (b6b_call sc n body I2) (\<lambda>res I.
             Ret (if res = B6B_RET then B6B_OK else res) I)) (kept R P s) C"
      by (intro okres_seq [OF b6b_call_ok [OF s2]] okres_Ret)
  qed
qed

lemma b6b_logic_proc_if_ok: "st_ok C R P s I \<Longrightarrow> okres (b6b_logic_proc_if sc n args I) (kept R P s) C"
  unfolding b6b_logic_proc_if_def
  by (erule okres_args) (rule okres_rules b6b_call_ok | assumption)+

lemma loop_from_ok: "st_ok C R P s I \<Longrightarrow> okres (loop_from sc n b I) (kept R P s) C"
proof (induction n arbitrary: C I)
  case (Suc n)
  show ?case
    unfolding loop_from.simps
    by (rule okres_seq [OF b6b_call_ok [OF Suc.prems]]) (intro okres_if okres_Ret Suc.IH)
qed simp

lemma b6b_loop_proc_loop_ok: "st_ok C R P s I \<Longrightarrow> okres (b6b_loop_proc_loop sc n args I) (kept R P s) C"
  unfolding b6b_loop_proc_loop_def
  by (erule okres_args) (rule okres_rules loop_from_ok | assumption)+

text \<open>The result of \<^verbatim>\<open>map\<close> is private until it is returned.\<close>

lemma map_bind_ok:
  assumes "r \<notin> P"
  shows "st_ok C (add_mset r R) (insert r P) s I \<Longrightarrow>
    okres (map_bind n ks l r kp lp I)
      (\<lambda>x C I. if x = None then st_ok C R P s I else st_ok C (add_mset r R) (insert r P) s I) C"
proof (induction n arbitrary: C kp lp I)
  case (Suc n)
  note ok = Suc.prems
  have destroyed: "okres (rbind (lift_upd (upd_heap (b6b_destroy r) J)) (\<lambda>_ I. Ret None I))
      (\<lambda>x C I. if x = None then st_ok C R P s I else st_ok C (add_mset r R) (insert r P) s I) D"
    if "st_ok D (add_mset r R) (insert r P) s J" for D J
    using that assms by (intro okres_bind_upd okres_Ret) (simp add: destroy_private_ok)
  show ?case
  proof (cases kp)
    case None
    with ok show ?thesis by simp
  next
    case kp: (Some kli)
    show ?thesis
    proof (cases lp)
      case None
      have "okres (rbind (lift_upd (upd_heap (b6b_destroy r) I)) (\<lambda>_ I.
          rbind (lift (b6b_return_str ''not enough items'' I)) (\<lambda>_ I. Ret None I)))
        (\<lambda>x C I. if x = None then st_ok C R P s I else st_ok C (add_mset r R) (insert r P) s I) C"
        using ok assms
        by (intro okres_bind_upd okres_bind_lift okres_Ret) (auto dest: destroy_private_ok b6b_return_str_ok)
      with kp None show ?thesis by simp
    next
      case (Some li)
      have "okres (rbind (lift_read I (node_obj ks kli I)) (\<lambda>k I.
               rbind (lift_read I (node_obj l li I)) (\<lambda>v I.
               rbind (lift (b6b_local k v I)) (\<lambda>ok I.
                 if \<not> ok then rbind (lift_upd (upd_heap (b6b_destroy r) I)) (\<lambda>_ I. Ret None I)
                 else
                   rbind (lift_read I (node_next l li I)) (\<lambda>lp I.
                   rbind (lift_read I (node_next ks kli I)) (\<lambda>kp I.
                     map_bind n ks l r kp lp I))))))
        (\<lambda>x C I. if x = None then st_ok C R P s I else st_ok C (add_mset r R) (insert r P) s I) C"
      proof (intro okres_bind_read okres_bind_lift)
        fix k v good I1
        assume "node_obj ks kli I = Some k" "node_obj l li I = Some v" and set: "b6b_local k v I = Some (good, I1)"
        then have "npriv C (insert r P) k" "npriv C (insert r P) v" using node_obj_npriv ok by blast+
        from b6b_local_ok [OF set ok this]
        have s1: "st_ok C (add_mset r R) (insert r P) s I1" .
        then show "okres (if \<not> good then rbind (lift_upd (upd_heap (b6b_destroy r) I1)) (\<lambda>_ I. Ret None I)
            else rbind (lift_read I1 (node_next l li I1)) (\<lambda>lp I.
                 rbind (lift_read I (node_next ks kli I)) (\<lambda>kp I. map_bind n ks l r kp lp I)))
          (\<lambda>x C I. if x = None then st_ok C R P s I else st_ok C (add_mset r R) (insert r P) s I) C"
          by (intro okres_if destroyed okres_bind_read Suc.IH)
      qed
      with kp Some show ?thesis by simp
    qed
  qed
qed simp

lemma map_loop_ok:
  assumes r: "r \<notin> P"
  shows "st_ok C (add_mset r R) (insert r P) s I \<Longrightarrow> okres (map_loop sc n ks l b r lp I) (kept R P s) C"
proof (induction n arbitrary: C lp I)
  case (Suc n)
  have fin: "okres (lift (b6b_return r J)) (kept R P s) D" if "st_ok D (add_mset r R) (insert r P) s J" for D J
    using make_public [OF that, of P] r by (auto intro!: okres_pres pres_returns owned_npriv)
  have destroyed: "okres (rbind (lift_upd (upd_heap (b6b_destroy r) J)) (\<lambda>_ I. Ret x I)) (kept R P s) D"
    if "st_ok D (add_mset r R) (insert r P) s J" for D J x
    using that r by (intro okres_bind_upd okres_Ret) (simp add: destroy_private_ok)
  show ?case
    unfolding map_loop.simps
  proof (intro okres_if okres_bind_read fin Suc.prems)
    fix kp
    show "okres (rbind (map_bind n ks l r kp lp I) (\<lambda>next I.
          case next of
            None \<Rightarrow> Ret B6B_ERR I
          | Some lp \<Rightarrow>
              rbind (b6b_call sc n b I) (\<lambda>res I.
                if res = B6B_OK then
                  rbind (lift_upd (upd_heap (b6b_list_add r (t_ret (fg I))) I)) (\<lambda>_ I.
                    map_loop sc n ks l b r lp I)
                else if res = B6B_CONT then map_loop sc n ks l b r lp I
                else if res = B6B_BREAK then lift (b6b_return r I)
                else rbind (lift_upd (upd_heap (b6b_destroy r) I)) (\<lambda>_ I. Ret res I)))) (kept R P s) C"
    proof (rule okres_bind [OF map_bind_ok [OF r Suc.prems]])
      fix x :: "litem option option" and D J
      assume x: "if x = None then st_ok D R P s J else st_ok D (add_mset r R) (insert r P) s J"
      show "okres (case x of None \<Rightarrow> Ret B6B_ERR J | Some lp \<Rightarrow>
              rbind (b6b_call sc n b J) (\<lambda>res I.
                if res = B6B_OK then
                  rbind (lift_upd (upd_heap (b6b_list_add r (t_ret (fg I))) I)) (\<lambda>_ I.
                    map_loop sc n ks l b r lp I)
                else if res = B6B_CONT then map_loop sc n ks l b r lp I
                else if res = B6B_BREAK then lift (b6b_return r I)
                else rbind (lift_upd (upd_heap (b6b_destroy r) I)) (\<lambda>_ I. Ret res I))) (kept R P s) D"
      proof (intro okres_option okres_Ret)
        fix lp'
        assume "x = Some lp'"
        with x have "st_ok D (add_mset r R) (insert r P) s J" by simp
        from b6b_call_ok [OF this]
        show "okres (rbind (b6b_call sc n b J) (\<lambda>res I.
                if res = B6B_OK then
                  rbind (lift_upd (upd_heap (b6b_list_add r (t_ret (fg I))) I)) (\<lambda>_ I.
                    map_loop sc n ks l b r lp' I)
                else if res = B6B_CONT then map_loop sc n ks l b r lp' I
                else if res = B6B_BREAK then lift (b6b_return r I)
                else rbind (lift_upd (upd_heap (b6b_destroy r) I)) (\<lambda>_ I. Ret res I))) (kept R P s) D"
          by (rule okres_seq)
            (intro okres_if okres_bind_upd Suc.IH fin destroyed; (assumption | erule list_add_ok_st | rule ret_npriv)+)
      qed (use x in simp)
    qed
  qed
qed simp

lemma b6b_loop_proc_map_ok: "st_ok C R P s I \<Longrightarrow> okres (b6b_loop_proc_map sc n args I) (kept R P s) C"
  unfolding b6b_loop_proc_map_def
proof (erule okres_args)
  fix argc ps J
  assume ok: "st_ok C R P s J"
  show "okres (if argc = 0 then Ret B6B_ERR J
       else case ps of
         [Arg ks, Arg l, Arg b] \<Rightarrow>
           rbind (lift_read J (items_at ks J)) (\<lambda>kits I.
             if kits = [] then Ret B6B_ERR I
             else
               (case new_heap b6b_list_new I of (r, I) \<Rightarrow>
                  rbind (lift_read I (node_first l I)) (\<lambda>lp I. map_loop sc n ks l b r lp I)))
       | _ \<Rightarrow> Undef) (kept R P s) C"
  proof (intro okres_if okres_list okres_parg okres_Ret okres_Undef okres_bind_read okres_prod ok)
    fix r J1 ks l b lp
    assume new: "new_heap b6b_list_new J = (r, J1)"
    have "r \<notin> P" using list_new_ok(2) [OF new ok] by (simp add: npriv_def)
    then show "okres (map_loop sc n ks l b r lp J1) (kept R P s) C"
      by (rule map_loop_ok [OF _ list_new_private [OF new ok]])
  qed
qed

lemma try_except_ok: "st_ok C R P s I \<Longrightarrow> okres (try_except sc n e I) (kept R P s) C"
  unfolding try_except_def by (intro okres_if okres_seq [OF b6b_call_ok] b6b_call_ok okres_Ret)

lemma try_finally_ok:
  assumes ok: "st_ok C R P s I"
  shows "okres (try_finally sc n f res eres I) (kept R P s) C"
  unfolding try_finally_def Let_def
proof (rule okres_bind_upd)
  let ?J = "I\<lparr>exiting := False\<rparr>" and ?x = "t_ret (fg (I\<lparr>exiting := False\<rparr>))"
  fix I1
  assume ref: "upd_heap (b6b_ref ?x) ?J = Some I1"
  have J: "st_ok C R P s ?J" using ok by (simp add: st_ok_fields)
  have x: "npriv C P ?x" by (rule ret_npriv [OF J])
  have s1: "st_ok C (add_mset ?x R) P s I1" by (rule ref_ok_st [OF ref J x])
  show "okres (rbind (b6b_call sc n f I1) (\<lambda>fres I'.
      rbind (lift_upd (upd_heap (b6b_unref (t_ret (fg I'))) I')) (\<lambda>_ I''.
        if res = B6B_RET \<or> res = B6B_EXIT then Ret res ((set_ret ?x I'')\<lparr>exiting := exiting I\<rparr>)
        else if res = B6B_ERR \<and> eres \<noteq> B6B_OK then Ret eres ((set_ret ?x I'')\<lparr>exiting := exiting I\<rparr>)
        else Ret fres ((set_ret ?x I'')\<lparr>exiting := exiting I\<rparr>)))) (kept R P s) C"
  proof (rule okres_seq [OF b6b_call_ok [OF s1]], rule okres_bind_upd)
    fix fres D I2 I3
    assume s2: "st_ok D (add_mset ?x R) P s I2" and un: "upd_heap (b6b_unref (t_ret (fg I2))) I2 = Some I3"
    have "npriv D P ?x" using x owned_npriv [OF s2] by (simp add: npriv_def)
    from replace_ret_ok [OF un s2 this] have "st_ok D R P s ((set_ret ?x I3)\<lparr>exiting := exiting I\<rparr>)"
      by (simp add: st_ok_fields)
    then show "okres (if res = B6B_RET \<or> res = B6B_EXIT then Ret res ((set_ret ?x I3)\<lparr>exiting := exiting I\<rparr>)
        else if res = B6B_ERR \<and> eres \<noteq> B6B_OK then Ret eres ((set_ret ?x I3)\<lparr>exiting := exiting I\<rparr>)
        else Ret fres ((set_ret ?x I3)\<lparr>exiting := exiting I\<rparr>)) (kept R P s) D"
      by simp
  qed
qed

lemma b6b_exc_proc_try_ok: "st_ok C R P s I \<Longrightarrow> okres (b6b_exc_proc_try sc n args I) (kept R P s) C"
  unfolding b6b_exc_proc_try_def
  by (erule okres_args)
    (intro okres_if okres_list okres_parg okres_Ret okres_Undef okres_seq [OF b6b_call_ok]
      okres_seq try_except_ok try_finally_ok)

lemma b6b_core_proc_eval_ok: "st_ok C R P s I \<Longrightarrow> okres (b6b_core_proc_eval sc args I) (kept R P s) C"
  unfolding b6b_core_proc_eval_def
  by (erule okres_args) (rule okres_rules b6b_eval_ok | assumption | erule keeps | simp)+

lemma b6b_core_proc_call_ok: "st_ok C R P s I \<Longrightarrow> okres (b6b_core_proc_call sc n args I) (kept R P s) C"
  unfolding b6b_core_proc_call_def
  by (erule okres_args) (rule okres_rules b6b_call_ok | assumption)+

lemma b6b_core_proc_source_ok: "st_ok C R P s I \<Longrightarrow> okres (b6b_core_proc_source E sc n args I) (kept R P s) C"
  unfolding b6b_core_proc_source_def
  by (erule okres_args) (rule okres_rules b6b_source_ok | assumption)+

lemma core_proc_ok: "st_ok C R P s I \<Longrightarrow> okres (core_proc E sc n f args I) (kept R P s) C"
  unfolding core_proc_def b6b_core_proc_return_def b6b_core_proc_exit_def
  by (cases f)
    (simp_all add: b6b_core_proc_eval_ok b6b_core_proc_call_ok b6b_core_proc_source_ok okres_pres
      core_echo_ok value_and_status_ok core_throw_ok core_local_ok core_global_ok core_export_ok
      core_repr_ok core_spawn_ok)

lemma logic_proc_ok: "st_ok C R P s I \<Longrightarrow> okres (logic_proc sc n f args I) (kept R P s) C"
  unfolding logic_proc_def b6b_logic_proc_eq_def b6b_logic_proc_ne_def b6b_logic_proc_and_def
    b6b_logic_proc_or_def b6b_logic_proc_xor_def
  by (cases f) (simp_all add: b6b_logic_proc_if_ok okres_pres logic_not_ok eq_args_ok truth_args_ok)

lemma loop_proc_ok: "st_ok C R P s I \<Longrightarrow> okres (loop_proc sc n f args I) (kept R P s) C"
  unfolding loop_proc_def
  by (cases f) (simp_all add: b6b_loop_proc_map_ok b6b_loop_proc_loop_ok okres_pres loop_range_ok)

lemma call_proc_ok:
  assumes "ext_env E" and "st_ok C R P s I" and "npriv C P args"
  shows "okres (call_proc E sc n f args I) (kept R P s) C"
  using assms(2,3) unfolding call_proc_def
  by (cases f)
    (simp_all add: core_proc_ok logic_proc_ok loop_proc_ok b6b_proc_proc_ok b6b_exc_proc_try_ok okres_pres
      obj_proc_ok proc_proc_proc_ok list_proc_ok dict_proc_ok str_proc_ok math_proc_ok rand_proc_ok
      ext_env.ext_law [OF assms(1)])

section \<open>Statements\<close>

lemma args_loop_ok: "st_ok C R P s I \<Longrightarrow> okres (args_loop sc n stmt fa p res I) (kept R P s) C"
proof (induction n arbitrary: C p res I)
  case (Suc n)
  show ?case
    unfolding args_loop.simps
  proof (intro okres_option okres_Ret Suc.prems okres_bind_read okres_bind_lift okres_if)
    fix li a good I1
    assume a: "node_obj stmt li I = Some a" and run: "on_heap (b6b_as_str a) I = Some (good, I1)"
    note s1 = as_str_ok [OF run Suc.prems]
    show "st_ok C R P s I1" by (rule s1)
    have "npriv C P a" by (rule node_obj_npriv [OF a Suc.prems])
    from b6b_eval_ok [OF s1 this]
    show "okres (rbind (b6b_eval sc a I1) (\<lambda>res I.
              if res \<noteq> B6B_OK then Ret (False, res) I
              else
                rbind (lift_upd (upd_heap (b6b_list_add fa (t_ret (fg I))) I)) (\<lambda>_ I.
                rbind (lift_read I (node_next stmt li I)) (\<lambda>p I.
                  args_loop sc n stmt fa p res I)))) (kept R P s) C"
    proof (rule okres_seq)
      fix res C' I'
      assume s2: "st_ok C' R P s I'"
      show "okres (if res \<noteq> B6B_OK then Ret (False, res) I'
              else
                rbind (lift_upd (upd_heap (b6b_list_add fa (t_ret (fg I'))) I')) (\<lambda>_ I.
                rbind (lift_read I (node_next stmt li I)) (\<lambda>p I.
                  args_loop sc n stmt fa p res I))) (kept R P s) C'"
        by (intro okres_if okres_Ret okres_bind_upd okres_bind_read Suc.IH;
            (rule s2 ret_npriv list_add_ok_st | assumption)+)
    qed
  qed
qed simp

lemma trace_stmt_ok: "st_ok C R P s I \<Longrightarrow> pres C R P s (trace_stmt fa I)"
  unfolding trace_stmt_def
  by (rule pres_rules st_ok_fields [THEN iffD2] | assumption | erule as_str_ok)+

lemma fargs_npriv: "st_ok C R P (i, f # fs, fn, d) I \<Longrightarrow> npriv C P (fargs f)"
  by (frule st_ok_sched, erule st_ok_root) (auto simp: tst_def chain_def intro!: chain_root)

lemma reset_ret_ok:
  assumes ok: "st_ok C R P s I" and un: "upd_heap (b6b_unref (t_ret (fg I))) I = Some I1"
    and ref: "upd_heap (b6b_ref (i_null I1)) (set_ret (i_null I1) I1) = Some I2"
  shows "st_ok C R P s I2"
proof -
  have eq: "i_null I1 = i_null I" using un by (auto simp: upd_heap_def)
  from ref obtain I3 where r: "upd_heap (b6b_ref (i_null I)) I1 = Some I3" "I2 = set_ret (i_null I) I3"
    unfolding eq by (auto simp: upd_heap_def set_ret_def)
  have "npriv C P (i_null I)" by (rule st_ok_root [OF ok roots(2)])
  from replace_ret_ref_ok [OF un r(1) ok this] r(2) show ?thesis by simp
qed

lemma stmt_run_ok:
  assumes E: "ext_env E" and ok: "st_ok C R P (i, f # fs, fn, d) I"
  shows "okres (stmt_run E sc n stmt (fargs f) I) (kept R P (i, f # fs, fn, d)) C"
  unfolding stmt_run_def
proof (intro okres_bind_lift okres_if okres_Ret okres_bind_read)
  fix good I1 p
  assume "on_heap (b6b_as_list stmt) I = Some (good, I1)"
  from as_list_ok [OF this ok] show s1: "st_ok C R P (i, f # fs, fn, d) I1" .
  show "okres (rbind (args_loop sc n stmt (fargs f) p B6B_ERR I1) (\<lambda>(ok, res) I.
           if \<not> ok then Ret res I
           else rbind (lift (trace_stmt (fargs f) I)) (\<lambda>ok I.
             if \<not> ok then Ret res I
             else
               rbind (lift_upd (upd_heap (b6b_unref (t_ret (fg I))) I)) (\<lambda>_ I.
               rbind (lift_upd (upd_heap (b6b_ref (i_null I)) (set_ret (i_null I) I))) (\<lambda>_ I.
               rbind (lift_read I (Option.bind (items_at (fargs f) I) (\<lambda>its.
                 case its of [] \<Rightarrow> None | (_, a) # _ \<Rightarrow> map_option ob_proc (obj_at a I)))) (\<lambda>fp I.
                 call_proc E sc n fp (fargs f) I)))))) (kept R P (i, f # fs, fn, d)) C"
  proof (rule okres_seq [OF args_loop_ok [OF s1]],
      intro okres_prod2 okres_if okres_Ret okres_bind_lift okres_bind_upd okres_bind_read)
    fix D I2 good2 I3 I4 I5 fp
    assume s2: "st_ok D R P (i, f # fs, fn, d) I2"
    show "st_ok D R P (i, f # fs, fn, d) I2" by (rule s2)
    assume "trace_stmt (fargs f) I2 = Some (good2, I3)"
    from presD [OF trace_stmt_ok [OF s2] this] show s3: "st_ok D R P (i, f # fs, fn, d) I3" .
    assume "upd_heap (b6b_unref (t_ret (fg I3))) I3 = Some I4"
      "upd_heap (b6b_ref (i_null I4)) (set_ret (i_null I4) I4) = Some I5"
    from reset_ret_ok [OF s3 this] have s5: "st_ok D R P (i, f # fs, fn, d) I5" .
    show "okres (call_proc E sc n fp (fargs f) I5) (kept R P (i, f # fs, fn, d)) D"
      by (rule call_proc_ok [OF E s5 fargs_npriv [OF s5]])
  qed
qed

lemma stmt_call_body_ok:
  assumes E: "ext_env E" and ok: "st_ok C R P s I"
  shows "okres (stmt_call_body E sc n stmt I) (kept R P s) C"
  unfolding stmt_call_body_def
proof (intro okres_if okres_Ret ok okres_bind_lift)
  fix fo I1
  assume push: "b6b_frame_push I = Some (fo, I1)"
  note p = frame_push_ok [OF push ok]
  obtain i fs fn d where s: "s = (i, fs, fn, d)" by (cases s) auto
  have "fs \<noteq> []" using st_ok_thread [OF ok] st_ok_sched [OF ok] by (auto simp: s tst_def thread_ok_def)
  show "okres (case fo of
          None \<Rightarrow> b6b_on_res B6B_ERR I1
        | Some f \<Rightarrow>
            rbind (stmt_run E sc n stmt (fargs f) I1) (\<lambda>res I.
            rbind (lift_upd (b6b_frame_pop I)) (\<lambda>_ I. b6b_on_res res I))) (kept R P s) C"
  proof (cases fo)
    case None
    with p show ?thesis by (simp add: b6b_on_res_ok)
  next
    case (Some f)
    with p have "st_ok C R P (i, f # fs, fn, Suc d) I1" by (simp add: s)
    from stmt_run_ok [OF E this]
    have "okres (rbind (stmt_run E sc n stmt (fargs f) I1) (\<lambda>res I.
            rbind (lift_upd (b6b_frame_pop I)) (\<lambda>_ I. b6b_on_res res I))) (kept R P s) C"
    proof (rule okres_seq, intro okres_bind_upd b6b_on_res_ok)
      fix D I2 I3
      assume "st_ok D R P (i, f # fs, fn, Suc d) I2" "b6b_frame_pop I2 = Some I3"
      from frame_pop_ok [OF this(2,1) \<open>fs \<noteq> []\<close>] show "st_ok D R P s I3" by (simp add: s)
    qed
    with Some show ?thesis by simp
  qed
qed

end

text \<open>A statement called with any fuel.\<close>

sublocale ext_env \<subseteq> eval: stmt_caller "stmt_call E n" for n
proof (induction n)
  case 0
  show ?case by unfold_locales simp
next
  case (Suc n)
  show ?case
    by unfold_locales (simp add: stmt_caller.stmt_call_body_ok [OF Suc ext_env_axioms])
qed

end
