(* ===== verification/Run_Sched.thy ===== *)
theory Run_Sched
  imports Run_Eval
begin

text \<open>
  Whole programs: the start and the end of an interpreter, the routine of a thread, and the
  scheduler, which keeps a suspended computation for each thread that has been switched away
  from.  \<open>program_given_up\<close> says that a program that ends has given up every reference.
\<close>

section \<open>Starting\<close>

lemma hinv_empty: "hinv {} {#} empty_heap"
  by (simp add: hinv_def rc_ok_iff nodes_ok_def empty_heap_def hget_def heap_refs_def)

lemma argv_list_hinv:
  assumes "argv_list argv empty_heap = Some (args, h)"
  shows "hinv {} {#args#} h"
proof -
  obtain l h1 where new: "b6b_list_new empty_heap = (l, h1)" by fastforce
  with assms have "list_add_strs l argv h1 = Some h" "args = l" by (auto simp: argv_list_def)
  with list_add_strs_hinv b6b_list_new_hinv(1) [OF hinv_empty new] show ?thesis by blast
qed

lemma frame_set_args_hinv:
  assumes run: "b6b_frame_set_args f args I = Some (x, I')" and inv: "hinv P R (hp I)"
    and np: "args \<notin> P" "i_at I \<notin> P"
  shows "hinv P R (hp I') \<and> I' = I\<lparr>hp := hp I'\<rparr>"
proof -
  from run obtain ok1 h1 where r1: "b6b_as_list args (hp I) = Some (ok1, h1)"
    and c1: "(if \<not> ok1 then Some (False, I\<lparr>hp := h1\<rparr>)
     else do {
       (ok, I) \<leftarrow> on_heap (b6b_dict_set (locals f) (i_at (I\<lparr>hp := h1\<rparr>)) args) (I\<lparr>hp := h1\<rparr>);
       if \<not> ok then Some (False, I)
       else do {
         its \<leftarrow> items_at args I;
         on_heap (set_args_loop (locals f) args (first_in its) 0 (length its)) I
       }
     }) = Some (x, I')"
    by (auto simp: b6b_frame_set_args_def on_heap_def bind_Some)
  note i1 = b6b_as_list_hinv [OF inv r1]
  show ?thesis
  proof (cases ok1)
    case False
    with c1 i1 show ?thesis by auto
  next
    case True
    with c1 obtain ok2 h2 where r2: "b6b_dict_set (locals f) (i_at I) args h1 = Some (ok2, h2)"
      and c2: "(if \<not> ok2 then Some (False, I\<lparr>hp := h2\<rparr>)
       else do {
         its \<leftarrow> items_at args (I\<lparr>hp := h2\<rparr>);
         on_heap (set_args_loop (locals f) args (first_in its) 0 (length its)) (I\<lparr>hp := h2\<rparr>)
       }) = Some (x, I')"
      by (auto simp: on_heap_def bind_Some)
    have i2: "hinv P R h2" using np by (intro b6b_dict_set_hinv [OF i1 r2])
    show ?thesis
    proof (cases ok2)
      case False
      with c2 i2 show ?thesis by auto
    next
      case True
      with c2 show ?thesis by (auto simp: on_heap_def bind_Some dest: set_args_loop_hinv [OF _ i2])
    qed
  qed
qed

abbreviation ctx0 :: ctx where
  "ctx0 \<equiv> \<lparr>c_refs = {#}, c_priv = {}, c_thr = Map.empty, c_self = 0\<rparr>"

lemma interp_start_own:
  assumes run: "interp_start args opt now h = Some (True, I)" and inv: "hinv V B h"
    and np: "args \<notin> V" and own: "V \<subseteq> set_mset B"
  obtains f where "st_ok \<lparr>c_refs = B, c_priv = V, c_thr = Map.empty, c_self = 0\<rparr> {#} {} (0, [f], None, 1) I"
proof -
  let ?C = "\<lparr>c_refs = B, c_priv = V, c_thr = Map.empty, c_self = 0\<rparr>"
  obtain null h1 where n1: "b6b_str_copy [] h = (null, h1)" by fastforce
  obtain zero h2 where n2: "b6b_int_new 0 h1 = (zero, h2)" by fastforce
  obtain one h3 where n3: "b6b_int_new 1 h2 = (one, h3)" by fastforce
  obtain dot h4 where n4: "b6b_str_copy ''.'' h3 = (dot, h4)" by fastforce
  obtain at h5 where n5: "b6b_str_copy ''@'' h4 = (at, h5)" by fastforce
  obtain us h6 where n6: "b6b_str_copy ''_'' h5 = (us, h6)" by fastforce
  obtain gf h7 where n7: "b6b_frame_new h6 = (gf, h7)" by fastforce
  define I0 where "I0 = \<lparr>hp = h7, tq_before = [],
        fg = \<lparr>t_id = 0, t_curr = [], t_fn = None, t_ret = null, t_depth = 0,
              t_bg = False, t_fg = False, t_done = False, t_blocked = False\<rparr>,
        tq_after = [], global = gf, i_null = null, i_zero = zero, i_one = one, i_dot = dot,
        i_at = at, i_us = us, exiting = False, seed = now, qstep = 0,
        opts = opt AND B6B_OPT_NBF, next_tid = 1, err_out = []\<rparr>"
  from run n1 n2 n3 n4 n5 n6 n7 obtain I1 where set: "b6b_frame_set_args gf args I0 = Some (True, I1)"
    and cont: "(case b6b_frame_new (hp I1) of (f, h) \<Rightarrow> do {
       h \<leftarrow> b6b_ref null h;
       Some (True, I1\<lparr>hp := h,
         fg := \<lparr>t_id = 0, t_curr = [f], t_fn = None, t_ret = null, t_depth = 1,
               t_bg = False, t_fg = True, t_done = False, t_blocked = False\<rparr>\<rparr>) }) = Some (True, I)"
    unfolding interp_start_def I0_def [symmetric]
    by (auto simp: I0_def bind_Some split: prod.splits if_splits)
  obtain f h8 where n8: "b6b_frame_new (hp I1) = (f, h8)" by fastforce
  with cont obtain h9 where r9: "b6b_ref null h8 = Some h9"
    and I: "I = I1\<lparr>hp := h9, fg := \<lparr>t_id = 0, t_curr = [f], t_fn = None, t_ret = null, t_depth = 1,
               t_bg = False, t_fg = True, t_done = False, t_blocked = False\<rparr>\<rparr>"
    by (auto simp: bind_Some)
  note k1 = b6b_str_copy_hinv [OF inv n1]
  note k2 = b6b_int_new_hinv(1) [OF k1(1) n2]
  note k3 = b6b_int_new_hinv(1) [OF k2 n3]
  note k4 = b6b_str_copy_hinv(1) [OF k3 n4]
  note k5 = b6b_str_copy_hinv [OF k4 n5]
  note k6 = b6b_str_copy_hinv(1) [OF k5(1) n6]
  note k7 = b6b_frame_new_hinv [OF k6 n7]
  let ?R = "{#us, at, dot, one, zero, null#} + froots gf + B"
  have "hinv V ?R (hp I0)" using k7 by (simp add: I0_def ac_simps)
  from frame_set_args_hinv [OF set this np] k5(2)
  have i1: "hinv V ?R (hp I1)" and I1: "I1 = I0\<lparr>hp := hp I1\<rparr>" by (simp_all add: I0_def)
  from b6b_ref_hinv [OF b6b_frame_new_hinv [OF i1 n8] r9 k1(2)]
  have i9: "hinv V (add_mset null (?R + froots f)) h9" by simp
  have fields: "tq_before I1 = []" "tq_after I1 = []" "global I1 = gf" "i_null I1 = null" "i_zero I1 = zero"
    "i_one I1 = one" "i_dot I1 = dot" "i_at I1 = at" "i_us I1 = us" "next_tid I1 = 1"
    by (subst I1, simp add: I0_def)+
  have thr: "threads I = [fg I]" by (simp add: threads_def I fields)
  have g: "groots I = froots gf + {#null, zero, one, dot, at, us#}" by (simp add: groots_def I fields)
  have "iroots I = add_mset null ({#us, at, dot, one, zero, null#} + froots gf + froots f)"
    unfolding iroots_def g thr by (simp add: troots_def I add_mset_commute)
  with i9 have i9': "hinv V (B + iroots I) (hp I)" by (simp add: I ac_simps)
  have tid: "next_tid I = 1" by (simp add: I fields)
  have "world0 (with_own ?C {#} {} (0, [f], None, 1)) I"
  proof (rule world_intro)
    show "hinv (c_priv (with_own ?C {#} {} (0, [f], None, 1)))
        (c_refs (with_own ?C {#} {} (0, [f], None, 1)) + iroots I) (hp I)"
      using i9' by simp
    show "c_priv (with_own ?C {#} {} (0, [f], None, 1)) \<subseteq> set_mset (c_refs (with_own ?C {#} {} (0, [f], None, 1)))"
      using own by simp
    show "sched_ok I"
      using thr by (simp add: sched_ok_def tid thread_ok_def B6B_MAX_NESTING_def threads_def)
        (simp add: I fields)
  next
    fix i x
    assume "c_thr (with_own ?C {#} {} (0, [f], None, 1)) i = Some x"
    then show "fst x = i \<and> (\<exists>t\<in>set (threads I). tst t = x \<and> \<not> t_done t)"
      unfolding thr by (auto simp: I tst_def split: if_splits)
  next
    fix t
    assume "t \<in> set (threads I)" "c_thr (with_own ?C {#} {} (0, [f], None, 1)) (t_id t) = None"
    then show "t_depth t = 1 \<and> t_id t \<noteq> 0" unfolding thr by (auto simp: I)
  qed
  then have "st_ok ?C {#} {} (0, [f], None, 1) I"
    using own by (simp add: st_ok_def world_def I tst_def)
  then show thesis by (rule that)
qed

lemma interp_start_ok:
  assumes run: "interp_start args opt now h = Some (True, I)" and inv: "hinv {} {#args#} h"
  obtains f where "st_ok ctx0 {#args#} {} (0, [f], None, 1) I"
  by (rule interp_start_own [OF run inv]) (simp_all add: st_ok_def with_own_def)

section \<open>The tables\<close>

lemma new_private:
  assumes "new_heap (b6b_new init) I = (a, I')" and ok: "st_ok C R P s I"
    and "ob_refc (init new_obj) = 1" "refs_of (init new_obj) = []" "ob_l (init new_obj) = No_list"
  shows "st_ok C (add_mset a R) (insert a P) s I'" and "npriv C P a"
proof -
  from assms(1) obtain h where h: "b6b_new init (hp I) = (a, h)" "I' = I\<lparr>hp := h\<rparr>"
    by (auto simp: new_heap_def split: prod.splits)
  note n = b6b_new_hinv [OF st_ok_hinv [OF ok] h(1) assms(3,4)]
  have "hinv (c_priv C \<union> insert a P) (c_refs C + add_mset a R + iroots I) h" using n(4) assms(5) by simp
  then show "st_ok C (add_mset a R) (insert a P) s I'"
    unfolding h(2) using st_ok_own [OF ok] by (intro st_ok_heap [OF ok]) auto
  show "npriv C P a" using n(2) assms(5) by (simp add: npriv_def)
qed

lemma set_obj_ok:
  assumes run: "upd_heap (hupd a f) I = Some I'" and ok: "st_ok C R P s I"
    and f: "\<And>ob. refs_of (f ob) = refs_of ob \<and> ob_refc (f ob) = ob_refc ob \<and> ob_l (f ob) = ob_l ob"
  shows "st_ok C R P s I'"
proof (rule st_ok_upd_heap [OF run ok _ st_ok_own [OF ok]])
  fix h
  assume "hupd a f (hp I) = Some h"
  then obtain ob where "hget a (hp I) = Some ob" "h = hset a (f ob) (hp I)" by (auto simp: hupd_Some)
  then show "hinv (c_priv C \<union> P) (c_refs C + R + iroots I) h"
    using f [of ob] by (auto intro: hinv_hset_same [OF st_ok_hinv [OF ok]])
qed

lemma str_is_new: "b6b_str_copy t = b6b_new (\<lambda>ob. ob\<lparr>ob_s := Some t\<rparr>)"
  by (rule ext) (simp add: b6b_str_copy_def b6b_str_new_def)

lemma int_is_new: "b6b_int_new i = b6b_new (\<lambda>ob. ob\<lparr>ob_i := Some i\<rparr>)"
  by (rule ext) (simp add: b6b_int_new_def)

lemma new_ext_obj_ok:
  assumes ok: "st_ok C R P s I"
  shows "pres C R P s (b6b_interp_new_ext_obj eo I)"
  unfolding b6b_interp_new_ext_obj_def
proof ((rule pres_prod pres_bind2 pres_bind)+)
  fix name val prc q k I1 v I2 I3 good I4
  assume nk: "new_heap (b6b_str_copy name) I = (k, I1)"
    and nv: "new_heap (case val of Ext_str s \<Rightarrow> b6b_str_copy s | Ext_int i \<Rightarrow> b6b_int_new i) I1 = (v, I2)"
    and set: "(case prc of None \<Rightarrow> Some I2 | Some f \<Rightarrow> upd_heap (hupd v (\<lambda>ob. ob\<lparr>ob_proc := f\<rparr>)) I2) = Some I3"
    and glob: "b6b_global k v I3 = Some (good, I4)"
  have k: "st_ok C (add_mset k R) (insert k P) s I1" "npriv C P k"
    using new_private [OF nk [unfolded str_is_new] ok] by (simp_all add: new_obj_def refs_of_def)
  have v: "st_ok C (add_mset v (add_mset k R)) (insert v (insert k P)) s I2" "npriv C (insert k P) v"
  proof (atomize (full), cases val)
    case (Ext_str t)
    with nv have "new_heap (b6b_new (\<lambda>ob. ob\<lparr>ob_s := Some t\<rparr>)) I1 = (v, I2)" by (simp add: str_is_new)
    from new_private [OF this k(1)]
    show "st_ok C (add_mset v (add_mset k R)) (insert v (insert k P)) s I2 \<and> npriv C (insert k P) v"
      by (simp add: new_obj_def refs_of_def)
  next
    case (Ext_int i)
    with nv have "new_heap (b6b_new (\<lambda>ob. ob\<lparr>ob_i := Some i\<rparr>)) I1 = (v, I2)" by (simp add: int_is_new)
    from new_private [OF this k(1)]
    show "st_ok C (add_mset v (add_mset k R)) (insert v (insert k P)) s I2 \<and> npriv C (insert k P) v"
      by (simp add: new_obj_def refs_of_def)
  qed
  have s3: "st_ok C (add_mset v (add_mset k R)) (insert v (insert k P)) s I3"
  proof (cases prc)
    case None
    with set v(1) show ?thesis by simp
  next
    case (Some f)
    with set have "upd_heap (hupd v (\<lambda>ob. ob\<lparr>ob_proc := f\<rparr>)) I2 = Some I3" by simp
    then show ?thesis by (rule set_obj_ok [OF _ v(1)]) (simp add: refs_of_def)
  qed
  have np: "k \<notin> P" "v \<notin> P" "v \<noteq> k" "npriv C P v" using k(2) v(2) by (simp_all add: npriv_def)
  show "pres C R P s (if \<not> good then do {
          I \<leftarrow> upd_heap (b6b_destroy v) I4;
          I \<leftarrow> upd_heap (b6b_destroy k) I;
          Some (False, I)
        } else do {
          I \<leftarrow> upd_heap (b6b_unref v) I4;
          I \<leftarrow> upd_heap (b6b_unref k) I;
          Some (True, I)
        })"
  proof (cases good)
    case False
    with glob have "on_heap (b6b_dict_set (locals (global I3)) k v) I3 = Some (False, I4)" by (simp add: b6b_global_def)
    from dict_set_fail_ok [OF this s3] have s4: "st_ok C (add_mset v (add_mset k R)) (insert v (insert k P)) s I4" .
    have "pres C R P s (do { I \<leftarrow> upd_heap (b6b_destroy v) I4; I \<leftarrow> upd_heap (b6b_destroy k) I; Some (False, I) })"
    proof (intro pres_bind pres_Some)
      fix I5 I6
      assume r: "upd_heap (b6b_destroy v) I4 = Some I5" "upd_heap (b6b_destroy k) I5 = Some I6"
      have "st_ok C (add_mset k R) (insert k P) s I5" by (rule destroy_private_ok [OF r(1) s4]) (use np in simp)
      then show "st_ok C R P s I6" by (rule destroy_private_ok [OF r(2) _ np(1)])
    qed
    with False show ?thesis by simp
  next
    case True
    have "st_ok C (add_mset v (add_mset k R)) P s I3" by (rule make_public [OF s3]) auto
    from b6b_global_ok [OF glob this k(2) np(4)] have s4: "st_ok C (add_mset v (add_mset k R)) P s I4" .
    have "pres C R P s (do { I \<leftarrow> upd_heap (b6b_unref v) I4; I \<leftarrow> upd_heap (b6b_unref k) I; Some (True, I) })"
      by (intro pres_bind pres_Some) (rule unref_ok_st [OF _ unref_ok_st [OF _ s4 np(4)] k(2)])
    with True show ?thesis by simp
  qed
qed

lemma new_ext_objs_ok: "st_ok C R P s I \<Longrightarrow> pres C R P s (new_ext_objs eos I)"
proof (induction eos arbitrary: I)
  case (Cons eo eos)
  show ?case
    unfolding new_ext_objs.simps
    by (intro pres_bind2 pres_if pres_Some Cons.IH; erule presD [OF new_ext_obj_ok [OF Cons.prems]])
qed (simp add: pres_def)

context stmt_caller begin

lemma run_inits_ok: "st_ok C R P s I \<Longrightarrow> okres (run_inits sc n ts I) (kept R P s) C"
proof (induction ts arbitrary: C I)
  case (Cons t ts)
  show ?case
    unfolding run_inits.simps
    by (rule okres_seq [OF b6b_call_copy_ok [OF Cons.prems]]) (intro okres_if okres_Ret Cons.IH)
qed simp

end

context ext_env begin

lemma interp_new_ok:
  assumes ok: "st_ok C R P s I"
  shows "okres (b6b_interp_new E n exts inits opt I) (kept R P s) C"
  unfolding b6b_interp_new_def
proof (intro okres_bind_lift okres_if okres_Ret)
  fix good I1
  assume "new_ext_objs exts I = Some (good, I1)"
  from presD [OF new_ext_objs_ok [OF ok] this] show s1: "st_ok C R P s I1" .
  show "okres (rbind (run_inits (stmt_call E n) n inits I1) (\<lambda>ok I.
      if \<not> ok then Ret False I else Ret True (I\<lparr>opts := opt\<rparr>))) (kept R P s) C"
    by (rule okres_seq [OF eval.run_inits_ok [OF s1]]) (auto simp: st_ok_fields)
qed

section \<open>The routine of a thread\<close>

text \<open>A thread that is done owns nothing, and is not switched to again.\<close>

lemma set_done_world:
  assumes ok: "st_ok C {#} {} s I" and one: "snd (snd (snd s)) = 1" "fst s \<noteq> 0"
  shows "world0 C (I\<lparr>fg := (fg I)\<lparr>t_done := True\<rparr>\<rparr>)" (is "world0 C ?I")
proof (rule world_intro)
  note w = st_ok_world0 [OF ok]
  have s: "tst (fg I) = s" and so: "sched_ok I" using st_ok_sched [OF ok] by simp_all
  then have t: "t_id (fg I) = fst s" "t_depth (fg I) = 1" using one by (auto simp: tst_def)
  have none: "c_thr C (fst s) = None" and c: "c_priv C \<subseteq> set_mset (c_refs C)" using ok by (simp_all add: st_ok_def)
  have "iroots ?I = iroots I" by (simp add: iroots_def groots_def threads_def troots_def)
  then show "hinv (c_priv C) (c_refs C + iroots ?I) (hp ?I)" using world_parts(1) [OF w] by simp
  show "c_priv C \<subseteq> set_mset (c_refs C)" by (rule c)
  have "thread_ok (next_tid I) ((fg I)\<lparr>t_done := True\<rparr>)"
    using st_ok_thread [OF ok] t one by (simp add: thread_ok_def split: if_splits)
  then show "sched_ok ?I"
    using so by (cases "tq_before I") (auto simp: sched_ok_def threads_def)
  fix i x
  assume x: "c_thr C i = Some x"
  with none have i: "i \<noteq> fst s" by auto
  with x have "c_thr (with_own C {#} {} s) i = Some x" by simp
  note th = world_thr [OF w this]
  from th(2) obtain u where u: "u \<in> set (threads I)" "tst u = x" "\<not> t_done u" by (elim bexE conjE)
  have "u \<noteq> fg I" using u(2) th(1) i t(1) by (auto simp: tst_def)
  with u(1) have "u \<in> set (threads ?I)" by (auto simp: threads_def)
  with u th(1) show "fst x = i \<and> (\<exists>t\<in>set (threads ?I). tst t = x \<and> \<not> t_done t)" by (intro conjI bexI [of _ u]) simp_all
next
  note w = st_ok_world0 [OF ok]
  have "tst (fg I) = s" using st_ok_sched [OF ok] by simp
  then have t: "t_id (fg I) = fst s" "t_depth (fg I) = 1" using one by (auto simp: tst_def)
  fix u
  assume u: "u \<in> set (threads ?I)" "c_thr C (t_id u) = None"
  show "t_depth u = 1 \<and> t_id u \<noteq> 0"
  proof (cases "t_id u = fst s")
    case False
    with u have "u \<in> set (threads I)" "c_thr (with_own C {#} {} s) (t_id u) = None" using t by (auto simp: threads_def)
    then show ?thesis by (rule world_fresh [OF w])
  next
    case True
    have "distinct (map t_id (threads I))" using st_ok_sched [OF ok] by (simp add: sched_ok_def)
    then have "u = (fg I)\<lparr>t_done := True\<rparr>" using u(1) True t(1) by (auto simp: threads_def) (metis image_eqI)+
    with t one show ?thesis by simp
  qed
qed

lemma thread_routine_ok:
  assumes ok: "st_ok C {#} {} s I" and one: "snd (snd (snd s)) = 1" "fst s \<noteq> 0"
  shows "okres (b6b_thread_routine E n I) Q C"
  unfolding b6b_thread_routine_def
proof (intro okres_option okres_Undef okres_seq [OF eval.b6b_call_ok [OF ok]])
  fix D J
  assume ok: "st_ok D {#} {} s J"
  let ?J = "J\<lparr>fg := (fg J)\<lparr>t_done := True\<rparr>\<rparr>"
  have undef: "okres (rbind r (\<lambda>_ _. Undef)) Q D'" if "okres r (\<lambda>_ _ _. True) D'" for r :: "bool res" and D'
    using that by (rule okres_bind) simp
  show "okres (rbind (b6b_yield ?J) (\<lambda>_ _. Undef)) Q D"
  proof (rule undef, cases "next_thread ?J")
    case None
    then show "okres (b6b_yield ?J) (\<lambda>_ _ _. True) D" by (simp add: b6b_yield_def b6b_wait_def lift_upd_def)
  next
    case (Some J')
    from next_thread_world [OF this set_done_world [OF ok one]] have "world D J'" .
    moreover have "\<forall>C' I'. okres (rbind (lift_upd (b6b_wait I')) (\<lambda>_ I. Ret True I)) (\<lambda>_ _ _. True) C'"
      by (auto intro: okres_bind_upd)
    ultimately show "okres (b6b_yield ?J) (\<lambda>_ _ _. True) D" unfolding b6b_yield_def Some by simp
  qed
qed

end

context ext_env begin

lemmas eval_call = eval.call_law

end

section \<open>The end of an interpreter\<close>

lemma wait_alone:
  assumes none: "next_thread I = None" and ok: "st_ok C R P s I" and run: "b6b_wait I = Some I'"
  shows "threads I' = [fg I']"
proof -
  have "list_all (\<lambda>t. \<not> pending t) (tq_before I @ tq_after I)"
    using none by (auto simp: next_thread_def split_at_None split: option.splits)
  moreover have "list_all t_bg (tq_before I @ tq_after I)"
    using st_ok_sched [OF ok] by (auto simp: sched_ok_def list_all_iff)
  ultimately have "list_all t_done (tq_before I @ tq_after I)" by (auto simp: list_all_iff pending_def)
  then have "filter (\<lambda>t. \<not> t_done t) (tq_before I) = []" "filter (\<lambda>t. \<not> t_done t) (tq_after I) = []"
    by (auto simp: list_all_iff filter_empty_conv)
  then show ?thesis using run by (auto simp: b6b_wait_def threads_def bind_Some split: if_splits)
qed

lemma yield_alone:
  assumes ok: "st_ok C R P s I"
  shows "okres (b6b_yield I) (\<lambda>more C I. st_ok C R P s I \<and> (more \<or> threads I = [fg I])) C"
proof (cases "next_thread I")
  case None
  then show ?thesis
    using wait_ok [OF _ ok] wait_alone [OF None ok] by (auto simp: b6b_yield_def intro!: okres_bind_upd)
next
  case (Some I')
  have resume: "okres (rbind (lift_upd (b6b_wait J)) (\<lambda>_ I. Ret True I))
      (\<lambda>more C I. st_ok C R P s I \<and> (more \<or> threads I = [fg I])) D" if "st_ok D R P s J" for D J
    using that by (auto intro!: okres_bind_upd wait_ok)
  have "world (with_own C R P s) I'" by (rule next_thread_world [OF Some st_ok_world0 [OF ok]])
  moreover have "P \<subseteq> set_mset R" "fst s = c_self C" using ok by (simp_all add: st_ok_def)
  ultimately show ?thesis
    using resume unfolding b6b_yield_def Some option.case okres.simps by blast
qed

lemma yield_all_ok:
  "st_ok C R P s I \<Longrightarrow> okres (yield_all n I) (\<lambda>_ C I. st_ok C R P s I \<and> threads I = [fg I]) C"
proof (induction n arbitrary: C I)
  case (Suc n)
  show ?case
    unfolding yield_all.simps
    by (rule okres_bind [OF yield_alone [OF Suc.prems]]) (auto intro: Suc.IH)
qed simp

text \<open>The last thread and what the interpreter owns.\<close>

lemma interp_free_hinv:
  assumes run: "interp_free I h = Some h'" and inv: "hinv P (R + groots I) h" and disj: "set_mset (groots I) \<inter> P = {}"
  shows "hinv P R h'"
proof -
  from run obtain h1 h2 h3 h4 h5 h6 where r: "b6b_frame_destroy (global I) h = Some h1"
    "b6b_unref (i_us I) h1 = Some h2" "b6b_unref (i_at I) h2 = Some h3" "b6b_unref (i_dot I) h3 = Some h4"
    "b6b_unref (i_one I) h4 = Some h5" "b6b_unref (i_zero I) h5 = Some h6" "b6b_unref (i_null I) h6 = Some h'"
    by (auto simp: interp_free_def bind_Some)
  let ?S = "{#i_null I, i_zero I, i_one I, i_dot I, i_at I, i_us I#}"
  have d: "set_mset (froots (global I)) \<inter> P = {}" "set_mset ?S \<inter> P = {}" using disj by (auto simp: groots_def)
  have "hinv P ((R + ?S) + froots (global I)) h" using inv by (simp add: groots_def ac_simps)
  from b6b_frame_destroy_hinv [OF this r(1) d(1)]
  have "hinv P (add_mset (i_us I) (add_mset (i_at I) (add_mset (i_dot I) (add_mset (i_one I)
      (add_mset (i_zero I) (add_mset (i_null I) R)))))) h1"
    by (simp add: add_mset_commute)
  from b6b_unref_hinv [OF b6b_unref_hinv [OF b6b_unref_hinv [OF b6b_unref_hinv [OF b6b_unref_hinv
      [OF b6b_unref_hinv [OF this r(2)] r(3)] r(4)] r(5)] r(6)] r(7)] d(2)
  show ?thesis by simp
qed

lemma alone_ctx:
  assumes ok: "st_ok C R P s I" and one: "threads I = [fg I]"
  shows "c_thr C = Map.empty"
proof
  fix i
  show "c_thr C i = None"
  proof (cases "i = fst s")
    case True
    with ok show ?thesis by (simp add: st_ok_def)
  next
    case False
    show ?thesis
    proof (rule ccontr)
      assume "c_thr C i \<noteq> None"
      then obtain x where "c_thr (with_own C R P s) i = Some x" using False by auto
      from world_thr [OF st_ok_world0 [OF ok] this] one have "fst x = i" "tst (fg I) = x" by auto
      with st_ok_sched [OF ok] False show False by auto
    qed
  qed
qed

text \<open>What is left is what the suspended computations own, and there are none.\<close>

definition all_given_up :: "addr multiset \<Rightarrow> ctx \<Rightarrow> heap \<Rightarrow> bool" where
  "all_given_up R C h \<longleftrightarrow> c_thr C = Map.empty \<and> hinv (c_priv C) (c_refs C + R) h"

lemma interp_destroy_ok:
  assumes ok: "st_ok C R {} (i, [f], fn, d) I"
  shows "okres (b6b_interp_destroy n I) (\<lambda>h C I. all_given_up R C h) C"
  unfolding b6b_interp_destroy_def
proof (rule okres_bind [OF yield_all_ok])
  show "st_ok C R {} (i, [f], fn, d) (I\<lparr>exiting := True\<rparr>)" using ok by (simp add: st_ok_fields)
  fix u D J
  assume "st_ok D R {} (i, [f], fn, d) J \<and> threads J = [fg J]"
  then have ok: "st_ok D R {} (i, [f], fn, d) J" and one: "threads J = [fg J]" by simp_all
  have disj: "set_mset (iroots J) \<inter> c_priv D = {}" using st_ok_root [OF ok] by (auto simp: npriv_def)
  have roots: "iroots J = groots J + troots (fg J)" by (simp add: iroots_def one)
  show "okres (lift_read J (do {
         h \<leftarrow> b6b_thread_destroy (hd (threads J)) (hp J);
         interp_free J h
       })) (\<lambda>h C I. all_given_up R C h) D"
  proof (rule okres_lift_read)
    fix h'
    assume "(do { h \<leftarrow> b6b_thread_destroy (hd (threads J)) (hp J); interp_free J h }) = Some h'"
    then obtain h where r: "b6b_thread_destroy (fg J) (hp J) = Some h" "interp_free J h = Some h'"
      by (auto simp: bind_Some one)
    have "hinv (c_priv D) (c_refs D + R + groots J + troots (fg J)) (hp J)"
      using st_ok_hinv [OF ok] by (simp add: roots ac_simps)
    moreover have "t_curr (fg J) = [f]" using st_ok_sched [OF ok] by (auto simp: tst_def)
    ultimately have "hinv (c_priv D) (c_refs D + R + groots J) h"
      using disj roots by (intro thread_destroy_hinv [OF _ r(1)]) auto
    from interp_free_hinv [OF r(2) this] disj roots have "hinv (c_priv D) (c_refs D + R) h'" by auto
    with alone_ctx [OF ok one] show "all_given_up R D h'" by (simp add: all_given_up_def)
  qed
qed

section \<open>The main program\<close>

definition exit_ok :: "outcome \<Rightarrow> ctx \<Rightarrow> interp \<Rightarrow> bool" where
  "exit_ok out C I \<longleftrightarrow> (case out of Exit_with _ h \<Rightarrow> all_given_up {#} C h | Start_failed _ \<Rightarrow> True)"

lemma exit_status_ok: "st_ok C R P s I \<Longrightarrow> pres C R P s (exit_status res I)"
  unfolding exit_status_def by (rule pres_rules | assumption | erule as_int_ok)+

context ext_env begin

lemma run_to_exit_ok:
  assumes "okres m (kept {#} {} (i, [f], fn, d)) C"
  shows "okres (run_to_exit n m) exit_ok C"
  unfolding run_to_exit_def
proof (rule okres_seq [OF assms])
  fix res D J
  assume ok: "st_ok D {#} {} (i, [f], fn, d) J"
  show "okres (rbind (lift (exit_status res J)) (\<lambda>status I.
     rbind (b6b_interp_destroy n I) (\<lambda>h I. Ret (Exit_with status h) I))) exit_ok D"
  proof (rule okres_bind_lift)
    fix status J1
    assume "exit_status res J = Some (status, J1)"
    from presD [OF exit_status_ok [OF ok] this] have "st_ok D {#} {} (i, [f], fn, d) J1" .
    from interp_destroy_ok [OF this]
    show "okres (rbind (b6b_interp_destroy n J1) (\<lambda>h I. Ret (Exit_with status h) I)) exit_ok D"
      by (rule okres_bind) (simp add: exit_ok_def)
  qed
qed

lemma run_script_ok:
  assumes ok: "st_ok C {#} {} (i, [f], fn, d) I"
  shows "okres (run_script E n script I) exit_ok C"
  unfolding run_script_def
proof (rule run_to_exit_ok)
  show "okres (if has_opt B6B_OPT_CMD I then b6b_call_copy (stmt_call E n) n script I
      else b6b_source E (stmt_call E n) n script I) (kept {#} {} (i, [f], fn, d)) C"
    by (intro okres_if eval.b6b_call_copy_ok eval.b6b_source_ok ok)
qed

lemma with_interp_ok:
  assumes run: "\<And>C f I. st_ok C {#} {} (0, [f], None, 1) I \<Longrightarrow> okres (run I) exit_ok C"
  shows "okres (with_interp E n exts inits opt now argv run) exit_ok ctx0"
proof (cases "argv_list argv empty_heap")
  case None
  then show ?thesis by (simp add: with_interp_def)
next
  case (Some q)
  obtain args h where q: "q = (args, h)" by (cases q)
  note inv = argv_list_hinv [OF Some [unfolded q]]
  have "okres (rbind (lift (interp_start args opt now h)) (\<lambda>ok I.
            if \<not> ok then
              rbind (lift_read I (Option.bind (interp_free I (hp I)) (b6b_destroy args))) (\<lambda>h I. Ret (Start_failed h) I)
            else rbind (b6b_interp_new E n exts inits opt I) (\<lambda>ok I.
              if \<not> ok then
                rbind (b6b_interp_destroy n I) (\<lambda>h I.
                rbind (lift_read I (b6b_destroy args h)) (\<lambda>h I. Ret (Start_failed h) I))
              else
                rbind (lift_upd (upd_heap (b6b_unref args) I)) (\<lambda>_ I. run I)))) exit_ok ctx0"
  proof (rule okres_bind_lift, rule okres_if)
    fix good I
    show "okres (rbind (lift_read I (Option.bind (interp_free I (hp I)) (b6b_destroy args)))
        (\<lambda>h I. Ret (Start_failed h) I)) exit_ok ctx0"
      by (rule okres_bind_read) (simp add: exit_ok_def)
    assume "interp_start args opt now h = Some (good, I)" "\<not> \<not> good"
    then have start: "interp_start args opt now h = Some (True, I)" by simp
    from interp_start_ok [OF start inv] obtain f where s: "st_ok ctx0 {#args#} {} (0, [f], None, 1) I" .
    show "okres (rbind (b6b_interp_new E n exts inits opt I) (\<lambda>ok I.
              if \<not> ok then
                rbind (b6b_interp_destroy n I) (\<lambda>h I.
                rbind (lift_read I (b6b_destroy args h)) (\<lambda>h I. Ret (Start_failed h) I))
              else
                rbind (lift_upd (upd_heap (b6b_unref args) I)) (\<lambda>_ I. run I))) exit_ok ctx0"
    proof (rule okres_seq [OF interp_new_ok [OF s]], rule okres_if)
      fix good D J
      assume s: "st_ok D {#args#} {} (0, [f], None, 1) J"
      show "okres (rbind (b6b_interp_destroy n J) (\<lambda>h I.
          rbind (lift_read I (b6b_destroy args h)) (\<lambda>h I. Ret (Start_failed h) I))) exit_ok D"
        by (rule okres_bind [OF interp_destroy_ok [OF s]], rule okres_bind_read) (simp add: exit_ok_def)
      show "okres (rbind (lift_upd (upd_heap (b6b_unref args) J)) (\<lambda>_ I. run I)) exit_ok D"
      proof (rule okres_bind_upd)
        fix J1
        assume "upd_heap (b6b_unref args) J = Some J1"
        from unref_ok_st [OF this s owned_npriv [OF s]] show "okres (run J1) exit_ok D"
          by (intro run) simp
      qed
    qed
  qed
  then show ?thesis by (simp add: with_interp_def Some q)
qed

lemma run_shell_ok:
  assumes "st_ok C {#} {} (i, [f], fn, d) I"
  shows "okres (run_shell E n I) exit_ok C"
  unfolding run_shell_def by (rule run_to_exit_ok) (rule eval.b6b_call_copy_ok [OF assms])

lemma main_ok: "okres (b6b_main E n exts inits opt now argv rest) exit_ok ctx0"
  unfolding b6b_main_def by (intro okres_if with_interp_ok run_script_ok run_shell_ok)

end

section \<open>The scheduler\<close>

text \<open>A suspended computation: its thread, and what it owns.\<close>

type_synonym susp = "nat \<times> addr multiset \<times> addr set \<times> tst"

abbreviation susp_id :: "susp \<Rightarrow> nat" where "susp_id \<equiv> fst"

fun susp_refs :: "susp \<Rightarrow> addr multiset" where "susp_refs (i, R, P, s) = R"
fun susp_priv :: "susp \<Rightarrow> addr set" where "susp_priv (i, R, P, s) = P"
fun susp_thr :: "susp \<Rightarrow> nat \<times> tst" where "susp_thr (i, R, P, s) = (i, s)"

text \<open>
  What is owned outside of these threads: the pointers and the private objects of a base.
\<close>

type_synonym base = "addr multiset \<times> addr set"

abbreviation no_base :: base where "no_base \<equiv> ({#}, {})"

definition ctx_of :: "base \<Rightarrow> susp list \<Rightarrow> nat \<Rightarrow> ctx" where
  "ctx_of b S i = \<lparr>c_refs = fst b + sum_list (map susp_refs S), c_priv = snd b \<union> \<Union> (susp_priv ` set S),
     c_thr = map_of (map susp_thr S), c_self = i\<rparr>"

definition susp_ok :: "('a \<Rightarrow> ctx \<Rightarrow> interp \<Rightarrow> bool) \<Rightarrow> (nat \<rightharpoonup> (interp \<Rightarrow> 'a res)) \<Rightarrow> susp \<Rightarrow> bool" where
  "susp_ok Q ks x \<longleftrightarrow> (case x of (i, R, P, s) \<Rightarrow> fst s = i \<and> P \<subseteq> set_mset R
     \<and> (\<exists>k. ks i = Some k \<and> (\<forall>C I. st_ok C R P s I \<longrightarrow> okres (k I) Q C)))"

definition sched_inv :: "base \<Rightarrow> ('a \<Rightarrow> ctx \<Rightarrow> interp \<Rightarrow> bool) \<Rightarrow> (nat \<rightharpoonup> (interp \<Rightarrow> 'a res)) \<Rightarrow> nat \<Rightarrow> susp list \<Rightarrow> bool" where
  "sched_inv b Q ks cur S \<longleftrightarrow> snd b \<subseteq> set_mset (fst b) \<and> distinct (map susp_id S) \<and> cur \<notin> susp_id ` set S \<and> list_all (susp_ok Q ks) S
     \<and> (\<forall>i k. ks i = Some k \<longrightarrow> i = cur \<or> i \<in> susp_id ` set S \<or> (\<forall>C I. okres (k I) Q C))"

lemma map_of_split: "t \<notin> fst ` set A \<Longrightarrow> map_of (A @ (t, s) # B) = (map_of (A @ B))(t \<mapsto> s)"
  by (induction A) (auto simp: fun_upd_twist)

lemma susp_thr_fst: "fst (susp_thr x) = susp_id x"
  by (cases x) simp

lemma ctx_of_split:
  assumes "t \<notin> susp_id ` set A"
  shows "c_refs (ctx_of b (A @ (t, R, P, s) # B) i) = c_refs (ctx_of b (A @ B) j) + R"
    and "c_priv (ctx_of b (A @ (t, R, P, s) # B) i) = c_priv (ctx_of b (A @ B) j) \<union> P"
    and "c_thr (ctx_of b (A @ (t, R, P, s) # B) i) = (c_thr (ctx_of b (A @ B) j))(t \<mapsto> s)"
proof -
  have "t \<notin> fst ` set (map susp_thr A)" using assms by (auto simp: susp_thr_fst image_iff)
  from map_of_split [OF this] show "c_thr (ctx_of b (A @ (t, R, P, s) # B) i) = (c_thr (ctx_of b (A @ B) j))(t \<mapsto> s)"
    by (simp add: ctx_of_def)
qed (auto simp: ctx_of_def ac_simps)

lemma ctx_of_none: "t \<notin> susp_id ` set S \<Longrightarrow> c_thr (ctx_of b S i) t = None"
  by (auto simp: ctx_of_def map_of_eq_None_iff susp_thr_fst image_iff)

lemma world_ctx:
  assumes "world0 D I" and "c_refs D' = c_refs D" "c_priv D' = c_priv D" "c_thr D' = c_thr D"
  shows "world0 D' I"
  using assms(1) unfolding world0_def assms(2-4) .

lemma susp_own: "list_all (susp_ok Q ks) S \<Longrightarrow> snd b \<subseteq> set_mset (fst b) \<Longrightarrow> c_priv (ctx_of b S i) \<subseteq> set_mset (c_refs (ctx_of b S i))"
  by (induction S) (auto simp: ctx_of_def susp_ok_def)

text \<open>The thread switched to is where it was when it was switched away from.\<close>

lemma resume_ok:
  assumes w: "world (ctx_of b (A @ (t, R, P, s) # B) j) I" and S: "list_all (susp_ok Q ks) (A @ (t, R, P, s) # B)"
    and d: "distinct (map susp_id (A @ (t, R, P, s) # B))" and t: "t_id (fg I) = t" and b: "snd b \<subseteq> set_mset (fst b)"
  shows "st_ok (ctx_of b (A @ B) t) R P s I"
proof -
  let ?C = "ctx_of b (A @ B) t"
  have tA: "t \<notin> susp_id ` set A" "t \<notin> susp_id ` set (A @ B)" using d by auto
  note eq = ctx_of_split [OF tA(1), of b R P s B j t]
  from S have s: "fst s = t" "P \<subseteq> set_mset R" by (auto simp: susp_ok_def)
  have w0: "world0 (ctx_of b (A @ (t, R, P, s) # B) j) I" using w by (simp add: world_def)
  have "world0 (with_own ?C R P s) I"
    by (rule world_ctx [OF w0]) (simp_all only: with_own_simps eq s)
  moreover have "tst (fg I) = s"
  proof -
    have "c_thr (ctx_of b (A @ (t, R, P, s) # B) j) t = Some s" by (simp only: eq fun_upd_same)
    from world_thr(2) [OF w0 this] obtain u where u: "u \<in> set (threads I)" "tst u = s" by (elim bexE conjE)
    then have "t_id u = t_id (fg I)" using s t by (auto simp: tst_def)
    moreover have "distinct (map t_id (threads I))" using world_parts(2) [OF w0] by (simp add: sched_ok_def)
    moreover have "fg I \<in> set (threads I)" by (simp add: threads_def)
    ultimately have "u = fg I" using u(1) by (metis distinct_map inj_onD)
    with u(2) show ?thesis by simp
  qed
  moreover have "c_priv ?C \<subseteq> set_mset (c_refs ?C)" using S by (intro susp_own [of Q ks] b) simp
  moreover have "c_self ?C = fst s" "c_thr ?C (fst s) = None"
    using s ctx_of_none [OF tA(2)] by (simp_all add: ctx_of_def)
  ultimately show ?thesis using w s by (simp add: st_ok_def world_def)
qed

text \<open>A thread that has not run yet.\<close>

lemma fresh_ok:
  assumes w: "world (ctx_of b S j) I" and S: "list_all (susp_ok Q ks) S" and t: "t_id (fg I) \<notin> susp_id ` set S"
    and b: "snd b \<subseteq> set_mset (fst b)"
  shows "st_ok (ctx_of b S (t_id (fg I))) {#} {} (tst (fg I)) I"
    and "snd (snd (snd (tst (fg I)))) = 1" and "fst (tst (fg I)) \<noteq> 0"
proof -
  let ?t = "t_id (fg I)" and ?s = "tst (fg I)"
  let ?C = "ctx_of b S ?t"
  have w0: "world0 (ctx_of b S j) I" and nd: "\<not> t_done (fg I)" using w by (simp_all add: world_def)
  have none: "c_thr (ctx_of b S j) ?t = None" "c_thr ?C ?t = None" using ctx_of_none [OF t] by simp_all
  have fgs: "fg I \<in> set (threads I)" by (simp add: threads_def)
  from world_fresh [OF w0 fgs none(1)] have f: "t_depth (fg I) = 1" "?t \<noteq> 0" by simp_all
  have s: "fst ?s = ?t" "snd (snd (snd ?s)) = t_depth (fg I)" by (simp_all add: tst_def)
  show "snd (snd (snd ?s)) = 1" "fst ?s \<noteq> 0" using f s by simp_all
  have thr: "c_thr ?C = c_thr (ctx_of b S j)" by (simp add: ctx_of_def)
  have "world0 (with_own ?C {#} {} ?s) I"
  proof (rule world_intro)
    show "hinv (c_priv (with_own ?C {#} {} ?s)) (c_refs (with_own ?C {#} {} ?s) + iroots I) (hp I)"
      "c_priv (with_own ?C {#} {} ?s) \<subseteq> set_mset (c_refs (with_own ?C {#} {} ?s))"
      using world_parts(1,3) [OF w0] by (simp_all add: ctx_of_def)
    show "sched_ok I" by (rule world_parts(2) [OF w0])
  next
    fix i x
    assume x: "c_thr (with_own ?C {#} {} ?s) i = Some x"
    show "fst x = i \<and> (\<exists>u\<in>set (threads I). tst u = x \<and> \<not> t_done u)"
    proof (cases "i = ?t")
      case True
      with x s nd fgs show ?thesis by (intro conjI bexI [of _ "fg I"]) auto
    next
      case False
      with x s have "c_thr (ctx_of b S j) i = Some x" by (simp add: thr)
      from world_thr [OF w0 this] show ?thesis by (rule conjI)
    qed
  next
    fix u
    assume "u \<in> set (threads I)" "c_thr (with_own ?C {#} {} ?s) (t_id u) = None"
    then show "t_depth u = 1 \<and> t_id u \<noteq> 0" by (intro world_fresh [OF w0]) (auto simp: thr split: if_splits)
  qed
  moreover have "c_self ?C = fst ?s" by (simp add: ctx_of_def s)
  moreover have "c_priv ?C \<subseteq> set_mset (c_refs ?C)" by (rule susp_own [OF S b])
  ultimately show "st_ok ?C {#} {} ?s I" using nd none s by (simp add: st_ok_def world_def)
qed

lemma susp_ok_other: "susp_id x \<noteq> i \<Longrightarrow> susp_ok Q (ks(i \<mapsto> k)) x = susp_ok Q ks x"
  by (cases x) (simp add: susp_ok_def)

lemma susp_ok_others: "i \<notin> susp_id ` set S \<Longrightarrow> list_all (susp_ok Q (ks(i \<mapsto> k))) S = list_all (susp_ok Q ks) S"
  by (induction S) (auto simp: susp_ok_other)

text \<open>Whatever thread is next, it goes on in a state that fits.\<close>

lemma schedule_next:
  assumes start: "\<And>C I s. st_ok C {#} {} s I \<Longrightarrow> snd (snd (snd s)) = 1 \<Longrightarrow> fst s \<noteq> 0 \<Longrightarrow> okres (start I) Q C"
    and w: "world (ctx_of b S j) I" and d: "distinct (map susp_id S)" and S: "list_all (susp_ok Q ks) S"
    and b: "snd b \<subseteq> set_mset (fst b)"
    and fin: "\<And>i k. ks i = Some k \<Longrightarrow> i \<in> susp_id ` set S \<or> (\<forall>C I. okres (k I) Q C)"
  obtains S' where "okres (case ks (t_id (fg I)) of None \<Rightarrow> start I | Some k \<Rightarrow> k I) Q (ctx_of b S' (t_id (fg I)))"
    and "sched_inv b Q ks (t_id (fg I)) S'"
proof -
  let ?t = "t_id (fg I)"
  show thesis
  proof (cases "?t \<in> susp_id ` set S")
    case True
    then obtain x where x: "x \<in> set S" "?t = susp_id x" by (rule imageE) simp
    obtain R P s where "x = (susp_id x, R, P, s)" by (metis prod.collapse)
    with x have xs: "(?t, R, P, s) \<in> set S" by simp
    from split_list [OF this] obtain A B where AB: "S = A @ (?t, R, P, s) # B" by blast
    from resume_ok [OF w [unfolded AB] S [unfolded AB] d [unfolded AB] refl b]
    have ok: "st_ok (ctx_of b (A @ B) ?t) R P s I" .
    from S AB obtain k where k: "ks ?t = Some k" "\<forall>C I. st_ok C R P s I \<longrightarrow> okres (k I) Q C"
      by (auto simp: susp_ok_def)
    show thesis
    proof (rule that)
      show "okres (case ks ?t of None \<Rightarrow> start I | Some k \<Rightarrow> k I) Q (ctx_of b (A @ B) ?t)"
        using k ok by simp
      show "sched_inv b Q ks ?t (A @ B)"
        using d S fin b unfolding AB sched_inv_def by auto
    qed
  next
    case False
    note f = fresh_ok [OF w S False b]
    show thesis
    proof (rule that)
      show "okres (case ks ?t of None \<Rightarrow> start I | Some k \<Rightarrow> k I) Q (ctx_of b S ?t)"
        using start [OF f] fin [of ?t] False by (cases "ks ?t") auto
      show "sched_inv b Q ks ?t S" using d S fin False b unfolding sched_inv_def by auto
    qed
  qed
qed

text \<open>
  The scheduler as a step relation: the suspended computations, the thread that runs, and what
  it does next.  \<open>schedule\<close> runs these steps with fuel.
\<close>

type_synonym 'a sconf = "(nat \<rightharpoonup> (interp \<Rightarrow> 'a res)) \<times> nat \<times> 'a res"

inductive sched_step :: "(interp \<Rightarrow> 'a res) \<Rightarrow> 'a sconf \<Rightarrow> 'a sconf \<Rightarrow> bool" for start where
  switch: "ks' = ks(cur \<mapsto> k) \<Longrightarrow> t = t_id (fg I) \<Longrightarrow>
    sched_step start (ks, cur, Swap I k) (ks', t, case ks' t of None \<Rightarrow> start I | Some k' \<Rightarrow> k' I)"

code_pred (modes: i \<Rightarrow> i \<Rightarrow> o \<Rightarrow> bool) sched_step .

inductive_cases sched_step_swapE: "sched_step start (ks, cur, Swap I k) c"

inductive_simps sched_step_ends [simp]:
  "sched_step start (ks, cur, Ret x I) c" "sched_step start (ks, cur, Undef) c" "sched_step start (ks, cur, No_fuel) c"

abbreviation sched_steps :: "(interp \<Rightarrow> 'a res) \<Rightarrow> 'a sconf \<Rightarrow> 'a sconf \<Rightarrow> bool" where
  "sched_steps start \<equiv> (sched_step start)\<^sup>*\<^sup>*"

lemma schedule_steps:
  "schedule m start ks cur r = Ret x J \<Longrightarrow> \<exists>ks' cur'. sched_steps start (ks, cur, r) (ks', cur', Ret x J)"
proof (induction m arbitrary: ks cur r)
  case 0
  then show ?case by (cases r) auto
next
  case (Suc m)
  show ?case
  proof (cases r)
    case (Swap I k)
    let ?t = "t_id (fg I)" and ?ks = "ks(cur \<mapsto> k)"
    from Suc.prems Swap
    have "schedule m start ?ks ?t (case ?ks ?t of None \<Rightarrow> start I | Some k \<Rightarrow> k I) = Ret x J" by (simp add: Let_def)
    from Suc.IH [OF this] obtain ks' cur' where
      "sched_steps start (?ks, ?t, case ?ks ?t of None \<Rightarrow> start I | Some k \<Rightarrow> k I) (ks', cur', Ret x J)" by blast
    moreover have "sched_step start (ks, cur, r) (?ks, ?t, case ?ks ?t of None \<Rightarrow> start I | Some k \<Rightarrow> k I)"
      unfolding Swap by (rule switch) simp_all
    ultimately show ?thesis by (blast intro: converse_rtranclp_into_rtranclp)
  qed (use Suc.prems in auto)
qed

lemma steps_schedule:
  "sched_steps start c c' \<Longrightarrow> c' = (ks', cur', Ret x J) \<Longrightarrow>
   \<exists>m. schedule m start (fst c) (fst (snd c)) (snd (snd c)) = Ret x J"
proof (induction rule: converse_rtranclp_induct)
  case base
  then show ?case by auto
next
  case (step c c1)
  from step.hyps(1) obtain ks cur I k where c: "c = (ks, cur, Swap I k)"
    by (cases rule: sched_step.cases) simp
  from step.hyps(1) [unfolded c] have c1: "c1 = (ks(cur \<mapsto> k), t_id (fg I),
      case (ks(cur \<mapsto> k)) (t_id (fg I)) of None \<Rightarrow> start I | Some k' \<Rightarrow> k' I)"
    by (rule sched_step_swapE) simp
  from step.IH [OF step.prems] obtain m where
    "schedule m start (fst c1) (fst (snd c1)) (snd (snd c1)) = Ret x J" by blast
  then have "schedule (Suc m) start (fst c) (fst (snd c)) (snd (snd c)) = Ret x J"
    by (simp add: c c1 Let_def)
  then show ?case by blast
qed

section \<open>The invariant of the scheduler\<close>

definition sched_safe :: "base \<Rightarrow> ('a \<Rightarrow> ctx \<Rightarrow> interp \<Rightarrow> bool) \<Rightarrow> 'a sconf \<Rightarrow> bool" where
  "sched_safe b Q c \<longleftrightarrow> (case c of (ks, cur, r) \<Rightarrow> \<exists>S. okres r Q (ctx_of b S cur) \<and> sched_inv b Q ks cur S)"

lemma sched_safe_swap:
  assumes ok: "okres (Swap I k) Q (ctx_of b S cur)" and inv: "sched_inv b Q ks cur S"
  obtains S' where "world (ctx_of b S' cur) I" "distinct (map susp_id S')" "list_all (susp_ok Q (ks(cur \<mapsto> k))) S'"
    and "\<And>i k'. (ks(cur \<mapsto> k)) i = Some k' \<Longrightarrow> i \<in> susp_id ` set S' \<or> (\<forall>C I. okres (k' I) Q C)"
proof -
  let ?ks = "ks(cur \<mapsto> k)"
  have i: "distinct (map susp_id S)" "cur \<notin> susp_id ` set S" "list_all (susp_ok Q ks) S"
    and fin: "ks i = Some k \<Longrightarrow> i = cur \<or> i \<in> susp_id ` set S \<or> (\<forall>C I. okres (k I) Q C)" for i k
    using inv by (auto simp: sched_inv_def)
  have S: "list_all (susp_ok Q ?ks) S" using i by (simp add: susp_ok_others)
  have self: "c_self (ctx_of b S cur) = cur" by (simp add: ctx_of_def)
  from ok [unfolded okres.simps self] consider
      R P s where "world (with_own (ctx_of b S cur) R P s) I" "P \<subseteq> set_mset R" "fst s = cur"
        "\<And>C I. st_ok C R P s I \<Longrightarrow> okres (k I) Q C"
    | "world (ctx_of b S cur) I" "\<And>C I. okres (k I) Q C"
    by (elim disjE exE conjE) blast+
  then show thesis
  proof cases
    case 1
    let ?S = "(cur, R, P, s) # S"
    note eq = ctx_of_split [where b = b and t = cur and A = "[]" and R = R and P = P and s = s and B = S and i = cur and j = cur, simplified]
    have "world0 (ctx_of b ?S cur) I"
      by (rule world_ctx [where D = "with_own (ctx_of b S cur) R P s"])
        (use 1(1,3) in \<open>simp_all add: world_def eq\<close>)
    then have "world (ctx_of b ?S cur) I" using 1(1) by (simp add: world_def)
    moreover have "susp_ok Q ?ks (cur, R, P, s)" using 1 by (auto simp: susp_ok_def)
    moreover have "i \<in> susp_id ` set ?S \<or> (\<forall>C I. okres (ka I) Q C)" if "?ks i = Some ka" for i ka
      using fin [of i ka] that by (cases "i = cur") simp_all
    ultimately show thesis using i S by (intro that [of ?S]) simp_all
  next
    case 2
    have "i \<in> susp_id ` set S \<or> (\<forall>C I. okres (ka I) Q C)" if "?ks i = Some ka" for i ka
      using fin [of i ka] 2(2) that by (cases "i = cur") simp_all
    with 2 i S show thesis by (intro that [of S]) simp_all
  qed
qed

lemma sched_step_safe:
  assumes start: "\<And>C I s. st_ok C {#} {} s I \<Longrightarrow> snd (snd (snd s)) = 1 \<Longrightarrow> fst s \<noteq> 0 \<Longrightarrow> okres (start I) Q C"
    and step: "sched_step start c c'" and safe: "sched_safe b Q c"
  shows "sched_safe b Q c'"
  using step
proof cases
  case (switch ks' ks cur k t I)
  from safe obtain S where "okres (Swap I k) Q (ctx_of b S cur)" "sched_inv b Q ks cur S"
    unfolding sched_safe_def switch(1) prod.case by (elim exE conjE)
  note safe' = this
  from safe'(2) have b: "snd b \<subseteq> set_mset (fst b)" by (simp add: sched_inv_def)
  from sched_safe_swap [OF safe'] obtain S' where S': "world (ctx_of b S' cur) I" "distinct (map susp_id S')"
    "list_all (susp_ok Q ks') S'" "\<And>i k'. ks' i = Some k' \<Longrightarrow> i \<in> susp_id ` set S' \<or> (\<forall>C I. okres (k' I) Q C)"
    unfolding switch(3) by blast
  obtain S'' where "okres (case ks' t of None \<Rightarrow> start I | Some k \<Rightarrow> k I) Q (ctx_of b S'' t)" "sched_inv b Q ks' t S''"
    unfolding switch(4) by (rule schedule_next [OF start S'(1-3) b S'(4)])
  then show ?thesis by (auto simp: sched_safe_def switch(2))
qed

lemma sched_steps_safe:
  assumes steps: "sched_steps start c c'"
    and start: "\<And>C I s. st_ok C {#} {} s I \<Longrightarrow> snd (snd (snd s)) = 1 \<Longrightarrow> fst s \<noteq> 0 \<Longrightarrow> okres (start I) Q C"
  shows "sched_safe b Q c \<Longrightarrow> sched_safe b Q c'"
  using steps by (induction rule: rtranclp_induct) (auto intro: sched_step_safe [OF start])

definition routine :: "env \<Rightarrow> nat \<Rightarrow> interp \<Rightarrow> outcome res" where
  "routine E n I = rbind (b6b_thread_routine E n I) (\<lambda>_ _. Undef)"

definition program_start :: "env \<Rightarrow> nat \<Rightarrow> ext_obj list \<Rightarrow> string list \<Rightarrow> u8 \<Rightarrow> u32 \<Rightarrow> string list \<Rightarrow> string list \<Rightarrow> outcome sconf" where
  "program_start E n exts inits opt now argv rest = (Map.empty, 0, b6b_main E n exts inits opt now argv rest)"

text \<open>Every configuration a program reaches is safe, whatever it runs.\<close>

lemma start_safe:
  assumes E: "ext_env E" and m: "okres m exit_ok ctx0" and steps: "sched_steps (routine E n) (Map.empty, 0, m) c"
  shows "sched_safe no_base exit_ok c"
proof (rule sched_steps_safe [OF steps])
  fix C I s
  assume "st_ok C {#} {} s I" "snd (snd (snd s)) = 1" "fst s \<noteq> 0"
  from ext_env.thread_routine_ok [OF E this, of n "\<lambda>_ _ _. True"]
  show "okres (routine E n I) exit_ok C" unfolding routine_def by (rule okres_bind) simp
next
  have "ctx_of no_base [] 0 = ctx0" by (simp add: ctx_of_def)
  then have "okres m exit_ok (ctx_of no_base [] 0)" using m by simp
  moreover have "sched_inv no_base exit_ok Map.empty 0 []" by (simp add: sched_inv_def)
  ultimately show "sched_safe no_base exit_ok (Map.empty, 0, m)"
    unfolding sched_safe_def by auto
qed

lemma start_given_up:
  assumes E: "ext_env E" and m: "okres m exit_ok ctx0"
    and steps: "sched_steps (routine E n) (Map.empty, 0, m) (ks, cur, Ret (Exit_with status h) I)"
  shows "hinv {} {#} h"
proof -
  from start_safe [OF E m steps] obtain S where
    e: "c_thr (ctx_of no_base S cur) = Map.empty" "hinv (c_priv (ctx_of no_base S cur)) (c_refs (ctx_of no_base S cur)) h"
    by (auto simp: sched_safe_def exit_ok_def all_given_up_def)
  from e(1) have "S = []" by (simp add: ctx_of_def)
  with e(2) show ?thesis by (simp add: ctx_of_def)
qed

lemma program_safe:
  assumes "ext_env E" and "sched_steps (routine E n) (program_start E n exts inits opt now argv rest) c"
  shows "sched_safe no_base exit_ok c"
  using start_safe [OF assms(1) ext_env.main_ok [OF assms(1)]] assms(2) unfolding program_start_def by blast

lemma program_given_up:
  assumes "ext_env E"
    and "sched_steps (routine E n) (program_start E n exts inits opt now argv rest) (ks, cur, Ret (Exit_with status h) I)"
  shows "hinv {} {#} h"
  using start_given_up [OF assms(1) ext_env.main_ok [OF assms(1)]] assms(2) unfolding program_start_def by blast

lemma program_schedule:
  assumes "b6b_program E n exts inits permute now argv = Some r"
  obtains opt rest where "r = schedule n (routine E n) Map.empty 0 (b6b_main E n exts inits opt now argv rest)"
  using assms by (auto simp: b6b_program_def routine_def [abs_def] split: option.splits prod.splits)

lemma program_ends:
  assumes "b6b_program E n exts inits permute now argv = Some (Ret x I)"
  obtains opt rest ks cur
  where "sched_steps (routine E n) (program_start E n exts inits opt now argv rest) (ks, cur, Ret x I)"
  using assms unfolding program_start_def by (metis program_schedule schedule_steps)

text \<open>The procedures of the tables need no extension.\<close>

definition no_ext :: "env \<Rightarrow> env" where
  "no_ext E = E\<lparr>e_ext := \<lambda>_ _ _. None\<rparr>"

interpretation plain: ext_env "no_ext E" for E
  by unfold_locales (simp add: no_ext_def pres_def)

end
