(* ===== verification/Run_Props.thy ===== *)
theory Run_Props
  imports Run_Sched
begin

text \<open>
  The properties of whole programs and of statements, from the invariant of theories Run_Inv to
  Run_Sched, each with a concrete program: \<open>demo_argv\<close> starts a second thread, switches to it
  and exits with a status.
\<close>

definition demo_env :: env where
  "demo_env = \<lparr>e_mbr = \<lambda>s. Some 1, e_rand = \<lambda>s. (s, s), e_file = \<lambda>_. None, e_ext = \<lambda>_ _ _. None\<rparr>"

definition demo_exts :: "ext_obj list" where
  "demo_exts = map (\<lambda>(s, f). ext_proc s (F_core f)) [(''spawn'', C_spawn), (''yield'', C_yield), (''exit'', C_exit)]"

definition demo_argv :: "string list" where
  "demo_argv = [''{$spawn {{$yield}}} {$yield} {$exit 7}'']"

definition demo_run :: "outcome res option" where
  "demo_run = b6b_program (no_ext demo_env) 20 demo_exts [] False 0 ([''b6b'', ''-c''] @ demo_argv)"

text \<open>It ends with status 7 and no object left.\<close>

lemma demo_run_ends:
  obtains h I where "demo_run = Some (Ret (Exit_with 7 h) I)" and "list_all (\<lambda>c. c = None) (cells h)"
proof -
  have "case demo_run of Some (Ret (Exit_with st h) _) \<Rightarrow> st = 7 \<and> list_all (\<lambda>c. c = None) (cells h) | _ \<Rightarrow> False"
    by code_simp
  then show thesis using that by (auto split: option.splits res.splits outcome.splits)
qed

section \<open>Whole programs\<close>

text \<open>
  C1. A program that ends, whatever its options and its script (or the prompt), its threads and the order they ran in, and
  whatever errors and exits it went through, has given up every reference exactly once: of the
  objects left in the heap each has the count of the references from the others.
\<close>

theorem program_exact:
  assumes "ext_env E" and "b6b_program E n exts inits permute now argv = Some (Ret (Exit_with status h) I)"
  shows "rc_ok {#} h"
proof -
  from assms(2) obtain opt rest ks cur where
    "sched_steps (routine E n) (program_start E n exts inits opt now argv rest) (ks, cur, Ret (Exit_with status h) I)"
    by (rule program_ends)
  from program_given_up [OF assms(1) this] show ?thesis by (rule hinv_rc)
qed

lemma program_exact_witness:
  "\<exists>h I. b6b_program (no_ext demo_env) 20 demo_exts [] False 0 ([''b6b'', ''-c''] @ demo_argv) = Some (Ret (Exit_with 7 h) I) \<and> rc_ok {#} h"
proof -
  obtain h I where r: "demo_run = Some (Ret (Exit_with 7 h) I)" by (rule demo_run_ends)
  from program_exact [OF plain.ext_env_axioms r [unfolded demo_run_def]] r [unfolded demo_run_def]
  show ?thesis by blast
qed

text \<open>
  C2. Nothing leaks but cycles: if the references left at the end of a program form no cycle,
  every object that was ever created has been freed.
\<close>

theorem program_no_leak:
  assumes "ext_env E" and "b6b_program E n exts inits permute now argv = Some (Ret (Exit_with status h) I)"
    and "acyclic_by rank h"
  shows "hget a h = None"
proof -
  from assms(2) obtain opt rest ks cur where
    "sched_steps (routine E n) (program_start E n exts inits opt now argv rest) (ks, cur, Ret (Exit_with status h) I)"
    by (rule program_ends)
  note exact = hinv_rc [OF program_given_up [OF assms(1) this]]
  show ?thesis by (rule rc_ok_no_roots_empty [OF exact]) (rule acyclic_byD [OF assms(3)])
qed

lemma program_no_leak_witness:
  "\<exists>h I. b6b_program (no_ext demo_env) 20 demo_exts [] False 0 ([''b6b'', ''-c''] @ demo_argv) = Some (Ret (Exit_with 7 h) I)
    \<and> (\<forall>a. hget a h = None)"
proof -
  obtain h I where r: "demo_run = Some (Ret (Exit_with 7 h) I)" and none: "list_all (\<lambda>c. c = None) (cells h)"
    by (rule demo_run_ends)
  have "acyclic_by (\<lambda>_. 0) h" using none by (auto simp: acyclic_by_def list_all_length)
  from program_no_leak [OF plain.ext_env_axioms r [unfolded demo_run_def] this] r [unfolded demo_run_def]
  show ?thesis by blast
qed



text \<open>The scheduler with fuel gives a result for some amount of it exactly if the steps lead to it.\<close>

lemma schedule_is_steps:
  "(\<exists>m. schedule m start ks cur r = Ret x J) \<longleftrightarrow> (\<exists>ks' cur'. sched_steps start (ks, cur, r) (ks', cur', Ret x J))"
  using schedule_steps [of _ start ks cur r x J] steps_schedule [of start "(ks, cur, r)" _ _ _ x J] by fastforce

section \<open>Statements\<close>

text \<open>
  C4. A statement, called in any state with exact counts, gives back what it took on every
  path: when \<^verbatim>\<open>b6b_stmt_call\<close> returns, whatever other threads did in between, the counts are
  exact for the same owned references \<open>R\<close> and private objects \<open>P\<close> of its caller, and the
  running thread is the same, with the same frames, the same function and the same depth \<open>s\<close>.
\<close>

theorem stmt_call_keeps:
  assumes "ext_env E" and "st_ok C R P s I"
  shows "okres (stmt_call E n stmt I) (\<lambda>_ C' I'. st_ok C' R P s I') C"
  using ext_env.eval_call [OF assms] .

definition demo_start :: "(bool \<times> interp) option" where
  "demo_start = (case argv_list demo_argv empty_heap of
     None \<Rightarrow> None | Some (args, h) \<Rightarrow> interp_start args 0 0 h)"

lemma demo_started:
  obtains I args f where "demo_start = Some (True, I)" and "st_ok ctx0 {#args#} {} (0, [f], None, 1) I"
proof -
  have "case demo_start of Some (True, I) \<Rightarrow> True | _ \<Rightarrow> False" by code_simp
  then obtain I where I: "demo_start = Some (True, I)" by (auto split: option.splits bool.splits)
  then obtain args h where a: "argv_list demo_argv empty_heap = Some (args, h)" "interp_start args 0 0 h = Some (True, I)"
    by (auto simp: demo_start_def split: option.splits)
  obtain f where "st_ok ctx0 {#args#} {} (0, [f], None, 1) I"
    by (rule interp_start_ok [OF a(2) argv_list_hinv [OF a(1)]])
  with I show thesis by (rule that)
qed

lemma stmt_call_keeps_witness:
  "\<exists>I R s. demo_start = Some (True, I)
    \<and> okres (stmt_call (no_ext demo_env) 5 0 I) (\<lambda>_ C' I'. st_ok C' R {} s I') ctx0"
proof -
  obtain I args f where I: "demo_start = Some (True, I)" "st_ok ctx0 {#args#} {} (0, [f], None, 1) I" by (rule demo_started)
  from stmt_call_keeps [OF plain.ext_env_axioms I(2)] I(1) show ?thesis by blast
qed

end
