(* ===== verification/Interp_Props.thy ===== *)
theory Interp_Props
  imports Dict_Props Run_Props
begin

text \<open>
  Properties of dictionaries, frames, variables and the queue of threads.  A dictionary refines
  a map from texts to objects, by the interpretation \<open>dict\<close> of the locale \<open>text_map\<close>; the
  threads that are ready form a queue that is used at both ends (locale \<open>ready_queue\<close>).
\<close>

section \<open>Dictionaries\<close>

definition demo_dict :: heap where
  "demo_dict = \<lparr>cells =
     [Some (new_obj\<lparr>ob_l := Items []\<rparr>), Some (new_obj\<lparr>ob_s := Some ''k''\<rparr>), Some (new_obj\<lparr>ob_s := Some ''v''\<rparr>),
      Some (new_obj\<lparr>ob_i := Some 7\<rparr>)], next_li = 0\<rparr>"

lemma demo_dict_ok: "dict_inv {#0, 1, 2, 3#} 0 demo_dict"
proof -
  have "rc_ok {#0, 1, 2, 3#} demo_dict" "nodes_ok demo_dict" "hash_ok demo_dict" "dict_ok 0 demo_dict" by code_simp+
  then show ?thesis by (simp add: dict_inv_def hinv_def)
qed

text \<open>
  C13. After \<^verbatim>\<open>b6b_dict_set\<close> of \<open>v\<close> at a key of text \<open>s\<close>, a look-up gives \<open>v\<close> for every key with that
  text, whatever object it is, and what it gave before for every other text.
\<close>

theorem dict_set_then_get:
  assumes "dict_inv R d h" and "k \<in># R" "k \<noteq> d" "v \<in># R" and "text_of h k = Some s"
    and "k' \<in># R" "k' \<noteq> d" and "key_str h k' = Some t"
  shows "\<exists>h1 h2. b6b_dict_set d k v h = Some (True, h1)
    \<and> b6b_dict_get d k' h1 = Some (Some (if t = s then Some v else dict_map d h t), h2) \<and> dict_inv R d h2"
proof -
  from dict_set_law [OF assms(1-5)] assms(6-8) obtain h1 where h1: "b6b_dict_set d k v h = Some (True, h1)"
    "dict_inv R d h1" "dict_map d h1 = (dict_map d h)(s \<mapsto> v)" "key_str h1 k' = Some t" by blast
  from dict_get_law [OF h1(2) key_str_text [OF h1(4)]] h1 show ?thesis by auto
qed

lemma dict_set_then_get_witness:
  "\<exists>h1 h2. b6b_dict_set 0 3 2 demo_dict = Some (True, h1) \<and> b6b_dict_get 0 1 h1 = Some (Some None, h2)"
proof -
  have "text_of demo_dict 3 = Some ''7''" "key_str demo_dict 1 = Some ''k''" "dict_map 0 demo_dict ''k'' = None" by code_simp+
  with dict_set_then_get [OF demo_dict_ok, of 3 2 "''7''" 1 "''k''"] show ?thesis by auto
qed

text \<open>
  C14. The operations on a dictionary are those on the map from texts to objects that it stands for:
  look-up, update and removal always succeed, and keep the counts, the cached hashes and the
  structure of the dictionary.
\<close>

theorem dict_refines_map:
  assumes "dict_inv R d h" and "k \<in># R" "k \<noteq> d" "v \<in># R" and "text_of h k = Some s"
  shows "(\<exists>h'. b6b_dict_get d k h = Some (Some (dict_map d h s), h') \<and> dict_inv R d h' \<and> dict_map d h' = dict_map d h)
    \<and> (\<exists>h'. b6b_dict_set d k v h = Some (True, h') \<and> dict_inv R d h' \<and> dict_map d h' = (dict_map d h)(s \<mapsto> v))
    \<and> (\<exists>h'. b6b_dict_unset d k h = Some (True, h') \<and> dict_inv R d h' \<and> dict_map d h' = (dict_map d h)(s := None))"
  using dict.get_law [OF assms(1,5)] dict.set_law [OF assms(1) _ _ assms(5), of v] dict.unset_law [OF assms(1) _ assms(5)]
    assms(2-4) dict_set_law [OF assms(1-5)] by blast

lemma dict_refines_map_witness:
  "\<exists>h'. b6b_dict_set 0 1 2 demo_dict = Some (True, h') \<and> dict_map 0 h' = [''k'' \<mapsto> 2]"
proof -
  have "text_of demo_dict 1 = Some ''k''" "dict_rep 0 demo_dict = Some []" by code_simp+
  with dict_refines_map [OF demo_dict_ok, of 1 2 "''k''"] show ?thesis by (auto simp: dict_map_def)
qed

section \<open>Frames\<close>

text \<open>
  C16. Calling a statement takes a new frame, with no variables and no arguments, and removing the
  frame undoes it: the thread and every object are as before.
\<close>

theorem frame_push_pop:
  assumes "t_depth (fg I) < B6B_MAX_NESTING"
  shows "\<exists>f I1 I2. b6b_frame_push I = Some (Some f, I1) \<and> curr I1 = f \<and> t_depth (fg I1) = Suc (t_depth (fg I))
    \<and> items_at (locals f) I1 = Some [] \<and> items_at (fargs f) I1 = Some []
    \<and> obj_at (locals f) I = None \<and> obj_at (fargs f) I = None
    \<and> b6b_frame_pop I1 = Some I2 \<and> fg I2 = fg I \<and> threads I2 = threads I \<and> (\<forall>a. obj_at a I2 = obj_at a I)"
proof -
  let ?h = "hp I" and ?o = "new_obj\<lparr>ob_l := Items []\<rparr>"
  define h1 where "h1 = snd (halloc ?o ?h)"
  define h2 where "h2 = snd (halloc ?o h1)"
  define f where "f = \<lparr>locals = fst (halloc ?o ?h), fargs = fst (halloc ?o h1)\<rparr>"
  define I1 where "I1 = I\<lparr>hp := h2, fg := (fg I)\<lparr>t_curr := f # t_curr (fg I), t_depth := Suc (t_depth (fg I))\<rparr>\<rparr>"
  have new: "b6b_frame_new ?h = (f, h2)"
    by (simp add: b6b_frame_new_def b6b_list_new_def b6b_new_def f_def h2_def h1_def split: prod.split)
  have push: "b6b_frame_push I = Some (Some f, I1)" using assms new by (simp add: b6b_frame_push_def I1_def)
  have fresh: "hget (locals f) ?h = None" "hget (fargs f) h1 = None"
    unfolding f_def by (simp_all add: st.new_fresh)
  have g1: "hget b h1 = (if b = locals f then Some ?o else hget b ?h)" for b
    unfolding h1_def f_def by (simp add: hget_halloc)
  have g2: "hget b h2 = (if b = fargs f then Some ?o else hget b h1)" for b
    unfolding h2_def f_def by (simp add: hget_halloc)
  have ne: "locals f \<noteq> fargs f" using fresh(2) g1 [of "fargs f"] by auto
  have fresh2: "hget (fargs f) ?h = None" using fresh(2) g1 [of "fargs f"] ne by (simp split: if_splits)
  have d: "destroy_refs ?o = Some []" "ob_refc ?o = 1" by (simp_all add: destroy_refs_def refs_of_def new_obj_def)
  have u1: "b6b_unref (fargs f) h2 = Some (hfree (fargs f) h2)" using d by (simp add: b6b_unref_def g2)
  have u2: "b6b_unref (locals f) (hfree (fargs f) h2) = Some (hfree (locals f) (hfree (fargs f) h2))"
    using d ne by (simp add: b6b_unref_def g2 g1 hget_hfree)
  define I2 where "I2 = I\<lparr>hp := hfree (locals f) (hfree (fargs f) h2)\<rparr>"
  have pop: "b6b_frame_pop I1 = Some I2"
    using u1 u2 by (simp add: b6b_frame_pop_def I1_def I2_def upd_heap_def b6b_frame_destroy_def)
  have "obj_at a I2 = obj_at a I" for a
    using fresh fresh2 by (simp add: obj_at_def I2_def hget_hfree g2 g1)
  moreover have "items_at (locals f) I1 = Some []" "items_at (fargs f) I1 = Some []"
    using ne by (simp_all add: items_at_def items_of_Some I1_def g2 g1)
  moreover have "curr I1 = f" "t_depth (fg I1) = Suc (t_depth (fg I))" by (simp_all add: I1_def curr_def chain_def)
  moreover have "fg I2 = fg I" "threads I2 = threads I" by (simp_all add: I2_def threads_def)
  ultimately show ?thesis using push pop fresh(1) fresh2 by (auto simp: obj_at_def)
qed

lemma frame_push_pop_witness:
  "\<exists>I f I1 I2. demo_start = Some (True, I) \<and> b6b_frame_push I = Some (Some f, I1) \<and> b6b_frame_pop I1 = Some I2
    \<and> fg I2 = fg I"
proof -
  obtain I args f where I: "demo_start = Some (True, I)" "st_ok ctx0 {#args#} {} (0, [f], None, 1) I" by (rule demo_started)
  have "t_depth (fg I) < B6B_MAX_NESTING" using st_ok_sched [OF I(2)] by (simp add: tst_def B6B_MAX_NESTING_def)
  from frame_push_pop [OF this] I(1) show ?thesis by blast
qed

section \<open>Messages\<close>

text \<open>A new object without references, put in the place of the old return value.\<close>

lemma return_new_runs:
  assumes rc: "rc_ok (add_mset (t_ret (fg I)) R) (hp I)"
    and u: "refs_of (u new_obj) = []" "ob_refc (u new_obj) = 1" "ob_l (u new_obj) \<noteq> Freed_items"
  obtains a h where "(case new_heap (b6b_new u) I of (a, I) \<Rightarrow> b6b_return a I) = Some (B6B_OK, set_ret a (I\<lparr>hp := h\<rparr>))"
    and "hget a h = Some (u new_obj)" and "rc_ok (add_mset a R) h"
proof -
  obtain a h1 where new: "b6b_new u (hp I) = (a, h1)" by fastforce
  have n: "rc_ok (add_mset a (add_mset (t_ret (fg I)) R)) h1" "hget a h1 = Some (u new_obj)"
    using new_ok [OF rc u(2,1,3) new] by simp_all
  then have "rc_ok (add_mset (t_ret (fg I)) (add_mset a R)) h1" by (simp add: add_mset_commute)
  from unref_ok [OF this] obtain h where h: "b6b_unref (t_ret (fg I)) h1 = Some h" "rc_ok (add_mset a R) h" .
  have run: "(case new_heap (b6b_new u) I of (a, I) \<Rightarrow> b6b_return a I) = Some (B6B_OK, set_ret a (I\<lparr>hp := h\<rparr>))"
    using new h(1) by (simp add: new_heap_def b6b_return_def upd_heap_def)
  from rc_ok_live [OF h(2), of a] obtain ob where ob: "hget a h = Some ob" by auto
  from unrefs_frame [OF h(1) [unfolded b6b_unref_def] ob] n(2)
  have eq: "ob = (u new_obj)\<lparr>ob_refc := ob_refc ob\<rparr>" by auto
  have "count (heap_refs h1) a = 0" using rc_okD(2) [OF n(1,2)] u(2) by simp
  moreover have "heap_refs h \<subseteq># heap_refs h1" using heap_refs_unrefs [OF h(1) [unfolded b6b_unref_def]] .
  ultimately have "count (heap_refs h) a = 0" by (metis le_zero_eq mset_subset_eq_count)
  moreover have "count R a = 0" using rc_okD(2) [OF n(1,2)] u(2) by (simp split: if_splits)
  ultimately have "ob_refc ob = 1" using rc_okD(2) [OF h(2) ob] by simp
  with eq u(2) have "ob = u new_obj" by simp
  with run ob h(2) show thesis using that by blast
qed

lemma return_str_runs:
  assumes "rc_ok (add_mset (t_ret (fg I)) R) (hp I)"
  obtains a h where "b6b_return_str t I = Some (B6B_OK, set_ret a (I\<lparr>hp := h\<rparr>))"
    and "hget a h = Some (new_obj\<lparr>ob_s := Some t\<rparr>)" and "rc_ok (add_mset a R) h"
  by (rule return_new_runs [OF assms, of "\<lambda>ob. ob\<lparr>ob_s := Some t\<rparr>"])
    (simp_all add: b6b_return_str_def new_heap_def b6b_str_copy_def b6b_str_new_def refs_of_def new_obj_def)

lemma return_int_runs:
  assumes "rc_ok (add_mset (t_ret (fg I)) R) (hp I)"
  obtains a h where "b6b_return_int i I = Some (B6B_OK, set_ret a (I\<lparr>hp := h\<rparr>))"
    and "hget a h = Some (new_obj\<lparr>ob_i := Some i\<rparr>)" and "rc_ok (add_mset a R) h"
  by (rule return_new_runs [OF assms, of "\<lambda>ob. ob\<lparr>ob_i := Some i\<rparr>"])
    (simp_all add: b6b_return_int_def new_heap_def b6b_int_new_def refs_of_def new_obj_def)

text \<open>
  C17. At the limit of 64 frames no frame is taken: the result is the null pointer, with the message
  as the return value and the chain of frames as it was.
\<close>

theorem frame_push_limit:
  assumes "B6B_MAX_NESTING \<le> t_depth (fg I)" and "rc_ok (add_mset (t_ret (fg I)) R) (hp I)"
  shows "\<exists>I1. b6b_frame_push I = Some (None, I1) \<and> str_at (t_ret (fg I1)) I1 = Some ''call stack overflow''
    \<and> chain I1 = chain I \<and> t_depth (fg I1) = t_depth (fg I) \<and> rc_ok (add_mset (t_ret (fg I1)) R) (hp I1)"
proof -
  obtain a h where r: "b6b_return_str ''call stack overflow'' I = Some (B6B_OK, set_ret a (I\<lparr>hp := h\<rparr>))"
    "hget a h = Some (new_obj\<lparr>ob_s := Some ''call stack overflow''\<rparr>)" "rc_ok (add_mset a R) h"
    by (rule return_str_runs [OF assms(2)])
  then show ?thesis
    using assms(1) by (auto simp: b6b_frame_push_def str_at_def obj_at_def set_ret_def chain_def)
qed

lemma frame_push_limit_witness:
  "\<exists>I I1. b6b_frame_push (I\<lparr>fg := (fg I)\<lparr>t_depth := 64\<rparr>\<rparr>) = Some (None, I1)
    \<and> str_at (t_ret (fg I1)) I1 = Some ''call stack overflow''"
proof -
  obtain I args f where I: "demo_start = Some (True, I)" "st_ok ctx0 {#args#} {} (0, [f], None, 1) I" by (rule demo_started)
  let ?I = "I\<lparr>fg := (fg I)\<lparr>t_depth := 64\<rparr>\<rparr>"
  from hinv_rc [OF st_ok_ret_hinv [OF I(2)]] obtain R where "rc_ok (add_mset (t_ret (fg I)) R) (hp I)" by blast
  then have "rc_ok (add_mset (t_ret (fg ?I)) R) (hp ?I)" by simp
  from frame_push_limit [OF _ this] show ?thesis by (auto simp: B6B_MAX_NESTING_def)
qed

section \<open>Variables\<close>

lemma dict_inv_conv:
  assumes inv: "dict_inv R d h" and le: "conv_le h h'" and ok: "hash_ok h'"
  shows "dict_inv R d h'" and "dict_map d h' = dict_map d h"
proof -
  from inv obtain its es where d: "hinv {} R h" "hash_ok h" "d \<in># R" "items_of d h = Some its"
    "entries h its = Some es" "entries_ok d es" "dict_map d h = map_of (map snd es)" by (rule dict_invE)
  from dict_invI [OF hinv_conv [OF d(1) le] ok d(3) items_of_conv [OF le d(4)] entries_conv [OF le d(5)] d(6)] d(7)
  show "dict_inv R d h'" "dict_map d h' = dict_map d h" by simp_all
qed

text \<open>The chain of frames, innermost first, as one map.\<close>

fun scope :: "frame list \<Rightarrow> heap \<Rightarrow> string \<Rightarrow> addr option" where
  "scope [] h s = None"
| "scope (f # fs) h s = (case dict_map (locals f) h s of Some v \<Rightarrow> Some v | None \<Rightarrow> scope fs h s)"

definition scopes_ok :: "addr multiset \<Rightarrow> frame list \<Rightarrow> heap \<Rightarrow> bool" where
  "scopes_ok R fs h \<longleftrightarrow> list_all (\<lambda>f. dict_inv R (locals f) h) fs"

lemma scopes_conv:
  assumes "conv_le h h'" and "hash_ok h'"
  shows "scopes_ok R fs h \<Longrightarrow> scopes_ok R fs h' \<and> scope fs h' s = scope fs h s"
  by (induction fs) (auto simp: scopes_ok_def dict_inv_conv [OF _ assms] split: option.split)

lemma get_in_scope:
  "scopes_ok R fs h \<Longrightarrow> key_str h k = Some s \<Longrightarrow>
   \<exists>h'. get_in k fs h = Some (Some (scope fs h s), h') \<and> conv_le h h' \<and> (hash_ok h \<longrightarrow> hash_ok h')"
proof (induction fs arbitrary: h)
  case (Cons f fs)
  then have inv: "dict_inv R (locals f) h" and fs: "scopes_ok R fs h" by (simp_all add: scopes_ok_def)
  from dict_get_law [OF inv key_str_text [OF Cons.prems(2)]] obtain h1 where h1:
    "b6b_dict_get (locals f) k h = Some (Some (dict_map (locals f) h s), h1)" "dict_inv R (locals f) h1" "conv_le h h1"
    by blast
  then have ok1: "hash_ok h1" by (simp add: dict_inv_def)
  show ?case
  proof (cases "dict_map (locals f) h s")
    case (Some v)
    with h1 ok1 show ?thesis by auto
  next
    case None
    note c = scopes_conv [OF h1(3) ok1 fs]
    from Cons.IH [OF conjunct1 [OF c] key_str_conv [OF h1(3) Cons.prems(2)]] h1 None ok1 c
    show ?thesis by (auto intro: conv_le_trans)
  qed
qed simp

text \<open>
  C15. \<^verbatim>\<open>b6b_get\<close> finds the innermost variable of that name in the chain from the running frame to
  the global one; without one it returns the null pointer, with a message that names it.
\<close>

theorem get_innermost:
  assumes ok: "scopes_ok (add_mset (t_ret (fg I)) R) (chain I) (hp I)" and k: "text_of (hp I) k = Some s"
  shows "case scope (chain I) (hp I) s of
      Some v \<Rightarrow> \<exists>I'. b6b_get k I = Some (Some v, I') \<and> fg I' = fg I
    | None \<Rightarrow> \<exists>I'. b6b_get k I = Some (None, I') \<and> str_at (t_ret (fg I')) I' = Some (''no such obj: '' @ c_str s)"
proof -
  have inv: "dict_inv (add_mset (t_ret (fg I)) R) (locals (global I)) (hp I)" using ok by (simp add: scopes_ok_def chain_def)
  then have rc: "hinv {} (add_mset (t_ret (fg I)) R) (hp I)" and hash: "hash_ok (hp I)" by (simp_all add: dict_inv_def)
  from b6b_as_str_text [OF k] obtain h1 ob where h1: "b6b_as_str k (hp I) = Some (True, h1)" "text_ext (hp I) h1"
    "hget k h1 = Some ob" "ob_s ob = Some s" .
  note le1 = text_ext_conv [OF h1(2)]
  have hash1: "hash_ok h1" by (rule b6b_as_str_hash_ok [OF h1(1) hash])
  from scopes_conv [OF le1 hash1 ok] have s1: "scopes_ok (add_mset (t_ret (fg I)) R) (chain I) h1"
    "scope (chain I) h1 s = scope (chain I) (hp I) s" by simp_all
  have key: "key_str h1 k = Some s" using h1(3,4) by (simp add: key_str_def)
  from get_in_scope [OF s1(1) key] obtain h2 where h2: "get_in k (chain I) h1 = Some (Some (scope (chain I) (hp I) s), h2)"
    "conv_le h1 h2" by (auto simp: s1(2))
  let ?I = "I\<lparr>hp := h2\<rparr>"
  have run: "b6b_get k I = (case scope (chain I) (hp I) s of Some v \<Rightarrow> Some (Some v, ?I)
    | None \<Rightarrow> do {
        s \<leftarrow> str_at k ?I;
        (_, I) \<leftarrow> b6b_return_str (''no such obj: '' @ c_str s) ?I;
        Some (None, I) })"
    using h1(1) h2(1) by (simp add: b6b_get_def on_heap_def chain_def split: option.split)
  show ?thesis
  proof (cases "scope (chain I) (hp I) s")
    case (Some v)
    with run show ?thesis by simp
  next
    case None
    have str: "str_at k ?I = Some s" using key_str_conv [OF h2(2) key] by (simp add: str_at_def obj_at_def key_str_def)
    have "rc_ok (add_mset (t_ret (fg ?I)) R) (hp ?I)"
      using hinv_rc [OF hinv_conv [OF hinv_conv [OF rc le1] h2(2)]] by simp
    from return_str_runs [OF this, of "''no such obj: '' @ c_str s"] obtain a h where
      "b6b_return_str (''no such obj: '' @ c_str s) ?I = Some (B6B_OK, set_ret a (?I\<lparr>hp := h\<rparr>))"
      "hget a h = Some (new_obj\<lparr>ob_s := Some (''no such obj: '' @ c_str s)\<rparr>)" .
    moreover from this have "b6b_get k I = Some (None, set_ret a (?I\<lparr>hp := h\<rparr>))" using run None str by simp
    ultimately show ?thesis using None by (auto simp: str_at_def obj_at_def set_ret_def)
  qed
qed

lemma demo_scopes:
  assumes I: "demo_start = Some (True, I)" and ok: "st_ok ctx0 {#args#} {} (0, [f], None, 1) I"
  obtains R where "scopes_ok (add_mset (t_ret (fg I)) R) (chain I) (hp I)"
proof -
  have "case demo_start of Some (_, I) \<Rightarrow> hash_ok (hp I) \<and> list_all (\<lambda>f. dict_ok (locals f) (hp I)) (chain I) | None \<Rightarrow> False"
    by code_simp
  then have "hash_ok (hp I) \<and> list_all (\<lambda>f. dict_ok (locals f) (hp I)) (chain I)" unfolding I by simp
  then have d: "hash_ok (hp I)" "\<And>g. g \<in> set (chain I) \<Longrightarrow> dict_ok (locals g) (hp I)" by (auto simp: list_all_iff)
  define R where "R = {#args#} + (xroots I + sum_list (map froots (t_curr (fg I))))"
  have h: "hinv {} (add_mset (t_ret (fg I)) R) (hp I)"
    using st_ok_ret_hinv [OF ok] by (simp add: R_def)
  have R: "add_mset (t_ret (fg I)) R = {#args#} + iroots I" by (simp add: R_def iroots_split)
  have "locals g \<in># add_mset (t_ret (fg I)) R" if g: "g \<in> set (chain I)" for g
  proof -
    have "t_curr (fg I) = [f]" using st_ok_sched [OF ok] by (simp add: tst_def)
    with g have "locals g \<in># groots I + sum_list (map froots (t_curr (fg I)))" by (auto simp: chain_def groots_def froots_def)
    moreover have "sum_list (map froots (t_curr (fg I))) \<subseteq># sum_list (map troots (threads I))"
      by (simp add: threads_def troots_def)
    ultimately show ?thesis unfolding R iroots_def by (metis UnE mset_subset_eqD set_mset_union UnI1 UnI2)
  qed
  with h d have "scopes_ok (add_mset (t_ret (fg I)) R) (chain I) (hp I)" by (simp add: scopes_ok_def dict_inv_def list_all_iff)
  then show thesis by (rule that)
qed

lemma get_innermost_witness:
  "\<exists>I I'. demo_start = Some (True, I) \<and> b6b_get (i_one I) I = Some (None, I')
    \<and> str_at (t_ret (fg I')) I' = Some ''no such obj: 1''"
proof -
  obtain I args f where I: "demo_start = Some (True, I)" "st_ok ctx0 {#args#} {} (0, [f], None, 1) I" by (rule demo_started)
  from demo_scopes [OF I] obtain R where ok: "scopes_ok (add_mset (t_ret (fg I)) R) (chain I) (hp I)" .
  have "case demo_start of Some (_, I) \<Rightarrow> text_of (hp I) (i_one I) = Some ''1'' \<and> scope (chain I) (hp I) ''1'' = None | None \<Rightarrow> False"
    by code_simp
  then have t: "text_of (hp I) (i_one I) = Some ''1''" "scope (chain I) (hp I) ''1'' = None" unfolding I(1) by simp_all
  from get_innermost [OF ok t(1)] t(2) I(1) show ?thesis by (auto simp: c_str_def NUL_def)
qed

section \<open>The queue of threads\<close>

definition ready :: "interp \<Rightarrow> thread list" where
  "ready I = filter pending (tq_after I @ tq_before I)"

text \<open>
  A run in which \<open>x\<close> gets no turn: switches to others, of which there are \<open>y\<close>, threads that are started, of which there
  are \<open>n\<close>, and anything else that leaves the queue alone.
\<close>

inductive unserved :: "('s \<Rightarrow> 'a) \<Rightarrow> ('s \<Rightarrow> 's option) \<Rightarrow> ('s \<Rightarrow> 's \<Rightarrow> bool) \<Rightarrow> ('s \<Rightarrow> 's \<Rightarrow> bool) \<Rightarrow> 'a \<Rightarrow> nat \<Rightarrow> nat \<Rightarrow> 's \<Rightarrow> 's \<Rightarrow> bool"
  for run switch start other x where
  unserved_refl: "unserved run switch start other x 0 0 s s"
| unserved_switch: "unserved run switch start other x y n s s' \<Longrightarrow> switch s' = Some s'' \<Longrightarrow> run s'' \<noteq> x
    \<Longrightarrow> unserved run switch start other x (Suc y) n s s''"
| unserved_start: "unserved run switch start other x y n s s' \<Longrightarrow> start s' s'' \<Longrightarrow> unserved run switch start other x y (Suc n) s s''"
| unserved_other: "unserved run switch start other x y n s s' \<Longrightarrow> other s' s'' \<Longrightarrow> unserved run switch start other x y n s s''"

text \<open>
  What the queue promises: a switch takes the first and may append some, a start puts one before the first, and
  nothing else changes it.
\<close>

locale ready_queue =
  fixes queue :: "'s \<Rightarrow> 'a list" and run :: "'s \<Rightarrow> 'a" and switch :: "'s \<Rightarrow> 's option"
    and start other :: "'s \<Rightarrow> 's \<Rightarrow> bool"
  assumes switch_law: "queue s = x # xs \<Longrightarrow> \<exists>s' ys. switch s = Some s' \<and> run s' = x \<and> queue s' = xs @ ys"
    and start_law: "start s s' \<Longrightarrow> \<exists>x. queue s' = x # queue s"
    and other_law: "other s s' \<Longrightarrow> queue s' = queue s"
begin

text \<open>The place in the queue moves by one with every switch and every start.\<close>

lemma place:
  "unserved run switch start other x y n s s' \<Longrightarrow> p < length (queue s) \<Longrightarrow> queue s ! p = x
     \<Longrightarrow> \<exists>q. q < length (queue s') \<and> queue s' ! q = x \<and> q + y = p + n"
proof (induction rule: unserved.induct)
  case (unserved_switch y n s s' s'')
  then obtain q where q: "q < length (queue s')" "queue s' ! q = x" "q + y = p + n" by blast
  then obtain z zs where z: "queue s' = z # zs" by (cases "queue s'") auto
  from switch_law [OF z] unserved_switch.hyps(2) obtain ys where s: "run s'' = z" "queue s'' = zs @ ys" by auto
  with unserved_switch.hyps(3) q(2) z have "q \<noteq> 0" by (cases q) auto
  with q z s show ?case by (intro exI [of _ "q - 1"]) (auto simp: nth_append nth_Cons')
next
  case (unserved_start y n s s' s'')
  then obtain q where q: "q < length (queue s')" "queue s' ! q = x" "q + y = p + n" by blast
  from start_law [OF unserved_start.hyps(2)] obtain z where "queue s'' = z # queue s'" by blast
  with q show ?case by (intro exI [of _ "Suc q"]) simp
next
  case (unserved_other y n s s' s'')
  then show ?case using other_law [OF unserved_other.hyps(2)] by simp
qed blast

lemma turn:
  assumes "unserved run switch start other x y n s s'" and "p < length (queue s)" and "queue s ! p = x"
  shows "y \<le> p + n \<and> (y = p + n \<longrightarrow> (\<exists>s''. switch s' = Some s'' \<and> run s'' = x))"
proof -
  from place [OF assms] obtain q where q: "q < length (queue s')" "queue s' ! q = x" "q + y = p + n" by blast
  then obtain z zs where z: "queue s' = z # zs" by (cases "queue s'") auto
  from switch_law [OF z] obtain s'' where "switch s' = Some s''" "run s'' = z" by blast
  with q z show ?thesis by auto
qed

end

lemma ready_switch:
  "case next_thread I of
     None \<Rightarrow> ready I = []
   | Some I' \<Rightarrow> \<exists>t rest. ready I = t # rest \<and> fg I' = to_fg t \<and> pending t
       \<and> ready I' = rest @ (if t_done (fg I) then [] else [to_bg (fg I)])"
proof -
  have none: "list_all (\<lambda>a. \<not> pending a) xs \<Longrightarrow> filter pending xs = []" for xs
    by (auto simp: list_all_iff filter_empty_conv)
  have bg: "pending (to_bg (fg I)) \<longleftrightarrow> \<not> t_done (fg I)" by (simp add: pending_def to_bg_def)
  show ?thesis
  proof (cases "split_at pending (tq_after I)")
    case (Some q)
    obtain xs t ys where q: "q = (xs, t, ys)" by (cases q)
    from split_at_Some [OF Some [unfolded q]] none [of xs] show ?thesis
      using Some q bg by (auto simp: next_thread_def ready_def)
  next
    case a: None
    show ?thesis
    proof (cases "split_at pending (tq_before I)")
      case (Some q)
      obtain xs t ys where q: "q = (xs, t, ys)" by (cases q)
      from split_at_Some [OF Some [unfolded q]] none [of xs] none [of "tq_after I"] a [unfolded split_at_None] show ?thesis
        using a Some q bg by (auto simp: next_thread_def ready_def)
    next
      case None
      moreover have "ready I = []"
        using none a [unfolded split_at_None] None [unfolded split_at_None] by (simp add: ready_def)
      ultimately show ?thesis using a by (simp add: next_thread_def)
    qed
  qed
qed

text \<open>What else a running thread does to the queue.\<close>

definition started :: "interp \<Rightarrow> interp \<Rightarrow> bool" where
  "started I J \<longleftrightarrow> (\<exists>fn. b6b_start fn I = Some J)"

text \<open>It frees the threads that are done, or it leaves the others as they are, whatever else it does.\<close>

definition worked :: "interp \<Rightarrow> interp \<Rightarrow> bool" where
  "worked I J \<longleftrightarrow> b6b_wait I = Some J \<or> (tq_before J = tq_before I \<and> tq_after J = tq_after I \<and> t_id (fg J) = t_id (fg I))"

lemma ready_start:
  assumes "b6b_start fn I = Some J"
  shows "fg J = fg I \<and> (\<exists>t. t_id t = next_tid I \<and> t_fn t = Some fn \<and> ready J = t # ready I)"
  using assms by (auto simp: b6b_start_def b6b_thread_new_def ready_def pending_def bind_Some split: prod.splits)

lemma ready_wait:
  assumes "b6b_wait I = Some J"
  shows "fg J = fg I \<and> ready J = ready I"
proof -
  have "filter pending (filter (\<lambda>t. \<not> t_done t) ts) = filter pending ts" for ts
    unfolding filter_filter by (rule filter_cong) (auto simp: pending_def)
  with assms show ?thesis by (auto simp: b6b_wait_def ready_def bind_Some split: if_splits)
qed

lemma ready_switch_ids:
  assumes "map t_id (ready I) = x # xs"
  shows "\<exists>I' ys. next_thread I = Some I' \<and> t_id (fg I') = x \<and> map t_id (ready I') = xs @ ys"
proof -
  from assms ready_switch [of I] obtain I' where I': "next_thread I = Some I'" by (cases "next_thread I") auto
  with ready_switch [of I] obtain t rest where "ready I = t # rest" "fg I' = to_fg t"
    "ready I' = rest @ (if t_done (fg I) then [] else [to_bg (fg I)])" by auto
  with I' assms show ?thesis by (simp add: to_fg_def)
qed

interpretation threads: ready_queue "\<lambda>I. map t_id (ready I)" "\<lambda>I. t_id (fg I)" next_thread started worked
proof
  show "\<exists>I' ys. next_thread I = Some I' \<and> t_id (fg I') = x \<and> map t_id (ready I') = xs @ ys"
    if "map t_id (ready I) = x # xs" for I x xs using that by (rule ready_switch_ids)
  show "\<exists>x. map t_id (ready J) = x # map t_id (ready I)" if "started I J" for I J
    using that ready_start unfolding started_def by fastforce
  show "map t_id (ready J) = map t_id (ready I)" if "worked I J" for I J
    using that unfolding worked_def
  proof (elim disjE)
    assume "b6b_wait I = Some J"
    then show ?thesis by (simp add: ready_wait)
  qed (simp add: ready_def)
qed

text \<open>
  C18. The threads that are ready form a queue that is used at both ends.  \<^verbatim>\<open>b6b_yield\<close> switches to the first and makes
  the one that yields the last, unless that is done; with none ready there is no switch.  A thread that is started is
  put before all others, so it is the next to run.  Freeing the threads that are done changes nothing.
\<close>

theorem ready_order:
  "(case b6b_yield I of
      Swap I' k \<Rightarrow> \<exists>t rest. ready I = t # rest \<and> fg I' = to_fg t
        \<and> ready I' = rest @ (if t_done (fg I) then [] else [to_bg (fg I)])
    | Ret switched I' \<Rightarrow> \<not> switched \<and> ready I = [] \<and> ready I' = []
    | _ \<Rightarrow> ready I = [])
   \<and> (case b6b_start fn I of
        None \<Rightarrow> True
      | Some I' \<Rightarrow> fg I' = fg I \<and> (\<exists>t. t_id t = next_tid I \<and> t_fn t = Some fn \<and> ready I' = t # ready I))
   \<and> (case b6b_wait I of None \<Rightarrow> True | Some I' \<Rightarrow> fg I' = fg I \<and> ready I' = ready I)"
proof (intro conjI)
  show "case b6b_yield I of
      Swap I' k \<Rightarrow> \<exists>t rest. ready I = t # rest \<and> fg I' = to_fg t
        \<and> ready I' = rest @ (if t_done (fg I) then [] else [to_bg (fg I)])
    | Ret switched I' \<Rightarrow> \<not> switched \<and> ready I = [] \<and> ready I' = []
    | _ \<Rightarrow> ready I = []"
  proof (cases "next_thread I")
    case None
    then show ?thesis
      using ready_switch [of I] ready_wait [of I] by (cases "b6b_wait I") (simp_all add: b6b_yield_def lift_upd_def)
  next
    case (Some I')
    then show ?thesis using ready_switch [of I] by (auto simp: b6b_yield_def)
  qed
qed (auto split: option.splits dest: ready_start ready_wait)

text \<open>
  C19. Every thread that is ready gets its turn.  In any run, in which threads yield, start others, free those that
  are done, end, or do anything else, a thread at place \<open>p\<close> of the queue, counted from 0, that has not run yet is overtaken
  only by the threads started since: after \<open>n\<close> of these there have been at most \<open>p + n\<close> switches, and after so
  many the next one is to it.
\<close>

theorem yield_turns:
  assumes "unserved (\<lambda>I. t_id (fg I)) next_thread started worked x y n I J"
    and "p < length (ready I)" and "t_id (ready I ! p) = x"
  shows "y \<le> p + n \<and> (y = p + n \<longrightarrow> (\<exists>K. next_thread J = Some K \<and> t_id (fg K) = x))"
  by (rule threads.turn [OF assms(1)]) (use assms(2,3) in simp_all)

lemma yield_turns_witness:
  "\<exists>I t u J. demo_start = Some (True, I) \<and> next_thread (I\<lparr>tq_after := [t, u]\<rparr>) = Some J \<and> t_id (fg J) = 5
    \<and> (\<exists>K. next_thread J = Some K \<and> t_id (fg K) = 6)"
proof -
  obtain I args f where I: "demo_start = Some (True, I)" by (rule demo_started)
  let ?t = "(fg I)\<lparr>t_id := 5, t_bg := True, t_done := False\<rparr>" and ?u = "(fg I)\<lparr>t_id := 6, t_bg := True, t_done := False\<rparr>"
  let ?I = "I\<lparr>tq_after := [?t, ?u]\<rparr>"
  have r: "ready ?I = ?t # ?u # filter pending (tq_before I)" by (simp add: ready_def pending_def)
  from ready_switch_ids [of ?I 5 "6 # map t_id (filter pending (tq_before I))"] r
  obtain J where J: "next_thread ?I = Some J" "t_id (fg J) = 5" by auto
  have "unserved (\<lambda>I. t_id (fg I)) next_thread started worked 6 (Suc 0) 0 ?I J"
    by (rule unserved_switch, rule unserved_refl, rule J(1)) (simp add: J(2))
  from yield_turns [OF this, of 1] r obtain K where "next_thread J = Some K" "t_id (fg K) = 6" by auto
  with I J show ?thesis by (intro exI conjI)
qed

end
