(* ===== verification/Args_Props.thy ===== *)
theory Args_Props
  imports Interp_Props
begin

text \<open>
  The arguments of a procedure have the representations its format asks for
  (\<^verbatim>\<open>b6b_list_vparse\<close> of src/b6b_list.c, \<^verbatim>\<open>b6b_proc_get_args\<close> of src/b6b_proc.c).  The C code
  reads \<open>o->s\<close>, \<open>o->i\<close>, \<open>o->f\<close> and the list of an argument without looking at its flags again, so
  a later conversion must not take away what an earlier one has computed: the relation
  \<open>gains\<close>.
\<close>

section \<open>Representations are only gained\<close>

definition reps_le :: "obj \<Rightarrow> obj \<Rightarrow> bool" where
  "reps_le ob ob' \<longleftrightarrow> opt_le (ob_s ob) (ob_s ob') \<and> opt_le (ob_i ob) (ob_i ob')
     \<and> opt_le (ob_f ob) (ob_f ob')
     \<and> ((\<exists>its. ob_l ob = Items its) \<longrightarrow> (\<exists>its. ob_l ob' = Items its))
     \<and> (ob_l ob \<noteq> Freed_items \<longrightarrow> ob_l ob' \<noteq> Freed_items)"

lemma reps_le_refl [simp]: "reps_le ob ob"
  by (simp add: reps_le_def)

lemma reps_le_trans: "reps_le a b \<Longrightarrow> reps_le b c \<Longrightarrow> reps_le a c"
  unfolding reps_le_def by (blast intro: opt_le_trans)

lemma obj_le_reps: "obj_le ob ob' \<Longrightarrow> reps_le ob ob'"
  by (simp add: obj_le_def reps_le_def)

definition gains :: "heap \<Rightarrow> heap \<Rightarrow> bool" where
  "gains h h' \<longleftrightarrow> (\<forall>a ob. hget a h = Some ob \<longrightarrow> (\<exists>ob'. hget a h' = Some ob' \<and> reps_le ob ob'))"

lemma gains_refl [simp]: "gains h h"
  by (simp add: gains_def)

lemma gainsD:
  assumes "gains h h'" and "hget a h = Some ob"
  obtains ob' where "hget a h' = Some ob'" and "reps_le ob ob'"
  using assms unfolding gains_def by blast

lemma gains_trans: "gains h1 h2 \<Longrightarrow> gains h2 h3 \<Longrightarrow> gains h1 h3"
  unfolding gains_def by (meson reps_le_trans)

lemma conv_le_gains: "conv_le h h' \<Longrightarrow> gains h h'"
  unfolding conv_le_def gains_def by (meson obj_le_reps)

lemma gains_hset:
  assumes "hget a h = Some ob" and "reps_le ob ob'"
  shows "gains h (hset a ob' h)"
  using assms by (auto simp: gains_def hget_hset)

text \<open>The new string of a token is given to the list and stays.\<close>

lemma token_gains:
  assumes "b6b_str_copy t h = (i, h1)" and "b6b_list_do_add l i h1 = Some h2"
    and "b6b_unref i h2 = Some h3"
  shows "gains h h3" and "hget l h = Some lo \<Longrightarrow> \<exists>lo' its. hget l h3 = Some lo' \<and> ob_l lo' = Items its"
proof -
  have i: "i = length (cells h)" and h1: "\<And>b. hget b h1 = (if b = i then Some (str_obj t) else hget b h)"
    using assms(1) by (auto simp: b6b_str_copy_def b6b_str_new_def b6b_new_def halloc_def str_obj_def hget_def nth_append)
  have old: "b \<noteq> i" if "hget b h = Some ob" for b ob using that i hget_Some_less by fastforce
  define h1' where "h1' = hset i ((str_obj t)\<lparr>ob_refc := Suc 1\<rparr>) h1"
  have r: "b6b_ref i h1 = Some h1'"
    by (simp add: b6b_ref_def hupd_def h1 h1'_def)
  have g1': "hget b h1' = (if b = i then Some ((str_obj t)\<lparr>ob_refc := Suc 1\<rparr>) else hget b h1)" for b
    unfolding h1'_def by (rule hget_hset) (simp add: h1)
  from assms(2) r obtain ob where ob1: "hget l h1' = Some ob"
    and "(case ob_l ob of
       Items its \<Rightarrow> Some (hset l (ob\<lparr>ob_l := Items (its @ [(next_li h1', i)])\<rparr>) h1'\<lparr>next_li := Suc (next_li h1')\<rparr>)
     | _ \<Rightarrow> None) = Some h2"
    unfolding b6b_list_do_add_def bind_Some by (metis option.inject)
  then obtain its where ob: "hget l h1' = Some ob" "ob_l ob = Items its"
    and h2: "h2 = hset l (ob\<lparr>ob_l := Items (its @ [(next_li h1', i)])\<rparr>) h1'\<lparr>next_li := Suc (next_li h1')\<rparr>"
    by (cases "ob_l ob") auto
  have li: "l \<noteq> i" using ob by (auto simp: g1')
  have lh: "hget l h = Some ob" using ob(1) li by (simp add: g1' h1)
  have g2: "hget b h2 = (if b = l then Some (ob\<lparr>ob_l := Items (its @ [(next_li h1', i)])\<rparr>) else hget b h1')" for b
    unfolding h2 hget_next_li by (rule hget_hset) (rule ob(1))
  have gi: "hget i h2 = Some ((str_obj t)\<lparr>ob_refc := Suc 1\<rparr>)" using li by (simp add: g2 g1')
  have h3: "h3 = hset i ((str_obj t)\<lparr>ob_refc := 1\<rparr>) h2"
    using assms(3) gi by (simp add: b6b_unref_def)
  have g3: "hget b h3 = (if b = i then Some ((str_obj t)\<lparr>ob_refc := 1\<rparr>) else hget b h2)" for b
    unfolding h3 by (rule hget_hset) (rule gi)
  show "\<exists>lo' its. hget l h3 = Some lo' \<and> ob_l lo' = Items its" using li by (simp add: g3 g2)
  show "gains h h3" unfolding gains_def
  proof (intro allI impI)
    fix b o1 assume b: "hget b h = Some o1"
    with old have "b \<noteq> i" by blast
    with b lh ob(2) show "\<exists>ob'. hget b h3 = Some ob' \<and> reps_le o1 ob'"
      by (cases "b = l") (auto simp: g3 g2 g1' h1 reps_le_def)
  qed
qed

lemma b6b_do_as_list_gains:
  "b6b_do_as_list l s h = Some (True, h') \<Longrightarrow> gains h h'"
proof (induction l s h rule: b6b_do_as_list.induct)
  case (1 l s h)
  show ?case
  proof (cases "next_token s")
    case (Tok item rest)
    obtain i h1 where new: "b6b_str_copy item h = (i, h1)" by (cases "b6b_str_copy item h")
    with Tok "1.prems" obtain h2 h3 where s: "b6b_list_do_add l i h1 = Some h2" "b6b_unref i h2 = Some h3"
      and rest: "b6b_do_as_list l rest h3 = Some (True, h')"
      by (auto simp: b6b_do_as_list.simps [of l s] bind_Some)
    from "1.IH" [OF Tok new [symmetric] s rest] token_gains(1) [OF new s] show ?thesis
      by (blast intro: gains_trans)
  qed (use "1.prems" in \<open>auto simp: b6b_do_as_list.simps [of l s]\<close>)
qed

lemma b6b_as_list_gains:
  assumes "b6b_as_list a h = Some (True, h')"
  shows "gains h h'"
proof -
  from assms obtain ob where ob: "hget a h = Some ob" by (auto simp: b6b_as_list_def bind_Some)
  show ?thesis
  proof (cases "ob_l ob = No_list")
    case False
    with assms ob show ?thesis by (simp add: b6b_as_list_def)
  next
    case True
    with assms ob obtain h1 ob1 s where s: "b6b_as_str a h = Some (True, h1)"
      "hget a h1 = Some ob1" "ob_s ob1 = Some s"
      "b6b_do_as_list a s (hset a (ob1\<lparr>ob_l := Items []\<rparr>) h1) = Some (True, h')"
      by (auto simp: b6b_as_list_def bind_Some split: if_splits)
    have "gains h h1" by (rule conv_le_gains [OF b6b_as_str_conv_le [OF s(1)]])
    moreover have "gains h1 (hset a (ob1\<lparr>ob_l := Items []\<rparr>) h1)"
      by (rule gains_hset [OF s(2)]) (simp add: reps_le_def)
    ultimately show ?thesis using b6b_do_as_list_gains [OF s(4)] by (blast intro: gains_trans)
  qed
qed


section \<open>What a format promises\<close>

text \<open>The representation the code of a procedure then reads of an argument.\<close>

definition rep_for :: "char \<Rightarrow> obj \<Rightarrow> bool" where
  "rep_for c ob \<longleftrightarrow>
     (c = CHR ''s'' \<longrightarrow> ob_s ob \<noteq> None) \<and> (c = CHR ''i'' \<longrightarrow> ob_i ob \<noteq> None)
     \<and> (c = CHR ''f'' \<longrightarrow> ob_f ob \<noteq> None) \<and> (c = CHR ''l'' \<longrightarrow> (\<exists>its. ob_l ob = Items its))"

lemma rep_for_mono: "rep_for c ob \<Longrightarrow> reps_le ob ob' \<Longrightarrow> rep_for c ob'"
  unfolding rep_for_def reps_le_def by auto

definition typed_at :: "heap \<Rightarrow> char \<Rightarrow> addr \<Rightarrow> bool" where
  "typed_at h c a \<longleftrightarrow> (\<exists>ob. hget a h = Some ob \<and> rep_for c ob)"

lemma typed_at_gains: "typed_at h c a \<Longrightarrow> gains h h' \<Longrightarrow> typed_at h' c a"
  unfolding typed_at_def by (meson gainsD rep_for_mono)

text \<open>
  The format characters but \<open>|\<close>, each with whether its argument is wanted and with the item of
  the list it stands for; and what is stored for it.
\<close>

definition chars :: "string \<Rightarrow> string" where
  "chars fmt = [c \<leftarrow> fmt. c \<noteq> CHR ''|'']"

definition matched :: "string \<Rightarrow> bool list \<Rightarrow> (litem \<times> addr) list \<Rightarrow> (char \<times> litem \<times> addr) list" where
  "matched fs wants its = map (\<lambda>(c, w, p). (c, p)) [t \<leftarrow> zip fs (zip wants its). fst (snd t)]"

fun stored :: "char \<times> litem \<times> addr \<Rightarrow> parg" where
  "stored (c, li, a) = (if c = CHR ''*'' then Rest li else Arg a)"

lemma chars_simps [simp]:
  "chars [] = []" "chars (c # fmt) = (if c = CHR ''|'' then chars fmt else c # chars fmt)"
  by (simp_all add: chars_def)

lemma matched_simps [simp]:
  "matched [] wants its = []" "matched fs wants [] = []"
  "matched (c # fs) (w # wants) (p # its) =
     (if w then (c, p) # matched fs wants its else matched fs wants its)"
  by (simp_all add: matched_def)

text \<open>What a conversion establishes, and keeps of the others.\<close>

lemma hget_hset_self: "hget a h = Some x \<Longrightarrow> hget a (hset a ob h) = Some ob"
  by (simp add: hget_hset)

lemma as_str_has:
  assumes "b6b_as_str a h = Some (True, h')"
  shows "\<exists>ob. hget a h' = Some ob \<and> ob_s ob \<noteq> None"
proof -
  from assms obtain ob where ob: "hget a h = Some ob" by (auto simp: b6b_as_str_def bind_Some)
  consider "ob_s ob \<noteq> None" "h' = h"
    | s h1 ob1 where "hget a h1 = Some ob1" "h' = hset a (ob1\<lparr>ob_s := Some s\<rparr>) h1"
    using assms ob unfolding b6b_as_str_def
    by (cases "ob_s ob"; cases "ob_l ob"; cases "ob_f ob"; cases "ob_i ob")
      (auto simp: bind_Some hupd_Some split: if_splits)
  then show ?thesis using ob by cases (auto simp: hget_hset_self)
qed

lemma as_float_has:
  assumes "b6b_as_float a h = Some (True, h')"
  shows "\<exists>ob. hget a h' = Some ob \<and> ob_f ob \<noteq> None"
proof -
  from assms obtain ob where ob: "hget a h = Some ob" by (auto simp: b6b_as_float_def bind_Some)
  consider "ob_f ob \<noteq> None" "h' = h"
    | d h1 ob1 where "hget a h1 = Some ob1" "h' = hset a (ob1\<lparr>ob_f := Some d\<rparr>) h1"
    using assms ob unfolding b6b_as_float_def
    by (auto simp: bind_Some split: if_splits option.splits)
  then show ?thesis using ob by cases (auto simp: hget_hset_self)
qed

lemma as_int_has:
  assumes "b6b_as_int a h = Some (True, h')"
  shows "\<exists>ob. hget a h' = Some ob \<and> ob_i ob \<noteq> None"
  using assms unfolding b6b_as_int_def
  by (auto simp: bind_Some hget_hset split: if_splits option.splits)

lemma as_list_has:
  assumes "b6b_as_list a h = Some (True, h')" and "hget a h = Some ob" and "ob_l ob \<noteq> Freed_items"
  shows "\<exists>ob its. hget a h' = Some ob \<and> ob_l ob = Items its"
proof (cases "ob_l ob = No_list")
  case False
  with assms show ?thesis by (cases "ob_l ob") (auto simp: b6b_as_list_def)
next
  case True
  with assms obtain h1 ob1 s where s: "hget a h1 = Some ob1"
    "b6b_do_as_list a s (hset a (ob1\<lparr>ob_l := Items []\<rparr>) h1) = Some (True, h')"
    by (auto simp: b6b_as_list_def bind_Some split: if_splits)
  from s(1) have "hget a (hset a (ob1\<lparr>ob_l := Items []\<rparr>) h1) = Some (ob1\<lparr>ob_l := Items []\<rparr>)"
    by (simp add: hget_hset)
  with b6b_do_as_list_gains [OF s(2)] obtain ob2 where "hget a h' = Some ob2"
    "reps_le (ob1\<lparr>ob_l := Items []\<rparr>) ob2" by (rule gainsD)
  then show ?thesis by (auto simp: reps_le_def)
qed

text \<open>An object that is alive and whose list, if it has one, was not freed.\<close>

definition intact :: "heap \<Rightarrow> addr \<Rightarrow> bool" where
  "intact h a \<longleftrightarrow> (\<exists>ob. hget a h = Some ob \<and> ob_l ob \<noteq> Freed_items)"

lemma intact_gains: "intact h a \<Longrightarrow> gains h h' \<Longrightarrow> intact h' a"
  unfolding intact_def by (metis gainsD reps_le_def)

lemma convert_arg_typed:
  assumes run: "convert_arg c a h = Some (True, h')" and "intact h a"
  shows "gains h h' \<and> typed_at h' c a"
proof -
  from \<open>intact h a\<close> obtain ob where ob: "hget a h = Some ob" "ob_l ob \<noteq> Freed_items"
    unfolding intact_def by blast
  consider "c = CHR ''o''" "h' = h" | "c = CHR ''s''" "b6b_as_str a h = Some (True, h')"
    | "c = CHR ''l''" "b6b_as_list a h = Some (True, h')"
    | "c = CHR ''i''" "b6b_as_int a h = Some (True, h')"
    | "c = CHR ''f''" "b6b_as_float a h = Some (True, h')"
    using run by (auto simp: convert_arg_def split: if_splits)
  then show ?thesis
  proof cases
    case 1
    with ob show ?thesis by (simp add: typed_at_def rep_for_def)
  next
    case 2
    with as_str_has [OF 2(2)] show ?thesis
      by (auto simp: typed_at_def rep_for_def intro: conv_le_gains b6b_as_str_conv_le)
  next
    case 3
    with as_list_has [OF 3(2) ob] show ?thesis
      by (auto simp: typed_at_def rep_for_def intro: b6b_as_list_gains)
  next
    case 4
    with as_int_has [OF 4(2)] show ?thesis
      by (auto simp: typed_at_def rep_for_def intro: conv_le_gains b6b_as_int_conv_le)
  next
    case 5
    with as_float_has [OF 5(2)] show ?thesis
      by (auto simp: typed_at_def rep_for_def intro: conv_le_gains b6b_as_float_conv_le)
  qed
qed

definition parsed :: "string \<Rightarrow> bool list \<Rightarrow> (litem \<times> addr) list \<Rightarrow> nat \<Rightarrow> parg list \<Rightarrow> heap \<Rightarrow> bool" where
  "parsed fs wants its k ps h \<longleftrightarrow> k \<le> length fs \<and> k \<le> length its
     \<and> ps = map stored (matched (take k fs) wants its)
     \<and> (\<forall>(c, li, a) \<in> set (matched (take k fs) wants its). c = CHR ''*'' \<or> typed_at h c a)"

lemma parsed_Suc:
  "parsed (c # fs) (w # wants) ((li, a) # its) (Suc k) ps h \<longleftrightarrow>
     (if w then \<exists>ps'. ps = stored (c, li, a) # ps' \<and> (c = CHR ''*'' \<or> typed_at h c a)
          \<and> parsed fs wants its k ps' h
      else parsed fs wants its k ps h)"
  by (auto simp: parsed_def)

lemma parsed_0: "parsed fs wants its 0 ps h \<longleftrightarrow> ps = []"
  by (simp add: parsed_def)

definition parse_ends :: "string \<Rightarrow> bool \<Rightarrow> nat \<Rightarrow> nat \<Rightarrow> bool" where
  "parse_ends fmt opt len k \<longleftrightarrow> (0 < k \<and> chars fmt ! (k - 1) = CHR ''*'')
     \<or> (k = len \<and> (opt \<or> length (takeWhile (\<lambda>c. c \<noteq> CHR ''|'') fmt) \<le> k))"

lemma vparse_typed:
  "vparse fmt wants opt its n h = Some (m, ps, h') \<Longrightarrow> m \<noteq> 0 \<Longrightarrow>
   (\<And>p. p \<in> set its \<Longrightarrow> intact h (snd p)) \<Longrightarrow>
   \<exists>k. m = n + k \<and> gains h h' \<and> parsed (chars fmt) wants its k ps h' \<and> parse_ends fmt opt (length its) k"
proof (induction fmt wants opt its n h arbitrary: m ps h' rule: vparse.induct)
  case (1 wants opt its n h)
  then show ?case by (intro exI [of _ 0]) (auto simp: parsed_0 parse_ends_def split: if_splits)
next
  case (2 c fmt wants opt its n h)
  show ?case
  proof (cases "c = CHR ''|''")
    case True
    with "2.prems" have "vparse fmt wants True its n h = Some (m, ps, h')" by simp
    from "2.IH"(1) [OF True this "2.prems"(2,3)] True show ?thesis by (auto simp: parse_ends_def)
  next
    case c: False
    show ?thesis
    proof (cases its)
      case Nil
      with c "2.prems" show ?thesis
        by (intro exI [of _ 0]) (auto simp: parsed_0 parse_ends_def split: if_splits)
    next
      case (Cons p its')
      obtain li a where p: "p = (li, a)" by (cases p)
      note its = Cons [unfolded p]
      from c its "2.prems"(1) obtain want wants' where w: "wants = want # wants'"
        by (cases wants) auto
      have ends: "parse_ends (c # fmt) opt (Suc (length its')) (Suc k)"
        if "parse_ends fmt opt (length its') k" for k
        using that c by (cases k) (auto simp: parse_ends_def)
      consider (skip) "\<not> want" | (star) "want" "c = CHR ''*''" | (conv) "want" "c \<noteq> CHR ''*''" by blast
      then show ?thesis
      proof cases
        case skip
        with c its w "2.prems"(1) have "vparse fmt wants' opt its' (Suc n) h = Some (m, ps, h')" by simp
        from "2.IH"(2) [OF c its refl w skip this "2.prems"(2)] "2.prems"(3) its obtain k where
          "m = Suc n + k" "gains h h'" "parsed (chars fmt) wants' its' k ps h'"
          "parse_ends fmt opt (length its') k" by auto
        with c its w skip show ?thesis
          by (intro exI [of _ "Suc k"]) (auto simp: parsed_Suc intro: ends)
      next
        case star
        with c its w "2.prems"(1) show ?thesis
          by (intro exI [of _ 1]) (auto simp: parsed_Suc parsed_0 parse_ends_def)
      next
        case conv
        from c its w conv "2.prems"(1,2) obtain h1 m' args h2 where
          s: "convert_arg c a h = Some (True, h1)"
            "vparse fmt wants' opt its' (Suc n) h1 = Some (m', args, h2)"
            "m = m'" "ps = Arg a # args" "h' = h2"
          by (auto simp: bind_Some split: if_splits)
        have g1: "gains h h1" "typed_at h1 c a"
          using convert_arg_typed [OF s(1)] "2.prems"(3) [of "(li, a)"] its by auto
        have "intact h1 (snd q)" if "q \<in> set its'" for q
          using "2.prems"(3) [of q] that its g1(1) by (auto intro: intact_gains)
        with "2.IH"(3) [OF c its refl w _ conv(2) s(1) refl _ s(2)] conv "2.prems"(2) s(3) obtain k where
          k: "m = Suc n + k" "gains h1 h2" "parsed (chars fmt) wants' its' k args h2"
          "parse_ends fmt opt (length its') k" by auto
        from g1(2) k(2) have "typed_at h2 c a" by (rule typed_at_gains)
        with c its w conv k s(4,5) g1(1) show ?thesis
          by (intro exI [of _ "Suc k"]) (auto simp: parsed_Suc intro: ends gains_trans)
      qed
    qed
  qed
qed


section \<open>Arguments of a procedure\<close>

lemma items_intact:
  assumes "rc_ok R h" and "items_of l h = Some its" and "p \<in> set its"
  shows "intact h (snd p)"
proof -
  from assms(2) obtain lo where lo: "hget l h = Some lo" "ob_l lo = Items its"
    by (auto simp: items_of_Some)
  with assms(3) have "snd p \<in># heap_refs h" by (auto simp: heap_refs_mem refs_of_def)
  then obtain ob where ob: "hget (snd p) h = Some ob" using rc_ok_live [OF assms(1)] by auto
  with rc_okD(3) [OF assms(1) ob] show ?thesis by (auto simp: intact_def)
qed

text \<open>
  C7. When \<^verbatim>\<open>b6b_proc_get_args\<close> accepts the arguments of a call, the procedure gets the items of
  the list that its format wants, in their order, and each has, at the time the procedure
  starts, the representation its format character stands for, whatever the later conversions did to
  the same or other objects; the number it returns is the number of items, at least the
  characters before \<open>|\<close> and at most all, unless the format ends the parsing with \<open>*\<close>.
\<close>

theorem get_args_typed:
  assumes "rc_ok R (hp I)" and "items_of l (hp I) = Some its"
    and run: "b6b_proc_get_args l fmt wants I = Some (argc, ps, I')" and "argc \<noteq> 0"
  shows "ps = map stored (matched (take argc (chars fmt)) wants its)
    \<and> (\<forall>(c, li, a) \<in> set (matched (take argc (chars fmt)) wants its).
          c = CHR ''*'' \<or> (\<exists>ob. hget a (hp I') = Some ob \<and> rep_for c ob))
    \<and> argc \<le> length (chars fmt)
    \<and> (chars fmt ! (argc - 1) = CHR ''*''
       \<or> argc = length its \<and> length (takeWhile (\<lambda>c. c \<noteq> CHR ''|'') fmt) \<le> argc)"
proof -
  from run \<open>argc \<noteq> 0\<close> assms(2) have v: "vparse fmt wants False its 0 (hp I) = Some (argc, ps, hp I')"
    by (auto simp: b6b_proc_get_args_def on_heap_def b6b_list_vparse_def bind_Some neq_Nil_conv
        split: if_splits list.split_asm)
  from vparse_typed [OF v \<open>argc \<noteq> 0\<close> items_intact [OF assms(1,2)]]
  have "parsed (chars fmt) wants its argc ps (hp I')" "parse_ends fmt False (length its) argc" by auto
  then show ?thesis by (auto simp: parsed_def parse_ends_def typed_at_def)
qed

lemma get_args_typed_witness:
  "case demo_start of Some (_, I) \<Rightarrow>
     (\<exists>I'. b6b_proc_get_args 0 ''fs|o'' [True, True, True] (I\<lparr>hp := demo_heap\<rparr>) = Some (2, [Arg 1, Arg 2], I')
       \<and> (\<exists>ob. hget 1 (hp I') = Some ob \<and> ob_f ob \<noteq> None) \<and> (\<exists>ob. hget 2 (hp I') = Some ob \<and> ob_s ob \<noteq> None))
   | None \<Rightarrow> False"
proof -
  obtain I args f where I: "demo_start = Some (True, I)" "st_ok ctx0 {#args#} {} (0, [f], None, 1) I" by (rule demo_started)
  let ?I = "I\<lparr>hp := demo_heap\<rparr>"
  have "map_option (\<lambda>(n, ps, h). (n, ps)) (b6b_list_vparse 0 ''fs|o'' [True, True, True] demo_heap) = Some (2, [Arg 1, Arg 2])"
    by code_simp
  then obtain I' where run: "b6b_proc_get_args 0 ''fs|o'' [True, True, True] ?I = Some (2, [Arg 1, Arg 2], I')"
    by (auto simp: b6b_proc_get_args_def on_heap_def)
  have its: "items_of 0 (hp ?I) = Some [(0, 1), (1, 2)]" by (simp, code_simp)
  have ok: "rc_ok {#0, 3, 4#} (hp ?I)" using demo_heap_ok(4) by simp
  have "(\<exists>ob. hget 1 (hp I') = Some ob \<and> ob_f ob \<noteq> None) \<and> (\<exists>ob. hget 2 (hp I') = Some ob \<and> ob_s ob \<noteq> None)"
    using get_args_typed [OF ok its run] by (simp add: matched_def chars_def rep_for_def)
  with run show ?thesis unfolding I(1) option.case prod.case by blast
qed

end
