(* ===== verification/Os.thy ===== *)
theory Os
  imports Prelude
begin

text \<open>
  The operating system and the C library as the code uses them: a record of functions on the
  world outside the process, which may be of any type.  A call that fails gives \<open>Inl\<close> of
  \<^verbatim>\<open>errno\<close>; one without a value gives \<open>Some\<close> of it.  Nothing is assumed of the functions here;
  a theorem that needs more names what it needs.
\<close>

section \<open>Constants\<close>

type_synonym ptr = "64 word"

definition SSIZE_MAX :: int where "SSIZE_MAX = 2 ^ 63 - 1"
definition UINT_MAX :: int where "UINT_MAX = 2 ^ 32 - 1"

definition ENOENT :: int where "ENOENT = 2"
definition EINTR :: int where "EINTR = 4"
definition EAGAIN :: int where "EAGAIN = 11"
definition EWOULDBLOCK :: int where "EWOULDBLOCK = 11"
definition EEXIST :: int where "EEXIST = 17"
definition EINVAL :: int where "EINVAL = 22"
definition EMFILE :: int where "EMFILE = 24"
definition EINPROGRESS :: int where "EINPROGRESS = 115"

definition EPOLLIN :: u32 where "EPOLLIN = 1"
definition EPOLLOUT :: u32 where "EPOLLOUT = 4"
definition EPOLLERR :: u32 where "EPOLLERR = 8"
definition EPOLLHUP :: u32 where "EPOLLHUP = 16"
definition EPOLLRDHUP :: u32 where "EPOLLRDHUP = 8192"

definition SOCK_STREAM :: int where "SOCK_STREAM = 1"
definition SOCK_DGRAM :: int where "SOCK_DGRAM = 2"
definition AF_UNIX :: int where "AF_UNIX = 1"

section \<open>Addresses of sockets\<close>

text \<open>
  \<^verbatim>\<open>struct sockaddr_storage\<close> by its family: the bytes of an internet address with its port, the
  path of a local one (up to its NUL).
\<close>

datatype sockaddr = Sa_unspec | Sa_in string "16 word" | Sa_in6 string "16 word" | Sa_un string | Sa_other int

record addrinfo =
  ai_family :: int
  ai_socktype :: int
  ai_protocol :: int
  ai_addr :: sockaddr
  ai_addrlen :: int

section \<open>Events\<close>

record epoll_event =
  ev_events :: u32
  ev_fd :: int

section \<open>Calls\<close>

datatype whence = SEEK_SET | SEEK_END
datatype bmode = IONBF | IOLBF | IOFBF
datatype epoll_op = EPOLL_CTL_ADD u32 | EPOLL_CTL_DEL

text \<open>
  \<open>os_sh_fork\<close> is \<^verbatim>\<open>fork\<close> with the part of the child (the three \<^verbatim>\<open>dup2\<close> calls and \<^verbatim>\<open>execl\<close> of a
  shell with the command); it gives the value in the parent.  \<open>os_nonblock\<close> is \<^verbatim>\<open>F_GETFL\<close> and
  \<^verbatim>\<open>F_SETFL\<close> with \<^verbatim>\<open>O_NONBLOCK\<close>, \<open>os_cloexec\<close> is \<^verbatim>\<open>F_SETFD\<close>.  \<open>os_inet_ntop\<close> takes whether the
  address is one of version 6.
\<close>

record 'w os =
  os_strerror :: "int \<Rightarrow> string"
  os_fionread :: "int \<Rightarrow> 'w \<Rightarrow> (int + int) \<times> 'w"
  os_read :: "int \<Rightarrow> nat \<Rightarrow> 'w \<Rightarrow> (int + string) \<times> 'w"
  os_recv :: "int \<Rightarrow> nat \<Rightarrow> 'w \<Rightarrow> (int + string) \<times> 'w"
  os_recvfrom :: "int \<Rightarrow> nat \<Rightarrow> 'w \<Rightarrow> (int + string \<times> sockaddr) \<times> 'w"
  os_write :: "int \<Rightarrow> string \<Rightarrow> 'w \<Rightarrow> (int + int) \<times> 'w"
  os_send :: "int \<Rightarrow> string \<Rightarrow> 'w \<Rightarrow> (int + int) \<times> 'w"
  os_close :: "int \<Rightarrow> 'w \<Rightarrow> 'w"
  os_unlink :: "string \<Rightarrow> 'w \<Rightarrow> 'w"
  os_cloexec :: "int \<Rightarrow> 'w \<Rightarrow> int option \<times> 'w"
  os_nonblock :: "int \<Rightarrow> 'w \<Rightarrow> int option \<times> 'w"
  os_pipe2 :: "'w \<Rightarrow> (int + int \<times> int) \<times> 'w"
  os_sh_fork :: "string \<Rightarrow> int \<times> int \<times> int \<Rightarrow> 'w \<Rightarrow> int \<times> 'w"
  os_waitpid :: "int \<Rightarrow> 'w \<Rightarrow> 'w"
  os_realpath :: "string \<Rightarrow> 'w \<Rightarrow> (int + string) \<times> 'w"
  os_eventfd :: "32 word \<Rightarrow> 'w \<Rightarrow> (int + int) \<times> 'w"
  os_timerfd_create :: "'w \<Rightarrow> (int + int) \<times> 'w"
  os_timerfd_settime :: "int \<Rightarrow> int \<times> int \<Rightarrow> int \<times> int \<Rightarrow> 'w \<Rightarrow> int option \<times> 'w"
  os_nanosleep :: "int \<times> int \<Rightarrow> 'w \<Rightarrow> (int \<times> int \<times> int) option \<times> 'w"
  os_epoll_create1 :: "'w \<Rightarrow> (int + int) \<times> 'w"
  os_epoll_ctl :: "int \<Rightarrow> epoll_op \<Rightarrow> int \<Rightarrow> 'w \<Rightarrow> int option \<times> 'w"
  os_epoll_wait :: "int \<Rightarrow> int \<Rightarrow> int \<Rightarrow> 'w \<Rightarrow> (int + epoll_event list) \<times> 'w"
  os_sigaddset :: "int \<Rightarrow> bool"
  os_sigblock :: "int list \<Rightarrow> 'w \<Rightarrow> int option \<times> 'w"
  os_sigunblock :: "int list \<Rightarrow> 'w \<Rightarrow> 'w"
  os_signalfd :: "int list \<Rightarrow> 'w \<Rightarrow> (int + int) \<times> 'w"
  os_siginfo_signo :: "string \<Rightarrow> int"
  os_fopen :: "string \<Rightarrow> string \<Rightarrow> 'w \<Rightarrow> (int + ptr) \<times> 'w"
  os_fileno :: "ptr \<Rightarrow> 'w \<Rightarrow> int"
  os_ftello :: "ptr \<Rightarrow> 'w \<Rightarrow> int"
  os_fseeko :: "ptr \<Rightarrow> int \<Rightarrow> whence \<Rightarrow> 'w \<Rightarrow> int option \<times> 'w"
  os_fread :: "ptr \<Rightarrow> nat \<Rightarrow> 'w \<Rightarrow> (int \<times> string) \<times> 'w"
  os_fwrite :: "ptr \<Rightarrow> string \<Rightarrow> 'w \<Rightarrow> (int \<times> nat) \<times> 'w"
  os_ferror :: "ptr \<Rightarrow> 'w \<Rightarrow> bool"
  os_feof :: "ptr \<Rightarrow> 'w \<Rightarrow> bool"
  os_clearerr :: "ptr \<Rightarrow> 'w \<Rightarrow> 'w"
  os_setvbuf :: "ptr \<Rightarrow> bmode \<Rightarrow> 'w \<Rightarrow> bool \<times> 'w"
  os_fclose :: "ptr \<Rightarrow> 'w \<Rightarrow> 'w"
  os_inet_ntop :: "bool \<Rightarrow> string \<Rightarrow> string option"
  os_getaddrinfo :: "string option \<Rightarrow> string option \<Rightarrow> bool \<Rightarrow> int \<Rightarrow> 'w \<Rightarrow> (int + addrinfo list) \<times> 'w"
  os_gai_strerror :: "int \<Rightarrow> string option"
  os_socket :: "int \<Rightarrow> int \<Rightarrow> int \<Rightarrow> 'w \<Rightarrow> (int + int) \<times> 'w"
  os_connect :: "int \<Rightarrow> sockaddr \<Rightarrow> 'w \<Rightarrow> int option \<times> 'w"
  os_getsockname :: "int \<Rightarrow> 'w \<Rightarrow> (int + sockaddr) \<times> 'w"
  os_reuseaddr :: "int \<Rightarrow> 'w \<Rightarrow> int option \<times> 'w"
  os_bind :: "int \<Rightarrow> sockaddr \<Rightarrow> 'w \<Rightarrow> int option \<times> 'w"
  os_listen :: "int \<Rightarrow> int \<Rightarrow> 'w \<Rightarrow> int option \<times> 'w"
  os_accept4 :: "int \<Rightarrow> 'w \<Rightarrow> (int + int \<times> sockaddr \<times> int) \<times> 'w"
  os_socketpair :: "int \<Rightarrow> 'w \<Rightarrow> (int + int \<times> int) \<times> 'w"

section \<open>Descriptors as pointers\<close>

text \<open>\<^verbatim>\<open>(int)(intptr_t)priv\<close> and \<^verbatim>\<open>(void *)(intptr_t)fd\<close>.\<close>

definition fd_of :: "ptr \<Rightarrow> int" where
  "fd_of p = sint (ucast p :: 32 word)"

definition fd_ptr :: "int \<Rightarrow> ptr" where
  "fd_ptr fd = word_of_int fd"

lemma fd_of_ptr:
  assumes "INT_MIN \<le> fd" and "fd \<le> INT_MAX"
  shows "fd_of (fd_ptr fd) = fd"
proof -
  have "(ucast (word_of_int fd :: ptr) :: 32 word) = word_of_int fd" by transfer (simp add: take_bit_take_bit)
  then show ?thesis using assms by (simp add: fd_of_def fd_ptr_def int_word_sint INT_MIN_def INT_MAX_def)
qed

end
