(* ===== verification/Strm.thy ===== *)
theory Strm
  imports Interp Os
begin

text \<open>
  Streams: src/b6b_strm.c and include/b6b/strm.h.  A stream is an object whose private data is a
  \<^verbatim>\<open>struct b6b_strm\<close>: a table of operations, their private data and two flags.

  \<^item> The state \<open>io\<close> is the interpreter, the world outside the process (of any type), and the
    structures that streams and their operations allocate, each named by its place in a list; a
    freed one is \<open>None\<close>.
  \<^item> The pointer \<^verbatim>\<open>ops\<close> is a value of any type, and the tables it points to are the first
    argument of each definition: functions on the state, \<open>None\<close> for a null pointer.
  \<^item> A pointer to private data is a 64-bit word, as descriptors are cast to pointers.
\<close>

section \<open>State\<close>

definition B6B_STRM_BUFSIZ :: int where "B6B_STRM_BUFSIZ = 64 * 1024"

definition B6B_STRM_CLOSED :: u8 where "B6B_STRM_CLOSED = 1"
definition B6B_STRM_EOF :: u8 where "B6B_STRM_EOF = 2"

record 'k strm =
  st_ops :: 'k
  st_priv :: ptr
  st_flags :: u8

text \<open>
  The structures that the private data points to: \<^verbatim>\<open>struct b6b_stdio_strm\<close> of
  include/b6b/stdio.h, where only whether there is a buffer matters, \<^verbatim>\<open>struct b6b_socket\<close>,
  \<^verbatim>\<open>struct b6b_signal\<close> and \<^verbatim>\<open>struct b6b_sh\<close>.
\<close>

record stdio_strm =
  fs_fp :: ptr
  fs_buf :: bool
  fs_fd :: int

record b6b_socket =
  so_peer :: sockaddr
  so_addr :: sockaddr
  so_fd :: int

record b6b_signal =
  sg_fd :: int
  sg_set :: "int list"

record b6b_sh =
  sh_pid :: addr
  sh_fd :: int

datatype pdata = P_stdio stdio_strm | P_socket b6b_socket | P_signal b6b_signal | P_sh b6b_sh

record ('k, 'w) io =
  io_i :: interp
  io_w :: 'w
  io_strms :: "'k strm option list"
  io_priv :: "pdata option list"

text \<open>
  What a \<^verbatim>\<open>read\<close> gives: the value it returns, the bytes it has put into the buffer, and the
  flags it sets through its pointers.
\<close>

record rd =
  rd_n :: int
  rd_bytes :: string
  rd_eof :: bool
  rd_again :: bool

text \<open>
  \<^verbatim>\<open>struct b6b_strm_ops\<close>.  \<^verbatim>\<open>read\<close> takes the size of the buffer and the flags as they are;
  \<^verbatim>\<open>accept\<close> gives \<open>None\<close> for its failure, otherwise the object or the null pointer.
\<close>

record 's strm_ops =
  op_peeksz :: "(ptr \<Rightarrow> 's \<Rightarrow> (int \<times> 's) option) option"
  op_read :: "(ptr \<Rightarrow> nat \<Rightarrow> bool \<Rightarrow> bool \<Rightarrow> 's \<Rightarrow> (rd \<times> 's) option) option"
  op_write :: "(ptr \<Rightarrow> string \<Rightarrow> 's \<Rightarrow> (int \<times> 's) option) option"
  op_peer :: "(ptr \<Rightarrow> 's \<Rightarrow> (addr option \<times> 's) option) option"
  op_accept :: "(ptr \<Rightarrow> 's \<Rightarrow> (addr option option \<times> 's) option) option"
  op_fd :: "(ptr \<Rightarrow> 's \<Rightarrow> int option) option"
  op_close :: "(ptr \<Rightarrow> 's \<Rightarrow> 's option) option"

type_synonym ('k, 'w) vtab = "'k \<Rightarrow> ('k, 'w) io strm_ops"

section \<open>Access to the state\<close>

definition on_interp :: "(interp \<Rightarrow> ('a \<times> interp) option) \<Rightarrow> ('k, 'w) io \<Rightarrow> ('a \<times> ('k, 'w) io) option" where
  "on_interp f s = do {
     (x, I) \<leftarrow> f (io_i s);
     Some (x, s\<lparr>io_i := I\<rparr>)
   }"

definition get_strm :: "nat \<Rightarrow> ('k, 'w) io \<Rightarrow> 'k strm option" where
  "get_strm n s = (if n < length (io_strms s) then io_strms s ! n else None)"

definition set_flags :: "nat \<Rightarrow> u8 \<Rightarrow> ('k, 'w) io \<Rightarrow> ('k, 'w) io option" where
  "set_flags n fl s = do {
     st \<leftarrow> get_strm n s;
     Some (s\<lparr>io_strms := (io_strms s)[n := Some (st\<lparr>st_flags := st_flags st OR fl\<rparr>)]\<rparr>)
   }"

definition strm_flag :: "u8 \<Rightarrow> 'k strm \<Rightarrow> bool" where
  "strm_flag fl st \<longleftrightarrow> st_flags st AND fl \<noteq> 0"

text \<open>\<^verbatim>\<open>(struct b6b_strm *)o->priv\<close>.\<close>

definition strm_of :: "addr \<Rightarrow> ('k, 'w) io \<Rightarrow> nat option" where
  "strm_of a s = (case obj_at a (io_i s) of
     Some ob \<Rightarrow> (case ob_priv ob of Priv_ext n \<Rightarrow> Some n | _ \<Rightarrow> None)
   | None \<Rightarrow> None)"

text \<open>Memory for private data: \<^verbatim>\<open>malloc\<close>, reading through the pointer, writing, \<^verbatim>\<open>free\<close>.\<close>

definition new_priv :: "pdata \<Rightarrow> ('k, 'w) io \<Rightarrow> ptr \<times> ('k, 'w) io" where
  "new_priv d s = (word_of_nat (length (io_priv s)), s\<lparr>io_priv := io_priv s @ [Some d]\<rparr>)"

definition get_priv :: "ptr \<Rightarrow> ('k, 'w) io \<Rightarrow> pdata option" where
  "get_priv p s = (if unat p < length (io_priv s) then io_priv s ! unat p else None)"

definition set_priv :: "ptr \<Rightarrow> pdata \<Rightarrow> ('k, 'w) io \<Rightarrow> ('k, 'w) io" where
  "set_priv p d s = s\<lparr>io_priv := (io_priv s)[unat p := Some d]\<rparr>"

definition free_priv :: "ptr \<Rightarrow> ('k, 'w) io \<Rightarrow> ('k, 'w) io option" where
  "free_priv p s = do {
     _ \<leftarrow> get_priv p s;
     Some (s\<lparr>io_priv := (io_priv s)[unat p := None]\<rparr>)
   }"

definition on_world :: "('w \<Rightarrow> 'a \<times> 'w) \<Rightarrow> ('k, 'w) io \<Rightarrow> 'a \<times> ('k, 'w) io" where
  "on_world f s = (case f (io_w s) of (x, w) \<Rightarrow> (x, s\<lparr>io_w := w\<rparr>))"

definition upd_world :: "('w \<Rightarrow> 'w) \<Rightarrow> ('k, 'w) io \<Rightarrow> ('k, 'w) io" where
  "upd_world f s = s\<lparr>io_w := f (io_w s)\<rparr>"

text \<open>\<^verbatim>\<open>b6b_return_strerror\<close>: the message as the return value, with the status \<^verbatim>\<open>B6B_ERR\<close>.\<close>

definition b6b_return_strerror :: "'w os \<Rightarrow> int \<Rightarrow> ('k, 'w) io \<Rightarrow> (b6b_res \<times> ('k, 'w) io) option" where
  "b6b_return_strerror OS err s = on_interp (fail_with (c_str (os_strerror OS err))) s"

text \<open>The arguments of a procedure.\<close>

definition io_args :: "addr \<Rightarrow> string \<Rightarrow> bool list \<Rightarrow> ('k, 'w) io \<Rightarrow> ((nat \<times> parg list) \<times> ('k, 'w) io) option" where
  "io_args args fmt wants = on_interp (\<lambda>I. map_option (\<lambda>(n, ps, I). ((n, ps), I)) (b6b_proc_get_args args fmt wants I))"

section \<open>Closing\<close>

definition b6b_strm_close :: "('k, 'w) vtab \<Rightarrow> nat \<Rightarrow> ('k, 'w) io \<Rightarrow> ('k, 'w) io option" where
  "b6b_strm_close T n s = do {
     st \<leftarrow> get_strm n s;
     if strm_flag B6B_STRM_CLOSED st then Some s
     else do {
       s \<leftarrow> (case op_close (T (st_ops st)) of None \<Rightarrow> Some s | Some f \<Rightarrow> f (st_priv st) s);
       set_flags n (B6B_STRM_EOF OR B6B_STRM_CLOSED) s
     }
   }"

text \<open>The destructor of a stream's object.\<close>

definition b6b_strm_del :: "('k, 'w) vtab \<Rightarrow> nat \<Rightarrow> ('k, 'w) io \<Rightarrow> ('k, 'w) io option" where
  "b6b_strm_del T n s = do {
     s \<leftarrow> b6b_strm_close T n s;
     Some (s\<lparr>io_strms := (io_strms s)[n := None]\<rparr>)
   }"

text \<open>\<^verbatim>\<open>b6b_destroy\<close> of a stream's object, with its destructor.\<close>

definition destroy_strm :: "('k, 'w) vtab \<Rightarrow> addr \<Rightarrow> ('k, 'w) io \<Rightarrow> ('k, 'w) io option" where
  "destroy_strm T a s = do {
     n \<leftarrow> strm_of a s;
     s \<leftarrow> b6b_strm_del T n s;
     I \<leftarrow> upd_heap (b6b_destroy a) (io_i s);
     Some (s\<lparr>io_i := I\<rparr>)
   }"

section \<open>Reading\<close>

text \<open>The length to expect, \<open>None\<close> for a failure.\<close>

definition b6b_strm_peeksz :: "('k, 'w) vtab \<Rightarrow> nat \<Rightarrow> ('k, 'w) io \<Rightarrow> (int option \<times> ('k, 'w) io) option" where
  "b6b_strm_peeksz T n s = do {
     st \<leftarrow> get_strm n s;
     case op_peeksz (T (st_ops st)) of
       None \<Rightarrow> Some (Some B6B_STRM_BUFSIZ, s)
     | Some f \<Rightarrow> do {
         (len, s) \<leftarrow> f (st_priv st) s;
         Some (if len < 0 then None else Some len, s)
       }
   }"

text \<open>
  The loop of \<^verbatim>\<open>b6b_strm_read\<close>, from the comparison of \<^verbatim>\<open>est\<close> with \<^verbatim>\<open>want\<close> on: \<open>buf\<close> is
  what was read, \<open>len\<close> the size of the buffer before it grows.  It is undefined when the size
  overflows, when the reader is given a part of the buffer that ends behind it, when it writes
  more than its part, and when it claims more than it wrote.  \<open>None\<close> inside is the status
  \<^verbatim>\<open>B6B_ERR\<close>.
\<close>

function read_loop :: "('k, 'w) vtab \<Rightarrow> nat \<Rightarrow> int \<Rightarrow> int \<Rightarrow> int \<Rightarrow> string \<Rightarrow> ('k, 'w) io
    \<Rightarrow> (string option \<times> ('k, 'w) io) option" where
  "read_loop T n est0 want len0 buf s =
     (let est = min est0 want; len = len0 + est in
      if len > SSIZE_MAX then None
      else if est = 0 then Some (Some buf, s)
      else do {
        st \<leftarrow> get_strm n s;
        f \<leftarrow> op_read (T (st_ops st));
        (r, s) \<leftarrow> f (st_priv st) (nat est) False True s;
        if int (length buf) + est \<ge> len \<or> length (rd_bytes r) > nat est then None
        else if rd_n r < 0 then Some (None, s)
        else if nat (rd_n r) > length (rd_bytes r) then None
        else
          let buf = buf @ take (nat (rd_n r)) (rd_bytes r) in
          if rd_eof r then do {
            s \<leftarrow> set_flags n B6B_STRM_EOF s;
            Some (Some buf, s)
          }
          else if rd_n r = 0 \<or> \<not> rd_again r then Some (Some buf, s)
          else if want - rd_n r = 0 then Some (Some buf, s)
          else do {
            (e, s) \<leftarrow> b6b_strm_peeksz T n s;
            case e of
              None \<Rightarrow> Some (None, s)
            | Some est \<Rightarrow>
                if est = 0 then Some (Some buf, s)
                else read_loop T n est (want - rd_n r) len buf s
          }
      })"
  by pat_completeness auto

text \<open>Each round but the last reads at least one of the bytes that are still wanted.\<close>

termination
  by (relation "measure (\<lambda>(T, n, est, want, len, buf, s). nat want)") auto

declare read_loop.simps [simp del]

definition b6b_strm_read :: "('k, 'w) vtab \<Rightarrow> nat \<Rightarrow> int \<Rightarrow> ('k, 'w) io \<Rightarrow> (b6b_res \<times> ('k, 'w) io) option" where
  "b6b_strm_read T n want s = do {
     st \<leftarrow> get_strm n s;
     if strm_flag B6B_STRM_EOF st then Some (B6B_OK, s)
     else if strm_flag B6B_STRM_CLOSED st \<or> op_read (T (st_ops st)) = None then Some (B6B_ERR, s)
     else do {
       (e, s) \<leftarrow> b6b_strm_peeksz T n s;
       case e of
         None \<Rightarrow> Some (B6B_ERR, s)
       | Some est \<Rightarrow> do {
           (r, s) \<leftarrow> read_loop T n est want 1 [] s;
           case r of
             None \<Rightarrow> Some (B6B_ERR, s)
           | Some buf \<Rightarrow> on_interp (b6b_return_str buf) s
         }
     }
   }"

section \<open>Writing\<close>

text \<open>
  The loop of \<^verbatim>\<open>b6b_strm_write\<close> over what is left of the buffer, \<open>out\<close> bytes after its start.
  An operation that claims to have written more than it was given ends it.
\<close>

function write_loop :: "('k, 'w) vtab \<Rightarrow> nat \<Rightarrow> string \<Rightarrow> int \<Rightarrow> ('k, 'w) io
    \<Rightarrow> (int option \<times> ('k, 'w) io) option" where
  "write_loop T n buf out s =
     (if buf = [] then Some (Some out, s)
      else do {
        st \<leftarrow> get_strm n s;
        f \<leftarrow> op_write (T (st_ops st));
        (chunk, s) \<leftarrow> f (st_priv st) buf s;
        if chunk < 0 then Some (None, s)
        else if chunk = 0 then Some (Some out, s)
        else if out + chunk > SSIZE_MAX then None
        else write_loop T n (drop (nat chunk) buf) (out + chunk) s
      })"
  by pat_completeness auto
termination
  by (relation "measure (\<lambda>(T, n, buf, out, s). length buf)") auto

declare write_loop.simps [simp del]

definition b6b_strm_write :: "('k, 'w) vtab \<Rightarrow> nat \<Rightarrow> string \<Rightarrow> ('k, 'w) io \<Rightarrow> (b6b_res \<times> ('k, 'w) io) option" where
  "b6b_strm_write T n buf s = do {
     st \<leftarrow> get_strm n s;
     if strm_flag B6B_STRM_CLOSED st \<or> op_write (T (st_ops st)) = None then Some (B6B_ERR, s)
     else do {
       (r, s) \<leftarrow> write_loop T n buf 0 s;
       case r of
         None \<Rightarrow> Some (B6B_ERR, s)
       | Some out \<Rightarrow> on_interp (b6b_return_int (word_of_int out)) s
     }
   }"

definition b6b_strm_writeln :: "('k, 'w) vtab \<Rightarrow> nat \<Rightarrow> string \<Rightarrow> ('k, 'w) io \<Rightarrow> (b6b_res \<times> ('k, 'w) io) option" where
  "b6b_strm_writeln T n buf s = b6b_strm_write T n (buf @ [CHR 0x0A]) s"

section \<open>The other operations\<close>

text \<open>The loop of \<^verbatim>\<open>b6b_strm_accept\<close> goes on for as long as there are connections.\<close>

partial_function (option) accept_loop ::
  "(ptr \<Rightarrow> ('k, 'w) io \<Rightarrow> (addr option option \<times> ('k, 'w) io) option) \<Rightarrow> ptr \<Rightarrow> addr \<Rightarrow> ('k, 'w) io
    \<Rightarrow> (bool \<times> ('k, 'w) io) option" where
  [code]: "accept_loop f p l s = do {
     (r, s) \<leftarrow> f p s;
     case r of
       None \<Rightarrow> Some (False, s)
     | Some None \<Rightarrow> Some (True, s)
     | Some (Some ob) \<Rightarrow> do {
         I \<leftarrow> upd_heap (b6b_list_add l ob) (io_i s);
         I \<leftarrow> upd_heap (b6b_unref ob) I;
         accept_loop f p l (s\<lparr>io_i := I\<rparr>)
       }
   }"

definition b6b_strm_accept :: "('k, 'w) vtab \<Rightarrow> nat \<Rightarrow> ('k, 'w) io \<Rightarrow> (b6b_res \<times> ('k, 'w) io) option" where
  "b6b_strm_accept T n s = do {
     st \<leftarrow> get_strm n s;
     case op_accept (T (st_ops st)) of
       None \<Rightarrow> Some (B6B_ERR, s)
     | Some f \<Rightarrow>
         if strm_flag B6B_STRM_CLOSED st then Some (B6B_ERR, s)
         else (case new_heap b6b_list_new (io_i s) of (l, I) \<Rightarrow> do {
           (ok, s) \<leftarrow> accept_loop f (st_priv st) l (s\<lparr>io_i := I\<rparr>);
           if \<not> ok then do {
             I \<leftarrow> upd_heap (b6b_destroy l) (io_i s);
             Some (B6B_ERR, s\<lparr>io_i := I\<rparr>)
           }
           else on_interp (b6b_return l) s
         })
   }"

definition b6b_strm_peer :: "('k, 'w) vtab \<Rightarrow> nat \<Rightarrow> ('k, 'w) io \<Rightarrow> (b6b_res \<times> ('k, 'w) io) option" where
  "b6b_strm_peer T n s = do {
     st \<leftarrow> get_strm n s;
     case op_peer (T (st_ops st)) of
       None \<Rightarrow> Some (B6B_ERR, s)
     | Some f \<Rightarrow> do {
         (r, s) \<leftarrow> f (st_priv st) s;
         case r of
           None \<Rightarrow> Some (B6B_ERR, s)
         | Some ob \<Rightarrow> on_interp (b6b_return ob) s
       }
   }"

text \<open>The descriptor as an integer that keeps the stream \<open>a\<close> alive.\<close>

definition b6b_strm_fd :: "('k, 'w) vtab \<Rightarrow> nat \<Rightarrow> addr \<Rightarrow> ('k, 'w) io \<Rightarrow> (b6b_res \<times> ('k, 'w) io) option" where
  "b6b_strm_fd T n a s = do {
     st \<leftarrow> get_strm n s;
     if strm_flag B6B_STRM_CLOSED st then Some (B6B_ERR, s)
     else do {
       f \<leftarrow> op_fd (T (st_ops st));
       fd \<leftarrow> f (st_priv st) s;
       I \<leftarrow> upd_heap (b6b_ref a) (io_i s);
       (case new_heap (b6b_new (\<lambda>ob. ob\<lparr>ob_i := Some (word_of_int fd), ob_priv := Priv_unref a\<rparr>)) I of
          (fdo, I) \<Rightarrow> on_interp (b6b_return fdo) (s\<lparr>io_i := I\<rparr>))
     }
   }"

section \<open>The procedure\<close>

definition b6b_strm_proc :: "('k, 'w) vtab \<Rightarrow> addr \<Rightarrow> ('k, 'w) io \<Rightarrow> (b6b_res \<times> ('k, 'w) io) option" where
  "b6b_strm_proc T args s = do {
     ((argc, ps), s) \<leftarrow> io_args args ''os|o'' [True, True, True] s;
     if argc = 0 then Some (B6B_ERR, s)
     else case ps of
       Arg a # Arg p # rest \<Rightarrow> do {
         n \<leftarrow> strm_of a s;
         ops \<leftarrow> str_at p (io_i s);
         case rest of
           [] \<Rightarrow>
             if c_strcmp_eq ops ''read'' then b6b_strm_read T n (SSIZE_MAX - 1) s
             else if c_strcmp_eq ops ''accept'' then b6b_strm_accept T n s
             else if c_strcmp_eq ops ''peer'' then b6b_strm_peer T n s
             else if c_strcmp_eq ops ''fd'' then b6b_strm_fd T n a s
             else if c_strcmp_eq ops ''close'' then do {
               s \<leftarrow> b6b_strm_close T n s;
               Some (B6B_OK, s)
             }
             else on_interp (fail_with (''bad strm op: '' @ c_str ops)) s
         | Arg x # _ \<Rightarrow>
             if c_strcmp_eq ops ''read'' then do {
               (ok, s) \<leftarrow> on_interp (on_heap (b6b_as_int x)) s;
               if \<not> ok then Some (B6B_ERR, s)
               else do {
                 i \<leftarrow> int_at x (io_i s);
                 if sint i \<ge> SSIZE_MAX \<or> sint i \<le> 0 then Some (B6B_ERR, s)
                 else b6b_strm_read T n (sint i) s
               }
             }
             else if c_strcmp_eq ops ''write'' then do {
               (ok, s) \<leftarrow> on_interp (on_heap (b6b_as_str x)) s;
               if \<not> ok then Some (B6B_ERR, s)
               else do {
                 b \<leftarrow> str_at x (io_i s);
                 b6b_strm_write T n b s
               }
             }
             else if c_strcmp_eq ops ''writeln'' then do {
               (ok, s) \<leftarrow> on_interp (on_heap (b6b_as_str x)) s;
               if \<not> ok then Some (B6B_ERR, s)
               else do {
                 b \<leftarrow> str_at x (io_i s);
                 b6b_strm_writeln T n b s
               }
             }
             else on_interp (fail_with (''bad strm op: '' @ c_str ops)) s
         | _ \<Rightarrow> None
       }
     | _ \<Rightarrow> None
   }"

section \<open>Making a stream\<close>

text \<open>The place of \<^verbatim>\<open>b6b_strm_proc\<close> among the procedures of the extensions.\<close>

definition STRM_PROC :: nat where "STRM_PROC = 0"

definition b6b_strm_new :: "'k \<Rightarrow> ptr \<Rightarrow> addr \<Rightarrow> ('k, 'w) io \<Rightarrow> (addr \<times> ('k, 'w) io) option" where
  "b6b_strm_new k p a s = do {
     ob \<leftarrow> obj_at a (io_i s);
     Some (a, s\<lparr>io_strms := io_strms s @ [Some \<lparr>st_ops = k, st_priv = p, st_flags = 0\<rparr>],
       io_i := (io_i s)\<lparr>hp := hset a (ob\<lparr>ob_priv := Priv_ext (length (io_strms s)), ob_proc := F_ext STRM_PROC\<rparr>) (hp (io_i s))\<rparr>\<rparr>)
   }"

definition b6b_strm_copy :: "'k \<Rightarrow> ptr \<Rightarrow> string \<Rightarrow> ('k, 'w) io \<Rightarrow> (addr \<times> ('k, 'w) io) option" where
  "b6b_strm_copy k p name s =
     (case new_heap (b6b_str_copy name) (io_i s) of (a, I) \<Rightarrow> b6b_strm_new k p a (s\<lparr>io_i := I\<rparr>))"

text \<open>\<^verbatim>\<open>PRIxPTR\<close>: lower-case hexadecimal digits without leading zeros.\<close>

definition hex_digit :: "nat \<Rightarrow> char" where
  "hex_digit d = (if d < 10 then char_of (48 + d) else char_of (87 + d))"

fun hex_digits :: "nat \<Rightarrow> string" where
  "hex_digits k = (if k < 16 then [hex_digit k] else hex_digits (k div 16) @ [hex_digit (k mod 16)])"

declare hex_digits.simps [simp del]

definition b6b_strm_fmt :: "'k \<Rightarrow> ptr \<Rightarrow> string \<Rightarrow> ('k, 'w) io \<Rightarrow> (addr \<times> ('k, 'w) io) option" where
  "b6b_strm_fmt k p type s =
     (case new_heap (b6b_str_new (type @ '':'' @ hex_digits (unat p))) (io_i s) of
        (a, I) \<Rightarrow> b6b_strm_new k p a (s\<lparr>io_i := I\<rparr>))"

end
