(* ===== verification/Fdops.thy ===== *)
theory Fdops
  imports Strm CDouble
begin

text \<open>
  Operations of streams on file descriptors, src/b6b_fdops.c, and what is built from them alone:
  semaphores (src/b6b_sem.c) and timers (src/b6b_timer.c).  The system calls are functions on
  the world, a field of the record \<open>os\<close> each.
\<close>

section \<open>Reading and writing\<close>

definition b6b_fd_peeksz :: "'w os \<Rightarrow> ptr \<Rightarrow> ('k, 'w) io \<Rightarrow> (int \<times> ('k, 'w) io) option" where
  "b6b_fd_peeksz OS p s = (case on_world (os_fionread OS (fd_of p)) s of
     (Inl _, s) \<Rightarrow> Some (-1, s)
   | (Inr n, s) \<Rightarrow> Some (n, s))"

text \<open>
  \<^verbatim>\<open>b6b_fd_on_read\<close>; at the end of the file it sets \<^verbatim>\<open>*eof\<close> to 0.
\<close>

definition b6b_fd_on_read :: "'w os \<Rightarrow> int + string \<Rightarrow> bool \<Rightarrow> bool \<Rightarrow> ('k, 'w) io \<Rightarrow> (rd \<times> ('k, 'w) io) option" where
  "b6b_fd_on_read OS out eof again s = (case out of
     Inl err \<Rightarrow>
       if err = EAGAIN \<or> err = EWOULDBLOCK then Some (\<lparr>rd_n = 0, rd_bytes = [], rd_eof = eof, rd_again = again\<rparr>, s)
       else do {
         (_, s) \<leftarrow> b6b_return_strerror OS err s;
         Some (\<lparr>rd_n = -1, rd_bytes = [], rd_eof = eof, rd_again = again\<rparr>, s)
       }
   | Inr bs \<Rightarrow> Some (\<lparr>rd_n = int (length bs), rd_bytes = bs, rd_eof = (if bs = [] then False else eof),
       rd_again = again\<rparr>, s))"

definition b6b_fd_read :: "'w os \<Rightarrow> ptr \<Rightarrow> nat \<Rightarrow> bool \<Rightarrow> bool \<Rightarrow> ('k, 'w) io \<Rightarrow> (rd \<times> ('k, 'w) io) option" where
  "b6b_fd_read OS p len eof again s =
     (case on_world (os_read OS (fd_of p) len) s of (out, s) \<Rightarrow> b6b_fd_on_read OS out eof again s)"

definition b6b_fd_recv :: "'w os \<Rightarrow> ptr \<Rightarrow> nat \<Rightarrow> bool \<Rightarrow> bool \<Rightarrow> ('k, 'w) io \<Rightarrow> (rd \<times> ('k, 'w) io) option" where
  "b6b_fd_recv OS p len eof again s =
     (case on_world (os_recv OS (fd_of p) len) s of (out, s) \<Rightarrow> b6b_fd_on_read OS out eof again s)"

definition b6b_fd_on_write :: "'w os \<Rightarrow> int + int \<Rightarrow> ('k, 'w) io \<Rightarrow> (int \<times> ('k, 'w) io) option" where
  "b6b_fd_on_write OS out s = (case out of
     Inl err \<Rightarrow>
       if err = EAGAIN \<or> err = EWOULDBLOCK then Some (0, s)
       else do {
         (_, s) \<leftarrow> b6b_return_strerror OS err s;
         Some (-1, s)
       }
   | Inr n \<Rightarrow> Some (n, s))"

definition b6b_fd_write :: "'w os \<Rightarrow> ptr \<Rightarrow> string \<Rightarrow> ('k, 'w) io \<Rightarrow> (int \<times> ('k, 'w) io) option" where
  "b6b_fd_write OS p buf s =
     (case on_world (os_write OS (fd_of p) buf) s of (out, s) \<Rightarrow> b6b_fd_on_write OS out s)"

definition b6b_fd_send :: "'w os \<Rightarrow> ptr \<Rightarrow> string \<Rightarrow> ('k, 'w) io \<Rightarrow> (int \<times> ('k, 'w) io) option" where
  "b6b_fd_send OS p buf s =
     (case on_world (os_send OS (fd_of p) buf) s of (out, s) \<Rightarrow> b6b_fd_on_write OS out s)"

definition b6b_fd_fd :: "ptr \<Rightarrow> ('k, 'w) io \<Rightarrow> int option" where
  "b6b_fd_fd p s = Some (fd_of p)"

definition b6b_fd_close :: "'w os \<Rightarrow> ptr \<Rightarrow> ('k, 'w) io \<Rightarrow> ('k, 'w) io option" where
  "b6b_fd_close OS p s = Some (upd_world (os_close OS (fd_of p)) s)"

section \<open>Counters of 64 bits\<close>

text \<open>The eight bytes of a \<^verbatim>\<open>uint64_t\<close> in memory, lowest first.\<close>

fun le_bytes :: "nat \<Rightarrow> int \<Rightarrow> string" where
  "le_bytes 0 u = []"
| "le_bytes (Suc k) u = char_of (u mod 256) # le_bytes k (u div 256)"

fun le_value :: "string \<Rightarrow> int" where
  "le_value [] = 0"
| "le_value (c # cs) = of_char c + 256 * le_value cs"

definition b6b_fd_peeksz_u64 :: "ptr \<Rightarrow> ('k, 'w) io \<Rightarrow> (int \<times> ('k, 'w) io) option" where
  "b6b_fd_peeksz_u64 p s = Some (int (length ''18446744073709551615'') + 1, s)"

text \<open>The text and its NUL are in the buffer when they fit; otherwise the count is lost.\<close>

definition b6b_fd_read_u64 :: "'w os \<Rightarrow> ptr \<Rightarrow> nat \<Rightarrow> bool \<Rightarrow> bool \<Rightarrow> ('k, 'w) io \<Rightarrow> (rd \<times> ('k, 'w) io) option" where
  "b6b_fd_read_u64 OS p len eof again s = do {
     (r, s) \<leftarrow> b6b_fd_read OS p 8 eof again s;
     if rd_n r \<le> 0 then Some (r\<lparr>rd_bytes := []\<rparr>, s)
     else if rd_n r \<noteq> 8 then Some (r\<lparr>rd_n := -1, rd_bytes := []\<rparr>, s)
     else
       let t = dec (le_value (rd_bytes r)) in
       if length t \<ge> len then Some (r\<lparr>rd_n := -1, rd_bytes := take (len - 1) t @ [NUL]\<rparr>, s)
       else Some (r\<lparr>rd_n := int (length t), rd_bytes := t @ [NUL], rd_again := False\<rparr>, s)
   }"

text \<open>
  \<^verbatim>\<open>strtoull(s, &end, 0)\<close>: the value and what \<^verbatim>\<open>end\<close> points at, \<open>None\<close> for no number at all.  A
  value out of range sets \<^verbatim>\<open>errno\<close>; with a minus sign the value is negated as an unsigned one.
\<close>

definition is_odigit :: "char \<Rightarrow> bool" where
  "is_odigit c \<longleftrightarrow> 48 \<le> (of_char c :: int) \<and> (of_char c :: int) \<le> 55"

definition strtoull_digits :: "string \<Rightarrow> int \<times> string \<times> string" where
  "strtoull_digits r =
     (if has_prefix_ci ''0x'' r \<and> takeWhile is_xdigit (drop 2 r) \<noteq> []
      then (16, takeWhile is_xdigit (drop 2 r), dropWhile is_xdigit (drop 2 r))
      else if take 1 r = ''0'' then (8, takeWhile is_odigit r, dropWhile is_odigit r)
      else (10, takeWhile is_digit r, dropWhile is_digit r))"

definition strtoull :: "string \<Rightarrow> ((int \<times> string) option) option" where
  "strtoull s =
     (let (neg, r) = take_sign (dropWhile is_cspace s);
          (base, ds, rest) = strtoull_digits r;
          v = digits_val base ds in
      if ds = [] then Some None
      else if v \<ge> 2 ^ 64 then None
      else Some (Some (if neg then (- v) mod 2 ^ 64 else v, rest)))"

text \<open>The inner \<open>None\<close> of \<open>strtoull\<close> is \<^verbatim>\<open>end == buf\<close>, the outer one \<^verbatim>\<open>errno\<close>.\<close>

definition b6b_fd_write_u64 :: "'w os \<Rightarrow> ptr \<Rightarrow> string \<Rightarrow> ('k, 'w) io \<Rightarrow> (int \<times> ('k, 'w) io) option" where
  "b6b_fd_write_u64 OS p buf s = (case strtoull (c_str buf) of
     Some (Some (c, [])) \<Rightarrow> do {
       (out, s) \<leftarrow> b6b_fd_write OS p (le_bytes 8 c) s;
       Some (if out = 8 then int (length buf) else -1, s)
     }
   | _ \<Rightarrow> Some (-1, s))"

section \<open>Tables\<close>

definition no_ops :: "'s strm_ops" where
  "no_ops = \<lparr>op_peeksz = None, op_read = None, op_write = None, op_peer = None, op_accept = None, op_fd = None,
     op_close = None\<rparr>"

definition b6b_sem_ops :: "'w os \<Rightarrow> ('k, 'w) io strm_ops" where
  "b6b_sem_ops OS = no_ops\<lparr>op_peeksz := Some b6b_fd_peeksz_u64, op_read := Some (b6b_fd_read_u64 OS),
     op_write := Some (b6b_fd_write_u64 OS), op_fd := Some b6b_fd_fd, op_close := Some (b6b_fd_close OS)\<rparr>"

definition b6b_timer_ops :: "'w os \<Rightarrow> ('k, 'w) io strm_ops" where
  "b6b_timer_ops OS = no_ops\<lparr>op_peeksz := Some b6b_fd_peeksz_u64, op_read := Some (b6b_fd_read_u64 OS),
     op_fd := Some b6b_fd_fd, op_close := Some (b6b_fd_close OS)\<rparr>"

section \<open>Semaphores\<close>

text \<open>\<open>k\<close> is the address of \<^verbatim>\<open>b6b_sem_ops\<close>.  A negative count is taken modulo 2^32.\<close>

definition b6b_sem_proc_sem :: "'w os \<Rightarrow> 'k \<Rightarrow> addr \<Rightarrow> ('k, 'w) io \<Rightarrow> (b6b_res \<times> ('k, 'w) io) option" where
  "b6b_sem_proc_sem OS k args s = do {
     ((argc, ps), s) \<leftarrow> io_args args ''oi'' [False, True] s;
     if argc = 0 then Some (B6B_ERR, s)
     else case ps of
       [Arg n] \<Rightarrow> do {
         i \<leftarrow> int_at n (io_i s);
         if sint i > UINT_MAX then Some (B6B_ERR, s)
         else case on_world (os_eventfd OS (word_of_int (sint i))) s of
             (Inl err, s) \<Rightarrow> b6b_return_strerror OS err s
           | (Inr fd, s) \<Rightarrow> do {
               (a, s) \<leftarrow> b6b_strm_fmt k (fd_ptr fd) ''sem'' s;
               on_interp (b6b_return a) s
             }
       }
     | _ \<Rightarrow> None
   }"

section \<open>Timers\<close>

text \<open>
  Seconds and nanoseconds of an interval: \<^verbatim>\<open>(time_t)floor(f)\<close> is undefined for a value without
  a 64-bit integer, and so is the conversion of the rest.
\<close>

definition timespec_of :: "dbl \<Rightarrow> (int \<times> int) option" where
  "timespec_of f = do {
     sec \<leftarrow> dfloor f;
     if \<not> is_llong sec then None
     else do {
       let r = dmul (dof_int 1000000000) (dsub f (dof_int sec));
       t \<leftarrow> dfloor (case r of DFin neg m e \<Rightarrow> DFin False m e | _ \<Rightarrow> r);
       if is_llong t then Some (sec, t) else None
     }
   }"

definition b6b_timer_proc_timer :: "'w os \<Rightarrow> 'k \<Rightarrow> addr \<Rightarrow> ('k, 'w) io \<Rightarrow> (b6b_res \<times> ('k, 'w) io) option" where
  "b6b_timer_proc_timer OS k args s = do {
     ((argc, ps), s) \<leftarrow> io_args args ''of'' [False, True] s;
     if argc = 0 then Some (B6B_ERR, s)
     else case ps of
       [Arg n] \<Rightarrow> do {
         f \<leftarrow> float_at n (io_i s);
         if \<not> dtrue f then Some (B6B_ERR, s)
         else case on_world (os_timerfd_create OS) s of
             (Inl err, s) \<Rightarrow> b6b_return_strerror OS err s
           | (Inr fd, s) \<Rightarrow> do {
               ts \<leftarrow> timespec_of f;
               (case on_world (os_timerfd_settime OS fd ts ts) s of
                  (Some err, s) \<Rightarrow> b6b_return_strerror OS err (upd_world (os_close OS fd) s)
                | (None, s) \<Rightarrow> do {
                    (a, s) \<leftarrow> b6b_strm_fmt k (fd_ptr fd) ''timer'' s;
                    on_interp (b6b_return a) s
                  })
             }
       }
     | _ \<Rightarrow> None
   }"

end
