(* ===== verification/Stdio.thy ===== *)
theory Stdio
  imports Fdops
begin

text \<open>
  Files of the C library: src/b6b_stdio.c and src/b6b_file.c.  A call that may block runs on the
  offload thread while other threads of the interpreter run: \<^verbatim>\<open>b6b_offload\<close> is a parameter here,
  a function that takes the work and gives whether it succeeded and the data that the work left.
  Theory Offload has its steps.  \<open>offload_direct\<close> is its branch for a single thread.
\<close>

section \<open>Work for the offload thread\<close>

text \<open>
  The structures that the works fill in: a return value, \<^verbatim>\<open>errno\<close>, bytes, a pointer, addresses,
  events, a time.
\<close>

record off =
  of_ret :: int
  of_errno :: int
  of_bytes :: string
  of_ptr :: ptr
  of_addrs :: "addrinfo list"
  of_events :: "epoll_event list"
  of_time :: "int \<times> int"

definition off0 :: off where
  "off0 = \<lparr>of_ret = 0, of_errno = 0, of_bytes = [], of_ptr = 0, of_addrs = [], of_events = [], of_time = (0, 0)\<rparr>"

type_synonym ('k, 'w) offload = "('w \<Rightarrow> off \<times> 'w) \<Rightarrow> ('k, 'w) io \<Rightarrow> ((bool \<times> off) \<times> ('k, 'w) io) option"

definition offload_direct :: "('k, 'w) offload" where
  "offload_direct f s = (case on_world f s of (d, s) \<Rightarrow> Some ((True, d), s))"

section \<open>Streams of the C library\<close>

definition get_stdio :: "ptr \<Rightarrow> ('k, 'w) io \<Rightarrow> stdio_strm option" where
  "get_stdio p s = (case get_priv p s of Some (P_stdio f) \<Rightarrow> Some f | _ \<Rightarrow> None)"

definition b6b_stdio_do_fseeko :: "'w os \<Rightarrow> ptr \<Rightarrow> int \<Rightarrow> whence \<Rightarrow> 'w \<Rightarrow> off \<times> 'w" where
  "b6b_stdio_do_fseeko OS fp n wh w = (case os_fseeko OS fp n wh w of
     (None, w) \<Rightarrow> (off0, w)
   | (Some err, w) \<Rightarrow> (off0\<lparr>of_ret := -1, of_errno := err\<rparr>, w))"

text \<open>
  The number of bytes up to the end of the file, or the size of a buffer when there are none: the
  position goes to the end, and back if that is further on.
\<close>

definition b6b_stdio_peeksz :: "'w os \<Rightarrow> ('k, 'w) offload \<Rightarrow> ptr \<Rightarrow> ('k, 'w) io \<Rightarrow> (int \<times> ('k, 'w) io) option" where
  "b6b_stdio_peeksz OS offl p s = do {
     f \<leftarrow> get_stdio p s;
     let here = os_ftello OS (fs_fp f) (io_w s);
     if here = -1 \<or> here > SSIZE_MAX then Some (-1, s)
     else do {
       ((ok, d), s) \<leftarrow> offl (b6b_stdio_do_fseeko OS (fs_fp f) 0 SEEK_END) s;
       if \<not> ok then Some (-1, s)
       else if of_ret d < 0 then do {
         (_, s) \<leftarrow> b6b_return_strerror OS (of_errno d) s;
         Some (-1, s)
       }
       else do {
         f \<leftarrow> get_stdio p s;
         let end' = os_ftello OS (fs_fp f) (io_w s);
         let len = (if end' - here > 0 then end' - here else B6B_STRM_BUFSIZ);
         if end' = -1 \<or> end' > SSIZE_MAX then Some (-1, s)
         else if end' > here then do {
           ((ok, d), s) \<leftarrow> offl (b6b_stdio_do_fseeko OS (fs_fp f) here SEEK_SET) s;
           if \<not> ok then Some (-1, s)
           else if of_ret d < 0 then do {
             (_, s) \<leftarrow> b6b_return_strerror OS (of_errno d) s;
             Some (-1, s)
           }
           else Some (len, s)
         }
         else Some (len, s)
       }
     }
   }"

definition b6b_stdio_do_fread :: "'w os \<Rightarrow> ptr \<Rightarrow> nat \<Rightarrow> 'w \<Rightarrow> off \<times> 'w" where
  "b6b_stdio_do_fread OS fp len w = (case os_fread OS fp len w of
     ((err, bs), w) \<Rightarrow> (off0\<lparr>of_ret := int (length bs), of_bytes := bs, of_errno := (if bs = [] then err else 0)\<rparr>, w))"

definition b6b_stdio_read :: "'w os \<Rightarrow> ('k, 'w) offload \<Rightarrow> ptr \<Rightarrow> nat \<Rightarrow> bool \<Rightarrow> bool \<Rightarrow> ('k, 'w) io
    \<Rightarrow> (rd \<times> ('k, 'w) io) option" where
  "b6b_stdio_read OS offl p len eof again s = do {
     f \<leftarrow> get_stdio p s;
     ((ok, d), s) \<leftarrow> offl (b6b_stdio_do_fread OS (fs_fp f) len) s;
     let r = \<lparr>rd_n = of_ret d, rd_bytes = of_bytes d, rd_eof = eof, rd_again = again\<rparr>;
     if \<not> ok then Some (r\<lparr>rd_n := -1\<rparr>, s)
     else if of_ret d < int len then do {
       f \<leftarrow> get_stdio p s;
       if os_ferror OS (fs_fp f) (io_w s) then do {
         (_, s) \<leftarrow> b6b_return_strerror OS (of_errno d) (upd_world (os_clearerr OS (fs_fp f)) s);
         Some (r\<lparr>rd_n := -1\<rparr>, s)
       }
       else Some (r\<lparr>rd_eof := (if os_feof OS (fs_fp f) (io_w s) then True else eof)\<rparr>, s)
     }
     else Some (r, s)
   }"

definition b6b_stdio_do_fwrite :: "'w os \<Rightarrow> ptr \<Rightarrow> string \<Rightarrow> 'w \<Rightarrow> off \<times> 'w" where
  "b6b_stdio_do_fwrite OS fp buf w = (case os_fwrite OS fp buf w of
     ((err, n), w) \<Rightarrow> (off0\<lparr>of_ret := int n, of_errno := (if n = 0 then err else 0)\<rparr>, w))"

text \<open>The loop over what is left of the copy; \<open>None\<close> inside is the result -1.\<close>

function stdio_write_loop :: "'w os \<Rightarrow> ('k, 'w) offload \<Rightarrow> ptr \<Rightarrow> string \<Rightarrow> int \<Rightarrow> ('k, 'w) io
    \<Rightarrow> (int \<times> ('k, 'w) io) option" where
  "stdio_write_loop OS offl p buf tot s = do {
     f \<leftarrow> get_stdio p s;
     ((ok, d), s) \<leftarrow> offl (b6b_stdio_do_fwrite OS (fs_fp f) buf) s;
     if \<not> ok then Some (-1, s)
     else if of_ret d \<le> 0 then do {
       f \<leftarrow> get_stdio p s;
       if os_ferror OS (fs_fp f) (io_w s) then do {
         (_, s) \<leftarrow> b6b_return_strerror OS (of_errno d) (upd_world (os_clearerr OS (fs_fp f)) s);
         Some (-1, s)
       }
       else Some (tot, s)
     }
     else if nat (of_ret d) < length buf
     then stdio_write_loop OS offl p (drop (nat (of_ret d)) buf) (tot + of_ret d) s
     else Some (tot + of_ret d, s)
   }"
  by pat_completeness auto
termination
  by (relation "measure (\<lambda>(OS, offl, p, buf, tot, s). length buf)") auto

declare stdio_write_loop.simps [simp del]

definition b6b_stdio_write :: "'w os \<Rightarrow> ('k, 'w) offload \<Rightarrow> ptr \<Rightarrow> string \<Rightarrow> ('k, 'w) io \<Rightarrow> (int \<times> ('k, 'w) io) option" where
  "b6b_stdio_write OS offl p buf s = stdio_write_loop OS offl p buf 0 s"

definition b6b_stdio_fd :: "ptr \<Rightarrow> ('k, 'w) io \<Rightarrow> int option" where
  "b6b_stdio_fd p s = map_option fs_fd (get_stdio p s)"

definition b6b_stdio_do_fclose :: "'w os \<Rightarrow> ptr \<Rightarrow> 'w \<Rightarrow> off \<times> 'w" where
  "b6b_stdio_do_fclose OS fp w = (off0, os_fclose OS fp w)"

definition b6b_stdio_close :: "'w os \<Rightarrow> ('k, 'w) offload \<Rightarrow> ptr \<Rightarrow> ('k, 'w) io \<Rightarrow> ('k, 'w) io option" where
  "b6b_stdio_close OS offl p s = do {
     f \<leftarrow> get_stdio p s;
     (_, s) \<leftarrow> offl (b6b_stdio_do_fclose OS (fs_fp f)) s;
     free_priv p s
   }"

text \<open>\<^verbatim>\<open>free\<close> as the operation that closes a standard stream, whose private data is a \<^verbatim>\<open>struct b6b_stdio_strm\<close>.\<close>

definition stdio_free :: "ptr \<Rightarrow> ('k, 'w) io \<Rightarrow> ('k, 'w) io option" where
  "stdio_free p s = do {
     _ \<leftarrow> get_stdio p s;
     free_priv p s
   }"

definition b6b_stdio_ro_pipe_ops :: "'w os \<Rightarrow> ('k, 'w) offload \<Rightarrow> ('k, 'w) io strm_ops" where
  "b6b_stdio_ro_pipe_ops OS offl = no_ops\<lparr>op_read := Some (b6b_stdio_read OS offl), op_fd := Some b6b_stdio_fd,
     op_close := Some stdio_free\<rparr>"

definition b6b_stdio_wo_pipe_ops :: "'w os \<Rightarrow> ('k, 'w) offload \<Rightarrow> ('k, 'w) io strm_ops" where
  "b6b_stdio_wo_pipe_ops OS offl = no_ops\<lparr>op_write := Some (b6b_stdio_write OS offl), op_fd := Some b6b_stdio_fd,
     op_close := Some stdio_free\<rparr>"

section \<open>The standard streams\<close>

text \<open>\<open>fp\<close> is the \<^verbatim>\<open>FILE *\<close>, \<open>k\<close> the table of operations.\<close>

definition b6b_stdio_wrap :: "'w os \<Rightarrow> string \<Rightarrow> ptr \<Rightarrow> int \<Rightarrow> 'k \<Rightarrow> ('k, 'w) io \<Rightarrow> (bool \<times> ('k, 'w) io) option" where
  "b6b_stdio_wrap OS name fp fd k s =
     (case new_priv (P_stdio \<lparr>fs_fp = fp, fs_buf = False, fs_fd = fd\<rparr>) s of (p, s) \<Rightarrow> do {
        (a, s) \<leftarrow> b6b_strm_copy k p name s;
        (ok, s) \<leftarrow> on_interp (b6b_global a a) s;
        if \<not> ok then do {
          I \<leftarrow> upd_heap (b6b_destroy a) (io_i s);
          Some (False, s\<lparr>io_i := I\<rparr>)
        }
        else do {
          let s = (if has_opt B6B_OPT_NBF (io_i s) then snd (on_world (os_setvbuf OS fp IONBF) s) else s);
          I \<leftarrow> upd_heap (b6b_unref a) (io_i s);
          Some (True, s\<lparr>io_i := I\<rparr>)
        }
      })"

definition b6b_stdio_init :: "'w os \<Rightarrow> 'k \<Rightarrow> 'k \<Rightarrow> ptr \<times> ptr \<times> ptr \<Rightarrow> ('k, 'w) io \<Rightarrow> (bool \<times> ('k, 'w) io) option" where
  "b6b_stdio_init OS ro wo fps s = (case fps of (fin, fout, ferr) \<Rightarrow> do {
     (ok, s) \<leftarrow> b6b_stdio_wrap OS ''stdin'' fin 0 ro s;
     if \<not> ok then Some (False, s)
     else do {
       (ok, s) \<leftarrow> b6b_stdio_wrap OS ''stdout'' fout 1 wo s;
       if \<not> ok then Some (False, s)
       else b6b_stdio_wrap OS ''stderr'' ferr 2 wo s
     }
   })"

section \<open>Files\<close>

definition b6b_ro_file_ops :: "'w os \<Rightarrow> ('k, 'w) offload \<Rightarrow> ('k, 'w) io strm_ops" where
  "b6b_ro_file_ops OS offl = no_ops\<lparr>op_peeksz := Some (b6b_stdio_peeksz OS offl), op_read := Some (b6b_stdio_read OS offl),
     op_fd := Some b6b_stdio_fd, op_close := Some (b6b_stdio_close OS offl)\<rparr>"

definition b6b_wo_file_ops :: "'w os \<Rightarrow> ('k, 'w) offload \<Rightarrow> ('k, 'w) io strm_ops" where
  "b6b_wo_file_ops OS offl = no_ops\<lparr>op_write := Some (b6b_stdio_write OS offl),
     op_fd := Some b6b_stdio_fd, op_close := Some (b6b_stdio_close OS offl)\<rparr>"

definition b6b_rw_file_ops :: "'w os \<Rightarrow> ('k, 'w) offload \<Rightarrow> ('k, 'w) io strm_ops" where
  "b6b_rw_file_ops OS offl = no_ops\<lparr>op_peeksz := Some (b6b_stdio_peeksz OS offl), op_read := Some (b6b_stdio_read OS offl),
     op_write := Some (b6b_stdio_write OS offl), op_fd := Some b6b_stdio_fd, op_close := Some (b6b_stdio_close OS offl)\<rparr>"

datatype file_kind = RO_file | WO_file | RW_file

record b6b_file_mode =
  fm_mode :: string
  fm_fmode :: string
  fm_ops :: file_kind
  fm_bmode :: bmode

definition file_modes :: "(string \<times> string \<times> file_kind \<times> bmode) list" where
  "file_modes = [
     (''r'', ''r'', RO_file, IOLBF), (''w'', ''w'', WO_file, IOLBF), (''a'', ''a'', WO_file, IOLBF),
     (''rb'', ''r'', RO_file, IOFBF), (''wb'', ''w'', WO_file, IOFBF), (''ab'', ''a'', WO_file, IOFBF),
     (''ru'', ''r'', RO_file, IONBF), (''wu'', ''w'', WO_file, IONBF), (''au'', ''a'', WO_file, IONBF),
     (''r+'', ''r+'', RW_file, IOLBF), (''w+'', ''w+'', RW_file, IOLBF), (''a+'', ''a+'', RW_file, IOLBF),
     (''r+b'', ''r+'', RW_file, IOFBF), (''w+b'', ''w+'', RW_file, IOFBF), (''a+b'', ''a+'', RW_file, IOFBF),
     (''r+u'', ''r+'', RW_file, IONBF), (''w+u'', ''w+'', RW_file, IONBF), (''a+u'', ''a+'', RW_file, IONBF)]"

definition b6b_file_modes :: "b6b_file_mode list" where
  "b6b_file_modes = map (\<lambda>(m, f, k, b). \<lparr>fm_mode = m, fm_fmode = f, fm_ops = k, fm_bmode = b\<rparr>) file_modes"

definition b6b_file_def_mode :: b6b_file_mode where
  "b6b_file_def_mode = hd b6b_file_modes"

definition b6b_file_mode :: "string \<Rightarrow> b6b_file_mode option" where
  "b6b_file_mode m = find (\<lambda>fm. c_strcmp_eq (fm_mode fm) m) b6b_file_modes"

text \<open>
  A new file.  When the buffer cannot be set the object is destroyed, and its destructor closes
  the stream (\<open>b6b_strm_del\<close>) before the memory is given back.  \<open>kof\<close> gives the tables.
\<close>

definition b6b_file_new :: "'w os \<Rightarrow> ('k, 'w) vtab \<Rightarrow> (file_kind \<Rightarrow> 'k) \<Rightarrow> ptr \<Rightarrow> int \<Rightarrow> bmode \<Rightarrow> file_kind
    \<Rightarrow> ('k, 'w) io \<Rightarrow> (addr option \<times> ('k, 'w) io) option" where
  "b6b_file_new OS T kof fp fd bm kind s =
     (case new_priv (P_stdio \<lparr>fs_fp = fp, fs_buf = False, fs_fd = fd\<rparr>) s of (p, s) \<Rightarrow> do {
        (a, s) \<leftarrow> b6b_strm_fmt (kof kind) p ''file'' s;
        if bm = IONBF then Some (Some a, snd (on_world (os_setvbuf OS fp IONBF) s))
        else
          let s = set_priv p (P_stdio \<lparr>fs_fp = fp, fs_buf = True, fs_fd = fd\<rparr>) s in
          (case on_world (os_setvbuf OS fp bm) s of
             (True, s) \<Rightarrow> Some (Some a, s)
           | (False, s) \<Rightarrow> do {
               s \<leftarrow> destroy_strm T a s;
               Some (None, s)
             })
      })"

definition b6b_file_do_fopen :: "'w os \<Rightarrow> string \<Rightarrow> string \<Rightarrow> 'w \<Rightarrow> off \<times> 'w" where
  "b6b_file_do_fopen OS path fmode w = (case os_fopen OS path fmode w of
     (Inl err, w) \<Rightarrow> (off0\<lparr>of_errno := err\<rparr>, w)
   | (Inr fp, w) \<Rightarrow> (off0\<lparr>of_ptr := fp\<rparr>, w))"

definition open_file :: "'w os \<Rightarrow> ('k, 'w) offload \<Rightarrow> ('k, 'w) vtab \<Rightarrow> (file_kind \<Rightarrow> 'k) \<Rightarrow> string \<Rightarrow> b6b_file_mode
    \<Rightarrow> ('k, 'w) io \<Rightarrow> (b6b_res \<times> ('k, 'w) io) option" where
  "open_file OS offl T kof path fm s = do {
     ((ok, d), s) \<leftarrow> offl (b6b_file_do_fopen OS (c_str path) (fm_fmode fm)) s;
     if \<not> ok then do {
       s \<leftarrow> (if of_ptr d = 0 then Some s else map_option snd (offl (b6b_stdio_do_fclose OS (of_ptr d)) s));
       Some (B6B_ERR, s)
     }
     else if of_ptr d = 0 then b6b_return_strerror OS (of_errno d) s
     else do {
       let fd = os_fileno OS (of_ptr d) (io_w s);
       (case on_world (os_cloexec OS fd) s of
          (Some err, s) \<Rightarrow> do {
            (_, s) \<leftarrow> offl (b6b_stdio_do_fclose OS (of_ptr d)) s;
            b6b_return_strerror OS err s
          }
        | (None, s) \<Rightarrow> do {
            (r, s) \<leftarrow> b6b_file_new OS T kof (of_ptr d) fd (fm_bmode fm) (fm_ops fm) s;
            case r of
              None \<Rightarrow> do {
                (_, s) \<leftarrow> offl (b6b_stdio_do_fclose OS (of_ptr d)) s;
                Some (B6B_ERR, s)
              }
            | Some a \<Rightarrow> on_interp (b6b_return a) s
          })
     }
   }"

definition b6b_file_proc_open :: "'w os \<Rightarrow> ('k, 'w) offload \<Rightarrow> ('k, 'w) vtab \<Rightarrow> (file_kind \<Rightarrow> 'k) \<Rightarrow> addr
    \<Rightarrow> ('k, 'w) io \<Rightarrow> (b6b_res \<times> ('k, 'w) io) option" where
  "b6b_file_proc_open OS offl T kof args s = do {
     ((argc, ps), s) \<leftarrow> io_args args ''os|s'' [False, True, True] s;
     if argc = 0 then Some (B6B_ERR, s)
     else case ps of
       [Arg p] \<Rightarrow> do {
         path \<leftarrow> str_at p (io_i s);
         open_file OS offl T kof path b6b_file_def_mode s
       }
     | [Arg p, Arg m] \<Rightarrow> do {
         (ok, s) \<leftarrow> on_interp (on_heap (b6b_as_str m)) s;
         if \<not> ok then Some (B6B_ERR, s)
         else do {
           mode \<leftarrow> str_at m (io_i s);
           case b6b_file_mode mode of
             None \<Rightarrow> b6b_return_strerror OS EINVAL s
           | Some fm \<Rightarrow> do {
               path \<leftarrow> str_at p (io_i s);
               open_file OS offl T kof path fm s
             }
         }
       }
     | _ \<Rightarrow> None
   }"

end
