(* ===== verification/Events.thy ===== *)
theory Events
  imports Stdio
begin

text \<open>
  The procedures on what else the operating system has: polling (src/b6b_poll.c), sleeping
  (src/b6b_time.c), paths (src/b6b_path.c), signals (src/b6b_signal.c) and commands
  (src/b6b_sh.c), with \<^verbatim>\<open>b6b_syscall\<close> of src/b6b_syscall.c.
\<close>

section \<open>Polling\<close>

text \<open>The place of \<^verbatim>\<open>b6b_poll_proc\<close> among the procedures of the extensions.\<close>

definition POLL_PROC :: nat where "POLL_PROC = 1"

text \<open>
  \<^verbatim>\<open>b6b_syscall\<close> with a work in place of the number and the arguments; \<open>None\<close> inside is its
  failure, and the call's \<^verbatim>\<open>errno\<close> comes with the data.
\<close>

definition b6b_syscall :: "('k, 'w) offload \<Rightarrow> ('w \<Rightarrow> off \<times> 'w) \<Rightarrow> ('k, 'w) io \<Rightarrow> (off option \<times> ('k, 'w) io) option" where
  "b6b_syscall offl f s = do {
     ((ok, d), s) \<leftarrow> offl f s;
     Some (if ok then Some d else None, s)
   }"

definition do_epoll_wait :: "'w os \<Rightarrow> int \<Rightarrow> int \<Rightarrow> int \<Rightarrow> 'w \<Rightarrow> off \<times> 'w" where
  "do_epoll_wait OS fd n t w = (case os_epoll_wait OS fd n t w of
     (Inl err, w) \<Rightarrow> (off0\<lparr>of_ret := -1, of_errno := err\<rparr>, w)
   | (Inr evs, w) \<Rightarrow> (off0\<lparr>of_ret := int (length evs), of_events := evs\<rparr>, w))"

definition ev_has :: "u32 \<Rightarrow> epoll_event \<Rightarrow> bool" where
  "ev_has m e \<longleftrightarrow> ev_events e AND m \<noteq> 0"

definition add_if :: "bool \<Rightarrow> addr \<Rightarrow> addr \<Rightarrow> interp \<Rightarrow> interp option" where
  "add_if b l a I = (if b then upd_heap (b6b_list_add l a) I else Some I)"

text \<open>
  The loop over the events: \<open>j\<close> counts those that were reported, \<open>i\<close> the places seen.  Past the
  last event the kernel has written, a place of the array is uninitialised.
\<close>

fun poll_loop :: "epoll_event list \<Rightarrow> int \<Rightarrow> int \<Rightarrow> int \<Rightarrow> int \<Rightarrow> addr \<times> addr \<times> addr \<Rightarrow> interp \<Rightarrow> interp option" where
  "poll_loop [] j i ret n fds I = (if j < ret \<and> i < n then None else Some I)"
| "poll_loop (e # es) j i ret n fds I =
     (if \<not> (j < ret \<and> i < n) then Some I
      else
        let r = ev_has EPOLLIN e; w = ev_has EPOLLOUT e; x = ev_has (EPOLLERR OR EPOLLHUP OR EPOLLRDHUP) e in
        if r \<or> w \<or> x then
          (case new_heap (b6b_int_new (word_of_int (ev_fd e))) I of (fd, I) \<Rightarrow> do {
             I \<leftarrow> add_if r (fst fds) fd I;
             I \<leftarrow> add_if w (fst (snd fds)) fd I;
             I \<leftarrow> add_if x (snd (snd fds)) fd I;
             I \<leftarrow> upd_heap (b6b_unref fd) I;
             poll_loop es (j + 1) (i + 1) ret n fds I
           })
        else poll_loop es j (i + 1) ret n fds I)"

text \<open>A list of three new lists; it holds their only references.\<close>

definition new_fds :: "interp \<Rightarrow> ((addr \<times> addr \<times> addr \<times> addr) \<times> interp) option" where
  "new_fds I =
     (case new_heap b6b_list_new I of (l, I) \<Rightarrow>
      case new_heap b6b_list_new I of (a, I) \<Rightarrow> do {
        I \<leftarrow> upd_heap (b6b_list_add l a) I;
        I \<leftarrow> upd_heap (b6b_unref a) I;
        (case new_heap b6b_list_new I of (b, I) \<Rightarrow> do {
           I \<leftarrow> upd_heap (b6b_list_add l b) I;
           I \<leftarrow> upd_heap (b6b_unref b) I;
           (case new_heap b6b_list_new I of (c, I) \<Rightarrow> do {
              I \<leftarrow> upd_heap (b6b_list_add l c) I;
              I \<leftarrow> upd_heap (b6b_unref c) I;
              Some ((l, a, b, c), I)
            })
         })
      })"

definition poll_wait :: "'w os \<Rightarrow> ('k, 'w) offload \<Rightarrow> addr \<Rightarrow> int \<Rightarrow> int \<Rightarrow> int \<Rightarrow> ('k, 'w) io
    \<Rightarrow> (b6b_res \<times> ('k, 'w) io) option" where
  "poll_wait OS offl p fd n t s = do {
     ((l, fds), s) \<leftarrow> on_interp new_fds s;
     I \<leftarrow> upd_heap (b6b_ref p) (io_i s);
     (out, s) \<leftarrow> b6b_syscall offl (do_epoll_wait OS fd n t) (s\<lparr>io_i := I\<rparr>);
     I \<leftarrow> upd_heap (b6b_unref p) (io_i s);
     let s = s\<lparr>io_i := I\<rparr>;
     case out of
       None \<Rightarrow> do {
         I \<leftarrow> upd_heap (b6b_destroy l) (io_i s);
         Some (B6B_ERR, s\<lparr>io_i := I\<rparr>)
       }
     | Some d \<Rightarrow>
         if of_ret d < 0 then do {
           I \<leftarrow> upd_heap (b6b_destroy l) (io_i s);
           b6b_return_strerror OS (of_errno d) (s\<lparr>io_i := I\<rparr>)
         }
         else do {
           I \<leftarrow> poll_loop (of_events d) 0 0 (of_ret d) n fds (io_i s);
           on_interp (b6b_return l) (s\<lparr>io_i := I\<rparr>)
         }
   }"

definition b6b_poll_proc :: "'w os \<Rightarrow> ('k, 'w) offload \<Rightarrow> addr \<Rightarrow> ('k, 'w) io \<Rightarrow> (b6b_res \<times> ('k, 'w) io) option" where
  "b6b_poll_proc OS offl args s = do {
     ((argc, ps), s) \<leftarrow> io_args args ''osi|i'' [True, True, True, True] s;
     if argc = 0 then Some (B6B_ERR, s)
     else case ps of
       Arg p # Arg o' # Arg m # rest \<Rightarrow> do {
         q \<leftarrow> strm_of p s;
         let fd = fd_of (word_of_nat q);
         ops \<leftarrow> str_at o' (io_i s);
         n \<leftarrow> int_at m (io_i s);
         if sint n > INT_MAX then Some (B6B_ERR, s)
         else case rest of
           [] \<Rightarrow>
             if c_strcmp_eq ops ''remove'' then
               if sint n < 0 then Some (B6B_ERR, s)
               else (case on_world (os_epoll_ctl OS fd EPOLL_CTL_DEL (sint n)) s of
                   (None, s) \<Rightarrow> Some (B6B_OK, s)
                 | (Some err, s) \<Rightarrow> if err = ENOENT then Some (B6B_OK, s) else b6b_return_strerror OS err s)
             else Some (B6B_ERR, s)
         | Arg u # _ \<Rightarrow> do {
             t \<leftarrow> int_at u (io_i s);
             if c_strcmp_eq ops ''add'' then
               if sint n < 0 then Some (B6B_ERR, s)
               else (case on_world (os_epoll_ctl OS fd (EPOLL_CTL_ADD (ucast t AND (EPOLLIN OR EPOLLOUT))) (sint n)) s of
                   (None, s) \<Rightarrow> Some (B6B_OK, s)
                 | (Some err, s) \<Rightarrow> if err = EEXIST then Some (B6B_OK, s) else b6b_return_strerror OS err s)
             else if c_strcmp_eq ops ''wait'' then
               if sint n \<le> 0 \<or> sint t < INT_MIN \<or> sint t > INT_MAX then Some (B6B_ERR, s)
               else poll_wait OS offl p fd (sint n) (sint t) s
             else Some (B6B_ERR, s)
           }
         | _ \<Rightarrow> None
       }
     | _ \<Rightarrow> None
   }"

definition b6b_poll_del :: "'w os \<Rightarrow> ptr \<Rightarrow> ('k, 'w) io \<Rightarrow> ('k, 'w) io" where
  "b6b_poll_del OS p s = upd_world (os_close OS (fd_of p)) s"

definition b6b_poll_proc_poll :: "'w os \<Rightarrow> addr \<Rightarrow> ('k, 'w) io \<Rightarrow> (b6b_res \<times> ('k, 'w) io) option" where
  "b6b_poll_proc_poll OS args s = do {
     ((argc, ps), s) \<leftarrow> io_args args ''o'' [False] s;
     if argc = 0 then Some (B6B_ERR, s)
     else (case on_world (os_epoll_create1 OS) s of
         (Inl err, s) \<Rightarrow> b6b_return_strerror OS err s
       | (Inr fd, s) \<Rightarrow>
           (case new_heap (b6b_new (\<lambda>ob. ob\<lparr>ob_s := Some (''poll:'' @ fmt_int fd), ob_proc := F_ext POLL_PROC,
               ob_priv := Priv_ext (unat (fd_ptr fd))\<rparr>)) (io_i s) of
              (a, I) \<Rightarrow> on_interp (b6b_return a) (s\<lparr>io_i := I\<rparr>)))
   }"

section \<open>Sleeping\<close>

definition do_nanosleep :: "'w os \<Rightarrow> int \<times> int \<Rightarrow> 'w \<Rightarrow> off \<times> 'w" where
  "do_nanosleep OS ts w = (case os_nanosleep OS ts w of
     (None, w) \<Rightarrow> (off0, w)
   | (Some (err, rem), w) \<Rightarrow> (off0\<lparr>of_ret := -1, of_errno := err, of_time := rem\<rparr>, w))"

text \<open>A call that a signal interrupts is made again with the time that is left.\<close>

partial_function (option) sleep_loop :: "'w os \<Rightarrow> ('k, 'w) offload \<Rightarrow> int \<times> int \<Rightarrow> ('k, 'w) io
    \<Rightarrow> (b6b_res \<times> ('k, 'w) io) option" where
  [code]: "sleep_loop OS offl ts s = do {
     (out, s) \<leftarrow> b6b_syscall offl (do_nanosleep OS ts) s;
     case out of
       None \<Rightarrow> Some (B6B_ERR, s)
     | Some d \<Rightarrow>
         if of_ret d = 0 then Some (B6B_OK, s)
         else if of_errno d \<noteq> EINTR then b6b_return_strerror OS (of_errno d) s
         else sleep_loop OS offl (of_time d) s
   }"

definition b6b_time_proc_sleep :: "'w os \<Rightarrow> ('k, 'w) offload \<Rightarrow> addr \<Rightarrow> ('k, 'w) io \<Rightarrow> (b6b_res \<times> ('k, 'w) io) option" where
  "b6b_time_proc_sleep OS offl args s = do {
     ((argc, ps), s) \<leftarrow> io_args args ''of'' [False, True] s;
     if argc = 0 then Some (B6B_ERR, s)
     else case ps of
       [Arg n] \<Rightarrow> do {
         f \<leftarrow> float_at n (io_i s);
         if dlt f dzero \<or> dlt (dof_int UINT_MAX) f then Some (B6B_ERR, s)
         else if \<not> dtrue f then Some (B6B_OK, s)
         else do {
           ts \<leftarrow> timespec_of f;
           sleep_loop OS offl ts s
         }
       }
     | _ \<Rightarrow> None
   }"

section \<open>Paths\<close>

definition b6b_path_proc_realpath :: "'w os \<Rightarrow> addr \<Rightarrow> ('k, 'w) io \<Rightarrow> (b6b_res \<times> ('k, 'w) io) option" where
  "b6b_path_proc_realpath OS args s = do {
     ((argc, ps), s) \<leftarrow> io_args args ''os'' [False, True] s;
     if argc = 0 then Some (B6B_ERR, s)
     else case ps of
       [Arg p] \<Rightarrow> do {
         path \<leftarrow> str_at p (io_i s);
         (case on_world (os_realpath OS (c_str path)) s of
            (Inl err, s) \<Rightarrow> b6b_return_strerror OS err s
          | (Inr r, s) \<Rightarrow> on_interp (b6b_return_str (c_str r)) s)
       }
     | _ \<Rightarrow> None
   }"

section \<open>Signals\<close>

definition get_signal :: "ptr \<Rightarrow> ('k, 'w) io \<Rightarrow> b6b_signal option" where
  "get_signal p s = (case get_priv p s of Some (P_signal sg) \<Rightarrow> Some sg | _ \<Rightarrow> None)"

definition b6b_signal_peeksz :: "ptr \<Rightarrow> ('k, 'w) io \<Rightarrow> (int \<times> ('k, 'w) io) option" where
  "b6b_signal_peeksz p s = Some (int (length ''4294967295'') + 1, s)"

text \<open>\<open>os_siginfo_signo\<close> is the field \<^verbatim>\<open>ssi_signo\<close> of the 128 bytes of a \<^verbatim>\<open>signalfd_siginfo\<close>.\<close>

definition b6b_signal_read :: "'w os \<Rightarrow> ptr \<Rightarrow> nat \<Rightarrow> bool \<Rightarrow> bool \<Rightarrow> ('k, 'w) io \<Rightarrow> (rd \<times> ('k, 'w) io) option" where
  "b6b_signal_read OS p len eof again s = do {
     sg \<leftarrow> get_signal p s;
     (r, s) \<leftarrow> b6b_fd_read OS (fd_ptr (sg_fd sg)) 128 eof again s;
     if rd_n r \<le> 0 then Some (r\<lparr>rd_bytes := []\<rparr>, s)
     else if rd_n r \<noteq> 128 then Some (r\<lparr>rd_n := -1, rd_bytes := []\<rparr>, s)
     else
       let t = dec (os_siginfo_signo OS (rd_bytes r)) in
       if length t \<ge> len then Some (r\<lparr>rd_n := -1, rd_bytes := take (len - 1) t @ [NUL]\<rparr>, s)
       else Some (r\<lparr>rd_n := int (length t), rd_bytes := t @ [NUL], rd_again := False\<rparr>, s)
   }"

definition b6b_signal_fd :: "ptr \<Rightarrow> ('k, 'w) io \<Rightarrow> int option" where
  "b6b_signal_fd p s = map_option sg_fd (get_signal p s)"

definition b6b_signal_close :: "'w os \<Rightarrow> ptr \<Rightarrow> ('k, 'w) io \<Rightarrow> ('k, 'w) io option" where
  "b6b_signal_close OS p s = do {
     sg \<leftarrow> get_signal p s;
     free_priv p (upd_world (os_close OS (sg_fd sg)) (upd_world (os_sigunblock OS (sg_set sg)) s))
   }"

definition b6b_signal_ops :: "'w os \<Rightarrow> ('k, 'w) io strm_ops" where
  "b6b_signal_ops OS = no_ops\<lparr>op_peeksz := Some b6b_signal_peeksz, op_read := Some (b6b_signal_read OS),
     op_fd := Some b6b_signal_fd, op_close := Some (b6b_signal_close OS)\<rparr>"

text \<open>The numbers of the signals, \<open>None\<close> inside at the first item that is none.\<close>

fun signal_set :: "'w os \<Rightarrow> addr list \<Rightarrow> interp \<Rightarrow> (int list option \<times> interp) option" where
  "signal_set OS [] I = Some (Some [], I)"
| "signal_set OS (a # as) I = do {
     (ok, I) \<leftarrow> on_heap (b6b_as_int a) I;
     if \<not> ok then Some (None, I)
     else do {
       i \<leftarrow> int_at a I;
       if sint i < 1 \<or> sint i > INT_MAX \<or> \<not> os_sigaddset OS (sint i) then Some (None, I)
       else do {
         (r, I) \<leftarrow> signal_set OS as I;
         Some (map_option ((#) (sint i)) r, I)
       }
     }
   }"

definition b6b_signal_proc_signal :: "'w os \<Rightarrow> 'k \<Rightarrow> addr \<Rightarrow> ('k, 'w) io \<Rightarrow> (b6b_res \<times> ('k, 'w) io) option" where
  "b6b_signal_proc_signal OS k args s = do {
     its \<leftarrow> items_at args (io_i s);
     if its = [] then None
     else if tl its = [] then Some (B6B_ERR, s)
     else do {
       (r, s) \<leftarrow> on_interp (signal_set OS (map snd (tl its))) s;
       case r of
         None \<Rightarrow> Some (B6B_ERR, s)
       | Some sigs \<Rightarrow>
           (case on_world (os_sigblock OS sigs) s of
              (Some err, s) \<Rightarrow> b6b_return_strerror OS err s
            | (None, s) \<Rightarrow>
                (case on_world (os_signalfd OS sigs) s of
                   (Inl err, s) \<Rightarrow> b6b_return_strerror OS err s
                 | (Inr fd, s) \<Rightarrow>
                     (case new_priv (P_signal \<lparr>sg_fd = fd, sg_set = sigs\<rparr>) s of (p, s) \<Rightarrow> do {
                        (a, s) \<leftarrow> b6b_strm_fmt k p ''signal'' s;
                        on_interp (b6b_return a) s
                      })))
     }
   }"

section \<open>Commands\<close>

text \<open>The destructor of the object for the process: it reaps it.\<close>

definition b6b_pid_del :: "'w os \<Rightarrow> ptr \<Rightarrow> ('k, 'w) io \<Rightarrow> ('k, 'w) io" where
  "b6b_pid_del OS p s = (if fd_of p = 0 then s else upd_world (os_waitpid OS (fd_of p)) s)"

definition get_sh :: "ptr \<Rightarrow> ('k, 'w) io \<Rightarrow> b6b_sh option" where
  "get_sh p s = (case get_priv p s of Some (P_sh sh) \<Rightarrow> Some sh | _ \<Rightarrow> None)"

definition b6b_sh_peeksz :: "'w os \<Rightarrow> ptr \<Rightarrow> ('k, 'w) io \<Rightarrow> (int \<times> ('k, 'w) io) option" where
  "b6b_sh_peeksz OS p s = do {
     sh \<leftarrow> get_sh p s;
     b6b_fd_peeksz OS (fd_ptr (sh_fd sh)) s
   }"

definition b6b_sh_read :: "'w os \<Rightarrow> ptr \<Rightarrow> nat \<Rightarrow> bool \<Rightarrow> bool \<Rightarrow> ('k, 'w) io \<Rightarrow> (rd \<times> ('k, 'w) io) option" where
  "b6b_sh_read OS p len eof again s = do {
     sh \<leftarrow> get_sh p s;
     b6b_fd_read OS (fd_ptr (sh_fd sh)) len eof again s
   }"

definition b6b_sh_write :: "'w os \<Rightarrow> ptr \<Rightarrow> string \<Rightarrow> ('k, 'w) io \<Rightarrow> (int \<times> ('k, 'w) io) option" where
  "b6b_sh_write OS p buf s = do {
     sh \<leftarrow> get_sh p s;
     b6b_fd_write OS (fd_ptr (sh_fd sh)) buf s
   }"

definition b6b_sh_fd :: "ptr \<Rightarrow> ('k, 'w) io \<Rightarrow> int option" where
  "b6b_sh_fd p s = map_option sh_fd (get_sh p s)"

definition b6b_sh_close :: "'w os \<Rightarrow> ptr \<Rightarrow> ('k, 'w) io \<Rightarrow> ('k, 'w) io option" where
  "b6b_sh_close OS p s = do {
     sh \<leftarrow> get_sh p s;
     let s = upd_world (os_close OS (sh_fd sh)) s;
     I \<leftarrow> upd_heap (b6b_unref (sh_pid sh)) (io_i s);
     free_priv p (s\<lparr>io_i := I\<rparr>)
   }"

definition b6b_sh_in_ops :: "'w os \<Rightarrow> ('k, 'w) io strm_ops" where
  "b6b_sh_in_ops OS = no_ops\<lparr>op_write := Some (b6b_sh_write OS), op_fd := Some b6b_sh_fd,
     op_close := Some (b6b_sh_close OS)\<rparr>"

definition b6b_sh_out_ops :: "'w os \<Rightarrow> ('k, 'w) io strm_ops" where
  "b6b_sh_out_ops OS = no_ops\<lparr>op_peeksz := Some (b6b_sh_peeksz OS), op_read := Some (b6b_sh_read OS),
     op_fd := Some b6b_sh_fd, op_close := Some (b6b_sh_close OS)\<rparr>"

text \<open>
  A pipe with a stream on the end for writing (\<open>wr\<close>) or reading; the other end comes with it.
\<close>

definition b6b_sh_new_pipe :: "'w os \<Rightarrow> addr \<Rightarrow> 'k \<Rightarrow> string \<Rightarrow> bool \<Rightarrow> ('k, 'w) io
    \<Rightarrow> ((addr \<times> int \<times> int) option \<times> ('k, 'w) io) option" where
  "b6b_sh_new_pipe OS pid k type wr s =
     (case on_world (os_pipe2 OS) s of
        (Inl err, s) \<Rightarrow> do {
          (_, s) \<leftarrow> b6b_return_strerror OS err s;
          Some (None, s)
        }
      | (Inr (fd0, fd1), s) \<Rightarrow>
          (case on_world (os_nonblock OS (if wr then fd1 else fd0)) s of
             (Some err, s) \<Rightarrow> do {
               (_, s) \<leftarrow> b6b_return_strerror OS err (upd_world (os_close OS fd0) (upd_world (os_close OS fd1) s));
               Some (None, s)
             }
           | (None, s) \<Rightarrow> do {
               I \<leftarrow> upd_heap (b6b_ref pid) (io_i s);
               (case new_priv (P_sh \<lparr>sh_pid = pid, sh_fd = (if wr then fd1 else fd0)\<rparr>) (s\<lparr>io_i := I\<rparr>) of (p, s) \<Rightarrow> do {
                  (a, s) \<leftarrow> b6b_strm_fmt k p type s;
                  Some (Some (a, fd0, fd1), s)
                })
             }))"

definition destroy_obj :: "addr \<Rightarrow> ('k, 'w) io \<Rightarrow> ('k, 'w) io option" where
  "destroy_obj a s = do {
     I \<leftarrow> upd_heap (b6b_destroy a) (io_i s);
     Some (s\<lparr>io_i := I\<rparr>)
   }"

text \<open>The streams that were made are destroyed, the last one first, and then \<open>pid\<close>.\<close>

fun sh_undo :: "('k, 'w) vtab \<Rightarrow> addr list \<Rightarrow> addr \<Rightarrow> ('k, 'w) io \<Rightarrow> (b6b_res \<times> ('k, 'w) io) option" where
  "sh_undo T [] pid s = do {
     s \<leftarrow> destroy_obj pid s;
     Some (B6B_ERR, s)
   }"
| "sh_undo T (a # as) pid s = do {
     s \<leftarrow> destroy_strm T a s;
     sh_undo T as pid s
   }"

text \<open>After \<^verbatim>\<open>fork\<close> in the parent.\<close>

definition sh_started :: "'w os \<Rightarrow> addr \<Rightarrow> int \<Rightarrow> addr \<times> addr \<times> addr \<Rightarrow> int \<times> int \<times> int \<Rightarrow> ('k, 'w) io
    \<Rightarrow> (b6b_res \<times> ('k, 'w) io) option" where
  "sh_started OS pid n shs cfds s = (case (shs, cfds) of ((a0, a1, a2), (c0, c1, c2)) \<Rightarrow> do {
     let s = upd_world (os_close OS c2) (upd_world (os_close OS c1) (upd_world (os_close OS c0) s));
     ob \<leftarrow> obj_at pid (io_i s);
     let s = s\<lparr>io_i := (io_i s)\<lparr>hp := hset pid (ob\<lparr>ob_i := Some (word_of_int n), ob_priv := Priv_ext (unat (fd_ptr n))\<rparr>)
       (hp (io_i s))\<rparr>\<rparr>;
     (l, s) \<leftarrow> on_interp (on_heap (b6b_list_build [pid, a0, a1, a2])) s;
     I \<leftarrow> upd_heap (b6b_unref a2) (io_i s);
     I \<leftarrow> upd_heap (b6b_unref a1) I;
     I \<leftarrow> upd_heap (b6b_unref a0) I;
     I \<leftarrow> upd_heap (b6b_unref pid) I;
     on_interp (b6b_return l) (s\<lparr>io_i := I\<rparr>)
   })"

definition b6b_sh_proc_sh :: "'w os \<Rightarrow> ('k, 'w) vtab \<Rightarrow> 'k \<Rightarrow> 'k \<Rightarrow> addr \<Rightarrow> ('k, 'w) io
    \<Rightarrow> (b6b_res \<times> ('k, 'w) io) option" where
  "b6b_sh_proc_sh OS T kin kout args s = do {
     ((argc, ps), s) \<leftarrow> io_args args ''os'' [False, True] s;
     if argc = 0 then Some (B6B_ERR, s)
     else case ps of
       [Arg c] \<Rightarrow>
         (case new_heap (b6b_int_new 0) (io_i s) of (pid, I) \<Rightarrow> do {
            (r0, s) \<leftarrow> b6b_sh_new_pipe OS pid kin ''stdin'' True (s\<lparr>io_i := I\<rparr>);
            case r0 of
              None \<Rightarrow> sh_undo T [] pid s
            | Some (a0, in0, in1) \<Rightarrow> do {
                (r1, s) \<leftarrow> b6b_sh_new_pipe OS pid kout ''stdout'' False s;
                case r1 of
                  None \<Rightarrow> sh_undo T [a0] pid s
                | Some (a1, out0, out1) \<Rightarrow> do {
                    (r2, s) \<leftarrow> b6b_sh_new_pipe OS pid kout ''stderr'' False s;
                    case r2 of
                      None \<Rightarrow> sh_undo T [a1, a0] pid s
                    | Some (a2, err0, err1) \<Rightarrow> do {
                        cmd \<leftarrow> str_at c (io_i s);
                        (case on_world (os_sh_fork OS (c_str cmd) (in0, out1, err1)) s of (n, s) \<Rightarrow>
                           if n = -1 then sh_undo T [a2, a1, a0] pid s
                           else sh_started OS pid n (a0, a1, a2) (in0, out1, err1) s)
                      }
                  }
              }
          })
     | _ \<Rightarrow> None
   }"

end
