(* ===== verification/Sockets.thy ===== *)
theory Sockets
  imports Stdio
begin

text \<open>
  Sockets: src/b6b_socket.c.  \<open>sock_tab\<close> names the tables of operations, \<open>kof\<close> their addresses;
  name resolution runs on the offload thread.
\<close>

datatype sock_tab = Tcp_client | Udp_client | Un_stream_client | Un_dgram_client
  | Tcp_server | Udp_server | Un_stream_server | Un_dgram_server

definition get_socket :: "ptr \<Rightarrow> ('k, 'w) io \<Rightarrow> b6b_socket option" where
  "get_socket p s = (case get_priv p s of Some (P_socket so) \<Rightarrow> Some so | _ \<Rightarrow> None)"

section \<open>Reading and writing\<close>

definition b6b_socket_peeksz :: "'w os \<Rightarrow> ptr \<Rightarrow> ('k, 'w) io \<Rightarrow> (int \<times> ('k, 'w) io) option" where
  "b6b_socket_peeksz OS p s = do {
     so \<leftarrow> get_socket p s;
     b6b_fd_peeksz OS (fd_ptr (so_fd so)) s
   }"

definition b6b_socket_read :: "'w os \<Rightarrow> ptr \<Rightarrow> nat \<Rightarrow> bool \<Rightarrow> bool \<Rightarrow> ('k, 'w) io \<Rightarrow> (rd \<times> ('k, 'w) io) option" where
  "b6b_socket_read OS p len eof again s = do {
     so \<leftarrow> get_socket p s;
     b6b_fd_recv OS (fd_ptr (so_fd so)) len eof again s
   }"

text \<open>The peer is that of the last datagram.\<close>

definition b6b_socket_readfrom :: "'w os \<Rightarrow> ptr \<Rightarrow> nat \<Rightarrow> bool \<Rightarrow> bool \<Rightarrow> ('k, 'w) io \<Rightarrow> (rd \<times> ('k, 'w) io) option" where
  "b6b_socket_readfrom OS p len eof again s = do {
     so \<leftarrow> get_socket p s;
     (case on_world (os_recvfrom OS (so_fd so) len) s of
        (Inl err, s) \<Rightarrow> b6b_fd_on_read OS (Inl err) eof False s
      | (Inr (bs, peer), s) \<Rightarrow> b6b_fd_on_read OS (Inr bs) eof False (set_priv p (P_socket (so\<lparr>so_peer := peer\<rparr>)) s))
   }"

definition b6b_socket_write :: "'w os \<Rightarrow> ptr \<Rightarrow> string \<Rightarrow> ('k, 'w) io \<Rightarrow> (int \<times> ('k, 'w) io) option" where
  "b6b_socket_write OS p buf s = do {
     so \<leftarrow> get_socket p s;
     b6b_fd_send OS (fd_ptr (so_fd so)) buf s
   }"

section \<open>Addresses\<close>

definition b6b_socket_stringify_address :: "'w os \<Rightarrow> sockaddr \<Rightarrow> interp \<Rightarrow> addr option \<times> interp" where
  "b6b_socket_stringify_address OS sa I =
     (case (case sa of Sa_in a _ \<Rightarrow> os_inet_ntop OS False a | Sa_in6 a _ \<Rightarrow> os_inet_ntop OS True a | _ \<Rightarrow> None) of
        None \<Rightarrow> (None, I)
      | Some t \<Rightarrow> (case new_heap (b6b_str_new (c_str t)) I of (ob, I) \<Rightarrow> (Some ob, I)))"

definition sockaddr_port :: "sockaddr \<Rightarrow> 16 word" where
  "sockaddr_port sa = (case sa of Sa_in _ port \<Rightarrow> port | Sa_in6 _ port \<Rightarrow> port | _ \<Rightarrow> 0)"

text \<open>The address and the port; only an internet address has a text, so the port is always there.\<close>

definition b6b_socket_inet_peer :: "'w os \<Rightarrow> ptr \<Rightarrow> ('k, 'w) io \<Rightarrow> (addr option \<times> ('k, 'w) io) option" where
  "b6b_socket_inet_peer OS p s = do {
     so \<leftarrow> get_socket p s;
     (case b6b_socket_stringify_address OS (so_peer so) (io_i s) of
        (None, I) \<Rightarrow> Some (None, s\<lparr>io_i := I\<rparr>)
      | (Some a, I) \<Rightarrow>
          (case new_heap b6b_list_new I of (l, I) \<Rightarrow> do {
             I \<leftarrow> upd_heap (b6b_list_add l a) I;
             I \<leftarrow> upd_heap (b6b_unref a) I;
             (case new_heap (b6b_int_new (word_of_int (uint (sockaddr_port (so_peer so))))) I of (n, I) \<Rightarrow> do {
                I \<leftarrow> upd_heap (b6b_list_add l n) I;
                I \<leftarrow> upd_heap (b6b_unref n) I;
                Some (Some l, s\<lparr>io_i := I\<rparr>)
              })
           }))
   }"

definition b6b_socket_file_peer :: "ptr \<Rightarrow> ('k, 'w) io \<Rightarrow> (addr option \<times> ('k, 'w) io) option" where
  "b6b_socket_file_peer p s = do {
     so \<leftarrow> get_socket p s;
     (case so_peer so of
        Sa_un path \<Rightarrow> (case new_heap (b6b_str_copy (c_str path)) (io_i s) of (a, I) \<Rightarrow> Some (Some a, s\<lparr>io_i := I\<rparr>))
      | _ \<Rightarrow> do {
          I \<leftarrow> upd_heap (b6b_ref (i_null (io_i s))) (io_i s);
          Some (Some (i_null (io_i s)), s\<lparr>io_i := I\<rparr>)
        })
   }"

section \<open>Opening and closing\<close>

definition b6b_socket_fd :: "ptr \<Rightarrow> ('k, 'w) io \<Rightarrow> int option" where
  "b6b_socket_fd p s = map_option so_fd (get_socket p s)"

definition b6b_socket_close :: "'w os \<Rightarrow> ptr \<Rightarrow> ('k, 'w) io \<Rightarrow> ('k, 'w) io option" where
  "b6b_socket_close OS p s = do {
     so \<leftarrow> get_socket p s;
     free_priv p (upd_world (os_close OS (so_fd so)) s)
   }"

definition b6b_socket_close_unlink :: "'w os \<Rightarrow> ptr \<Rightarrow> ('k, 'w) io \<Rightarrow> ('k, 'w) io option" where
  "b6b_socket_close_unlink OS p s = do {
     so \<leftarrow> get_socket p s;
     case so_addr so of
       Sa_un path \<Rightarrow> free_priv p (upd_world (os_unlink OS (c_str path)) (upd_world (os_close OS (so_fd so)) s))
     | _ \<Rightarrow> None
   }"

text \<open>\<open>Sa_unspec\<close> as \<open>addr\<close> is the null pointer, and so is \<open>None\<close> as the peer.\<close>

definition b6b_socket_new :: "'w os \<Rightarrow> int \<Rightarrow> sockaddr \<Rightarrow> (sockaddr \<times> int) option \<Rightarrow> string \<Rightarrow> 'k
    \<Rightarrow> ('k, 'w) io \<Rightarrow> (addr option \<times> ('k, 'w) io) option" where
  "b6b_socket_new OS fd sa peer type k s =
     (if (case peer of None \<Rightarrow> False | Some (_, plen) \<Rightarrow> plen > 128)
      then Some (None, upd_world (os_close OS fd) s)
      else
        let so = \<lparr>so_peer = (case peer of None \<Rightarrow> Sa_unspec | Some (p, _) \<Rightarrow> p), so_addr = sa, so_fd = fd\<rparr> in
        (case new_priv (P_socket so) s of (p, s) \<Rightarrow> do {
           (a, s) \<leftarrow> b6b_strm_fmt k p type s;
           Some (Some a, s)
         }))"

section \<open>Names\<close>

definition b6b_socket_do_getaddrinfo :: "'w os \<Rightarrow> string option \<Rightarrow> string option \<Rightarrow> bool \<Rightarrow> int \<Rightarrow> 'w \<Rightarrow> off \<times> 'w" where
  "b6b_socket_do_getaddrinfo OS host service passive socktype w =
     (case os_getaddrinfo OS host service passive socktype w of
        (Inl err, w) \<Rightarrow> (off0\<lparr>of_ret := err\<rparr>, w)
      | (Inr res, w) \<Rightarrow> (off0\<lparr>of_addrs := res\<rparr>, w))"

text \<open>The addresses of a name; \<open>[]\<close> is the null pointer.\<close>

definition b6b_socket_resolve :: "'w os \<Rightarrow> ('k, 'w) offload \<Rightarrow> string \<Rightarrow> string option \<Rightarrow> int
    \<Rightarrow> ('k, 'w) io \<Rightarrow> (addrinfo list \<times> ('k, 'w) io) option" where
  "b6b_socket_resolve OS offl host service socktype s = do {
     let h = (if host = [] then None else Some (c_str host));
     ((ok, d), s) \<leftarrow> offl (b6b_socket_do_getaddrinfo OS h (map_option c_str service) (host = []) socktype) s;
     if \<not> ok then Some ([], s)
     else if of_ret d = 0 then Some (of_addrs d, s)
     else (case os_gai_strerror OS (of_ret d) of
         None \<Rightarrow> Some ([], s)
       | Some t \<Rightarrow> do {
           (_, s) \<leftarrow> on_interp (b6b_return_str (c_str t)) s;
           Some ([], s)
         })
   }"

fun nslookup_loop :: "'w os \<Rightarrow> addr \<Rightarrow> addrinfo list \<Rightarrow> interp \<Rightarrow> (bool \<times> interp) option" where
  "nslookup_loop OS l [] I = Some (True, I)"
| "nslookup_loop OS l (ai # ais) I =
     (case b6b_socket_stringify_address OS (ai_addr ai) I of
        (None, I) \<Rightarrow> Some (False, I)
      | (Some a, I) \<Rightarrow> do {
          I \<leftarrow> upd_heap (b6b_list_add l a) I;
          I \<leftarrow> upd_heap (b6b_unref a) I;
          nslookup_loop OS l ais I
        })"

definition b6b_socket_proc_nslookup :: "'w os \<Rightarrow> ('k, 'w) offload \<Rightarrow> addr \<Rightarrow> ('k, 'w) io
    \<Rightarrow> (b6b_res \<times> ('k, 'w) io) option" where
  "b6b_socket_proc_nslookup OS offl args s = do {
     ((argc, ps), s) \<leftarrow> io_args args ''os'' [False, True] s;
     if argc = 0 then Some (B6B_ERR, s)
     else case ps of
       [Arg h] \<Rightarrow> do {
         host \<leftarrow> str_at h (io_i s);
         (case new_heap b6b_list_new (io_i s) of (l, I) \<Rightarrow> do {
            (res, s) \<leftarrow> b6b_socket_resolve OS offl host None SOCK_DGRAM (s\<lparr>io_i := I\<rparr>);
            (ok, s) \<leftarrow> (if res = [] then Some (False, s) else on_interp (nslookup_loop OS l res) s);
            if \<not> ok then do {
              I \<leftarrow> upd_heap (b6b_destroy l) (io_i s);
              Some (B6B_ERR, s\<lparr>io_i := I\<rparr>)
            }
            else on_interp (b6b_return l) s
          })
       }
     | _ \<Rightarrow> None
   }"

section \<open>Clients\<close>

text \<open>An error with its message; the result is the null pointer.\<close>

definition sock_fail :: "'w os \<Rightarrow> int \<Rightarrow> ('k, 'w) io \<Rightarrow> (addr option \<times> ('k, 'w) io) option" where
  "sock_fail OS err s = do {
     (_, s) \<leftarrow> b6b_return_strerror OS err s;
     Some (None, s)
   }"

definition b6b_socket_client_new :: "'w os \<Rightarrow> addrinfo \<Rightarrow> 'k \<Rightarrow> string \<Rightarrow> ('k, 'w) io
    \<Rightarrow> (addr option \<times> ('k, 'w) io) option" where
  "b6b_socket_client_new OS ai k type s =
     (case on_world (os_socket OS (ai_family ai) (ai_socktype ai) (ai_protocol ai)) s of
        (Inl err, s) \<Rightarrow> sock_fail OS err s
      | (Inr fd, s) \<Rightarrow>
          (case on_world (os_connect OS fd (ai_addr ai)) s of
             (c, s) \<Rightarrow>
               (case (case c of Some err \<Rightarrow> if err \<noteq> EINPROGRESS then (Inl err, s) else on_world (os_getsockname OS fd) s
                     | None \<Rightarrow> on_world (os_getsockname OS fd) s) of
                  (Inl err, s) \<Rightarrow> sock_fail OS err (upd_world (os_close OS fd) s)
                | (Inr sa, s) \<Rightarrow> b6b_socket_new OS fd sa (Some (ai_addr ai, ai_addrlen ai)) type k s)))"

definition return_new :: "addr option \<Rightarrow> ('k, 'w) io \<Rightarrow> (b6b_res \<times> ('k, 'w) io) option" where
  "return_new r s = (case r of None \<Rightarrow> Some (B6B_ERR, s) | Some a \<Rightarrow> on_interp (b6b_return a) s)"

definition b6b_socket_proc_inet_client :: "'w os \<Rightarrow> ('k, 'w) offload \<Rightarrow> (sock_tab \<Rightarrow> 'k) \<Rightarrow> addr \<Rightarrow> ('k, 'w) io
    \<Rightarrow> (b6b_res \<times> ('k, 'w) io) option" where
  "b6b_socket_proc_inet_client OS offl kof args s = do {
     ((argc, ps), s) \<leftarrow> io_args args ''osss'' [False, True, True, True] s;
     if argc = 0 then Some (B6B_ERR, s)
     else case ps of
       [Arg t, Arg h, Arg v] \<Rightarrow> do {
         type \<leftarrow> str_at t (io_i s);
         host \<leftarrow> str_at h (io_i s);
         service \<leftarrow> str_at v (io_i s);
         if host = [] then Some (B6B_ERR, s)
         else if \<not> c_strcmp_eq type ''udp'' \<and> \<not> c_strcmp_eq type ''tcp'' then Some (B6B_ERR, s)
         else do {
           let udp = c_strcmp_eq type ''udp'';
           (res, s) \<leftarrow> b6b_socket_resolve OS offl host (Some service) (if udp then SOCK_DGRAM else SOCK_STREAM) s;
           case res of
             [] \<Rightarrow> Some (B6B_ERR, s)
           | ai # _ \<Rightarrow> do {
               type \<leftarrow> str_at t (io_i s);
               (r, s) \<leftarrow> b6b_socket_client_new OS ai (kof (if udp then Udp_client else Tcp_client)) (c_str type) s;
               return_new r s
             }
         }
       }
     | _ \<Rightarrow> None
   }"

text \<open>A local address; \<^verbatim>\<open>sun_path\<close> has 108 bytes, the last one NUL.\<close>

definition un_addrinfo :: "int \<Rightarrow> string \<Rightarrow> addrinfo" where
  "un_addrinfo socktype path = \<lparr>ai_family = AF_UNIX, ai_socktype = socktype, ai_protocol = 0,
     ai_addr = Sa_un (take 107 (c_str path)), ai_addrlen = 110\<rparr>"

definition b6b_socket_proc_un_client :: "'w os \<Rightarrow> (sock_tab \<Rightarrow> 'k) \<Rightarrow> addr \<Rightarrow> ('k, 'w) io
    \<Rightarrow> (b6b_res \<times> ('k, 'w) io) option" where
  "b6b_socket_proc_un_client OS kof args s = do {
     ((argc, ps), s) \<leftarrow> io_args args ''oss'' [False, True, True] s;
     if argc = 0 then Some (B6B_ERR, s)
     else case ps of
       [Arg t, Arg p] \<Rightarrow> do {
         type \<leftarrow> str_at t (io_i s);
         path \<leftarrow> str_at p (io_i s);
         if \<not> c_strcmp_eq type ''dgram'' \<and> \<not> c_strcmp_eq type ''stream'' then Some (B6B_ERR, s)
         else do {
           let dgram = c_strcmp_eq type ''dgram'';
           (r, s) \<leftarrow> b6b_socket_client_new OS (un_addrinfo (if dgram then SOCK_DGRAM else SOCK_STREAM) path)
             (kof (if dgram then Un_dgram_client else Un_stream_client)) (c_str type) s;
           return_new r s
         }
       }
     | _ \<Rightarrow> None
   }"

section \<open>Servers\<close>

text \<open>The three calls of \<^verbatim>\<open>b6b_server_socket_new\<close> up to the first that fails.\<close>

definition server_setup :: "'w os \<Rightarrow> int \<Rightarrow> addrinfo \<Rightarrow> int \<Rightarrow> 'w \<Rightarrow> int option \<times> 'w" where
  "server_setup OS fd ai backlog w =
     (case os_reuseaddr OS fd w of
        (Some err, w) \<Rightarrow> (Some err, w)
      | (None, w) \<Rightarrow>
          (case os_bind OS fd (ai_addr ai) w of
             (Some err, w) \<Rightarrow> (Some err, w)
           | (None, w) \<Rightarrow> if ai_socktype ai = SOCK_STREAM then os_listen OS fd backlog w else (None, w)))"

definition b6b_server_socket_new :: "'w os \<Rightarrow> addrinfo \<Rightarrow> b6b_int \<Rightarrow> 'k \<Rightarrow> 'k \<Rightarrow> string \<Rightarrow> ('k, 'w) io
    \<Rightarrow> (addr option \<times> ('k, 'w) io) option" where
  "b6b_server_socket_new OS ai backlog stream_k dgram_k type s =
     (if ai_socktype ai \<noteq> SOCK_DGRAM \<and> (sint backlog \<le> 0 \<or> sint backlog > INT_MAX) then Some (None, s)
      else
        (case on_world (os_socket OS (ai_family ai) (ai_socktype ai) (ai_protocol ai)) s of
           (Inl err, s) \<Rightarrow> sock_fail OS err s
         | (Inr fd, s) \<Rightarrow>
             (case on_world (server_setup OS fd ai (sint backlog)) s of
                (Some err, s) \<Rightarrow> sock_fail OS err (upd_world (os_close OS fd) s)
              | (None, s) \<Rightarrow> b6b_socket_new OS fd (ai_addr ai) None type
                  (if ai_socktype ai = SOCK_DGRAM then dgram_k else stream_k) s)))"

definition b6b_socket_stream_accept :: "'w os \<Rightarrow> 'k \<Rightarrow> string \<Rightarrow> ptr \<Rightarrow> ('k, 'w) io
    \<Rightarrow> (addr option option \<times> ('k, 'w) io) option" where
  "b6b_socket_stream_accept OS k type p s = do {
     so \<leftarrow> get_socket p s;
     (case on_world (os_accept4 OS (so_fd so)) s of
        (Inl err, s) \<Rightarrow>
          if err = EAGAIN \<or> err = EWOULDBLOCK \<or> err = EMFILE then Some (Some None, s)
          else do {
            (_, s) \<leftarrow> b6b_return_strerror OS err s;
            Some (None, s)
          }
      | (Inr (fd, peer, plen), s) \<Rightarrow> do {
          (r, s) \<leftarrow> b6b_socket_new OS fd Sa_unspec (Some (peer, plen)) type k s;
          Some (case r of None \<Rightarrow> None | Some a \<Rightarrow> Some (Some a), s)
        })
   }"

definition b6b_socket_inet_accept :: "'w os \<Rightarrow> (sock_tab \<Rightarrow> 'k) \<Rightarrow> ptr \<Rightarrow> ('k, 'w) io
    \<Rightarrow> (addr option option \<times> ('k, 'w) io) option" where
  "b6b_socket_inet_accept OS kof = b6b_socket_stream_accept OS (kof Tcp_client) ''tcp''"

definition b6b_socket_un_accept :: "'w os \<Rightarrow> (sock_tab \<Rightarrow> 'k) \<Rightarrow> ptr \<Rightarrow> ('k, 'w) io
    \<Rightarrow> (addr option option \<times> ('k, 'w) io) option" where
  "b6b_socket_un_accept OS kof = b6b_socket_stream_accept OS (kof Un_stream_client) ''stream''"

definition b6b_socket_proc_inet_server :: "'w os \<Rightarrow> ('k, 'w) offload \<Rightarrow> (sock_tab \<Rightarrow> 'k) \<Rightarrow> addr \<Rightarrow> ('k, 'w) io
    \<Rightarrow> (b6b_res \<times> ('k, 'w) io) option" where
  "b6b_socket_proc_inet_server OS offl kof args s = do {
     ((argc, ps), s) \<leftarrow> io_args args ''osss|i'' [False, True, True, True, True] s;
     if argc < 4 then Some (B6B_ERR, s)
     else case ps of
       Arg t # Arg h # Arg v # rest \<Rightarrow> do {
         type \<leftarrow> str_at t (io_i s);
         host \<leftarrow> str_at h (io_i s);
         service \<leftarrow> str_at v (io_i s);
         let udp = (argc = 4 \<and> c_strcmp_eq type ''udp'');
         if \<not> udp \<and> \<not> c_strcmp_eq type ''tcp'' then Some (B6B_ERR, s)
         else do {
           backlog \<leftarrow> (case rest of Arg b # _ \<Rightarrow> if udp then Some 5 else int_at b (io_i s) | _ \<Rightarrow> Some 5);
           (res, s) \<leftarrow> b6b_socket_resolve OS offl host (Some service) (if udp then SOCK_DGRAM else SOCK_STREAM) s;
           case res of
             [] \<Rightarrow> Some (B6B_ERR, s)
           | ai # _ \<Rightarrow> do {
               type \<leftarrow> str_at t (io_i s);
               (r, s) \<leftarrow> b6b_server_socket_new OS ai backlog (kof Tcp_server) (kof Udp_server) (c_str type) s;
               return_new r s
             }
         }
       }
     | _ \<Rightarrow> None
   }"

definition b6b_socket_proc_un_server :: "'w os \<Rightarrow> (sock_tab \<Rightarrow> 'k) \<Rightarrow> addr \<Rightarrow> ('k, 'w) io
    \<Rightarrow> (b6b_res \<times> ('k, 'w) io) option" where
  "b6b_socket_proc_un_server OS kof args s = do {
     ((argc, ps), s) \<leftarrow> io_args args ''oss|i'' [False, True, True, True] s;
     if argc < 3 then Some (B6B_ERR, s)
     else case ps of
       Arg t # Arg p # rest \<Rightarrow> do {
         type \<leftarrow> str_at t (io_i s);
         path \<leftarrow> str_at p (io_i s);
         let dgram = (argc = 3 \<and> c_strcmp_eq type ''dgram'');
         if \<not> dgram \<and> \<not> c_strcmp_eq type ''stream'' then Some (B6B_ERR, s)
         else do {
           backlog \<leftarrow> (if dgram then Some 0 else case rest of Arg b # _ \<Rightarrow> int_at b (io_i s) | _ \<Rightarrow> Some 5);
           (r, s) \<leftarrow> b6b_server_socket_new OS (un_addrinfo (if dgram then SOCK_DGRAM else SOCK_STREAM) path) backlog
             (kof Un_stream_server) (kof Un_dgram_server) (c_str type) s;
           return_new r s
         }
       }
     | _ \<Rightarrow> None
   }"

definition b6b_socket_proc_un_pair :: "'w os \<Rightarrow> (sock_tab \<Rightarrow> 'k) \<Rightarrow> addr \<Rightarrow> ('k, 'w) io
    \<Rightarrow> (b6b_res \<times> ('k, 'w) io) option" where
  "b6b_socket_proc_un_pair OS kof args s = do {
     ((argc, ps), s) \<leftarrow> io_args args ''os'' [False, True] s;
     if argc = 0 then Some (B6B_ERR, s)
     else case ps of
       [Arg t] \<Rightarrow> do {
         type \<leftarrow> str_at t (io_i s);
         if \<not> c_strcmp_eq type ''dgram'' \<and> \<not> c_strcmp_eq type ''stream'' then Some (B6B_ERR, s)
         else
           let dgram = c_strcmp_eq type ''dgram''; k = kof (if dgram then Un_dgram_client else Un_stream_client) in
           (case on_world (os_socketpair OS (if dgram then SOCK_DGRAM else SOCK_STREAM)) s of
              (Inl err, s) \<Rightarrow> b6b_return_strerror OS err s
            | (Inr (fd0, fd1), s) \<Rightarrow> do {
                (a, s) \<leftarrow> b6b_socket_new OS fd0 Sa_unspec None ''un.client'' k s;
                (b, s) \<leftarrow> b6b_socket_new OS fd1 Sa_unspec None ''un.client'' k s;
                (case (a, b) of
                   (Some a, Some b) \<Rightarrow> do {
                     (l, s) \<leftarrow> on_interp (on_heap (b6b_list_build [a, b])) s;
                     I \<leftarrow> upd_heap (b6b_unref b) (io_i s);
                     I \<leftarrow> upd_heap (b6b_unref a) I;
                     on_interp (b6b_return l) (s\<lparr>io_i := I\<rparr>)
                   }
                 | _ \<Rightarrow> None)
              })
       }
     | _ \<Rightarrow> None
   }"

section \<open>Byte order\<close>

definition bswap_16 :: "16 word \<Rightarrow> 16 word" where
  "bswap_16 x = push_bit 8 x OR drop_bit 8 x"

definition bswap_32 :: "32 word \<Rightarrow> 32 word" where
  "bswap_32 x = push_bit 24 x OR push_bit 8 (x AND 0xFF00) OR (drop_bit 8 x AND 0xFF00) OR drop_bit 24 x"

text \<open>On a little-endian machine.\<close>

definition b6b_socket_proc_bswap16 :: "addr \<Rightarrow> interp \<Rightarrow> (b6b_res \<times> interp) option" where
  "b6b_socket_proc_bswap16 args I = do {
     (argc, ps, I) \<leftarrow> b6b_proc_get_args args ''oi'' [False, True] I;
     if argc = 0 then Some (B6B_ERR, I)
     else case ps of
       [Arg n] \<Rightarrow> do {
         i \<leftarrow> int_at n I;
         if sint i < 0 \<or> sint i > 2 ^ 16 - 1 then Some (B6B_ERR, I)
         else b6b_return_int (ucast (bswap_16 (ucast i))) I
       }
     | _ \<Rightarrow> None
   }"

definition b6b_socket_proc_bswap32 :: "addr \<Rightarrow> interp \<Rightarrow> (b6b_res \<times> interp) option" where
  "b6b_socket_proc_bswap32 args I = do {
     (argc, ps, I) \<leftarrow> b6b_proc_get_args args ''oi'' [False, True] I;
     if argc = 0 then Some (B6B_ERR, I)
     else case ps of
       [Arg n] \<Rightarrow> do {
         i \<leftarrow> int_at n I;
         if sint i < 0 \<or> sint i > 2 ^ 32 - 1 then Some (B6B_ERR, I)
         else b6b_return_int (ucast (bswap_32 (ucast i))) I
       }
     | _ \<Rightarrow> None
   }"

section \<open>Tables\<close>

definition sock_ops :: "'w os \<Rightarrow> (sock_tab \<Rightarrow> 'k) \<Rightarrow> sock_tab \<Rightarrow> ('k, 'w) io strm_ops" where
  "sock_ops OS kof t =
     (let base = no_ops\<lparr>op_fd := Some b6b_socket_fd, op_close := Some (b6b_socket_close OS)\<rparr>;
          client = base\<lparr>op_peeksz := Some (b6b_socket_peeksz OS), op_write := Some (b6b_socket_write OS)\<rparr>;
          dserver = base\<lparr>op_peeksz := Some (b6b_socket_peeksz OS), op_read := Some (b6b_socket_readfrom OS)\<rparr> in
      case t of
        Tcp_client \<Rightarrow> client\<lparr>op_read := Some (b6b_socket_read OS), op_peer := Some (b6b_socket_inet_peer OS)\<rparr>
      | Udp_client \<Rightarrow> client\<lparr>op_read := Some (b6b_socket_readfrom OS), op_peer := Some (b6b_socket_inet_peer OS)\<rparr>
      | Un_stream_client \<Rightarrow> client\<lparr>op_read := Some (b6b_socket_read OS), op_peer := Some b6b_socket_file_peer\<rparr>
      | Un_dgram_client \<Rightarrow> client\<lparr>op_read := Some (b6b_socket_readfrom OS), op_peer := Some b6b_socket_file_peer\<rparr>
      | Tcp_server \<Rightarrow> base\<lparr>op_accept := Some (b6b_socket_inet_accept OS kof)\<rparr>
      | Udp_server \<Rightarrow> dserver\<lparr>op_peer := Some (b6b_socket_inet_peer OS)\<rparr>
      | Un_stream_server \<Rightarrow> base\<lparr>op_accept := Some (b6b_socket_un_accept OS kof), op_close := Some (b6b_socket_close_unlink OS)\<rparr>
      | Un_dgram_server \<Rightarrow> dserver\<lparr>op_peer := Some b6b_socket_file_peer, op_close := Some (b6b_socket_close_unlink OS)\<rparr>)"

end
