(* ===== verification/Exts.thy ===== *)
theory Exts
  imports Boot Events Sockets
begin

text \<open>
  What links the components on the operating system to the interpreter: the tables of operations
  of all streams, the tables of procedures, the call of a procedure by its place, and the script
  of the event loop (src/b6b_evloop.c).
\<close>

section \<open>Tables of operations\<close>

datatype tab = T_ro_pipe | T_wo_pipe | T_file file_kind | T_sem | T_timer | T_signal | T_sh_in | T_sh_out
  | T_sock sock_tab

definition vtable :: "'w os \<Rightarrow> (tab, 'w) offload \<Rightarrow> (tab, 'w) vtab" where
  "vtable OS offl t = (case t of
     T_ro_pipe \<Rightarrow> b6b_stdio_ro_pipe_ops OS offl
   | T_wo_pipe \<Rightarrow> b6b_stdio_wo_pipe_ops OS offl
   | T_file RO_file \<Rightarrow> b6b_ro_file_ops OS offl
   | T_file WO_file \<Rightarrow> b6b_wo_file_ops OS offl
   | T_file RW_file \<Rightarrow> b6b_rw_file_ops OS offl
   | T_sem \<Rightarrow> b6b_sem_ops OS
   | T_timer \<Rightarrow> b6b_timer_ops OS
   | T_signal \<Rightarrow> b6b_signal_ops OS
   | T_sh_in \<Rightarrow> b6b_sh_in_ops OS
   | T_sh_out \<Rightarrow> b6b_sh_out_ops OS
   | T_sock st \<Rightarrow> sock_ops OS T_sock st)"

section \<open>Procedures\<close>

datatype io_fn = Io_strm | Io_poll_obj | Io_poll | Io_open | Io_sem | Io_timer | Io_sleep | Io_realpath | Io_signal
  | Io_sh | Io_nslookup | Io_inet_client | Io_un_client | Io_inet_server | Io_un_server | Io_un_pair
  | Io_bswap32 | Io_bswap16

definition io_fns :: "io_fn list" where
  "io_fns = [Io_strm, Io_poll_obj, Io_poll, Io_open, Io_sem, Io_timer, Io_sleep, Io_realpath, Io_signal, Io_sh,
     Io_nslookup, Io_inet_client, Io_un_client, Io_inet_server, Io_un_server, Io_un_pair, Io_bswap32, Io_bswap16]"

text \<open>The place of a procedure; those of streams and poll objects are \<open>STRM_PROC\<close> and \<open>POLL_PROC\<close>.\<close>

definition io_num :: "io_fn \<Rightarrow> nat" where
  "io_num f = length (takeWhile (\<lambda>g. g \<noteq> f) io_fns)"

lemma io_num_strm: "io_num Io_strm = STRM_PROC" "io_num Io_poll_obj = POLL_PROC"
  by (simp_all add: io_num_def io_fns_def STRM_PROC_def POLL_PROC_def)

definition io_call :: "'w os \<Rightarrow> (tab, 'w) offload \<Rightarrow> io_fn \<Rightarrow> addr \<Rightarrow> (tab, 'w) io
    \<Rightarrow> (b6b_res \<times> (tab, 'w) io) option" where
  "io_call OS offl f args = (case f of
     Io_strm \<Rightarrow> b6b_strm_proc (vtable OS offl) args
   | Io_poll_obj \<Rightarrow> b6b_poll_proc OS offl args
   | Io_poll \<Rightarrow> b6b_poll_proc_poll OS args
   | Io_open \<Rightarrow> b6b_file_proc_open OS offl (vtable OS offl) T_file args
   | Io_sem \<Rightarrow> b6b_sem_proc_sem OS T_sem args
   | Io_timer \<Rightarrow> b6b_timer_proc_timer OS T_timer args
   | Io_sleep \<Rightarrow> b6b_time_proc_sleep OS offl args
   | Io_realpath \<Rightarrow> b6b_path_proc_realpath OS args
   | Io_signal \<Rightarrow> b6b_signal_proc_signal OS T_signal args
   | Io_sh \<Rightarrow> b6b_sh_proc_sh OS (vtable OS offl) T_sh_in T_sh_out args
   | Io_nslookup \<Rightarrow> b6b_socket_proc_nslookup OS offl args
   | Io_inet_client \<Rightarrow> b6b_socket_proc_inet_client OS offl T_sock args
   | Io_un_client \<Rightarrow> b6b_socket_proc_un_client OS T_sock args
   | Io_inet_server \<Rightarrow> b6b_socket_proc_inet_server OS offl T_sock args
   | Io_un_server \<Rightarrow> b6b_socket_proc_un_server OS T_sock args
   | Io_un_pair \<Rightarrow> b6b_socket_proc_un_pair OS T_sock args
   | Io_bswap32 \<Rightarrow> on_interp (b6b_socket_proc_bswap32 args)
   | Io_bswap16 \<Rightarrow> on_interp (b6b_socket_proc_bswap16 args))"

definition io_ext :: "string \<Rightarrow> io_fn \<Rightarrow> ext_obj" where
  "io_ext name f = ext_proc name (F_ext (io_num f))"

definition ext_const :: "string \<Rightarrow> int \<Rightarrow> ext_obj" where
  "ext_const name i = (name, Ext_int (word_of_int i), None)"

definition b6b_file_table :: "ext_obj list" where "b6b_file_table = [io_ext ''open'' Io_open]"
definition b6b_sem_table :: "ext_obj list" where "b6b_sem_table = [io_ext ''sem'' Io_sem]"
definition b6b_timer_table :: "ext_obj list" where "b6b_timer_table = [io_ext ''timer'' Io_timer]"
definition b6b_time_table :: "ext_obj list" where "b6b_time_table = [io_ext ''sleep'' Io_sleep]"
definition b6b_path_table :: "ext_obj list" where "b6b_path_table = [io_ext ''realpath'' Io_realpath]"
definition b6b_sh_table :: "ext_obj list" where "b6b_sh_table = [io_ext ''sh'' Io_sh]"

definition b6b_poll_table :: "ext_obj list" where
  "b6b_poll_table = [io_ext ''poll'' Io_poll, ext_const ''POLLIN'' 1, ext_const ''POLLOUT'' 4, ext_const ''POLLINOUT'' 5]"

text \<open>The numbers of the signals are those of Linux on x86.\<close>

definition b6b_signal_table :: "ext_obj list" where
  "b6b_signal_table = map (\<lambda>(n, i). ext_const n i)
     [(''SIGINT'', 2), (''SIGTERM'', 15), (''SIGHUP'', 1), (''SIGALRM'', 14), (''SIGSTOP'', 19), (''SIGCONT'', 18),
      (''SIGIO'', 29), (''SIGUSR1'', 10), (''SIGUSR2'', 12), (''SIGCHLD'', 17)] @ [io_ext ''signal'' Io_signal]"

definition b6b_socket_table :: "ext_obj list" where
  "b6b_socket_table = map (\<lambda>(n, f). io_ext n f)
     [(''nslookup'', Io_nslookup), (''inet.client'', Io_inet_client), (''un.client'', Io_un_client),
      (''inet.server'', Io_inet_server), (''un.server'', Io_un_server), (''un.pair'', Io_un_pair),
      (''htonl'', Io_bswap32), (''ntohl'', Io_bswap32), (''htons'', Io_bswap16), (''ntohs'', Io_bswap16)]"

definition b6b_io_exts :: "ext_obj list" where
  "b6b_io_exts = b6b_file_table @ b6b_sem_table @ b6b_timer_table @ b6b_time_table @ b6b_path_table @ b6b_sh_table
     @ b6b_poll_table @ b6b_signal_table @ b6b_socket_table"

section \<open>The event loop\<close>

text \<open>
  \<^verbatim>\<open>b6b_evloop_init\<close> runs \<open>B6B_EVLOOP_BODY\<close>, one of the init texts of \<open>run_inits\<close>: it defines the
  procedure \<^verbatim>\<open>evloop\<close>, which makes a procedure whose private data is a poll object and four
  dictionaries, of streams and of what to call for input, output and errors.
\<close>

definition B6B_EVLOOP_REMOVE :: string where
  "B6B_EVLOOP_REMOVE =
     ''{$try {'' @
     ''{$local fd [$2 fd]}'' @
     NL @
     ''{[$list.index $. 0] remove $fd}'' @
     NL @
     ''{$map d [$list.range $. 1 5] {'' @
     ''{$dict.unset $d $fd}'' @
     ''}}'' @
     ''} {} {'' @
     ''{$2 close}'' @
     ''}}''"

definition B6B_EVLOOP_ADD :: string where
  "B6B_EVLOOP_ADD =
     ''{$local fd [$2 fd]}'' @
     NL @
     ''{$dict.set [$list.index $. 1] $fd $2}'' @
     NL @
     ''{$dict.set [$list.index $. 2] $fd $3}'' @
     NL @
     ''{$dict.set [$list.index $. 3] $fd $4}'' @
     NL @
     ''{$dict.set [$list.index $. 4] $fd $5}'' @
     NL @
     ''{$if [$&& $3 $4] {'' @
     ''{[$list.index $. 0] add $fd $POLLINOUT}'' @
     ''} {'' @
     ''{$if $3 {'' @
     ''{[$list.index $. 0] add $fd $POLLIN}'' @
     ''} {'' @
     ''{[$list.index $. 0] add $fd $POLLOUT}'' @
     ''}}'' @
     ''}}''"

definition B6B_EVLOOP_UPDATE :: string where
  "B6B_EVLOOP_UPDATE =
     ''{[$list.index $. 0] remove [$2 fd]}'' @
     NL @
     ''{$0 add $2 $3 $4 $5}''"

definition B6B_EVLOOP_AFTER :: string where
  "B6B_EVLOOP_AFTER =
     ''{$0 add [$timer $2] [$proc _ {'' @
     ''{$call $.}'' @
     NL @
     ''{$throw}'' @
     ''} [$list.new [$list.new $3]]] {} {}}''"

definition B6B_EVLOOP_EVERY :: string where
  "B6B_EVLOOP_EVERY =
     ''{$0 add [$timer $2] [$proc _ {'' @
     ''{$1 read}'' @
     NL @
     ''{$call $.}'' @
     ''} [$list.new [$list.new $3]]] {} {}}''"

definition B6B_EVLOOP_WAIT :: string where
  "B6B_EVLOOP_WAIT =
     ''{$loop {'' @
     ''{$map {p strms inps outps errps} $. {'' @
     ''{$local n [$list.len $strms]}'' @
     NL @
     ''{$if [$== $n 0] {'' @
     ''{$return}'' @
     ''}}'' @
     NL @
     ''{$map {rfds wfds efds} [$p wait [$* $n 1.5] $2] {'' @
     ''{$map fd $efds {'' @
     ''{$local strm [$dict.get $strms $fd {}]}'' @
     NL @
     ''{$if $strm {'' @
     ''{$try {'' @
     ''{[$dict.get $errps $fd] $strm}'' @
     ''} {} {'' @
     ''{$0 remove $strm}'' @
     ''}}'' @
     ''}}'' @
     ''}}'' @
     NL @
     ''{$map fd $wfds {'' @
     ''{$local strm [$dict.get $strms $fd {}]}'' @
     NL @
     ''{$if $strm {'' @
     ''{$try {'' @
     ''{[$dict.get $outps $fd] $strm}'' @
     ''} {'' @
     ''{$0 remove $strm}'' @
     ''}}'' @
     ''}}'' @
     ''}}'' @
     NL @
     ''{$map fd $rfds {'' @
     ''{$local strm [$dict.get $strms $fd {}]}'' @
     NL @
     ''{$if $strm {'' @
     ''{$try {'' @
     ''{[$dict.get $inps $fd] $strm}'' @
     ''} {'' @
     ''{$0 remove $strm}'' @
     ''}}'' @
     ''}}'' @
     ''}}'' @
     ''}}'' @
     ''}}'' @
     ''}}''"

definition B6B_EVLOOP_BODY :: string where
  "B6B_EVLOOP_BODY =
     ''{$proc evloop {'' @
     ''{$proc _ {'' @
     ''{$if [$== $1 remove] {'' @
     B6B_EVLOOP_REMOVE @
     ''} {'' @
     ''{$if [$== $1 add] {'' @
     B6B_EVLOOP_ADD @
     ''} {'' @
     ''{$if [$== $1 update] {'' @
     B6B_EVLOOP_UPDATE @
     ''} {'' @
     ''{$if [$== $1 after] {'' @
     B6B_EVLOOP_AFTER @
     ''} {'' @
     ''{$if [$== $1 every] {'' @
     B6B_EVLOOP_EVERY @
     ''} {'' @
     ''{$if [$== $1 wait] {'' @
     B6B_EVLOOP_WAIT @
     ''} {'' @
     ''{$throw {bad evloop op}}'' @
     ''}}'' @
     ''}}'' @
     ''}}'' @
     ''}}'' @
     ''}}'' @
     ''}}'' @
     ''} [$list.new [$poll] {} {} {} {}]}'' @
     ''}}''"

end
