(* ===== verification/Strm_Props.thy ===== *)
theory Strm_Props
  imports Exts Interp_Props Double_Lemmas
begin

text \<open>
  Properties of streams: what reading and writing transfer, for every reader and writer that
  behaves like a file of bytes; what is left after closing; and what the counters of semaphores
  and timers are as text.
\<close>

section \<open>Access\<close>

lemma get_strm_io [simp]:
  "get_strm n (s\<lparr>io_w := w\<rparr>) = get_strm n s" "get_strm n (s\<lparr>io_i := I\<rparr>) = get_strm n s"
  "get_strm n (s\<lparr>io_priv := q\<rparr>) = get_strm n s"
  by (simp_all add: get_strm_def)

lemma set_flags_Some:
  assumes "get_strm n s = Some st"
  shows "set_flags n fl s = Some (s\<lparr>io_strms := (io_strms s)[n := Some (st\<lparr>st_flags := st_flags st OR fl\<rparr>)]\<rparr>)"
    and "get_strm n (s\<lparr>io_strms := (io_strms s)[n := Some st']\<rparr>) = Some st'"
  using assms by (auto simp: set_flags_def get_strm_def split: if_splits)

section \<open>Reading\<close>

text \<open>
  A reader that behaves like a file, while the private data of all streams is \<open>pv\<close>: what is left to
  read is \<open>content\<close> of the world.  Looking
  changes nothing and expects something as long as there is something, at most \<open>P\<close> bytes; a
  read takes some bytes off the front, none only at the end, and reports the end only there.
\<close>

definition byte_source :: "('k, 'w) io strm_ops \<Rightarrow> ptr \<Rightarrow> pdata option list \<Rightarrow> ('w \<Rightarrow> string) \<Rightarrow> int \<Rightarrow> bool" where
  "byte_source ops p pv content P \<longleftrightarrow>
     (\<forall>f s. op_peeksz ops = Some f \<longrightarrow> io_priv s = pv \<longrightarrow> (\<exists>n w. f p s = Some (n, s\<lparr>io_w := w\<rparr>) \<and> 0 \<le> n \<and> n \<le> P
        \<and> (content (io_w s) \<noteq> [] \<longrightarrow> 0 < n) \<and> content w = content (io_w s))) \<and>
     (\<exists>f. op_read ops = Some f \<and> (\<forall>s len. io_priv s = pv \<longrightarrow> 0 < len \<longrightarrow> (\<exists>r w. f p len False True s = Some (r, s\<lparr>io_w := w\<rparr>)
        \<and> rd_n r = int (length (rd_bytes r)) \<and> length (rd_bytes r) \<le> len \<and> content (io_w s) = rd_bytes r @ content w
        \<and> (rd_bytes r = [] \<longrightarrow> content (io_w s) = []) \<and> (rd_eof r \<longrightarrow> content w = []) \<and> rd_again r)))"

lemma byte_source_peek:
  assumes "byte_source (T (st_ops st)) (st_priv st) (io_priv s) content P" and "get_strm n s = Some st" and "B6B_STRM_BUFSIZ \<le> P"
  obtains e w where "b6b_strm_peeksz T n s = Some (Some e, s\<lparr>io_w := w\<rparr>)" and "0 \<le> e" and "e \<le> P"
    and "content (io_w s) \<noteq> [] \<longrightarrow> 0 < e" and "content w = content (io_w s)"
proof (cases "op_peeksz (T (st_ops st))")
  case None
  then have "b6b_strm_peeksz T n s = Some (Some B6B_STRM_BUFSIZ, s\<lparr>io_w := io_w s\<rparr>)"
    using assms(2) by (simp add: b6b_strm_peeksz_def)
  then show thesis by (rule that) (use assms(3) in \<open>simp_all add: B6B_STRM_BUFSIZ_def\<close>)
next
  case (Some f)
  then obtain e w where e: "f (st_priv st) s = Some (e, s\<lparr>io_w := w\<rparr>)" "0 \<le> e" "e \<le> P"
    "content (io_w s) \<noteq> [] \<longrightarrow> 0 < e" "content w = content (io_w s)"
    using assms(1) unfolding byte_source_def by blast
  then have "b6b_strm_peeksz T n s = Some (Some e, s\<lparr>io_w := w\<rparr>)"
    using assms(2) Some by (simp add: b6b_strm_peeksz_def)
  then show thesis by (rule that) (use e in simp_all)
qed

lemma byte_source_read:
  assumes "byte_source ops p (io_priv s) content P" and "0 < len"
  obtains f bs eof w where "op_read ops = Some f"
    and "f p len False True s = Some (\<lparr>rd_n = int (length bs), rd_bytes = bs, rd_eof = eof, rd_again = True\<rparr>, s\<lparr>io_w := w\<rparr>)"
    and "length bs \<le> len" and "content (io_w s) = bs @ content w" and "bs = [] \<longrightarrow> content (io_w s) = []"
    and "eof \<longrightarrow> content w = []"
proof -
  from assms obtain f r w where f: "op_read ops = Some f" "f p len False True s = Some (r, s\<lparr>io_w := w\<rparr>)"
    "rd_n r = int (length (rd_bytes r))" "length (rd_bytes r) \<le> len" "content (io_w s) = rd_bytes r @ content w"
    "rd_bytes r = [] \<longrightarrow> content (io_w s) = []" "rd_eof r \<longrightarrow> content w = []" "rd_again r"
    unfolding byte_source_def by blast
  have "r = \<lparr>rd_n = int (length (rd_bytes r)), rd_bytes = rd_bytes r, rd_eof = rd_eof r, rd_again = True\<rparr>"
    using f(3,8) by (cases r) simp
  with f show thesis using that [of f "rd_bytes r" "rd_eof r" w] by simp
qed

text \<open>The loop reads everything up to what is wanted, within its buffer.\<close>

lemma read_loop_bytes:
  assumes src: "byte_source (T k) p pv content P" and P: "B6B_STRM_BUFSIZ \<le> P"
  shows "\<lbrakk>io_priv s = pv; get_strm n s = Some st; st_ops st = k; st_priv st = p; 0 \<le> est; est \<le> P; content (io_w s) \<noteq> [] \<longrightarrow> 0 < est;
     0 < want; int (length buf) < len; len + P * (int (length (content (io_w s))) + 1) \<le> SSIZE_MAX\<rbrakk> \<Longrightarrow>
   \<exists>s'. read_loop T n est want len buf s = Some (Some (buf @ take (nat want) (content (io_w s))), s')
     \<and> content (io_w s') = drop (nat want) (content (io_w s)) \<and> io_i s' = io_i s"
proof (induction "length (content (io_w s))" arbitrary: s est want len buf rule: less_induct)
  case less
  define e where "e = min est want"
  have P1: "1 \<le> P" using P by (simp add: B6B_STRM_BUFSIZ_def)
  have size: "len + e \<le> SSIZE_MAX"
  proof -
    have "e \<le> P * 1" using less.prems(6) by (simp add: e_def)
    also have "\<dots> \<le> P * (int (length (content (io_w s))) + 1)" using P1 by (intro mult_left_mono) auto
    finally show ?thesis using less.prems(10) by simp
  qed
  show ?case
  proof (cases "e = 0")
    case True
    then have "content (io_w s) = []" using less.prems(5,7,8) by (auto simp: e_def min_def split: if_splits)
    then show ?thesis using True size by (simp add: read_loop.simps e_def)
  next
    case False
    then have e0: "0 < e" using less.prems(5,8) by (simp add: e_def)
    then have ne: "0 < nat e" by simp
    obtain f bs eof w where f: "op_read (T k) = Some f"
      "f p (nat e) False True s = Some (\<lparr>rd_n = int (length bs), rd_bytes = bs, rd_eof = eof, rd_again = True\<rparr>, s\<lparr>io_w := w\<rparr>)"
      "length bs \<le> nat e" "content (io_w s) = bs @ content w" "bs = [] \<longrightarrow> content (io_w s) = []"
      "eof \<longrightarrow> content w = []" by (rule byte_source_read [OF src [folded less.prems(1)] ne])
    have bs: "int (length bs) \<le> want" "length bs \<le> nat want" using f(3) e0 by (auto simp: e_def)
    let ?r = "\<lparr>rd_n = int (length bs), rd_bytes = bs, rd_eof = eof, rd_again = True\<rparr>"
    have run: "read_loop T n est want len buf s =
      (if eof then do {
         s \<leftarrow> set_flags n B6B_STRM_EOF (s\<lparr>io_w := w\<rparr>);
         Some (Some (buf @ bs), s)
       }
       else if bs = [] then Some (Some (buf @ bs), s\<lparr>io_w := w\<rparr>)
       else if want - int (length bs) = 0 then Some (Some (buf @ bs), s\<lparr>io_w := w\<rparr>)
       else do {
         (e', s) \<leftarrow> b6b_strm_peeksz T n (s\<lparr>io_w := w\<rparr>);
         case e' of
           None \<Rightarrow> Some (None, s)
         | Some est \<Rightarrow>
             if est = 0 then Some (Some (buf @ bs), s)
             else read_loop T n est (want - int (length bs)) (len + e) (buf @ bs) s
       })"
      using size False e0 f(1-3) less.prems(1-4,9)
      by (subst read_loop.simps) (simp add: e_def [symmetric] Let_def cong: option.case_cong if_cong)
    show ?thesis
    proof (cases "eof \<or> bs = [] \<or> want = int (length bs)")
      case True
      have all: "take (nat want) (content (io_w s)) = bs" "drop (nat want) (content (io_w s)) = content w"
        using True f(4-6) bs by auto
      show ?thesis unfolding all
        using True run set_flags_Some(1) [of n "s\<lparr>io_w := w\<rparr>" st] less.prems(2)
        by (cases eof) (auto simp: all)
    next
      case False
      have len: "length (content w) < length (content (io_w s))" using f(4) False by simp
      have want: "0 < want - int (length bs)" using bs(1) False by simp
      from byte_source_peek [of T st "s\<lparr>io_w := w\<rparr>" content P n] src P less.prems(1-4) obtain e' w' where
        e': "b6b_strm_peeksz T n (s\<lparr>io_w := w\<rparr>) = Some (Some e', s\<lparr>io_w := w'\<rparr>)" "0 \<le> e'" "e' \<le> P"
          "content w \<noteq> [] \<longrightarrow> 0 < e'" "content w' = content w" by auto
      have all: "take (nat want) (content (io_w s)) = bs @ take (nat (want - int (length bs))) (content w)"
        "drop (nat want) (content (io_w s)) = drop (nat (want - int (length bs))) (content w)"
        using f(4) bs by (simp_all add: nat_diff_distrib)
      show ?thesis
      proof (cases "e' = 0")
        case True
        then have "content w = []" using e'(4) by auto
        with True run False e' all show ?thesis by simp
      next
        case nz: False
        have buf: "int (length (buf @ bs)) < len + e" using less.prems(9) f(3) e0 by simp
        have "P * (int (length (content w)) + 1) + P \<le> P * (int (length (content (io_w s))) + 1)"
        proof -
          have "P * (int (length (content w)) + 1) + P = P * (int (length (content w)) + 2)" by (simp add: algebra_simps)
          also have "\<dots> \<le> P * (int (length (content (io_w s))) + 1)" using len P1 by (intro mult_left_mono) auto
          finally show ?thesis .
        qed
        moreover have "e \<le> P" using less.prems(6) by (simp add: e_def)
        ultimately have "len + e + P * (int (length (content w)) + 1) \<le> SSIZE_MAX" using less.prems(10) by simp
        with less.hyps [of "s\<lparr>io_w := w'\<rparr>" e' "want - int (length bs)" "buf @ bs" "len + e"] len e' less.prems(1-4) want buf
        obtain s' where "read_loop T n e' (want - int (length bs)) (len + e) (buf @ bs) (s\<lparr>io_w := w'\<rparr>)
            = Some (Some ((buf @ bs) @ take (nat (want - int (length bs))) (content w)), s')"
          "content (io_w s') = drop (nat (want - int (length bs))) (content w)" "io_i s' = io_i s"
          by (auto simp: e'(5))
        with run False nz e' all want show ?thesis by auto
      qed
    qed
  qed
qed

text \<open>
  C24. Reading from a stream that is open gives the first \<open>want\<close> bytes of what is left, or all of it
  when there is less, as the return value, leaves the rest, and never goes past its buffer, however
  many pieces the reader gives them in.
\<close>

theorem strm_read_ok:
  assumes st: "get_strm n s = Some st" "st_flags st = 0"
    and src: "byte_source (T (st_ops st)) (st_priv st) (io_priv s) content P" "B6B_STRM_BUFSIZ \<le> P"
    and want: "0 < want" and size: "1 + P * (int (length (content (io_w s))) + 1) \<le> SSIZE_MAX"
    and rc: "rc_ok (add_mset (t_ret (fg (io_i s))) R) (hp (io_i s))"
  shows "\<exists>s'. b6b_strm_read T n want s = Some (B6B_OK, s')
    \<and> str_at (t_ret (fg (io_i s'))) (io_i s') = Some (take (nat want) (content (io_w s)))
    \<and> content (io_w s') = drop (nat want) (content (io_w s))"
proof -
  obtain e w where e: "b6b_strm_peeksz T n s = Some (Some e, s\<lparr>io_w := w\<rparr>)" "0 \<le> e" "e \<le> P"
    "content (io_w s) \<noteq> [] \<longrightarrow> 0 < e" "content w = content (io_w s)"
    by (rule byte_source_peek [of T st s content P n, OF src(1) st(1) src(2)])
  from read_loop_bytes [of T "st_ops st" "st_priv st" "io_priv s" content P "s\<lparr>io_w := w\<rparr>" n st e want "[]" 1, OF src] st e want size
  obtain s1 where s1: "read_loop T n e want 1 [] (s\<lparr>io_w := w\<rparr>) = Some (Some (take (nat want) (content (io_w s))), s1)"
    "content (io_w s1) = drop (nat want) (content (io_w s))" "io_i s1 = io_i s" by auto
  from src(1) have "op_read (T (st_ops st)) \<noteq> None" unfolding byte_source_def by auto
  with st e(1) s1(1) have run: "b6b_strm_read T n want s = on_interp (b6b_return_str (take (nat want) (content (io_w s)))) s1"
    by (simp add: b6b_strm_read_def strm_flag_def del: not_None_eq)
  obtain a h where a: "b6b_return_str (take (nat want) (content (io_w s))) (io_i s) = Some (B6B_OK, set_ret a ((io_i s)\<lparr>hp := h\<rparr>))"
    "hget a h = Some (new_obj\<lparr>ob_s := Some (take (nat want) (content (io_w s)))\<rparr>)"
    by (rule return_str_runs [OF rc])
  show ?thesis using a s1(2,3) by (simp add: run on_interp_def str_at_def obj_at_def set_ret_def)
qed

section \<open>A world for the examples\<close>

text \<open>A descriptor with bytes to read, whatever its number; writing appends.\<close>

definition pipe_os :: "string os" where
  "pipe_os = \<lparr>os_strerror = \<lambda>_. ''error'', os_fionread = \<lambda>_ w. (Inr (min B6B_STRM_BUFSIZ (int (length w))), w),
     os_read = \<lambda>_ n w. (Inr (take n w), drop n w), os_recv = \<lambda>_ n w. (Inr (take n w), drop n w),
     os_recvfrom = \<lambda>_ n w. (Inr (take n w, Sa_unspec), drop n w),
     os_write = \<lambda>_ b w. (Inr (int (length b)), w @ b), os_send = \<lambda>_ b w. (Inr (int (length b)), w @ b),
     os_close = \<lambda>_ w. w, os_unlink = \<lambda>_ w. w, os_cloexec = \<lambda>_ w. (None, w), os_nonblock = \<lambda>_ w. (None, w),
     os_pipe2 = \<lambda>w. (Inr (3, 4), w), os_sh_fork = \<lambda>_ _ w. (5, w), os_waitpid = \<lambda>_ w. w,
     os_realpath = \<lambda>p w. (Inr p, w), os_eventfd = \<lambda>_ w. (Inr 3, w), os_timerfd_create = \<lambda>w. (Inr 3, w),
     os_timerfd_settime = \<lambda>_ _ _ w. (None, w), os_nanosleep = \<lambda>_ w. (None, w), os_epoll_create1 = \<lambda>w. (Inr 3, w),
     os_epoll_ctl = \<lambda>_ _ _ w. (None, w), os_epoll_wait = \<lambda>_ _ _ w. (Inr [], w), os_sigaddset = \<lambda>_. True,
     os_sigblock = \<lambda>_ w. (None, w), os_sigunblock = \<lambda>_ w. w, os_signalfd = \<lambda>_ w. (Inr 3, w), os_siginfo_signo = \<lambda>_. 0,
     os_fopen = \<lambda>_ _ w. (Inr 1, w), os_fileno = \<lambda>_ _. 3, os_ftello = \<lambda>_ _. 0, os_fseeko = \<lambda>_ _ _ w. (None, w),
     os_fread = \<lambda>_ n w. ((0, take n w), drop n w), os_fwrite = \<lambda>_ b w. ((0, length b), w @ b), os_ferror = \<lambda>_ _. False,
     os_feof = \<lambda>_ w. w = [], os_clearerr = \<lambda>_ w. w, os_setvbuf = \<lambda>_ _ w. (True, w), os_fclose = \<lambda>_ w. w,
     os_inet_ntop = \<lambda>_ _. None, os_getaddrinfo = \<lambda>_ _ _ _ w. (Inl 1, w), os_gai_strerror = \<lambda>_. None,
     os_socket = \<lambda>_ _ _ w. (Inr 3, w), os_connect = \<lambda>_ _ w. (None, w), os_getsockname = \<lambda>_ w. (Inr Sa_unspec, w),
     os_reuseaddr = \<lambda>_ w. (None, w), os_bind = \<lambda>_ _ w. (None, w), os_listen = \<lambda>_ _ w. (None, w),
     os_accept4 = \<lambda>_ w. (Inl EAGAIN, w), os_socketpair = \<lambda>_ w. (Inr (3, 4), w)\<rparr>"

lemma pipe_os_simps [simp]:
  "os_read (pipe_os\<lparr>os_fionread := g\<rparr>) fd n w = (Inr (take n w), drop n w)"
  "os_read pipe_os fd n w = (Inr (take n w), drop n w)" "os_write pipe_os fd b w = (Inr (int (length b)), w @ b)"
  "os_fionread pipe_os fd w = (Inr (min B6B_STRM_BUFSIZ (int (length w))), w)" "os_close pipe_os fd w = w"
  by (simp_all add: pipe_os_def)

text \<open>An interpreter as it starts, with one stream over such a descriptor.\<close>

definition one_strm :: "interp \<Rightarrow> tab \<Rightarrow> u8 \<Rightarrow> string \<Rightarrow> (tab, string) io" where
  "one_strm I t fl w = \<lparr>io_i = I, io_w = w, io_strms = [Some \<lparr>st_ops = t, st_priv = 0, st_flags = fl\<rparr>],
     io_priv = [Some (P_sh \<lparr>sh_pid = i_one I, sh_fd = 3\<rparr>)]\<rparr>"

lemma sh_out_source:
  "byte_source (vtable pipe_os offload_direct T_sh_out) 0 (io_priv (one_strm I t fl w)) id B6B_STRM_BUFSIZ"
proof -
  have "get_sh 0 s = Some \<lparr>sh_pid = i_one I, sh_fd = 3\<rparr>" if "io_priv s = io_priv (one_strm I t fl w)" for s :: "(tab, string) io"
    using that by (simp add: get_sh_def get_priv_def one_strm_def)
  then show ?thesis
    by (auto simp: byte_source_def vtable_def b6b_sh_out_ops_def no_ops_def b6b_sh_peeksz_def b6b_sh_read_def b6b_fd_peeksz_def
        b6b_fd_read_def b6b_fd_on_read_def on_world_def B6B_STRM_BUFSIZ_def)
qed

lemma strm_read_ok_witness:
  "\<exists>I s'. demo_start = Some (True, I)
    \<and> b6b_strm_read (vtable pipe_os offload_direct) 0 3 (one_strm I T_sh_out 0 ''hello'') = Some (B6B_OK, s')
    \<and> str_at (t_ret (fg (io_i s'))) (io_i s') = Some ''hel'' \<and> io_w s' = ''lo''"
proof -
  obtain I args f where I: "demo_start = Some (True, I)" "st_ok ctx0 {#args#} {} (0, [f], None, 1) I" by (rule demo_started)
  from hinv_rc [OF st_ok_ret_hinv [OF I(2)]] obtain R where rc: "rc_ok (add_mset (t_ret (fg I)) R) (hp I)" by blast
  let ?s = "one_strm I T_sh_out 0 ''hello''"
  have st: "get_strm 0 ?s = Some \<lparr>st_ops = T_sh_out, st_priv = 0, st_flags = 0\<rparr>" "io_i ?s = I" "io_w ?s = ''hello''"
    by (simp_all add: get_strm_def one_strm_def)
  from strm_read_ok [OF st(1), of "vtable pipe_os offload_direct" id B6B_STRM_BUFSIZ 3 R] sh_out_source rc I(1)
  show ?thesis by (auto simp: st(2,3) B6B_STRM_BUFSIZ_def SSIZE_MAX_def numeral_eq_Suc)
qed

section \<open>Writing\<close>

text \<open>
  A writer that behaves like a pipe: what has arrived is \<open>content\<close> of the world; each call takes
  some bytes off the front of what it is given, and may take none.
\<close>

definition byte_sink :: "('k, 'w) io strm_ops \<Rightarrow> ptr \<Rightarrow> pdata option list \<Rightarrow> ('w \<Rightarrow> string) \<Rightarrow> bool" where
  "byte_sink ops p pv content \<longleftrightarrow>
     (\<exists>f. op_write ops = Some f \<and> (\<forall>s buf. io_priv s = pv \<longrightarrow> (\<exists>k w. f p buf s = Some (int k, s\<lparr>io_w := w\<rparr>)
        \<and> k \<le> length buf \<and> content w = content (io_w s) @ take k buf)))"

lemma write_loop_bytes:
  assumes sink: "byte_sink (T k) p pv content"
  shows "\<lbrakk>io_priv s = pv; get_strm n s = Some st; st_ops st = k; st_priv st = p; out + int (length buf) \<le> SSIZE_MAX\<rbrakk> \<Longrightarrow>
   \<exists>j w. write_loop T n buf out s = Some (Some (out + int j), s\<lparr>io_w := w\<rparr>) \<and> j \<le> length buf
     \<and> content w = content (io_w s) @ take j buf"
proof (induction "length buf" arbitrary: s out buf rule: less_induct)
  case less
  from sink less.prems(1) obtain f m w where f: "op_write (T k) = Some f" "f p buf s = Some (int m, s\<lparr>io_w := w\<rparr>)"
    "m \<le> length buf" "content w = content (io_w s) @ take m buf" unfolding byte_sink_def by blast
  show ?case
  proof (cases "buf = [] \<or> m = 0")
    case True
    have "content (io_w s) = content (io_w s) @ take 0 buf" by simp
    show ?thesis
    proof (cases "buf = []")
      case True
      then have "write_loop T n buf out s = Some (Some (out + int 0), s\<lparr>io_w := io_w s\<rparr>)"
        by (simp add: write_loop.simps)
      then show ?thesis by (intro exI [of _ 0] exI [of _ "io_w s"]) simp
    next
      case False
      with True have "write_loop T n buf out s = Some (Some (out + int 0), s\<lparr>io_w := w\<rparr>)"
        using f less.prems(2-4) by (subst write_loop.simps) simp
      moreover have "content w = content (io_w s) @ take 0 buf" using f(4) True False by simp
      ultimately show ?thesis by (intro exI [of _ 0] exI [of _ w]) simp
    qed
  next
    case False
    have step: "write_loop T n buf out s = write_loop T n (drop m buf) (out + int m) (s\<lparr>io_w := w\<rparr>)"
      using f False less.prems by (subst write_loop.simps) simp
    have "length (drop m buf) < length buf" using False f(3) by auto
    note IH = less.hyps [OF this, of "s\<lparr>io_w := w\<rparr>" "out + int m"]
    have p: "io_priv (s\<lparr>io_w := w\<rparr>) = pv" "get_strm n (s\<lparr>io_w := w\<rparr>) = Some st"
      "out + int m + int (length (drop m buf)) \<le> SSIZE_MAX" using less.prems(1,2,5) f(3) by simp_all
    from IH [OF p(1,2) less.prems(3,4) p(3)] obtain j w' where
      j: "write_loop T n (drop m buf) (out + int m) (s\<lparr>io_w := w\<rparr>) = Some (Some (out + int m + int j), s\<lparr>io_w := w'\<rparr>)"
        "j \<le> length (drop m buf)" "content w' = content w @ take j (drop m buf)" by (auto simp del: length_drop take_drop)
    have "write_loop T n buf out s = Some (Some (out + int (m + j)), s\<lparr>io_w := w'\<rparr>)"
      using step j(1) by simp
    moreover have "m + j \<le> length buf" using j(2) f(3) by simp
    moreover have "content w' = content (io_w s) @ take (m + j) buf" using j(3) f(4) by (simp add: take_add)
    ultimately show ?thesis by blast
  qed
qed

text \<open>
  C25. Writing to a stream that is open returns how many bytes have been taken, and exactly these,
  the first ones, have arrived: all of them unless the writer refuses the rest.
\<close>

theorem strm_write_ok:
  assumes st: "get_strm n s = Some st" "\<not> strm_flag B6B_STRM_CLOSED st"
    and sink: "byte_sink (T (st_ops st)) (st_priv st) (io_priv s) content" and size: "int (length buf) \<le> SSIZE_MAX"
    and rc: "rc_ok (add_mset (t_ret (fg (io_i s))) R) (hp (io_i s))"
  shows "\<exists>k s'. b6b_strm_write T n buf s = Some (B6B_OK, s') \<and> k \<le> length buf
    \<and> int_at (t_ret (fg (io_i s'))) (io_i s') = Some (word_of_int (int k))
    \<and> content (io_w s') = content (io_w s) @ take k buf"
proof -
  from write_loop_bytes [of T "st_ops st" "st_priv st" "io_priv s" content s n st 0 buf] sink st(1) size obtain k w where
    k: "write_loop T n buf 0 s = Some (Some (int k), s\<lparr>io_w := w\<rparr>)" "k \<le> length buf" "content w = content (io_w s) @ take k buf"
    by auto
  obtain a h where a: "b6b_return_int (word_of_int (int k)) (io_i s) = Some (B6B_OK, set_ret a ((io_i s)\<lparr>hp := h\<rparr>))"
    "hget a h = Some (new_obj\<lparr>ob_i := Some (word_of_int (int k))\<rparr>)" by (rule return_int_runs [OF rc])
  from sink have "op_write (T (st_ops st)) \<noteq> None" unfolding byte_sink_def by auto
  with st k(1) have "b6b_strm_write T n buf s = on_interp (b6b_return_int (word_of_int (int k))) (s\<lparr>io_w := w\<rparr>)"
    by (simp add: b6b_strm_write_def del: not_None_eq)
  with a k(2,3) show ?thesis by (auto simp: on_interp_def int_at_def obj_at_def set_ret_def)
qed

lemma strm_write_ok_witness:
  "\<exists>I s'. demo_start = Some (True, I)
    \<and> b6b_strm_write (vtable pipe_os offload_direct) 0 ''ab'' (one_strm I T_sh_in 0 ''x'') = Some (B6B_OK, s')
    \<and> io_w s' = ''xab''"
proof -
  obtain I args f where I: "demo_start = Some (True, I)" "st_ok ctx0 {#args#} {} (0, [f], None, 1) I" by (rule demo_started)
  from hinv_rc [OF st_ok_ret_hinv [OF I(2)]] obtain R where rc: "rc_ok (add_mset (t_ret (fg I)) R) (hp I)" by blast
  let ?s = "one_strm I T_sh_in 0 ''x''"
  have st: "get_strm 0 ?s = Some \<lparr>st_ops = T_sh_in, st_priv = 0, st_flags = 0\<rparr>" "io_i ?s = I" "io_w ?s = ''x''"
    by (simp_all add: get_strm_def one_strm_def)
  have w: "b6b_sh_write pipe_os 0 b s = Some (int (length b), s\<lparr>io_w := io_w s @ b\<rparr>)"
    if "io_priv s = io_priv ?s" for b and s :: "(tab, string) io"
    using that by (simp add: b6b_sh_write_def get_sh_def get_priv_def one_strm_def b6b_fd_write_def b6b_fd_on_write_def
        on_world_def)
  have sink: "byte_sink (vtable pipe_os offload_direct T_sh_in) 0 (io_priv ?s) id"
    using w by (auto simp: byte_sink_def vtable_def b6b_sh_in_ops_def no_ops_def intro!: exI)
  have "\<not> strm_flag B6B_STRM_CLOSED (\<lparr>st_ops = T_sh_in, st_priv = 0, st_flags = 0\<rparr> :: tab strm)" by (simp add: strm_flag_def)
  from strm_write_ok [OF st(1) this, of "vtable pipe_os offload_direct" id "''ab''" R] sink rc obtain s' where
    run: "b6b_strm_write (vtable pipe_os offload_direct) 0 ''ab'' ?s = Some (B6B_OK, s')"
    by (auto simp: st(2,3) SSIZE_MAX_def)
  have "write_loop (vtable pipe_os offload_direct) 0 ''ab'' 0 ?s = Some (Some 2, ?s\<lparr>io_w := ''xab''\<rparr>)"
    using w [of ?s "''ab''"] st(1)
    by (simp add: write_loop.simps vtable_def b6b_sh_in_ops_def no_ops_def SSIZE_MAX_def st(3))
  with run have "io_w s' = ''xab''"
    using st by (auto simp: b6b_strm_write_def strm_flag_def on_interp_def bind_Some vtable_def b6b_sh_in_ops_def no_ops_def
        split: option.splits if_splits)
  with run I(1) show ?thesis by blast
qed

section \<open>Closing\<close>

text \<open>
  C26. Closing an open stream runs its close operation once; after it, closing again changes nothing,
  reading gives the end of the file, and writing, accepting and asking for the descriptor fail,
  without a call of any operation.  Asking for the peer is not among these: it does not look at the flags, and calls
  its operation on what closing has freed (\<open>peer_after_close\<close>).
\<close>

theorem strm_close_once:
  assumes st: "get_strm n s = Some st" "st_flags st = 0"
    and op: "op_close (T (st_ops st)) = Some f" "f (st_priv st) s = Some s1" "get_strm n s1 = Some st"
  shows "\<exists>s2. b6b_strm_close T n s = Some s2 \<and> io_w s2 = io_w s1 \<and> io_i s2 = io_i s1 \<and> io_priv s2 = io_priv s1
    \<and> b6b_strm_close T n s2 = Some s2 \<and> b6b_strm_read T n want s2 = Some (B6B_OK, s2)
    \<and> b6b_strm_write T n buf s2 = Some (B6B_ERR, s2) \<and> b6b_strm_accept T n s2 = Some (B6B_ERR, s2)
    \<and> b6b_strm_fd T n a s2 = Some (B6B_ERR, s2)"
proof -
  let ?st = "st\<lparr>st_flags := 3\<rparr>"
  let ?s2 = "s1\<lparr>io_strms := (io_strms s1)[n := Some ?st]\<rparr>"
  have run: "b6b_strm_close T n s = Some ?s2"
    using st op set_flags_Some(1) [OF op(3)]
    by (simp add: b6b_strm_close_def strm_flag_def B6B_STRM_EOF_def B6B_STRM_CLOSED_def)
  have get: "get_strm n ?s2 = Some ?st" by (rule set_flags_Some(2) [OF op(3)])
  have fl: "strm_flag B6B_STRM_EOF ?st" "strm_flag B6B_STRM_CLOSED ?st"
    by (simp_all add: strm_flag_def B6B_STRM_EOF_def B6B_STRM_CLOSED_def)
  have "b6b_strm_close T n ?s2 = Some ?s2" "b6b_strm_read T n want ?s2 = Some (B6B_OK, ?s2)"
    "b6b_strm_write T n buf ?s2 = Some (B6B_ERR, ?s2)" "b6b_strm_accept T n ?s2 = Some (B6B_ERR, ?s2)"
    "b6b_strm_fd T n a ?s2 = Some (B6B_ERR, ?s2)"
    using get fl by (simp_all add: b6b_strm_close_def b6b_strm_read_def b6b_strm_write_def b6b_strm_accept_def b6b_strm_fd_def
        split: option.split)
  with run show ?thesis by simp
qed

lemma strm_close_once_witness:
  "\<exists>I s2. demo_start = Some (True, I) \<and> b6b_strm_close (vtable pipe_os offload_direct) 0
      ((one_strm I T_ro_pipe 0 ''x'')\<lparr>io_priv := [Some (P_stdio \<lparr>fs_fp = 1, fs_buf = False, fs_fd = 0\<rparr>)]\<rparr>) = Some s2
    \<and> b6b_strm_write (vtable pipe_os offload_direct) 0 ''ab'' s2 = Some (B6B_ERR, s2) \<and> io_priv s2 = [None]"
proof -
  obtain I args f where I: "demo_start = Some (True, I)" "st_ok ctx0 {#args#} {} (0, [f], None, 1) I" by (rule demo_started)
  let ?s = "(one_strm I T_ro_pipe 0 ''x'')\<lparr>io_priv := [Some (P_stdio \<lparr>fs_fp = 1, fs_buf = False, fs_fd = 0\<rparr>)]\<rparr>"
    and ?st = "\<lparr>st_ops = T_ro_pipe, st_priv = 0, st_flags = 0\<rparr>"
  have "get_strm 0 ?s = Some ?st" "op_close (vtable pipe_os offload_direct (st_ops ?st)) = Some stdio_free"
    "stdio_free (st_priv ?st) ?s = Some (?s\<lparr>io_priv := [None]\<rparr>)" "get_strm 0 (?s\<lparr>io_priv := [None]\<rparr>) = Some ?st"
    by (simp_all add: get_strm_def one_strm_def vtable_def b6b_stdio_ro_pipe_ops_def no_ops_def stdio_free_def free_priv_def
        get_priv_def get_stdio_def)
  from strm_close_once [of 0 ?s ?st "vtable pipe_os offload_direct" stdio_free "?s\<lparr>io_priv := [None]\<rparr>" 1 "''ab''" 0] this I(1)
  show ?thesis by auto
qed

text \<open>
  C36. Asking for the peer is not guarded like the other operations: on a socket that was closed it
  follows the pointer to the structure that closing has freed.
\<close>

theorem peer_after_close:
  assumes st: "get_strm n s = Some st" "st_flags st = 0" "st_ops st = T_sock t"
    and t: "t \<in> {Tcp_client, Udp_client, Un_stream_client, Un_dgram_client, Udp_server}"
    and so: "get_socket (st_priv st) s = Some so"
  shows "\<exists>s'. b6b_strm_close (vtable OS offl) n s = Some s' \<and> b6b_strm_peer (vtable OS offl) n s' = None"
proof -
  let ?s1 = "(upd_world (os_close OS (so_fd so)) s)\<lparr>io_priv := (io_priv s)[unat (st_priv st) := None]\<rparr>"
  have close: "b6b_socket_close OS (st_priv st) s = Some ?s1"
    using so by (auto simp: b6b_socket_close_def get_socket_def free_priv_def get_priv_def upd_world_def split: option.splits pdata.splits if_splits)
  have op: "op_close (vtable OS offl (st_ops st)) = Some (b6b_socket_close OS)"
    using st(3) t by (auto simp: vtable_def sock_ops_def no_ops_def)
  have get: "get_strm n ?s1 = Some st" using st(1) by (simp add: upd_world_def)
  let ?s2 = "?s1\<lparr>io_strms := (io_strms ?s1)[n := Some (st\<lparr>st_flags := 3\<rparr>)]\<rparr>"
  have run: "b6b_strm_close (vtable OS offl) n s = Some ?s2"
    using st(1,2) op close set_flags_Some(1) [OF get]
    by (simp add: b6b_strm_close_def strm_flag_def B6B_STRM_EOF_def B6B_STRM_CLOSED_def)
  have gone: "get_socket (st_priv st) ?s2 = None" by (simp add: get_socket_def get_priv_def)
  have "b6b_strm_peer (vtable OS offl) n ?s2 = None"
    using set_flags_Some(2) [OF get] gone st(3) t
    by (auto simp: b6b_strm_peer_def vtable_def sock_ops_def no_ops_def b6b_socket_inet_peer_def b6b_socket_file_peer_def)
  with run show ?thesis by blast
qed

lemma peer_after_close_witness:
  "\<exists>I s'. demo_start = Some (True, I) \<and> b6b_strm_close (vtable pipe_os offload_direct) 0
      ((one_strm I (T_sock Tcp_client) 0 [])\<lparr>io_priv := [Some (P_socket \<lparr>so_peer = Sa_unspec, so_addr = Sa_unspec, so_fd = 3\<rparr>)]\<rparr>) = Some s'
    \<and> b6b_strm_peer (vtable pipe_os offload_direct) 0 s' = None"
proof -
  obtain I args f where I: "demo_start = Some (True, I)" "st_ok ctx0 {#args#} {} (0, [f], None, 1) I" by (rule demo_started)
  let ?so = "\<lparr>so_peer = Sa_unspec, so_addr = Sa_unspec, so_fd = 3\<rparr>"
  let ?s = "(one_strm I (T_sock Tcp_client) 0 [])\<lparr>io_priv := [Some (P_socket ?so)]\<rparr>"
  have "get_strm 0 ?s = Some \<lparr>st_ops = T_sock Tcp_client, st_priv = 0, st_flags = 0\<rparr>" "get_socket 0 ?s = Some ?so"
    by (simp_all add: get_strm_def get_socket_def get_priv_def one_strm_def)
  from peer_after_close [OF this(1), of Tcp_client ?so pipe_os offload_direct] this I(1) show ?thesis by auto
qed

section \<open>Counters as text\<close>

lemma le_value_bytes: "0 \<le> u \<Longrightarrow> u < 256 ^ k \<Longrightarrow> le_value (le_bytes k u) = u"
proof (induction k arbitrary: u)
  case (Suc k)
  then have "u div 256 < 256 ^ k" by auto
  with Suc show ?case by (auto simp: mod_mult_div_eq)
qed simp

lemma length_le_u64_bytes [simp]: "length (le_bytes k u) = k"
  by (induction k arbitrary: u) auto

lemma dec_head: "0 < n \<Longrightarrow> \<exists>c cs. dec n = c # cs \<and> is_digit c \<and> c \<noteq> CHR ''0''"
proof (induction n rule: dec.induct)
  case (1 n)
  show ?case
  proof (cases "n < 10")
    case True
    then have "dec n = [digit_char n]" by (subst dec.simps) simp
    moreover have "digit_char n \<noteq> CHR ''0''"
      using True "1.prems" by (simp add: digit_char_def char_of_eq_iff take_bit_eq_mod)
    moreover have "is_digit (digit_char n)" using True "1.prems" by (intro is_digit_digit_char) simp_all
    ultimately show ?thesis by simp
  next
    case False
    then have "0 < n div 10" by simp
    from "1.IH" [OF False this] obtain c cs where "dec (n div 10) = c # cs" "is_digit c" "c \<noteq> CHR ''0''" by blast
    moreover have "dec n = dec (n div 10) @ [digit_char (n mod 10)]" using False by (subst dec.simps) simp
    ultimately show ?thesis by simp
  qed
qed

lemma strtoull_dec:
  assumes "0 \<le> u" and "u < 2 ^ 64"
  shows "strtoull (dec u) = Some (Some (u, []))"
proof (cases "u = 0")
  case True
  have "strtoull (dec 0) = Some (Some (0, []))" by code_simp
  with True show ?thesis by simp
next
  case False
  with assms(1) dec_head [of u] obtain c cs where d: "dec u = c # cs" "is_digit c" "c \<noteq> CHR ''0''" by auto
  have all: "takeWhile is_digit (dec u) = dec u" "dropWhile is_digit (dec u) = []"
    using dec_digits [OF assms(1)] by (auto simp: takeWhile_eq_all_conv dropWhile_eq_Nil_conv)
  note n = is_digit_not [OF d(2)]
  have sp: "take_sign (dropWhile is_cspace (dec u)) = (False, dec u)" using n d(1) by simp
  have "\<not> has_prefix_ci ''0x'' (dec u)" using d n(4) by (simp add: has_prefix_ci_def)
  then have "strtoull_digits (dec u) = (10, dec u, [])" using d(1,3) all by (simp add: strtoull_digits_def)
  then show ?thesis using digits_val_dec [OF assms(1)] assms(2) dec_nonempty [of u] sp by (simp add: strtoull_def)
qed

lemma c_str_dec: "0 \<le> u \<Longrightarrow> c_str (dec u) = dec u"
  using dec_digits by (intro c_str_no_nul) (fastforce simp: NUL_def is_digit_def)

text \<open>
  C38. A counter, of a semaphore, a timer or a signal, is written as text and read as text: writing its decimal text to
  a descriptor that takes all passes its eight bytes on, and reading eight such bytes into a buffer that is longer than
  the text gives the decimal text back, for every unsigned 64-bit value.
\<close>

theorem u64_text:
  assumes u: "0 \<le> u" "u < 2 ^ 64" and len: "length (dec u) < len"
    and wr: "os_write OS (fd_of p) (le_bytes 8 u) (io_w s) = (Inr 8, w1)"
    and rd: "os_read OS (fd_of p) 8 w1 = (Inr (le_bytes 8 u), w2)"
  shows "b6b_fd_write_u64 OS p (dec u) s = Some (int (length (dec u)), s\<lparr>io_w := w1\<rparr>)
    \<and> b6b_fd_read_u64 OS p len False True (s\<lparr>io_w := w1\<rparr>) = Some (\<lparr>rd_n = int (length (dec u)), rd_bytes = dec u @ [NUL],
        rd_eof = False, rd_again = False\<rparr>, s\<lparr>io_w := w2\<rparr>)"
proof -
  have "le_value (le_bytes 8 u) = u" using u by (intro le_value_bytes) simp_all
  then show ?thesis
    using len wr rd strtoull_dec [OF u] c_str_dec [OF u(1)]
    by (simp add: b6b_fd_write_u64_def b6b_fd_write_def b6b_fd_on_write_def b6b_fd_read_u64_def b6b_fd_read_def
        b6b_fd_on_read_def on_world_def Let_def)
qed

lemma u64_text_witness:
  "\<exists>I. demo_start = Some (True, I) \<and>
     b6b_fd_write_u64 pipe_os 0 (dec 42) (one_strm I T_sem 0 []) = Some (2, (one_strm I T_sem 0 [])\<lparr>io_w := le_bytes 8 42\<rparr>)
   \<and> b6b_fd_read_u64 pipe_os 0 21 False True ((one_strm I T_sem 0 [])\<lparr>io_w := le_bytes 8 42\<rparr>)
      = Some (\<lparr>rd_n = 2, rd_bytes = dec 42 @ [NUL], rd_eof = False, rd_again = False\<rparr>, one_strm I T_sem 0 [])"
proof -
  obtain I args f where I: "demo_start = Some (True, I)" "st_ok ctx0 {#args#} {} (0, [f], None, 1) I" by (rule demo_started)
  have "length (dec 42) = 2" by code_simp
  with u64_text [of 42 21 pipe_os 0 "one_strm I T_sem 0 []" "le_bytes 8 42" "[]"] I(1)
  show ?thesis by (intro exI [of _ I]) (simp add: one_strm_def)
qed

text \<open>
  C40. Reading fewer bytes of a semaphore than the text of its counter has fails, after the counter has been taken
  from the descriptor: the units of the semaphore are lost.
\<close>

theorem u64_read_short:
  assumes st: "get_strm n s = Some st" "st_flags st = 0" "st_ops st = T_sem"
    and u: "0 \<le> u" "u < 2 ^ 64" and want: "0 < want" "want \<le> int (length (dec u))" "want \<le> 20"
    and rd: "os_read OS (fd_of (st_priv st)) 8 (io_w s) = (Inr (le_bytes 8 u), w)"
  shows "b6b_strm_read (vtable OS offl) n want s = Some (B6B_ERR, s\<lparr>io_w := w\<rparr>)"
proof -
  have v: "le_value (le_bytes 8 u) = u" using u by (intro le_value_bytes) simp_all
  have T: "vtable OS offl (st_ops st) = b6b_sem_ops OS" using st(3) by (simp add: vtable_def)
  have len: "nat want \<le> length (dec u)" using want by simp
  have peek: "b6b_strm_peeksz (vtable OS offl) n s = Some (Some 21, s)"
    using st T by (simp add: b6b_strm_peeksz_def b6b_sem_ops_def b6b_fd_peeksz_u64_def)
  have r: "b6b_fd_read_u64 OS (st_priv st) (nat want) False True s
    = Some (\<lparr>rd_n = -1, rd_bytes = take (nat want - 1) (dec u) @ [NUL], rd_eof = False, rd_again = True\<rparr>, s\<lparr>io_w := w\<rparr>)"
    using rd v len by (simp add: b6b_fd_read_u64_def b6b_fd_read_def b6b_fd_on_read_def on_world_def Let_def)
  have "read_loop (vtable OS offl) n 21 want 1 [] s = Some (None, s\<lparr>io_w := w\<rparr>)"
    using st(1) T r want by (subst read_loop.simps) (simp add: b6b_sem_ops_def min_def SSIZE_MAX_def Let_def)
  with peek st T show ?thesis
    by (simp add: b6b_strm_read_def strm_flag_def b6b_sem_ops_def)
qed

lemma u64_read_short_witness:
  "\<exists>I. demo_start = Some (True, I) \<and> b6b_strm_read (vtable pipe_os offload_direct) 0 1 (one_strm I T_sem 0 (le_bytes 8 7))
    = Some (B6B_ERR, (one_strm I T_sem 0 (le_bytes 8 7))\<lparr>io_w := []\<rparr>)"
proof -
  obtain I args f where I: "demo_start = Some (True, I)" "st_ok ctx0 {#args#} {} (0, [f], None, 1) I" by (rule demo_started)
  have d: "length (dec 7) = 1" by code_simp
  have "get_strm 0 (one_strm I T_sem 0 (le_bytes 8 7)) = Some \<lparr>st_ops = T_sem, st_priv = 0, st_flags = 0\<rparr>"
    by (simp add: get_strm_def one_strm_def)
  from u64_read_short [OF this, of 7 1 pipe_os "[]" offload_direct] I(1) d
  show ?thesis by (intro exI [of _ I]) (simp add: one_strm_def)
qed

text \<open>
  The end of a pipe is never noticed: when a descriptor that promised bytes has none left, a read
  of its stream returns the empty text, and the stream is not marked as at its end.
\<close>

theorem fd_eof_unnoticed:
  assumes st: "get_strm n s = Some st" "st_flags st = 0" "st_ops st = T_sh_out"
    and sh: "get_sh (st_priv st) s = Some sh" "INT_MIN \<le> sh_fd sh" "sh_fd sh \<le> INT_MAX"
    and os: "os_fionread OS (sh_fd sh) (io_w s) = (Inr k, w1)" "0 < k" "os_read OS (sh_fd sh) (nat (min k want)) w1 = (Inr [], w2)"
    and want: "0 < want" "1 + want \<le> SSIZE_MAX"
    and rc: "rc_ok (add_mset (t_ret (fg (io_i s))) R) (hp (io_i s))"
  shows "\<exists>s'. b6b_strm_read (vtable OS offl) n want s = Some (B6B_OK, s')
    \<and> str_at (t_ret (fg (io_i s'))) (io_i s') = Some [] \<and> io_strms s' = io_strms s \<and> io_w s' = w2"
proof -
  have T: "vtable OS offl (st_ops st) = b6b_sh_out_ops OS" using st(3) by (simp add: vtable_def)
  note fd = fd_of_ptr [OF sh(2,3)]
  have peek: "b6b_strm_peeksz (vtable OS offl) n s = Some (Some k, s\<lparr>io_w := w1\<rparr>)"
    using st(1) T sh(1) os(1,2) fd by (simp add: b6b_strm_peeksz_def b6b_sh_out_ops_def b6b_sh_peeksz_def b6b_fd_peeksz_def on_world_def)
  have g: "get_sh p (s\<lparr>io_w := w\<rparr>) = get_sh p s" for p w by (simp add: get_sh_def get_priv_def)
  have "b6b_sh_read OS (st_priv st) (nat (min k want)) False True (s\<lparr>io_w := w1\<rparr>)
    = Some (\<lparr>rd_n = 0, rd_bytes = [], rd_eof = False, rd_again = True\<rparr>, s\<lparr>io_w := w2\<rparr>)"
    using sh(1) os(3) fd by (simp add: b6b_sh_read_def g b6b_fd_read_def b6b_fd_on_read_def on_world_def)
  moreover have m: "min k want \<noteq> 0" "\<not> SSIZE_MAX < 1 + min k want" "\<not> (1 + min k want \<le> k \<and> 1 + min k want \<le> want)"
    using os(2) want by auto
  ultimately have loop: "read_loop (vtable OS offl) n k want 1 [] (s\<lparr>io_w := w1\<rparr>) = Some (Some [], s\<lparr>io_w := w2\<rparr>)"
    using st(1) T m by (subst read_loop.simps) (simp add: b6b_sh_out_ops_def Let_def)
  obtain a h where a: "b6b_return_str [] (io_i s) = Some (B6B_OK, set_ret a ((io_i s)\<lparr>hp := h\<rparr>))"
    "hget a h = Some (new_obj\<lparr>ob_s := Some []\<rparr>)" by (rule return_str_runs [OF rc])
  show ?thesis
    using peek loop st(1,2) T a
    by (simp add: b6b_strm_read_def strm_flag_def b6b_sh_out_ops_def on_interp_def str_at_def obj_at_def set_ret_def)
qed

lemma fd_eof_unnoticed_witness:
  "\<exists>I s'. demo_start = Some (True, I) \<and>
     b6b_strm_read (vtable (pipe_os\<lparr>os_fionread := \<lambda>_ w. (Inr 5, w)\<rparr>) offload_direct) 0 10 (one_strm I T_sh_out 0 []) = Some (B6B_OK, s')
     \<and> str_at (t_ret (fg (io_i s'))) (io_i s') = Some [] \<and> io_strms s' = io_strms (one_strm I T_sh_out 0 [])"
proof -
  obtain I args f where I: "demo_start = Some (True, I)" "st_ok ctx0 {#args#} {} (0, [f], None, 1) I" by (rule demo_started)
  from hinv_rc [OF st_ok_ret_hinv [OF I(2)]] obtain R where rc: "rc_ok (add_mset (t_ret (fg I)) R) (hp I)" by blast
  let ?s = "one_strm I T_sh_out 0 []" and ?OS = "pipe_os\<lparr>os_fionread := \<lambda>_ w. (Inr 5, w)\<rparr>"
  have st: "get_strm 0 ?s = Some \<lparr>st_ops = T_sh_out, st_priv = 0, st_flags = 0\<rparr>" "io_i ?s = I" "io_w ?s = []"
    "get_sh 0 ?s = Some \<lparr>sh_pid = i_one I, sh_fd = 3\<rparr>"
    by (simp_all add: get_strm_def one_strm_def get_sh_def get_priv_def)
  have "\<exists>s'. b6b_strm_read (vtable ?OS offload_direct) 0 10 ?s = Some (B6B_OK, s')
    \<and> str_at (t_ret (fg (io_i s'))) (io_i s') = Some [] \<and> io_strms s' = io_strms ?s \<and> io_w s' = []"
    by (rule fd_eof_unnoticed [OF st(1), where sh = "\<lparr>sh_pid = i_one I, sh_fd = 3\<rparr>" and k = 5 and ?w1.0 = "[]" and R = R])
      (simp_all add: st INT_MIN_def INT_MAX_def SSIZE_MAX_def rc)
  with I(1) show ?thesis by blast
qed

section \<open>Opening a file\<close>

lemma new_priv_get:
  assumes "new_priv d s = (p, s')" and "length (io_priv s) < 2 ^ 64"
  shows "unat p = length (io_priv s)" and "s' = s\<lparr>io_priv := io_priv s @ [Some d]\<rparr>"
  using assms by (auto simp: new_priv_def unat_of_nat take_bit_nat_eq_self)

lemma strm_fmt_runs:
  obtains a I where "b6b_strm_fmt k p type s
      = Some (a, s\<lparr>io_strms := io_strms s @ [Some \<lparr>st_ops = k, st_priv = p, st_flags = 0\<rparr>], io_i := I\<rparr>)"
    and "obj_at a I = Some (new_obj\<lparr>ob_s := Some (type @ '':'' @ hex_digits (unat p)), ob_priv := Priv_ext (length (io_strms s)),
      ob_proc := F_ext STRM_PROC\<rparr>)"
    and "\<And>b. b \<noteq> a \<Longrightarrow> obj_at b I = obj_at b (io_i s)" and "fg I = fg (io_i s)"
proof -
  let ?o = "new_obj\<lparr>ob_s := Some (type @ '':'' @ hex_digits (unat p))\<rparr>"
  obtain a h where new: "halloc ?o (hp (io_i s)) = (a, h)" by fastforce
  then have g: "hget b h = (if b = a then Some ?o else hget b (hp (io_i s)))" for b
    using hget_halloc [of b ?o "hp (io_i s)"] by (auto simp: halloc_def)
  show thesis
    by (rule that [of a "(io_i s)\<lparr>hp := hset a (?o\<lparr>ob_priv := Priv_ext (length (io_strms s)), ob_proc := F_ext STRM_PROC\<rparr>) h\<rparr>"])
      (use new g in \<open>simp_all add: b6b_strm_fmt_def b6b_strm_new_def new_heap_def b6b_str_new_def b6b_new_def obj_at_def hget_hset\<close>)
qed

text \<open>
  C37. When the buffer of a file that was opened cannot be set, the file is closed twice: by the
  destructor of its object, and again by the procedure.
\<close>

theorem open_closes_twice:
  assumes op: "os_fopen OS (c_str path) (fm_fmode fm) (io_w s) = (Inr fp, w1)" "fp \<noteq> 0"
    and cl: "os_cloexec OS (os_fileno OS fp w1) w1 = (None, w2)"
    and buf: "fm_bmode fm \<noteq> IONBF" "os_setvbuf OS fp (fm_bmode fm) w2 = (False, w3)"
    and size: "length (io_priv s) < 2 ^ 64"
  shows "\<exists>s'. open_file OS offload_direct (vtable OS offload_direct) T_file path fm s = Some (B6B_ERR, s')
    \<and> io_w s' = os_fclose OS fp (os_fclose OS fp w3)"
proof -
  define fd where "fd = os_fileno OS fp w1"
  let ?f = "\<lparr>fs_fp = fp, fs_buf = False, fs_fd = fd\<rparr>" and ?f' = "\<lparr>fs_fp = fp, fs_buf = True, fs_fd = fd\<rparr>"
  let ?T = "vtable OS offload_direct" and ?s2 = "s\<lparr>io_w := w2\<rparr>" and ?k = "T_file (fm_ops fm)"
  obtain p s3 where new: "new_priv (P_stdio ?f) ?s2 = (p, s3)" by fastforce
  have p: "unat p = length (io_priv s)" "s3 = ?s2\<lparr>io_priv := io_priv s @ [Some (P_stdio ?f)]\<rparr>"
    using new_priv_get [OF new] size by simp_all
  obtain a I where fmt: "b6b_strm_fmt ?k p ''file'' s3
      = Some (a, s3\<lparr>io_strms := io_strms s3 @ [Some \<lparr>st_ops = ?k, st_priv = p, st_flags = 0\<rparr>], io_i := I\<rparr>)"
    "obj_at a I = Some (new_obj\<lparr>ob_s := Some (''file'' @ '':'' @ hex_digits (unat p)), ob_priv := Priv_ext (length (io_strms s3)),
      ob_proc := F_ext STRM_PROC\<rparr>)" by (rule strm_fmt_runs)
  let ?st = "\<lparr>st_ops = ?k, st_priv = p, st_flags = 0\<rparr>"
  let ?s4 = "s\<lparr>io_w := w3, io_priv := io_priv s @ [Some (P_stdio ?f')], io_strms := io_strms s @ [Some ?st], io_i := I\<rparr>"
  have strm: "strm_of a ?s4 = Some (length (io_strms s))" "get_strm (length (io_strms s)) ?s4 = Some ?st"
    using fmt(2) p(2) by (simp_all add: strm_of_def get_strm_def)
  have priv: "get_stdio p ?s4 = Some ?f'" "get_priv p ?s4 = Some (P_stdio ?f')" using p(1) by (simp_all add: get_stdio_def get_priv_def)
  let ?s5 = "?s4\<lparr>io_w := os_fclose OS fp w3, io_priv := (io_priv ?s4)[unat p := None]\<rparr>"
  have "op_close (?T ?k) = Some (b6b_stdio_close OS offload_direct)"
    by (cases "fm_ops fm") (simp_all add: vtable_def b6b_ro_file_ops_def b6b_wo_file_ops_def b6b_rw_file_ops_def no_ops_def)
  moreover have "b6b_stdio_close OS offload_direct p ?s4 = Some ?s5"
    using priv(1) p(1) by (simp add: b6b_stdio_close_def offload_direct_def on_world_def b6b_stdio_do_fclose_def free_priv_def get_priv_def)
  ultimately have close: "b6b_strm_close ?T (length (io_strms s)) ?s4 = set_flags (length (io_strms s)) (B6B_STRM_EOF OR B6B_STRM_CLOSED) ?s5"
    using strm(2) by (simp add: b6b_strm_close_def strm_flag_def)
  have "get_strm (length (io_strms s)) ?s5 = Some ?st" by (simp add: get_strm_def)
  from close set_flags_Some(1) [OF this] obtain s6 where s6: "b6b_strm_close ?T (length (io_strms s)) ?s4 = Some s6"
    "io_w s6 = os_fclose OS fp w3" "io_i s6 = I" by simp
  obtain h where h: "b6b_destroy a (hp I) = Some h"
    using fmt(2) by (simp add: b6b_destroy_def obj_at_def destroy_refs_def new_obj_def refs_of_def)
  have destroy: "destroy_strm ?T a ?s4 = Some (s6\<lparr>io_strms := (io_strms s6)[length (io_strms s) := None], io_i := I\<lparr>hp := h\<rparr>\<rparr>)"
    using strm(1) s6 h by (simp add: destroy_strm_def b6b_strm_del_def upd_heap_def)
  have made: "on_world (os_setvbuf OS fp (fm_bmode fm)) (set_priv p (P_stdio ?f') (s3\<lparr>io_strms := io_strms s3 @ [Some ?st], io_i := I\<rparr>))
    = (False, ?s4)"
    using buf(2) p by (simp add: on_world_def set_priv_def)
  have "b6b_file_new OS ?T T_file fp fd (fm_bmode fm) (fm_ops fm) ?s2
    = Some (None, s6\<lparr>io_strms := (io_strms s6)[length (io_strms s) := None], io_i := I\<lparr>hp := h\<rparr>\<rparr>)"
    using new fmt(1) buf(1) made destroy by (simp add: b6b_file_new_def)
  with op cl s6(2) show ?thesis
    by (simp add: open_file_def offload_direct_def on_world_def b6b_file_do_fopen_def b6b_stdio_do_fclose_def off0_def fd_def)
qed

lemma open_closes_twice_witness:
  "\<exists>I s'. demo_start = Some (True, I) \<and>
     (let OS = pipe_os\<lparr>os_setvbuf := \<lambda>_ _ w. (False, w), os_fclose := \<lambda>_ w. w @ ''c''\<rparr> in
      open_file OS offload_direct (vtable OS offload_direct) T_file ''f'' b6b_file_def_mode (one_strm I T_sem 0 []) = Some (B6B_ERR, s'))
     \<and> io_w s' = ''cc''"
proof -
  obtain I args f where I: "demo_start = Some (True, I)" "st_ok ctx0 {#args#} {} (0, [f], None, 1) I" by (rule demo_started)
  let ?OS = "pipe_os\<lparr>os_setvbuf := \<lambda>_ _ w. (False, w), os_fclose := \<lambda>_ w. w @ ''c''\<rparr>"
  have "\<exists>s'. open_file ?OS offload_direct (vtable ?OS offload_direct) T_file ''f'' b6b_file_def_mode (one_strm I T_sem 0 [])
      = Some (B6B_ERR, s') \<and> io_w s' = os_fclose ?OS 1 (os_fclose ?OS 1 [])"
    by (rule open_closes_twice [where ?w1.0 = "[]" and ?w2.0 = "[]"])
      (simp_all add: one_strm_def pipe_os_def b6b_file_def_mode_def b6b_file_modes_def file_modes_def)
  with I(1) show ?thesis unfolding Let_def by auto
qed

end
