(* ===== verification/Io_Inv.thy ===== *)
theory Io_Inv
  imports Exts Run_Sched
begin

text \<open>
  The invariant of theory Run_Inv for the procedures on streams.  The references that
  the private data of the streams of a command hold to the object of its process
  (\<^verbatim>\<open>struct b6b_sh\<close>) are roots, too.  The interfaces are locales: \<open>stream_tables\<close> is what the
  operations on a stream need of the tables they call, \<open>offloader\<close> what they need of the function
  that runs a blocking call.
\<close>

section \<open>The invariant\<close>

definition pd_refs :: "pdata option \<Rightarrow> addr multiset" where
  "pd_refs d = (case d of Some (P_sh sh) \<Rightarrow> {#sh_pid sh#} | _ \<Rightarrow> {#})"

definition sh_refs :: "pdata option list \<Rightarrow> addr multiset" where
  "sh_refs q = sum_list (map pd_refs q)"

definition iok :: "ctx \<Rightarrow> addr multiset \<Rightarrow> addr set \<Rightarrow> tst \<Rightarrow> pdata option list \<Rightarrow> interp \<Rightarrow> bool" where
  "iok C R P t q I \<longleftrightarrow> st_ok C (R + sh_refs q) P t I \<and> P \<subseteq> set_mset R"

definition iop :: "ctx \<Rightarrow> addr multiset \<Rightarrow> addr set \<Rightarrow> tst \<Rightarrow> ('a \<times> ('k, 'w) io) option \<Rightarrow> bool" where
  "iop C R P t m \<longleftrightarrow> (\<forall>r s. m = Some (r, s) \<longrightarrow> iok C R P t (io_priv s) (io_i s))"

lemma pd_refs_simps [simp]:
  "pd_refs None = {#}" "pd_refs (Some (P_stdio f)) = {#}" "pd_refs (Some (P_socket so)) = {#}" "pd_refs (Some (P_signal sg)) = {#}"
  "pd_refs (Some (P_sh sh)) = {#sh_pid sh#}"
  by (simp_all add: pd_refs_def)

lemma sh_refs_append [simp]: "sh_refs (q @ [d]) = sh_refs q + pd_refs d" "sh_refs [] = {#}"
  by (simp_all add: sh_refs_def)

lemma sh_refs_update: "k < length q \<Longrightarrow> sh_refs (q[k := d]) + pd_refs (q ! k) = sh_refs q + pd_refs d"
proof (induction q arbitrary: k)
  case (Cons x q)
  then show ?case by (cases k) (auto simp: sh_refs_def ac_simps)
qed simp

lemma sh_refs_same:
  assumes "k < length q" and "pd_refs (q ! k) = pd_refs d"
  shows "sh_refs (q[k := d]) = sh_refs q"
  using sh_refs_update [OF assms(1), of d] assms(2) by simp

lemma io_sel [simp]:
  "io_i (s\<lparr>io_w := w\<rparr>) = io_i s" "io_i (s\<lparr>io_strms := x\<rparr>) = io_i s" "io_i (s\<lparr>io_priv := q\<rparr>) = io_i s" "io_i (s\<lparr>io_i := I\<rparr>) = I"
  "io_priv (s\<lparr>io_w := w\<rparr>) = io_priv s" "io_priv (s\<lparr>io_strms := x\<rparr>) = io_priv s" "io_priv (s\<lparr>io_priv := q\<rparr>) = q"
  "io_priv (s\<lparr>io_i := I\<rparr>) = io_priv s" "io_i (upd_world f s) = io_i s" "io_priv (upd_world f s) = io_priv s"
  "io_i (set_priv p d s) = io_i s"
  by (simp_all add: upd_world_def set_priv_def)

section \<open>Operations of the interpreter\<close>

lemma iok_lift:
  "iok C R P t q I \<Longrightarrow> (\<And>R. st_ok C R P t I \<Longrightarrow> st_ok C R P t I') \<Longrightarrow> iok C R P t q I'"
  by (simp add: iok_def)

lemma iok_add:
  "iok C R P t q I \<Longrightarrow> (\<And>R. st_ok C R P t I \<Longrightarrow> st_ok C (add_mset a R) P t I') \<Longrightarrow> iok C (add_mset a R) P t q I'"
  by (auto simp: iok_def)

lemma iok_del:
  "iok C (add_mset a R) P t q I \<Longrightarrow> (\<And>R. st_ok C (add_mset a R) P t I \<Longrightarrow> st_ok C R P t I') \<Longrightarrow> npriv C P a \<Longrightarrow> iok C R P t q I'"
  by (auto simp: iok_def npriv_def)

named_theorems iokeeps \<open>operations that keep the invariant, for streams\<close>

lemma iok_conv [iokeeps]:
  "on_heap (b6b_as_str a) I = Some (x, I') \<Longrightarrow> iok C R P t q I \<Longrightarrow> iok C R P t q I'"
  "on_heap (b6b_as_int a) I = Some (x, I') \<Longrightarrow> iok C R P t q I \<Longrightarrow> iok C R P t q I'"
  by (erule iok_lift, erule (1) as_str_ok) (erule iok_lift, erule (1) as_int_ok)

lemma iok_new [iokeeps]:
  "new_heap (b6b_str_new v) I = (a, I') \<Longrightarrow> iok C R P t q I \<Longrightarrow> iok C (add_mset a R) P t q I'"
  "new_heap (b6b_str_copy v) I = (a, I') \<Longrightarrow> iok C R P t q I \<Longrightarrow> iok C (add_mset a R) P t q I'"
  "new_heap (b6b_int_new i) I = (a, I') \<Longrightarrow> iok C R P t q I \<Longrightarrow> iok C (add_mset a R) P t q I'"
  "new_heap b6b_list_new I = (a, I') \<Longrightarrow> iok C R P t q I \<Longrightarrow> iok C (add_mset a R) P t q I'"
  by (erule iok_add, erule (1) str_new_ok) (erule iok_add, erule (1) str_copy_ok_st, (erule iok_add, erule (1) int_new_ok list_new_ok)+)

lemma iok_new_npriv [iokeeps]:
  "new_heap (b6b_str_new v) I = (a, I') \<Longrightarrow> iok C R P t q I \<Longrightarrow> npriv C P a"
  "new_heap (b6b_str_copy v) I = (a, I') \<Longrightarrow> iok C R P t q I \<Longrightarrow> npriv C P a"
  "new_heap (b6b_int_new i) I = (a, I') \<Longrightarrow> iok C R P t q I \<Longrightarrow> npriv C P a"
  "new_heap b6b_list_new I = (a, I') \<Longrightarrow> iok C R P t q I \<Longrightarrow> npriv C P a"
  unfolding iok_def by (blast dest: str_new_ok(2) str_copy_ok_st(2) int_new_ok(2) list_new_ok(2))+

lemma iok_list_add [iokeeps]:
  "upd_heap (b6b_list_add l a) I = Some I' \<Longrightarrow> iok C R P t q I \<Longrightarrow> npriv C P a \<Longrightarrow> iok C R P t q I'"
  by (erule iok_lift, erule (2) list_add_ok_st)

lemma iok_ref [iokeeps]:
  "upd_heap (b6b_ref a) I = Some I' \<Longrightarrow> iok C R P t q I \<Longrightarrow> npriv C P a \<Longrightarrow> iok C (add_mset a R) P t q I'"
  by (erule iok_add, erule (2) ref_ok_st)

lemma iok_unref [iokeeps]:
  "upd_heap (b6b_unref a) I = Some I' \<Longrightarrow> iok C (add_mset a R) P t q I \<Longrightarrow> npriv C P a \<Longrightarrow> iok C R P t q I'"
  by (erule iok_del, erule (2) unref_ok_st)

lemma iok_list_private:
  "new_heap b6b_list_new I = (a, I') \<Longrightarrow> iok C R P t q I \<Longrightarrow> iok C (add_mset a R) (insert a P) t q I'"
  using list_new_private [of I a I' C "R + sh_refs q" P t] by (auto simp: iok_def)

lemma iok_destroy:
  "upd_heap (b6b_destroy a) I = Some I' \<Longrightarrow> iok C (add_mset a R) (insert a P) t q I \<Longrightarrow> a \<notin> P \<Longrightarrow> iok C R P t q I'"
  using destroy_private_ok [of a I I' C "R + sh_refs q" P t] by (auto simp: iok_def)

lemma iok_public: "iok C R P t q I \<Longrightarrow> Q \<subseteq> P \<Longrightarrow> iok C R Q t q I"
  using make_public [of C "R + sh_refs q" P t I Q] by (auto simp: iok_def)

lemma iok_returns [iokeeps]:
  "b6b_return_str v I = Some (r, I') \<Longrightarrow> iok C R P t q I \<Longrightarrow> iok C R P t q I'"
  "b6b_return_int i I = Some (r, I') \<Longrightarrow> iok C R P t q I \<Longrightarrow> iok C R P t q I'"
  "fail_with v I = Some (r, I') \<Longrightarrow> iok C R P t q I \<Longrightarrow> iok C R P t q I'"
  by (erule iok_lift, erule (1) b6b_return_str_ok) (erule iok_lift, erule (1) b6b_return_int_ok, erule iok_lift, erule (1) fail_with_ok)

lemma iok_return [iokeeps]:
  "b6b_return a I = Some (r, I') \<Longrightarrow> iok C (add_mset a R) P t q I \<Longrightarrow> npriv C P a \<Longrightarrow> iok C R P t q I'"
  by (erule iok_del, erule (1) b6b_return_ok)


lemma iok_list_build [iokeeps]:
  assumes "on_heap (b6b_list_build xs) I = Some (l, I')" and ok: "iok C R P t q I" and "list_all (npriv C P) xs"
  shows "iok C (add_mset l R) P t q I'" and "npriv C P l"
proof -
  have "st_ok C (add_mset l R) P t I' \<and> npriv C P l" if st: "st_ok C R P t I" for R
  proof -
    obtain h where h: "b6b_list_build xs (hp I) = Some (l, h)" "I' = I\<lparr>hp := h\<rparr>"
      using assms(1) by (auto simp: on_heap_def bind_Some)
    obtain h1 where h1: "b6b_list_new (hp I) = (l, h1)" "list_do_add_all l xs h1 = Some h"
      using h(1) by (auto simp: b6b_list_build_def split: prod.splits)
    note n = b6b_list_new_hinv [OF st_ok_hinv [OF st] h1(1)]
    have "set xs \<inter> (c_priv C \<union> P) = {}" using assms(3) by (auto simp: list_all_iff npriv_def)
    from list_do_add_all_hinv [OF n(1) h1(2) this]
    have "hinv (c_priv C \<union> P) (c_refs C + add_mset l R + iroots I) h" by simp
    then have "st_ok C (add_mset l R) P t I'" unfolding h(2) using st_ok_own [OF st] by (intro st_ok_heap [OF st]) auto
    with n(2) show ?thesis by (simp add: npriv_def)
  qed
  with ok show "iok C (add_mset l R) P t q I'" "npriv C P l" by (auto simp: iok_def)
qed

text \<open>A new object that is private, with data for its procedure.\<close>

lemma iok_fresh:
  assumes "new_heap (b6b_new init) I = (a, I')" and "iok C R P t q I"
    and "ob_refc (init new_obj) = 1" "refs_of (init new_obj) = []" "ob_l (init new_obj) = No_list"
  shows "iok C (add_mset a R) (insert a P) t q I'" and "npriv C P a"
  using new_private [OF assms(1) _ assms(3-5), of C "R + sh_refs q" P t] assms(2) by (auto simp: iok_def)

lemma iok_set_priv:
  assumes "iok C R P t q I" and "obj_at a I = Some ob" and "priv_refs (ob_priv ob) = []"
  shows "iok C R P t q (I\<lparr>hp := hset a (ob\<lparr>ob_priv := Priv_ext n, ob_proc := f\<rparr>) (hp I)\<rparr>)"
proof (rule iok_lift [OF assms(1)])
  fix R assume ok: "st_ok C R P t I"
  show "st_ok C R P t (I\<lparr>hp := hset a (ob\<lparr>ob_priv := Priv_ext n, ob_proc := f\<rparr>) (hp I)\<rparr>)"
    by (rule st_ok_heap [OF ok hinv_hset_same [OF st_ok_hinv [OF ok]]])
      (use assms(2,3) st_ok_own [OF ok] in \<open>auto simp: obj_at_def refs_of_def\<close>)
qed

lemma iok_strm_fmt:
  assumes "b6b_strm_fmt k p type s = Some (a, s')" and "iok C R P t (io_priv s) (io_i s)"
  shows "iok C (add_mset a R) (insert a P) t (io_priv s') (io_i s')" and "npriv C P a" and "io_priv s' = io_priv s"
proof -
  let ?v = "type @ '':'' @ hex_digits (unat p)"
  obtain b I where new: "new_heap (b6b_new (\<lambda>ob. ob\<lparr>ob_s := Some ?v\<rparr>)) (io_i s) = (b, I)" by fastforce
  note f = iok_fresh [OF new assms(2)]
  have ob: "obj_at b I = Some (new_obj\<lparr>ob_s := Some ?v\<rparr>)"
    using new hget_halloc [of b "new_obj\<lparr>ob_s := Some ?v\<rparr>" "hp (io_i s)"]
    by (auto simp: new_heap_def b6b_new_def obj_at_def split: prod.splits)
  have new': "new_heap (b6b_str_new ?v) (io_i s) = (b, I)" using new by (simp add: new_heap_def b6b_str_new_def)
  have r: "a = b" "io_priv s' = io_priv s"
    "io_i s' = I\<lparr>hp := hset b (new_obj\<lparr>ob_s := Some ?v, ob_priv := Priv_ext (length (io_strms s)), ob_proc := F_ext STRM_PROC\<rparr>) (hp I)\<rparr>"
    using assms(1) new' ob by (simp_all add: b6b_strm_fmt_def b6b_strm_new_def) auto
  have "iok C (add_mset b R) (insert b P) t (io_priv s) I" using f(1) by (simp add: new_obj_def refs_of_def)
  from iok_set_priv [OF this ob, of "F_ext STRM_PROC" "length (io_strms s)"]
  show "iok C (add_mset a R) (insert a P) t (io_priv s') (io_i s')" unfolding r by (simp add: new_obj_def)
  show "npriv C P a" using f(2) unfolding r by (simp add: new_obj_def refs_of_def)
  show "io_priv s' = io_priv s" by (rule r)
qed

lemma iok_strm_fmt_public [iokeeps]:
  assumes "b6b_strm_fmt k p type s = Some (a, s')" and "iok C R P t (io_priv s) (io_i s)"
  shows "iok C (add_mset a R) P t (io_priv s') (io_i s')" and "npriv C P a"
  using iok_public [OF iok_strm_fmt(1) [OF assms], of P] iok_strm_fmt(2) [OF assms] by auto

text \<open>The integer that keeps the object of a stream alive.\<close>

lemma iok_holder:
  assumes "new_heap (b6b_new (\<lambda>ob. ob\<lparr>ob_i := Some i, ob_priv := Priv_unref a\<rparr>)) I = (b, I')"
    and ok: "iok C (add_mset a R) P t q I" and "npriv C P a"
  shows "iok C (add_mset b R) P t q I'" and "npriv C P b"
proof -
  let ?ob = "new_obj\<lparr>ob_i := Some i\<rparr>" and ?ob' = "new_obj\<lparr>ob_i := Some i, ob_priv := Priv_unref a\<rparr>"
  obtain h where h: "halloc ?ob' (hp I) = (b, h)" "I' = I\<lparr>hp := h\<rparr>"
    using assms(1) by (auto simp: new_heap_def b6b_new_def split: prod.splits)
  obtain b1 h1 where h1: "halloc ?ob (hp I) = (b1, h1)" by fastforce
  then have same: "b1 = b" "h = hset b ?ob' h1" using h(1) by (auto simp: halloc_def hset_def)
  have fresh: "new_heap (b6b_new (\<lambda>ob. ob\<lparr>ob_i := Some i\<rparr>)) I = (b, I\<lparr>hp := h1\<rparr>)"
    using h1 same by (simp add: new_heap_def b6b_new_def)
  have pub: "iok C (add_mset b (add_mset a R)) P t q (I\<lparr>hp := h1\<rparr>)" "npriv C P b"
    using iok_public [OF iok_fresh(1) [OF fresh ok], of P] iok_fresh(2) [OF fresh ok]
    by (auto simp: new_obj_def refs_of_def)
  have ob: "hget b h1 = Some ?ob" using h1 hget_halloc [of b ?ob "hp I"] same(1) by simp
  show "npriv C P b" by (rule pub)
  have "P \<subseteq> set_mset (add_mset b R)" using pub(1) assms(3) by (auto simp: iok_def npriv_def)
  moreover have "P \<subseteq> set_mset R" using pub assms(3) by (auto simp: iok_def npriv_def)
  moreover have "st_ok C (add_mset b (R + sh_refs q)) P t ((I\<lparr>hp := h1\<rparr>)\<lparr>hp := h\<rparr>)"
  proof (rule st_ok_heap)
    let ?X = "c_refs C + add_mset b (R + sh_refs q) + iroots I"
    from pub(1) show ok1: "st_ok C (add_mset b (add_mset a (R + sh_refs q))) P t (I\<lparr>hp := h1\<rparr>)" by (simp add: iok_def)
    have roots: "iroots (I\<lparr>hp := x\<rparr>) = iroots I" for x by (simp add: iroots_def groots_def threads_def)
    have inv: "hinv (c_priv C \<union> P) (add_mset a ?X) h1" using st_ok_hinv [OF ok1] unfolding roots by (simp add: ac_simps add_mset_commute)
    have "hinv (c_priv C \<union> P) ?X (hset b ?ob' h1)"
      by (rule hinv_hset [OF inv ob]) (use assms(3) in \<open>auto simp: refs_of_def new_obj_def obj_nodes_ok_def npriv_def\<close>)
    then show "hinv (c_priv C \<union> P) (c_refs C + add_mset b (R + sh_refs q) + iroots (I\<lparr>hp := h1\<rparr>)) h"
      by (simp add: same roots)
  qed (use calculation in auto)
  ultimately show "iok C (add_mset b R) P t q I'" by (simp add: iok_def h(2))
qed


section \<open>The shape of a procedure\<close>

lemma iopI: "(\<And>r s'. m = Some (r, s') \<Longrightarrow> iok C R P t (io_priv s') (io_i s')) \<Longrightarrow> iop C R P t m"
  by (simp add: iop_def)

lemma iopD: "iop C R P t m \<Longrightarrow> m = Some (r, s') \<Longrightarrow> iok C R P t (io_priv s') (io_i s')"
  by (simp add: iop_def)

lemma iop_Some: "iok C R P t (io_priv s) (io_i s) \<Longrightarrow> iop C R P t (Some (r, s))"
  by (simp add: iop_def)

lemma iop_None: "iop C R P t None"
  by (simp add: iop_def)

lemma iop_args:
  assumes ok: "iok C R P t (io_priv s) (io_i s)"
    and body: "\<And>argc ps I. iok C R P t (io_priv s) I \<Longrightarrow> np_args C P ps \<Longrightarrow> iop C R P t (g argc ps (s\<lparr>io_i := I\<rparr>))"
  shows "iop C R P t (Option.bind (io_args args fmt wants s) (\<lambda>((argc, ps), s). g argc ps s))"
proof (cases "b6b_proc_get_args args fmt wants (io_i s)")
  case None
  then show ?thesis by (simp add: io_args_def on_interp_def iop_def)
next
  case (Some r)
  obtain argc ps I where r: "r = (argc, ps, I)" by (cases r)
  have st: "st_ok C (R + sh_refs (io_priv s)) P t (io_i s)" "P \<subseteq> set_mset R" using ok by (simp_all add: iok_def)
  note g = get_args_ok [OF Some [unfolded r] st(1)]
  have "np_args C P ps" using g(2) by (auto simp: np_args_def list_all_iff split: parg.split)
  moreover have "iok C R P t (io_priv s) I" using g(1) st(2) by (simp add: iok_def)
  ultimately show ?thesis using body [of I ps argc] Some r by (simp add: io_args_def on_interp_def)
qed

lemma iop_bind_interp:
  "(\<And>x I. f (io_i s) = Some (x, I) \<Longrightarrow> iop C R P t (g x (s\<lparr>io_i := I\<rparr>))) \<Longrightarrow> iop C R P t (Option.bind (on_interp f s) (\<lambda>(x, s). g x s))"
  by (cases "f (io_i s)") (auto simp: on_interp_def iop_def)

lemma iop_interp:
  "(\<And>r I. f (io_i s) = Some (r, I) \<Longrightarrow> iok C R P t (io_priv s) I) \<Longrightarrow> iop C R P t (on_interp f s)"
  by (cases "f (io_i s)") (auto simp: on_interp_def iop_def)

lemma iop_world: "(\<And>x w. iop C R P t (g x (s\<lparr>io_w := w\<rparr>))) \<Longrightarrow> iop C R P t (case on_world f s of (x, s) \<Rightarrow> g x s)"
  by (simp add: on_world_def split: prod.split)

lemma iop_new_priv:
  "(\<And>p. iop C R P t (g p (s\<lparr>io_priv := io_priv s @ [Some d]\<rparr>))) \<Longrightarrow> iop C R P t (case new_priv d s of (p, s) \<Rightarrow> g p s)"
  by (simp add: new_priv_def)

lemma iop_bind2: "(\<And>x s. m = Some (x, s) \<Longrightarrow> iop C R P t (f x s)) \<Longrightarrow> iop C R P t (Option.bind m (\<lambda>(x, s). f x s))"
  by (cases m) (auto simp: iop_def)

lemma iop_bind3:
  "(\<And>a b s. m = Some ((a, b), s) \<Longrightarrow> iop C R P t (f a b s)) \<Longrightarrow> iop C R P t (Option.bind m (\<lambda>((a, b), s). f a b s))"
  by (cases m) (auto simp: iop_def)

lemma iop_bind_interp3:
  "(\<And>a b I. f (io_i s) = Some ((a, b), I) \<Longrightarrow> iop C R P t (g a b (s\<lparr>io_i := I\<rparr>))) \<Longrightarrow>
   iop C R P t (Option.bind (on_interp f s) (\<lambda>((a, b), s). g a b s))"
  by (cases "f (io_i s)") (auto simp: on_interp_def iop_def)

lemma iop_bind: "(\<And>x. m = Some x \<Longrightarrow> iop C R P t (f x)) \<Longrightarrow> iop C R P t (Option.bind m f)"
  by (cases m) (auto simp: iop_def)

lemma iop_if: "(c \<Longrightarrow> iop C R P t a) \<Longrightarrow> (\<not> c \<Longrightarrow> iop C R P t b) \<Longrightarrow> iop C R P t (if c then a else b)"
  by simp

lemma iop_let: "iop C R P t (f a) \<Longrightarrow> iop C R P t (let x = a in f x)"
  by simp

lemma iop_prod: "(\<And>a b. x = (a, b) \<Longrightarrow> iop C R P t (f a b)) \<Longrightarrow> iop C R P t (case x of (a, b) \<Rightarrow> f a b)"
  by (cases x) simp

lemma iop_option:
  "(x = None \<Longrightarrow> iop C R P t a) \<Longrightarrow> (\<And>y. x = Some y \<Longrightarrow> iop C R P t (f y)) \<Longrightarrow> iop C R P t (case x of None \<Rightarrow> a | Some y \<Rightarrow> f y)"
  by (cases x) simp_all

lemma iop_list:
  "(xs = [] \<Longrightarrow> iop C R P t a) \<Longrightarrow> (\<And>y ys. xs = y # ys \<Longrightarrow> iop C R P t (f y ys)) \<Longrightarrow>
   iop C R P t (case xs of [] \<Rightarrow> a | y # ys \<Rightarrow> f y ys)"
  by (cases xs) simp_all

lemma iop_parg:
  "(\<And>a. p = Arg a \<Longrightarrow> iop C R P t (f a)) \<Longrightarrow> (\<And>n. p = Rest n \<Longrightarrow> iop C R P t (g n)) \<Longrightarrow>
   iop C R P t (case p of Arg a \<Rightarrow> f a | Rest n \<Rightarrow> g n)"
  by (cases p) simp_all

lemma iop_sum:
  "(\<And>a. x = Inl a \<Longrightarrow> iop C R P t (f a)) \<Longrightarrow> (\<And>b. x = Inr b \<Longrightarrow> iop C R P t (g b)) \<Longrightarrow>
   iop C R P t (case x of Inl a \<Rightarrow> f a | Inr b \<Rightarrow> g b)"
  by (cases x) simp_all

lemma iop_bool: "(x \<Longrightarrow> iop C R P t a) \<Longrightarrow> (\<not> x \<Longrightarrow> iop C R P t b) \<Longrightarrow> iop C R P t (case x of True \<Rightarrow> a | False \<Rightarrow> b)"
  by (cases x) simp_all

lemmas iop_rules = iop_Some iop_None iop_args iop_bind_interp3 iop_bind_interp iop_interp iop_world iop_new_priv iop_bind3 iop_bind2 iop_bind iop_if iop_let
  iop_option iop_list iop_parg iop_sum iop_bool iop_prod

lemma iok_strerror [iokeeps]:
  "b6b_return_strerror OS e s = Some (r, s') \<Longrightarrow> iok C R P t (io_priv s) (io_i s) \<Longrightarrow> iok C R P t (io_priv s') (io_i s')"
  unfolding b6b_return_strerror_def on_interp_def by (auto simp: bind_Some dest: iok_returns(3))

lemma iop_strerror: "iok C R P t (io_priv s) (io_i s) \<Longrightarrow> iop C R P t (b6b_return_strerror OS e s)"
  by (rule iopI, erule iok_strerror)

lemmas io_rules = iop_rules iop_strerror

section \<open>What a stream needs of its tables\<close>

definition keeps_io :: "(('k, 'w) io \<Rightarrow> ('a \<times> ('k, 'w) io) option) \<Rightarrow> bool" where
  "keeps_io f \<longleftrightarrow> (\<forall>C R P t s r s'. f s = Some (r, s') \<longrightarrow> iok C R P t (io_priv s) (io_i s) \<longrightarrow> iok C R P t (io_priv s') (io_i s'))"

text \<open>A new object comes with its reference.\<close>

definition gives_new :: "(('k, 'w) io \<Rightarrow> (addr option \<times> ('k, 'w) io) option) \<Rightarrow> bool" where
  "gives_new f \<longleftrightarrow> (\<forall>C R P t s r s'. f s = Some (r, s') \<longrightarrow> iok C R P t (io_priv s) (io_i s) \<longrightarrow>
     (case r of None \<Rightarrow> iok C R P t (io_priv s') (io_i s')
      | Some a \<Rightarrow> iok C (add_mset a R) P t (io_priv s') (io_i s') \<and> npriv C P a))"

lemma keeps_ioD: "keeps_io f \<Longrightarrow> f s = Some (r, s') \<Longrightarrow> iok C R P t (io_priv s) (io_i s) \<Longrightarrow> iok C R P t (io_priv s') (io_i s')"
  unfolding keeps_io_def by blast

lemma keeps_ioI: "(\<And>C R P t s. iok C R P t (io_priv s) (io_i s) \<Longrightarrow> iop C R P t (f s)) \<Longrightarrow> keeps_io f"
  unfolding keeps_io_def iop_def by blast

lemma gives_newD:
  assumes "gives_new f" and "f s = Some (r, s')" and "iok C R P t (io_priv s) (io_i s)"
  shows "r = None \<Longrightarrow> iok C R P t (io_priv s') (io_i s')"
    and "r = Some a \<Longrightarrow> iok C (add_mset a R) P t (io_priv s') (io_i s')" and "r = Some a \<Longrightarrow> npriv C P a"
proof -
  from assms have "case r of None \<Rightarrow> iok C R P t (io_priv s') (io_i s')
      | Some a \<Rightarrow> iok C (add_mset a R) P t (io_priv s') (io_i s') \<and> npriv C P a" unfolding gives_new_def by blast
  then show "r = None \<Longrightarrow> iok C R P t (io_priv s') (io_i s')"
    "r = Some a \<Longrightarrow> iok C (add_mset a R) P t (io_priv s') (io_i s')" "r = Some a \<Longrightarrow> npriv C P a" by simp_all
qed

text \<open>\<open>accept\<close>: a failure, no connection, or a new object.\<close>

definition accepts_new :: "(('k, 'w) io \<Rightarrow> (addr option option \<times> ('k, 'w) io) option) \<Rightarrow> bool" where
  "accepts_new f \<longleftrightarrow> gives_new (\<lambda>s. map_option (\<lambda>(r, s). (Option.bind r id, s)) (f s))"

locale stream_tables =
  fixes T :: "('k, 'w) vtab"
  assumes peeksz_law: "op_peeksz (T k) = Some f1 \<Longrightarrow> keeps_io (f1 p)"
    and read_law: "op_read (T k) = Some f2 \<Longrightarrow> keeps_io (f2 p len eof again)"
    and write_law: "op_write (T k) = Some f3 \<Longrightarrow> keeps_io (f3 p buf)"
    and close_law: "op_close (T k) = Some f4 \<Longrightarrow> keeps_io (\<lambda>s. map_option (Pair ()) (f4 p s))"
    and peer_law: "op_peer (T k) = Some f5 \<Longrightarrow> gives_new (f5 p)"
    and accept_law: "op_accept (T k) = Some f6 \<Longrightarrow> accepts_new (f6 p)"
begin

lemma close_ok:
  assumes "b6b_strm_close T n s = Some s'" and "iok C R P t (io_priv s) (io_i s)"
  shows "iok C R P t (io_priv s') (io_i s')"
proof -
  from assms(1) obtain st where st: "get_strm n s = Some st" by (auto simp: b6b_strm_close_def bind_Some)
  have same: "set_flags n fl s1 = Some s2 \<Longrightarrow> io_i s2 = io_i s1 \<and> io_priv s2 = io_priv s1" for fl s1 s2
    by (auto simp: set_flags_def bind_Some)
  show ?thesis
  proof (cases "strm_flag B6B_STRM_CLOSED st")
    case True
    with assms st show ?thesis by (simp add: b6b_strm_close_def)
  next
    case False
    show ?thesis
    proof (cases "op_close (T (st_ops st))")
      case None
      with False assms st show ?thesis by (auto simp: b6b_strm_close_def dest!: same)
    next
      case (Some f)
      with False assms(1) st obtain s1 where s1: "f (st_priv st) s = Some s1" "set_flags n (B6B_STRM_EOF OR B6B_STRM_CLOSED) s1 = Some s'"
        by (auto simp: b6b_strm_close_def bind_Some)
      from keeps_ioD [OF close_law [OF Some, of "st_priv st"] _ assms(2)] s1(1) have "iok C R P t (io_priv s1) (io_i s1)" by simp
      with same [OF s1(2)] show ?thesis by simp
    qed
  qed
qed

lemma destroy_strm_ok:
  assumes "destroy_strm T a s = Some s'" and "iok C (add_mset a R) (insert a P) t (io_priv s) (io_i s)" and "a \<notin> P"
  shows "iok C R P t (io_priv s') (io_i s')"
proof -
  from assms(1) obtain n s1 I where n: "b6b_strm_close T n s = Some s1"
      "upd_heap (b6b_destroy a) (io_i s1) = Some I" "s' = s1\<lparr>io_strms := (io_strms s1)[n := None], io_i := I\<rparr>"
    by (auto simp: destroy_strm_def b6b_strm_del_def bind_Some)
  from iok_destroy [OF n(2) close_ok [OF n(1) assms(2)] assms(3)] show ?thesis by (simp add: n(3))
qed

lemma peeksz_ok:
  assumes "b6b_strm_peeksz T n s = Some (r, s')" and "iok C R P t (io_priv s) (io_i s)"
  shows "iok C R P t (io_priv s') (io_i s')"
proof -
  from assms(1) obtain st where st: "get_strm n s = Some st" by (auto simp: b6b_strm_peeksz_def bind_Some)
  show ?thesis
  proof (cases "op_peeksz (T (st_ops st))")
    case None
    with assms st show ?thesis by (auto simp: b6b_strm_peeksz_def)
  next
    case (Some f)
    with assms(1) st obtain len where "f (st_priv st) s = Some (len, s')" by (auto simp: b6b_strm_peeksz_def bind_Some)
    from keeps_ioD [OF peeksz_law [OF Some] this assms(2)] show ?thesis .
  qed
qed

lemma op_ok:
  "op_read (T k) = Some f2 \<Longrightarrow> f2 p len eof again s = Some (rr, s') \<Longrightarrow> iok C R P t (io_priv s) (io_i s) \<Longrightarrow> iok C R P t (io_priv s') (io_i s')"
  "op_write (T k) = Some f3 \<Longrightarrow> f3 p buf s = Some (m, s') \<Longrightarrow> iok C R P t (io_priv s) (io_i s) \<Longrightarrow> iok C R P t (io_priv s') (io_i s')"
  by (erule keeps_ioD [OF read_law]; assumption) (erule keeps_ioD [OF write_law]; assumption)

lemma set_flags_ok:
  "set_flags n fl s = Some s' \<Longrightarrow> iok C R P t (io_priv s) (io_i s) \<Longrightarrow> iok C R P t (io_priv s') (io_i s')"
  by (auto simp: set_flags_def bind_Some)

lemma read_loop_ok:
  "iok C R P t (io_priv s) (io_i s) \<Longrightarrow> iop C R P t (read_loop T n est want len buf s)"
proof (induction "nat want" arbitrary: est want len buf s rule: less_induct)
  case less
  show ?case
    by (subst read_loop.simps, unfold Let_def)
      (rule iop_rules less.hyps | assumption | rule less.prems | erule (1) op_ok | erule set_flags_ok peeksz_ok | linarith)+
qed

lemma strm_read_keeps: "iok C R P t (io_priv s) (io_i s) \<Longrightarrow> iop C R P t (b6b_strm_read T n want s)"
  unfolding b6b_strm_read_def
  by (rule iop_rules | assumption | erule peeksz_ok iok_returns | erule iopD [OF read_loop_ok, rotated] | simp only: io_sel)+

lemma write_loop_ok:
  "iok C R P t (io_priv s) (io_i s) \<Longrightarrow> iop C R P t (write_loop T n buf out s)"
proof (induction "length buf" arbitrary: out buf s rule: less_induct)
  case less
  show ?case
    by (subst write_loop.simps)
      (rule iop_rules less.hyps | assumption | rule less.prems | erule (1) op_ok | simp; fail)+
qed

lemma strm_write_keeps: "iok C R P t (io_priv s) (io_i s) \<Longrightarrow> iop C R P t (b6b_strm_write T n buf s)"
  unfolding b6b_strm_write_def
  by (rule iop_rules | assumption | erule iok_returns | erule iopD [OF write_loop_ok, rotated] | simp only: io_sel)+

text \<open>The list of the connections is private until it is returned.\<close>

lemma accept_loop_ok:
  assumes run: "accept_loop f p l s = Some (r, s')" and f: "accepts_new (f p)" and ok: "iok C R P t (io_priv s) (io_i s)"
  shows "iok C R P t (io_priv s') (io_i s')"
proof -
  have "accepts_new (f p) \<longrightarrow> iok C R P t (io_priv s) (io_i s) \<longrightarrow> iok C R P t (io_priv (snd y)) (io_i (snd y))"
    if "accept_loop f p l s = Some y" for y
  proof (rule accept_loop.raw_induct [where P = "\<lambda>f p l s y. accepts_new (f p) \<longrightarrow> iok C R P t (io_priv s) (io_i s)
      \<longrightarrow> iok C R P t (io_priv (snd y)) (io_i (snd y))", OF _ that], intro impI)
    fix loop f p l s y
    assume IH: "\<And>f p l s y. loop f p l s = Some y \<Longrightarrow>
        accepts_new (f p) \<longrightarrow> iok C R P t (io_priv s) (io_i s) \<longrightarrow> iok C R P t (io_priv (snd y)) (io_i (snd y))"
      and body: "Option.bind (f p s) (\<lambda>(r, s). case r of
          None \<Rightarrow> Some (False, s)
        | Some None \<Rightarrow> Some (True, s)
        | Some (Some ob) \<Rightarrow> do {
            I \<leftarrow> upd_heap (b6b_list_add l ob) (io_i s);
            I \<leftarrow> upd_heap (b6b_unref ob) I;
            loop f p l (s\<lparr>io_i := I\<rparr>)
          }) = Some y"
      and f: "accepts_new (f p)" and ok: "iok C R P t (io_priv s) (io_i s)"
    obtain x s1 where x: "f p s = Some (x, s1)" using body by (auto simp: bind_Some)
    then have "map_option (\<lambda>(r, s). (Option.bind r id, s)) (f p s) = Some (Option.bind x id, s1)" by simp
    note g = gives_newD [OF f [unfolded accepts_new_def] this ok]
    show "iok C R P t (io_priv (snd y)) (io_i (snd y))"
    proof (cases "Option.bind x id")
      case None
      then have "x = None \<or> x = Some None" by (cases x) auto
      with body x g(1) [OF None] show ?thesis by auto
    next
      case (Some a)
      then have "x = Some (Some a)" by (cases x) auto
      with body x obtain I1 I2 where r: "upd_heap (b6b_list_add l a) (io_i s1) = Some I1" "upd_heap (b6b_unref a) I1 = Some I2"
        "loop f p l (s1\<lparr>io_i := I2\<rparr>) = Some y" by (auto simp: bind_Some)
      have "iok C R P t (io_priv s1) I2"
        by (rule iok_unref [OF r(2) iok_list_add [OF r(1) g(2) [OF Some] g(3) [OF Some]] g(3) [OF Some]])
      with IH [OF r(3)] f show ?thesis by simp
    qed
  qed
  from this [OF run] f ok show ?thesis by simp
qed

lemma strm_accept_keeps: 
  assumes ok: "iok C R P t (io_priv s) (io_i s)"
  shows "iop C R P t (b6b_strm_accept T n s)"
  unfolding b6b_strm_accept_def
proof ((rule iop_rules | rule ok)+)
  fix st f l I b s1 and ok1 :: bool
  assume op: "op_accept (T (st_ops st)) = Some f" and new: "new_heap b6b_list_new (io_i s) = (l, I)"
    and run: "accept_loop f (st_priv st) l (s\<lparr>io_i := I\<rparr>) = Some (ok1, s1)"
  have l: "npriv C P l" by (rule iok_new_npriv(4) [OF new ok])
  then have "l \<notin> P" by (simp add: npriv_def)
  have s1: "iok C (add_mset l R) (insert l P) t (io_priv s1) (io_i s1)"
    by (rule accept_loop_ok [OF run accept_law [OF op]]) (simp add: iok_list_private [OF new ok])
  show "iok C R P t (io_priv (s1\<lparr>io_i := J\<rparr>)) (io_i (s1\<lparr>io_i := J\<rparr>))" if "upd_heap (b6b_destroy l) (io_i s1) = Some J" for J
    using iok_destroy [OF that s1 \<open>l \<notin> P\<close>] by simp
  show "iop C R P t (on_interp (b6b_return l) s1)"
    by (rule iop_interp, rule iok_return [OF _ iok_public [OF s1] l]) auto
qed

lemma strm_peer_keeps:
  assumes ok: "iok C R P t (io_priv s) (io_i s)"
  shows "iop C R P t (b6b_strm_peer T n s)"
  unfolding b6b_strm_peer_def
proof ((rule iop_rules | rule ok)+)
  fix st f r s1
  assume op: "op_peer (T (st_ops st)) = Some f" and run: "f (st_priv st) s = Some (r, s1)"
  note g = gives_newD [OF peer_law [OF op] run ok]
  show "iok C R P t (io_priv s1) (io_i s1)" if "r = None" by (rule g(1) [OF that])
  show "iop C R P t (on_interp (b6b_return a) s1)" if "r = Some a" for a
    by (rule iop_interp, rule iok_return [OF _ g(2,3) [OF that]])
qed

lemma strm_fd_keeps:
  assumes ok: "iok C R P t (io_priv s) (io_i s)" and a: "npriv C P a"
  shows "iop C R P t (b6b_strm_fd T n a s)"
  unfolding b6b_strm_fd_def
proof ((rule iop_rules | rule ok)+)
  fix fd :: int and I fdo I2 r J
  assume rf: "upd_heap (b6b_ref a) (io_i s) = Some I"
    and new: "new_heap (b6b_new (\<lambda>ob. ob\<lparr>ob_i := Some (word_of_int fd), ob_priv := Priv_unref a\<rparr>)) I = (fdo, I2)"
    and ret: "b6b_return fdo (io_i (s\<lparr>io_i := I2\<rparr>)) = Some (r, J)"
  note h = iok_holder [OF new iok_ref [OF rf ok a] a]
  show "iok C R P t (io_priv (s\<lparr>io_i := I2\<rparr>)) J"
    using iok_return [OF ret [unfolded io_sel] h] by simp
qed

lemma strm_proc_keeps:
  assumes "iok C R P t (io_priv s) (io_i s)"
  shows "iop C R P t (b6b_strm_proc T args s)"
  unfolding b6b_strm_proc_def
  by (rule iop_rules strm_read_keeps strm_write_keeps strm_accept_keeps strm_peer_keeps strm_fd_keeps assms
    | assumption | erule iokeeps close_ok | simp only: io_sel b6b_strm_writeln_def np_args_simps)+

end

end
