(* ===== verification/Io_Procs.thy ===== *)
theory Io_Procs
  imports Io_Inv
begin

text \<open>
  The tables of operations and the procedures of the extensions keep the invariant of theory
  Io_Inv: they are what the locale \<open>stream_tables\<close> asks for, for every operating system and every
  \<open>offloader\<close>.
\<close>

section \<open>Descriptors\<close>

lemma fd_on_read_ok: "iok C R P t (io_priv s) (io_i s) \<Longrightarrow> iop C R P t (b6b_fd_on_read OS out eof again s)"
  unfolding b6b_fd_on_read_def by (rule iop_rules | assumption | erule iokeeps)+

lemma fd_on_write_ok: "iok C R P t (io_priv s) (io_i s) \<Longrightarrow> iop C R P t (b6b_fd_on_write OS n s)"
  unfolding b6b_fd_on_write_def by (rule iop_rules | assumption | erule iokeeps)+

lemma fd_ops_ok:
  assumes ok: "iok C R P t (io_priv s) (io_i s)"
  shows "iop C R P t (b6b_fd_peeksz OS p s)" and "iop C R P t (b6b_fd_read OS p len eof again s)"
    and "iop C R P t (b6b_fd_recv OS p len eof again s)" and "iop C R P t (b6b_fd_write OS p buf s)"
    and "iop C R P t (b6b_fd_send OS p buf s)" and "iop C R P t (b6b_fd_peeksz_u64 p s)"
  unfolding b6b_fd_peeksz_def b6b_fd_read_def b6b_fd_recv_def b6b_fd_write_def b6b_fd_send_def b6b_fd_peeksz_u64_def
  by (rule iop_rules fd_on_read_ok fd_on_write_ok | (simp only: io_sel)?, rule ok)+

lemma fd_u64_ok:
  assumes ok: "iok C R P t (io_priv s) (io_i s)"
  shows "iop C R P t (b6b_fd_read_u64 OS p len eof again s)" and "iop C R P t (b6b_fd_write_u64 OS p buf s)"
  unfolding b6b_fd_read_u64_def b6b_fd_write_u64_def
  by (rule iop_rules | rule ok | erule iopD [OF fd_ops_ok(2), rotated] iopD [OF fd_ops_ok(4), rotated])+

lemma sh_refs_free:
  assumes "free_priv p s = Some s'"
  shows "io_i s' = io_i s" and "sh_refs (io_priv s') + pd_refs (get_priv p s) = sh_refs (io_priv s)"
  using assms sh_refs_update [of "unat p" "io_priv s" None]
  by (auto simp: free_priv_def get_priv_def bind_Some split: if_splits)

lemma free_priv_ok:
  "free_priv p s = Some s' \<Longrightarrow> pd_refs (get_priv p s) = {#} \<Longrightarrow> iok C R P t (io_priv s) (io_i s) \<Longrightarrow> iok C R P t (io_priv s') (io_i s')"
  using sh_refs_free [of p s s'] by (simp add: iok_def)

lemma get_kind [simp]:
  "get_stdio p s = Some f \<Longrightarrow> pd_refs (get_priv p s) = {#}" "get_socket p s = Some so \<Longrightarrow> pd_refs (get_priv p s) = {#}"
  "get_signal p s = Some sg \<Longrightarrow> pd_refs (get_priv p s) = {#}" "get_sh p s = Some sh \<Longrightarrow> pd_refs (get_priv p s) = {#sh_pid sh#}"
  by (auto simp: get_stdio_def get_socket_def get_signal_def get_sh_def split: option.splits pdata.splits)

lemma get_priv_sel [simp]:
  "get_priv p (upd_world f s) = get_priv p s" "get_priv p (s\<lparr>io_w := w\<rparr>) = get_priv p s" "get_priv p (s\<lparr>io_i := I\<rparr>) = get_priv p s"
  by (simp_all add: get_priv_def)

lemma set_priv_ok:
  assumes "pd_refs (get_priv p s) = {#}" and "get_priv p s \<noteq> None" and "pd_refs (Some d) = {#}" and "iok C R P t (io_priv s) (io_i s)"
  shows "iok C R P t (io_priv (set_priv p d s)) (io_i (set_priv p d s))"
proof -
  have "sh_refs ((io_priv s)[unat p := Some d]) = sh_refs (io_priv s)"
    using assms(1-3) by (intro sh_refs_same) (auto simp: get_priv_def split: if_splits)
  with assms(4) show ?thesis by (simp add: set_priv_def iok_def)
qed

text \<open>A table whose operations keep the invariant.\<close>

definition table_ok :: "('k, 'w) io strm_ops \<Rightarrow> bool" where
  "table_ok ops \<longleftrightarrow>
     pred_option (\<lambda>f. \<forall>p. keeps_io (f p)) (op_peeksz ops)
     \<and> pred_option (\<lambda>f. \<forall>p len eof again. keeps_io (f p len eof again)) (op_read ops)
     \<and> pred_option (\<lambda>f. \<forall>p buf. keeps_io (f p buf)) (op_write ops)
     \<and> pred_option (\<lambda>f. \<forall>p. keeps_io (\<lambda>s. map_option (Pair ()) (f p s))) (op_close ops)
     \<and> pred_option (\<lambda>f. \<forall>p. gives_new (f p)) (op_peer ops)
     \<and> pred_option (\<lambda>f. \<forall>p. accepts_new (f p)) (op_accept ops)"

lemma table_okD:
  assumes "table_ok ops"
  shows "op_peeksz ops = Some f1 \<Longrightarrow> keeps_io (f1 p)" and "op_read ops = Some f2 \<Longrightarrow> keeps_io (f2 p len eof again)"
    and "op_write ops = Some f3 \<Longrightarrow> keeps_io (f3 p buf)" and "op_close ops = Some f4 \<Longrightarrow> keeps_io (\<lambda>s. map_option (Pair ()) (f4 p s))"
    and "op_peer ops = Some f5 \<Longrightarrow> gives_new (f5 p)" and "op_accept ops = Some f6 \<Longrightarrow> accepts_new (f6 p)"
  using assms by (auto simp: table_ok_def)

lemma tables_ok: "(\<And>k. table_ok (T k)) \<Longrightarrow> stream_tables T"
  by unfold_locales (rule table_okD; assumption)+

lemma keeps_closeI:
  "(\<And>C R P t s s'. f s = Some s' \<Longrightarrow> iok C R P t (io_priv s) (io_i s) \<Longrightarrow> iok C R P t (io_priv s') (io_i s'))
    \<Longrightarrow> keeps_io (\<lambda>s. map_option (Pair ()) (f s))"
  unfolding keeps_io_def by blast

lemma gives_newI:
  assumes "\<And>C R P t s s'. f s = Some (None, s') \<Longrightarrow> iok C R P t (io_priv s) (io_i s) \<Longrightarrow> iok C R P t (io_priv s') (io_i s')"
    and "\<And>C R P t s a s'. f s = Some (Some a, s') \<Longrightarrow> iok C R P t (io_priv s) (io_i s) \<Longrightarrow>
      iok C (add_mset a R) P t (io_priv s') (io_i s') \<and> npriv C P a"
  shows "gives_new f"
  unfolding gives_new_def using assms by (auto split: option.split)

section \<open>Tables of descriptors\<close>

lemma fd_close_ok: "keeps_io (\<lambda>s. map_option (Pair ()) (b6b_fd_close OS p s))"
  by (rule keeps_closeI) (auto simp: b6b_fd_close_def)

lemma fd_keeps:
  "keeps_io (b6b_fd_peeksz_u64 p)" "keeps_io (b6b_fd_read_u64 OS p len eof again)" "keeps_io (b6b_fd_write_u64 OS p buf)"
  by (rule keeps_ioI, erule fd_ops_ok fd_u64_ok)+

lemma fd_table_ok: "table_ok (b6b_sem_ops OS)" "table_ok (b6b_timer_ops OS)"
  by (simp_all add: table_ok_def b6b_sem_ops_def b6b_timer_ops_def no_ops_def fd_close_ok fd_keeps)

section \<open>Sockets\<close>

lemma socket_ops_ok:
  assumes ok: "iok C R P t (io_priv s) (io_i s)"
  shows "iop C R P t (b6b_socket_peeksz OS p s)" and "iop C R P t (b6b_socket_read OS p len eof again s)"
    and "iop C R P t (b6b_socket_write OS p buf s)"
  unfolding b6b_socket_peeksz_def b6b_socket_read_def b6b_socket_write_def
  by (rule iop_rules fd_ops_ok | rule ok)+

lemma socket_readfrom_ok:
  assumes ok: "iok C R P t (io_priv s) (io_i s)"
  shows "iop C R P t (b6b_socket_readfrom OS p len eof again s)"
  unfolding b6b_socket_readfrom_def
proof ((rule iop_bind iop_world iop_sum iop_prod fd_on_read_ok | simp only: io_sel, rule ok)+)
  fix so w and bs :: string and peer
  assume so: "get_socket p s = Some so"
  then have "get_priv p s \<noteq> None" by (auto simp: get_socket_def split: option.splits)
  then show "iok C R P t (io_priv (set_priv p (P_socket (so\<lparr>so_peer := peer\<rparr>)) (s\<lparr>io_w := w\<rparr>)))
      (io_i (set_priv p (P_socket (so\<lparr>so_peer := peer\<rparr>)) (s\<lparr>io_w := w\<rparr>)))"
    using so ok by (intro set_priv_ok) simp_all
qed

lemma stringify_ok:
  assumes "b6b_socket_stringify_address OS sa I = (r, I')" and "iok C R P t q I"
  shows "r = None \<Longrightarrow> iok C R P t q I'" and "r = Some a \<Longrightarrow> iok C (add_mset a R) P t q I'" and "r = Some a \<Longrightarrow> npriv C P a"
  using assms by (auto simp: b6b_socket_stringify_address_def split: option.splits prod.splits sockaddr.splits intro: iokeeps)

lemma inet_peer_ok: "gives_new (b6b_socket_inet_peer OS p)"
  unfolding gives_new_def
proof (intro allI impI)
  fix C R P t s res s'
  assume run: "b6b_socket_inet_peer OS p s = Some (res, s')" and ok: "iok C R P t (io_priv s) (io_i s)"
  obtain so where so: "get_socket p s = Some so" using run by (auto simp: b6b_socket_inet_peer_def bind_Some)
  obtain r I1 where str: "b6b_socket_stringify_address OS (so_peer so) (io_i s) = (r, I1)" by fastforce
  show "case res of None \<Rightarrow> iok C R P t (io_priv s') (io_i s')
    | Some l \<Rightarrow> iok C (add_mset l R) P t (io_priv s') (io_i s') \<and> npriv C P l"
  proof (cases r)
    case None
    with run so str stringify_ok(1) [OF str ok] show ?thesis by (auto simp: b6b_socket_inet_peer_def)
  next
    case (Some a)
    note a = stringify_ok(2,3) [OF str ok Some]
    obtain l I2 where l: "new_heap b6b_list_new I1 = (l, I2)" by fastforce
    with run so str Some obtain I3 I4 where r: "upd_heap (b6b_list_add l a) I2 = Some I3" "upd_heap (b6b_unref a) I3 = Some I4"
      by (auto simp: b6b_socket_inet_peer_def bind_Some)
    obtain n I5 where n: "new_heap (b6b_int_new (word_of_int (uint (sockaddr_port (so_peer so))))) I4 = (n, I5)" by fastforce
    with run so str Some l r obtain I6 I7 where q: "upd_heap (b6b_list_add l n) I5 = Some I6" "upd_heap (b6b_unref n) I6 = Some I7"
      "s' = s\<lparr>io_i := I7\<rparr>" "res = Some l" by (auto simp: b6b_socket_inet_peer_def bind_Some)
    have "iok C (add_mset l (add_mset a R)) P t (io_priv s) I2" and np: "npriv C P l"
      by (rule iok_new(4) [OF l a(1)], rule iok_new_npriv(4) [OF l a(1)])
    then have "iok C (add_mset a (add_mset l R)) P t (io_priv s) I2" by (simp add: add_mset_commute)
    from iok_unref [OF r(2) iok_list_add [OF r(1) this a(2)] a(2)] have I4: "iok C (add_mset l R) P t (io_priv s) I4" .
    note m = iok_new(3) [OF n I4] iok_new_npriv(3) [OF n I4]
    from iok_unref [OF q(2) iok_list_add [OF q(1) m] m(2)] np show ?thesis by (simp add: q(3,4))
  qed
qed

lemma null_npriv: "iok C R P t q I \<Longrightarrow> npriv C P (i_null I)"
  unfolding iok_def by (blast intro: st_ok_root roots)


lemma file_peer_ok: "gives_new (b6b_socket_file_peer p)"
  unfolding gives_new_def
proof (intro allI impI)
  fix C R P t s res s'
  assume run: "b6b_socket_file_peer p s = Some (res, s')" and ok: "iok C R P t (io_priv s) (io_i s)"
  obtain so where so: "get_socket p s = Some so" using run by (auto simp: b6b_socket_file_peer_def bind_Some)
  show "case res of None \<Rightarrow> iok C R P t (io_priv s') (io_i s')
    | Some l \<Rightarrow> iok C (add_mset l R) P t (io_priv s') (io_i s') \<and> npriv C P l"
  proof (cases "\<exists>path. so_peer so = Sa_un path")
    case True
    then obtain path where path: "so_peer so = Sa_un path" by blast
    obtain a I where a: "new_heap (b6b_str_copy (c_str path)) (io_i s) = (a, I)" by fastforce
    with run so path iok_new(2) [OF a ok] iok_new_npriv(2) [OF a ok] show ?thesis by (auto simp: b6b_socket_file_peer_def)
  next
    case False
    with run so obtain I where r: "upd_heap (b6b_ref (i_null (io_i s))) (io_i s) = Some I" "res = Some (i_null (io_i s))" "s' = s\<lparr>io_i := I\<rparr>"
      by (cases "so_peer so") (auto simp: b6b_socket_file_peer_def bind_Some)
    with iok_ref [OF r(1) ok null_npriv [OF ok]] null_npriv [OF ok] show ?thesis by simp
  qed
qed

lemma socket_close_ok: "keeps_io (\<lambda>s. map_option (Pair ()) (b6b_socket_close OS p s))"
  by (rule keeps_closeI) (auto simp: b6b_socket_close_def bind_Some dest!: free_priv_ok)

lemma socket_close_unlink_ok: "keeps_io (\<lambda>s. map_option (Pair ()) (b6b_socket_close_unlink OS p s))"
proof (rule keeps_closeI)
  fix C R P t s s'
  assume run: "b6b_socket_close_unlink OS p s = Some s'" and ok: "iok C R P t (io_priv s) (io_i s)"
  obtain so where so: "get_socket p s = Some so" using run by (auto simp: b6b_socket_close_unlink_def bind_Some)
  show "iok C R P t (io_priv s') (io_i s')"
    using run so ok by (cases "so_addr so") (auto simp: b6b_socket_close_unlink_def dest!: free_priv_ok)
qed

lemma iok_new_priv [simp]:
  "pd_refs (Some d) = {#} \<Longrightarrow> iok C R P t (q @ [Some d]) I = iok C R P t q I"
  by (simp add: iok_def)

lemma socket_new_ok: "gives_new (b6b_socket_new OS fd sa peer type k)"
  unfolding gives_new_def
proof (intro allI impI)
  fix C R P t s res s'
  assume run: "b6b_socket_new OS fd sa peer type k s = Some (res, s')" and ok: "iok C R P t (io_priv s) (io_i s)"
  let ?bad = "case peer of None \<Rightarrow> False | Some (_, plen) \<Rightarrow> plen > 128"
  let ?so = "\<lparr>so_peer = (case peer of None \<Rightarrow> Sa_unspec | Some (p, _) \<Rightarrow> p), so_addr = sa, so_fd = fd\<rparr>"
  show "case res of None \<Rightarrow> iok C R P t (io_priv s') (io_i s')
    | Some l \<Rightarrow> iok C (add_mset l R) P t (io_priv s') (io_i s') \<and> npriv C P l"
  proof (cases ?bad)
    case True
    with run ok show ?thesis by (auto simp: b6b_socket_new_def)
  next
    case False
    let ?s = "s\<lparr>io_priv := io_priv s @ [Some (P_socket ?so)]\<rparr>"
    from False run obtain a where a: "b6b_strm_fmt k (word_of_nat (length (io_priv s))) type ?s = Some (a, s')" "res = Some a"
      by (auto simp: b6b_socket_new_def new_priv_def bind_Some)
    from iok_strm_fmt_public [OF a(1), of C R P t] ok a(2) show ?thesis by simp
  qed
qed

lemma gives_new_bind:
  assumes "\<And>C R P t s. iok C R P t (io_priv s) (io_i s) \<Longrightarrow> \<forall>r s'. f s = Some (r, s') \<longrightarrow>
    (case r of None \<Rightarrow> iok C R P t (io_priv s') (io_i s')
    | Some a \<Rightarrow> iok C (add_mset a R) P t (io_priv s') (io_i s') \<and> npriv C P a)"
  shows "gives_new f"
  unfolding gives_new_def using assms by blast

lemma stream_accept_ok: "accepts_new (b6b_socket_stream_accept OS k type p)"
  unfolding accepts_new_def
proof (rule gives_new_bind, intro allI impI)
  fix C R P t s res s'
  assume ok: "iok C R P t (io_priv s) (io_i s)"
    and run': "map_option (\<lambda>(r, s). (Option.bind r id, s)) (b6b_socket_stream_accept OS k type p s) = Some (res, s')"
  from run' obtain r where run: "b6b_socket_stream_accept OS k type p s = Some (r, s')" "res = Option.bind r id" by auto
  obtain so where so: "get_socket p s = Some so" using run(1) by (auto simp: b6b_socket_stream_accept_def bind_Some)
  obtain x w where x: "os_accept4 OS (so_fd so) (io_w s) = (x, w)" by fastforce
  show "case res of None \<Rightarrow> iok C R P t (io_priv s') (io_i s')
    | Some l \<Rightarrow> iok C (add_mset l R) P t (io_priv s') (io_i s') \<and> npriv C P l"
  proof (cases x)
    case (Inl err)
    have "res = None \<and> iok C R P t (io_priv s') (io_i s')"
      using run so x Inl ok
      by (auto simp: b6b_socket_stream_accept_def on_world_def bind_Some split: if_splits dest: iok_strerror)
    then show ?thesis by simp
  next
    case (Inr y)
    obtain fd peer plen where y: "y = (fd, peer, plen)" by (cases y)
    with run so x Inr have "b6b_socket_new OS fd Sa_unspec (Some (peer, plen)) type k (s\<lparr>io_w := w\<rparr>) = Some (res, s')"
      by (auto simp: b6b_socket_stream_accept_def on_world_def bind_Some split: option.splits)
    from gives_newD [OF socket_new_ok this, of C R P t] ok show ?thesis by (auto split: option.split)
  qed
qed

lemma socket_keeps:
  "keeps_io (b6b_socket_peeksz OS p)" "keeps_io (b6b_socket_read OS p len eof again)" "keeps_io (b6b_socket_write OS p buf)"
  "keeps_io (b6b_socket_readfrom OS p len eof again)"
  by (rule keeps_ioI, erule socket_ops_ok socket_readfrom_ok)+

lemma sock_table_ok: "table_ok (sock_ops OS kof t)"
  by (cases t)
    (simp_all add: table_ok_def sock_ops_def no_ops_def Let_def socket_keeps socket_close_ok socket_close_unlink_ok inet_peer_ok file_peer_ok
      b6b_socket_inet_accept_def b6b_socket_un_accept_def stream_accept_ok)


section \<open>Signals and commands\<close>

lemma signal_ops_ok:
  assumes ok: "iok C R P t (io_priv s) (io_i s)"
  shows "iop C R P t (b6b_signal_peeksz p s)" and "iop C R P t (b6b_signal_read OS p len eof again s)"
  unfolding b6b_signal_peeksz_def b6b_signal_read_def
  by (rule iop_rules | rule ok | erule iopD [OF fd_ops_ok(2), rotated])+

lemma signal_keeps: "keeps_io (b6b_signal_peeksz p)" "keeps_io (b6b_signal_read OS p len eof again)"
  by (rule keeps_ioI, erule signal_ops_ok)+

lemma signal_close_ok: "keeps_io (\<lambda>s. map_option (Pair ()) (b6b_signal_close OS p s))"
  by (rule keeps_closeI) (auto simp: b6b_signal_close_def bind_Some dest!: free_priv_ok)

lemma signal_table_ok: "table_ok (b6b_signal_ops OS)"
  by (simp add: table_ok_def b6b_signal_ops_def no_ops_def signal_keeps signal_close_ok)

lemma sh_ops_ok:
  assumes ok: "iok C R P t (io_priv s) (io_i s)"
  shows "iop C R P t (b6b_sh_peeksz OS p s)" and "iop C R P t (b6b_sh_read OS p len eof again s)" and "iop C R P t (b6b_sh_write OS p buf s)"
  unfolding b6b_sh_peeksz_def b6b_sh_read_def b6b_sh_write_def
  by (rule iop_rules fd_ops_ok | rule ok)+

text \<open>Closing gives up the reference to the object of the process.\<close>

lemma sh_close_ok: "keeps_io (\<lambda>s. map_option (Pair ()) (b6b_sh_close OS p s))"
proof (rule keeps_closeI)
  fix C R P t s s'
  assume run: "b6b_sh_close OS p s = Some s'" and ok: "iok C R P t (io_priv s) (io_i s)"
  then obtain sh I where sh: "get_sh p s = Some sh" "upd_heap (b6b_unref (sh_pid sh)) (io_i s) = Some I"
    "free_priv p (upd_world (os_close OS (sh_fd sh)) s\<lparr>io_i := I\<rparr>) = Some s'"
    by (auto simp: b6b_sh_close_def bind_Some Let_def)
  note f = sh_refs_free [OF sh(3)]
  let ?a = "sh_pid sh"
  have refs: "R + sh_refs (io_priv s) = add_mset ?a (R + sh_refs (io_priv s'))" using f(2) sh(1) by simp
  from ok have st: "st_ok C (add_mset ?a (R + sh_refs (io_priv s'))) P t (io_i s)" and P: "P \<subseteq> set_mset R"
    by (simp_all add: iok_def refs)
  have "?a \<notin> P"
  proof
    assume a: "?a \<in> P"
    with P have "?a \<in># R" by blast
    then have "count (c_refs C + add_mset ?a (R + sh_refs (io_priv s')) + iroots (io_i s)) ?a \<noteq> 1" by simp
    with hinv_private [OF st_ok_hinv [OF st], of ?a] a show False by blast
  qed
  with own_not_ctx_priv [OF st, of ?a] have "npriv C P ?a" by (simp add: npriv_def)
  from unref_ok_st [OF sh(2) st this] P f(1) show "iok C R P t (io_priv s') (io_i s')" by (simp add: iok_def)
qed

lemma sh_keeps:
  "keeps_io (b6b_sh_peeksz OS p)" "keeps_io (b6b_sh_read OS p len eof again)" "keeps_io (b6b_sh_write OS p buf)"
  by (rule keeps_ioI, erule sh_ops_ok)+

lemma sh_table_ok: "table_ok (b6b_sh_in_ops OS)" "table_ok (b6b_sh_out_ops OS)"
  by (simp_all add: table_ok_def b6b_sh_in_ops_def b6b_sh_out_ops_def no_ops_def sh_close_ok sh_keeps)

section \<open>What blocks\<close>

text \<open>
  The function that runs a blocking call keeps the invariant, and leaves the private data of the
  streams as it is.
\<close>

locale offloader =
  fixes offl :: "(tab, 'w) offload"
  assumes offl_law: "keeps_io (offl f)" and offl_priv: "offl f s = Some (r, s') \<Longrightarrow> io_priv s' = io_priv s"
begin

lemma offl_ok: "offl f s = Some (r, s') \<Longrightarrow> iok C R P t (io_priv s) (io_i s) \<Longrightarrow> iok C R P t (io_priv s') (io_i s')"
  by (rule keeps_ioD [OF offl_law])

lemma stdio_peeksz_ok: "iok C R P t (io_priv s) (io_i s) \<Longrightarrow> iop C R P t (b6b_stdio_peeksz OS offl p s)"
  unfolding b6b_stdio_peeksz_def Let_def by (rule iop_rules | assumption | erule offl_ok iokeeps)+

lemma stdio_read_ok: "iok C R P t (io_priv s) (io_i s) \<Longrightarrow> iop C R P t (b6b_stdio_read OS offl p len eof again s)"
  unfolding b6b_stdio_read_def Let_def by (rule iop_rules | assumption | erule offl_ok iokeeps | simp only: io_sel)+

lemma stdio_write_loop_ok: "iok C R P t (io_priv s) (io_i s) \<Longrightarrow> iop C R P t (stdio_write_loop OS offl p buf tot s)"
proof (induction "length buf" arbitrary: buf tot s rule: less_induct)
  case less
  show ?case
    by (subst stdio_write_loop.simps)
      (rule iop_rules less.hyps | assumption | rule less.prems | erule offl_ok iokeeps | simp only: io_sel | simp; fail)+
qed

lemma stdio_close_ok: "keeps_io (\<lambda>s. map_option (Pair ()) (b6b_stdio_close OS offl p s))"
proof (rule keeps_closeI)
  fix C R P t s s'
  assume run: "b6b_stdio_close OS offl p s = Some s'" and ok: "iok C R P t (io_priv s) (io_i s)"
  then obtain f r s1 where f: "get_stdio p s = Some f" "offl (b6b_stdio_do_fclose OS (fs_fp f)) s = Some (r, s1)" "free_priv p s1 = Some s'"
    by (auto simp: b6b_stdio_close_def bind_Some)
  have "get_priv p s1 = get_priv p s" using offl_priv [OF f(2)] by (simp add: get_priv_def)
  with f(1) have "pd_refs (get_priv p s1) = {#}" by simp
  from free_priv_ok [OF f(3) this offl_ok [OF f(2) ok]] show "iok C R P t (io_priv s') (io_i s')" .
qed

lemma stdio_free_ok: "keeps_io (\<lambda>s. map_option (Pair ()) (stdio_free p s))"
  by (rule keeps_closeI) (auto simp: stdio_free_def bind_Some dest!: free_priv_ok)

lemma stdio_keeps:
  "keeps_io (b6b_stdio_peeksz OS offl p)" "keeps_io (b6b_stdio_read OS offl p len eof again)" "keeps_io (b6b_stdio_write OS offl p buf)"
  unfolding b6b_stdio_write_def by (rule keeps_ioI, erule stdio_peeksz_ok stdio_read_ok stdio_write_loop_ok)+

lemma vtable_ok: "table_ok (vtable OS offl k)"
proof -
  have ops: "table_ok (b6b_stdio_ro_pipe_ops OS offl)" "table_ok (b6b_stdio_wo_pipe_ops OS offl)" "table_ok (b6b_ro_file_ops OS offl)"
    "table_ok (b6b_wo_file_ops OS offl)" "table_ok (b6b_rw_file_ops OS offl)"
    by (simp_all add: table_ok_def b6b_stdio_ro_pipe_ops_def b6b_stdio_wo_pipe_ops_def b6b_ro_file_ops_def b6b_wo_file_ops_def
        b6b_rw_file_ops_def no_ops_def stdio_keeps stdio_close_ok stdio_free_ok)
  show ?thesis
    unfolding vtable_def
    by (auto split: tab.split file_kind.split intro: ops fd_table_ok signal_table_ok sh_table_ok sock_table_ok)
qed

end

sublocale offloader \<subseteq> tabs: stream_tables "vtable OS offl" for OS
  by (rule tables_ok) (rule vtable_ok)


section \<open>Procedures that make objects\<close>

definition ign :: "ctx \<Rightarrow> addr multiset \<Rightarrow> addr set \<Rightarrow> tst \<Rightarrow> (addr option \<times> ('k, 'w) io) option \<Rightarrow> bool" where
  "ign C R P t m \<longleftrightarrow> (\<forall>r s'. m = Some (r, s') \<longrightarrow> (case r of None \<Rightarrow> iok C R P t (io_priv s') (io_i s')
      | Some a \<Rightarrow> iok C (add_mset a R) P t (io_priv s') (io_i s') \<and> npriv C P a))"

lemma gives_new_ign: "gives_new f \<Longrightarrow> iok C R P t (io_priv s) (io_i s) \<Longrightarrow> ign C R P t (f s)"
  unfolding gives_new_def ign_def by blast

lemma ign_rules:
  "iok C R P t (io_priv s) (io_i s) \<Longrightarrow> ign C R P t (Some (None, s))"
  "(\<And>x w. ign C R P t (g x (s\<lparr>io_w := w\<rparr>))) \<Longrightarrow> ign C R P t (case on_world f s of (x, s) \<Rightarrow> g x s)"
  "(c \<Longrightarrow> ign C R P t a) \<Longrightarrow> (\<not> c \<Longrightarrow> ign C R P t b) \<Longrightarrow> ign C R P t (if c then a else b)"
  by (simp_all add: ign_def on_world_def split: prod.split)

lemma ign_sum:
  "(\<And>a. x = Inl a \<Longrightarrow> ign C R P t (f a)) \<Longrightarrow> (\<And>b. x = Inr b \<Longrightarrow> ign C R P t (g b)) \<Longrightarrow>
   ign C R P t (case x of Inl a \<Rightarrow> f a | Inr b \<Rightarrow> g b)"
  by (cases x) simp_all

lemma ign_option:
  "(x = None \<Longrightarrow> ign C R P t a) \<Longrightarrow> (\<And>b. x = Some b \<Longrightarrow> ign C R P t (g b)) \<Longrightarrow> ign C R P t (case x of None \<Rightarrow> a | Some b \<Rightarrow> g b)"
  by (cases x) simp_all

lemma iop_return_new:
  assumes "ign C R P t m"
  shows "iop C R P t (Option.bind m (\<lambda>(r, s). return_new r s))"
proof (rule iop_bind2)
  fix r s assume m: "m = Some (r, s)"
  show "iop C R P t (return_new r s)"
  proof (cases r)
    case None
    with assms m show ?thesis by (simp add: ign_def return_new_def iop_Some)
  next
    case (Some a)
    with assms m have "iok C (add_mset a R) P t (io_priv s) (io_i s)" "npriv C P a" by (auto simp: ign_def)
    then show ?thesis unfolding return_new_def Some by (auto intro: iop_interp iok_return)
  qed
qed

lemma sock_fail_ok: "iok C R P t (io_priv s) (io_i s) \<Longrightarrow> ign C R P t (sock_fail OS err s)"
  by (auto simp: ign_def sock_fail_def bind_Some dest: iok_strerror)

lemma client_new_ok:
  assumes ok: "iok C R P t (io_priv s) (io_i s)"
  shows "ign C R P t (b6b_socket_client_new OS ai k type s)"
  unfolding b6b_socket_client_new_def
proof (rule ign_rules(2), rule ign_sum)
  fix w err
  show "ign C R P t (sock_fail OS err (s\<lparr>io_w := w\<rparr>))" by (rule sock_fail_ok) (simp add: ok)
next
  fix w fd
  show "ign C R P t (case on_world (os_connect OS fd (ai_addr ai)) (s\<lparr>io_w := w\<rparr>) of
             (c, s) \<Rightarrow>
               (case (case c of None \<Rightarrow> on_world (os_getsockname OS fd) s
                     | Some err \<Rightarrow> if err \<noteq> EINPROGRESS then (Inl err, s) else on_world (os_getsockname OS fd) s) of
                  (Inl err, s) \<Rightarrow> sock_fail OS err (upd_world (os_close OS fd) s)
                | (Inr sa, s) \<Rightarrow> b6b_socket_new OS fd sa (Some (ai_addr ai, ai_addrlen ai)) type k s))"
  proof (rule ign_rules(2))
    fix c w2
    let ?s = "s\<lparr>io_w := w\<rparr>\<lparr>io_w := w2\<rparr>"
    obtain x w3 where x: "(case c of None \<Rightarrow> on_world (os_getsockname OS fd) ?s
        | Some err \<Rightarrow> if err \<noteq> EINPROGRESS then (Inl err, ?s) else on_world (os_getsockname OS fd) ?s) = (x, s\<lparr>io_w := w3\<rparr>)"
      by (cases "os_getsockname OS fd w2"; cases c; cases "the c = EINPROGRESS") (auto simp: on_world_def)
    show "ign C R P t (case (case c of None \<Rightarrow> on_world (os_getsockname OS fd) ?s
        | Some err \<Rightarrow> if err \<noteq> EINPROGRESS then (Inl err, ?s) else on_world (os_getsockname OS fd) ?s) of
          (Inl err, s) \<Rightarrow> sock_fail OS err (upd_world (os_close OS fd) s)
        | (Inr sa, s) \<Rightarrow> b6b_socket_new OS fd sa (Some (ai_addr ai, ai_addrlen ai)) type k s)"
      unfolding x using ok by (cases x) (auto intro!: sock_fail_ok gives_new_ign [OF socket_new_ok])
  qed
qed

lemma server_new_ok:
  assumes ok: "iok C R P t (io_priv s) (io_i s)"
  shows "ign C R P t (b6b_server_socket_new OS ai backlog k1 k2 type s)"
  unfolding b6b_server_socket_new_def
  by (rule ign_rules ign_sum ign_option sock_fail_ok gives_new_ign [OF socket_new_ok] | (simp only: io_sel)?, rule ok)+

lemma un_procs_ok:
  assumes ok: "iok C R P t (io_priv s) (io_i s)"
  shows "iop C R P t (b6b_socket_proc_un_client OS kof args s)" and "iop C R P t (b6b_socket_proc_un_server OS kof args s)"
  unfolding b6b_socket_proc_un_client_def b6b_socket_proc_un_server_def Let_def
  by (rule iop_return_new client_new_ok server_new_ok io_rules | rule ok | assumption | simp only: io_sel)+


lemma un_pair_ok:
  assumes ok: "iok C R P t (io_priv s) (io_i s)"
  shows "iop C R P t (b6b_socket_proc_un_pair OS kof args s)"
proof -
  have pair: "iop C R P t (case (r0, r1) of
       (Some a, Some b) \<Rightarrow> do {
         (l, s) \<leftarrow> on_interp (on_heap (b6b_list_build [a, b])) s2;
         I \<leftarrow> upd_heap (b6b_unref b) (io_i s);
         I \<leftarrow> upd_heap (b6b_unref a) I;
         on_interp (b6b_return l) (s\<lparr>io_i := I\<rparr>)
       }
     | _ \<Rightarrow> None)"
    if r0: "b6b_socket_new OS fd0 Sa_unspec None ''un.client'' k s = Some (r0, s1)"
      and r1: "b6b_socket_new OS fd1 Sa_unspec None ''un.client'' k s1 = Some (r1, s2)"
      and ok: "iok C R P t (io_priv s) (io_i s)" for r0 r1 fd0 fd1 k s s1 s2
  proof (cases "r0 = None \<or> r1 = None")
    case True
    then show ?thesis by (auto simp: iop_None split: option.split)
  next
    case False
    then obtain a b where ab: "r0 = Some a" "r1 = Some b" by auto
    note g0 = gives_newD(2,3) [OF socket_new_ok r0 ok ab(1)]
    note g1 = gives_newD(2,3) [OF socket_new_ok r1 g0(1) ab(2)]
    show ?thesis unfolding ab prod.case option.case
    proof ((rule iop_bind_interp iop_bind iop_interp)+)
      fix l I I1 I2 r J
      assume l: "on_heap (b6b_list_build [a, b]) (io_i s2) = Some (l, I)"
        and u: "upd_heap (b6b_unref b) (io_i (s2\<lparr>io_i := I\<rparr>)) = Some I1" "upd_heap (b6b_unref a) I1 = Some I2"
        and ret: "b6b_return l (io_i (s2\<lparr>io_i := I, io_i := I2\<rparr>)) = Some (r, J)"
      have "list_all (npriv C P) [a, b]" using g0(2) g1(2) by simp
      note lb = iok_list_build [OF l g1(1) this]
      from lb(1) have "iok C (add_mset b (add_mset a (add_mset l R))) P t (io_priv s2) I" by (simp add: add_mset_commute)
      from iok_unref [OF u(2) iok_unref [OF u(1) [unfolded io_sel] this g1(2)] g0(2)]
      show "iok C R P t (io_priv (s2\<lparr>io_i := I, io_i := I2\<rparr>)) J" using iok_return [OF ret [unfolded io_sel] _ lb(2)] by simp
    qed
  qed
  show ?thesis
    unfolding b6b_socket_proc_un_pair_def Let_def
    by (rule pair io_rules | assumption | rule ok | simp only: io_sel | erule iokeeps)+
qed

lemma bswap_ok:
  assumes "st_ok C R P s I"
  shows "pres C R P s (b6b_socket_proc_bswap16 args I)" and "pres C R P s (b6b_socket_proc_bswap32 args I)"
  unfolding b6b_socket_proc_bswap16_def b6b_socket_proc_bswap32_def
  by (rule pres_rules | assumption | rule assms | erule keeps | simp only: Let_def)+

lemma sem_timer_ok:
  assumes ok: "iok C R P t (io_priv s) (io_i s)"
  shows "iop C R P t (b6b_sem_proc_sem OS k args s)" and "iop C R P t (b6b_timer_proc_timer OS k args s)"
    and "iop C R P t (b6b_path_proc_realpath OS args s)"
  unfolding b6b_sem_proc_sem_def b6b_timer_proc_timer_def b6b_path_proc_realpath_def Let_def
  by (rule io_rules | rule ok | assumption | simp only: io_sel | erule iokeeps)+

lemma iok_poll_object [iokeeps]:
  assumes "new_heap (b6b_new (\<lambda>ob. ob\<lparr>ob_s := v, ob_proc := f, ob_priv := Priv_ext n\<rparr>)) I = (a, I')" and "iok C R P t q I"
  shows "iok C (add_mset a R) P t q I'" and "npriv C P a"
  using iok_public [OF iok_fresh(1) [OF assms], of P] iok_fresh(2) [OF assms] by (auto simp: new_obj_def refs_of_def)

lemma poll_proc_poll_ok:
  assumes ok: "iok C R P t (io_priv s) (io_i s)"
  shows "iop C R P t (b6b_poll_proc_poll OS args s)"
  unfolding b6b_poll_proc_poll_def
  by (rule io_rules | rule ok | assumption | simp only: io_sel | erule iokeeps)+

lemma signal_set_ok [iokeeps]:
  "signal_set OS as I = Some (r, I') \<Longrightarrow> iok C R P t q I \<Longrightarrow> iok C R P t q I'"
proof (induction as arbitrary: I r)
  case (Cons a as)
  from Cons.prems(1) obtain ok I1 where r: "on_heap (b6b_as_int a) I = Some (ok, I1)" by (auto simp: bind_Some)
  from iok_conv(2) [OF r Cons.prems(2)] have I1: "iok C R P t q I1" .
  from Cons.prems(1) r have "I' = I1 \<or> (\<exists>r. signal_set OS as I1 = Some (r, I'))" by (auto simp: bind_Some split: if_splits)
  with Cons.IH I1 show ?case by blast
qed simp

lemma signal_proc_ok:
  assumes ok: "iok C R P t (io_priv s) (io_i s)"
  shows "iop C R P t (b6b_signal_proc_signal OS k args s)"
  unfolding b6b_signal_proc_signal_def
  by (rule io_rules | rule ok | assumption | simp only: io_sel pd_refs_simps iok_new_priv | erule iokeeps)+


section \<open>Polling\<close>

lemma add_if_ok: "add_if b l a I = Some I' \<Longrightarrow> iok C R P t q I \<Longrightarrow> npriv C P a \<Longrightarrow> iok C R P t q I'"
  by (auto simp: add_if_def split: if_splits dest: iok_list_add)

lemma poll_loop_ok:
  "poll_loop es j i ret n fds I = Some I' \<Longrightarrow> iok C R P t q I \<Longrightarrow> iok C R P t q I'"
proof (induction es arbitrary: j i I)
  case (Cons e es)
  let ?r = "ev_has EPOLLIN e" and ?w = "ev_has EPOLLOUT e" and ?x = "ev_has (EPOLLERR OR EPOLLHUP OR EPOLLRDHUP) e"
  show ?case
  proof (cases "j < ret \<and> i < n")
    case False
    with Cons.prems show ?thesis by simp
  next
    case run: True
    show ?thesis
    proof (cases "?r \<or> ?w \<or> ?x")
      case False
      with run Cons.prems Cons.IH [of j "i + 1" I] show ?thesis by (simp add: Let_def)
    next
      case True
      obtain fd I1 where fd: "new_heap (b6b_int_new (word_of_int (ev_fd e))) I = (fd, I1)" by fastforce
      with True run Cons.prems(1) obtain I2 I3 I4 I5 where r: "add_if ?r (fst fds) fd I1 = Some I2"
        "add_if ?w (fst (snd fds)) fd I2 = Some I3" "add_if ?x (snd (snd fds)) fd I3 = Some I4" "upd_heap (b6b_unref fd) I4 = Some I5"
        "poll_loop es (j + 1) (i + 1) ret n fds I5 = Some I'" by (auto simp: bind_Some Let_def)
      note f = iok_new(3) [OF fd Cons.prems(2)] iok_new_npriv(3) [OF fd Cons.prems(2)]
      show ?thesis
        by (rule Cons.IH [OF r(5) iok_unref [OF r(4) add_if_ok [OF r(3) add_if_ok [OF r(2) add_if_ok [OF r(1) f] f(2)] f(2)] f(2)]])
    qed
  qed
qed (auto split: if_splits)

lemma list_new_fresh: "new_heap b6b_list_new I = (l, I') \<Longrightarrow> obj_at l I = None"
  using hget_Some_less [of l "hp I"] by (fastforce simp: new_heap_def b6b_list_new_def b6b_new_def halloc_def obj_at_def split: prod.splits)

lemma add_new_list:
  assumes "new_heap b6b_list_new I = (a, I1)" and "upd_heap (b6b_list_add l a) I1 = Some I2" and "upd_heap (b6b_unref a) I2 = Some I3"
    and "iok C R P t q I"
  shows "iok C R P t q I3"
  by (rule iok_unref [OF assms(3) iok_list_add [OF assms(2) iok_new(4) [OF assms(1,4)]]]) (rule iok_new_npriv(4) [OF assms(1,4)])+

lemma new_fds_ok:
  assumes run: "new_fds I = Some ((l, fds), I')" and ok: "iok C R P t q I"
  shows "iok C (add_mset l R) (insert l P) t q I'" and "npriv C P l" and "obj_at l I = None"
proof -
  obtain l0 I0 a I1 where n: "new_heap b6b_list_new I = (l0, I0)" "new_heap b6b_list_new I0 = (a, I1)" by fastforce
  with run obtain I2 I3 where r1: "upd_heap (b6b_list_add l0 a) I1 = Some I2" "upd_heap (b6b_unref a) I2 = Some I3"
    by (auto simp: new_fds_def bind_Some)
  obtain b I4 where b: "new_heap b6b_list_new I3 = (b, I4)" by fastforce
  with run n r1 obtain I5 I6 where r2: "upd_heap (b6b_list_add l0 b) I4 = Some I5" "upd_heap (b6b_unref b) I5 = Some I6"
    by (auto simp: new_fds_def bind_Some)
  obtain c I7 where c: "new_heap b6b_list_new I6 = (c, I7)" by fastforce
  with run n r1 b r2 obtain I8 where r3: "upd_heap (b6b_list_add l0 c) I7 = Some I8" "upd_heap (b6b_unref c) I8 = Some I'" "l = l0"
    by (auto simp: new_fds_def bind_Some)
  show "iok C (add_mset l R) (insert l P) t q I'" unfolding r3(3)
    by (rule add_new_list [OF c r3(1,2) add_new_list [OF b r2 add_new_list [OF n(2) r1 iok_list_private [OF n(1) ok]]]])
  show "npriv C P l" unfolding r3(3) by (rule iok_new_npriv(4) [OF n(1) ok])
  show "obj_at l I = None" unfolding r3(3) by (rule list_new_fresh [OF n(1)])
qed

context offloader begin

lemma syscall_ok: "b6b_syscall offl f s = Some (r, s') \<Longrightarrow> iok C R P t (io_priv s) (io_i s) \<Longrightarrow> iok C R P t (io_priv s') (io_i s')"
  by (auto simp: b6b_syscall_def bind_Some dest: offl_ok)

lemma poll_wait_ok:
  assumes ok: "iok C R P t (io_priv s) (io_i s)" and p: "npriv C P p" "obj_at p (io_i s) \<noteq> None"
  shows "iop C R P t (poll_wait OS offl p fd n tm s)"
  unfolding poll_wait_def Let_def
proof (rule iop_bind_interp3, rule iop_bind, rule iop_bind2, rule iop_bind)
  fix l fds I I1 out s1 I2
  assume fds: "new_fds (io_i s) = Some ((l, fds), I)" and ref: "upd_heap (b6b_ref p) (io_i (s\<lparr>io_i := I\<rparr>)) = Some I1"
    and call: "b6b_syscall offl (do_epoll_wait OS fd n tm) (s\<lparr>io_i := I, io_i := I1\<rparr>) = Some (out, s1)"
    and unref: "upd_heap (b6b_unref p) (io_i s1) = Some I2"
  note f = new_fds_ok [OF fds ok]
  from f(3) p(2) have "p \<noteq> l" by auto
  with p(1) have np: "npriv C (insert l P) p" by (simp add: npriv_def)
  from f(2) have l: "l \<notin> P" by (simp add: npriv_def)
  have "iok C (add_mset p (add_mset l R)) (insert l P) t (io_priv s1) (io_i s1)"
    by (rule syscall_ok [OF call]) (use iok_ref [OF ref [unfolded io_sel] f(1) np] in simp)
  from iok_unref [OF unref this np] have I2: "iok C (add_mset l R) (insert l P) t (io_priv s1) I2" .
  have gone: "iok C R P t (io_priv s1) J" if "upd_heap (b6b_destroy l) I2 = Some J" for J by (rule iok_destroy [OF that I2 l])
  have ret: "iop C R P t (on_interp (b6b_return l) (s1\<lparr>io_i := I2, io_i := J\<rparr>))" if "poll_loop es 0 0 m n fds I2 = Some J" for es m J
    using iok_return [OF _ iok_public [OF poll_loop_ok [OF that I2], of P] f(2)] by (intro iop_interp) auto
  show "iop C R P t (case out of
       None \<Rightarrow> do {
         I \<leftarrow> upd_heap (b6b_destroy l) (io_i (s1\<lparr>io_i := I2\<rparr>));
         Some (B6B_ERR, s1\<lparr>io_i := I2, io_i := I\<rparr>)
       }
     | Some d \<Rightarrow>
         if of_ret d < 0 then do {
           I \<leftarrow> upd_heap (b6b_destroy l) (io_i (s1\<lparr>io_i := I2\<rparr>));
           b6b_return_strerror OS (of_errno d) (s1\<lparr>io_i := I2, io_i := I\<rparr>)
         }
         else do {
           I \<leftarrow> poll_loop (of_events d) 0 0 (of_ret d) n fds (io_i (s1\<lparr>io_i := I2\<rparr>));
           on_interp (b6b_return l) (s1\<lparr>io_i := I2, io_i := I\<rparr>)
         })"
    by (rule ret io_rules | simp only: io_sel | erule gone)+
qed

lemma poll_proc_ok:
  assumes ok: "iok C R P t (io_priv s) (io_i s)"
  shows "iop C R P t (b6b_poll_proc OS offl args s)"
  unfolding b6b_poll_proc_def Let_def
  by (rule io_rules poll_wait_ok | assumption | rule ok | simp only: io_sel np_args_simps | (force simp: strm_of_def; fail))+

section \<open>Sleeping and names\<close>

lemma sleep_loop_ok:
  assumes run: "sleep_loop OS offl ts s = Some (r, s')" and ok: "iok C R P t (io_priv s) (io_i s)"
  shows "iok C R P t (io_priv s') (io_i s')"
proof -
  have "offl1 = offl \<longrightarrow> iok C R P t (io_priv s) (io_i s) \<longrightarrow> iok C R P t (io_priv (snd y)) (io_i (snd y))"
    if "sleep_loop OS offl1 ts s = Some y" for offl1 y
  proof (rule sleep_loop.raw_induct [where P = "\<lambda>OS offl1 ts s y. offl1 = offl \<longrightarrow> iok C R P t (io_priv s) (io_i s)
      \<longrightarrow> iok C R P t (io_priv (snd y)) (io_i (snd y))", OF _ that], intro impI)
    fix loop OS offl1 ts s y
    assume IH: "\<And>OS offl1 ts s y. loop OS offl1 ts s = Some y \<Longrightarrow>
        offl1 = offl \<longrightarrow> iok C R P t (io_priv s) (io_i s) \<longrightarrow> iok C R P t (io_priv (snd y)) (io_i (snd y))"
      and body: "Option.bind (b6b_syscall offl1 (do_nanosleep OS ts) s) (\<lambda>(out, s). case out of
          None \<Rightarrow> Some (B6B_ERR, s)
        | Some d \<Rightarrow>
            if of_ret d = 0 then Some (B6B_OK, s)
            else if of_errno d \<noteq> EINTR then b6b_return_strerror OS (of_errno d) s
            else loop OS offl1 (of_time d) s) = Some y"
      and o: "offl1 = offl" and ok: "iok C R P t (io_priv s) (io_i s)"
    obtain x s1 where x: "b6b_syscall offl1 (do_nanosleep OS ts) s = Some (x, s1)" using body by (auto simp: bind_Some)
    note s1 = syscall_ok [OF x [unfolded o] ok]
    show "iok C R P t (io_priv (snd y)) (io_i (snd y))"
    proof (cases x)
      case None
      with body x s1 show ?thesis by auto
    next
      case (Some d)
      consider "of_ret d = 0" | "of_ret d \<noteq> 0" "of_errno d \<noteq> EINTR" | "of_ret d \<noteq> 0" "of_errno d = EINTR" by blast
      then show ?thesis
      proof cases
        case 1
        with body x s1 Some show ?thesis by auto
      next
        case 2
        with body x Some have "b6b_return_strerror OS (of_errno d) s1 = Some (fst y, snd y)" by simp
        then show ?thesis by (rule iok_strerror [OF _ s1])
      next
        case 3
        with body x Some have "loop OS offl1 (of_time d) s1 = Some y" by simp
        from IH [OF this] o s1 show ?thesis by blast
      qed
    qed
  qed
  from this [OF run] ok show ?thesis by simp
qed

lemma sleep_ok: "iok C R P t (io_priv s) (io_i s) \<Longrightarrow> iop C R P t (b6b_time_proc_sleep OS offl args s)"
  unfolding b6b_time_proc_sleep_def
  by (rule io_rules iopI [OF sleep_loop_ok] | assumption | simp only: io_sel)+

lemma resolve_ok: "iok C R P t (io_priv s) (io_i s) \<Longrightarrow> iop C R P t (b6b_socket_resolve OS offl h v n s)"
  unfolding b6b_socket_resolve_def Let_def
  by (rule io_rules | assumption | erule offl_ok iokeeps | simp only: io_sel)+

lemma inet_procs_ok:
  assumes ok: "iok C R P t (io_priv s) (io_i s)"
  shows "iop C R P t (b6b_socket_proc_inet_client OS offl kof args s)" and "iop C R P t (b6b_socket_proc_inet_server OS offl kof args s)"
  unfolding b6b_socket_proc_inet_client_def b6b_socket_proc_inet_server_def Let_def
  by (rule iop_return_new client_new_ok server_new_ok io_rules | rule ok | assumption | erule iopD [OF resolve_ok, rotated]
    | simp only: io_sel)+

lemma nslookup_loop_ok:
  "nslookup_loop OS l ais I = Some (b, I') \<Longrightarrow> iok C R P t q I \<Longrightarrow> iok C R P t q I'"
proof (induction ais arbitrary: I)
  case (Cons ai ais)
  obtain r I1 where str: "b6b_socket_stringify_address OS (ai_addr ai) I = (r, I1)" by fastforce
  show ?case
  proof (cases r)
    case None
    with Cons.prems str stringify_ok(1) [OF str Cons.prems(2)] show ?thesis by simp
  next
    case (Some a)
    note a = stringify_ok(2,3) [OF str Cons.prems(2) Some]
    from Cons.prems(1) str Some obtain I2 I3 where r: "upd_heap (b6b_list_add l a) I1 = Some I2" "upd_heap (b6b_unref a) I2 = Some I3"
      "nslookup_loop OS l ais I3 = Some (b, I')" by (auto simp: bind_Some)
    show ?thesis by (rule Cons.IH [OF r(3) iok_unref [OF r(2) iok_list_add [OF r(1) a] a(2)]])
  qed
qed simp

lemma nslookup_ok:
  assumes ok: "iok C R P t (io_priv s) (io_i s)"
  shows "iop C R P t (b6b_socket_proc_nslookup OS offl args s)"
proof -
  have looked: "iop C R P t (do {
            (res, s) \<leftarrow> b6b_socket_resolve OS offl host None SOCK_DGRAM (s\<lparr>io_i := I\<rparr>);
            (ok, s) \<leftarrow> (if res = [] then Some (False, s) else on_interp (nslookup_loop OS l res) s);
            if \<not> ok then do {
              I \<leftarrow> upd_heap (b6b_destroy l) (io_i s);
              Some (B6B_ERR, s\<lparr>io_i := I\<rparr>)
            }
            else on_interp (b6b_return l) s
          })"
    if new: "new_heap b6b_list_new (io_i s) = (l, I)" and ok: "iok C R P t (io_priv s) (io_i s)" for l I s host
  proof (rule iop_bind2, rule iop_bind2)
    fix res s1 and good :: bool and s2
    assume res: "b6b_socket_resolve OS offl host None SOCK_DGRAM (s\<lparr>io_i := I\<rparr>) = Some (res, s1)"
      and loop: "(if res = [] then Some (False, s1) else on_interp (nslookup_loop OS l res) s1) = Some (good, s2)"
    have np: "npriv C P l" by (rule iok_new_npriv(4) [OF new ok])
    then have l: "l \<notin> P" by (simp add: npriv_def)
    have s1: "iok C (add_mset l R) (insert l P) t (io_priv s1) (io_i s1)"
      by (rule iopD [OF resolve_ok res]) (simp add: iok_list_private [OF new ok])
    have s2: "iok C (add_mset l R) (insert l P) t (io_priv s2) (io_i s2)"
      using loop s1 by (auto simp: on_interp_def bind_Some split: if_splits dest: nslookup_loop_ok)
    have "iop C R P t (on_interp (b6b_return l) s2)"
      using iok_return [OF _ iok_public [OF s2] np] by (intro iop_interp) auto
    moreover have "iop C R P t (do { I \<leftarrow> upd_heap (b6b_destroy l) (io_i s2); Some (B6B_ERR, s2\<lparr>io_i := I\<rparr>) })"
      using iok_destroy [OF _ s2 l] by (intro iop_bind iop_Some) simp
    ultimately show "iop C R P t (if \<not> good then do {
              I \<leftarrow> upd_heap (b6b_destroy l) (io_i s2);
              Some (B6B_ERR, s2\<lparr>io_i := I\<rparr>)
            }
            else on_interp (b6b_return l) s2)" by simp
  qed
  show ?thesis
    unfolding b6b_socket_proc_nslookup_def
    by (rule looked io_rules | rule ok | assumption | simp only: io_sel)+
qed

section \<open>Files\<close>

lemma file_new_ok:
  assumes ok: "iok C R P t (io_priv s) (io_i s)" and size: "length (io_priv s) < 2 ^ 64"
  shows "ign C R P t (b6b_file_new OS (vtable OS offl) kof fp fd bm kind s)"
  unfolding ign_def
proof (intro allI impI)
  fix r s'
  assume run: "b6b_file_new OS (vtable OS offl) kof fp fd bm kind s = Some (r, s')"
  let ?f = "P_stdio \<lparr>fs_fp = fp, fs_buf = False, fs_fd = fd\<rparr>" and ?f' = "P_stdio \<lparr>fs_fp = fp, fs_buf = True, fs_fd = fd\<rparr>"
  let ?p = "word_of_nat (length (io_priv s)) :: ptr" and ?s1 = "s\<lparr>io_priv := io_priv s @ [Some ?f]\<rparr>"
  have p: "unat ?p = length (io_priv s)" using size by (simp add: unat_of_nat take_bit_nat_eq_self)
  from run obtain a s2 where a: "b6b_strm_fmt (kof kind) ?p ''file'' ?s1 = Some (a, s2)"
    by (auto simp: b6b_file_new_def new_priv_def bind_Some)
  have ok1: "iok C R P t (io_priv ?s1) (io_i ?s1)" using ok by simp
  note f = iok_strm_fmt [OF a ok1]
  have pub: "iok C (add_mset a R) P t (io_priv s2) (io_i s2)" by (rule iok_public [OF f(1)]) auto
  have l: "a \<notin> P" using f(2) by (simp add: npriv_def)
  have get: "get_priv ?p s2 = Some ?f" using f(3) p by (simp add: get_priv_def)
  show "case r of None \<Rightarrow> iok C R P t (io_priv s') (io_i s')
    | Some a \<Rightarrow> iok C (add_mset a R) P t (io_priv s') (io_i s') \<and> npriv C P a"
  proof (cases "bm = IONBF")
    case True
    with run a pub f(2) show ?thesis by (auto simp: b6b_file_new_def new_priv_def on_world_def split: prod.splits)
  next
    case False
    obtain good w where w: "os_setvbuf OS fp bm (io_w (set_priv ?p ?f' s2)) = (good, w)" by fastforce
    let ?s3 = "(set_priv ?p ?f' s2)\<lparr>io_w := w\<rparr>"
    have s3: "iok C (add_mset a R) (insert a P) t (io_priv ?s3) (io_i ?s3)"
      using set_priv_ok [of ?p s2 ?f', OF _ _ _ f(1)] get by simp
    show ?thesis
    proof (cases good)
      case True
      with run a False w have "r = Some a" "s' = ?s3" by (auto simp: b6b_file_new_def new_priv_def on_world_def)
      moreover have "iok C (add_mset a R) P t (io_priv ?s3) (io_i ?s3)" by (rule iok_public [OF s3]) auto
      ultimately show ?thesis using f(2) by simp
    next
      case bad: False
      with run a False w have r: "destroy_strm (vtable OS offl) a ?s3 = Some s'" "r = None"
        by (auto simp: b6b_file_new_def new_priv_def on_world_def bind_Some)
      from tabs.destroy_strm_ok [OF r(1) s3 l] r(2) show ?thesis by simp
    qed
  qed
qed

lemma open_file_ok:
  assumes ok: "iok C R P t (io_priv s) (io_i s)" and size: "length (io_priv s) < 2 ^ 64"
  shows "iop C R P t (open_file OS offl (vtable OS offl) kof path fm s)"
  unfolding open_file_def Let_def
proof (rule iop_bind3, rule iop_if)
  fix good d s1
  assume run: "offl (b6b_file_do_fopen OS (c_str path) (fm_fmode fm)) s = Some ((good, d), s1)"
  note s1 = offl_ok [OF run ok]
  have size1: "length (io_priv s1) < 2 ^ 64" using offl_priv [OF run] size by simp
  have "iok C R P t (io_priv s2) (io_i s2)"
    if "(if of_ptr d = 0 then Some s1 else map_option snd (offl (b6b_stdio_do_fclose OS (of_ptr d)) s1)) = Some s2" for s2
    using that s1 by (auto split: if_splits dest: offl_ok)
  then show "iop C R P t (do {
       s \<leftarrow> (if of_ptr d = 0 then Some s1 else map_option snd (offl (b6b_stdio_do_fclose OS (of_ptr d)) s1));
       Some (B6B_ERR, s)
     })" by (intro iop_bind iop_Some)
  have made: "iop C R P t (do {
            (r, s) \<leftarrow> b6b_file_new OS (vtable OS offl) kof (of_ptr d) fd (fm_bmode fm) (fm_ops fm) s2;
            case r of
              None \<Rightarrow> do {
                (_, s) \<leftarrow> offl (b6b_stdio_do_fclose OS (of_ptr d)) s;
                Some (B6B_ERR, s)
              }
            | Some a \<Rightarrow> on_interp (b6b_return a) s
          })" if "s2 = s1\<lparr>io_w := w\<rparr>" for s2 w fd
  proof (rule iop_bind2)
    fix r s3
    assume new: "b6b_file_new OS (vtable OS offl) kof (of_ptr d) fd (fm_bmode fm) (fm_ops fm) s2 = Some (r, s3)"
    have "ign C R P t (b6b_file_new OS (vtable OS offl) kof (of_ptr d) fd (fm_bmode fm) (fm_ops fm) s2)"
      by (rule file_new_ok) (use s1 size1 that in simp_all)
    with new have n: "case r of None \<Rightarrow> iok C R P t (io_priv s3) (io_i s3)
      | Some a \<Rightarrow> iok C (add_mset a R) P t (io_priv s3) (io_i s3) \<and> npriv C P a" by (simp add: ign_def)
    then show "iop C R P t (case r of
              None \<Rightarrow> do {
                (_, s) \<leftarrow> offl (b6b_stdio_do_fclose OS (of_ptr d)) s3;
                Some (B6B_ERR, s)
              }
            | Some a \<Rightarrow> on_interp (b6b_return a) s3)"
      by (auto intro!: iop_option iop_bind2 iop_Some iop_interp dest: offl_ok iok_return)
  qed
  show "iop C R P t (if of_ptr d = 0 then b6b_return_strerror OS (of_errno d) s1
     else (case on_world (os_cloexec OS (os_fileno OS (of_ptr d) (io_w s1))) s1 of
          (None, s) \<Rightarrow> do {
            (r, s) \<leftarrow> b6b_file_new OS (vtable OS offl) kof (of_ptr d) (os_fileno OS (of_ptr d) (io_w s1)) (fm_bmode fm) (fm_ops fm) s;
            case r of
              None \<Rightarrow> do {
                (_, s) \<leftarrow> offl (b6b_stdio_do_fclose OS (of_ptr d)) s;
                Some (B6B_ERR, s)
              }
            | Some a \<Rightarrow> on_interp (b6b_return a) s
          }
        | (Some err, s) \<Rightarrow> do {
            (_, s) \<leftarrow> offl (b6b_stdio_do_fclose OS (of_ptr d)) s;
            b6b_return_strerror OS err s
          }))"
    by (rule made io_rules refl | rule s1 | assumption | erule offl_ok | simp only: io_sel)+
qed

lemma proc_open_ok:
  assumes ok: "iok C R P t (io_priv s) (io_i s)" and size: "length (io_priv s) < 2 ^ 64"
  shows "iop C R P t (b6b_file_proc_open OS offl (vtable OS offl) kof args s)"
  unfolding b6b_file_proc_open_def Let_def
  by (rule open_file_ok io_rules | rule ok size | assumption | erule iokeeps | simp only: io_sel)+

text \<open>Every procedure of the extensions but \<^verbatim>\<open>sh\<close>.\<close>

lemma io_call_ok:
  assumes ok: "iok C R P t (io_priv s) (io_i s)" and size: "length (io_priv s) < 2 ^ 64" and f: "f \<noteq> Io_sh"
  shows "iop C R P t (io_call OS offl f args s)"
proof -
  have st: "st_ok C (R + sh_refs (io_priv s)) P t (io_i s)" and P: "P \<subseteq> set_mset R" using ok by (simp_all add: iok_def)
  have "iop C R P t (on_interp (b6b_socket_proc_bswap32 args) s)" "iop C R P t (on_interp (b6b_socket_proc_bswap16 args) s)"
    by (rule iop_interp, simp add: iok_def P presD [OF bswap_ok(2) [OF st]])
      (rule iop_interp, simp add: iok_def P presD [OF bswap_ok(1) [OF st]])
  moreover note tabs.strm_proc_keeps [OF ok] poll_proc_ok [OF ok] poll_proc_poll_ok [OF ok] proc_open_ok [OF ok size] sem_timer_ok [OF ok]
    sleep_ok [OF ok] signal_proc_ok [OF ok] nslookup_ok [OF ok] inet_procs_ok [OF ok] un_procs_ok [OF ok] un_pair_ok [OF ok]
  ultimately show ?thesis using f by (cases f) (simp_all add: io_call_def)
qed

end

text \<open>The direct call, of a single thread.\<close>

interpretation direct: offloader offload_direct
  by unfold_locales (auto simp: keeps_io_def offload_direct_def on_world_def split: prod.splits)

text \<open>The procedures of the byte order need no operating system: they are extensions that keep the invariant.\<close>

definition byte_env :: "env \<Rightarrow> env" where
  "byte_env E = E\<lparr>e_ext := \<lambda>k args I.
     if k = io_num Io_bswap16 then b6b_socket_proc_bswap16 args I
     else if k = io_num Io_bswap32 then b6b_socket_proc_bswap32 args I
     else None\<rparr>"

interpretation bytes: ext_env "byte_env E" for E
  by unfold_locales (simp add: byte_env_def bswap_ok pres_None)

end
