(* ===== verification/Zlib.thy ===== *)
theory Zlib
  imports Exts
begin

text \<open>
  Compression: src/b6b_zlib.c.  Miniz, which is not part of the repository, is a parameter: a
  record of functions on its internal state.  The fields of \<^verbatim>\<open>mz_stream\<close> are kept here: what
  was read of the source (\<^verbatim>\<open>total_in\<close>, and \<^verbatim>\<open>next_in\<close> behind the start of the source), what was
  written (\<^verbatim>\<open>total_out\<close> bytes up to \<^verbatim>\<open>next_out\<close>), and the two counts, of 32 bits.
\<close>

section \<open>Streams of miniz\<close>

text \<open>
  \<^verbatim>\<open>mz_deflate\<close> and \<^verbatim>\<open>mz_inflate\<close> take the bytes that are available, the room that is left and
  whether the flush is \<^verbatim>\<open>MZ_FINISH\<close>; they give a status, how many bytes they took, and what they
  wrote.
\<close>

type_synonym 'z codec = "'z \<Rightarrow> string \<Rightarrow> nat \<Rightarrow> bool \<Rightarrow> int \<times> nat \<times> string \<times> 'z"

record 'z miniz =
  mz_deflateInit2 :: "int \<Rightarrow> int \<Rightarrow> 'z option"
  mz_deflateBound :: "'z \<Rightarrow> nat \<Rightarrow> nat"
  mz_deflate :: "'z codec"
  mz_inflateInit2 :: "int \<Rightarrow> 'z option"
  mz_inflate :: "'z codec"
  mz_crc32 :: "string \<Rightarrow> u32"

record 'z mz_stream =
  z_in :: nat
  avail_in :: u32
  z_out :: string
  avail_out :: u32
  z_state :: 'z

definition MZ_OK :: int where "MZ_OK = 0"
definition MZ_STREAM_END :: int where "MZ_STREAM_END = 1"
definition MZ_BEST_SPEED :: int where "MZ_BEST_SPEED = 1"
definition MZ_BEST_COMPRESSION :: int where "MZ_BEST_COMPRESSION = 9"
definition MZ_DEFAULT_COMPRESSION :: int where "MZ_DEFAULT_COMPRESSION = -1"
definition MZ_DEFAULT_WINDOW_BITS :: int where "MZ_DEFAULT_WINDOW_BITS = 15"

definition UINT32_MAX :: nat where "UINT32_MAX = 2 ^ 32 - 1"
definition SIZE_MAX :: size_t where "SIZE_MAX = -1"

definition total_in :: "'z mz_stream \<Rightarrow> size_t" where "total_in st = word_of_nat (z_in st)"
definition total_out :: "'z mz_stream \<Rightarrow> size_t" where "total_out st = word_of_nat (length (z_out st))"

text \<open>
  A call on a source, where \<open>cap\<close> bytes fit behind the place of the first one written: undefined
  when it is offered bytes behind the source, and when it writes behind the buffer.  A
  function that takes or writes more than it may is not considered.
\<close>

definition mz_run :: "'z codec \<Rightarrow> bool \<Rightarrow> string \<Rightarrow> nat \<Rightarrow> 'z mz_stream \<Rightarrow> (int \<times> 'z mz_stream) option" where
  "mz_run f fin src cap st =
     (if z_in st + unat (avail_in st) > length src then None
      else
        (case f (z_state st) (take (unat (avail_in st)) (drop (z_in st) src)) (unat (avail_out st)) fin of
           (r, n, out, z) \<Rightarrow>
             if n > unat (avail_in st) \<or> length out > unat (avail_out st) \<or> length (z_out st) + length out > cap then None
             else Some (r, st\<lparr>z_in := z_in st + n, avail_in := avail_in st - word_of_nat n,
               z_out := z_out st @ out, avail_out := avail_out st - word_of_nat (length out), z_state := z\<rparr>)))"

definition new_stream :: "'z \<Rightarrow> 'z mz_stream" where
  "new_stream z = \<lparr>z_in = 0, avail_in = 0, z_out = [], avail_out = 0, z_state = z\<rparr>"

section \<open>Deflating\<close>

definition B6B_DEFLATE_CHUNK_SZ :: u32 where "B6B_DEFLATE_CHUNK_SZ = 65536"

text \<open>The work; a loop in which nothing is taken any more does not end.\<close>

partial_function (option) do_deflate :: "'z miniz \<Rightarrow> string \<Rightarrow> nat \<Rightarrow> u32 \<Rightarrow> 'z mz_stream
    \<Rightarrow> (bool \<times> 'z mz_stream) option" where
  "do_deflate Z src cap rem st =
     (if rem = 0 then Some (True, st)
      else do {
        let st = st\<lparr>avail_in := (if rem > B6B_DEFLATE_CHUNK_SZ then B6B_DEFLATE_CHUNK_SZ else rem)\<rparr>;
        (r, st) \<leftarrow> mz_run (mz_deflate Z) False src cap st;
        if r \<noteq> MZ_OK then Some (False, st)
        else do_deflate Z src cap (ucast (ucast (word_of_nat (length src) :: u32) - total_in st)) st
      })"

text \<open>
  \<^verbatim>\<open>b6b_zlib_deflate\<close> after the arguments.  What \<open>finish\<close> writes is the header and the footer, which
  are \<open>head\<close> and \<open>foot\<close> bytes long.  The work uses nothing of the world, so the parameter \<open>offl\<close> only
  runs the other threads.
\<close>

definition b6b_zlib_deflate :: "'z miniz \<Rightarrow> ('k, 'w) offload \<Rightarrow> int \<Rightarrow> nat \<Rightarrow> nat
    \<Rightarrow> (string \<Rightarrow> int \<Rightarrow> string \<times> string) \<Rightarrow> addr \<Rightarrow> ('k, 'w) io \<Rightarrow> (b6b_res \<times> ('k, 'w) io) option" where
  "b6b_zlib_deflate Z offl wbits head foot finish args s = do {
     ((argc, ps), s) \<leftarrow> io_args args ''os|i'' [False, True, True] s;
     level \<leftarrow> (case (argc, ps) of
        (Suc (Suc (Suc 0)), [Arg a, Arg l]) \<Rightarrow> do {
          i \<leftarrow> int_at l (io_i s);
          Some (if sint i < INT_MIN \<or> sint i > INT_MAX then None else Some (sint i))
        }
      | (Suc (Suc 0), [Arg a]) \<Rightarrow> Some (Some MZ_DEFAULT_COMPRESSION)
      | _ \<Rightarrow> Some None);
     (case (level, ps) of
        (Some level, Arg a # _) \<Rightarrow> do {
          src \<leftarrow> str_at a (io_i s);
          let mx = UINT32_MAX - head - foot;
          if length src > mx then Some (B6B_ERR, s)
          else (case mz_deflateInit2 Z level wbits of
             None \<Rightarrow> Some (B6B_ERR, s)
           | Some z \<Rightarrow> do {
               let dlen = mz_deflateBound Z z (length src);
               if dlen \<ge> mx then Some (B6B_ERR, s)
               else do {
                 let cap = dlen + foot + 1;
                 ((ran, _), s) \<leftarrow> offl (\<lambda>w. (off0, w)) s;
                 if \<not> ran then Some (B6B_ERR, s)
                 else do {
                   (ok, st) \<leftarrow> do_deflate Z src cap (word_of_nat (length src)) ((new_stream z)\<lparr>avail_out := word_of_nat dlen\<rparr>);
                   if \<not> ok then Some (B6B_ERR, s)
                   else do {
                     (r, st) \<leftarrow> mz_run (mz_deflate Z) True src cap st;
                     if r \<noteq> MZ_STREAM_END \<or> length (z_out st) > mx then Some (B6B_ERR, s)
                     else (case finish src level of (hdr, ftr) \<Rightarrow>
                         on_interp (b6b_return_str (hdr @ z_out st @ ftr)) s)
                   }
                 }
               }
             })
        }
      | _ \<Rightarrow> Some (B6B_ERR, s))
   }"

definition no_finish :: "string \<Rightarrow> int \<Rightarrow> string \<times> string" where
  "no_finish src level = ([], [])"

definition b6b_zlib_proc_deflate :: "'z miniz \<Rightarrow> ('k, 'w) offload \<Rightarrow> addr \<Rightarrow> ('k, 'w) io \<Rightarrow> (b6b_res \<times> ('k, 'w) io) option" where
  "b6b_zlib_proc_deflate Z offl = b6b_zlib_deflate Z offl (- MZ_DEFAULT_WINDOW_BITS) 0 0 no_finish"

definition b6b_zlib_proc_compress :: "'z miniz \<Rightarrow> ('k, 'w) offload \<Rightarrow> addr \<Rightarrow> ('k, 'w) io \<Rightarrow> (b6b_res \<times> ('k, 'w) io) option" where
  "b6b_zlib_proc_compress Z offl = b6b_zlib_deflate Z offl MZ_DEFAULT_WINDOW_BITS 0 0 no_finish"

section \<open>The format of gzip\<close>

text \<open>The bytes of integers as a little-endian machine stores them; \<^verbatim>\<open>htons\<close> swaps those of the signature.\<close>

definition le32 :: "u32 \<Rightarrow> string" where
  "le32 w = map (\<lambda>i. char_of (unat (drop_bit (8 * i) w))) [0, 1, 2, 3]"

definition le32_read :: "string \<Rightarrow> u32" where
  "le32_read s = foldr (\<lambda>c w. of_char c + 256 * w) s 0"

definition gzip_hdr :: "int \<Rightarrow> string" where
  "gzip_hdr level =
     map char_of [0x1f, 0x8b :: nat] @ [char_of (8 :: nat), char_of (0 :: nat)] @ le32 0
     @ [char_of (if level = MZ_BEST_COMPRESSION then 2 else if level = MZ_BEST_SPEED then 4 else 0 :: nat), char_of (3 :: nat)]"

definition b6b_zlib_gzip_finish :: "'z miniz \<Rightarrow> string \<Rightarrow> int \<Rightarrow> string \<times> string" where
  "b6b_zlib_gzip_finish Z src level =
     (gzip_hdr level, le32 (mz_crc32 Z src) @ le32 (word_of_nat (length src mod UINT32_MAX)))"

definition b6b_zlib_proc_gzip :: "'z miniz \<Rightarrow> ('k, 'w) offload \<Rightarrow> addr \<Rightarrow> ('k, 'w) io \<Rightarrow> (b6b_res \<times> ('k, 'w) io) option" where
  "b6b_zlib_proc_gzip Z offl = b6b_zlib_deflate Z offl (- MZ_DEFAULT_WINDOW_BITS) 10 8 (b6b_zlib_gzip_finish Z)"

section \<open>Inflating\<close>

definition B6B_INFLATE_IN_CHUNK_SZ :: u32 where "B6B_INFLATE_IN_CHUNK_SZ = 65536"
definition B6B_INFLATE_OUT_CHUNK_SZ :: size_t where "B6B_INFLATE_OUT_CHUNK_SZ = 262144"

text \<open>The work: \<open>dlen\<close> is the size of the buffer without its last byte, which grows each time.\<close>

function do_inflate :: "'z miniz \<Rightarrow> string \<Rightarrow> size_t \<Rightarrow> 'z mz_stream \<Rightarrow> (bool \<times> size_t \<times> 'z mz_stream) option" where
  "do_inflate Z src dlen st =
     (case mz_run (mz_inflate Z) False src (unat dlen + 1) st of
        None \<Rightarrow> None
      | Some (r, st) \<Rightarrow>
          if r = MZ_STREAM_END then Some (True, dlen, st)
          else if r \<noteq> MZ_OK then Some (False, dlen, st)
          else if dlen \<ge> SIZE_MAX - B6B_INFLATE_OUT_CHUNK_SZ - 1 then Some (False, dlen, st)
          else
            let dlen = dlen + B6B_INFLATE_OUT_CHUNK_SZ;
              rem = ucast (ucast (word_of_nat (length src) :: u32) - total_in st) :: u32 in
            do_inflate Z src dlen (st\<lparr>avail_out := ucast (ucast (avail_out st) + (dlen - total_out st)),
              avail_in := (if rem > B6B_INFLATE_IN_CHUNK_SZ then B6B_INFLATE_IN_CHUNK_SZ else rem)\<rparr>))"
  by pat_completeness auto
termination
proof (relation "measure (\<lambda>(Z, src, dlen, st). 2 ^ 64 - unat dlen)", goal_cases)
  case (2 Z src dlen st a r st' dlen' rem)
  have "dlen < SIZE_MAX - B6B_INFLATE_OUT_CHUNK_SZ - 1" using 2 by simp
  then have "unat dlen < 2 ^ 64 - 262146"
    by (simp add: SIZE_MAX_def B6B_INFLATE_OUT_CHUNK_SZ_def word_less_nat_alt)
  then show ?case using 2 by (simp add: B6B_INFLATE_OUT_CHUNK_SZ_def unat_word_ariths)
qed simp

declare do_inflate.simps [simp del]

text \<open>\<open>get_size\<close> is \<open>None\<close> for the null pointer.\<close>

definition b6b_zlib_inflate :: "'z miniz \<Rightarrow> ('k, 'w) offload \<Rightarrow> int \<Rightarrow> nat \<Rightarrow> nat \<Rightarrow> (string \<Rightarrow> size_t) option
    \<Rightarrow> addr \<Rightarrow> ('k, 'w) io \<Rightarrow> (b6b_res \<times> ('k, 'w) io) option" where
  "b6b_zlib_inflate Z offl wbits head foot get_size args s = do {
     ((argc, ps), s) \<leftarrow> io_args args ''os'' [False, True] s;
     (if argc = 0 then Some (B6B_ERR, s)
      else case ps of
        [Arg a] \<Rightarrow> do {
          t \<leftarrow> str_at a (io_i s);
          let junk = head + foot;
          if length t > UINT32_MAX \<or> length t \<le> junk then Some (B6B_ERR, s)
          else do {
            let dlen = (case get_size of None \<Rightarrow> B6B_INFLATE_OUT_CHUNK_SZ
                        | Some g \<Rightarrow> if g t = 0 then 1 else g t);
            if get_size \<noteq> None \<and> dlen = SIZE_MAX then Some (B6B_ERR, s)
            else (case mz_inflateInit2 Z wbits of
               None \<Rightarrow> Some (B6B_ERR, s)
             | Some z \<Rightarrow> do {
                 let src = take (length t - junk) (drop head t);
                 let st = (new_stream z)\<lparr>avail_in := word_of_nat (length src), avail_out := ucast dlen\<rparr>;
                 ((ran, _), s) \<leftarrow> offl (\<lambda>w. (off0, w)) s;
                 if \<not> ran then Some (B6B_ERR, s)
                 else do {
                   (ok, dlen, st) \<leftarrow> do_inflate Z src dlen st;
                   if \<not> ok then Some (B6B_ERR, s)
                   else do {
                     (r, st) \<leftarrow> mz_run (mz_inflate Z) True src (unat dlen + 1) st;
                     if r \<noteq> MZ_STREAM_END then Some (B6B_ERR, s)
                     else if length (z_out st) > unat dlen then None
                     else on_interp (b6b_return_str (z_out st)) s
                   }
                 }
               })
          }
        }
      | _ \<Rightarrow> None)
   }"

definition b6b_zlib_proc_inflate :: "'z miniz \<Rightarrow> ('k, 'w) offload \<Rightarrow> addr \<Rightarrow> ('k, 'w) io \<Rightarrow> (b6b_res \<times> ('k, 'w) io) option" where
  "b6b_zlib_proc_inflate Z offl = b6b_zlib_inflate Z offl (- MZ_DEFAULT_WINDOW_BITS) 0 0 None"

definition b6b_zlib_proc_decompress :: "'z miniz \<Rightarrow> ('k, 'w) offload \<Rightarrow> addr \<Rightarrow> ('k, 'w) io \<Rightarrow> (b6b_res \<times> ('k, 'w) io) option" where
  "b6b_zlib_proc_decompress Z offl = b6b_zlib_inflate Z offl MZ_DEFAULT_WINDOW_BITS 0 0 None"

definition b6b_zlib_gzip_get_size :: "string \<Rightarrow> size_t" where
  "b6b_zlib_gzip_get_size t = ucast (le32_read (drop (length t - 4) t))"

definition b6b_zlib_proc_gunzip :: "'z miniz \<Rightarrow> ('k, 'w) offload \<Rightarrow> addr \<Rightarrow> ('k, 'w) io \<Rightarrow> (b6b_res \<times> ('k, 'w) io) option" where
  "b6b_zlib_proc_gunzip Z offl = b6b_zlib_inflate Z offl (- MZ_DEFAULT_WINDOW_BITS) 10 8 (Some b6b_zlib_gzip_get_size)"

section \<open>The table\<close>

datatype zlib_fn = Z_deflate | Z_compress | Z_gzip | Z_inflate | Z_decompress | Z_gunzip

definition zlib_fns :: "(string \<times> zlib_fn) list" where
  "zlib_fns = [(''deflate'', Z_deflate), (''compress'', Z_compress), (''gzip'', Z_gzip),
     (''inflate'', Z_inflate), (''decompress'', Z_decompress), (''gunzip'', Z_gunzip)]"

text \<open>The places of the procedures come after those of the procedures on streams.\<close>

definition zlib_num :: "zlib_fn \<Rightarrow> nat" where
  "zlib_num f = length io_fns + length (takeWhile (\<lambda>p. snd p \<noteq> f) zlib_fns)"

definition b6b_zlib_table :: "ext_obj list" where
  "b6b_zlib_table = map (\<lambda>(n, f). ext_proc n (F_ext (zlib_num f))) zlib_fns"

definition zlib_call :: "'z miniz \<Rightarrow> ('k, 'w) offload \<Rightarrow> zlib_fn \<Rightarrow> addr \<Rightarrow> ('k, 'w) io \<Rightarrow> (b6b_res \<times> ('k, 'w) io) option" where
  "zlib_call Z offl f = (case f of
     Z_deflate \<Rightarrow> b6b_zlib_proc_deflate Z offl
   | Z_compress \<Rightarrow> b6b_zlib_proc_compress Z offl
   | Z_gzip \<Rightarrow> b6b_zlib_proc_gzip Z offl
   | Z_inflate \<Rightarrow> b6b_zlib_proc_inflate Z offl
   | Z_decompress \<Rightarrow> b6b_zlib_proc_decompress Z offl
   | Z_gunzip \<Rightarrow> b6b_zlib_proc_gunzip Z offl)"

end
