(* ===== verification/Io_Props.thy ===== *)
theory Io_Props
  imports Io_Procs Strm_Props Zlib
begin

text \<open>The procedures of the extensions as a part of the interpreter.\<close>

definition io_start :: "interp \<Rightarrow> (tab, string) io" where
  "io_start I = \<lparr>io_i = I, io_w = [], io_strms = [], io_priv = []\<rparr>"

section \<open>Compression\<close>

context offloader begin

lemma zlib_deflate_ok: "iok C R P t (io_priv s) (io_i s) \<Longrightarrow> iop C R P t (b6b_zlib_deflate Z offl wbits head foot finish args s)"
  unfolding b6b_zlib_deflate_def Let_def
  by (rule io_rules | assumption | erule offl_ok iokeeps | simp only: io_sel)+

lemma zlib_inflate_ok: "iok C R P t (io_priv s) (io_i s) \<Longrightarrow> iop C R P t (b6b_zlib_inflate Z offl wbits head foot get_size args s)"
  unfolding b6b_zlib_inflate_def Let_def
  by (rule io_rules | assumption | erule offl_ok iokeeps | simp only: io_sel)+

lemma zlib_call_ok: "iok C R P t (io_priv s) (io_i s) \<Longrightarrow> iop C R P t (zlib_call Z offl f args s)"
  by (cases f) (simp_all add: zlib_call_def b6b_zlib_proc_deflate_def b6b_zlib_proc_compress_def b6b_zlib_proc_gzip_def
      b6b_zlib_proc_inflate_def b6b_zlib_proc_decompress_def b6b_zlib_proc_gunzip_def zlib_deflate_ok zlib_inflate_ok)

end

text \<open>
  Other ways to run a blocking function than to call it: other threads run first, \<open>W\<close>, which may fail, as when no thread can
  be switched to.
\<close>

definition offload_among :: "((tab, 'w) io \<Rightarrow> (bool \<times> (tab, 'w) io) option) \<Rightarrow> (tab, 'w) offload" where
  "offload_among W f s = do {
     (ok, s) \<leftarrow> W s;
     if ok then offload_direct f s else Some ((False, off0), s)
   }"

lemma offload_among_ok:
  assumes "keeps_io W" and "\<And>s r s'. W s = Some (r, s') \<Longrightarrow> io_priv s' = io_priv s"
  shows "offloader (offload_among W)"
proof
  show "keeps_io (offload_among W f)" for f
    unfolding keeps_io_def
    by (auto simp: offload_among_def bind_Some split: if_splits dest: keeps_ioD [OF assms(1)] direct.offl_ok)
  show "io_priv s' = io_priv s" if "offload_among W f s = Some (r, s')" for f s r s'
  proof -
    from that obtain ok s1 where s1: "W s = Some (ok, s1)" "(if ok then offload_direct f s1 else Some ((False, off0), s1)) = Some (r, s')"
      by (auto simp: offload_among_def bind_Some)
    then have "io_priv s' = io_priv s1" by (cases ok) (auto dest: direct.offl_priv)
    with assms(2) [OF s1(1)] show ?thesis by simp
  qed
qed

section \<open>Calls\<close>

text \<open>
  C8.  A procedure on streams, files, sockets, polling, timers, semaphores, signals, names, paths, byte order, or of
  compression, called in any state with exact counts and on any operating system, gives back every reference it took and
  leaves the running thread as it was, on every path, errors of the system included.  \<^verbatim>\<open>sh\<close>, \<^verbatim>\<open>ffi\<close>, \<^verbatim>\<open>linenoise\<close> and
  \<^verbatim>\<open>b6b\<close> are not among them.  A blocking function may be run in any way that keeps the counts (\<open>offloader\<close>): by a
  call, after other threads have run, or not at all.  \<open>sh_refs\<close> are the references that the streams of commands hold.
\<close>

theorem io_call_keeps:
  assumes "offloader offl"
    and "st_ok C (R + sh_refs (io_priv s)) P t (io_i s)" and "P \<subseteq> set_mset R" and "length (io_priv s) < 2 ^ 64"
    and "f \<noteq> Io_sh \<and> io_call OS offl f args s = Some (r, s') \<or> zlib_call Z offl g args s = Some (r, s')"
  shows "st_ok C (R + sh_refs (io_priv s')) P t (io_i s')"
proof -
  have ok: "iok C R P t (io_priv s) (io_i s)" using assms(2,3) by (simp add: iok_def)
  have "iok C R P t (io_priv s') (io_i s')"
    using assms(5)
  proof (elim disjE conjE)
    assume "f \<noteq> Io_sh" "io_call OS offl f args s = Some (r, s')"
    from iopD [OF offloader.io_call_ok [OF assms(1) ok assms(4) this(1)] this(2)] show ?thesis .
  next
    assume "zlib_call Z offl g args s = Some (r, s')"
    from iopD [OF offloader.zlib_call_ok [OF assms(1) ok] this] show ?thesis .
  qed
  then show ?thesis by (simp add: iok_def)
qed

definition demo_poll :: "(b6b_res \<times> (tab, string) io) option" where
  "demo_poll = (case argv_list demo_argv empty_heap of
     None \<Rightarrow> None
   | Some (args, h) \<Rightarrow> (case interp_start args 0 0 h of
       Some (True, I) \<Rightarrow> io_call pipe_os offload_direct Io_poll args (io_start I)
     | _ \<Rightarrow> None))"

lemma io_call_keeps_witness:
  "\<exists>s' args f. demo_poll = Some (B6B_OK, s') \<and> st_ok ctx0 ({#args#} + sh_refs (io_priv s')) {} (0, [f], None, 1) (io_i s')"
proof -
  have "case demo_poll of Some (B6B_OK, s) \<Rightarrow> True | _ \<Rightarrow> False" by code_simp
  then obtain s' where p: "demo_poll = Some (B6B_OK, s')" by (auto split: option.splits b6b_res.splits)
  then obtain args h I where a: "argv_list demo_argv empty_heap = Some (args, h)" "interp_start args 0 0 h = Some (True, I)"
    and run: "io_call pipe_os offload_direct Io_poll args (io_start I) = Some (B6B_OK, s')"
    by (auto simp: demo_poll_def split: option.splits bool.splits prod.splits)
  obtain f where st: "st_ok ctx0 {#args#} {} (0, [f], None, 1) I"
    by (rule interp_start_ok [OF a(2) argv_list_hinv [OF a(1)]])
  have "st_ok ctx0 ({#args#} + sh_refs (io_priv s')) {} (0, [f], None, 1) (io_i s')"
    by (rule io_call_keeps [where f = Io_poll and OS = pipe_os, OF direct.offloader_axioms])
      (use st run in \<open>auto simp: io_start_def\<close>)
  with p show ?thesis by blast
qed

end
