(* ===== verification/Offload.thy ===== *)
theory Offload
  imports Prelude
begin

text \<open>
  The offload threads: src/b6b_offload.c, include/b6b/offload.h and \<^verbatim>\<open>b6b_offload\<close> of
  src/b6b_interp.c.  Threads of the operating system run in parallel here: the main one, which the
  threads of the interpreter share, and the offload threads, which it wakes with a signal and which
  answer with the same one.  A state is changed by one access to what they share at a time.

  \<^item> Real-time signals queue up, so \<open>hsig\<close> and \<open>msig\<close> count those that are pending for the offload
    thread and, from it, for the main thread; \<^verbatim>\<open>sigwait\<close> takes one or blocks.
  \<^item> A work (\<^verbatim>\<open>fn\<close> and \<^verbatim>\<open>arg\<close>) is a number, fresh for each call of \<^verbatim>\<open>b6b_offload\<close>; \<open>works\<close>, \<open>rets\<close> and
    \<open>failed\<close> record the works that have run and those whose call has returned 1 and 0.
  \<^item> The functions of pthreads succeed.
\<close>

section \<open>One offload thread\<close>

datatype b6b_offload_state = B6B_OFFLOAD_INIT | B6B_OFFLOAD_UP | B6B_OFFLOAD_IDLE | B6B_OFFLOAD_RUNNING | B6B_OFFLOAD_DONE

text \<open>Where the thread is in \<^verbatim>\<open>b6b_offload_thread_routine\<close>: what it does next.\<close>

datatype hpc = H_mask | H_up | H_kill_up | H_sigwait | H_load | H_call | H_done | H_kill | H_exit

record helper =
  hstate :: b6b_offload_state
  hfn :: nat
  hpc :: hpc
  hsig :: nat
  msig :: nat

text \<open>\<^verbatim>\<open>b6b_offload_thread_init\<close>, with the thread created.\<close>

definition new_helper :: helper where
  "new_helper = \<lparr>hstate = B6B_OFFLOAD_INIT, hfn = 0, hpc = H_mask, hsig = 0, msig = 0\<rparr>"

text \<open>One step of the thread, with the work it has done; \<open>None\<close> when it is blocked or has ended.\<close>

fun helper_step :: "helper \<Rightarrow> (helper \<times> nat list) option" where
  "helper_step h = (case hpc h of
     H_mask \<Rightarrow> Some (h\<lparr>hpc := H_up\<rparr>, [])
   | H_up \<Rightarrow> Some (h\<lparr>hstate := B6B_OFFLOAD_UP, hpc := H_kill_up\<rparr>, [])
   | H_kill_up \<Rightarrow> Some (h\<lparr>msig := Suc (msig h), hpc := H_sigwait\<rparr>, [])
   | H_sigwait \<Rightarrow> (case hsig h of 0 \<Rightarrow> None | Suc k \<Rightarrow> Some (h\<lparr>hsig := k, hpc := H_load\<rparr>, []))
   | H_load \<Rightarrow> Some (h\<lparr>hpc := (if hstate h = B6B_OFFLOAD_RUNNING then H_call else H_exit)\<rparr>, [])
   | H_call \<Rightarrow> Some (h\<lparr>hpc := H_done\<rparr>, [hfn h])
   | H_done \<Rightarrow> Some (h\<lparr>hstate := B6B_OFFLOAD_DONE, hpc := H_kill\<rparr>, [])
   | H_kill \<Rightarrow> Some (h\<lparr>msig := Suc (msig h), hpc := H_sigwait\<rparr>, [])
   | H_exit \<Rightarrow> None)"

declare helper_step.simps [simp del]

definition b6b_offload_ready :: "helper \<Rightarrow> bool" where
  "b6b_offload_ready h \<longleftrightarrow> hstate h = B6B_OFFLOAD_IDLE"

definition b6b_offload_done :: "helper \<Rightarrow> bool" where
  "b6b_offload_done h \<longleftrightarrow> hstate h = B6B_OFFLOAD_DONE"

text \<open>The accesses of the main thread: \<^verbatim>\<open>sigwait\<close>, and those of \<^verbatim>\<open>b6b_offload_start\<close>.\<close>

fun main_sigwait :: "helper \<Rightarrow> helper option" where
  "main_sigwait h = (case msig h of 0 \<Rightarrow> None | Suc k \<Rightarrow> Some (h\<lparr>msig := k\<rparr>))"

declare main_sigwait.simps [simp del]

definition start_running :: "helper \<Rightarrow> helper" where
  "start_running h = h\<lparr>hstate := B6B_OFFLOAD_RUNNING\<rparr>"

definition start_fn :: "nat \<Rightarrow> helper \<Rightarrow> helper" where
  "start_fn j h = h\<lparr>hfn := j\<rparr>"

definition start_kill :: "helper \<Rightarrow> helper" where
  "start_kill h = h\<lparr>hsig := Suc (hsig h)\<rparr>"

definition set_idle :: "helper \<Rightarrow> helper" where
  "set_idle h = h\<lparr>hstate := B6B_OFFLOAD_IDLE\<rparr>"

text \<open>\<^verbatim>\<open>b6b_offload_thread_stop\<close>: a thread that was started is cancelled and joined.\<close>

definition b6b_offload_thread_stop :: "helper \<Rightarrow> helper" where
  "b6b_offload_thread_stop h = (if hstate h \<noteq> B6B_OFFLOAD_INIT then h\<lparr>hpc := H_exit\<rparr> else h)"

text \<open>\<^verbatim>\<open>b6b_pick_thread\<close>.\<close>

fun b6b_pick_thread :: "helper list \<Rightarrow> nat option" where
  "b6b_pick_thread [] = None"
| "b6b_pick_thread (h # hs) = (if b6b_offload_ready h then Some 0 else map_option Suc (b6b_pick_thread hs))"

section \<open>The threads of the interpreter\<close>

text \<open>
  Where a thread is in \<^verbatim>\<open>b6b_offload\<close>: outside; looking for an offload thread; or on offload thread
  \<open>i\<close> with work \<open>j\<close>: before setting its work, before the signal, polling, back from \<^verbatim>\<open>b6b_yield\<close>, waiting
  for the signal, before setting it idle.
\<close>

datatype stage = S_set | S_kill | S_poll | S_resume | S_finish | S_idle
datatype cpc = C_out | C_pick nat | C_on stage nat nat

text \<open>The main thread at the start: creating offload threads and waiting for each to be up.\<close>

datatype mpc = M_create | M_wait | M_idle | M_run

record offl =
  helpers :: "helper list"
  mpc :: mpc
  noffths :: nat
  clients :: "nat \<Rightarrow> cpc option"
  cur :: nat
  nextj :: nat
  works :: "nat list"
  rets :: "nat list"
  failed :: "nat list"

definition goto :: "cpc \<Rightarrow> offl \<Rightarrow> offl" where
  "goto pc s = s\<lparr>clients := (clients s)(cur s \<mapsto> pc)\<rparr>"

definition on_helper :: "nat \<Rightarrow> helper \<Rightarrow> offl \<Rightarrow> offl" where
  "on_helper i h s = s\<lparr>helpers := (helpers s)[i := h]\<rparr>"

definition others :: "offl \<Rightarrow> nat set" where
  "others s = dom (clients s) - {cur s}"

section \<open>Steps\<close>

text \<open>
  A thread of the interpreter gives up the processor in \<^verbatim>\<open>b6b_yield\<close> only, to any other thread.
  \<open>direct\<close> is the branch of a single thread.  The loop that polls ends when no other thread is
  outside of \<^verbatim>\<open>b6b_offload\<close> (\<open>poll_break\<close>), or after a yield when the work is done.
\<close>

inductive offl_step :: "offl \<Rightarrow> offl \<Rightarrow> bool" where
  helper: "\<lbrakk>i < length (helpers s); helper_step (helpers s ! i) = Some (h, out)\<rbrakk> \<Longrightarrow>
    offl_step s (on_helper i h (s\<lparr>works := works s @ out\<rparr>))"
| create: "\<lbrakk>mpc s = M_create; length (helpers s) < noffths s\<rbrakk> \<Longrightarrow>
    offl_step s (s\<lparr>helpers := helpers s @ [new_helper], mpc := M_wait\<rparr>)"
| created: "\<lbrakk>mpc s = M_create; length (helpers s) = noffths s\<rbrakk> \<Longrightarrow> offl_step s (s\<lparr>mpc := M_run\<rparr>)"
| up: "\<lbrakk>mpc s = M_wait; i = length (helpers s) - 1; main_sigwait (helpers s ! i) = Some h\<rbrakk> \<Longrightarrow>
    offl_step s (on_helper i h (s\<lparr>mpc := (if hstate h = B6B_OFFLOAD_UP then M_idle else M_wait)\<rparr>))"
| idle_up: "\<lbrakk>mpc s = M_idle; i = length (helpers s) - 1\<rbrakk> \<Longrightarrow>
    offl_step s (on_helper i (set_idle (helpers s ! i)) (s\<lparr>mpc := M_create\<rparr>))"
| direct: "\<lbrakk>mpc s = M_run; clients s (cur s) = Some C_out; others s = {}\<rbrakk> \<Longrightarrow>
    offl_step s (s\<lparr>works := works s @ [nextj s], rets := rets s @ [nextj s], nextj := Suc (nextj s)\<rparr>)"
| call: "\<lbrakk>mpc s = M_run; clients s (cur s) = Some C_out; others s \<noteq> {}\<rbrakk> \<Longrightarrow>
    offl_step s (goto (C_pick (nextj s)) (s\<lparr>nextj := Suc (nextj s)\<rparr>))"
| pick: "\<lbrakk>mpc s = M_run; clients s (cur s) = Some (C_pick j); b6b_pick_thread (helpers s) = Some i\<rbrakk> \<Longrightarrow>
    offl_step s (goto (C_on S_set i j) (on_helper i (start_running (helpers s ! i)) s))"
| pick_yield: "\<lbrakk>mpc s = M_run; clients s (cur s) = Some (C_pick j); b6b_pick_thread (helpers s) = None; c \<in> others s\<rbrakk> \<Longrightarrow>
    offl_step s (s\<lparr>cur := c\<rparr>)"
| pick_fail: "\<lbrakk>mpc s = M_run; clients s (cur s) = Some (C_pick j); b6b_pick_thread (helpers s) = None; others s = {}\<rbrakk> \<Longrightarrow>
    offl_step s (goto C_out (s\<lparr>failed := failed s @ [j]\<rparr>))"
| set_fn: "\<lbrakk>mpc s = M_run; clients s (cur s) = Some (C_on S_set i j)\<rbrakk> \<Longrightarrow>
    offl_step s (goto (C_on S_kill i j) (on_helper i (start_fn j (helpers s ! i)) s))"
| kill: "\<lbrakk>mpc s = M_run; clients s (cur s) = Some (C_on S_kill i j)\<rbrakk> \<Longrightarrow>
    offl_step s (goto (C_on S_poll i j) (on_helper i (start_kill (helpers s ! i)) s))"
| poll_break: "\<lbrakk>mpc s = M_run; clients s (cur s) = Some (C_on S_poll i j); \<forall>c\<in>others s. clients s c \<noteq> Some C_out\<rbrakk> \<Longrightarrow>
    offl_step s (goto (C_on S_finish i j) s)"
| poll_yield: "\<lbrakk>mpc s = M_run; clients s (cur s) = Some (C_on S_poll i j); d \<in> others s; clients s d = Some C_out; c \<in> others s\<rbrakk> \<Longrightarrow>
    offl_step s (goto (C_on S_resume i j) s\<lparr>cur := c\<rparr>)"
| resume_done: "\<lbrakk>mpc s = M_run; clients s (cur s) = Some (C_on S_resume i j); b6b_offload_done (helpers s ! i)\<rbrakk> \<Longrightarrow>
    offl_step s (goto (C_on S_finish i j) s)"
| resume_again: "\<lbrakk>mpc s = M_run; clients s (cur s) = Some (C_on S_resume i j); \<not> b6b_offload_done (helpers s ! i)\<rbrakk> \<Longrightarrow>
    offl_step s (goto (C_on S_poll i j) s)"
| finish: "\<lbrakk>mpc s = M_run; clients s (cur s) = Some (C_on S_finish i j); main_sigwait (helpers s ! i) = Some h\<rbrakk> \<Longrightarrow>
    offl_step s (goto (C_on S_idle i j) (on_helper i h s))"
| idle: "\<lbrakk>mpc s = M_run; clients s (cur s) = Some (C_on S_idle i j)\<rbrakk> \<Longrightarrow>
    offl_step s (goto C_out (on_helper i (set_idle (helpers s ! i)) (s\<lparr>rets := rets s @ [j]\<rparr>)))"
| yield: "\<lbrakk>mpc s = M_run; clients s (cur s) = Some C_out; c \<in> others s\<rbrakk> \<Longrightarrow> offl_step s (s\<lparr>cur := c\<rparr>)"
| spawn: "\<lbrakk>mpc s = M_run; clients s (cur s) = Some C_out; clients s c = None\<rbrakk> \<Longrightarrow>
    offl_step s (s\<lparr>clients := (clients s)(c \<mapsto> C_out)\<rparr>)"
| exit: "\<lbrakk>mpc s = M_run; clients s (cur s) = Some C_out; c \<in> others s\<rbrakk> \<Longrightarrow>
    offl_step s (s\<lparr>clients := (clients s)(cur s := None), cur := c\<rparr>)"

text \<open>The start of an interpreter with \<open>n\<close> offload threads: one thread, which is the main one.\<close>

definition offl_init :: "nat \<Rightarrow> offl" where
  "offl_init n = \<lparr>helpers = [], mpc = M_create, noffths = n, clients = [0 \<mapsto> C_out], cur = 0, nextj = 0,
     works = [], rets = [], failed = []\<rparr>"

inductive offl_reach :: "nat \<Rightarrow> offl \<Rightarrow> bool" for n where
  init: "offl_reach n (offl_init n)"
| step: "offl_reach n s \<Longrightarrow> offl_step s s' \<Longrightarrow> offl_reach n s'"

section \<open>The invariant\<close>

text \<open>
  What the state of an offload thread is for the stage \<open>u\<close> of the thread on it: idle without one;
  between the signal and the answer the work has run exactly when the thread is past it.
\<close>

fun helper_ok :: "nat set \<Rightarrow> helper \<Rightarrow> (stage \<times> nat) option \<Rightarrow> bool" where
  "helper_ok R h None \<longleftrightarrow> hstate h = B6B_OFFLOAD_IDLE \<and> hpc h = H_sigwait \<and> hsig h = 0 \<and> msig h = 0"
| "helper_ok R h (Some (S_set, j)) \<longleftrightarrow>
     hstate h = B6B_OFFLOAD_RUNNING \<and> hpc h = H_sigwait \<and> hsig h = 0 \<and> msig h = 0 \<and> j \<notin> R"
| "helper_ok R h (Some (S_kill, j)) \<longleftrightarrow>
     hstate h = B6B_OFFLOAD_RUNNING \<and> hpc h = H_sigwait \<and> hsig h = 0 \<and> msig h = 0 \<and> hfn h = j \<and> j \<notin> R"
| "helper_ok R h (Some (S_idle, j)) \<longleftrightarrow>
     hstate h = B6B_OFFLOAD_DONE \<and> hpc h = H_sigwait \<and> hsig h = 0 \<and> msig h = 0 \<and> j \<in> R"
| "helper_ok R h (Some (_, j)) \<longleftrightarrow> hfn h = j \<and>
     (hstate h = B6B_OFFLOAD_RUNNING \<and> msig h = 0 \<and>
        (hpc h = H_sigwait \<and> hsig h = 1 \<and> j \<notin> R \<or> hpc h \<in> {H_load, H_call} \<and> hsig h = 0 \<and> j \<notin> R
         \<or> hpc h = H_done \<and> hsig h = 0 \<and> j \<in> R)
      \<or> hstate h = B6B_OFFLOAD_DONE \<and> hsig h = 0 \<and> j \<in> R \<and>
        (hpc h = H_kill \<and> msig h = 0 \<or> hpc h = H_sigwait \<and> msig h = 1))"

definition boot_ok :: "helper \<Rightarrow> bool" where
  "boot_ok h \<longleftrightarrow> hsig h = 0 \<and> (hpc h \<in> {H_mask, H_up} \<and> hstate h = B6B_OFFLOAD_INIT \<and> msig h = 0
     \<or> hpc h = H_kill_up \<and> hstate h = B6B_OFFLOAD_UP \<and> msig h = 0
     \<or> hpc h = H_sigwait \<and> hstate h = B6B_OFFLOAD_UP \<and> msig h = 1)"

fun job_of :: "cpc \<Rightarrow> nat option" where
  "job_of C_out = None"
| "job_of (C_pick j) = Some j"
| "job_of (C_on st i j) = Some j"

definition job :: "offl \<Rightarrow> nat \<Rightarrow> nat option" where
  "job s c = Option.bind (clients s c) job_of"

text \<open>The offload threads that are ready for use.\<close>

definition ready_helpers :: "offl \<Rightarrow> nat" where
  "ready_helpers s = (if mpc s \<in> {M_wait, M_idle} then length (helpers s) - 1 else length (helpers s))"

definition users_ok :: "offl \<Rightarrow> bool" where
  "users_ok s \<longleftrightarrow>
     (\<forall>c st i j. clients s c = Some (C_on st i j) \<longrightarrow> i < ready_helpers s \<and> helper_ok (set (works s)) (helpers s ! i) (Some (st, j)))
     \<and> (\<forall>i < ready_helpers s. (\<forall>c st j. clients s c \<noteq> Some (C_on st i j)) \<longrightarrow> helper_ok (set (works s)) (helpers s ! i) None)
     \<and> (\<forall>c c' st st' i j j'. clients s c = Some (C_on st i j) \<longrightarrow> clients s c' = Some (C_on st' i j') \<longrightarrow> c = c')"

definition jobs_ok :: "offl \<Rightarrow> bool" where
  "jobs_ok s \<longleftrightarrow>
     (\<forall>c j. job s c = Some j \<longrightarrow> j < nextj s \<and> j \<notin> set (rets s))
     \<and> (\<forall>c c' j. job s c = Some j \<longrightarrow> job s c' = Some j \<longrightarrow> c = c')
     \<and> (\<forall>c j. clients s c = Some (C_pick j) \<longrightarrow> j \<notin> set (works s))
     \<and> set (works s) \<subseteq> {..<nextj s} \<and> distinct (works s) \<and> distinct (rets s) \<and> set (rets s) \<subseteq> set (works s)"

definition boot_inv :: "offl \<Rightarrow> bool" where
  "boot_inv s \<longleftrightarrow>
     (mpc s \<in> {M_wait, M_idle} \<longrightarrow> helpers s \<noteq> [] \<and> (\<forall>c. clients s c = None \<or> clients s c = Some C_out))
     \<and> (mpc s = M_create \<longrightarrow> (\<forall>c. clients s c = None \<or> clients s c = Some C_out))
     \<and> (mpc s = M_wait \<longrightarrow> boot_ok (last (helpers s)))
     \<and> (mpc s = M_idle \<longrightarrow> (let h = last (helpers s) in hstate h = B6B_OFFLOAD_UP \<and> hpc h = H_sigwait \<and> hsig h = 0 \<and> msig h = 0))
     \<and> length (helpers s) \<le> noffths s \<and> (mpc s = M_run \<longrightarrow> length (helpers s) = noffths s)
     \<and> clients s (cur s) \<noteq> None"

definition offl_inv :: "offl \<Rightarrow> bool" where
  "offl_inv s \<longleftrightarrow> users_ok s \<and> jobs_ok s \<and> boot_inv s"

section \<open>It is kept\<close>

lemma helper_step_ok:
  assumes "helper_step h = Some (h', out)" and "helper_ok R h u"
  shows "helper_ok (R \<union> set out) h' u" and "out = [] \<or> (\<exists>st j. u = Some (st, j) \<and> out = [j] \<and> j \<notin> R)"
  using assms by (cases "(R, h, u)" rule: helper_ok.cases; cases "hpc h"; cases "hsig h";
      auto simp: helper_step.simps split: if_splits)+

lemma helper_step_boot:
  assumes "helper_step h = Some (h', out)" and "boot_ok h"
  shows "boot_ok h'" and "out = []"
  using assms by (cases "hpc h"; cases "hsig h"; auto simp: helper_step.simps boot_ok_def split: if_splits)+

lemma helper_ok_other:
  assumes "\<And>st j. u = Some (st, j) \<Longrightarrow> j \<notin> A"
  shows "helper_ok (R \<union> A) h u = helper_ok R h u"
  using assms by (cases "(R, h, u)" rule: helper_ok.cases) auto

lemma main_sigwait_ok:
  assumes "main_sigwait h = Some h'" and "helper_ok R h (Some (S_finish, j))"
  shows "helper_ok R h' (Some (S_idle, j))"
  using assms by (cases "msig h") (auto simp: main_sigwait.simps)

lemma pick_thread_Some: "b6b_pick_thread hs = Some i \<Longrightarrow> i < length hs \<and> b6b_offload_ready (hs ! i)"
  by (induction hs arbitrary: i) (auto split: if_splits)

lemma pick_thread_None: "b6b_pick_thread hs = None \<longleftrightarrow> (\<forall>i < length hs. \<not> b6b_offload_ready (hs ! i))"
  by (induction hs) (auto simp: less_Suc_eq_0_disj nth_Cons split: nat.split)

lemma users_on:
  assumes "users_ok s" and "clients s c = Some (C_on st i j)"
  shows "i < ready_helpers s" and "helper_ok (set (works s)) (helpers s ! i) (Some (st, j))"
  using assms unfolding users_ok_def by blast+

lemma users_none:
  assumes "users_ok s" and "i < ready_helpers s" and "\<And>c st j. clients s c \<noteq> Some (C_on st i j)"
  shows "helper_ok (set (works s)) (helpers s ! i) None"
proof -
  from assms(1) have "(\<forall>c st j. clients s c \<noteq> Some (C_on st i j)) \<longrightarrow> helper_ok (set (works s)) (helpers s ! i) None"
    using assms(2) unfolding users_ok_def by blast
  with assms(3) show ?thesis by blast
qed

lemma users_uniq:
  "users_ok s \<Longrightarrow> clients s c = Some (C_on st i j) \<Longrightarrow> clients s c' = Some (C_on st' i j') \<Longrightarrow> c = c'"
  unfolding users_ok_def by blast

lemma usersI:
  assumes "\<And>c st i j. clients s c = Some (C_on st i j) \<Longrightarrow> i < ready_helpers s \<and> helper_ok (set (works s)) (helpers s ! i) (Some (st, j))"
    and "\<And>i. i < ready_helpers s \<Longrightarrow> (\<And>c st j. clients s c \<noteq> Some (C_on st i j)) \<Longrightarrow> helper_ok (set (works s)) (helpers s ! i) None"
    and "\<And>c c' st st' i j j'. clients s c = Some (C_on st i j) \<Longrightarrow> clients s c' = Some (C_on st' i j') \<Longrightarrow> c = c'"
  shows "users_ok s"
  unfolding users_ok_def using assms by blast

lemma jobs_of:
  assumes "jobs_ok s" and "job s c = Some j"
  shows "j < nextj s" and "j \<notin> set (rets s)" and "job s c' = Some j \<Longrightarrow> c' = c"
  using assms unfolding jobs_ok_def by blast+

lemma jobs_pick: "jobs_ok s \<Longrightarrow> clients s c = Some (C_pick j) \<Longrightarrow> j \<notin> set (works s)"
  unfolding jobs_ok_def by blast

lemma jobs_sets:
  assumes "jobs_ok s"
  shows "set (works s) \<subseteq> {..<nextj s}" and "distinct (works s)" and "distinct (rets s)" and "set (rets s) \<subseteq> set (works s)"
  using assms unfolding jobs_ok_def by blast+

lemma jobsI:
  assumes "\<And>c j. job s c = Some j \<Longrightarrow> j < nextj s \<and> j \<notin> set (rets s)"
    and "\<And>c c' j. job s c = Some j \<Longrightarrow> job s c' = Some j \<Longrightarrow> c' = c"
    and "\<And>c j. clients s c = Some (C_pick j) \<Longrightarrow> j \<notin> set (works s)"
    and "set (works s) \<subseteq> {..<nextj s}" and "distinct (works s)" and "distinct (rets s)" and "set (rets s) \<subseteq> set (works s)"
  shows "jobs_ok s"
proof -
  have "c = c'" if "job s c = Some j" "job s c' = Some j" for c c' j using assms(2) [OF that(2,1)] .
  with assms(1,3-) show ?thesis unfolding jobs_ok_def by (intro conjI allI impI) simp_all
qed

text \<open>An idle offload thread is used by nobody.\<close>

lemma ready_unused:
  assumes "users_ok s" and "i < ready_helpers s" and "b6b_offload_ready (helpers s ! i)"
  shows "clients s c \<noteq> Some (C_on st i j)"
proof
  assume "clients s c = Some (C_on st i j)"
  then have "helper_ok (set (works s)) (helpers s ! i) (Some (st, j))" using assms(1) unfolding users_ok_def by blast
  with assms(3) show False by (cases st) (auto simp: b6b_offload_ready_def)
qed

text \<open>A change of stage of the running thread, with the offload thread it is on.\<close>

lemma users_stage:
  assumes ok: "users_ok s" and c: "clients s (cur s) = Some (C_on st i j)"
    and h: "helper_ok (set (works s)) (helpers s ! i) (Some (st, j)) \<Longrightarrow> helper_ok (set (works s)) h (Some (st', j))"
  shows "users_ok (goto (C_on st' i j) (on_helper i h s))"
proof -
  have i: "i < ready_helpers s" "helper_ok (set (works s)) (helpers s ! i) (Some (st, j))"
    using ok c unfolding users_ok_def by blast+
  then have len: "i < length (helpers s)" by (auto simp: ready_helpers_def split: if_splits)
  have ready: "ready_helpers (goto (C_on st' i j) (on_helper i h s)) = ready_helpers s"
    by (simp add: ready_helpers_def goto_def on_helper_def)
  show ?thesis unfolding users_ok_def ready
  proof (intro conjI allI impI)
    fix d st2 k m assume d: "clients (goto (C_on st' i j) (on_helper i h s)) d = Some (C_on st2 k m)"
    show "k < ready_helpers s"
      using d i(1) ok by (auto simp: goto_def on_helper_def users_ok_def split: if_splits)
    show "helper_ok (set (works (goto (C_on st' i j) (on_helper i h s)))) (helpers (goto (C_on st' i j) (on_helper i h s)) ! k) (Some (st2, m))"
    proof (cases "d = cur s")
      case True
      with d i len h show ?thesis by (auto simp: goto_def on_helper_def)
    next
      case False
      with d have d': "clients s d = Some (C_on st2 k m)" by (simp add: goto_def on_helper_def)
      then have "k \<noteq> i" using ok c False unfolding users_ok_def by blast
      moreover have "helper_ok (set (works s)) (helpers s ! k) (Some (st2, m))" using ok d' unfolding users_ok_def by blast
      ultimately show ?thesis by (simp add: goto_def on_helper_def)
    qed
  next
    fix k assume k: "k < ready_helpers s" and none: "\<forall>d st2 m. clients (goto (C_on st' i j) (on_helper i h s)) d \<noteq> Some (C_on st2 k m)"
    have "k \<noteq> i" using none [rule_format, of "cur s" st' j] by (auto simp: goto_def on_helper_def)
    moreover have "clients s d \<noteq> Some (C_on st2 k m)" for d st2 m
      using none [rule_format, of d st2 m] c \<open>k \<noteq> i\<close> by (cases "d = cur s") (auto simp: goto_def on_helper_def)
    ultimately show "helper_ok (set (works (goto (C_on st' i j) (on_helper i h s)))) (helpers (goto (C_on st' i j) (on_helper i h s)) ! k) None"
      using ok k by (simp add: goto_def on_helper_def users_ok_def)
  next
    fix d d' st2 st3 k m m'
    assume "clients (goto (C_on st' i j) (on_helper i h s)) d = Some (C_on st2 k m)"
      "clients (goto (C_on st' i j) (on_helper i h s)) d' = Some (C_on st3 k m')"
    then show "d = d'" using ok c unfolding users_ok_def goto_def on_helper_def
      by (auto split: if_splits)
  qed
qed

lemma jobs_stage:
  assumes "jobs_ok s" and "clients s (cur s) = Some (C_on st i j)"
  shows "jobs_ok (goto (C_on st' i j) (on_helper k h s))"
proof -
  have "job (goto (C_on st' i j) (on_helper k h s)) = job s"
    using assms(2) by (auto simp: job_def goto_def on_helper_def)
  moreover have "clients (goto (C_on st' i j) (on_helper k h s)) c = Some (C_pick m) \<Longrightarrow> clients s c = Some (C_pick m)" for c m
    by (auto simp: goto_def on_helper_def split: if_splits)
  ultimately show ?thesis using assms(1) by (auto simp: jobs_ok_def goto_def on_helper_def)
qed

lemma boot_stage:
  assumes "boot_inv s" and "mpc s = M_run"
  shows "boot_inv (goto pc (on_helper k h s))"
  using assms by (auto simp: boot_inv_def goto_def on_helper_def)

lemma inv_stage:
  assumes "offl_inv s" and "mpc s = M_run" and c: "clients s (cur s) = Some (C_on st i j)"
    and "helper_ok (set (works s)) (helpers s ! i) (Some (st, j)) \<Longrightarrow> helper_ok (set (works s)) h (Some (st', j))"
  shows "offl_inv (goto (C_on st' i j) (on_helper i h s))"
  using assms users_stage [OF _ c] jobs_stage [OF _ c] boot_stage by (simp add: offl_inv_def)

text \<open>Only which thread runs changes.\<close>

lemma inv_cur:
  assumes "offl_inv s" and "c \<in> others s"
  shows "offl_inv (s\<lparr>cur := c\<rparr>)"
  using assms by (auto simp: offl_inv_def users_ok_def jobs_ok_def boot_inv_def job_def ready_helpers_def others_def)

text \<open>A step of an offload thread.\<close>

lemma inv_helper:
  assumes inv: "offl_inv s" and i: "i < length (helpers s)" and step: "helper_step (helpers s ! i) = Some (h, out)"
  shows "offl_inv (on_helper i h (s\<lparr>works := works s @ out\<rparr>))"
proof (cases "i < ready_helpers s")
  case True
  let ?s = "on_helper i h (s\<lparr>works := works s @ out\<rparr>)"
  from inv have u: "users_ok s" and jb: "jobs_ok s" and b: "boot_inv s" by (simp_all add: offl_inv_def)
  have same: "clients ?s = clients s" "ready_helpers ?s = ready_helpers s" "set (works ?s) = set (works s) \<union> set out"
    "helpers ?s = (helpers s)[i := h]" "job ?s = job s" "nextj ?s = nextj s" "rets ?s = rets s"
    by (simp_all add: on_helper_def ready_helpers_def job_def fun_eq_iff)
  obtain v where v: "helper_ok (set (works s)) (helpers s ! i) v" and v1: "\<And>c st j. clients s c = Some (C_on st i j) \<Longrightarrow> v = Some (st, j)"
    and v2: "\<And>st j. v = Some (st, j) \<Longrightarrow> \<exists>c. clients s c = Some (C_on st i j)"
  proof (cases "\<exists>c st j. clients s c = Some (C_on st i j)")
    case True
    then obtain c st j where c: "clients s c = Some (C_on st i j)" by blast
    show thesis
    proof (rule that [of "Some (st, j)"])
      show "helper_ok (set (works s)) (helpers s ! i) (Some (st, j))" using u c unfolding users_ok_def by blast
      show "Some (st, j) = Some (st', j')" if "clients s c' = Some (C_on st' i j')" for c' st' j'
        using u c that unfolding users_ok_def by (metis cpc.inject(2) option.inject)
    qed (use c in auto)
  next
    case False
    then show thesis using that [of None] u True unfolding users_ok_def by auto
  qed
  note ok = helper_step_ok [OF step v]
  have run: "out = [] \<or> (\<exists>c st j. clients s c = Some (C_on st i j) \<and> out = [j] \<and> j \<notin> set (works s))"
    using ok(2) v2 by blast
  have other: "helper_ok (set (works s) \<union> set out) (helpers s ! k) w = helper_ok (set (works s)) (helpers s ! k) w"
    if "\<And>st j. w = Some (st, j) \<Longrightarrow> \<exists>c. clients s c = Some (C_on st k j)" "k \<noteq> i" for k w
  proof (rule helper_ok_other)
    fix st j assume "w = Some (st, j)"
    with that(1) obtain c where c: "clients s c = Some (C_on st k j)" by blast
    show "j \<notin> set out"
    proof
      assume "j \<in> set out"
      with run obtain d st' where d: "clients s d = Some (C_on st' i j)" by auto
      have "job s c = Some j" "job s d = Some j" using c d by (simp_all add: job_def)
      with jb have "c = d" unfolding jobs_ok_def by blast
      with c d that(2) show False by simp
    qed
  qed
  have "users_ok ?s" unfolding users_ok_def same
  proof (intro conjI allI impI)
    fix c st k j assume c: "clients s c = Some (C_on st k j)"
    then have k: "k < ready_helpers s" "helper_ok (set (works s)) (helpers s ! k) (Some (st, j))" using u unfolding users_ok_def by blast+
    show "k < ready_helpers s" by (rule k(1))
    show "helper_ok (set (works s) \<union> set out) ((helpers s)[i := h] ! k) (Some (st, j))"
    proof (cases "k = i")
      case True
      with v1 [of c st j] c ok(1) i show ?thesis by simp
    next
      case False
      with other [of "Some (st, j)" k] c k(2) show ?thesis by auto
    qed
  next
    fix k assume k: "k < ready_helpers s" and none: "\<forall>c st j. clients s c \<noteq> Some (C_on st k j)"
    show "helper_ok (set (works s) \<union> set out) ((helpers s)[i := h] ! k) None"
    proof (cases "k = i")
      case True
      with none v2 have "v = None" by (cases v) auto
      with ok(1) True i show ?thesis by simp
    next
      case False
      with other [of None k] u k none show ?thesis by (simp add: users_ok_def)
    qed
  next
    fix c c' st st' k j j' assume "clients s c = Some (C_on st k j)" "clients s c' = Some (C_on st' k j')"
    with u show "c = c'" unfolding users_ok_def by blast
  qed
  moreover have "jobs_ok ?s"
  proof -
    have new: "j < nextj s" "\<And>c. clients s c \<noteq> Some (C_pick j)" "j \<notin> set (works s)" if "j \<in> set out" for j
    proof -
      from run that obtain d st' where d: "clients s d = Some (C_on st' i j)" "j \<notin> set (works s)" by auto
      then have jd: "job s d = Some j" by (simp add: job_def)
      with jb show "j < nextj s" unfolding jobs_ok_def by blast
      show "clients s c \<noteq> Some (C_pick j)" for c
      proof
        assume c: "clients s c = Some (C_pick j)"
        then have "job s c = Some j" by (simp add: job_def)
        with jd jb have "c = d" unfolding jobs_ok_def by blast
        with c d(1) show False by simp
      qed
      show "j \<notin> set (works s)" by (rule d(2))
    qed
    have "distinct out" using run by auto
    with jb new show ?thesis unfolding jobs_ok_def same by (auto simp: on_helper_def)
  qed
  moreover have "boot_inv ?s"
  proof -
    have "last ((helpers s)[i := h]) = last (helpers s)" if "mpc s \<in> {M_wait, M_idle}"
    proof -
      from that True have "i < length (helpers s) - 1" by (simp add: ready_helpers_def)
      then show ?thesis by (cases "helpers s = []") (simp_all add: last_list_update)
    qed
    with b show ?thesis by (auto simp: boot_inv_def on_helper_def)
  qed
  ultimately show ?thesis by (simp add: offl_inv_def)
next
  case False
  then have m: "mpc s \<in> {M_wait, M_idle}" "i = length (helpers s) - 1" using i by (auto simp: ready_helpers_def split: if_splits)
  have ne: "helpers s \<noteq> []" using i by auto
  then have last: "last (helpers s) = helpers s ! i" using m(2) by (simp add: last_conv_nth)
  have nidle: "mpc s \<noteq> M_idle"
  proof
    assume "mpc s = M_idle"
    with inv last have "hpc (helpers s ! i) = H_sigwait" "hsig (helpers s ! i) = 0" by (simp_all add: offl_inv_def boot_inv_def Let_def)
    with step show False by (simp add: helper_step.simps)
  qed
  with m(1) have w: "mpc s = M_wait" by simp
  with inv last have "boot_ok (helpers s ! i)" by (simp add: offl_inv_def boot_inv_def)
  note st = helper_step_boot [OF step this]
  have "last ((helpers s)[i := h]) = h" using ne m(2) by (simp add: last_list_update)
  with inv st w m(2) show ?thesis
    by (auto simp: offl_inv_def users_ok_def jobs_ok_def boot_inv_def on_helper_def ready_helpers_def job_def nth_list_update)
qed

text \<open>The other steps of the main thread.\<close>

lemma inv_pick:
  assumes inv: "offl_inv s" and m: "mpc s = M_run" and c: "clients s (cur s) = Some (C_pick j)"
    and p: "b6b_pick_thread (helpers s) = Some i"
  shows "offl_inv (goto (C_on S_set i j) (on_helper i (start_running (helpers s ! i)) s))"
proof -
  let ?s = "goto (C_on S_set i j) (on_helper i (start_running (helpers s ! i)) s)"
  from inv have u: "users_ok s" and jb: "jobs_ok s" and b: "boot_inv s" by (simp_all add: offl_inv_def)
  have i: "i < length (helpers s)" "b6b_offload_ready (helpers s ! i)" using pick_thread_Some [OF p] by simp_all
  have ready: "ready_helpers s = length (helpers s)" "ready_helpers ?s = length (helpers s)"
    using m by (simp_all add: ready_helpers_def goto_def on_helper_def)
  have free: "clients s d \<noteq> Some (C_on st i k)" for d st k using ready_unused [OF u] i ready(1) by simp
  have "helper_ok (set (works s)) (helpers s ! i) None" by (rule users_none [OF u _ free]) (use i(1) ready(1) in simp)
  moreover have "j \<notin> set (works s)" using jb c unfolding jobs_ok_def by blast
  ultimately have h: "helper_ok (set (works s)) (start_running (helpers s ! i)) (Some (S_set, j))" by (simp add: start_running_def)
  have cl: "clients ?s = (clients s)(cur s \<mapsto> C_on S_set i j)" "helpers ?s = (helpers s)[i := start_running (helpers s ! i)]"
    "works ?s = works s" by (simp_all add: goto_def on_helper_def)
  have "users_ok ?s" unfolding users_ok_def cl ready(2)
  proof (intro conjI allI impI)
    fix d st k n assume d: "((clients s)(cur s \<mapsto> C_on S_set i j)) d = Some (C_on st k n)"
    show "k < length (helpers s)" using d i(1) u ready(1) by (auto simp: users_ok_def split: if_splits)
    show "helper_ok (set (works s)) ((helpers s)[i := start_running (helpers s ! i)] ! k) (Some (st, n))"
    proof (cases "d = cur s")
      case True
      with d i(1) h show ?thesis by simp
    next
      case False
      with d have d': "clients s d = Some (C_on st k n)" by simp
      with free have "k \<noteq> i" by blast
      moreover have "helper_ok (set (works s)) (helpers s ! k) (Some (st, n))" using u d' unfolding users_ok_def by blast
      ultimately show ?thesis by simp
    qed
  next
    fix k assume k: "k < length (helpers s)" and none: "\<forall>d st n. ((clients s)(cur s \<mapsto> C_on S_set i j)) d \<noteq> Some (C_on st k n)"
    have "k \<noteq> i" using none [rule_format, of "cur s" S_set j] by auto
    moreover have "clients s d \<noteq> Some (C_on st k n)" for d st n
      using none [rule_format, of d st n] c by (cases "d = cur s") auto
    ultimately show "helper_ok (set (works s)) ((helpers s)[i := start_running (helpers s ! i)] ! k) None"
      using u k ready(1) unfolding users_ok_def by simp
  next
    fix d d' st st' k n n'
    assume "((clients s)(cur s \<mapsto> C_on S_set i j)) d = Some (C_on st k n)" "((clients s)(cur s \<mapsto> C_on S_set i j)) d' = Some (C_on st' k n')"
    then show "d = d'" using u free unfolding users_ok_def by (auto split: if_splits)
  qed
  moreover have "jobs_ok ?s"
  proof -
    have "job ?s = job s" using c by (auto simp: job_def cl fun_eq_iff)
    with jb show ?thesis by (auto simp: jobs_ok_def goto_def on_helper_def split: if_splits)
  qed
  moreover have "boot_inv ?s" by (rule boot_stage [OF b m])
  ultimately show ?thesis by (simp add: offl_inv_def)
qed

lemma inv_idle:
  assumes inv: "offl_inv s" and m: "mpc s = M_run" and c: "clients s (cur s) = Some (C_on S_idle i j)"
  shows "offl_inv (goto C_out (on_helper i (set_idle (helpers s ! i)) (s\<lparr>rets := rets s @ [j]\<rparr>)))"
proof -
  let ?s = "goto C_out (on_helper i (set_idle (helpers s ! i)) (s\<lparr>rets := rets s @ [j]\<rparr>))"
  from inv have u: "users_ok s" and jb: "jobs_ok s" and b: "boot_inv s" by (simp_all add: offl_inv_def)
  note i = users_on [OF u c]
  have ready: "ready_helpers ?s = ready_helpers s" "i < length (helpers s)"
    using i(1) m by (simp_all add: ready_helpers_def goto_def on_helper_def)
  have cl: "clients ?s = (clients s)(cur s \<mapsto> C_out)" "helpers ?s = (helpers s)[i := set_idle (helpers s ! i)]"
    "works ?s = works s" "rets ?s = rets s @ [j]" "nextj ?s = nextj s" by (simp_all add: goto_def on_helper_def)
  have on: "clients ?s d = Some (C_on st k n) \<longleftrightarrow> d \<noteq> cur s \<and> clients s d = Some (C_on st k n)" for d st k n
    by (simp add: cl)
  have j: "job s (cur s) = Some j" using c by (simp add: job_def)
  have "users_ok ?s"
  proof (rule usersI, unfold on cl(2,3) ready(1))
    fix d st k n assume d: "d \<noteq> cur s \<and> clients s d = Some (C_on st k n)"
    have "k \<noteq> i" using users_uniq [OF u c, of d st n] d by auto
    with users_on [OF u, of d st k n] d
    show "k < ready_helpers s \<and> helper_ok (set (works s)) ((helpers s)[i := set_idle (helpers s ! i)] ! k) (Some (st, n))" by simp
  next
    fix k assume k: "k < ready_helpers s" and none: "\<And>d st n. \<not> (d \<noteq> cur s \<and> clients s d = Some (C_on st k n))"
    show "helper_ok (set (works s)) ((helpers s)[i := set_idle (helpers s ! i)] ! k) None"
    proof (cases "k = i")
      case True
      with i(2) ready(2) show ?thesis by (simp add: set_idle_def)
    next
      case False
      have "clients s d \<noteq> Some (C_on st k n)" for d st n
        using none [of d st n] c False by (cases "d = cur s") auto
      from users_none [OF u k this] False show ?thesis by simp
    qed
  next
    fix d d' st st' k n n'
    assume "d \<noteq> cur s \<and> clients s d = Some (C_on st k n)" "d' \<noteq> cur s \<and> clients s d' = Some (C_on st' k n')"
    then show "d = d'" using users_uniq [OF u, of d st k n d' st' n'] by simp
  qed
  moreover have "jobs_ok ?s"
  proof -
    have jobs: "job ?s d = (if d = cur s then None else job s d)" for d by (simp add: job_def cl)
    have ne: "n \<noteq> j" if "d \<noteq> cur s" "job s d = Some n" for d n using jobs_of(3) [OF jb j, of d] that by auto
    have pick: "clients ?s d = Some (C_pick n) \<Longrightarrow> clients s d = Some (C_pick n)" for d n by (simp add: cl split: if_splits)
    have jw: "j \<in> set (works s)" "j \<notin> set (rets s)" using i(2) jobs_of(2) [OF jb j] by simp_all
    show ?thesis
    proof (rule jobsI, unfold cl(3,4,5))
      fix d n assume d: "job ?s d = Some n"
      then have d': "d \<noteq> cur s" "job s d = Some n" by (simp_all add: jobs split: if_splits)
      show "n < nextj s \<and> n \<notin> set (rets s @ [j])" using jobs_of(1,2) [OF jb d'(2)] ne [OF d'] by simp
      show "d2 = d" if "job ?s d2 = Some n" for d2
        using that jobs_of(3) [OF jb d'(2), of d2] by (simp add: jobs split: if_splits)
    next
      fix d n assume "clients ?s d = Some (C_pick n)"
      from jobs_pick [OF jb pick [OF this]] show "n \<notin> set (works s)" .
    qed (use jobs_sets [OF jb] jw in auto)
  qed
  moreover have "boot_inv ?s" using b m by (auto simp: boot_inv_def goto_def on_helper_def)
  ultimately show ?thesis by (simp add: offl_inv_def)
qed

text \<open>A change of the clients that are on no offload thread.\<close>

lemma users_free:
  assumes "users_ok s" and "\<And>c st i j. clients s' c = Some (C_on st i j) \<longleftrightarrow> clients s c = Some (C_on st i j)"
    and "helpers s' = helpers s" "mpc s' = mpc s" and "set (works s') = set (works s) \<union> A" and "\<And>c j. job s c = Some j \<Longrightarrow> j \<notin> A"
  shows "users_ok s'"
proof -
  have ready: "ready_helpers s' = ready_helpers s" using assms(3,4) by (simp add: ready_helpers_def)
  have same: "helper_ok (set (works s) \<union> A) h (Some (st, j)) = helper_ok (set (works s)) h (Some (st, j))"
    if "clients s c = Some (C_on st i j)" for c st i j h
    using that assms(6) [of c j] by (intro helper_ok_other) (simp add: job_def)
  show ?thesis
  proof (rule usersI, unfold assms(2,3,5) ready)
    fix c st i j assume c: "clients s c = Some (C_on st i j)"
    show "i < ready_helpers s \<and> helper_ok (set (works s) \<union> A) (helpers s ! i) (Some (st, j))"
      using users_on [OF assms(1) c] same(1) [OF c] by simp
  next
    fix i assume "i < ready_helpers s" "\<And>c st j. clients s c \<noteq> Some (C_on st i j)"
    from users_none [OF assms(1) this] show "helper_ok (set (works s) \<union> A) (helpers s ! i) None" by simp
  qed (rule users_uniq [OF assms(1)])
qed

lemma inv_direct:
  assumes inv: "offl_inv s" and c: "clients s (cur s) = Some C_out"
  shows "offl_inv (s\<lparr>works := works s @ [nextj s], rets := rets s @ [nextj s], nextj := Suc (nextj s)\<rparr>)" (is "offl_inv ?s")
proof -
  from inv have u: "users_ok s" and jb: "jobs_ok s" and b: "boot_inv s" by (simp_all add: offl_inv_def)
  have job: "job ?s = job s" by (simp add: job_def fun_eq_iff)
  have lt: "job s d = Some n \<Longrightarrow> n < nextj s" for d n using jobs_of(1) [OF jb] .
  have "users_ok ?s" by (rule users_free [OF u, of _ "{nextj s}"]) (use lt in auto)
  moreover have "jobs_ok ?s"
  proof (rule jobsI, unfold job)
    fix d n assume d: "job s d = Some n"
    show "n < nextj ?s \<and> n \<notin> set (rets ?s)" using jobs_of(1,2) [OF jb d] by auto
    show "d2 = d" if "job s d2 = Some n" for d2 using that jobs_of(3) [OF jb d] by blast
  next
    fix d n assume d: "clients ?s d = Some (C_pick n)"
    then have "clients s d = Some (C_pick n)" "job s d = Some n" by (simp_all add: job_def)
    with jobs_pick [OF jb] lt show "n \<notin> set (works ?s)" by fastforce
  qed (use jobs_sets [OF jb] in \<open>auto simp: subset_iff less_Suc_eq\<close>)
  moreover have "boot_inv ?s" using b by (simp add: boot_inv_def)
  ultimately show ?thesis by (simp add: offl_inv_def)
qed

text \<open>The running thread, on no offload thread, goes to \<open>pc\<close>, on none either.\<close>

lemma inv_goto:
  assumes inv: "offl_inv s" and m: "mpc s = M_run" and c: "clients s (cur s) = Some pc0"
    and pc: "\<And>st i j. pc0 \<noteq> C_on st i j" "\<And>st i j. pc \<noteq> C_on st i j"
    and job: "job_of pc = None \<and> k = nextj s \<or> job_of pc = Some (nextj s) \<and> k = Suc (nextj s)"
  shows "offl_inv (goto pc (s\<lparr>nextj := k, failed := fl\<rparr>))" (is "offl_inv ?s")
proof -
  from inv have u: "users_ok s" and jb: "jobs_ok s" and b: "boot_inv s" by (simp_all add: offl_inv_def)
  have cl: "clients ?s = (clients s)(cur s \<mapsto> pc)" "works ?s = works s" "rets ?s = rets s" "nextj ?s = k"
    by (simp_all add: goto_def)
  have jobs: "job ?s d = (if d = cur s then job_of pc else job s d)" for d by (simp add: job_def cl)
  have k: "nextj s \<le> k" "nextj s \<notin> set (works s)" "nextj s \<notin> set (rets s)"
    using job jobs_sets(1,4) [OF jb] by (auto simp: subset_iff)
  have on: "clients ?s d = Some (C_on st i j) \<longleftrightarrow> clients s d = Some (C_on st i j)" for d st i j
    using c pc by (simp add: cl(1))
  have "users_ok ?s"
    by (rule users_free [OF u on, of "{}"]) (simp_all add: goto_def)
  moreover have "jobs_ok ?s"
  proof (rule jobsI, unfold cl(2-4))
    fix d n assume d: "job ?s d = Some n"
    show "n < k \<and> n \<notin> set (rets s)"
    proof (cases "d = cur s")
      case True
      with d have "job_of pc = Some n" by (simp add: jobs)
      with job have "n = nextj s" "k = Suc (nextj s)" by auto
      with k(3) show ?thesis by simp
    next
      case False
      with d have "job s d = Some n" by (simp add: jobs)
      from jobs_of(1,2) [OF jb this] k(1) show ?thesis by simp
    qed
    show "d2 = d" if d2: "job ?s d2 = Some n" for d2
    proof (cases "job_of pc = Some n")
      case True
      with job have n: "n = nextj s" by auto
      have "e = cur s" if e: "job ?s e = Some n" for e
      proof (rule ccontr)
        assume "e \<noteq> cur s"
        with e have "job s e = Some n" by (simp add: jobs)
        from jobs_of(1) [OF jb this] n show False by simp
      qed
      from this [OF d] this [OF d2] show ?thesis by simp
    next
      case False
      with d d2 have "job s d = Some n" "job s d2 = Some n" by (simp_all add: jobs split: if_splits)
      then show ?thesis by (rule jobs_of(3) [OF jb])
    qed
  next
    fix d n assume d: "clients ?s d = Some (C_pick n)"
    show "n \<notin> set (works s)"
    proof (cases "d = cur s")
      case True
      with d have "pc = C_pick n" by (simp add: cl)
      with job k(2) show ?thesis by auto
    next
      case False
      with d jobs_pick [OF jb, of d n] show ?thesis by (simp add: cl)
    qed
  qed (use jobs_sets [OF jb] k(1) in \<open>auto simp: subset_iff\<close>)
  moreover have "boot_inv ?s" using b m by (simp add: boot_inv_def goto_def)
  ultimately show ?thesis by (simp add: offl_inv_def)
qed

lemma inv_clients:
  assumes inv: "offl_inv s" and m: "mpc s = M_run"
    and cl: "\<And>d. clients s d = clients s' d \<or> {clients s d, clients s' d} = {None, Some C_out}"
    and same: "helpers s' = helpers s" "mpc s' = mpc s" "works s' = works s" "rets s' = rets s" "nextj s' = nextj s"
      "noffths s' = noffths s"
    and cur: "clients s' (cur s') \<noteq> None"
  shows "offl_inv s'"
proof -
  from inv have u: "users_ok s" and jb: "jobs_ok s" and b: "boot_inv s" by (simp_all add: offl_inv_def)

  have pc: "clients s' d = Some p \<longleftrightarrow> clients s d = Some p" if "p \<noteq> C_out" for d p
    using cl [of d] that by (auto simp: doubleton_eq_iff)
  have job: "job s' d = job s d" for d using cl [of d] by (auto simp: job_def doubleton_eq_iff)
  have "users_ok s'" by (rule users_free [OF u, of _ "{}"]) (use same pc in auto)
  moreover have "jobs_ok s'" using jb unfolding jobs_ok_def job same by (simp add: pc)
  moreover have "boot_inv s'" using b m cur by (simp add: boot_inv_def same)
  ultimately show ?thesis by (simp add: offl_inv_def)
qed

text \<open>The start.\<close>

lemma boot_jobs: "jobs_ok s \<Longrightarrow> jobs_ok (s\<lparr>helpers := hs, mpc := m\<rparr>)"
  by (simp add: jobs_ok_def job_def)

lemma users_quiet:
  assumes "\<And>c. clients s c = None \<or> clients s c = Some C_out"
  shows "users_ok s \<longleftrightarrow> (\<forall>i < ready_helpers s. helper_ok {} (helpers s ! i) None)"
proof -
  have none: "clients s c \<noteq> Some (C_on st i j)" for c st i j using assms [of c] by auto
  then show ?thesis by (auto simp: users_ok_def)
qed

lemma inv_create:
  assumes inv: "offl_inv s" and m: "mpc s = M_create" and len: "length (helpers s) < noffths s"
  shows "offl_inv (s\<lparr>helpers := helpers s @ [new_helper], mpc := M_wait\<rparr>)" (is "offl_inv ?s")
proof -
  from inv have u: "users_ok s" and jb: "jobs_ok s" and b: "boot_inv s" by (simp_all add: offl_inv_def)
  have q: "clients s c = None \<or> clients s c = Some C_out" for c using b m by (simp add: boot_inv_def)
  then have q': "clients ?s c = None \<or> clients ?s c = Some C_out" for c by simp
  have "users_ok ?s"
    using u unfolding users_quiet [of s, OF q] users_quiet [of ?s, OF q'] using m by (simp add: ready_helpers_def nth_append)
  moreover have "boot_inv ?s" using b q m len by (simp add: boot_inv_def boot_ok_def new_helper_def)
  ultimately show ?thesis using boot_jobs [OF jb] by (simp add: offl_inv_def)
qed

lemma inv_up:
  assumes inv: "offl_inv s" and m: "mpc s = M_wait" and i: "i = length (helpers s) - 1" and w: "main_sigwait (helpers s ! i) = Some h"
  shows "offl_inv (on_helper i h (s\<lparr>mpc := (if hstate h = B6B_OFFLOAD_UP then M_idle else M_wait)\<rparr>))" (is "offl_inv ?s")
proof -
  from inv have u: "users_ok s" and jb: "jobs_ok s" and b: "boot_inv s" by (simp_all add: offl_inv_def)
  have ne: "helpers s \<noteq> []" and q: "\<And>c. clients s c = None \<or> clients s c = Some C_out" and "boot_ok (last (helpers s))"
    using b m by (simp_all add: boot_inv_def)
  then have bo: "boot_ok (helpers s ! i)" using i by (simp add: last_conv_nth)
  have h: "hstate h = B6B_OFFLOAD_UP" "hpc h = H_sigwait" "hsig h = 0" "msig h = 0"
    using bo w by (cases "msig (helpers s ! i)"; auto simp: boot_ok_def main_sigwait.simps)+
  have last: "last ((helpers s)[i := h]) = h" using ne i by (simp add: last_list_update)
  have q': "clients ?s c = None \<or> clients ?s c = Some C_out" for c using q [of c] by (simp add: on_helper_def)
  have "boot_inv ?s" using b h q ne last by (simp add: boot_inv_def on_helper_def m)
  moreover have "users_ok ?s"
    using u unfolding users_quiet [of s, OF q] users_quiet [of ?s, OF q'] using m i h(1) by (simp add: ready_helpers_def on_helper_def)
  moreover have "jobs_ok ?s" using jb by (simp add: jobs_ok_def job_def on_helper_def)
  ultimately show ?thesis by (simp add: offl_inv_def)
qed

lemma inv_idle_up:
  assumes inv: "offl_inv s" and m: "mpc s = M_idle" and i: "i = length (helpers s) - 1"
  shows "offl_inv (on_helper i (set_idle (helpers s ! i)) (s\<lparr>mpc := M_create\<rparr>))" (is "offl_inv ?s")
proof -
  from inv have u: "users_ok s" and jb: "jobs_ok s" and b: "boot_inv s" by (simp_all add: offl_inv_def)
  have ne: "helpers s \<noteq> []" and q: "\<And>c. clients s c = None \<or> clients s c = Some C_out" using b m by (simp_all add: boot_inv_def)
  have i': "helpers s ! i = last (helpers s)" "length (helpers s) = Suc i" using ne i by (simp_all add: last_conv_nth)
  have h: "helper_ok {} (set_idle (helpers s ! i)) None" using b m i' by (simp add: boot_inv_def Let_def set_idle_def)
  have old: "helper_ok {} (helpers s ! k) None" if "k < i" for k
    using u that unfolding users_quiet [of s, OF q] using m i' by (simp add: ready_helpers_def)
  have q': "clients ?s c = None \<or> clients ?s c = Some C_out" for c using q [of c] by (simp add: on_helper_def)
  have "users_ok ?s" unfolding users_quiet [of ?s, OF q']
    using h old i'(2) by (simp add: ready_helpers_def on_helper_def nth_list_update less_Suc_eq)
  moreover have "boot_inv ?s" using b q m by (simp add: boot_inv_def on_helper_def)
  moreover have "jobs_ok ?s" using jb by (simp add: jobs_ok_def job_def on_helper_def)
  ultimately show ?thesis by (simp add: offl_inv_def)
qed

lemma inv_created:
  assumes inv: "offl_inv s" and m: "mpc s = M_create" and len: "length (helpers s) = noffths s"
  shows "offl_inv (s\<lparr>mpc := M_run\<rparr>)" (is "offl_inv ?s")
proof -
  from inv have u: "users_ok s" and jb: "jobs_ok s" and b: "boot_inv s" by (simp_all add: offl_inv_def)
  have q: "clients s c = None \<or> clients s c = Some C_out" for c using b m by (simp add: boot_inv_def)
  then have q': "clients ?s c = None \<or> clients ?s c = Some C_out" for c by simp
  have "users_ok ?s"
    using u unfolding users_quiet [of s, OF q] users_quiet [of ?s, OF q'] using m by (simp add: ready_helpers_def)
  moreover have "boot_inv ?s" using b m len by (simp add: boot_inv_def)
  ultimately show ?thesis using jb by (simp add: offl_inv_def jobs_ok_def job_def)
qed


lemma offl_inv_init: "offl_inv (offl_init n)"
  by (simp add: offl_inv_def offl_init_def users_ok_def jobs_ok_def boot_inv_def job_def ready_helpers_def)

lemma goto_same: "goto pc s = goto pc (on_helper i (helpers s ! i) s)"
  by (simp add: on_helper_def)

lemma inv_spawn:
  assumes inv: "offl_inv s" and m: "mpc s = M_run" and c: "clients s c = None" 
  shows "offl_inv (s\<lparr>clients := (clients s)(c \<mapsto> C_out)\<rparr>)"
proof (rule inv_clients [OF inv m])
  have "clients s (cur s) \<noteq> None" using inv by (simp add: offl_inv_def boot_inv_def)
  then show "clients (s\<lparr>clients := (clients s)(c \<mapsto> C_out)\<rparr>) (cur (s\<lparr>clients := (clients s)(c \<mapsto> C_out)\<rparr>)) \<noteq> None" by simp
qed (use c in simp_all)

lemma inv_exit:
  assumes inv: "offl_inv s" and m: "mpc s = M_run" and c: "clients s (cur s) = Some C_out" "c \<in> others s"
  shows "offl_inv (s\<lparr>clients := (clients s)(cur s := None), cur := c\<rparr>)"
  by (rule inv_clients [OF inv m]) (use c in \<open>auto simp: others_def\<close>)

lemma inv_step:
  assumes inv: "offl_inv s" and step: "offl_step s s'"
  shows "offl_inv s'"
  using step
proof cases
  case (helper i h out)
  then show ?thesis using inv_helper [OF inv] by simp
next
  case create
  then show ?thesis using inv_create [OF inv] by simp
next
  case created
  then show ?thesis using inv_created [OF inv] by simp
next
  case (up i h)
  show ?thesis unfolding up(1) by (rule inv_up [OF inv up(2-4)])
next
  case (idle_up i)
  show ?thesis unfolding idle_up(1) by (rule inv_idle_up [OF inv idle_up(2,3)])
next
  case direct
  then show ?thesis using inv_direct [OF inv] by simp
next
  case call
  show ?thesis unfolding call(1)
    using inv_goto [OF inv call(2,3), of "C_pick (nextj s)" "Suc (nextj s)" "failed s"] by simp
next
  case (pick j i)
  show ?thesis unfolding pick(1) by (rule inv_pick [OF inv pick(2-4)])
next
  case (pick_yield j c)
  show ?thesis unfolding pick_yield(1) by (rule inv_cur [OF inv pick_yield(5)])
next
  case (pick_fail j)
  show ?thesis unfolding pick_fail(1)
    using inv_goto [OF inv pick_fail(2,3), of C_out "nextj s" "failed s @ [j]"] by simp
next
  case (set_fn i j)
  show ?thesis unfolding set_fn(1) by (rule inv_stage [OF inv set_fn(2,3)]) (simp add: start_fn_def)
next
  case (kill i j)
  show ?thesis unfolding kill(1) by (rule inv_stage [OF inv kill(2,3)]) (auto simp: start_kill_def)
next
  case (poll_break i j)
  show ?thesis unfolding poll_break(1) goto_same [of _ s i] by (rule inv_stage [OF inv poll_break(2,3)]) simp
next
  case (poll_yield i j d c)
  have "offl_inv (goto (C_on S_resume i j) s)"
    unfolding goto_same [of _ s i] by (rule inv_stage [OF inv poll_yield(2,3)]) simp
  moreover have "c \<in> others (goto (C_on S_resume i j) s)" using poll_yield(6) by (auto simp: others_def goto_def)
  ultimately show ?thesis unfolding poll_yield(1) by (rule inv_cur)
next
  case (resume_done i j)
  show ?thesis unfolding resume_done(1) goto_same [of _ s i] by (rule inv_stage [OF inv resume_done(2,3)]) simp
next
  case (resume_again i j)
  show ?thesis unfolding resume_again(1) goto_same [of _ s i] by (rule inv_stage [OF inv resume_again(2,3)]) simp
next
  case (finish i j h)
  show ?thesis unfolding finish(1) by (rule inv_stage [OF inv finish(2,3)]) (rule main_sigwait_ok [OF finish(4)])
next
  case (idle i j)
  show ?thesis unfolding idle(1) by (rule inv_idle [OF inv idle(2,3)])
next
  case (yield c)
  show ?thesis unfolding yield(1) by (rule inv_cur [OF inv yield(4)])
next
  case (spawn c)
  show ?thesis unfolding spawn(1) by (rule inv_spawn [OF inv spawn(2,4)])
next
  case (exit c)
  show ?thesis unfolding exit(1) by (rule inv_exit [OF inv exit(2-4)])
qed

lemma reach_inv: "offl_reach n s \<Longrightarrow> offl_inv s"
  by (induction rule: offl_reach.induct) (simp_all add: offl_inv_init inv_step)


lemma step_noffths: "offl_step s s' \<Longrightarrow> noffths s' = noffths s"
  by (induction rule: offl_step.induct) (simp_all add: goto_def on_helper_def)

lemma reach_noffths: "offl_reach n s \<Longrightarrow> noffths s = n"
  by (induction rule: offl_reach.induct) (simp_all add: offl_init_def step_noffths)

text \<open>While a thread looks for an offload thread and finds none, another thread is on each.\<close>

lemma pick_busy:
  assumes inv: "offl_inv s" and m: "mpc s = M_run" and n: "0 < noffths s"
    and c: "clients s (cur s) = Some (C_pick j)" and p: "b6b_pick_thread (helpers s) = None"
  obtains d st j' where "d \<in> others s" and "clients s d = Some (C_on st 0 j')"
proof -
  from inv have u: "users_ok s" and b: "boot_inv s" by (simp_all add: offl_inv_def)
  have len: "0 < length (helpers s)" "0 < ready_helpers s" using b m n by (simp_all add: boot_inv_def ready_helpers_def)
  have "\<exists>d st j'. clients s d = Some (C_on st 0 j')"
  proof (rule ccontr)
    assume "\<nexists>d st j'. clients s d = Some (C_on st 0 j')"
    then have "helper_ok (set (works s)) (helpers s ! 0) None" by (intro users_none [OF u len(2)]) blast
    then have "b6b_offload_ready (helpers s ! 0)" by (simp add: b6b_offload_ready_def)
    with p len(1) show False unfolding pick_thread_None by blast
  qed
  then obtain d st j' where d: "clients s d = Some (C_on st 0 j')" by blast
  with c have "d \<in> others s" by (auto simp: others_def)
  from that [OF this d] show thesis .
qed

lemma step_failed:
  assumes inv: "offl_inv s" and n: "0 < noffths s" and step: "offl_step s s'"
  shows "failed s' = failed s"
  using step
proof cases
  case (pick_fail j)
  from pick_busy [OF inv pick_fail(2) n pick_fail(3,4)] pick_fail(5) show ?thesis by blast
qed (simp_all add: goto_def on_helper_def)

lemma reach_failed:
  assumes "offl_reach n s" and "0 < n"
  shows "failed s = []"
  using assms(1)
proof (induction rule: offl_reach.induct)
  case (step s s')
  with step_failed [OF reach_inv [OF step.hyps(1)] _ step.hyps(2)] reach_noffths [OF step.hyps(1)] assms(2) show ?case by simp
qed (simp add: offl_init_def)

section \<open>The answer\<close>

text \<open>The steps of an offload thread by itself.\<close>

primrec helper_steps :: "nat \<Rightarrow> helper \<Rightarrow> (helper \<times> nat list) option" where
  "helper_steps 0 h = Some (h, [])"
| "helper_steps (Suc k) h = (case helper_step h of
     None \<Rightarrow> None
   | Some (h1, out) \<Rightarrow> map_option (\<lambda>(h2, out2). (h2, out @ out2)) (helper_steps k h1))"

lemma helper_answers:
  assumes "helper_ok R h (Some (S_finish, j))"
  obtains k h' out where "k \<le> 5" and "helper_steps k h = Some (h', out)" and "msig h' = 1" and "hstate h' = B6B_OFFLOAD_DONE"
    and "out = (if j \<in> R then [] else [j])"
proof -
  note steps = helper_step.simps eval_nat_numeral
  from assms consider "hpc h = H_sigwait" "hsig h = 1" "j \<notin> R" | "hpc h = H_load" "j \<notin> R" | "hpc h = H_call" "j \<notin> R"
    | "hpc h = H_done" "j \<in> R" | "hpc h = H_kill" "j \<in> R" | "hpc h = H_sigwait" "msig h = 1" "j \<in> R" by auto
  then show thesis
  proof cases
    case 1
    with assms show thesis by (intro that [of 5 "h\<lparr>hstate := B6B_OFFLOAD_DONE, hpc := H_sigwait, hsig := 0, msig := 1\<rparr>" "[j]"]) (auto simp: steps)
  next
    case 2
    with assms show thesis by (intro that [of 4 "h\<lparr>hstate := B6B_OFFLOAD_DONE, hpc := H_sigwait, hsig := 0, msig := 1\<rparr>" "[j]"]) (auto simp: steps)
  next
    case 3
    with assms show thesis by (intro that [of 3 "h\<lparr>hstate := B6B_OFFLOAD_DONE, hpc := H_sigwait, hsig := 0, msig := 1\<rparr>" "[j]"]) (auto simp: steps)
  next
    case 4
    with assms show thesis by (intro that [of 2 "h\<lparr>hstate := B6B_OFFLOAD_DONE, hpc := H_sigwait, hsig := 0, msig := 1\<rparr>" "[]"]) (auto simp: steps)
  next
    case 5
    with assms show thesis by (intro that [of 1 "h\<lparr>hstate := B6B_OFFLOAD_DONE, hpc := H_sigwait, hsig := 0, msig := 1\<rparr>" "[]"]) (auto simp: steps)
  next
    case 6
    with assms show thesis by (intro that [of 0 h "[]"]) auto
  qed
qed


section \<open>No call is lost\<close>

definition accounted :: "offl \<Rightarrow> bool" where
  "accounted s \<longleftrightarrow> (\<forall>j < nextj s. j \<in> set (rets s) \<or> j \<in> set (failed s) \<or> (\<exists>c. job s c = Some j))"

lemma accounted_same:
  assumes "accounted s" and "job s' = job s" and "nextj s' = nextj s" and "rets s' = rets s" and "failed s' = failed s"
  shows "accounted s'"
  using assms by (simp add: accounted_def)

lemma job_goto: "job s (cur s) = job_of pc \<Longrightarrow> job (goto pc (on_helper i h s)) = job s"
  by (auto simp: job_def goto_def on_helper_def fun_eq_iff)

lemma accounted_stage:
  assumes "accounted s" and "clients s (cur s) = Some pc0" and "job_of pc = job_of pc0"
  shows "accounted (goto pc (on_helper i h s))"
  by (rule accounted_same [OF assms(1) job_goto]) (use assms(2,3) in \<open>simp_all add: job_def goto_def on_helper_def\<close>)

lemma accounted_end:
  assumes "accounted s" and "clients s (cur s) = Some pc0" and "job_of pc0 = Some j"
    and "clients s' = (clients s)(cur s \<mapsto> C_out)" and "nextj s' = nextj s"
    and "set (rets s') \<union> set (failed s') = insert j (set (rets s) \<union> set (failed s))"
  shows "accounted s'"
  unfolding accounted_def
proof (intro allI impI)
  fix k assume "k < nextj s'"
  with assms(1,5) consider "k \<in> set (rets s) \<union> set (failed s)" | c where "job s c = Some k" by (auto simp: accounted_def)
  then show "k \<in> set (rets s') \<or> k \<in> set (failed s') \<or> (\<exists>c. job s' c = Some k)"
  proof cases
    case 1
    with assms(6) show ?thesis by blast
  next
    case (2 c)
    show ?thesis
    proof (cases "c = cur s")
      case True
      with 2 assms(2,3) have "k = j" by (simp add: job_def)
      with assms(6) show ?thesis by blast
    next
      case False
      with 2 assms(4) have "job s' c = Some k" by (simp add: job_def)
      then show ?thesis by blast
    qed
  qed
qed

lemma step_accounted:
  assumes "offl_step s s'" and "accounted s"
  shows "accounted s'"
  using assms(1)
proof cases
  case direct
  then show ?thesis using assms(2) by (auto simp: accounted_def job_def less_Suc_eq)
next
  case call
  have "job s' c = (if c = cur s then Some (nextj s) else job s c)" for c using call(1) by (simp add: job_def goto_def)
  moreover have "job s (cur s) = None" using call(3) by (simp add: job_def)
  ultimately show ?thesis using assms(2) call(1) unfolding accounted_def
    by (simp add: goto_def less_Suc_eq) (metis option.distinct(1))
next
  case (pick j i)
  show ?thesis unfolding pick(1) by (rule accounted_stage [OF assms(2) pick(3)]) simp
next
  case (set_fn i j)
  show ?thesis unfolding set_fn(1) by (rule accounted_stage [OF assms(2) set_fn(3)]) simp
next
  case (kill i j)
  show ?thesis unfolding kill(1) by (rule accounted_stage [OF assms(2) kill(3)]) simp
next
  case (finish i j h)
  show ?thesis unfolding finish(1) by (rule accounted_stage [OF assms(2) finish(3)]) simp
next
  case (poll_break i j)
  show ?thesis unfolding poll_break(1) goto_same [of _ s i] by (rule accounted_stage [OF assms(2) poll_break(3)]) simp
next
  case (resume_done i j)
  show ?thesis unfolding resume_done(1) goto_same [of _ s i] by (rule accounted_stage [OF assms(2) resume_done(3)]) simp
next
  case (resume_again i j)
  show ?thesis unfolding resume_again(1) goto_same [of _ s i] by (rule accounted_stage [OF assms(2) resume_again(3)]) simp
next
  case (poll_yield i j d c)
  have "accounted (goto (C_on S_resume i j) s)"
    unfolding goto_same [of _ s i] by (rule accounted_stage [OF assms(2) poll_yield(3)]) simp
  then show ?thesis unfolding poll_yield(1) by (rule accounted_same) (simp_all add: job_def fun_eq_iff)
next
  case (idle i j)
  show ?thesis by (rule accounted_end [OF assms(2) idle(3)]) (use idle(1) in \<open>simp_all add: goto_def on_helper_def\<close>)
next
  case (pick_fail j)
  show ?thesis by (rule accounted_end [OF assms(2) pick_fail(3)]) (use pick_fail(1) in \<open>simp_all add: goto_def\<close>)
next
  case (spawn c)
  then have "job s' = job s" by (auto simp: job_def fun_eq_iff)
  then show ?thesis by (rule accounted_same [OF assms(2)]) (simp_all add: spawn(1))
next
  case (exit c)
  then have "job s' = job s" by (auto simp: job_def fun_eq_iff)
  then show ?thesis by (rule accounted_same [OF assms(2)]) (simp_all add: exit(1))
qed (use assms(2) in \<open>auto simp: accounted_def job_def on_helper_def\<close>)

lemma reach_accounted: "offl_reach n s \<Longrightarrow> accounted s"
proof (induction rule: offl_reach.induct)
  case init
  then show ?case by (simp add: accounted_def offl_init_def)
qed (rule step_accounted)

end
