(* ===== verification/Offload_Props.thy ===== *)
theory Offload_Props
  imports Offload
begin

text \<open>
  What offloading promises to the code that blocks: a work runs once, before its call returns and
  while its caller waits; a call succeeds; and no thread waits for ever.  \<open>demo_call\<close> is a run with
  one offload thread and two threads of the interpreter that both use it.
\<close>

section \<open>A run\<close>

definition demo :: "helper \<Rightarrow> (nat \<Rightarrow> cpc option) \<Rightarrow> nat \<Rightarrow> nat \<Rightarrow> offl" where
  "demo h cl c j = \<lparr>helpers = [h], mpc = M_run, noffths = 1, clients = cl, cur = c, nextj = j, works = [], rets = [], failed = []\<rparr>"

definition demo_helper :: "b6b_offload_state \<Rightarrow> hpc \<Rightarrow> nat \<Rightarrow> helper" where
  "demo_helper st pc k = \<lparr>hstate = st, hfn = 0, hpc = pc, hsig = k, msig = 0\<rparr>"

abbreviation "demo_idle \<equiv> demo_helper B6B_OFFLOAD_IDLE H_sigwait 0"

lemma demo_boot: "offl_reach 1 (demo demo_idle [0 \<mapsto> C_out] 0 0)"
proof -
  let ?b = "\<lambda>hs m. \<lparr>helpers = hs, mpc = m, noffths = 1, clients = [0 \<mapsto> C_out], cur = 0, nextj = 0, works = [], rets = [], failed = []\<rparr>"
  let ?h = "\<lambda>st pc k. \<lparr>hstate = st, hfn = 0, hpc = pc, hsig = 0, msig = k\<rparr>"
  note defs = demo_def demo_helper_def offl_init_def new_helper_def on_helper_def set_idle_def
  have "offl_reach 1 (?b [] M_create)" using offl_reach.init [of 1] by (simp add: offl_init_def)
  then have "offl_reach 1 (?b [?h B6B_OFFLOAD_INIT H_mask 0] M_wait)"
    by (rule offl_reach.step) (use offl_step.create [of "?b [] M_create"] in \<open>simp add: defs\<close>)
  then have "offl_reach 1 (?b [?h B6B_OFFLOAD_INIT H_up 0] M_wait)"
    by (rule offl_reach.step) (use offl_step.helper [of 0 "?b [?h B6B_OFFLOAD_INIT H_mask 0] M_wait"] in \<open>simp add: defs helper_step.simps\<close>)
  then have "offl_reach 1 (?b [?h B6B_OFFLOAD_UP H_kill_up 0] M_wait)"
    by (rule offl_reach.step) (use offl_step.helper [of 0 "?b [?h B6B_OFFLOAD_INIT H_up 0] M_wait"] in \<open>simp add: defs helper_step.simps\<close>)
  then have "offl_reach 1 (?b [?h B6B_OFFLOAD_UP H_sigwait 1] M_wait)"
    by (rule offl_reach.step) (use offl_step.helper [of 0 "?b [?h B6B_OFFLOAD_UP H_kill_up 0] M_wait"] in \<open>simp add: defs helper_step.simps\<close>)
  then have "offl_reach 1 (?b [?h B6B_OFFLOAD_UP H_sigwait 0] M_idle)"
    by (rule offl_reach.step) (use offl_step.up [of "?b [?h B6B_OFFLOAD_UP H_sigwait 1] M_wait" 0] in \<open>simp add: defs main_sigwait.simps\<close>)
  then have "offl_reach 1 (?b [?h B6B_OFFLOAD_IDLE H_sigwait 0] M_create)"
    by (rule offl_reach.step) (use offl_step.idle_up [of "?b [?h B6B_OFFLOAD_UP H_sigwait 0] M_idle" 0] in \<open>simp add: defs\<close>)
  then show ?thesis
    by (rule offl_reach.step) (use offl_step.created [of "?b [?h B6B_OFFLOAD_IDLE H_sigwait 0] M_create"] in \<open>simp add: defs\<close>)
qed

text \<open>
  Thread 0 uses the offload thread and yields; thread 1 finds it busy and yields; so thread 0 blocks
  for its answer, and the offload thread takes the signal.
\<close>

lemma demo_call:
  "offl_reach 1 (demo (demo_helper B6B_OFFLOAD_RUNNING H_call 0) [0 \<mapsto> C_on S_finish 0 0, 1 \<mapsto> C_pick 1] 0 2)"
proof -
  let ?r = "demo_helper B6B_OFFLOAD_RUNNING H_sigwait"
  note defs = demo_def demo_helper_def on_helper_def goto_def others_def start_running_def start_fn_def start_kill_def
    b6b_offload_ready_def b6b_offload_done_def
  note run = offl_reach.step
  from demo_boot have "offl_reach 1 (demo demo_idle [0 \<mapsto> C_out, 1 \<mapsto> C_out] 0 0)"
    by (rule run) (use offl_step.spawn [of "demo demo_idle [0 \<mapsto> C_out] 0 0" 1] in \<open>simp add: defs\<close>)
  then have "offl_reach 1 (demo demo_idle [0 \<mapsto> C_pick 0, 1 \<mapsto> C_out] 0 1)"
    by (rule run) (use offl_step.call [of "demo demo_idle [0 \<mapsto> C_out, 1 \<mapsto> C_out] 0 0"] in \<open>simp add: defs fun_upd_twist\<close>)
  then have "offl_reach 1 (demo (?r 0) [0 \<mapsto> C_on S_set 0 0, 1 \<mapsto> C_out] 0 1)"
    by (rule run) (use offl_step.pick [of "demo demo_idle [0 \<mapsto> C_pick 0, 1 \<mapsto> C_out] 0 1" 0 0] in \<open>simp add: defs fun_upd_twist\<close>)
  then have "offl_reach 1 (demo (?r 0) [0 \<mapsto> C_on S_kill 0 0, 1 \<mapsto> C_out] 0 1)"
    by (rule run) (use offl_step.set_fn [of "demo (?r 0) [0 \<mapsto> C_on S_set 0 0, 1 \<mapsto> C_out] 0 1" 0 0] in \<open>simp add: defs fun_upd_twist\<close>)
  then have "offl_reach 1 (demo (?r 1) [0 \<mapsto> C_on S_poll 0 0, 1 \<mapsto> C_out] 0 1)"
    by (rule run) (use offl_step.kill [of "demo (?r 0) [0 \<mapsto> C_on S_kill 0 0, 1 \<mapsto> C_out] 0 1" 0 0] in \<open>simp add: defs fun_upd_twist\<close>)
  then have "offl_reach 1 (demo (?r 1) [0 \<mapsto> C_on S_resume 0 0, 1 \<mapsto> C_out] 1 1)"
    by (rule run) (use offl_step.poll_yield [of "demo (?r 1) [0 \<mapsto> C_on S_poll 0 0, 1 \<mapsto> C_out] 0 1" 0 0 1 1] in \<open>simp add: defs fun_upd_twist\<close>)
  then have "offl_reach 1 (demo (?r 1) [0 \<mapsto> C_on S_resume 0 0, 1 \<mapsto> C_pick 1] 1 2)"
    by (rule run) (use offl_step.call [of "demo (?r 1) [0 \<mapsto> C_on S_resume 0 0, 1 \<mapsto> C_out] 1 1"] in \<open>simp add: defs numeral_2_eq_2\<close>)
  then have "offl_reach 1 (demo (?r 1) [0 \<mapsto> C_on S_resume 0 0, 1 \<mapsto> C_pick 1] 0 2)"
    by (rule run) (use offl_step.pick_yield [of "demo (?r 1) [0 \<mapsto> C_on S_resume 0 0, 1 \<mapsto> C_pick 1] 1 2" 1 0] in \<open>simp add: defs\<close>)
  then have "offl_reach 1 (demo (?r 1) [0 \<mapsto> C_on S_poll 0 0, 1 \<mapsto> C_pick 1] 0 2)"
    by (rule run) (use offl_step.resume_again [of "demo (?r 1) [0 \<mapsto> C_on S_resume 0 0, 1 \<mapsto> C_pick 1] 0 2" 0 0] in \<open>simp add: defs fun_upd_twist\<close>)
  then have "offl_reach 1 (demo (?r 1) [0 \<mapsto> C_on S_finish 0 0, 1 \<mapsto> C_pick 1] 0 2)"
    by (rule run) (use offl_step.poll_break [of "demo (?r 1) [0 \<mapsto> C_on S_poll 0 0, 1 \<mapsto> C_pick 1] 0 2" 0 0] in \<open>simp add: defs fun_upd_twist\<close>)
  then have "offl_reach 1 (demo (demo_helper B6B_OFFLOAD_RUNNING H_load 0) [0 \<mapsto> C_on S_finish 0 0, 1 \<mapsto> C_pick 1] 0 2)"
    by (rule run) (use offl_step.helper [of 0 "demo (?r 1) [0 \<mapsto> C_on S_finish 0 0, 1 \<mapsto> C_pick 1] 0 2"] in \<open>simp add: defs helper_step.simps\<close>)
  then show ?thesis
    by (rule run) (use offl_step.helper [of 0 "demo (demo_helper B6B_OFFLOAD_RUNNING H_load 0) [0 \<mapsto> C_on S_finish 0 0, 1 \<mapsto> C_pick 1] 0 2"]
      in \<open>simp add: defs helper_step.simps\<close>)
qed

text \<open>Then it has done the work.\<close>

lemma demo_done:
  "offl_reach 1 (demo (demo_helper B6B_OFFLOAD_RUNNING H_done 0) [0 \<mapsto> C_on S_finish 0 0, 1 \<mapsto> C_pick 1] 0 2\<lparr>works := [0]\<rparr>)"
  using demo_call
  by (rule offl_reach.step) (use offl_step.helper [of 0 "demo (demo_helper B6B_OFFLOAD_RUNNING H_call 0) [0 \<mapsto> C_on S_finish 0 0, 1 \<mapsto> C_pick 1] 0 2"]
      in \<open>simp add: demo_def demo_helper_def on_helper_def helper_step.simps\<close>)


text \<open>A thread of the interpreter that runs can go on, or the offload thread it waits for can.\<close>

lemma run_progress:
  assumes inv: "offl_inv s" and M_run: "mpc s = M_run" and n: "0 < noffths s"
  shows "\<exists>s'. offl_step s s'"
proof -
  from inv have u: "users_ok s" and b: "boot_inv s" by (simp_all add: offl_inv_def)
  from b obtain pc where pc: "clients s (cur s) = Some pc" by (auto simp: boot_inv_def)
  show ?thesis
  proof (cases pc)
    case C_out
    with pc M_run show ?thesis by (cases "others s = {}") (auto intro: offl_step.direct offl_step.call)
  next
    case (C_pick j)
    with pc M_run show ?thesis
      using pick_busy [OF inv M_run n, of j] by (cases "b6b_pick_thread (helpers s)") (auto intro: offl_step.pick offl_step.pick_yield)
  next
    case (C_on st i j)
    note c = pc [unfolded C_on]
    show ?thesis
    proof (cases st)
      case S_set
      with offl_step.set_fn [OF M_run] c show ?thesis by blast
    next
      case S_kill
      with offl_step.kill [OF M_run] c show ?thesis by blast
    next
      case S_poll
      with offl_step.poll_break [OF M_run] offl_step.poll_yield [OF M_run] c show ?thesis by blast
    next
      case S_resume
      with offl_step.resume_done [OF M_run] offl_step.resume_again [OF M_run] c show ?thesis by blast
    next
      case S_idle
      with offl_step.idle [OF M_run] c show ?thesis by blast
    next
      case S_finish
      have i: "i < length (helpers s)" "helper_ok (set (works s)) (helpers s ! i) (Some (S_finish, j))"
        using users_on [OF u c] M_run S_finish by (simp_all add: ready_helpers_def)
      show ?thesis
      proof (cases "main_sigwait (helpers s ! i)")
        case None
        with i(2) obtain r where "helper_step (helpers s ! i) = Some r"
          by (cases "hpc (helpers s ! i)") (auto simp: helper_step.simps main_sigwait.simps split: nat.splits)
        with i(1) offl_step.helper [of i s "fst r" "snd r"] show ?thesis by auto
      next
        case (Some h)
        with offl_step.finish [OF M_run] c S_finish show ?thesis by blast
      qed
    qed
  qed
qed

section \<open>Properties\<close>

text \<open>
  C20.  With an offload thread, in every reachable state: no work runs twice, a call that has
  returned has run its work, and every call made has returned 1 or is still being made, by a thread
  that has not left \<^verbatim>\<open>b6b_offload\<close>.  No call fails: the branch that the code calls a serious bug is
  not reached.
\<close>

theorem offload_runs_once:
  assumes "offl_reach n s" and "0 < n"
  shows "distinct (works s) \<and> distinct (rets s) \<and> set (rets s) \<subseteq> set (works s) \<and> set (works s) \<subseteq> {..<nextj s} \<and> failed s = []
    \<and> (\<forall>j < nextj s. j \<in> set (rets s) \<or> (\<exists>c. job s c = Some j))"
proof -
  have "jobs_ok s" using reach_inv [OF assms(1)] by (simp add: offl_inv_def)
  moreover have "failed s = []" by (rule reach_failed [OF assms])
  ultimately show ?thesis using jobs_sets [of s] reach_accounted [OF assms(1)] by (simp add: accounted_def)
qed

lemma offload_runs_once_witness:
  "let s = demo (demo_helper B6B_OFFLOAD_RUNNING H_done 0) [0 \<mapsto> C_on S_finish 0 0, 1 \<mapsto> C_pick 1] 0 2\<lparr>works := [0]\<rparr> in
     failed s = [] \<and> distinct (works s) \<and> nextj s = 2 \<and> rets s = []"
  using offload_runs_once [OF demo_done] by (simp add: demo_def)

text \<open>
  C21.  An offload thread serves one thread of the interpreter at a time, and while it is about to
  call a function, that function is the one of the thread on it, which waits: the data the function
  works on, on the stack of that thread, is alive and nobody else's.
\<close>

theorem offload_exclusive:
  assumes "offl_reach n s" and "i < length (helpers s)"
  shows "(\<forall>c c' st st' j j'. clients s c = Some (C_on st i j) \<longrightarrow> clients s c' = Some (C_on st' i j') \<longrightarrow> c = c')
    \<and> (hpc (helpers s ! i) = H_call \<longrightarrow>
        (\<exists>c st. clients s c = Some (C_on st i (hfn (helpers s ! i))) \<and> st \<in> {S_poll, S_resume, S_finish}))"
proof -
  from reach_inv [OF assms(1)] have u: "users_ok s" and b: "boot_inv s" by (simp_all add: offl_inv_def)
  have call: "\<exists>c st. clients s c = Some (C_on st i (hfn (helpers s ! i))) \<and> st \<in> {S_poll, S_resume, S_finish}"
    if h: "hpc (helpers s ! i) = H_call"
  proof -
    have ready: "i < ready_helpers s"
    proof (rule ccontr)
      assume "\<not> i < ready_helpers s"
      then have m: "mpc s \<in> {M_wait, M_idle}" and "i = length (helpers s) - 1" using assms(2) by (auto simp: ready_helpers_def split: if_splits)
      moreover have "helpers s \<noteq> []" using assms(2) by auto
      ultimately have "last (helpers s) = helpers s ! i" by (simp add: last_conv_nth)
      with b m h show False by (auto simp: boot_inv_def boot_ok_def Let_def)
    qed
    have "\<exists>c st j. clients s c = Some (C_on st i j)"
    proof (rule ccontr)
      assume "\<nexists>c st j. clients s c = Some (C_on st i j)"
      then have "helper_ok (set (works s)) (helpers s ! i) None" by (intro users_none [OF u ready]) blast
      with h show False by simp
    qed
    then obtain c st j where c: "clients s c = Some (C_on st i j)" by blast
    with users_on(2) [OF u c] h have "hfn (helpers s ! i) = j \<and> st \<in> {S_poll, S_resume, S_finish}" by (cases st) auto
    with c show ?thesis by blast
  qed
  have "\<forall>c c' st st' j j'. clients s c = Some (C_on st i j) \<longrightarrow> clients s c' = Some (C_on st' i j') \<longrightarrow> c = c'"
    using users_uniq [OF u] by blast
  with call show ?thesis by blast
qed

lemma offload_exclusive_witness:
  "\<exists>c st. clients (demo (demo_helper B6B_OFFLOAD_RUNNING H_call 0) [0 \<mapsto> C_on S_finish 0 0, 1 \<mapsto> C_pick 1] 0 2) c
      = Some (C_on st 0 0) \<and> st \<in> {S_poll, S_resume, S_finish}"
proof -
  have "helpers (demo h cl c j) = [h]" for h cl c j by (simp add: demo_def)
  with offload_exclusive [OF demo_call, of 0] show ?thesis by (simp add: demo_helper_def)
qed

text \<open>
  C22.  A thread that blocks for the answer of its offload thread gets it: within five steps of the
  offload thread alone the signal is pending, the work has run and its state is done.
\<close>

theorem offload_answers:
  assumes "offl_reach n s" and "clients s (cur s) = Some (C_on S_finish i j)"
  shows "\<exists>k h out. k \<le> 5 \<and> helper_steps k (helpers s ! i) = Some (h, out) \<and> main_sigwait h \<noteq> None \<and> b6b_offload_done h
    \<and> j \<in> set (works s @ out) \<and> distinct (works s @ out)"
proof -
  from reach_inv [OF assms(1)] have u: "users_ok s" and jb: "jobs_ok s" by (simp_all add: offl_inv_def)
  from helper_answers [OF users_on(2) [OF u assms(2)]] obtain k h out where
    "k \<le> 5" "helper_steps k (helpers s ! i) = Some (h, out)" "msig h = 1" "hstate h = B6B_OFFLOAD_DONE"
    "out = (if j \<in> set (works s) then [] else [j])" .
  with jobs_sets(2) [OF jb] show ?thesis
    by (intro exI [of _ k] exI [of _ h] exI [of _ out]) (simp add: b6b_offload_done_def main_sigwait.simps)
qed

lemma offload_answers_witness:
  "\<exists>k h out. k \<le> 5 \<and> helper_steps k (demo_helper B6B_OFFLOAD_RUNNING H_call 0) = Some (h, out) \<and> main_sigwait h \<noteq> None
    \<and> b6b_offload_done h \<and> 0 \<in> set out \<and> distinct out"
  using offload_answers [OF demo_call, of 0 0] by (simp add: demo_def)

text \<open>C23.  With an offload thread there is no deadlock: in every reachable state a thread can go on.\<close>

theorem offload_no_deadlock:
  assumes "offl_reach n s" and "0 < n"
  shows "\<exists>s'. offl_step s s'"
proof -
  from reach_inv [OF assms(1)] have inv: "offl_inv s" .
  then have b: "boot_inv s" by (simp add: offl_inv_def)
  have n: "0 < noffths s" using reach_noffths [OF assms(1)] assms(2) by simp
  show ?thesis
  proof (cases "mpc s")
    case M_create
    with b have "length (helpers s) < noffths s \<or> length (helpers s) = noffths s" by (auto simp: boot_inv_def)
    with offl_step.create [OF M_create] offl_step.created [OF M_create] show ?thesis by blast
  next
    case M_idle
    then show ?thesis by (blast intro: offl_step.idle_up)
  next
    case M_wait
    let ?i = "length (helpers s) - 1"
    from b M_wait have ne: "helpers s \<noteq> []" and "boot_ok (last (helpers s))" by (simp_all add: boot_inv_def)
    then have bo: "boot_ok (helpers s ! ?i)" by (simp add: last_conv_nth)
    show ?thesis
    proof (cases "helper_step (helpers s ! ?i)")
      case None
      with bo have "main_sigwait (helpers s ! ?i) \<noteq> None"
        by (cases "hpc (helpers s ! ?i)") (auto simp: helper_step.simps main_sigwait.simps boot_ok_def split: nat.splits)
      with offl_step.up [OF M_wait refl] show ?thesis by blast
    next
      case (Some r)
      with ne offl_step.helper [of ?i s "fst r" "snd r"] show ?thesis by auto
    qed
  next
    case M_run
    show ?thesis by (rule run_progress [OF inv M_run n])
  qed
qed

lemma offload_no_deadlock_witness:
  "\<exists>s'. offl_step (demo (demo_helper B6B_OFFLOAD_RUNNING H_call 0) [0 \<mapsto> C_on S_finish 0 0, 1 \<mapsto> C_pick 1] 0 2) s'"
  using offload_no_deadlock [OF demo_call] by simp

section \<open>The end\<close>

text \<open>
  When the last thread of the interpreter is outside of \<^verbatim>\<open>b6b_offload\<close>, as it is in \<^verbatim>\<open>b6b_join\<close>, every offload thread
  waits for a signal and has none to take or to answer: stopping it interrupts no work.
\<close>

theorem offload_stop_idle:
  assumes "offl_reach n s" and "mpc s = M_run" and "clients s (cur s) = Some C_out" and "others s = {}"
    and i: "i < length (helpers s)"
  shows "helper_step (helpers s ! i) = None \<and> msig (helpers s ! i) = 0
    \<and> helper_step (b6b_offload_thread_stop (helpers s ! i)) = None"
proof -
  from reach_inv [OF assms(1)] have u: "users_ok s" by (simp add: offl_inv_def)
  have "clients s c \<noteq> Some (C_on st i j)" for c st j
    using assms(3,4) by (cases "c = cur s") (auto simp: others_def)
  moreover have "i < ready_helpers s" using i assms(2) by (simp add: ready_helpers_def)
  ultimately have "helper_ok (set (works s)) (helpers s ! i) None" by (intro users_none [OF u])
  then show ?thesis by (simp add: helper_step.simps b6b_offload_thread_stop_def)
qed

end
