(* ===== verification/Zlib_Props.thy ===== *)
theory Zlib_Props
  imports Zlib Args_Props
begin

text \<open>
  Compression and back.  What is assumed of miniz are the two predicates \<open>deflate_law\<close> and
  \<open>inflate_law\<close>, what its manual says of a stream that is used as documented.
\<close>

section \<open>What is assumed of miniz\<close>

text \<open>
  \<open>C c t\<close>: \<open>c\<close> is a compressed form of the text \<open>t\<close>; which one \<^verbatim>\<open>mz_deflate\<close> makes may depend on the level and on how the
  text is cut into pieces.  \<open>D z0 z fed out\<close>: a deflating stream started in state \<open>z0\<close> is in state \<open>z\<close>, has taken
  \<open>fed\<close> and written \<open>out\<close>.  It takes all its input while the room is that of \<^verbatim>\<open>mz_deflateBound\<close>, and
  the end completes a compressed form of what was taken.
\<close>

definition deflate_law :: "'z miniz \<Rightarrow> int \<Rightarrow> (string \<Rightarrow> string \<Rightarrow> bool) \<Rightarrow> ('z \<Rightarrow> 'z \<Rightarrow> string \<Rightarrow> string \<Rightarrow> bool) \<Rightarrow> bool" where
  "deflate_law Z wbits C D \<longleftrightarrow>
     (\<forall>lv z. mz_deflateInit2 Z lv wbits = Some z \<longrightarrow> D z z [] [])
     \<and> (\<forall>z0 z fed out xs n room. D z0 z fed out \<longrightarrow> xs \<noteq> [] \<longrightarrow> length (fed @ xs) \<le> n
          \<longrightarrow> mz_deflateBound Z z0 n \<le> length out + room
          \<longrightarrow> (\<exists>o1 z'. mz_deflate Z z xs room False = (MZ_OK, length xs, o1, z') \<and> length o1 \<le> room
                \<and> D z0 z' (fed @ xs) (out @ o1)))
     \<and> (\<forall>z0 z fed out room. D z0 z fed out \<longrightarrow> mz_deflateBound Z z0 (length fed) \<le> length out + room
          \<longrightarrow> (\<exists>o1 z'. mz_deflate Z z [] room True = (MZ_STREAM_END, 0, o1, z') \<and> length o1 \<le> room
                \<and> C (out @ o1) fed))"

text \<open>
  \<open>J z rin rout\<close>: an inflating stream in state \<open>z\<close> will turn the compressed bytes \<open>rin\<close> into the rest \<open>rout\<close> of
  the text; a new stream does so for every compressed form, which is not empty.  A call stops only when the input or the
  room is used up, and reports the end of the stream when it has all the input and room is left, \<open>E\<close>; after
  that it reports the end again.
\<close>

definition inflate_law :: "'z miniz \<Rightarrow> int \<Rightarrow> (string \<Rightarrow> string \<Rightarrow> bool) \<Rightarrow> ('z \<Rightarrow> string \<Rightarrow> string \<Rightarrow> bool) \<Rightarrow> ('z \<Rightarrow> bool) \<Rightarrow> bool" where
  "inflate_law Z wbits C J E \<longleftrightarrow>
     (\<exists>z. mz_inflateInit2 Z wbits = Some z)
     \<and> (\<forall>c t z. C c t \<longrightarrow> mz_inflateInit2 Z wbits = Some z \<longrightarrow> c \<noteq> [] \<and> J z c t)
     \<and> (\<forall>z rin rout k room. J z rin rout \<longrightarrow> k \<le> length rin \<longrightarrow> 0 < k \<or> rin = [] \<and> length rout < room
          \<longrightarrow> (\<exists>r n o1 z' rout'. mz_inflate Z z (take k rin) room False = (r, n, o1, z') \<and> n \<le> k \<and> length o1 \<le> room
                \<and> rout = o1 @ rout' \<and> J z' (drop n rin) rout'
                \<and> (r = MZ_STREAM_END \<and> rout' = [] \<and> E z'
                   \<or> r = MZ_OK \<and> 0 < k \<and> (n = k \<or> length o1 = room))))
     \<and> (\<forall>z xs room. E z \<longrightarrow> (\<exists>z'. mz_inflate Z z xs room True = (MZ_STREAM_END, 0, [], z')))"

section \<open>Deflating\<close>

lemma mz_run_Some:
  assumes "z_in st + unat (avail_in st) \<le> length src"
    and "f (z_state st) (take (unat (avail_in st)) (drop (z_in st) src)) (unat (avail_out st)) fin = (r, n, o1, z')"
    and "n \<le> unat (avail_in st)" and "length o1 \<le> unat (avail_out st)" and "length (z_out st) + length o1 \<le> cap"
  shows "mz_run f fin src cap st = Some (r, st\<lparr>z_in := z_in st + n, avail_in := avail_in st - word_of_nat n,
     z_out := z_out st @ o1, avail_out := avail_out st - word_of_nat (length o1), z_state := z'\<rparr>)"
  using assms by (simp add: mz_run_def)

lemma unat_small: "n < 2 ^ LENGTH('a) \<Longrightarrow> unat (word_of_nat n :: 'a :: len word) = n"
  by (simp add: unat_of_nat take_bit_nat_eq_self)

lemma unat_sub_of_nat:
  assumes "n \<le> unat (w :: 'a :: len word)"
  shows "unat (w - word_of_nat n) = unat w - n"
proof -
  have "unat w < 2 ^ LENGTH('a)" by (rule unsigned_less)
  with assms have "n < 2 ^ LENGTH('a)" by linarith
  then have n: "unat (word_of_nat n :: 'a word) = n" by (rule unat_small)
  then have "word_of_nat n \<le> w" using assms by (simp add: word_le_nat_alt)
  then show ?thesis by (simp add: unat_sub n)
qed

text \<open>What is left to read, in 32 bits as the code computes it.\<close>

lemma rem_word:
  assumes "m \<le> n" and "n < 2 ^ 32"
  shows "ucast (ucast (word_of_nat n :: u32) - (word_of_nat m :: size_t)) = (word_of_nat (n - m) :: u32)"
proof -
  have n: "(ucast (word_of_nat n :: u32) :: size_t) = word_of_nat n"
    using assms(2) by (simp add: word_unat_eq_iff unsigned_ucast_eq unat_small take_bit_nat_eq_self)
  show ?thesis unfolding n using assms
    by (simp add: word_unat_eq_iff unsigned_ucast_eq unat_sub_of_nat unat_small take_bit_nat_eq_self)
qed

lemma deflate_feed:
  assumes "deflate_law Z wbits C D" and "D z0 z fed out" and "xs \<noteq> []" and "length (fed @ xs) \<le> n"
    and "mz_deflateBound Z z0 n \<le> length out + room"
  obtains o1 z' where "mz_deflate Z z xs room False = (MZ_OK, length xs, o1, z')" and "length o1 \<le> room"
    and "D z0 z' (fed @ xs) (out @ o1)"
  using assms unfolding deflate_law_def by blast

lemma do_deflate_run:
  assumes law: "deflate_law Z wbits C D" and n: "length src < 2 ^ 32"
    and b: "mz_deflateBound Z z0 (length src) \<le> dlen" and cap: "dlen < cap"
  shows "D z0 (z_state st) (take (z_in st) src) (z_out st) \<Longrightarrow> z_in st \<le> length src \<Longrightarrow>
    length (z_out st) + unat (avail_out st) = dlen \<Longrightarrow> rem = word_of_nat (length src - z_in st) \<Longrightarrow> (rem = 0 \<longrightarrow> avail_in st = 0) \<Longrightarrow>
    \<exists>st'. do_deflate Z src cap rem st = Some (True, st') \<and> D z0 (z_state st') src (z_out st')
      \<and> z_in st' = length src \<and> avail_in st' = 0 \<and> length (z_out st') + unat (avail_out st') = dlen"
proof (induction "length src - z_in st" arbitrary: st rem rule: less_induct)
  case less
  show ?case
  proof (cases "z_in st = length src")
    case True
    with less.prems show ?thesis by (subst do_deflate.simps) simp
  next
    case False
    define m where "m = min 65536 (length src - z_in st)"
    have m: "0 < m" "m \<le> length src - z_in st" "m < 2 ^ 32" using False less.prems(2) by (auto simp: m_def)
    have rem: "unat rem = length src - z_in st"
      using less.prems(4) n by (simp add: unat_of_nat take_bit_nat_eq_self)
    then have rem0: "rem \<noteq> 0" using m by auto
    let ?a = "if rem > B6B_DEFLATE_CHUNK_SZ then B6B_DEFLATE_CHUNK_SZ else rem"
    have a: "unat ?a = m" using rem by (simp add: m_def B6B_DEFLATE_CHUNK_SZ_def word_less_nat_alt min_def)
    let ?xs = "take m (drop (z_in st) src)"
    have xs: "?xs \<noteq> []" "length (take (z_in st) src @ ?xs) \<le> length src" "length ?xs = m"
      "take (z_in st) src @ ?xs = take (z_in st + m) src"
      using m less.prems(2) by (auto simp: take_add)
    have room: "mz_deflateBound Z z0 (length src) \<le> length (z_out st) + unat (avail_out st)"
      using b less.prems(3) by simp
    obtain o1 z' where
      o1: "mz_deflate Z (z_state st) ?xs (unat (avail_out st)) False = (MZ_OK, m, o1, z')" "length o1 \<le> unat (avail_out st)"
        "D z0 z' (take (z_in st + m) src) (z_out st @ o1)"
      using deflate_feed [OF law less.prems(1) xs(1,2) room] unfolding xs(3,4) .
    let ?st = "st\<lparr>z_in := z_in st + m, avail_in := ?a - word_of_nat m, z_out := z_out st @ o1,
      avail_out := avail_out st - word_of_nat (length o1), z_state := z'\<rparr>"
    have run: "mz_run (mz_deflate Z) False src cap (st\<lparr>avail_in := ?a\<rparr>) = Some (MZ_OK, ?st)"
      using mz_run_Some [of "st\<lparr>avail_in := ?a\<rparr>" src "mz_deflate Z" False MZ_OK m o1 z' cap] o1(1,2) a m less.prems(2,3) cap
      by simp
    have a0: "?a - word_of_nat m = 0" unfolding a [symmetric] by simp
    have out: "unat (avail_out st - word_of_nat (length o1)) = unat (avail_out st) - length o1"
      by (rule unat_sub_of_nat) (rule o1(2))
    have "\<exists>st'. do_deflate Z src cap (word_of_nat (length src - z_in ?st)) ?st = Some (True, st') \<and> D z0 (z_state st') src (z_out st')
      \<and> z_in st' = length src \<and> avail_in st' = 0 \<and> length (z_out st') + unat (avail_out st') = dlen"
      by (rule less.hyps) (use m o1(2,3) less.prems(2,3) a0 out in simp_all)
    moreover have "do_deflate Z src cap rem st = do_deflate Z src cap (word_of_nat (length src - z_in ?st)) ?st"
      using rem0 run rem_word [of "z_in st + m" "length src"] m less.prems(2) n
      by (subst do_deflate.simps) (simp add: total_in_def Let_def)
    ultimately show ?thesis by simp
  qed
qed

section \<open>Inflating\<close>

lemma inflate_law_call:
  assumes "inflate_law Z wbits C J E" and "J z rin rout" and "k \<le> length rin"
    and "0 < k \<or> rin = [] \<and> length rout < room"
  obtains r n o1 z' rout' where "mz_inflate Z z (take k rin) room False = (r, n, o1, z')" and "n \<le> k"
    and "length o1 \<le> room" and "rout = o1 @ rout'" and "J z' (drop n rin) rout'"
    and "r = MZ_STREAM_END \<and> rout' = [] \<and> E z' \<or> r = MZ_OK \<and> 0 < k \<and> (n = k \<or> length o1 = room)"
proof -
  from assms(1) have "\<forall>z rin rout k room. J z rin rout \<longrightarrow> k \<le> length rin \<longrightarrow> 0 < k \<or> rin = [] \<and> length rout < room
          \<longrightarrow> (\<exists>r n o1 z' rout'. mz_inflate Z z (take k rin) room False = (r, n, o1, z') \<and> n \<le> k \<and> length o1 \<le> room
                \<and> rout = o1 @ rout' \<and> J z' (drop n rin) rout'
                \<and> (r = MZ_STREAM_END \<and> rout' = [] \<and> E z'
                   \<or> r = MZ_OK \<and> 0 < k \<and> (n = k \<or> length o1 = room)))"
    unfolding inflate_law_def by (elim conjE)
  from this [rule_format, OF assms(2-4)] show thesis by (elim exE conjE) (rule that)
qed

text \<open>A stream that has written the part of the text \<open>t\<close> before \<open>rout\<close>.\<close>

definition inflating :: "('z \<Rightarrow> string \<Rightarrow> string \<Rightarrow> bool) \<Rightarrow> string \<Rightarrow> string \<Rightarrow> 'z mz_stream \<Rightarrow> string \<Rightarrow> bool" where
  "inflating J src t st rout \<longleftrightarrow> z_in st + unat (avail_in st) \<le> length src \<and> z_out st @ rout = t
     \<and> J (z_state st) (drop (z_in st) src) rout"

text \<open>What the work leaves when it succeeds.\<close>

definition inflated :: "('z \<Rightarrow> bool) \<Rightarrow> string \<Rightarrow> string \<Rightarrow> (bool \<times> size_t \<times> 'z mz_stream) option \<Rightarrow> bool" where
  "inflated E src t r \<longleftrightarrow> (\<exists>dlen st. r = Some (True, dlen, st) \<and> z_out st = t \<and> E (z_state st)
     \<and> z_in st + unat (avail_in st) \<le> length src \<and> length t \<le> unat dlen)"

lemma inflate_step:
  assumes law: "inflate_law Z wbits C J E" and st: "inflating J src t st rout" and dlen: "length t \<le> unat dlen"
    and go: "0 < unat (avail_in st) \<or> z_in st = length src \<and> length rout < unat (avail_out st)"
  obtains (ended) "inflated E src t (do_inflate Z src dlen st)"
  | (more) st1 rout1 where "mz_run (mz_inflate Z) False src (unat dlen + 1) st = Some (MZ_OK, st1)"
      and "inflating J src t st1 rout1" and "length rout1 \<le> length rout"
      and "length (z_out st1) + unat (avail_out st1) = length (z_out st) + unat (avail_out st)"
      and "z_in st1 = z_in st + unat (avail_in st) \<or> unat (avail_out st1) = 0" and "0 < unat (avail_in st)"
proof -
  let ?k = "unat (avail_in st)"
  have k: "?k \<le> length (drop (z_in st) src)" using st by (auto simp: inflating_def)
  have go': "0 < ?k \<or> drop (z_in st) src = [] \<and> length rout < unat (avail_out st)" using go by auto
  from st have J: "J (z_state st) (drop (z_in st) src) rout" by (simp add: inflating_def)
  from inflate_law_call [OF law J k go'] obtain r n o1 z' rout' where
    c: "mz_inflate Z (z_state st) (take ?k (drop (z_in st) src)) (unat (avail_out st)) False = (r, n, o1, z')" "n \<le> ?k"
      "length o1 \<le> unat (avail_out st)" "rout = o1 @ rout'" "J z' (drop n (drop (z_in st) src)) rout'"
      "r = MZ_STREAM_END \<and> rout' = [] \<and> E z' \<or> r = MZ_OK \<and> 0 < ?k \<and> (n = ?k \<or> length o1 = unat (avail_out st))" .
  define st1 where "st1 = st\<lparr>z_in := z_in st + n, avail_in := avail_in st - word_of_nat n, z_out := z_out st @ o1,
    avail_out := avail_out st - word_of_nat (length o1), z_state := z'\<rparr>"
  have cap: "length (z_out st) + length o1 \<le> unat dlen + 1"
    using st c(4) dlen by (auto simp: inflating_def)
  have run: "mz_run (mz_inflate Z) False src (unat dlen + 1) st = Some (r, st1)"
    unfolding st1_def using k c(1-3) cap st by (intro mz_run_Some) (simp_all add: inflating_def)
  have words: "unat (avail_in st1) = ?k - n" "unat (avail_out st1) = unat (avail_out st) - length o1"
    using c(2,3) by (simp_all add: st1_def unat_sub_of_nat)
  have st1: "inflating J src t st1 rout'"
    using st c(2,4,5) words(1) by (simp add: inflating_def st1_def add.commute)
  from c(6) show thesis
  proof (elim disjE conjE)
    assume e: "r = MZ_STREAM_END" "rout' = []" "E z'"
    with run have "do_inflate Z src dlen st = Some (True, dlen, st1)" by (simp add: do_inflate.simps [of Z src dlen st])
    with e st1 dlen have "inflated E src t (do_inflate Z src dlen st)"
      by (simp add: inflated_def inflating_def) (simp add: st1_def)
    then show thesis by (rule ended)
  next
    assume "r = MZ_OK" "0 < ?k" "n = ?k"
    with run st1 c(3,4) words show thesis by (intro more [of st1 rout']) (simp_all add: st1_def)
  next
    assume "r = MZ_OK" "0 < ?k" "length o1 = unat (avail_out st)"
    with run st1 c(3,4) words show thesis by (intro more [of st1 rout']) (simp_all add: st1_def)
  qed
qed

text \<open>The next round.\<close>

lemma ucast_add_ucast: "ucast (ucast (a :: u32) + (b :: size_t)) = a + ucast b"
  by (rule word_unat_eq_iff [THEN iffD2])
    (simp add: unsigned_ucast_eq unat_word_ariths take_bit_eq_mod mod_mod_cancel mod_simps)

lemma do_inflate_next:
  assumes run: "mz_run (mz_inflate Z) False src (unat dlen + 1) st = Some (MZ_OK, st1)" and dlen: "unat dlen < 2 ^ 63"
    and src: "z_in st1 \<le> length src" "length src < 2 ^ 32" and out: "length (z_out st1) \<le> unat dlen"
  obtains b where "do_inflate Z src dlen st = do_inflate Z src (dlen + 262144)
      (st1\<lparr>avail_out := avail_out st1 + word_of_nat (unat dlen + 262144 - length (z_out st1)), avail_in := b\<rparr>)"
    and "unat b = min 65536 (length src - z_in st1)" and "unat (dlen + 262144) = unat dlen + 262144"
proof -
  let ?rem = "ucast (ucast (word_of_nat (length src) :: u32) - total_in st1) :: u32"
  let ?b = "if ?rem > B6B_INFLATE_IN_CHUNK_SZ then B6B_INFLATE_IN_CHUNK_SZ else ?rem"
  have rem: "?rem = word_of_nat (length src - z_in st1)" unfolding total_in_def by (rule rem_word [OF src])
  have b: "unat ?b = min 65536 (length src - z_in st1)"
    unfolding rem using src(2) by (simp add: B6B_INFLATE_IN_CHUNK_SZ_def word_less_nat_alt unat_small min_def)
  have d: "unat (dlen + 262144) = unat dlen + 262144" using dlen by (simp add: unat_word_ariths)
  have "unat (dlen + 262144 - total_out st1) = unat dlen + 262144 - length (z_out st1)"
    unfolding total_out_def using out d by (simp add: unat_sub_of_nat)
  then have "ucast (dlen + 262144 - total_out st1) = (word_of_nat (unat dlen + 262144 - length (z_out st1)) :: u32)"
    by (metis of_nat_unat)
  then have a: "ucast (ucast (avail_out st1) + (dlen + 262144 - total_out st1))
      = avail_out st1 + word_of_nat (unat dlen + 262144 - length (z_out st1))"
    unfolding ucast_add_ucast by simp
  have "\<not> dlen \<ge> SIZE_MAX - B6B_INFLATE_OUT_CHUNK_SZ - 1"
    using dlen by (simp add: SIZE_MAX_def B6B_INFLATE_OUT_CHUNK_SZ_def word_le_nat_alt)
  then have "do_inflate Z src dlen st = do_inflate Z src (dlen + 262144)
      (st1\<lparr>avail_out := avail_out st1 + word_of_nat (unat dlen + 262144 - length (z_out st1)), avail_in := ?b\<rparr>)"
    using run a by (simp add: do_inflate.simps [of Z src dlen st] MZ_OK_def MZ_STREAM_END_def B6B_INFLATE_OUT_CHUNK_SZ_def Let_def)
  with b d show thesis using that by blast
qed

text \<open>The same, while the room is exact to 32 bits.\<close>

lemma do_inflate_more:
  assumes run: "mz_run (mz_inflate Z) False src (unat dlen + 1) st = Some (MZ_OK, st1)" and dlen: "unat dlen < 2 ^ 32"
    and src: "z_in st1 \<le> length src" "length src < 2 ^ 32" and out: "length (z_out st1) \<le> unat dlen"
    and room: "unat (avail_out st1) + (unat dlen + 262144 - length (z_out st1)) < 2 ^ 32"
  obtains a b where "do_inflate Z src dlen st = do_inflate Z src (dlen + 262144) (st1\<lparr>avail_out := a, avail_in := b\<rparr>)"
    and "unat a = unat (avail_out st1) + (unat dlen + 262144 - length (z_out st1))"
    and "unat b = min 65536 (length src - z_in st1)" and "unat (dlen + 262144) = unat dlen + 262144"
proof -
  let ?n = "unat dlen + 262144 - length (z_out st1)"
  have "unat (avail_out st1 + word_of_nat ?n) = unat (avail_out st1) + ?n"
    using room by (simp add: unat_word_ariths unat_of_nat)
  moreover have "unat dlen < 2 ^ 63" using dlen by simp
  ultimately show thesis using do_inflate_next [OF run _ src out] that by blast
qed

text \<open>
  When the text is complete, the rest of the input is read in pieces of 64 KiB.  The count of what is left of the buffer
  is wrong by then, and wraps, but does not become 0 before the input ends.
\<close>

lemma room_not_0:
  assumes "0 < i" and "i < 32767"
  shows "word_of_nat (131072 * (i * (i + 1))) \<noteq> (0 :: u32)"
proof
  assume "word_of_nat (131072 * (i * (i + 1))) = (0 :: u32)"
  then have "2 ^ LENGTH(32) dvd 131072 * (i * (i + 1))" by (simp only: word_of_nat_eq_0_iff)
  then have "(131072 :: nat) * 2 ^ 15 dvd 131072 * (i * (i + 1))" by simp
  then have d: "(2 :: nat) ^ 15 dvd i * (i + 1)" by (subst (asm) nat_mult_dvd_cancel_disj) simp
  show False
  proof (cases "even i")
    case True
    then have "coprime ((2 :: nat) ^ 15) (i + 1)" by (simp only: coprime_power_left_iff coprime_left_2_iff_odd) simp
    from coprime_dvd_mult_left_iff [OF this] d have "(2 :: nat) ^ 15 dvd i" by blast
    with assms show False by (auto dest: dvd_imp_le)
  next
    case False
    then have "coprime ((2 :: nat) ^ 15) i" by (simp only: coprime_power_left_iff coprime_left_2_iff_odd) simp
    from coprime_dvd_mult_right_iff [OF this] d have "(2 :: nat) ^ 15 dvd i + 1" by blast
    with assms show False by (auto dest: dvd_imp_le)
  qed
qed

lemma inflate_trailing:
  assumes law: "inflate_law Z wbits C J E" and src: "length src < 2 ^ 30" and t: "length t < 2 ^ 30"
  shows "inflating J src t st [] \<Longrightarrow> unat dlen = length t + i * 262144 \<Longrightarrow> avail_out st = word_of_nat (131072 * (i * (i + 1)))
    \<Longrightarrow> unat (avail_in st) = min 65536 (length src - z_in st) \<Longrightarrow> 0 < i
    \<Longrightarrow> i + (length src - z_in st + 65535) div 65536 < 32767 \<Longrightarrow> inflated E src t (do_inflate Z src dlen st)"
proof (induction "length src - z_in st" arbitrary: st dlen i rule: less_induct)
  case less
  have st: "z_out st = t" "z_in st \<le> length src" using less.prems(1) by (auto simp: inflating_def)
  have nz: "avail_out st \<noteq> 0" unfolding less.prems(3) by (rule room_not_0) (use less.prems(5,6) in simp_all)
  then have room: "0 < unat (avail_out st)" by (simp add: unat_gt_0)
  have go: "0 < unat (avail_in st) \<or> z_in st = length src \<and> length ([] :: string) < unat (avail_out st)"
    using less.prems(4) room st(2) by (cases "z_in st = length src") auto
  have d: "length t \<le> unat dlen" using less.prems(2) by simp
  from law less.prems(1) d go show ?case
  proof (cases rule: inflate_step)
    case (more st1 rout1)
    then have st1: "inflating J src t st1 []" "z_out st1 = t" by (auto simp: inflating_def)
    with more(4) st(1) have out: "avail_out st1 = avail_out st" by (simp add: word_unat_eq_iff)
    with more(5) room have zin: "z_in st1 = z_in st + unat (avail_in st)" by simp
    then have le: "z_in st1 \<le> length src" using less.prems(4) st(2) by simp
    have i: "i < 32767" using less.prems(6) by simp
    have dl: "unat dlen < 2 ^ 63" using less.prems(2) i t by simp
    have s32: "length src < 2 ^ 32" using src by simp
    have zo: "length (z_out st1) \<le> unat dlen" using st1(2) d by simp
    obtain b where b: "do_inflate Z src dlen st = do_inflate Z src (dlen + 262144)
        (st1\<lparr>avail_out := avail_out st1 + word_of_nat (unat dlen + 262144 - length (z_out st1)), avail_in := b\<rparr>)"
      "unat b = min 65536 (length src - z_in st1)" "unat (dlen + 262144) = unat dlen + 262144"
      by (rule do_inflate_next [OF more(1) dl le s32 zo])
    let ?st = "st1\<lparr>avail_out := avail_out st1 + word_of_nat (unat dlen + 262144 - length (z_out st1)), avail_in := b\<rparr>"
    have "avail_out st1 + word_of_nat (unat dlen + 262144 - length (z_out st1))
        = (word_of_nat (131072 * (i * (i + 1)) + (i * 262144 + 262144)) :: u32)"
      unfolding out less.prems(3) st1(2) less.prems(2) by (simp only: of_nat_add add.assoc diff_add_inverse)
    also have "131072 * (i * (i + 1)) + (i * 262144 + 262144) = 131072 * (Suc i * (Suc i + 1))" by simp
    finally have a: "avail_out ?st = word_of_nat (131072 * (Suc i * (Suc i + 1)))" by simp
    have pos: "0 < min 65536 (length src - z_in st)" using more(6) less.prems(4) by simp
    have m: "length src - z_in ?st = length src - z_in st - min 65536 (length src - z_in st)"
      using zin less.prems(4) by simp
    have "inflated E src t (do_inflate Z src (dlen + 262144) ?st)"
    proof (rule less.hyps [where i = "Suc i"])
      show "length src - z_in ?st < length src - z_in st" unfolding m using pos by simp
      show "inflating J src t ?st []" using st1(1) b(2) le by (auto simp: inflating_def min_def)
      have "(length src - z_in st + 65535) div 65536 = Suc ((length src - z_in ?st + 65535) div 65536)"
        unfolding m using pos by (auto simp: min_def)
      with less.prems(6) show "Suc i + (length src - z_in ?st + 65535) div 65536 < 32767" by simp
    qed (use a b(2,3) less.prems(2) in simp_all)
    with b(1) show ?thesis by simp
  qed
qed

text \<open>A buffer of the size of the text is enough, in whatever pieces the text arrives.\<close>

lemma inflate_all:
  assumes law: "inflate_law Z wbits C J E" and J: "J z src t" and src: "src \<noteq> []" "length src < 2 ^ 30"
    and dlen: "unat dlen = max 1 (length t)" "length t < 2 ^ 30"
  shows "inflated E src t (do_inflate Z src dlen ((new_stream z)\<lparr>avail_in := word_of_nat (length src), avail_out := ucast dlen\<rparr>))"
proof -
  define st where "st = (new_stream z)\<lparr>avail_in := word_of_nat (length src), avail_out := ucast dlen :: u32\<rparr>"
  have in0: "z_in st = 0" "z_out st = []" "z_state st = z" "unat (avail_in st) = length src"
    using src(2) by (simp_all add: st_def new_stream_def unat_small)
  have out0: "unat (avail_out st) = unat dlen"
    using dlen by (simp add: st_def unsigned_ucast_eq take_bit_nat_eq_self)
  have st: "inflating J src t st t" using J in0 by (simp add: inflating_def)
  have go: "0 < unat (avail_in st) \<or> z_in st = length src \<and> length t < unat (avail_out st)"
    using src(1) in0 by simp
  have d: "length t \<le> unat dlen" using dlen(1) by simp
  from law st d go have "inflated E src t (do_inflate Z src dlen st)"
  proof (cases rule: inflate_step)
    case (more st1 rout1)
    have in1: "z_in st1 + unat (avail_in st1) \<le> length src" "z_out st1 @ rout1 = t" "J (z_state st1) (drop (z_in st1) src) rout1"
      using more(2) by (simp_all add: inflating_def)
    then have len: "length (z_out st1) + length rout1 = length t" by auto
    have sum: "length (z_out st1) + unat (avail_out st1) = unat dlen" using more(4) in0 out0 by simp
    obtain a b where ab: "do_inflate Z src dlen st = do_inflate Z src (dlen + 262144) (st1\<lparr>avail_out := a, avail_in := b\<rparr>)"
      "unat a = unat (avail_out st1) + (unat dlen + 262144 - length (z_out st1))"
      "unat b = min 65536 (length src - z_in st1)" "unat (dlen + 262144) = unat dlen + 262144"
      by (rule do_inflate_more [OF more(1)]) (use dlen src in1(1) sum in auto)
    let ?st = "st1\<lparr>avail_out := a, avail_in := b\<rparr>"
    have st': "inflating J src t ?st rout1" using in1 ab(3) by (simp add: inflating_def)
    have d': "length t \<le> unat (dlen + 262144)" using ab(4) d by simp
    have "inflated E src t (do_inflate Z src (dlen + 262144) ?st)"
    proof (cases "z_in st1 = length src")
      case True
      then have b0: "unat (avail_in ?st) = 0" using ab(3) by simp
      have "length rout1 < unat (avail_out ?st)" using ab(2) len d sum by simp
      then have "0 < unat (avail_in ?st) \<or> z_in ?st = length src \<and> length rout1 < unat (avail_out ?st)" using True by simp
      from law st' d' this show ?thesis by (cases rule: inflate_step) (use b0 in simp_all)
    next
      case False
      with more(5) in0 have a0: "unat (avail_out st1) = 0" by simp
      with sum len d have "length rout1 = 0" by linarith
      then have r1: "rout1 = []" by simp
      with len have "length (z_out st1) = length t" by simp
      with sum a0 have dt: "unat dlen = length t" by simp
      have "unat a = 262144" using ab(2) a0 sum by simp
      then have "a = word_of_nat 262144" by (simp add: word_unat_eq_iff)
      then have "avail_out ?st = word_of_nat (131072 * (1 * (1 + 1)))" by simp
      moreover have "(length src - z_in st1 + 65535) div 65536 \<le> (2 ^ 30 + 65535) div 65536"
        using src(2) by (intro div_le_mono) simp
      ultimately show ?thesis
        using st' r1 ab(3,4) dt by (intro inflate_trailing [OF law src(2) dlen(2), of _ _ 1]) simp_all
    qed
    with ab(1) show ?thesis by simp
  qed
  then show ?thesis unfolding st_def .
qed

section \<open>The format\<close>

lemma length_le32 [simp]: "length (le32 w) = 4"
  by (simp add: le32_def)

lemma length_gzip_hdr [simp]: "length (gzip_hdr level) = 10"
  by (simp add: gzip_hdr_def)

lemma of_char_byte: "of_char (char_of (n :: nat)) = (word_of_nat (n mod 256) :: u32)"
  by (metis of_char_of of_nat_of_char)

lemma le32_read_le32: "le32_read (le32 w) = w"
proof -
  define n where "n = unat w"
  have "n < 2 ^ 32" using unsigned_less [of w] by (simp add: n_def)
  then have 3: "n div 16777216 mod 256 = n div 16777216" by simp
  have 2: "n div 65536 mod 256 + 256 * (n div 16777216) = n div 65536"
    using mod_mult_div_eq [of "n div 65536" 256] by (simp add: div_mult2_eq [symmetric])
  have 1: "n div 256 mod 256 + 256 * (n div 65536) = n div 256"
    using mod_mult_div_eq [of "n div 256" 256] by (simp add: div_mult2_eq [symmetric])
  have "n mod 256 + 256 * (n div 256 mod 256 + 256 * (n div 65536 mod 256 + 256 * (n div 16777216 mod 256))) = n"
    unfolding 3 2 1 by (rule mod_mult_div_eq)
  then have "word_of_nat (n mod 256 + 256 * (n div 256 mod 256 + 256 * (n div 65536 mod 256 + 256 * (n div 16777216 mod 256)))) = (word_of_nat n :: u32)"
    by (rule arg_cong)
  also have "\<dots> = w" by (simp add: n_def)
  finally have "word_of_nat (n mod 256 + 256 * (n div 256 mod 256 + 256 * (n div 65536 mod 256 + 256 * (n div 16777216 mod 256)))) = w" .
  then have "word_of_nat (n mod 256) + 256 * (word_of_nat (n div 256 mod 256) + 256 * (word_of_nat (n div 65536 mod 256)
      + 256 * word_of_nat (n div 16777216 mod 256))) = w"
    by (simp only: of_nat_add of_nat_mult of_nat_numeral)
  then show ?thesis
    by (simp add: le32_read_def le32_def of_char_byte unsigned_drop_bit_eq drop_bit_eq_div n_def unat_div)
qed

section \<open>Compressed and back\<close>

lemma deflate_finish:
  assumes "deflate_law Z wbits C D" and "D z0 z fed out" and "mz_deflateBound Z z0 (length fed) \<le> length out + room"
  obtains o1 z' where "mz_deflate Z z [] room True = (MZ_STREAM_END, 0, o1, z')" and "length o1 \<le> room" and "C (out @ o1) fed"
  using assms unfolding deflate_law_def by blast

text \<open>The arguments are a text and, if it is given, a level.\<close>

definition deflate_args :: "nat \<Rightarrow> parg list \<Rightarrow> interp \<Rightarrow> addr \<Rightarrow> int \<Rightarrow> bool" where
  "deflate_args argc ps I a lv \<longleftrightarrow>
     argc = 2 \<and> ps = [Arg a] \<and> lv = MZ_DEFAULT_COMPRESSION
     \<or> argc = 3 \<and> (\<exists>l i. ps = [Arg a, Arg l] \<and> int_at l I = Some i \<and> lv = sint i \<and> INT_MIN \<le> lv \<and> lv \<le> INT_MAX)"

text \<open>What \<^verbatim>\<open>b6b_zlib_deflate\<close> returns, whatever it writes around it.\<close>

lemma zlib_deflate_run:
  assumes law: "deflate_law Z wbits C D"
    and args: "io_args args ''os|i'' [False, True, True] s = Some ((argc, ps), s1)" "deflate_args argc ps (io_i s1) a lv"
      "str_at a (io_i s1) = Some t"
    and init: "mz_deflateInit2 Z lv wbits = Some z"
    and off: "offl (\<lambda>w. (off0, w)) s1 = Some ((True, d), s2)"
    and size: "length t \<le> UINT32_MAX - head - foot" "mz_deflateBound Z z (length t) < UINT32_MAX - head - foot"
  obtains c where "C c t" and "length c \<le> mz_deflateBound Z z (length t)"
    and "b6b_zlib_deflate Z offl wbits head foot finish args s
      = on_interp (b6b_return_str (fst (finish t lv) @ c @ snd (finish t lv))) s2"
proof -
  let ?dlen = "mz_deflateBound Z z (length t)"
  let ?cap = "?dlen + foot + 1"
  let ?st = "(new_stream z)\<lparr>avail_out := word_of_nat ?dlen :: u32\<rparr>"
  have small: "length t < 2 ^ 32" "?dlen < 2 ^ 32" using size by (simp_all add: UINT32_MAX_def)
  have "D z (z_state ?st) (take (z_in ?st) t) (z_out ?st)"
    using law init by (simp add: deflate_law_def new_stream_def)
  from do_deflate_run [OF law small(1) le_refl _ this, of ?cap] small
  obtain st' where st': "do_deflate Z t ?cap (word_of_nat (length t)) ?st = Some (True, st')" "D z (z_state st') t (z_out st')"
    "z_in st' = length t" "avail_in st' = 0" "length (z_out st') + unat (avail_out st') = ?dlen"
    by (auto simp: new_stream_def unat_small)
  from st'(5) have "?dlen \<le> length (z_out st') + unat (avail_out st')" by simp
  from deflate_finish [OF law st'(2) this] obtain o1 z' where
    o1: "mz_deflate Z (z_state st') [] (unat (avail_out st')) True = (MZ_STREAM_END, 0, o1, z')"
      "length o1 \<le> unat (avail_out st')" "C (z_out st' @ o1) t" .
  have "\<exists>st2. mz_run (mz_deflate Z) True t ?cap st' = Some (MZ_STREAM_END, st2) \<and> z_out st2 = z_out st' @ o1"
    using mz_run_Some [of st' t "mz_deflate Z" True MZ_STREAM_END 0 o1 z' ?cap] st'(3-5) o1 by simp
  then obtain st2 where st2: "mz_run (mz_deflate Z) True t ?cap st' = Some (MZ_STREAM_END, st2)" "z_out st2 = z_out st' @ o1"
    by blast
  have len: "length (z_out st' @ o1) \<le> ?dlen" using o1(2) st'(5) by simp
  then have fits: "\<not> length (z_out st2) > UINT32_MAX - head - foot" using size(2) st2(2) by simp
  have "b6b_zlib_deflate Z offl wbits head foot finish args s
      = on_interp (b6b_return_str (fst (finish t lv) @ (z_out st' @ o1) @ snd (finish t lv))) s2"
  proof (cases "argc = 2")
    case True
    with args(2) have "ps = [Arg a]" "lv = MZ_DEFAULT_COMPRESSION" by (simp_all add: deflate_args_def)
    with True args(1,3) init off size st'(1) st2 fits show ?thesis
      by (simp add: b6b_zlib_deflate_def Let_def numeral_2_eq_2 split: prod.split)
  next
    case False
    with args(2) obtain l i where "argc = Suc (Suc (Suc 0))" "ps = [Arg a, Arg l]" "int_at l (io_i s1) = Some i"
      "lv = sint i" "INT_MIN \<le> lv" "lv \<le> INT_MAX" by (auto simp: deflate_args_def)
    with args(1,3) init off size st'(1) st2 fits show ?thesis
      by (simp add: b6b_zlib_deflate_def Let_def split: prod.split)
  qed
  with o1(3) len show thesis by (rule that)
qed

lemma zlib_inflate_run:
  assumes law: "inflate_law Z wbits C J E" and c: "C c t"
    and args: "io_args args ''os'' [False, True] s = Some ((2, [Arg a]), s1)" "str_at a (io_i s1) = Some (hdr @ c @ ftr)"
    and off: "offl (\<lambda>w. (off0, w)) s1 = Some ((True, d), s2)"
    and size: "length (hdr @ c @ ftr) \<le> UINT32_MAX" "length c < 2 ^ 30" "length t < 2 ^ 30"
    and g: "g (hdr @ c @ ftr) = word_of_nat (length t)"
  shows "b6b_zlib_inflate Z offl wbits (length hdr) (length ftr) (Some g) args s = on_interp (b6b_return_str t) s2"
proof -
  from law obtain z where z: "mz_inflateInit2 Z wbits = Some z" unfolding inflate_law_def by blast
  with law c have ne: "c \<noteq> []" and J: "J z c t" unfolding inflate_law_def by blast+
  define dlen :: size_t where "dlen = (if word_of_nat (length t) = (0 :: size_t) then 1 else word_of_nat (length t))"
  let ?st = "(new_stream z)\<lparr>avail_in := word_of_nat (length c), avail_out := ucast dlen\<rparr>"
  have t: "unat (word_of_nat (length t) :: size_t) = length t" by (rule unat_small) (use size(3) in simp)
  then have "word_of_nat (length t) = (0 :: size_t) \<longleftrightarrow> t = []"
    using t unat_0_iff [of "word_of_nat (length t) :: size_t"] by simp
  then have dlen: "unat dlen = max 1 (length t)" using t by (cases t) (auto simp: dlen_def)
  from inflate_all [OF law J ne size(2) dlen size(3)] obtain dlen' st' where
    r: "do_inflate Z c dlen ?st = Some (True, dlen', st')" "z_out st' = t" "E (z_state st')"
      "z_in st' + unat (avail_in st') \<le> length c" "length t \<le> unat dlen'"
    unfolding inflated_def by blast
  from law r(3) obtain z' where fin: "mz_inflate Z (z_state st') (take (unat (avail_in st')) (drop (z_in st') c)) (unat (avail_out st')) True
      = (MZ_STREAM_END, 0, [], z')" unfolding inflate_law_def by meson
  have fin': "\<exists>st2. mz_run (mz_inflate Z) True c (unat dlen' + 1) st' = Some (MZ_STREAM_END, st2) \<and> z_out st2 = t"
    using mz_run_Some [of st' c "mz_inflate Z" True MZ_STREAM_END 0 "[]" z' "unat dlen' + 1"] fin r(2,4,5) by simp
  have big: "dlen \<noteq> SIZE_MAX"
  proof
    assume "dlen = SIZE_MAX"
    then have "unat dlen = 2 ^ 64 - 1" by (simp add: SIZE_MAX_def unsigned_minus_1_eq_mask mask_eq_exp_minus_1)
    with dlen size(3) show False by simp
  qed
  from fin' obtain st2 where st2: "mz_run (mz_inflate Z) True c (unat dlen' + 1) st' = Some (MZ_STREAM_END, st2)" "z_out st2 = t"
    by blast
  have g': "(if g (hdr @ c @ ftr) = 0 then 1 else g (hdr @ c @ ftr)) = dlen"
    unfolding g dlen_def ..
  show ?thesis
    using args z off size(1) ne g' r(1) st2 r(5) big
    by (simp add: b6b_zlib_inflate_def Let_def not_less)
qed

text \<open>Wherever the text \<open>g\<close> is the argument of \<^verbatim>\<open>gunzip\<close>, the result is \<open>t\<close>.\<close>

definition gunzips :: "'z miniz \<Rightarrow> ('k, 'w) offload \<Rightarrow> string \<Rightarrow> string \<Rightarrow> bool" where
  "gunzips Z offl g t \<longleftrightarrow>
     (\<forall>args s s1 s2 a d. io_args args ''os'' [False, True] s = Some ((2, [Arg a]), s1) \<longrightarrow> str_at a (io_i s1) = Some g
        \<longrightarrow> offl (\<lambda>w. (off0, w)) s1 = Some ((True, d), s2)
        \<longrightarrow> b6b_zlib_proc_gunzip Z offl args s = on_interp (b6b_return_str t) s2)"

text \<open>
  C9. What \<^verbatim>\<open>gzip\<close> makes of a text, at any level, \<^verbatim>\<open>gunzip\<close> turns back into it, for every implementation of raw
  deflate that keeps the two laws, which say that \<^verbatim>\<open>mz_deflate\<close> fits its output into \<^verbatim>\<open>mz_deflateBound\<close> and that
  \<^verbatim>\<open>mz_inflate\<close> undoes it in whatever pieces it is asked to.  The text, and the bound for what it is compressed to, are
  smaller than 2^30 bytes.  The result has a header of ten bytes that starts with the signature, the
  compressed text, and a footer of eight from which \<^verbatim>\<open>gunzip\<close> takes the size of its buffer; the buffer is large enough, the
  work ends, and nothing is written behind the buffer.
\<close>

theorem gzip_roundtrip:
  assumes deflate: "deflate_law Z (- 15) C D" and inflate: "inflate_law Z (- 15) C J E"
    and args: "io_args args ''os|i'' [False, True, True] s = Some ((argc, ps), s1)" "deflate_args argc ps (io_i s1) a lv"
      "str_at a (io_i s1) = Some t"
    and init: "mz_deflateInit2 Z lv (- 15) = Some z"
    and size: "length t < 2 ^ 30" "mz_deflateBound Z z (length t) < 2 ^ 30"
    and off: "offl (\<lambda>w. (off0, w)) s1 = Some ((True, d), s2)"
  shows "\<exists>c. let g = gzip_hdr lv @ c @ le32 (mz_crc32 Z t) @ le32 (word_of_nat (length t)) in
    b6b_zlib_proc_gzip Z offl args s = on_interp (b6b_return_str g) s2 \<and> C c t \<and> take 2 g = [CHR 0x1F, CHR 0x8B] \<and> gunzips Z offl g t"
proof -
  have wb: "- MZ_DEFAULT_WINDOW_BITS = (- 15 :: int)" by (simp add: MZ_DEFAULT_WINDOW_BITS_def)
  have size': "length t \<le> UINT32_MAX - 10 - 8" "mz_deflateBound Z z (length t) < UINT32_MAX - 10 - 8"
    using size by (simp_all add: UINT32_MAX_def)
  obtain c where c: "C c t" "length c \<le> mz_deflateBound Z z (length t)"
    "b6b_zlib_deflate Z offl (- 15) 10 8 (b6b_zlib_gzip_finish Z) args s
      = on_interp (b6b_return_str (fst (b6b_zlib_gzip_finish Z t lv) @ c @ snd (b6b_zlib_gzip_finish Z t lv))) s2"
    by (rule zlib_deflate_run [where finish = "b6b_zlib_gzip_finish Z" and offl = offl, OF deflate args init off size'])
  define g where "g = gzip_hdr lv @ c @ le32 (mz_crc32 Z t) @ le32 (word_of_nat (length t))"
  have len: "length t mod UINT32_MAX = length t" using size(1) by (simp add: UINT32_MAX_def)
  have "b6b_zlib_gzip_get_size g = ucast (word_of_nat (length t) :: u32)"
    by (simp add: g_def b6b_zlib_gzip_get_size_def le32_read_le32)
  also have "\<dots> = word_of_nat (length t)"
    using size(1) by (simp add: word_unat_eq_iff unsigned_ucast_eq unat_small take_bit_nat_eq_self)
  finally have get: "b6b_zlib_gzip_get_size g = word_of_nat (length t)" .
  have "b6b_zlib_proc_gzip Z offl args s = on_interp (b6b_return_str g) s2"
    using c(3) by (simp add: b6b_zlib_proc_gzip_def wb b6b_zlib_gzip_finish_def len g_def)
  moreover have "take 2 g = [CHR 0x1F, CHR 0x8B]" by (simp add: g_def gzip_hdr_def) code_simp
  moreover have "gunzips Z offl g t"
    unfolding gunzips_def
  proof (intro allI impI)
    fix args' s' s1' s2' b d'
    assume run: "io_args args' ''os'' [False, True] s' = Some ((2, [Arg b]), s1')" "str_at b (io_i s1') = Some g"
      "offl (\<lambda>w. (off0, w)) s1' = Some ((True, d'), s2')"
    show "b6b_zlib_proc_gunzip Z offl args' s' = on_interp (b6b_return_str t) s2'"
      using zlib_inflate_run [where offl = offl and g = b6b_zlib_gzip_get_size, OF inflate c(1) run(1) run(2) [unfolded g_def] run(3)]
        size c(2) get [unfolded g_def]
      by (simp add: b6b_zlib_proc_gunzip_def wb UINT32_MAX_def)
  qed
  ultimately show ?thesis using c(1) unfolding Let_def g_def by blast
qed

text \<open>
  An implementation that keeps the laws: a text is preceded by its length in unary, compressed only at the end,
  and decompressed only when it is complete.
\<close>

datatype demo_z = Def string | Buf string | Emit string

definition demo_enc :: "string \<Rightarrow> string" where
  "demo_enc t = replicate (length t) CHR ''1'' @ CHR ''0'' # t"

definition demo_emit :: "nat \<Rightarrow> string \<Rightarrow> nat \<Rightarrow> int \<times> nat \<times> string \<times> demo_z" where
  "demo_emit n r room = (if length r \<le> room then (MZ_STREAM_END, n, r, Emit []) else (MZ_OK, n, take room r, Emit (drop room r)))"

fun demo_deflate :: "demo_z codec" where
  "demo_deflate (Def fed) xs room fin =
     (if fin then (MZ_STREAM_END, 0, demo_enc fed, Def fed) else (MZ_OK, length xs, [], Def (fed @ xs)))"
| "demo_deflate z xs room fin = (-2, 0, [], z)"

fun demo_inflate :: "demo_z codec" where
  "demo_inflate (Emit r) xs room fin = demo_emit 0 r room"
| "demo_inflate (Buf b) xs room fin =
     (let b = b @ xs; n = length (takeWhile (\<lambda>c. c = CHR ''1'') b) in
      if length b = 2 * n + 1 then demo_emit (length xs) (drop (Suc n) b) room
      else (MZ_OK, length xs, [], Buf b))"
| "demo_inflate z xs room fin = (-2, 0, [], z)"

definition demo_mz :: "demo_z miniz" where
  "demo_mz = \<lparr>mz_deflateInit2 = \<lambda>lv wbits. Some (Def []), mz_deflateBound = \<lambda>z n. 2 * n + 1, mz_deflate = demo_deflate,
     mz_inflateInit2 = \<lambda>wbits. Some (Buf []), mz_inflate = demo_inflate, mz_crc32 = \<lambda>t. 0\<rparr>"

fun demo_J :: "demo_z \<Rightarrow> string \<Rightarrow> string \<Rightarrow> bool" where
  "demo_J (Buf b) rin rout \<longleftrightarrow> b @ rin = demo_enc rout \<and> rin \<noteq> []"
| "demo_J (Emit r) rin rout \<longleftrightarrow> rin = [] \<and> r = rout"
| "demo_J z rin rout \<longleftrightarrow> False"

lemma demo_deflate_law: "deflate_law demo_mz (- 15) (\<lambda>c t. c = demo_enc t) (\<lambda>z0 z fed out. z = Def fed \<and> out = [])"
  by (auto simp: deflate_law_def demo_mz_def demo_enc_def)

text \<open>A prefix of a compressed text is complete only when it is all of it.\<close>

lemma demo_prefix:
  assumes "b @ r = demo_enc t"
  shows "length b = 2 * length (takeWhile (\<lambda>c. c = CHR ''1'') b) + 1 \<longleftrightarrow> r = []"
    and "r = [] \<Longrightarrow> drop (Suc (length (takeWhile (\<lambda>c. c = CHR ''1'') b))) b = t"
proof -
  have one: "takeWhile (\<lambda>c. c = CHR ''1'') (replicate n CHR ''1'' @ CHR ''0'' # xs) = replicate n CHR ''1''" for n xs
    by (induction n) simp_all
  have all: "takeWhile (\<lambda>c. c = CHR ''1'') (replicate n CHR ''1'') = replicate n CHR ''1''" for n
    by (induction n) simp_all
  from assms have b: "b = take (length b) (demo_enc t)" by (metis append_eq_conv_conj)
  have len: "length b + length r = 2 * length t + 1" using arg_cong [OF assms, of length] by (simp add: demo_enc_def)
  consider "length b \<le> length t" "b = replicate (length b) CHR ''1''"
    | xs where "b = replicate (length t) CHR ''1'' @ CHR ''0'' # xs"
    using b by (cases "length b - length t") (auto simp: demo_enc_def min_def split: if_splits)
  then have "(length b = 2 * length (takeWhile (\<lambda>c. c = CHR ''1'') b) + 1 \<longleftrightarrow> r = [])
    \<and> (r = [] \<longrightarrow> drop (Suc (length (takeWhile (\<lambda>c. c = CHR ''1'') b))) b = t)"
  proof cases
    case 1
    have "length (takeWhile (\<lambda>c. c = CHR ''1'') b) = length b" using all [of "length b"] 1(2) by (metis length_replicate)
    with 1(1) len show ?thesis by auto
  next
    case (2 xs)
    have k: "takeWhile (\<lambda>c. c = CHR ''1'') b = replicate (length t) CHR ''1''" unfolding 2 by (rule one)
    have "r = [] \<longrightarrow> xs = t" using assms unfolding 2 demo_enc_def by auto
    with k len show ?thesis by (auto simp: 2)
  qed
  then show "length b = 2 * length (takeWhile (\<lambda>c. c = CHR ''1'') b) + 1 \<longleftrightarrow> r = []"
    and "r = [] \<Longrightarrow> drop (Suc (length (takeWhile (\<lambda>c. c = CHR ''1'') b))) b = t" by blast+
qed

lemma demo_emit_law:
  assumes "demo_emit n r room = (st, n', o1, z)"
  shows "n' = n \<and> length o1 \<le> room \<and> (\<exists>rest. r = o1 @ rest \<and> demo_J z [] rest
    \<and> (st = MZ_STREAM_END \<and> rest = [] \<and> z = Emit [] \<or> st = MZ_OK \<and> \<not> length r \<le> room \<and> length o1 = room))"
  using assms by (auto simp: demo_emit_def split: if_splits)

lemma demo_inflate_step:
  assumes J: "demo_J z rin rout" and k: "k \<le> length rin" "0 < k \<or> rin = [] \<and> length rout < room"
    and run: "demo_inflate z (take k rin) room False = (r, n, o1, z')"
  shows "n \<le> k \<and> length o1 \<le> room \<and> (\<exists>rout'. rout = o1 @ rout' \<and> demo_J z' (drop n rin) rout'
    \<and> (r = MZ_STREAM_END \<and> rout' = [] \<and> z' = Emit [] \<or> r = MZ_OK \<and> 0 < k \<and> (n = k \<or> length o1 = room)))"
proof (cases z)
  case (Emit e)
  with J k(2) run show ?thesis by (auto dest!: demo_emit_law)
next
  case (Buf b)
  with J have b: "(b @ take k rin) @ drop k rin = demo_enc rout" "rin \<noteq> []" by simp_all
  with k have k0: "0 < k" by simp
  show ?thesis
  proof (cases "drop k rin = []")
    case True
    with Buf run demo_prefix [OF b(1)] k have e: "demo_emit k rout room = (r, n, o1, z')"
      by (simp add: Let_def min_def split: if_splits)
    from demo_emit_law [OF e] True k0 show ?thesis by auto
  next
    case False
    with Buf run demo_prefix(1) [OF b(1)] k have "r = MZ_OK" "n = k" "o1 = []" "z' = Buf (b @ take k rin)"
      by (auto simp: Let_def min_def split: if_splits)
    with False b k0 show ?thesis by simp
  qed
qed (use J in simp)

lemma demo_inflate_law: "inflate_law demo_mz (- 15) (\<lambda>c t. c = demo_enc t) demo_J (\<lambda>z. z = Emit [])"
  unfolding inflate_law_def
proof (intro conjI allI impI)
  fix z rin rout k room assume a: "demo_J z rin rout" "k \<le> length rin" "0 < k \<or> rin = [] \<and> length rout < room"
  obtain r n o1 z' where run: "demo_inflate z (take k rin) room False = (r, n, o1, z')"
    by (cases "demo_inflate z (take k rin) room False")
  from demo_inflate_step [OF a run] run
  show "\<exists>r n o1 z' rout'. mz_inflate demo_mz z (take k rin) room False = (r, n, o1, z') \<and> n \<le> k \<and> length o1 \<le> room
    \<and> rout = o1 @ rout' \<and> demo_J z' (drop n rin) rout'
    \<and> (r = MZ_STREAM_END \<and> rout' = [] \<and> z' = Emit [] \<or> r = MZ_OK \<and> 0 < k \<and> (n = k \<or> length o1 = room))"
    by (simp add: demo_mz_def)
qed (auto simp: demo_mz_def demo_emit_def demo_enc_def)

text \<open>The text \<open>a b\<close> is compressed at the default level, and the result decompressed.\<close>

definition demo_gz :: string where
  "demo_gz = map char_of [31, 139, 8, 0, 0, 0, 0, 0, 0, 3 :: nat] @ ''1110a b'' @ map char_of [0, 0, 0, 0, 3, 0, 0, 0 :: nat]"

definition demo_gz_heap :: heap where
  "demo_gz_heap = demo_heap\<lparr>cells := (cells demo_heap)[2 := map_option (\<lambda>ob. ob\<lparr>ob_s := Some demo_gz\<rparr>) (cells demo_heap ! 2)]\<rparr>"

definition demo_io :: "interp \<Rightarrow> heap \<Rightarrow> (tab, unit) io" where
  "demo_io I h = \<lparr>io_i = I\<lparr>hp := h\<rparr>, io_w = (), io_strms = [], io_priv = []\<rparr>"

lemma gzip_roundtrip_witness:
  "case demo_start of Some (_, I) \<Rightarrow>
       b6b_zlib_proc_gzip demo_mz offload_direct 0 (demo_io I demo_heap) = on_interp (b6b_return_str demo_gz) (demo_io I demo_heap)
     \<and> b6b_zlib_proc_gunzip demo_mz offload_direct 0 (demo_io I demo_gz_heap) = on_interp (b6b_return_str ''a b'') (demo_io I demo_gz_heap)
   | None \<Rightarrow> False"
proof -
  obtain I args f where I: "demo_start = Some (True, I)" by (rule demo_started)
  have "b6b_list_vparse 0 ''os|i'' [False, True, True] demo_heap = Some (2, [Arg 2], demo_heap)" by code_simp
  then have args: "io_args 0 ''os|i'' [False, True, True] (demo_io I demo_heap) = Some ((2, [Arg 2]), demo_io I demo_heap)"
    by (simp add: io_args_def on_interp_def b6b_proc_get_args_def on_heap_def demo_io_def)
  have "Option.bind (hget 2 demo_heap) ob_s = Some ''a b''" by code_simp
  then have t: "str_at 2 (io_i (demo_io I demo_heap)) = Some ''a b''" by (simp add: str_at_def obj_at_def demo_io_def)
  have off: "offload_direct (\<lambda>w. (off0, w)) (demo_io I h) = Some ((True, off0), demo_io I h)" for h
    by (simp add: offload_direct_def on_world_def demo_io_def)
  have "deflate_args 2 [Arg 2] (io_i (demo_io I demo_heap)) 2 MZ_DEFAULT_COMPRESSION" by (simp add: deflate_args_def)
  from gzip_roundtrip [where offl = offload_direct, OF demo_deflate_law demo_inflate_law args this t _ _ _ off]
  have rt: "b6b_zlib_proc_gzip demo_mz offload_direct 0 (demo_io I demo_heap)
      = on_interp (b6b_return_str (gzip_hdr MZ_DEFAULT_COMPRESSION @ demo_enc ''a b'' @ le32 0 @ le32 3)) (demo_io I demo_heap)
    \<and> gunzips demo_mz (offload_direct :: (tab, unit) offload) (gzip_hdr MZ_DEFAULT_COMPRESSION @ demo_enc ''a b'' @ le32 0 @ le32 3) ''a b''"
    by (simp add: demo_mz_def Let_def)
  have gz: "gzip_hdr MZ_DEFAULT_COMPRESSION @ demo_enc ''a b'' @ le32 0 @ le32 3 = demo_gz" by code_simp
  have "b6b_list_vparse 0 ''os'' [False, True] demo_gz_heap = Some (2, [Arg 2], demo_gz_heap)" by code_simp
  then have args2: "io_args 0 ''os'' [False, True] (demo_io I demo_gz_heap) = Some ((2, [Arg 2]), demo_io I demo_gz_heap)"
    by (simp add: io_args_def on_interp_def b6b_proc_get_args_def on_heap_def demo_io_def)
  have "Option.bind (hget 2 demo_gz_heap) ob_s = Some demo_gz" by code_simp
  then have t2: "str_at 2 (io_i (demo_io I demo_gz_heap)) = Some demo_gz" by (simp add: str_at_def obj_at_def demo_io_def)
  from rt args2 t2 off [of demo_gz_heap] show ?thesis
    unfolding I option.case prod.case gz gunzips_def by blast
qed

section \<open>A buffer that is too small\<close>

text \<open>
  C10. The work of \<^verbatim>\<open>inflate\<close> adds all of the room of the larger buffer to \<^verbatim>\<open>avail_out\<close>, which still counts
  what was left of it.  When a round ends because its 64 KiB of input are used up, the next one is told that there is
  more room than there is; if the output then is long enough the buffer is overrun.
\<close>

theorem inflate_overflow:
  assumes src: "n0 + 131072 \<le> length src" "length src < 2 ^ 32"
    and first: "mz_inflate Z z src 262144 False = (MZ_OK, n0, o0, z1)" "length o0 = 262144"
    and second: "mz_inflate Z z1 (take 65536 (drop n0 src)) 262144 False = (MZ_OK, 65536, o1, z2)" "length o1 < 262144"
    and third: "mz_inflate Z z2 (take 65536 (drop (n0 + 65536) src)) (786432 - 2 * length o1) False = (r, n2, o2, z3)"
      "n2 \<le> 65536" "length o2 \<le> 786432 - 2 * length o1" "524289 < length o1 + length o2"
  shows "do_inflate Z src B6B_INFLATE_OUT_CHUNK_SZ
    ((new_stream z)\<lparr>avail_in := word_of_nat (length src), avail_out := ucast B6B_INFLATE_OUT_CHUNK_SZ\<rparr>) = None"
proof -
  define st where "st = (new_stream z)\<lparr>avail_in := word_of_nat (length src), avail_out := ucast B6B_INFLATE_OUT_CHUNK_SZ :: u32\<rparr>"
  have st: "z_in st = 0" "z_out st = []" "z_state st = z" "unat (avail_in st) = length src" "unat (avail_out st) = 262144"
    using src(2) by (simp_all add: st_def new_stream_def unat_small B6B_INFLATE_OUT_CHUNK_SZ_def)
  have w: "avail_out st = 262144" by (simp add: st_def B6B_INFLATE_OUT_CHUNK_SZ_def)
  have run1: "\<exists>st1. mz_run (mz_inflate Z) False src (unat (262144 :: size_t) + 1) st = Some (MZ_OK, st1) \<and> z_in st1 = n0
      \<and> z_out st1 = o0 \<and> z_state st1 = z1 \<and> unat (avail_out st1) = 0"
    using mz_run_Some [of st src "mz_inflate Z" False MZ_OK n0 o0 z1 262145] st w src first by (simp add: unat_sub_of_nat)
  then obtain st1 where st1: "mz_run (mz_inflate Z) False src (unat (262144 :: size_t) + 1) st = Some (MZ_OK, st1)"
    "z_in st1 = n0" "z_out st1 = o0" "z_state st1 = z1" "unat (avail_out st1) = 0" by blast
  obtain a b where ab: "do_inflate Z src 262144 st = do_inflate Z src (262144 + 262144) (st1\<lparr>avail_out := a, avail_in := b\<rparr>)"
    "unat a = 262144" "unat b = 65536"
    by (rule do_inflate_more [OF st1(1)]) (use src st1 first(2) in auto)
  let ?st = "st1\<lparr>avail_out := a, avail_in := b\<rparr>"
  have "\<exists>st2. mz_run (mz_inflate Z) False src (unat (524288 :: size_t) + 1) ?st = Some (MZ_OK, st2) \<and> z_in st2 = n0 + 65536
      \<and> z_out st2 = o0 @ o1 \<and> z_state st2 = z2 \<and> unat (avail_out st2) = 262144 - length o1"
    using mz_run_Some [of ?st src "mz_inflate Z" False MZ_OK 65536 o1 z2 524289] st1 ab(2,3) src first(2) second
    by (simp add: unat_sub_of_nat)
  then obtain st2 where st2: "mz_run (mz_inflate Z) False src (unat (524288 :: size_t) + 1) ?st = Some (MZ_OK, st2)"
    "z_in st2 = n0 + 65536" "z_out st2 = o0 @ o1" "z_state st2 = z2" "unat (avail_out st2) = 262144 - length o1" by blast
  obtain c e where ce: "do_inflate Z src 524288 ?st = do_inflate Z src (524288 + 262144) (st2\<lparr>avail_out := c, avail_in := e\<rparr>)"
    "unat c = 786432 - 2 * length o1" "unat e = 65536"
    by (rule do_inflate_more [OF st2(1)]) (use src st2 first(2) second(2) in auto)
  let ?st2 = "st2\<lparr>avail_out := c, avail_in := e\<rparr>"
  have "mz_run (mz_inflate Z) False src (unat (786432 :: size_t) + 1) ?st2 = None"
    using st2 ce(2,3) third first(2) src by (simp add: mz_run_def)
  then have "do_inflate Z src 786432 ?st2 = None" by (simp add: do_inflate.simps [of Z src 786432])
  with ab(1) ce(1) have "do_inflate Z src 262144 st = None" by simp
  then show ?thesis unfolding st_def B6B_INFLATE_OUT_CHUNK_SZ_def .
qed

text \<open>Three calls: 256 KiB, a byte, 600000 bytes.\<close>

definition demo_bomb :: "nat miniz" where
  "demo_bomb = \<lparr>mz_deflateInit2 = \<lambda>lv wbits. None, mz_deflateBound = \<lambda>z n. 0, mz_deflate = \<lambda>z xs room fin. (-2, 0, [], z),
     mz_inflateInit2 = \<lambda>wbits. Some 0, mz_inflate = \<lambda>z xs room fin.
       (if z = 0 then (MZ_OK, 8, replicate room CHR ''x'', 1) else if z = 1 then (MZ_OK, length xs, ''y'', 2)
        else (MZ_OK, length xs, replicate 600000 CHR ''z'', 3)), mz_crc32 = \<lambda>t. 0\<rparr>"

lemma inflate_overflow_witness:
  "do_inflate demo_bomb (replicate 200000 CHR ''c'') B6B_INFLATE_OUT_CHUNK_SZ
    ((new_stream 0)\<lparr>avail_in := word_of_nat (length (replicate 200000 CHR ''c'')), avail_out := ucast B6B_INFLATE_OUT_CHUNK_SZ\<rparr>) = None"
  by (rule inflate_overflow [of 8 _ _ 0 "replicate 262144 CHR ''x''" 1 "''y''" 2 MZ_OK 65536 "replicate 600000 CHR ''z''" 3])
    (simp_all only: demo_bomb_def miniz.simps length_replicate length_take length_drop, simp_all)

end
