(* ===== verification/Ffi.thy ===== *)
theory Ffi
  imports Zlib
begin

text \<open>
  The foreign function interface: src/b6b_ffi.c, on a little-endian machine with 64-bit \<^verbatim>\<open>long\<close>.
  Values are turned into the bytes of C types and back; foreign code, the dynamic linker and
  where the text of an object is in memory are parameters.
\<close>

section \<open>Types\<close>

text \<open>
  The types of libffi on such a machine, where \<^verbatim>\<open>ffi_type_sint64\<close> is \<^verbatim>\<open>ffi_type_slong\<close> and
  \<^verbatim>\<open>ffi_type_uint64\<close> is \<^verbatim>\<open>ffi_type_ulong\<close>.  A type is aligned to its size.
\<close>

datatype ffi_type = T_sint | T_uint | T_slong | T_ulong | T_pointer | T_schar | T_uchar | T_sshort | T_ushort | T_float | T_double

definition ffi_size :: "ffi_type \<Rightarrow> nat" where
  "ffi_size t = (if t \<in> {T_schar, T_uchar} then 1 else if t \<in> {T_sshort, T_ushort} then 2
     else if t \<in> {T_sint, T_uint, T_float} then 4 else 8)"

definition ffi_alignment :: "ffi_type \<Rightarrow> nat" where
  "ffi_alignment = ffi_size"

definition ffi_signed :: "ffi_type \<Rightarrow> bool" where
  "ffi_signed t \<longleftrightarrow> t \<in> {T_sint, T_slong, T_pointer, T_schar, T_sshort}"

definition b6b_ffi_types :: "(char \<times> ffi_type) list" where
  "b6b_ffi_types = [(CHR ''i'', T_sint), (CHR ''I'', T_uint), (CHR ''l'', T_slong), (CHR ''L'', T_ulong),
     (CHR ''p'', T_pointer), (CHR ''b'', T_schar), (CHR ''B'', T_uchar), (CHR ''h'', T_sshort), (CHR ''H'', T_ushort),
     (CHR ''q'', T_slong), (CHR ''Q'', T_ulong), (CHR ''f'', T_float), (CHR ''d'', T_double)]"

definition b6b_ffi_type :: "char \<Rightarrow> ffi_type option" where
  "b6b_ffi_type c = map_of b6b_ffi_types c"

section \<open>Values as bytes\<close>

text \<open>The \<open>k\<close> bytes of an integer, in two's complement, and the integer of some bytes.\<close>

definition le_bytes :: "nat \<Rightarrow> int \<Rightarrow> string" where
  "le_bytes k i = map (\<lambda>j. char_of (nat (i div 256 ^ j mod 256))) [0..<k]"

definition le_uint :: "string \<Rightarrow> int" where
  "le_uint s = foldr (\<lambda>c i. of_char c + 256 * i) s 0"

definition le_sint :: "string \<Rightarrow> int" where
  "le_sint s = (let u = le_uint s in if 2 * u < 256 ^ length s then u else u - 256 ^ length s)"

text \<open>The bit patterns of binary64 and, with rounding, of binary32.\<close>

definition ieee_bits :: "int \<Rightarrow> int \<Rightarrow> bool \<Rightarrow> int \<Rightarrow> int \<Rightarrow> int" where
  "ieee_bits frac sbit s ex m = (if s then sbit else 0) + ex * frac + m mod frac"

fun double_bits :: "dbl \<Rightarrow> int" where
  "double_bits DNan = ieee_bits (2 ^ 52) (2 ^ 63) False 2047 (2 ^ 51)"
| "double_bits (DInf s) = ieee_bits (2 ^ 52) (2 ^ 63) s 2047 0"
| "double_bits (DFin s m e) = ieee_bits (2 ^ 52) (2 ^ 63) s (if m < 2 ^ 52 then 0 else e + 1075) m"

definition double_of_bits :: "int \<Rightarrow> dbl" where
  "double_of_bits b =
     (let s = b \<ge> 2 ^ 63; ex = b div 2 ^ 52 mod 2048; m = b mod 2 ^ 52 in
      if ex = 2047 then (if m = 0 then DInf s else DNan)
      else if ex = 0 then DFin s m (-1074)
      else DFin s (2 ^ 52 + m) (ex - 1075))"

text \<open>The significand and the exponent of the nearest \<^verbatim>\<open>float\<close>; too large ones are infinite.\<close>

definition round_float :: "int \<Rightarrow> int \<Rightarrow> (int \<times> int) option" where
  "round_float m e =
     (let e0 = max (-149) (bitlen m + e - 24);
          q = (if e0 \<le> e then m * 2 ^ nat (e - e0) else rne m (2 ^ nat (e0 - e)));
          (q, e1) = (if q = 2 ^ 24 then (2 ^ 23, e0 + 1) else (q, e0)) in
      if e1 > 104 then None else Some (q, e1))"

fun float_bits :: "dbl \<Rightarrow> int" where
  "float_bits DNan = ieee_bits (2 ^ 23) (2 ^ 31) False 255 (2 ^ 22)"
| "float_bits (DInf s) = ieee_bits (2 ^ 23) (2 ^ 31) s 255 0"
| "float_bits (DFin s m e) =
     (case round_float m e of
        None \<Rightarrow> ieee_bits (2 ^ 23) (2 ^ 31) s 255 0
      | Some (q, e1) \<Rightarrow> ieee_bits (2 ^ 23) (2 ^ 31) s (if q < 2 ^ 23 then 0 else e1 + 150) q)"

definition float_of_bits :: "int \<Rightarrow> dbl" where
  "float_of_bits b =
     (let s = b \<ge> 2 ^ 31; ex = b div 2 ^ 23 mod 256; m = b mod 2 ^ 23 in
      if ex = 255 then (if m = 0 then DInf s else DNan)
      else if ex = 0 then dround s m 1 (-149)
      else dround s (2 ^ 23 + m) 1 (ex - 150))"

section \<open>Encoding and decoding\<close>

text \<open>
  \<^verbatim>\<open>b6b_ffi_encode\<close>: the bytes of the value of an object, or a failure.  Every value of a \<^verbatim>\<open>b6b_int\<close> fits in
  a \<^verbatim>\<open>long\<close>, and none that is not negative is greater than \<^verbatim>\<open>ULONG_MAX\<close>.
\<close>

definition int_fits :: "ffi_type \<Rightarrow> int \<Rightarrow> bool" where
  "int_fits t i \<longleftrightarrow> (let k = 8 * ffi_size t in
     t = T_pointer \<or> (if ffi_signed t then - (2 ^ (k - 1)) \<le> i \<and> i < 2 ^ (k - 1) else 0 \<le> i \<and> i < 2 ^ k))"

definition b6b_ffi_encode :: "addr \<Rightarrow> ffi_type \<Rightarrow> heap \<Rightarrow> (string option \<times> heap) option" where
  "b6b_ffi_encode a t h =
     (if t \<in> {T_float, T_double} then do {
        (ok, h) \<leftarrow> b6b_as_float a h;
        if \<not> ok then Some (None, h)
        else do {
          ob \<leftarrow> hget a h;
          f \<leftarrow> ob_f ob;
          Some (Some (if t = T_float then le_bytes 4 (float_bits f) else le_bytes 8 (double_bits f)), h)
        }
      }
      else do {
        (ok, h) \<leftarrow> b6b_as_int a h;
        if \<not> ok then Some (None, h)
        else do {
          ob \<leftarrow> hget a h;
          i \<leftarrow> ob_i ob;
          Some (if int_fits t (sint i) then Some (le_bytes (ffi_size t) (sint i)) else None, h)
        }
      })"

text \<open>\<^verbatim>\<open>b6b_ffi_decode\<close> of the bytes that are left: a new object.\<close>

definition b6b_ffi_decode :: "string \<Rightarrow> ffi_type \<Rightarrow> heap \<Rightarrow> addr option \<times> heap" where
  "b6b_ffi_decode s t h =
     (let v = take (ffi_size t) s in
      if length s < ffi_size t then (None, h)
      else if t = T_float then apfst Some (b6b_float_new (float_of_bits (le_uint v)) h)
      else if t = T_double then apfst Some (b6b_float_new (double_of_bits (le_uint v)) h)
      else apfst Some (b6b_int_new (word_of_int (if ffi_signed t then le_sint v else le_uint v)) h))"

section \<open>Structures\<close>

definition B6B_FFI_MAX_STRUCT_SZ :: nat where "B6B_FFI_MAX_STRUCT_SZ = 4096"

text \<open>The bytes up to the alignment of a type.\<close>

definition ffi_pad :: "bool \<Rightarrow> nat \<Rightarrow> ffi_type \<Rightarrow> nat" where
  "ffi_pad pack len t = (let pad = len mod ffi_alignment t in
     if pack \<or> pad = 0 then 0 else ffi_alignment t - pad)"

text \<open>The loop of \<^verbatim>\<open>pack\<close>: the characters and the objects that are left, the bytes so far.\<close>

fun pack_loop :: "bool \<Rightarrow> string \<Rightarrow> addr list \<Rightarrow> string \<Rightarrow> heap \<Rightarrow> (string option \<times> heap) option" where
  "pack_loop pack [] vs buf h = Some (Some buf, h)"
| "pack_loop pack (c # fmt) vs buf h =
     (case vs of
        [] \<Rightarrow> Some (None, h)
      | v # vs \<Rightarrow>
          (case b6b_ffi_type c of
             None \<Rightarrow> Some (None, h)
           | Some t \<Rightarrow> do {
               (val, h) \<leftarrow> b6b_ffi_encode v t h;
               (case val of
                  None \<Rightarrow> Some (None, h)
                | Some p \<Rightarrow>
                    let pad = ffi_pad pack (length buf) t in
                    if 0 < pad \<and> length buf + pad > B6B_FFI_MAX_STRUCT_SZ then Some (None, h)
                    else let buf = buf @ replicate pad NUL in
                      if length buf + ffi_size t > B6B_FFI_MAX_STRUCT_SZ then Some (None, h)
                      else pack_loop pack fmt vs (buf @ p) h)
             }))"

text \<open>The loop of \<^verbatim>\<open>unpack\<close>, at offset \<open>off\<close>; the values are added to the list \<open>l\<close>.\<close>

fun unpack_loop :: "bool \<Rightarrow> string \<Rightarrow> string \<Rightarrow> nat \<Rightarrow> addr \<Rightarrow> heap \<Rightarrow> (bool \<times> heap) option" where
  "unpack_loop packed [] s off l h = Some (True, h)"
| "unpack_loop packed (c # fmt) s off l h =
     (if off \<ge> length s then Some (False, h)
      else (case b6b_ffi_type c of
        None \<Rightarrow> Some (False, h)
      | Some t \<Rightarrow>
          let pad = ffi_pad packed off t in
          if 0 < pad \<and> length s - off \<le> pad then Some (False, h)
          else let off = off + pad in
            (case b6b_ffi_decode (drop off s) t h of
               (None, h) \<Rightarrow> Some (False, h)
             | (Some a, h) \<Rightarrow> do {
                 h \<leftarrow> b6b_list_add l a h;
                 h \<leftarrow> b6b_unref a h;
                 unpack_loop packed fmt s (off + ffi_size t) l h
               })))"

text \<open>A leading point asks for no padding; alone it is refused.\<close>

definition pack_fmt :: "string \<Rightarrow> (bool \<times> string) option" where
  "pack_fmt fmt = (case fmt of
     [] \<Rightarrow> None
   | c # cs \<Rightarrow> if c = CHR ''.'' then (if cs = [] then None else Some (True, cs)) else Some (False, fmt))"

section \<open>Procedures\<close>

text \<open>
  The places of the procedures follow those of the table of src/b6b_zlib.c; the last three are those of
  buffers, functions and libraries.
\<close>

datatype ffi_fn = Ff_buf | Ff_memcpy | Ff_pack | Ff_unpack | Ff_dlopen | Ff_func | Ff_buf_obj | Ff_func_obj | Ff_so_obj

definition ffi_fns :: "(string \<times> ffi_fn) list" where
  "ffi_fns = [(''ffi.buf'', Ff_buf), (''ffi.memcpy'', Ff_memcpy), (''ffi.pack'', Ff_pack), (''ffi.unpack'', Ff_unpack),
     (''ffi.dlopen'', Ff_dlopen), (''ffi.func'', Ff_func)]"

definition ffi_num :: "ffi_fn \<Rightarrow> nat" where
  "ffi_num f = length io_fns + length zlib_fns + length (takeWhile (\<lambda>g. g \<noteq> f) (map snd ffi_fns @ [Ff_buf_obj, Ff_func_obj, Ff_so_obj]))"

definition b6b_ffi_table :: "ext_obj list" where
  "b6b_ffi_table = map (\<lambda>(n, f). ext_proc n (F_ext (ffi_num f))) ffi_fns"

record b6b_ffi_func =
  ff_p :: ptr
  ff_rtype :: ffi_type
  ff_atypes :: "ffi_type list"

text \<open>The interpreter, the world, and the structures of functions; a freed one is \<open>None\<close>.\<close>

record 'w ffi_io =
  f_i :: interp
  f_w :: 'w
  f_funcs :: "b6b_ffi_func option list"

text \<open>
  The parameters: where the text of an object is; the bytes at an address, if they can be read; the dynamic
  linker, with the text of \<^verbatim>\<open>dlerror\<close> for a failure; \<^verbatim>\<open>ffi_prep_cif\<close>; and \<^verbatim>\<open>ffi_call\<close>, of which nothing is known
  but that it leaves eight bytes where the result goes.
\<close>

record 'w ffi_env =
  text_addr :: "addr \<Rightarrow> 'w ffi_io \<Rightarrow> ptr"
  mem_read :: "ptr \<Rightarrow> nat \<Rightarrow> 'w ffi_io \<Rightarrow> string option"
  ffi_dlopen :: "string option \<Rightarrow> 'w \<Rightarrow> (string option + ptr) \<times> 'w"
  ffi_dlsym :: "ptr \<Rightarrow> string \<Rightarrow> 'w \<Rightarrow> (string + ptr) \<times> 'w"
  ffi_dlclose :: "ptr \<Rightarrow> 'w \<Rightarrow> 'w"
  ffi_prep_cif :: "ffi_type \<Rightarrow> ffi_type list \<Rightarrow> bool"
  ffi_call :: "b6b_ffi_func \<Rightarrow> ptr list \<Rightarrow> 'w ffi_io \<Rightarrow> (string \<times> 'w ffi_io) option"

definition on_ffi :: "(interp \<Rightarrow> ('a \<times> interp) option) \<Rightarrow> 'w ffi_io \<Rightarrow> ('a \<times> 'w ffi_io) option" where
  "on_ffi f s = do {
     (x, I) \<leftarrow> f (f_i s);
     Some (x, s\<lparr>f_i := I\<rparr>)
   }"

definition ffi_args :: "addr \<Rightarrow> string \<Rightarrow> bool list \<Rightarrow> 'w ffi_io \<Rightarrow> ((nat \<times> parg list) \<times> 'w ffi_io) option" where
  "ffi_args args fmt wants = on_ffi (\<lambda>I. map_option (\<lambda>(n, ps, I). ((n, ps), I)) (b6b_proc_get_args args fmt wants I))"

definition b6b_ffi_addr_new :: "ptr \<Rightarrow> addr \<Rightarrow> interp \<Rightarrow> (b6b_res \<times> interp) option" where
  "b6b_ffi_addr_new p to I =
     (case new_heap (b6b_int_new p) I of (a, I) \<Rightarrow> do {
        I \<leftarrow> upd_heap (b6b_ref to) I;
        I \<leftarrow> upd_heap (hupd a (\<lambda>ob. ob\<lparr>ob_priv := Priv_unref to\<rparr>)) I;
        b6b_return a I
      })"

definition b6b_ffi_buf_proc :: "'w ffi_env \<Rightarrow> addr \<Rightarrow> 'w ffi_io \<Rightarrow> (b6b_res \<times> 'w ffi_io) option" where
  "b6b_ffi_buf_proc E args s = do {
     ((argc, ps), s) \<leftarrow> ffi_args args ''os'' [True, True] s;
     if argc = 0 then Some (B6B_ERR, s)
     else case ps of
       [Arg a, Arg b] \<Rightarrow> do {
         op \<leftarrow> str_at b (f_i s);
         if c_strcmp_eq op ''address'' then on_ffi (b6b_ffi_addr_new (text_addr E a s) a) s
         else Some (B6B_ERR, s)
       }
     | _ \<Rightarrow> None
   }"

definition b6b_ffi_buf_new :: "string \<Rightarrow> interp \<Rightarrow> (b6b_res \<times> interp) option" where
  "b6b_ffi_buf_new t I =
     (case new_heap (b6b_str_new t) I of (a, I) \<Rightarrow> do {
        I \<leftarrow> upd_heap (hupd a (\<lambda>ob. ob\<lparr>ob_proc := F_ext (ffi_num Ff_buf_obj)\<rparr>)) I;
        b6b_return a I
      })"

definition b6b_ffi_proc_buf :: "addr \<Rightarrow> 'w ffi_io \<Rightarrow> (b6b_res \<times> 'w ffi_io) option" where
  "b6b_ffi_proc_buf args s = do {
     ((argc, ps), s) \<leftarrow> ffi_args args ''os'' [False, True] s;
     if argc = 0 then Some (B6B_ERR, s)
     else case ps of
       [Arg a] \<Rightarrow> do {
         t \<leftarrow> str_at a (f_i s);
         on_ffi (b6b_ffi_buf_new t) s
       }
     | _ \<Rightarrow> None
   }"

text \<open>A negative length is that of no object in memory.\<close>

definition b6b_ffi_proc_memcpy :: "'w ffi_env \<Rightarrow> addr \<Rightarrow> 'w ffi_io \<Rightarrow> (b6b_res \<times> 'w ffi_io) option" where
  "b6b_ffi_proc_memcpy E args s = do {
     ((argc, ps), s) \<leftarrow> ffi_args args ''oii'' [False, True, True] s;
     if argc = 0 then Some (B6B_ERR, s)
     else case ps of
       [Arg a, Arg b] \<Rightarrow> do {
         p \<leftarrow> int_at a (f_i s);
         len \<leftarrow> int_at b (f_i s);
         if len = 0 \<or> p = 0 then Some (B6B_ERR, s)
         else if sint len < 0 then None
         else do {
           t \<leftarrow> mem_read E p (unat len) s;
           on_ffi (b6b_ffi_buf_new t) s
         }
       }
     | _ \<Rightarrow> None
   }"

definition b6b_ffi_proc_pack :: "addr \<Rightarrow> 'w ffi_io \<Rightarrow> (b6b_res \<times> 'w ffi_io) option" where
  "b6b_ffi_proc_pack args s = do {
     ((argc, ps), s) \<leftarrow> ffi_args args ''os*'' [False, True, True] s;
     if argc = 0 then Some (B6B_ERR, s)
     else case ps of
       [Arg a, Rest li] \<Rightarrow> do {
         fmt \<leftarrow> str_at a (f_i s);
         (case pack_fmt fmt of
            None \<Rightarrow> Some (B6B_ERR, s)
          | Some (pack, cs) \<Rightarrow> do {
              its \<leftarrow> items_at args (f_i s);
              (r, s) \<leftarrow> on_ffi (on_heap (pack_loop pack cs (map snd (dropWhile (\<lambda>p. fst p \<noteq> li) its)) [])) s;
              (case r of
                 None \<Rightarrow> Some (B6B_ERR, s)
               | Some buf \<Rightarrow> on_ffi (b6b_ffi_buf_new buf) s)
            })
       }
     | _ \<Rightarrow> None
   }"

definition b6b_ffi_proc_unpack :: "addr \<Rightarrow> 'w ffi_io \<Rightarrow> (b6b_res \<times> 'w ffi_io) option" where
  "b6b_ffi_proc_unpack args s = do {
     ((argc, ps), s) \<leftarrow> ffi_args args ''oss'' [False, True, True] s;
     if argc = 0 then Some (B6B_ERR, s)
     else case ps of
       [Arg a, Arg b] \<Rightarrow> do {
         fmt \<leftarrow> str_at a (f_i s);
         t \<leftarrow> str_at b (f_i s);
         (case pack_fmt fmt of
            None \<Rightarrow> Some (B6B_ERR, s)
          | Some (packed, cs) \<Rightarrow>
              (case new_heap b6b_list_new (f_i s) of (l, I) \<Rightarrow> do {
                 (ok, I) \<leftarrow> on_heap (unpack_loop packed cs t 0 l) I;
                 if \<not> ok then do {
                   I \<leftarrow> upd_heap (b6b_destroy l) I;
                   Some (B6B_ERR, s\<lparr>f_i := I\<rparr>)
                 }
                 else on_ffi (b6b_return l) (s\<lparr>f_i := I\<rparr>)
               }))
       }
     | _ \<Rightarrow> None
   }"

section \<open>Functions\<close>

definition b6b_ffi_get_types :: "string \<Rightarrow> ffi_type list option" where
  "b6b_ffi_get_types names = those (map b6b_ffi_type names)"

definition b6b_ffi_proc_func :: "'w ffi_env \<Rightarrow> addr \<Rightarrow> 'w ffi_io \<Rightarrow> (b6b_res \<times> 'w ffi_io) option" where
  "b6b_ffi_proc_func E args s = do {
     ((argc, ps), s) \<leftarrow> ffi_args args ''oiss'' [False, True, True, True] s;
     if argc = 0 then Some (B6B_ERR, s)
     else case ps of
       [Arg a, Arg r, Arg ts] \<Rightarrow> do {
         p \<leftarrow> int_at a (f_i s);
         rtype \<leftarrow> str_at r (f_i s);
         atypes \<leftarrow> str_at ts (f_i s);
         if length rtype \<noteq> 1 \<or> int (length atypes) > UINT_MAX \<or> p = 0 then Some (B6B_ERR, s)
         else (case (b6b_ffi_type (hd rtype), b6b_ffi_get_types atypes) of
             (Some rt, Some at) \<Rightarrow>
               if \<not> ffi_prep_cif E rt at then Some (B6B_ERR, s)
               else
                 let n = length (f_funcs s); f = \<lparr>ff_p = p, ff_rtype = rt, ff_atypes = at\<rparr> in
                 (case new_heap (b6b_str_new (''func:'' @ hex_digits n)) (f_i s) of (a, I) \<Rightarrow> do {
                    I \<leftarrow> upd_heap (hupd a (\<lambda>ob. ob\<lparr>ob_priv := Priv_ext n, ob_proc := F_ext (ffi_num Ff_func_obj)\<rparr>)) I;
                    on_ffi (b6b_return a) (s\<lparr>f_i := I, f_funcs := f_funcs s @ [Some f]\<rparr>)
                  })
           | _ \<Rightarrow> Some (B6B_ERR, s))
       }
     | _ \<Rightarrow> None
   }"

text \<open>The destructors, with the private data.\<close>

definition b6b_ffi_func_del :: "nat \<Rightarrow> 'w ffi_io \<Rightarrow> 'w ffi_io option" where
  "b6b_ffi_func_del n s =
     (if n < length (f_funcs s) \<and> f_funcs s ! n \<noteq> None then Some (s\<lparr>f_funcs := (f_funcs s)[n := None]\<rparr>) else None)"

definition b6b_ffi_so_del :: "'w ffi_env \<Rightarrow> nat \<Rightarrow> 'w ffi_io \<Rightarrow> 'w ffi_io option" where
  "b6b_ffi_so_del E n s = Some (s\<lparr>f_w := ffi_dlclose E (word_of_nat n) (f_w s)\<rparr>)"

text \<open>The loop over the arguments of a call: \<open>None\<close> when there are too few or one is no integer.\<close>

fun func_args :: "nat \<Rightarrow> addr list \<Rightarrow> heap \<Rightarrow> (ptr list option \<times> heap) option" where
  "func_args 0 vs h = Some (Some [], h)"
| "func_args (Suc n) vs h =
     (case vs of
        [] \<Rightarrow> Some (None, h)
      | v # vs \<Rightarrow> do {
          (ok, h) \<leftarrow> b6b_as_int v h;
          if \<not> ok then Some (None, h)
          else do {
            ob \<leftarrow> hget v h;
            i \<leftarrow> ob_i ob;
            (r, h) \<leftarrow> func_args n vs h;
            Some (map_option ((#) i) r, h)
          }
        })"

definition b6b_ffi_func_proc :: "'w ffi_env \<Rightarrow> addr \<Rightarrow> 'w ffi_io \<Rightarrow> (b6b_res \<times> 'w ffi_io) option" where
  "b6b_ffi_func_proc E args s = do {
     ((argc, ps), s) \<leftarrow> ffi_args args ''ol'' [True, True] s;
     if argc = 0 then Some (B6B_ERR, s)
     else case ps of
       [Arg a, Arg pos] \<Rightarrow> do {
         ob \<leftarrow> obj_at a (f_i s);
         n \<leftarrow> (case ob_priv ob of Priv_ext n \<Rightarrow> Some n | _ \<Rightarrow> None);
         f \<leftarrow> (if n < length (f_funcs s) then f_funcs s ! n else None);
         its \<leftarrow> items_at pos (f_i s);
         (r, s) \<leftarrow> on_ffi (on_heap (func_args (length (ff_atypes f)) (map snd its))) s;
         (case r of
            None \<Rightarrow> Some (B6B_ERR, s)
          | Some argps \<Rightarrow> do {
              (out, s) \<leftarrow> ffi_call E f argps s;
              (case b6b_ffi_decode out (ff_rtype f) (hp (f_i s)) of
                 (None, h) \<Rightarrow> Some (B6B_ERR, s)
               | (Some outo, h) \<Rightarrow> on_ffi (b6b_return outo) (s\<lparr>f_i := (f_i s)\<lparr>hp := h\<rparr>\<rparr>))
            })
       }
     | _ \<Rightarrow> None
   }"

section \<open>Libraries\<close>

definition b6b_ffi_so_proc :: "'w ffi_env \<Rightarrow> addr \<Rightarrow> 'w ffi_io \<Rightarrow> (b6b_res \<times> 'w ffi_io) option" where
  "b6b_ffi_so_proc E args s = do {
     ((argc, ps), s) \<leftarrow> ffi_args args ''os|s'' [True, True, True] s;
     if argc = 0 then Some (B6B_ERR, s)
     else case ps of
       Arg a # Arg b # ps' \<Rightarrow> do {
         op \<leftarrow> str_at b (f_i s);
         ob \<leftarrow> obj_at a (f_i s);
         n \<leftarrow> (case ob_priv ob of Priv_ext n \<Rightarrow> Some n | _ \<Rightarrow> None);
         (case ps' of
            [Arg c] \<Rightarrow>
              if c_strcmp_eq op ''dlsym'' then do {
                sym \<leftarrow> str_at c (f_i s);
                (case ffi_dlsym E (word_of_nat n) (c_str sym) (f_w s) of
                   (Inl err, w) \<Rightarrow> on_ffi (fail_with (c_str err)) (s\<lparr>f_w := w\<rparr>)
                 | (Inr p, w) \<Rightarrow> on_ffi (b6b_ffi_addr_new p a) (s\<lparr>f_w := w\<rparr>))
              }
              else Some (B6B_ERR, s)
          | [] \<Rightarrow>
              if c_strcmp_eq op ''handle'' then on_ffi (b6b_ffi_addr_new (word_of_nat n) a) s
              else Some (B6B_ERR, s)
          | _ \<Rightarrow> None)
       }
     | _ \<Rightarrow> None
   }"

definition b6b_ffi_proc_dlopen :: "'w ffi_env \<Rightarrow> addr \<Rightarrow> 'w ffi_io \<Rightarrow> (b6b_res \<times> 'w ffi_io) option" where
  "b6b_ffi_proc_dlopen E args s = do {
     ((argc, ps), s) \<leftarrow> ffi_args args ''os'' [False, True] s;
     if argc = 0 then Some (B6B_ERR, s)
     else case ps of
       [Arg a] \<Rightarrow> do {
         path \<leftarrow> str_at a (f_i s);
         (case ffi_dlopen E (if path = [] then None else Some (c_str path)) (f_w s) of
            (Inl None, w) \<Rightarrow> Some (B6B_ERR, s\<lparr>f_w := w\<rparr>)
          | (Inl (Some err), w) \<Rightarrow> on_ffi (fail_with (c_str err)) (s\<lparr>f_w := w\<rparr>)
          | (Inr p, w) \<Rightarrow>
              (case new_heap (b6b_str_new (''so:'' @ hex_digits (unat p))) (f_i s) of (a, I) \<Rightarrow> do {
                 I \<leftarrow> upd_heap (hupd a (\<lambda>ob. ob\<lparr>ob_priv := Priv_ext (unat p), ob_proc := F_ext (ffi_num Ff_so_obj)\<rparr>)) I;
                 on_ffi (b6b_return a) (s\<lparr>f_i := I, f_w := w\<rparr>)
               }))
       }
     | _ \<Rightarrow> None
   }"

section \<open>Calls\<close>

definition b6b_ffi_call :: "'w ffi_env \<Rightarrow> ffi_fn \<Rightarrow> addr \<Rightarrow> 'w ffi_io \<Rightarrow> (b6b_res \<times> 'w ffi_io) option" where
  "b6b_ffi_call E f = (case f of
     Ff_buf \<Rightarrow> b6b_ffi_proc_buf | Ff_memcpy \<Rightarrow> b6b_ffi_proc_memcpy E | Ff_pack \<Rightarrow> b6b_ffi_proc_pack
   | Ff_unpack \<Rightarrow> b6b_ffi_proc_unpack | Ff_dlopen \<Rightarrow> b6b_ffi_proc_dlopen E | Ff_func \<Rightarrow> b6b_ffi_proc_func E
   | Ff_buf_obj \<Rightarrow> b6b_ffi_buf_proc E | Ff_func_obj \<Rightarrow> b6b_ffi_func_proc E | Ff_so_obj \<Rightarrow> b6b_ffi_so_proc E)"

text \<open>\<^verbatim>\<open>b6b_ffi_init\<close> runs this text.\<close>

definition B6B_FFI_BODY :: string where
  "B6B_FFI_BODY =
     ''{$proc ffi.ptr {'' @
     ''{$ffi.pack p [$1 address]}'' @
     ''}}'' @ NL @
     ''{$proc ffi.call {'' @
     ''{$1 [$map x [$list.range $@ 2 [$- [$list.len $@] 1]] {{$x address}}]}'' @
     ''}}''"

end
