(* ===== verification/Float_Lemmas.thy ===== *)
theory Float_Lemmas
  imports Ffi Double_Lemmas
begin

text \<open>
  Floating point numbers as C writes and reads them: a \<^verbatim>\<open>double\<close> is found again in its bits, and the
  conversion to a \<^verbatim>\<open>float\<close> gives a nearest one.  What a nearest \<^verbatim>\<open>float\<close> is, is said without
  the rounding of theory Ffi.
\<close>

section \<open>Bit patterns\<close>

text \<open>The values of binary64, each with one significand.\<close>

fun canonical :: "dbl \<Rightarrow> bool" where
  "canonical (DFin s m e) \<longleftrightarrow> 0 \<le> m \<and> (m < 2 ^ 52 \<and> e = -1074 \<or> 2 ^ 52 \<le> m \<and> m < 2 ^ 53 \<and> -1074 \<le> e \<and> e \<le> 971)"
| "canonical d \<longleftrightarrow> True"

lemma ieee_bits_bounds:
  assumes "0 < frac" and "0 \<le> ex" and "(ex + 1) * frac \<le> sbit"
  shows "0 \<le> ieee_bits frac sbit s ex m" and "ieee_bits frac sbit s ex m < 2 * sbit"
proof -
  have m: "0 \<le> m mod frac" "m mod frac < frac" using assms(1) by simp_all
  have "ex * frac + m mod frac < (ex + 1) * frac" using m by (simp add: algebra_simps)
  then have lt: "ex * frac + m mod frac < sbit" using assms(3) by linarith
  have ge: "0 \<le> ex * frac" using assms(1,2) by simp
  show "0 \<le> ieee_bits frac sbit s ex m" unfolding ieee_bits_def using m lt ge by auto
  show "ieee_bits frac sbit s ex m < 2 * sbit" unfolding ieee_bits_def using m lt ge by auto
qed

text \<open>The three fields are found again.\<close>

lemma ieee_bits_fields:
  assumes "0 < frac" and "0 \<le> ex" and "ex < n" and "sbit = n * frac"
  shows "ieee_bits frac sbit s ex m \<ge> sbit \<longleftrightarrow> s"
    and "ieee_bits frac sbit s ex m div frac mod n = ex"
    and "ieee_bits frac sbit s ex m mod frac = m mod frac"
proof -
  have m: "0 \<le> m mod frac" "m mod frac < frac" using assms(1) by simp_all
  have b: "ieee_bits frac sbit s ex m = m mod frac + frac * ((if s then n else 0) + ex)"
    by (simp add: ieee_bits_def assms(4) algebra_simps)
  have "(ex + 1) * frac \<le> n * frac" using assms by (intro mult_right_mono) auto
  then have "ex * frac + m mod frac < n * frac" using m by (simp add: algebra_simps)
  moreover have "0 \<le> ex * frac" using assms by simp
  ultimately show "ieee_bits frac sbit s ex m \<ge> sbit \<longleftrightarrow> s" using m by (auto simp: ieee_bits_def assms(4))
  have d: "ieee_bits frac sbit s ex m div frac = (if s then n else 0) + ex"
    unfolding b using assms(1) m by simp
  show "ieee_bits frac sbit s ex m div frac mod n = ex" unfolding d using assms(2,3) by (cases s) simp_all
  show "ieee_bits frac sbit s ex m mod frac = m mod frac" unfolding b by simp
qed

lemma double_bits_range: "canonical d \<Longrightarrow> 0 \<le> double_bits d \<and> double_bits d < 256 ^ 8"
  by (cases d) (auto intro!: ieee_bits_bounds(1) order_less_le_trans [OF ieee_bits_bounds(2)])

lemma double_of_double_bits:
  assumes "canonical d"
  shows "double_of_bits (double_bits d) = d"
proof -
  note f = ieee_bits_fields [of "2 ^ 52" _ 2048 "2 ^ 63"]
  show ?thesis
  proof (cases d)
    case (DFin s m e)
    show ?thesis
    proof (cases "m < 2 ^ 52")
      case True
      with DFin assms f [of 0 s m] show ?thesis by (simp add: double_of_bits_def Let_def)
    next
      case False
      with DFin assms have c: "2 ^ 52 \<le> m" "m < 2 ^ 53" "0 \<le> e + 1075" "e + 1075 < 2047" by auto
      have "m mod 2 ^ 52 = (m - 2 ^ 52) mod 2 ^ 52" by simp
      also have "\<dots> = m - 2 ^ 52" using c by (intro mod_pos_pos_trivial) auto
      finally have "m mod 2 ^ 52 = m - 2 ^ 52" .
      with DFin assms False c f [of "e + 1075" s m] show ?thesis by (simp add: double_of_bits_def Let_def)
    qed
  qed (use f [of 2047 _ 0] f [of 2047 False "2 ^ 51"] in \<open>simp_all add: double_of_bits_def Let_def\<close>)
qed

lemma float_bits_range: "0 \<le> float_bits d \<and> float_bits d < 256 ^ 4"
proof (cases d)
  case (DFin s m e)
  show ?thesis
  proof (cases "round_float m e")
    case None
    with DFin show ?thesis by (auto intro!: ieee_bits_bounds(1) order_less_le_trans [OF ieee_bits_bounds(2)])
  next
    case (Some p)
    obtain q e1 where p: "p = (q, e1)" by (cases p)
    with Some have "-149 \<le> e1" "e1 \<le> 104" by (auto simp: round_float_def Let_def split: if_splits)
    then have "0 \<le> ieee_bits (2 ^ 23) (2 ^ 31) s (if q < 2 ^ 23 then 0 else e1 + 150) q
      \<and> ieee_bits (2 ^ 23) (2 ^ 31) s (if q < 2 ^ 23 then 0 else e1 + 150) q < 2 * 2 ^ 31"
      by (intro conjI ieee_bits_bounds) auto
    with DFin Some p show ?thesis by simp
  qed
qed (auto intro!: ieee_bits_bounds(1) order_less_le_trans [OF ieee_bits_bounds(2)])

section \<open>The nearest float\<close>

text \<open>
  Magnitudes are counted in units of 2^-1074, the least positive double.  A finite \<^verbatim>\<open>float\<close> is a
  significand below 2^24 times a power of two between 2^-149 and 2^104.  The first magnitude that is infinite as
  a \<^verbatim>\<open>float\<close> is in the middle between the greatest of them and 2^128.
\<close>

definition units :: "int \<Rightarrow> int \<Rightarrow> int" where
  "units m e = m * 2 ^ nat (e + 1074)"

definition float_units :: "int set" where
  "float_units = {units k x |k x. 0 \<le> k \<and> k < 2 ^ 24 \<and> -149 \<le> x \<and> x \<le> 104}"

definition float_limit :: int where
  "float_limit = units (2 ^ 25 - 1) 103"

lemma half_bounds: "2 * \<bar>a - b\<bar> \<le> (d :: int) \<Longrightarrow> 2 * a \<le> 2 * b + d \<and> 2 * b \<le> 2 * a + d"
  by (auto simp: abs_if split: if_splits)

text \<open>\<open>g\<close> is a \<^verbatim>\<open>float\<close> nearest to \<open>f\<close>.\<close>

fun nearest_float :: "dbl \<Rightarrow> dbl \<Rightarrow> bool" where
  "nearest_float (DFin s m e) (DFin s' m' e') \<longleftrightarrow> s' = s \<and> units m e < float_limit \<and> units m' e' \<in> float_units
     \<and> (\<forall>u\<in>float_units. \<bar>units m' e' - units m e\<bar> \<le> \<bar>u - units m e\<bar>)"
| "nearest_float (DFin s m e) (DInf s') \<longleftrightarrow> s' = s \<and> float_limit \<le> units m e"
| "nearest_float (DFin s m e) DNan \<longleftrightarrow> False"
| "nearest_float f g \<longleftrightarrow> g = f"

text \<open>So a value that is a \<^verbatim>\<open>float\<close> is unchanged.\<close>

lemma nearest_float_same:
  assumes "nearest_float (DFin s m e) g" and "units m e \<in> float_units" and "units m e < float_limit"
  shows "\<exists>m' e'. g = DFin s m' e' \<and> units m' e' = units m e"
proof (cases g)
  case (DFin s' m' e')
  with assms have "\<bar>units m' e' - units m e\<bar> \<le> \<bar>units m e - units m e\<bar>" and "s' = s" by auto
  with DFin show ?thesis by simp
qed (use assms in auto)

text \<open>Rounding to an integer gives a nearest one, and the even one of two.\<close>

lemma rne_dist: "0 < d \<Longrightarrow> 2 * \<bar>rne n d * d - n\<bar> \<le> d"
proof -
  assume d: "0 < d"
  define q r where "q = n div d" and "r = n mod d"
  have n: "n = q * d + r" and r: "0 \<le> r" "r < d" using d by (simp_all add: q_def r_def)
  have "rne n d = q \<and> 2 * r \<le> d \<or> rne n d = q + 1 \<and> d \<le> 2 * r"
    unfolding rne_def q_def [symmetric] r_def [symmetric] by (auto simp: Let_def)
  then show ?thesis
  proof (elim disjE conjE)
    assume "rne n d = q + 1" "d \<le> 2 * r"
    moreover have "(q + 1) * d - n = d - r" by (simp add: n algebra_simps)
    ultimately show ?thesis using r by simp
  qed (use r in \<open>simp add: n\<close>)
qed

lemma rne_nearest:
  assumes "0 < d"
  shows "\<bar>rne n d * d - n\<bar> \<le> \<bar>k * d - n\<bar>"
proof (cases "k = rne n d")
  case False
  then have "d * 1 \<le> d * \<bar>k - rne n d\<bar>" using assms by (intro mult_left_mono) auto
  also have "\<dots> = \<bar>k * d - rne n d * d\<bar>" using assms by (simp add: abs_mult left_diff_distrib [symmetric])
  finally have "d \<le> \<bar>(k * d - n) - (rne n d * d - n)\<bar>" by simp
  also have "\<dots> \<le> \<bar>k * d - n\<bar> + \<bar>rne n d * d - n\<bar>" by (rule abs_triangle_ineq4)
  finally show ?thesis using rne_dist [OF assms, of n] by simp
qed simp

lemma rne_tie: "0 < d \<Longrightarrow> 2 * n = (2 * k + 1) * d \<Longrightarrow> odd k \<Longrightarrow> rne n d = k + 1"
proof -
  assume d: "0 < d" "2 * n = (2 * k + 1) * d" "odd k"
  define q r where "q = n div d" and "r = n mod d"
  have n: "n = q * d + r" and r: "0 \<le> r" "r < d" using d by (simp_all add: q_def r_def)
  have e: "2 * r = (2 * (k - q) + 1) * d" using d(2) n by (simp add: algebra_simps)
  then have "0 \<le> (2 * (k - q) + 1) * d" "(2 * (k - q) + 1) * d < 2 * d" using r by linarith+
  then have "0 \<le> 2 * (k - q) + 1" "2 * (k - q) + 1 < 2" using d(1) by (simp_all add: zero_le_mult_iff mult_less_cancel_right)
  then have "q = k" by presburger
  with e d show ?thesis unfolding rne_def q_def [symmetric] r_def [symmetric] by (simp add: Let_def)
qed

text \<open>An integer with at most 24 bits, times a power of two, is a double.\<close>

lemma dround_small:
  assumes "0 \<le> q" and "q < 2 ^ 24" and "-149 \<le> x" and "x \<le> 104"
  obtains m e where "dround s q 1 x = DFin s m e" and "units m e = units q x"
proof (cases "q = 0")
  case True
  then show thesis by (intro that [of 0 "-1074"]) (simp_all add: dround_def units_def)
next
  case False
  with assms(1) have q: "0 < q" by simp
  define b where "b = bitlen q"
  have b: "1 \<le> b" "b \<le> 24" using bitlen_ge_1 [OF q] bitlen_le [OF q assms(2)] by (simp_all add: b_def)
  have qb: "2 ^ nat (b - 1) \<le> q" "q < 2 ^ nat b" using bitlen_bounds [OF q] by (simp_all add: b_def)
  let ?k = "nat (53 - b)"
  have "(2::int) ^ 53 = 2 ^ nat (b - 1) * 2 ^ Suc ?k" using b by (simp flip: power_add) (simp add: nat_add_distrib [symmetric] Suc_nat_eq_nat_zadd1)
  also have "\<dots> \<le> q * 2 ^ Suc ?k" using qb(1) by (intro mult_right_mono) simp_all
  finally have lo: "2 ^ 53 \<le> q * 2 ^ Suc ?k" .
  have "q * 2 ^ ?k < 2 ^ nat b * 2 ^ ?k" using qb(2) by (intro mult_strict_right_mono) simp_all
  also have "\<dots> = 2 ^ 53" using b by (simp flip: power_add) (simp add: nat_add_distrib [symmetric])
  finally have hi: "q * 2 ^ ?k < 2 ^ 53" .
  have k: "nat (54 - b) = Suc ?k" using b by linarith
  have "dround s q 1 x = DFin s (q * 2 ^ ?k) (b + x - 53)"
    using q b lo hi assms(3,4) k unfolding dround_def b_def [symmetric] by (simp add: scale_def Let_def)
  moreover have "units (q * 2 ^ ?k) (b + x - 53) = units q x"
    using b assms(3) unfolding units_def by (simp add: mult.assoc flip: power_add) (simp add: nat_add_distrib [symmetric] add.commute)
  ultimately show thesis by (rule that)
qed

lemma units_shift: "-1074 \<le> y \<Longrightarrow> y \<le> x \<Longrightarrow> units k x = units (k * 2 ^ nat (x - y)) y"
  unfolding units_def by (simp add: mult.assoc flip: power_add) (simp add: nat_add_distrib [symmetric])

text \<open>
  A magnitude \<open>v\<close> rounded to a multiple \<open>q\<close> of \<open>2 ^ x\<close>, for an \<open>x\<close> that leaves no more than 24 bits and, above the
  least one, no fewer.
\<close>

lemma multiple_nearest:
  assumes near: "\<And>k. \<bar>units q x - v\<bar> \<le> \<bar>units k x - v\<bar>" and x: "-149 \<le> x" "-149 < x \<Longrightarrow> units (2 ^ 23) x \<le> v"
    and u: "u \<in> float_units"
  shows "\<bar>units q x - v\<bar> \<le> \<bar>u - v\<bar>"
proof -
  obtain k y where y: "u = units k y" "0 \<le> k" "k < 2 ^ 24" "-149 \<le> y" using u by (auto simp: float_units_def)
  show ?thesis
  proof (cases "x \<le> y")
    case True
    then show ?thesis unfolding y(1) using near units_shift [of x y k] x(1) by simp
  next
    case False
    then have "units (2 ^ 23) x \<le> v" using x(2) y(4) by simp
    moreover have "nat (x + 1074) = Suc (nat (x - y - 1) + nat (y + 1074))" using False y(4) by linarith
    then have "units (2 ^ 23) x = 2 ^ 24 * 2 ^ nat (x - y - 1) * 2 ^ nat (y + 1074)"
      unfolding units_def by (simp add: power_add)
    then have "units (2 ^ 24) y \<le> units (2 ^ 23) x" by (simp add: units_def)
    moreover have "u \<le> units (2 ^ 24) y" unfolding y(1) units_def using y(3) by (intro mult_right_mono) simp_all
    ultimately show ?thesis using near [of "2 ^ 23"] by linarith
  qed
qed

text \<open>The exponent at which a double is rounded, and the multiple.\<close>

lemma float_exponent:
  assumes "canonical (DFin s m e)"
  defines "x \<equiv> max (-149) (bitlen m + e - 24)"
  defines "q \<equiv> rne m (2 ^ nat (x - e))"
  shows "e < x" and "\<bar>units q x - units m e\<bar> \<le> \<bar>units k x - units m e\<bar>"
    and "2 * \<bar>units q x - units m e\<bar> \<le> units 1 x"
    and "units m e < units (2 ^ 24) x" and "-149 < x \<Longrightarrow> units (2 ^ 23) x \<le> units m e"
    and "0 \<le> q" and "q \<le> 2 ^ 24" and "q < 2 ^ 23 \<Longrightarrow> x = -149"
    and "2 * units m e = (2 * i + 1) * units 1 x \<Longrightarrow> odd i \<Longrightarrow> q = i + 1"
proof -
  have m: "0 \<le> m" "-1074 \<le> e" and c: "m < 2 ^ 52 \<and> e = -1074 \<or> 2 ^ 52 \<le> m" using assms(1) by auto
  show lt: "e < x"
  proof (cases "2 ^ 52 \<le> m")
    case True
    then have "(2::int) ^ 52 < 2 ^ nat (bitlen m)" using bitlen_bounds [of m] by auto
    then have "52 < nat (bitlen m)" by (metis power_less_imp_less_exp one_less_numeral_iff semiring_norm(76))
    then show ?thesis by (simp add: x_def)
  qed (use c in \<open>simp add: x_def\<close>)
  define d where "d = (2::int) ^ nat (x - e)"
  define U where "U = (2::int) ^ nat (e + 1074)"
  have d: "0 < d" and U: "0 < U" by (simp_all add: d_def U_def)
  have ux: "units k x = k * d * U" for k
    using units_shift [of e x k] m(2) lt by (simp add: units_def d_def U_def)
  have um: "units m e = m * U" by (simp add: units_def U_def)
  have diff: "\<bar>units k x - units m e\<bar> = \<bar>k * d - m\<bar> * U" for k
    using U by (simp add: ux um abs_mult left_diff_distrib [symmetric])
  have q: "q = rne m d" by (simp add: q_def d_def)
  show "\<bar>units q x - units m e\<bar> \<le> \<bar>units k x - units m e\<bar>"
    unfolding diff q using rne_nearest [OF d, of m k] U by (intro mult_right_mono) simp_all
  have "2 * \<bar>q * d - m\<bar> * U \<le> d * U"
    unfolding q using rne_dist [OF d, of m] U by (intro mult_right_mono) simp_all
  then show dist: "2 * \<bar>units q x - units m e\<bar> \<le> units 1 x" by (simp only: diff) (simp add: ux)
  have bl: "bitlen m \<le> 24 + (x - e)" by (simp add: x_def)
  have "m < 2 ^ 24 * d"
  proof (cases "m = 0")
    case False
    then have "m < 2 ^ nat (bitlen m)" using bitlen_bounds [of m] m by simp
    also have "\<dots> \<le> (2::int) ^ (24 + nat (x - e))" using bl lt by (intro power_increasing) linarith+
    finally show ?thesis by (simp add: power_add d_def)
  qed (use d in simp)
  then have hi: "m * U < 2 ^ 24 * d * U" using U by simp
  then show "units m e < units (2 ^ 24) x" by (simp add: um ux)
  have lo: "2 ^ 23 * d \<le> m" if "-149 < x"
  proof -
    have x: "bitlen m = 24 + (x - e)" using that by (simp add: x_def max_def split: if_splits)
    then have "m \<noteq> 0" using lt by auto
    then have "2 ^ nat (bitlen m - 1) \<le> m" using bitlen_bounds [of m] m by simp
    moreover have "nat (bitlen m - 1) = 23 + nat (x - e)" using x lt by linarith
    ultimately show ?thesis by (simp add: power_add d_def)
  qed
  then show "units (2 ^ 23) x \<le> units m e" if "-149 < x" using that U by (simp add: um ux)
  have "2 * \<bar>q * d - m\<bar> \<le> d" unfolding q by (rule rne_dist [OF d])
  from half_bounds [OF this] have rd: "2 * m \<le> 2 * (q * d) + d" "2 * (q * d) \<le> 2 * m + d" by simp_all
  then have "0 < (q + 1) * d" using m d by (simp add: distrib_right)
  then show "0 \<le> q" using d by (simp add: zero_less_mult_iff)
  have "m < 16777216 * d" using \<open>m < 2 ^ 24 * d\<close> by simp
  then have "q * d < 16777217 * d" using rd d by linarith
  then show "q \<le> 2 ^ 24" using d by (simp add: mult_less_cancel_right)
  show "x = -149" if "q < 2 ^ 23"
  proof (rule ccontr)
    assume "x \<noteq> -149"
    then have "2 ^ 23 * d \<le> m" by (intro lo) (simp add: x_def)
    then have "8388608 * d \<le> m" by simp
    then have "8388607 * d < q * d" using rd d by linarith
    then show False using that d by (simp add: mult_less_cancel_right)
  qed
  show "q = i + 1" if "2 * units m e = (2 * i + 1) * units 1 x" "odd i"
  proof -
    have "2 * m * U = (2 * i + 1) * d * U" using that(1) by (simp add: um ux)
    then have "2 * m = (2 * i + 1) * d" using U by simp
    then show ?thesis unfolding q using rne_tie [OF d _ that(2)] by simp
  qed
qed

lemma units_mono: "0 \<le> k \<Longrightarrow> k \<le> l \<Longrightarrow> x \<le> y \<Longrightarrow> units k x \<le> units l y"
  unfolding units_def by (intro mult_mono power_increasing) auto

lemma units_mult: "units k x = k * units 1 x"
  by (simp add: units_def)

text \<open>The significand and the exponent that are found for a double.\<close>

lemma round_float_units:
  assumes c: "canonical (DFin s m e)"
  shows "case round_float m e of
      None \<Rightarrow> float_limit \<le> units m e
    | Some (q, x) \<Rightarrow> 0 \<le> q \<and> q < 2 ^ 24 \<and> -149 \<le> x \<and> x \<le> 104 \<and> (q < 2 ^ 23 \<longrightarrow> x = -149) \<and> units m e < float_limit
        \<and> (\<forall>u\<in>float_units. \<bar>units q x - units m e\<bar> \<le> \<bar>u - units m e\<bar>)"
proof -
  define x where "x = max (-149) (bitlen m + e - 24)"
  define q where "q = rne m (2 ^ nat (x - e))"
  note f = float_exponent [OF c, folded x_def, folded q_def]
  have x: "-149 \<le> x" by (simp add: x_def)
  have near: "\<forall>u\<in>float_units. \<bar>units q x - units m e\<bar> \<le> \<bar>u - units m e\<bar>"
    using multiple_nearest [OF f(2) x f(5)] by blast
  have r: "round_float m e = (let (q, x) = (if q = 2 ^ 24 then (2 ^ 23, x + 1) else (q, x)) in if x > 104 then None else Some (q, x))"
    using f(1) unfolding round_float_def x_def [symmetric] by (simp add: Let_def q_def)
  have up: "units (2 ^ 24) x = units (2 ^ 23) (x + 1)"
    using units_shift [of x "x + 1" "2 ^ 23"] x by simp
  have u104: "units 1 104 = 2 * units 1 103" by (simp add: units_def)
  have limit: "units m e < float_limit" if "x < 104 \<or> x = 104 \<and> q < 2 ^ 24"
    using that
  proof (elim disjE conjE)
    assume "x < 104"
    then have "units (2 ^ 24) x \<le> float_limit" unfolding float_limit_def by (intro units_mono) auto
    then show ?thesis using f(4) by linarith
  next
    assume q: "x = 104" "q < 2 ^ 24"
    have u: "0 < units 1 103" by (simp add: units_def)
    have qu: "q * units 1 103 \<le> (2 ^ 24 - 1) * units 1 103" using q(2) u by (intro mult_right_mono) simp_all
    have v: "2 * units m e \<le> (2 * q + 1) * units 1 104"
      using half_bounds [OF f(3)] unfolding q(1) units_mult [of q] by (simp add: algebra_simps)
    with qu have le: "units m e \<le> float_limit"
      unfolding float_limit_def units_mult [of "2 ^ 25 - 1"] u104 by (simp add: algebra_simps)
    have "units m e \<noteq> float_limit"
    proof
      assume "units m e = float_limit"
      then have "2 * units m e = (2 * (2 ^ 24 - 1) + 1) * units 1 x"
        unfolding float_limit_def units_mult [of "2 ^ 25 - 1"] q(1) u104 by simp
      from f(9) [OF this] q(2) show False by simp
    qed
    with le show ?thesis by linarith
  qed
  have over: "float_limit \<le> units m e" if "104 < x \<or> x = 104 \<and> q = 2 ^ 24"
    using that
  proof (elim disjE conjE)
    assume x: "104 < x"
    have "float_limit \<le> units (2 ^ 23) 105" by (simp add: float_limit_def units_def)
    also have "\<dots> \<le> units (2 ^ 23) x" using x by (intro units_mono) auto
    also have "\<dots> \<le> units m e" using x by (intro f(5)) simp
    finally show ?thesis .
  next
    assume q: "x = 104" "q = 2 ^ 24"
    have "2 * (16777216 * units 1 104) \<le> 2 * units m e + units 1 104"
      using half_bounds [OF f(3)] unfolding q units_mult [of "2 ^ 24"] by simp
    then show ?thesis unfolding float_limit_def units_mult [of "2 ^ 25 - 1"] u104 by simp
  qed
  show ?thesis
  proof (cases "q = 2 ^ 24")
    case True
    show ?thesis
    proof (cases "x < 104")
      case x': True
      with r True have "round_float m e = Some (2 ^ 23, x + 1)" by (simp add: Let_def)
      with near x x' limit up show ?thesis by (simp add: True)
    next
      case False
      with r True over show ?thesis by (cases "x = 104") (simp_all add: Let_def)
    qed
  next
    case False
    with f(7) have q: "q < 2 ^ 24" by simp
    show ?thesis
    proof (cases "x \<le> 104")
      case True
      with r False have "round_float m e = Some (q, x)" by (simp add: Let_def)
      moreover have "units m e < float_limit" using True q by (intro limit) auto
      ultimately show ?thesis using near x True q f(6,8) by simp
    next
      case x': False
      with r False over show ?thesis by (simp add: Let_def)
    qed
  qed
qed

text \<open>What is written as a \<^verbatim>\<open>float\<close> and read again is a nearest one.\<close>

theorem float_of_float_bits:
  assumes c: "canonical f"
  shows "nearest_float f (float_of_bits (float_bits f))"
proof -
  note b = ieee_bits_fields [of "2 ^ 23" _ 256 "2 ^ 31"]
  show ?thesis
  proof (cases f)
    case (DFin s m e)
    note r = round_float_units [OF c [unfolded DFin]]
    show ?thesis
    proof (cases "round_float m e")
      case None
      with DFin r b [of 255 s 0] show ?thesis by (simp add: float_of_bits_def Let_def)
    next
      case (Some p)
      then obtain q x where q: "round_float m e = Some (q, x)" by (cases p) auto
      with r have q': "0 \<le> q" "q < 2 ^ 24" "-149 \<le> x" "x \<le> 104" "q < 2 ^ 23 \<Longrightarrow> x = -149" "units m e < float_limit"
        and near: "\<forall>u\<in>float_units. \<bar>units q x - units m e\<bar> \<le> \<bar>u - units m e\<bar>" by auto
      have "float_of_bits (float_bits f) = dround s q 1 x"
      proof (cases "q < 2 ^ 23")
        case True
        with DFin q q' b [of 0 s q] show ?thesis by (simp add: float_of_bits_def Let_def)
      next
        case False
        have "q mod 2 ^ 23 = (q - 2 ^ 23) mod 2 ^ 23" by simp
        also have "\<dots> = q - 2 ^ 23" using False q' by (intro mod_pos_pos_trivial) auto
        finally have "q mod 2 ^ 23 = q - 2 ^ 23" .
        with False DFin q q' b [of "x + 150" s q] show ?thesis by (simp add: float_of_bits_def Let_def)
      qed
      moreover obtain m' e' where "dround s q 1 x = DFin s m' e'" "units m' e' = units q x"
        by (rule dround_small [OF q'(1-4)])
      moreover have "units q x \<in> float_units" unfolding float_units_def using q'(1-4) by blast
      ultimately show ?thesis using DFin q'(6) near by simp
    qed
  qed (use b [of 255 _ 0] b [of 255 False "2 ^ 22"] in \<open>simp_all add: float_of_bits_def Let_def\<close>)
qed

end
