(* ===== verification/Ffi_Props.thy ===== *)
theory Ffi_Props
  imports Float_Lemmas Args_Props
begin

text \<open>
  What \<^verbatim>\<open>ffi.pack\<close> writes, \<^verbatim>\<open>ffi.unpack\<close> reads back, with the same format and the same padding.
\<close>

section \<open>Bytes of integers\<close>

lemma le_bytes_Suc: "le_bytes (Suc k) i = char_of (nat (i mod 256)) # le_bytes k (i div 256)"
proof -
  have "[0..<Suc k] = 0 # map Suc [0..<k]" by (metis map_Suc_upt upt_conv_Cons zero_less_Suc)
  moreover have "i div (256 * 256 ^ j) = i div 256 div 256 ^ j" for j
    by (rule zdiv_zmult2_eq) simp
  ultimately show ?thesis by (simp add: le_bytes_def)
qed

lemma le_bytes_0 [simp]: "le_bytes 0 i = []"
  by (simp add: le_bytes_def)

lemma length_le_bytes [simp]: "length (le_bytes k i) = k"
  by (simp add: le_bytes_def)

lemma of_char_byte_int: "of_char (char_of (nat (i mod 256))) = (i mod 256 :: int)"
proof -
  have "of_char (char_of (nat (i mod 256)) :: char) = int (of_char (char_of (nat (i mod 256)) :: char))"
    by (simp only: of_nat_of_char)
  also have "\<dots> = int (nat (i mod 256) mod 256)" by (simp only: of_char_of)
  also have "\<dots> = i mod 256" by (simp add: nat_less_iff)
  finally show ?thesis .
qed

lemma le_uint_bytes: "le_uint (le_bytes k i) = i mod 256 ^ k"
proof (induction k arbitrary: i)
  case 0
  show ?case by (simp add: le_uint_def)
next
  case (Suc k)
  have "i mod (256 * 256 ^ k) = 256 * (i div 256 mod 256 ^ k) + i mod 256"
    by (rule zmod_zmult2_eq) simp
  with Suc [of "i div 256"] show ?case
    by (simp add: le_bytes_Suc le_uint_def of_char_byte_int)
qed

lemma le_uint_small: "0 \<le> i \<Longrightarrow> i < 256 ^ k \<Longrightarrow> le_uint (le_bytes k i) = i"
  by (simp add: le_uint_bytes)

lemma le_sint_bytes:
  assumes "- (256 ^ k) \<le> 2 * i" and "2 * i < 256 ^ k"
  shows "le_sint (le_bytes k i) = i"
proof (cases "0 \<le> i")
  case True
  then have "i mod 256 ^ k = i" using assms by simp
  with assms show ?thesis by (simp add: le_sint_def le_uint_bytes)
next
  case False
  have "i mod 256 ^ k = (i + 256 ^ k) mod 256 ^ k" by simp
  also have "\<dots> = i + 256 ^ k" using assms False by (intro mod_pos_pos_trivial) auto
  finally have "i mod 256 ^ k = i + 256 ^ k" .
  with assms show ?thesis by (simp add: le_sint_def le_uint_bytes)
qed

section \<open>One value\<close>

text \<open>
  The object \<open>ob'\<close> that is read has the value of \<open>ob\<close>: the same integer, the same double, or a \<^verbatim>\<open>float\<close>
  nearest to the double, which is the double itself if that is a \<^verbatim>\<open>float\<close> (\<open>nearest_float_same\<close>).
\<close>

definition same_val :: "ffi_type \<Rightarrow> obj \<Rightarrow> obj \<Rightarrow> bool" where
  "same_val t ob ob' \<longleftrightarrow>
     (if t = T_float then \<exists>f g. ob_f ob = Some f \<and> ob_f ob' = Some g \<and> (canonical f \<longrightarrow> nearest_float f g)
      else if t = T_double then \<exists>f. ob_f ob = Some f \<and> (canonical f \<longrightarrow> ob_f ob' = Some f)
      else \<exists>i. ob_i ob = Some i \<and> ob_i ob' = Some i)"

lemma same_val_le: "same_val t ob ob' \<Longrightarrow> obj_le ob ob2 \<Longrightarrow> same_val t ob2 ob'"
  by (fastforce simp: same_val_def obj_le_def split: if_splits)

text \<open>The bytes of a value, and the new object made of them.\<close>

lemma encode_decode:
  assumes "b6b_ffi_encode a t h = Some (Some p, h1)"
  shows "conv_le h h1 \<and> length p = ffi_size t \<and> (\<exists>ob x. hget a h1 = Some ob \<and> same_val t ob (x new_obj)
    \<and> ob_refc (x new_obj) = 1 \<and> (\<forall>rest h2. b6b_ffi_decode (p @ rest) t h2 = apfst Some (b6b_new x h2)))"
proof -
  consider (flt) "t = T_float" | (dbl) "t = T_double" | (int) "t \<notin> {T_float, T_double}" by blast
  then show ?thesis
  proof cases
    case flt
    with assms obtain ob f where r: "b6b_as_float a h = Some (True, h1)" "hget a h1 = Some ob" "ob_f ob = Some f"
      "p = le_bytes 4 (float_bits f)" by (auto simp: b6b_ffi_encode_def bind_Some split: if_splits)
    have "le_uint p = float_bits f" unfolding r(4) using float_bits_range [of f] by (intro le_uint_small) auto
    with r flt show ?thesis
      by (intro conjI exI [of _ ob] exI [of _ "\<lambda>ob. ob\<lparr>ob_f := Some (float_of_bits (float_bits f))\<rparr>"] b6b_as_float_conv_le [OF r(1)])
        (simp_all add: same_val_def float_of_float_bits new_obj_def b6b_ffi_decode_def ffi_size_def b6b_float_new_def Let_def)
  next
    case dbl
    with assms obtain ob f where r: "b6b_as_float a h = Some (True, h1)" "hget a h1 = Some ob" "ob_f ob = Some f"
      "p = le_bytes 8 (double_bits f)" by (auto simp: b6b_ffi_encode_def bind_Some split: if_splits)
    have "canonical f \<Longrightarrow> double_of_bits (le_uint p) = f"
      unfolding r(4) using double_bits_range [of f] double_of_double_bits [of f] le_uint_small [of "double_bits f" 8] by simp
    with r dbl show ?thesis
      by (intro conjI exI [of _ ob] exI [of _ "\<lambda>ob. ob\<lparr>ob_f := Some (double_of_bits (le_uint p))\<rparr>"] b6b_as_float_conv_le [OF r(1)])
        (simp_all add: same_val_def new_obj_def b6b_ffi_decode_def ffi_size_def b6b_float_new_def Let_def)
  next
    case int
    with assms obtain ob i where r: "b6b_as_int a h = Some (True, h1)" "hget a h1 = Some ob" "ob_i ob = Some i"
      "int_fits t (sint i)" "p = le_bytes (ffi_size t) (sint i)" by (auto simp: b6b_ffi_encode_def bind_Some split: if_splits)
    have range: "- (2 ^ 63) \<le> sint i" "sint i < 2 ^ 63" using sint_range_size [of i] by (simp_all add: word_size)
    have "(if ffi_signed t then le_sint p else le_uint p) = sint i"
    proof (cases "ffi_signed t")
      case True
      then show ?thesis unfolding r(5) using r(4) range
        by (cases t) (auto simp: ffi_signed_def int_fits_def ffi_size_def intro!: le_sint_bytes)
    next
      case False
      then show ?thesis unfolding r(5) using r(4) range
        by (cases t) (auto simp: ffi_signed_def int_fits_def ffi_size_def intro!: le_uint_small)
    qed
    then have "word_of_int (if ffi_signed t then le_sint p else le_uint p) = i" by simp
    with r int show ?thesis
      by (intro conjI exI [of _ ob] exI [of _ "\<lambda>ob. ob\<lparr>ob_i := Some i\<rparr>"] b6b_as_int_conv_le [OF r(1)])
        (auto simp: same_val_def new_obj_def b6b_ffi_decode_def b6b_int_new_def Let_def)
  qed
qed

text \<open>A new object that is added to a list and then given up belongs to the list.\<close>

lemma add_new_item:
  assumes lo: "hget l h = Some lo" "ob_l lo = Items its" and new: "b6b_new x h = (a, h1)" and rc: "ob_refc (x new_obj) = 1"
  obtains h2 h3 lo' where "b6b_list_add l a h1 = Some h2" and "b6b_unref a h2 = Some h3" and "hget l h3 = Some lo'"
    and "ob_l lo' = Items (its @ [(next_li h, a)])" and "hget a h3 = Some (x new_obj)" and "a \<noteq> l" and "hget a h = None"
    and "\<And>b ob. b \<noteq> l \<Longrightarrow> hget b h = Some ob \<Longrightarrow> hget b h3 = Some ob"
proof -
  have a: "a = length (cells h)" and h1: "\<And>b. hget b h1 = (if b = a then Some (x new_obj) else hget b h)" and n1: "next_li h1 = next_li h"
    using new by (auto simp: b6b_new_def halloc_def hget_def nth_append)
  have al: "a \<noteq> l" using lo(1) a hget_Some_less by fastforce
  have fresh: "hget a h = None" using a by (simp add: hget_def)
  define h1' where "h1' = hset a ((x new_obj)\<lparr>ob_refc := 2\<rparr>) h1"
  have r: "b6b_ref a h1 = Some h1'" using rc by (simp add: b6b_ref_def hupd_def h1 h1'_def numeral_2_eq_2)
  have g1': "hget b h1' = (if b = a then Some ((x new_obj)\<lparr>ob_refc := 2\<rparr>) else hget b h)" for b
    unfolding h1'_def using h1 by (simp add: hget_hset [of a h1 "x new_obj"])
  have n1': "next_li h1' = next_li h" by (simp add: h1'_def n1)
  let ?lo1 = "lo\<lparr>ob_l := Items (its @ [(next_li h, a)])\<rparr>"
  let ?lo2 = "?lo1\<lparr>ob_s := None, ob_i := None, ob_f := None, ob_hash := None\<rparr>"
  define ha where "ha = (hset l ?lo1 h1')\<lparr>next_li := Suc (next_li h)\<rparr>"
  have ga: "hget b ha = (if b = l then Some ?lo1 else hget b h1')" for b
    unfolding ha_def hget_next_li using lo(1) al g1' by (simp add: hget_hset [of l h1' lo])
  have add: "b6b_list_do_add l a h1 = Some ha"
    using r lo al g1' n1' by (simp add: b6b_list_do_add_def ha_def)
  define h2 where "h2 = hset l ?lo2 ha"
  have "b6b_list_flush l ha = Some h2" using ga by (simp add: b6b_list_flush_def hupd_def h2_def)
  with add have add2: "b6b_list_add l a h1 = Some h2" by (simp add: b6b_list_add_def)
  have g2: "hget b h2 = (if b = l then Some ?lo2 else hget b h1')" for b
    unfolding h2_def using ga by (simp add: hget_hset [of l ha ?lo1])
  define h3 where "h3 = hset a (x new_obj) h2"
  have eq: "(x new_obj)\<lparr>ob_refc := Suc 0\<rparr> = x new_obj" using rc by (metis One_nat_def obj.surjective obj.update_convs(8))
  have un: "b6b_unref a h2 = Some h3"
    using al g1' g2 eq by (simp add: b6b_unref_def h3_def numeral_2_eq_2)
  have g3: "hget b h3 = (if b = a then Some (x new_obj) else hget b h2)" for b
    unfolding h3_def using g1' g2 al by (simp add: hget_hset [of a h2 "(x new_obj)\<lparr>ob_refc := 2\<rparr>"])
  show thesis
    by (rule that [OF add2 un, of ?lo2]) (use g3 g2 g1' al fresh in auto)
qed

section \<open>Structures\<close>

text \<open>The values of the objects \<open>vs\<close> in one heap are those of the objects \<open>us\<close> in another, by the format.\<close>

fun unpacked :: "string \<Rightarrow> addr list \<Rightarrow> heap \<Rightarrow> addr list \<Rightarrow> heap \<Rightarrow> bool" where
  "unpacked [] vs h us h' \<longleftrightarrow> us = []"
| "unpacked (c # fmt) (v # vs) h (u # us) h' \<longleftrightarrow>
     (\<exists>t ob ob'. b6b_ffi_type c = Some t \<and> hget v h = Some ob \<and> hget u h' = Some ob' \<and> same_val t ob ob')
     \<and> unpacked fmt vs h us h'"
| "unpacked fmt vs h us h' \<longleftrightarrow> False"

lemma pack_loop_conv: "pack_loop pk fmt vs buf h = Some (Some out, h1) \<Longrightarrow> conv_le h h1 \<and> (\<exists>suf. out = buf @ suf)
    \<and> (length buf \<le> B6B_FFI_MAX_STRUCT_SZ \<longrightarrow> length out \<le> B6B_FFI_MAX_STRUCT_SZ)"
proof (induction pk fmt vs buf h arbitrary: out h1 rule: pack_loop.induct)
  case (2 pk c fmt vs buf h)
  then obtain v vs' t p h2 where s: "vs = v # vs'" "b6b_ffi_type c = Some t" "b6b_ffi_encode v t h = Some (Some p, h2)"
    and ok: "\<not> (0 < ffi_pad pk (length buf) t \<and> length buf + ffi_pad pk (length buf) t > B6B_FFI_MAX_STRUCT_SZ)"
      "\<not> length (buf @ replicate (ffi_pad pk (length buf) t) NUL) + ffi_size t > B6B_FFI_MAX_STRUCT_SZ"
    and run: "pack_loop pk fmt vs' ((buf @ replicate (ffi_pad pk (length buf) t) NUL) @ p) h2 = Some (Some out, h1)"
    by (auto simp: bind_Some Let_def split: list.splits option.splits if_splits)
  from encode_decode [OF s(3)] have e: "conv_le h h2" "length p = ffi_size t" by blast+
  from "2.IH" [OF s(1,2,3) refl refl refl ok(1) refl ok(2) run] e ok(2) show ?case by (auto intro: conv_le_trans)
qed simp_all

lemma pack_unpack_loop:
  "pack_loop pk fmt vs buf h = Some (Some out, h1) \<Longrightarrow> hget l h2 = Some lo \<Longrightarrow> ob_l lo = Items its \<Longrightarrow>
   \<exists>h3 lo' new. unpack_loop pk fmt out (length buf) l h2 = Some (True, h3) \<and> hget l h3 = Some lo'
     \<and> ob_l lo' = Items (its @ new) \<and> unpacked fmt vs h1 (map snd new) h3
     \<and> (\<forall>b ob. b \<noteq> l \<longrightarrow> hget b h2 = Some ob \<longrightarrow> hget b h3 = Some ob)"
proof (induction pk fmt vs buf h arbitrary: out h1 h2 lo its rule: pack_loop.induct)
  case (1 pk vs buf h)
  then show ?case by (intro exI [of _ h2] exI [of _ lo] exI [of _ "[]"]) simp
next
  case (2 pk c fmt vs buf h)
  from "2.prems"(1) obtain v vs' t p ha where s: "vs = v # vs'" "b6b_ffi_type c = Some t" "b6b_ffi_encode v t h = Some (Some p, ha)"
    and ok: "\<not> (0 < ffi_pad pk (length buf) t \<and> length buf + ffi_pad pk (length buf) t > B6B_FFI_MAX_STRUCT_SZ)"
      "\<not> length (buf @ replicate (ffi_pad pk (length buf) t) NUL) + ffi_size t > B6B_FFI_MAX_STRUCT_SZ"
    and run: "pack_loop pk fmt vs' ((buf @ replicate (ffi_pad pk (length buf) t) NUL) @ p) ha = Some (Some out, h1)"
    by (auto simp: bind_Some Let_def split: list.splits option.splits if_splits)
  let ?pad = "ffi_pad pk (length buf) t"
  from encode_decode [OF s(3)] obtain ob x where e: "length p = ffi_size t" "hget v ha = Some ob" "same_val t ob (x new_obj)"
    "ob_refc (x new_obj) = 1" "\<And>rest h2. b6b_ffi_decode (p @ rest) t h2 = apfst Some (b6b_new x h2)" by blast
  from pack_loop_conv [OF run] obtain suf where le: "conv_le ha h1"
    and out: "out = ((buf @ replicate ?pad NUL) @ p) @ suf" by blast
  from le e(2) obtain ob1 where ob1: "hget v h1 = Some ob1" "obj_le ob ob1" by (rule conv_leD)
  have size: "0 < ffi_size t" by (simp add: ffi_size_def)
  obtain u hb where new: "b6b_new x h2 = (u, hb)" by (cases "b6b_new x h2")
  obtain hc hd lo1 where add: "b6b_list_add l u hb = Some hc" "b6b_unref u hc = Some hd" "hget l hd = Some lo1"
    "ob_l lo1 = Items (its @ [(next_li h2, u)])" "hget u hd = Some (x new_obj)" "u \<noteq> l"
    "\<And>b ob. b \<noteq> l \<Longrightarrow> hget b h2 = Some ob \<Longrightarrow> hget b hd = Some ob"
    by (rule add_new_item [OF "2.prems"(2,3) new e(4)]) blast
  from "2.IH" [OF s(1,2,3) refl refl refl ok(1) refl ok(2) run add(3,4)] obtain h3 lo' new where IH:
    "unpack_loop pk fmt out (length ((buf @ replicate ?pad NUL) @ p)) l hd = Some (True, h3)" "hget l h3 = Some lo'"
    "ob_l lo' = Items ((its @ [(next_li h2, u)]) @ new)" "unpacked fmt vs' h1 (map snd new) h3"
    "\<forall>b ob. b \<noteq> l \<longrightarrow> hget b hd = Some ob \<longrightarrow> hget b h3 = Some ob" by blast
  have "drop (length buf + ?pad) out = p @ suf" unfolding out by simp
  moreover have "length out = length buf + ?pad + ffi_size t + length suf" unfolding out using e(1) by simp
  ultimately have "unpack_loop pk (c # fmt) out (length buf) l h2 = Some (True, h3)"
    using s(2) e(1,5) new add(1,2) IH(1) size by (simp add: Let_def add.assoc)
  moreover have "same_val t ob1 (x new_obj)" by (rule same_val_le [OF e(3) ob1(2)])
  ultimately show ?case
    using IH(2-5) add(5-7) ob1(1) s(1,2)
    by (intro exI [of _ h3] exI [of _ lo'] exI [of _ "(next_li h2, u) # new"]) auto
qed

text \<open>
  C11. A structure that \<^verbatim>\<open>ffi.pack\<close> has made of some values is at most 4096 bytes long, and \<^verbatim>\<open>ffi.unpack\<close> with
  the same format, padded or not, reads it whole: it succeeds and gives a list of new objects with the same values in
  the same order.  Integers of every width and sign and doubles are unchanged.  For the type \<^verbatim>\<open>float\<close> the value is a
  number of binary32 nearest to the double that was given, and infinite exactly from half a unit above
  the greatest of them on, so a double that is such a number is unchanged.
\<close>

theorem pack_unpack:
  assumes "pack_loop pk fmt vs [] h = Some (Some buf, h1)" and "hget l h2 = Some lo" and "ob_l lo = Items []"
  shows "length buf \<le> B6B_FFI_MAX_STRUCT_SZ
    \<and> (\<exists>h3 lo' new. unpack_loop pk fmt buf 0 l h2 = Some (True, h3) \<and> hget l h3 = Some lo' \<and> ob_l lo' = Items new
        \<and> unpacked fmt vs h1 (map snd new) h3 \<and> (\<forall>b ob. b \<noteq> l \<longrightarrow> hget b h2 = Some ob \<longrightarrow> hget b h3 = Some ob))"
  using pack_loop_conv [OF assms(1)] pack_unpack_loop [OF assms] by simp

text \<open>The third is the double nearest to a third.\<close>

definition demo_ffi :: heap where
  "demo_ffi = \<lparr>cells = [Some (new_obj\<lparr>ob_i := Some (- 2)\<rparr>), Some (new_obj\<lparr>ob_s := Some ''513''\<rparr>),
       Some (new_obj\<lparr>ob_f := Some (DFin False 6004799503160661 (-54))\<rparr>), Some (new_obj\<lparr>ob_l := Items []\<rparr>)],
     next_li = 0\<rparr>"

definition demo_struct :: string where
  "demo_struct = map char_of [254, 0, 0, 0, 1, 2, 0, 0, 171, 170, 170, 62 :: nat]"

lemma pack_unpack_witness:
  "\<exists>h1 h3 lo' new. pack_loop False ''bIf'' [0, 1, 2] [] demo_ffi = Some (Some demo_struct, h1)
    \<and> unpack_loop False ''bIf'' demo_struct 0 3 demo_ffi = Some (True, h3)
    \<and> hget 3 h3 = Some lo' \<and> ob_l lo' = Items new \<and> unpacked ''bIf'' [0, 1, 2] h1 (map snd new) h3"
proof -
  have "map_option fst (pack_loop False ''bIf'' [0, 1, 2] [] demo_ffi) = Some (Some demo_struct)"
    by code_simp
  then obtain h1 where run: "pack_loop False ''bIf'' [0, 1, 2] [] demo_ffi = Some (Some demo_struct, h1)"
    by (cases "pack_loop False ''bIf'' [0, 1, 2] [] demo_ffi") auto
  have "hget 3 demo_ffi = Some (new_obj\<lparr>ob_l := Items []\<rparr>)" by (simp add: demo_ffi_def hget_def)
  with pack_unpack [OF run, of 3 demo_ffi] run show ?thesis by fastforce
qed

end
