(* ===== verification/Nested.thy ===== *)
theory Nested
  imports Ffi
begin

text \<open>
  Interpreters made by a script: the procedure \<^verbatim>\<open>b6b\<close> and its objects, at the end of
  src/b6b_interp.c.  A child has threads, variables and options of its own; it shares the heap
  with the interpreter that made it, and runs only while one of its objects is called.
\<close>

section \<open>Numbers of the procedures\<close>

text \<open>Their places follow those of the table of src/b6b_ffi.c.\<close>

datatype late_fn = Lf_b6b | Lf_ln_read | Lf_ln_add | Lf_ln_save | Lf_ln_load | Lf_b6b_obj

definition late_fns :: "(string \<times> late_fn) list" where
  "late_fns = [(''b6b'', Lf_b6b), (''linenoise.read'', Lf_ln_read), (''linenoise.add'', Lf_ln_add),
     (''linenoise.save'', Lf_ln_save), (''linenoise.load'', Lf_ln_load)]"

definition late_num :: "late_fn \<Rightarrow> nat" where
  "late_num f = ffi_num Ff_so_obj + 1 + length (takeWhile (\<lambda>g. g \<noteq> f) (map snd late_fns @ [Lf_b6b_obj]))"

definition b6b_interp_table :: "ext_obj list" where
  "b6b_interp_table = [ext_proc ''b6b'' (F_ext (late_num Lf_b6b))]"

section \<open>Running a child\<close>

text \<open>As \<open>schedule\<close>, with the threads that are left suspended when the first one returns.\<close>

fun sched_run :: "nat \<Rightarrow> (interp \<Rightarrow> 'a res) \<Rightarrow> (nat \<rightharpoonup> (interp \<Rightarrow> 'a res)) \<Rightarrow> nat \<Rightarrow> 'a res
    \<Rightarrow> ('a \<times> (nat \<rightharpoonup> (interp \<Rightarrow> 'a res))) res" where
  "sched_run m start ks cur (Ret x I) = Ret (x, ks) I"
| "sched_run m start ks cur Undef = Undef"
| "sched_run m start ks cur No_fuel = No_fuel"
| "sched_run 0 start ks cur (Swap I k) = No_fuel"
| "sched_run (Suc m) start ks cur (Swap I k) =
     (let t = t_id (fg I); ks = ks(cur \<mapsto> k) in
      sched_run m start ks t (case ks t of None \<Rightarrow> start I | Some k \<Rightarrow> k I))"

text \<open>A child that is not running: its state, of which the heap is out of date, and its suspended threads.\<close>

record child =
  c_interp :: interp
  c_susp :: "nat \<rightharpoonup> (interp \<Rightarrow> b6b_res res)"

type_synonym children = "child option list"

text \<open>
  A computation of a child, within one of the interpreter \<open>I\<close> it shares the heap with.  Switches between
  the child's threads stay inside, as the stack of the caller is that of the child's running thread.
\<close>

definition run_child :: "env \<Rightarrow> nat \<Rightarrow> (interp \<Rightarrow> b6b_res res) \<Rightarrow> child \<Rightarrow> interp \<Rightarrow> (b6b_res \<times> child) res" where
  "run_child E n m c I =
     (let J = (c_interp c)\<lparr>hp := hp I\<rparr> in
      case sched_run n (\<lambda>J. rbind (b6b_thread_routine E n J) (\<lambda>_ _. Undef)) (c_susp c) (t_id (fg J)) (m J) of
        Ret (x, ks) J \<Rightarrow> Ret (x, \<lparr>c_interp = J, c_susp = ks\<rparr>) (I\<lparr>hp := hp J\<rparr>)
      | No_fuel \<Rightarrow> No_fuel
      | _ \<Rightarrow> Undef)"

section \<open>The object of a child\<close>

definition child_of :: "addr \<Rightarrow> children \<Rightarrow> interp \<Rightarrow> (nat \<times> child) option" where
  "child_of a cs I = do {
     ob \<leftarrow> obj_at a I;
     case ob_priv ob of
       Priv_ext k \<Rightarrow> if k < length cs then map_option (Pair k) (cs ! k) else None
     | _ \<Rightarrow> None
   }"

definition late_args :: "addr \<Rightarrow> string \<Rightarrow> bool list \<Rightarrow> interp \<Rightarrow> (nat \<times> parg list) res" where
  "late_args args fmt wants I = lift (map_option (\<lambda>(n, ps, I). ((n, ps), I)) (b6b_proc_get_args args fmt wants I))"

text \<open>The return value of the child becomes that of the interpreter.\<close>

definition take_ret :: "interp \<Rightarrow> interp \<Rightarrow> interp option" where
  "take_ret J I = do {
     I \<leftarrow> upd_heap (b6b_unref (t_ret (fg I))) I;
     I \<leftarrow> upd_heap (b6b_ref (t_ret (fg J))) I;
     Some (set_ret (t_ret (fg J)) I)
   }"

definition b6b_b6b_proc :: "env \<Rightarrow> nat \<Rightarrow> addr \<Rightarrow> children \<Rightarrow> interp \<Rightarrow> (b6b_res \<times> children) res" where
  "b6b_b6b_proc E n args cs I =
     rbind (late_args args ''oso'' [True, True, True] I) (\<lambda>(argc, ps) I.
       if argc = 0 then Ret (B6B_ERR, cs) I
       else case ps of
         [Arg a, Arg s, Arg stmts] \<Rightarrow>
           rbind (lift_read I (str_at s I)) (\<lambda>op I.
             if \<not> c_strcmp_eq op ''call'' then Ret (B6B_ERR, cs) I
             else rbind (lift_read I (child_of a cs I)) (\<lambda>(k, c) I.
               rbind (run_child E n (b6b_call (stmt_call E n) n stmts) c I) (\<lambda>(res, c) I.
               rbind (lift_upd (take_ret (c_interp c) I)) (\<lambda>_ I.
                 Ret (res, cs[k := Some c]) I))))
       | _ \<Rightarrow> Undef)"

text \<open>The destructor.\<close>

definition b6b_b6b_del :: "env \<Rightarrow> nat \<Rightarrow> nat \<Rightarrow> children \<Rightarrow> interp \<Rightarrow> children res" where
  "b6b_b6b_del E n k cs I =
     (case cs ! k of
        None \<Rightarrow> Undef
      | Some c \<Rightarrow>
          rbind (run_child E n (\<lambda>J. rbind (b6b_interp_destroy n J) (\<lambda>h J. Ret B6B_OK (J\<lparr>hp := h\<rparr>))) c I) (\<lambda>_ I.
            Ret (cs[k := None]) I))"

section \<open>Making a child\<close>

text \<open>\<^verbatim>\<open>b6b_interp_new\<close> in a child destroys it when it fails.\<close>

definition child_new :: "env \<Rightarrow> nat \<Rightarrow> ext_obj list \<Rightarrow> string list \<Rightarrow> u8 \<Rightarrow> interp \<Rightarrow> b6b_res res" where
  "child_new E n exts inits opt J =
     rbind (b6b_interp_new E n exts inits opt J) (\<lambda>ok J.
       if ok then Ret B6B_OK J
       else rbind (b6b_interp_destroy n J) (\<lambda>h J. Ret B6B_ERR (J\<lparr>hp := h\<rparr>)))"

text \<open>
  When it has failed the destructor destroys it again.  If it failed before it had a thread, that is the
  end of \<^verbatim>\<open>b6b_interp_destroy\<close> only.
\<close>

definition b6b_interp_proc_b6b :: "env \<Rightarrow> nat \<Rightarrow> ext_obj list \<Rightarrow> string list \<Rightarrow> u32 \<Rightarrow> addr \<Rightarrow> children \<Rightarrow> interp
    \<Rightarrow> (b6b_res \<times> children) res" where
  "b6b_interp_proc_b6b E n exts inits now args cs I =
     rbind (late_args args ''ol'' [False, True] I) (\<lambda>(argc, ps) I.
       if argc = 0 then Ret (B6B_ERR, cs) I
       else case ps of
         [Arg l] \<Rightarrow>
           let k = length cs in
           (case new_heap (b6b_str_new (''b6b:'' @ hex_digits k)) I of (a, I) \<Rightarrow>
             (case interp_start l (opts I) now (hp I) of
                None \<Rightarrow> Undef
              | Some (False, J) \<Rightarrow>
                  rbind (lift_read I (Option.bind (interp_free J (hp J)) (interp_free J))) (\<lambda>h I.
                  rbind (lift_upd (upd_heap (b6b_destroy a) (I\<lparr>hp := h\<rparr>))) (\<lambda>_ I. Ret (B6B_ERR, cs) I))
              | Some (True, J) \<Rightarrow>
                  rbind (run_child E n (child_new E n exts inits (opts I)) \<lparr>c_interp = J, c_susp = Map.empty\<rparr> (I\<lparr>hp := hp J\<rparr>))
                    (\<lambda>(res, c) I.
                      if res \<noteq> B6B_OK then
                        rbind (b6b_b6b_del E n k (cs @ [Some c]) I) (\<lambda>_ I.
                        rbind (lift_upd (upd_heap (b6b_destroy a) I)) (\<lambda>_ I. Ret (B6B_ERR, cs) I))
                      else
                        rbind (lift_upd (upd_heap (hupd a (\<lambda>ob. ob\<lparr>ob_priv := Priv_ext k, ob_proc := F_ext (late_num Lf_b6b_obj)\<rparr>)) I)) (\<lambda>_ I.
                        rbind (lift (b6b_return a I)) (\<lambda>res I. Ret (res, cs @ [Some c]) I)))))
       | _ \<Rightarrow> Undef)"

section \<open>Calls that return\<close>

text \<open>A child is scheduled as a program is.\<close>

lemma sched_run_schedule:
  "schedule m start ks cur r =
     (case sched_run m start ks cur r of Ret (x, _) I \<Rightarrow> Ret x I | No_fuel \<Rightarrow> No_fuel | _ \<Rightarrow> Undef)"
  by (induction m start ks cur r rule: sched_run.induct) (simp_all add: Let_def del: fun_upd_apply)

lemma rbind_Ret: "rbind m f = Ret y K \<longleftrightarrow> (\<exists>x J. m = Ret x J \<and> f x J = Ret y K)"
  by (cases m) auto

lemma lift_Ret: "lift r = Ret x J \<longleftrightarrow> r = Some (x, J)"
  by (auto simp: lift_def split: option.splits)

lemma lift_read_Ret: "lift_read I r = Ret x J \<longleftrightarrow> r = Some x \<and> J = I"
  by (auto simp: lift_read_def split: option.splits)

lemma lift_upd_Ret: "lift_upd r = Ret x J \<longleftrightarrow> r = Some J"
  by (auto simp: lift_upd_def split: option.splits)

lemmas res_Ret = rbind_Ret lift_Ret lift_read_Ret lift_upd_Ret

lemma child_of_index:
  assumes "child_of a cs I = Some (k, c)"
  shows "k < length cs \<and> cs ! k = Some c"
proof (cases "obj_at a I")
  case None
  with assms show ?thesis by (simp add: child_of_def)
next
  case (Some ob)
  with assms show ?thesis by (cases "ob_priv ob") (auto simp: child_of_def split: if_splits)
qed

text \<open>A call that returns: refused, or run in a child.\<close>

lemma b6b_b6b_proc_run:
  assumes "b6b_b6b_proc E n args cs I = Ret (res, cs') I'"
  obtains (refused) q where "late_args args ''oso'' [True, True, True] I = Ret q I'" "res = B6B_ERR" "cs' = cs"
  | (called) q J stmts k c c' K where "late_args args ''oso'' [True, True, True] I = Ret q J"
      "k < length cs" "cs ! k = Some c" "run_child E n (b6b_call (stmt_call E n) n stmts) c J = Ret (res, c') K"
      "take_ret (c_interp c') K = Some I'" "cs' = cs[k := Some c']"
proof -
  from assms obtain n' ps J where args: "late_args args ''oso'' [True, True, True] I = Ret (n', ps) J"
    by (auto simp: b6b_b6b_proc_def rbind_Ret)
  show thesis
  proof (cases "n' = 0")
    case True
    with assms args refused show thesis by (simp add: b6b_b6b_proc_def)
  next
    case False
    with assms args obtain a s stmts where "ps = [Arg a, Arg s, Arg stmts]"
      by (auto simp: b6b_b6b_proc_def split: list.splits parg.splits)
    with assms args False have run: "rbind (lift_read J (str_at s J)) (\<lambda>op I.
             if \<not> c_strcmp_eq op ''call'' then Ret (B6B_ERR, cs) I
             else rbind (lift_read I (child_of a cs I)) (\<lambda>(k, c) I.
               rbind (run_child E n (b6b_call (stmt_call E n) n stmts) c I) (\<lambda>(res, c) I.
               rbind (lift_upd (take_ret (c_interp c) I)) (\<lambda>_ I.
                 Ret (res, cs[k := Some c]) I)))) = Ret (res, cs') I'"
      by (simp add: b6b_b6b_proc_def)
    show thesis
    proof (cases "\<exists>op. str_at s J = Some op \<and> \<not> c_strcmp_eq op ''call''")
      case True
      with run args refused show thesis by (auto simp: res_Ret)
    next
      case False
      with run obtain k c c' K where r: "child_of a cs J = Some (k, c)"
        "run_child E n (b6b_call (stmt_call E n) n stmts) c J = Ret (res, c') K"
        "take_ret (c_interp c') K = Some I'" "cs' = cs[k := Some c']"
        by (auto simp: res_Ret)
      with child_of_index [OF r(1)] args show thesis by (intro called) simp_all
    qed
  qed
qed

end
