(* ===== verification/Nested_Props.thy ===== *)
theory Nested_Props
  imports Nested Run_Props
begin

text \<open>
  The properties of child interpreters: the counts of the objects that a child and its caller use are exact
  after a call of the child and after its end, whatever the threads of the child do.  The
  invariant of the scheduler, theory Run_Sched, is used with what the caller owns as its base.
\<close>

section \<open>Threads that do not return\<close>

text \<open>Only the computation that a child was called for returns; the routine of a thread does not.\<close>

primrec no_ret :: "'a res \<Rightarrow> bool" where
  "no_ret (Ret x I) = False"
| "no_ret Undef = True"
| "no_ret No_fuel = True"
| "no_ret (Swap I k) = (\<forall>I'. no_ret (k I'))"

lemma no_ret_rbind: "no_ret (rbind m (\<lambda>_ _. Undef))"
  by (induction m) simp_all

lemma no_ret_okres: "no_ret r \<Longrightarrow> okres r Q C \<Longrightarrow> okres r Q' C"
proof (induction r arbitrary: C)
  case (Swap I k)
  from Swap.prems have "\<And>C I. okres (k I) Q C \<Longrightarrow> okres (k I) Q' C" by (simp add: Swap.IH)
  with Swap.prems(2) show ?case by (simp only: okres.simps) metis
qed simp_all

definition others_stay :: "nat \<Rightarrow> (nat \<rightharpoonup> (interp \<Rightarrow> 'a res)) \<Rightarrow> bool" where
  "others_stay main ks \<longleftrightarrow> (\<forall>i k. ks i = Some k \<longrightarrow> i \<noteq> main \<longrightarrow> (\<forall>I. no_ret (k I)))"

definition main_returns :: "nat \<Rightarrow> 'a sconf \<Rightarrow> bool" where
  "main_returns main c \<longleftrightarrow> (case c of (ks, cur, r) \<Rightarrow> others_stay main ks \<and> (cur \<noteq> main \<longrightarrow> no_ret r))"

lemma main_returns_step:
  assumes "\<And>I. no_ret (start I)" and step: "sched_step start c c'" and main: "main_returns i c"
  shows "main_returns i c'"
  using step
proof cases
  case (switch ks' ks cur k t I)
  have ks': "others_stay i ks'" using main unfolding switch(1,3) main_returns_def others_stay_def by auto
  then have "no_ret (case ks' t of None \<Rightarrow> start I | Some k \<Rightarrow> k I)" if "t \<noteq> i"
    using assms(1) that by (auto simp: others_stay_def split: option.splits)
  with ks' show ?thesis by (simp add: switch(2) main_returns_def)
qed

lemma main_returns_steps:
  assumes "sched_steps start c c'" and "\<And>I. no_ret (start I)"
  shows "main_returns i c \<Longrightarrow> main_returns i c'"
  using assms(1) by (induction rule: rtranclp_induct) (auto intro: main_returns_step [OF assms(2)])

lemma sched_inv_any:
  assumes "sched_inv b Q ks cur S" and "others_stay cur ks"
  shows "sched_inv b Q' ks cur S"
proof -
  have "susp_ok Q' ks x" if "x \<in> set S" for x
  proof -
    obtain i R P s where x: "x = (i, R, P, s)" by (metis prod.collapse)
    have "susp_id x \<noteq> cur" "susp_ok Q ks x" using that assms(1) by (auto simp: sched_inv_def list_all_iff)
    then have "i \<noteq> cur" and ok: "susp_ok Q ks (i, R, P, s)" by (simp_all add: x)
    from ok obtain k where k: "fst s = i" "P \<subseteq> set_mset R" "ks i = Some k" "\<And>C I. st_ok C R P s I \<Longrightarrow> okres (k I) Q C"
      unfolding susp_ok_def by auto
    have "no_ret (k I)" for I using assms(2) k(3) \<open>i \<noteq> cur\<close> unfolding others_stay_def by blast
    from no_ret_okres [OF this k(4)] have "\<And>C I. st_ok C R P s I \<Longrightarrow> okres (k I) Q' C" .
    with k(1-3) show ?thesis by (simp add: susp_ok_def x)
  qed
  moreover have "i = cur \<or> i \<in> susp_id ` set S \<or> (\<forall>C I. okres (k I) Q' C)" if "ks i = Some k" for i k
    using assms that unfolding sched_inv_def others_stay_def by (blast intro: no_ret_okres [where Q = Q])
  ultimately show ?thesis using assms(1) by (auto simp: sched_inv_def list_all_iff)
qed

section \<open>A child that is not running\<close>

definition child_refs :: "child \<Rightarrow> susp list \<Rightarrow> addr multiset" where
  "child_refs c S = iroots (c_interp c) + sum_list (map susp_refs S)"

definition child_privs :: "susp list \<Rightarrow> addr set" where
  "child_privs S = \<Union> (susp_priv ` set S)"

abbreviation child_fg :: "child \<Rightarrow> tst" where
  "child_fg c \<equiv> tst (fg (c_interp c))"

definition child_thr :: "child \<Rightarrow> susp list \<Rightarrow> nat \<rightharpoonup> tst" where
  "child_thr c S = (map_of (map susp_thr S))(fst (child_fg c) \<mapsto> child_fg c)"

definition child_ok :: "child \<Rightarrow> susp list \<Rightarrow> bool" where
  "child_ok c S \<longleftrightarrow> sched_ok (c_interp c) \<and> \<not> t_done (fg (c_interp c)) \<and> length (t_curr (fg (c_interp c))) = 1
     \<and> sched_inv no_base (\<lambda>_ _ _. True) (c_susp c) (fst (child_fg c)) S \<and> others_stay (fst (child_fg c)) (c_susp c)
     \<and> (\<forall>i s. child_thr c S i = Some s \<longrightarrow> fst s = i \<and> (\<exists>t\<in>set (threads (c_interp c)). tst t = s \<and> \<not> t_done t))
     \<and> (\<forall>t\<in>set (threads (c_interp c)). child_thr c S (t_id t) = None \<longrightarrow> t_depth t = 1 \<and> t_id t \<noteq> 0)"

lemma sched_inv_base: "sched_inv b Q ks cur S \<longleftrightarrow> snd b \<subseteq> set_mset (fst b) \<and> sched_inv no_base Q ks cur S"
  by (simp add: sched_inv_def)

lemma hp_upd_simps [simp]:
  "iroots (I\<lparr>hp := h\<rparr>) = iroots I" "sched_ok (I\<lparr>hp := h\<rparr>) = sched_ok I" "threads (I\<lparr>hp := h\<rparr>) = threads I"
  by (simp_all add: iroots_def groots_def threads_def sched_ok_def)

lemma child_own: "child_ok c S \<Longrightarrow> child_privs S \<subseteq> set_mset (sum_list (map susp_refs S))"
proof -
  assume "child_ok c S"
  then have "list_all (susp_ok (\<lambda>_ _ _. True) (c_susp c)) S" unfolding child_ok_def sched_inv_def by (elim conjE)
  from susp_own [OF this, of no_base undefined] show ?thesis by (simp add: ctx_of_def child_privs_def)
qed

text \<open>Called with a heap that is exact for it and a base, it is in a state as it is in between statements.\<close>

lemma child_st_ok:
  assumes c: "child_ok c S" and inv: "hinv (V \<union> child_privs S) (B + child_refs c S) h" and own: "V \<subseteq> set_mset B"
  shows "st_ok (ctx_of (B, V) S (fst (child_fg c))) {#} {} (child_fg c) ((c_interp c)\<lparr>hp := h\<rparr>)"
proof -
  let ?J = "(c_interp c)\<lparr>hp := h\<rparr>" and ?s = "child_fg c"
  let ?C = "ctx_of (B, V) S (fst ?s)"
  have S: "list_all (susp_ok (\<lambda>_ _ _. True) (c_susp c)) S" and new: "fst ?s \<notin> susp_id ` set S"
    using c by (simp_all add: child_ok_def sched_inv_def)
  have own': "c_priv ?C \<subseteq> set_mset (c_refs ?C)" by (rule susp_own [OF S]) (simp add: own)
  have thr: "c_thr (with_own ?C {#} {} ?s) = child_thr c S" by (simp add: ctx_of_def child_thr_def)
  have "world0 (with_own ?C {#} {} ?s) ?J"
  proof (rule world_intro)
    show "hinv (c_priv (with_own ?C {#} {} ?s)) (c_refs (with_own ?C {#} {} ?s) + iroots ?J) (hp ?J)"
      using inv by (simp add: ctx_of_def child_refs_def child_privs_def ac_simps)
    show "sched_ok ?J" using c by (simp add: child_ok_def)
    show "c_priv (with_own ?C {#} {} ?s) \<subseteq> set_mset (c_refs (with_own ?C {#} {} ?s))" using own' by simp
  next
    fix i x
    assume "c_thr (with_own ?C {#} {} ?s) i = Some x"
    then show "fst x = i \<and> (\<exists>t\<in>set (threads ?J). tst t = x \<and> \<not> t_done t)"
      using c unfolding thr child_ok_def hp_upd_simps by blast
  next
    fix t
    assume "t \<in> set (threads ?J)" "c_thr (with_own ?C {#} {} ?s) (t_id t) = None"
    then show "t_depth t = 1 \<and> t_id t \<noteq> 0"
      using c unfolding thr child_ok_def hp_upd_simps by blast
  qed
  moreover have "c_thr ?C (fst ?s) = None" by (rule ctx_of_none [OF new])
  ultimately show ?thesis using c own' by (simp add: st_ok_def world_def child_ok_def) (simp add: ctx_of_def)
qed

text \<open>And back.\<close>

lemma st_ok_child:
  assumes ok: "st_ok (ctx_of (B, V) S i) {#} {} s J" and inv: "sched_inv (B, V) Q ks i S"
    and stay: "others_stay i ks" and one: "length (fst (snd s)) = 1"
  shows "child_ok \<lparr>c_interp = J, c_susp = ks\<rparr> S"
    and "hinv (V \<union> child_privs S) (B + child_refs \<lparr>c_interp = J, c_susp = ks\<rparr> S) (hp J)"
proof -
  let ?c = "\<lparr>c_interp = J, c_susp = ks\<rparr>" and ?C = "ctx_of (B, V) S i"
  have s: "tst (fg J) = s" and sched: "sched_ok J" "\<not> t_done (fg J)" using st_ok_sched [OF ok] by simp_all
  have top: "length (t_curr (fg J)) = 1" using s one by (auto simp: tst_def)
  have i: "i = fst s" using ok by (simp add: st_ok_def ctx_of_def)
  have thr: "c_thr (with_own ?C {#} {} s) = child_thr ?c S" by (simp add: ctx_of_def child_thr_def s)
  note w = st_ok_world0 [OF ok]
  show "child_ok ?c S"
    unfolding child_ok_def child.simps s
    using world_thr [OF w, unfolded thr] world_fresh [OF w, unfolded thr] sched top stay [unfolded i]
      sched_inv_any [OF inv stay, unfolded sched_inv_base [of "(B, V)"] i]
    by blast
  show "hinv (V \<union> child_privs S) (B + child_refs ?c S) (hp J)"
    using st_ok_hinv [OF ok] by (simp add: ctx_of_def child_refs_def child_privs_def ac_simps)
qed

section \<open>Running a child\<close>

lemma sched_run_steps:
  "sched_run m start ks cur r = Ret (x, ks') J \<Longrightarrow> \<exists>cur'. sched_steps start (ks, cur, r) (ks', cur', Ret x J)"
proof (induction m start ks cur r rule: sched_run.induct)
  case (5 m start ks cur I k)
  let ?t = "t_id (fg I)" and ?ks = "ks(cur \<mapsto> k)"
  let ?r = "case ?ks ?t of None \<Rightarrow> start I | Some k \<Rightarrow> k I"
  have "sched_run m start ?ks ?t ?r = Ret (x, ks') J" using 5(2) by (simp add: Let_def)
  from 5(1) [OF refl refl this] obtain cur' where "sched_steps start (?ks, ?t, ?r) (ks', cur', Ret x J)" ..
  moreover have "sched_step start (ks, cur, Swap I k) (?ks, ?t, ?r)" by (rule switch) simp_all
  ultimately show ?case by (blast intro: converse_rtranclp_into_rtranclp)
qed auto

lemma child_run:
  assumes E: "ext_env E" and c: "child_ok c S" and inv: "hinv (V \<union> child_privs S) (B + child_refs c S) (hp I)"
    and own: "V \<subseteq> set_mset B"
    and m: "\<And>D J. st_ok D {#} {} (child_fg c) J \<Longrightarrow> okres (m J) Q D"
    and run: "run_child E n m c I = Ret (x, c') I'"
  obtains S' where "Q x (ctx_of (B, V) S' (fst (child_fg c))) (c_interp c')" and "I' = I\<lparr>hp := hp (c_interp c')\<rparr>"
    and "sched_inv (B, V) Q (c_susp c') (fst (child_fg c)) S'" and "others_stay (fst (child_fg c)) (c_susp c')"
proof -
  let ?J = "(c_interp c)\<lparr>hp := hp I\<rparr>" and ?i = "fst (child_fg c)"
  let ?start = "\<lambda>J. rbind (b6b_thread_routine E n J) (\<lambda>_ _. Undef)"
  from run obtain ks J where r: "sched_run n ?start (c_susp c) ?i (m ?J) = Ret (x, ks) J"
    and c': "c' = \<lparr>c_interp = J, c_susp = ks\<rparr>" "I' = I\<lparr>hp := hp J\<rparr>"
    by (auto simp: run_child_def Let_def tst_def split: res.splits)
  from sched_run_steps [OF r] obtain cur where
    steps: "sched_steps ?start (c_susp c, ?i, m ?J) (ks, cur, Ret x J)" ..
  have stay: "others_stay ?i (c_susp c)" and si: "sched_inv no_base (\<lambda>_ _ _. True) (c_susp c) ?i S"
    using c by (simp_all add: child_ok_def)
  have "sched_inv (B, V) Q (c_susp c) ?i S"
    using sched_inv_any [OF si stay] own by (simp add: sched_inv_base [of "(B, V)"])
  moreover have "okres (m ?J) Q (ctx_of (B, V) S ?i)" by (rule m [OF child_st_ok [OF c inv own]])
  ultimately have "sched_safe (B, V) Q (c_susp c, ?i, m ?J)" by (auto simp: sched_safe_def)
  moreover have "okres (?start I) Q C" if "st_ok C {#} {} s I" "snd (snd (snd s)) = 1" "fst s \<noteq> 0" for C I s
    using ext_env.thread_routine_ok [OF E that, of n "\<lambda>_ _ _. True"] by (rule okres_bind) simp
  ultimately have "sched_safe (B, V) Q (ks, cur, Ret x J)" by (rule sched_steps_safe [OF steps, rotated])
  then obtain S' where S': "Q x (ctx_of (B, V) S' cur) J" "sched_inv (B, V) Q ks cur S'" by (auto simp: sched_safe_def)
  have "main_returns ?i (ks, cur, Ret x J)"
    by (rule main_returns_steps [OF steps no_ret_rbind]) (simp add: main_returns_def stay)
  then have "cur = ?i" "others_stay ?i ks" by (auto simp: main_returns_def)
  with S' c' show thesis by (intro that) simp_all
qed

text \<open>A computation of the child that keeps what it has, unless it fails, keeps the counts of both.\<close>

lemma run_child_ok:
  assumes E: "ext_env E" and c: "child_ok c S" and ok: "st_ok C (R + child_refs c S) (P \<union> child_privs S) s I"
    and own: "P \<subseteq> set_mset R"
    and m: "\<And>D J. st_ok D {#} {} (child_fg c) J \<Longrightarrow>
      okres (m J) (\<lambda>x D J. good x \<longrightarrow> st_ok D {#} {} (child_fg c) J) D"
    and run: "run_child E n m c I = Ret (x, c') I'" and good: "good x"
  obtains S' where "child_ok c' S'" and "st_ok C (R + child_refs c' S') (P \<union> child_privs S') s I'"
    and "npriv C (P \<union> child_privs S') (t_ret (fg (c_interp c')))"
proof -
  let ?V = "c_priv C \<union> P" and ?B = "c_refs C + R + iroots I"
  have inv: "hinv (?V \<union> child_privs S) (?B + child_refs c S) (hp I)"
    using st_ok_hinv [OF ok] by (simp add: ac_simps Un_ac)
  have "?V \<subseteq> set_mset ?B" using ok own by (auto simp: st_ok_def)
  from child_run [OF E c inv this m run] obtain S' where
    Q: "good x \<longrightarrow> st_ok (ctx_of (?B, ?V) S' (fst (child_fg c))) {#} {} (child_fg c) (c_interp c')"
    and I': "I' = I\<lparr>hp := hp (c_interp c')\<rparr>"
    and S': "sched_inv (?B, ?V) (\<lambda>x D J. good x \<longrightarrow> st_ok D {#} {} (child_fg c) J) (c_susp c') (fst (child_fg c)) S'"
    "others_stay (fst (child_fg c)) (c_susp c')" .
  have c': "\<lparr>c_interp = c_interp c', c_susp = c_susp c'\<rparr> = c'" by simp
  note Q = Q [rule_format, OF good]
  have "length (fst (snd (child_fg c))) = 1" using c by (simp add: child_ok_def tst_def)
  note after = st_ok_child [OF Q S' this, unfolded c']
  have "hinv (c_priv C \<union> (P \<union> child_privs S')) (c_refs C + (R + child_refs c' S') + iroots I) (hp (c_interp c'))"
    using after(2) by (simp add: ac_simps Un_ac)
  moreover have "P \<union> child_privs S' \<subseteq> set_mset (R + child_refs c' S')"
    using own child_own [OF after(1)] by (auto simp: child_refs_def)
  ultimately have "st_ok C (R + child_refs c' S') (P \<union> child_privs S') s I'"
    unfolding I' by (rule st_ok_heap [OF ok])
  moreover have "npriv C (P \<union> child_privs S') (t_ret (fg (c_interp c')))"
    using ret_npriv [OF Q] by (auto simp: npriv_def ctx_of_def child_privs_def)
  ultimately show thesis by (rule that [OF after(1)])
qed

section \<open>All children\<close>

text \<open>The children with, for each, its suspended threads.\<close>

type_synonym family = "(child option \<times> susp list) list"

fun member_refs :: "child option \<times> susp list \<Rightarrow> addr multiset" where
  "member_refs (None, S) = {#}"
| "member_refs (Some c, S) = child_refs c S"

fun member_privs :: "child option \<times> susp list \<Rightarrow> addr set" where
  "member_privs (None, S) = {}"
| "member_privs (Some c, S) = child_privs S"

fun member_ok :: "child option \<times> susp list \<Rightarrow> bool" where
  "member_ok (None, S) = True"
| "member_ok (Some c, S) = child_ok c S"

definition fam_refs :: "family \<Rightarrow> addr multiset" where
  "fam_refs K = sum_list (map member_refs K)"

definition fam_privs :: "family \<Rightarrow> addr set" where
  "fam_privs K = \<Union> (member_privs ` set K)"

definition fam_ok :: "children \<Rightarrow> family \<Rightarrow> bool" where
  "fam_ok cs K \<longleftrightarrow> map fst K = cs \<and> list_all member_ok K"

lemma fam_split:
  assumes "fam_ok cs K" and "k < length cs" and "cs ! k = Some c"
  obtains A S B where "K = A @ (Some c, S) # B" and "child_ok c S"
    and "\<And>c' S'. cs[k := c'] = map fst (A @ (c', S') # B)" and "list_all member_ok (A @ B)"
proof -
  from assms have cs: "cs = map fst K" and k: "k < length K" and ok: "list_all member_ok K" by (auto simp: fam_ok_def)
  have "K ! k = (Some c, snd (K ! k))" using assms(3) k by (simp add: cs prod_eq_iff)
  then have K: "K = take k K @ (Some c, snd (K ! k)) # drop (Suc k) K" using id_take_nth_drop [OF k] by simp
  have "cs[k := c'] = map fst (take k K @ (c', S') # drop (Suc k) K)" for c' S'
    using k by (simp add: cs upd_conv_take_nth_drop take_map drop_map)
  moreover have "list_all member_ok (take k K @ (Some c, snd (K ! k)) # drop (Suc k) K)" using ok K by simp
  ultimately show thesis by (intro that [OF K]) simp_all
qed

lemma fam_own: "list_all member_ok K \<Longrightarrow> fam_privs K \<subseteq> set_mset (fam_refs K)"
proof (induction K)
  case (Cons p K)
  then have "member_privs p \<subseteq> set_mset (member_refs p)"
    using child_own by (cases p rule: member_ok.cases) (auto simp: child_refs_def)
  with Cons show ?case by (auto simp: fam_privs_def fam_refs_def)
qed (simp add: fam_privs_def)

lemma fam_parts:
  "fam_refs (A @ (Some c, S) # B) = fam_refs (A @ B) + child_refs c S"
  "fam_privs (A @ (Some c, S) # B) = fam_privs (A @ B) \<union> child_privs S"
  by (auto simp: fam_refs_def fam_privs_def ac_simps)

lemma late_args_ok: "late_args args fmt wants I = Ret q J \<Longrightarrow> st_ok C R P s I \<Longrightarrow> st_ok C R P s J"
  by (auto simp: late_args_def lift_Ret intro: get_args_ok(1))

context ext_env begin

lemma block_ok: "st_ok C R P s I \<Longrightarrow> okres (b6b_call (stmt_call E n) n stmts I) (kept R P s) C"
  by (rule eval.b6b_call_ok)

end

section \<open>Calls of a child\<close>

text \<open>
  C5. A call of a child keeps the counts of the objects that its caller, the child and all other children
  share: if they are exact for what all of them own, they are after the call, with other threads of
  the child suspended, and every child can be called again.
\<close>

theorem child_call_keeps:
  assumes E: "ext_env E" and fam: "fam_ok cs K" and own: "P \<subseteq> set_mset R"
    and ok: "st_ok C (R + fam_refs K) (P \<union> fam_privs K) s I"
    and run: "b6b_b6b_proc E n args cs I = Ret (res, cs') I'"
  shows "\<exists>K'. fam_ok cs' K' \<and> st_ok C (R + fam_refs K') (P \<union> fam_privs K') s I'"
  using run
proof (cases rule: b6b_b6b_proc_run)
  case (refused q)
  with fam late_args_ok [OF refused(1) ok] show ?thesis by blast
next
  case (called q J stmts k c c' L)
  obtain A S B where K: "K = A @ (Some c, S) # B" and c: "child_ok c S"
    and upd: "\<And>c' S'. cs[k := c'] = map fst (A @ (c', S') # B)" and others: "list_all member_ok (A @ B)"
    by (rule fam_split [OF fam called(2,3)]) (rule that)
  let ?R = "R + fam_refs (A @ B)" and ?P = "P \<union> fam_privs (A @ B)"
  have okJ: "st_ok C (?R + child_refs c S) (?P \<union> child_privs S) s J"
    using late_args_ok [OF called(1) ok] by (simp add: K fam_parts ac_simps Un_ac)
  have own': "?P \<subseteq> set_mset ?R" using own fam_own [OF others] by auto
  obtain S' where c': "child_ok c' S'" and okL: "st_ok C (?R + child_refs c' S') (?P \<union> child_privs S') s L"
    and np: "npriv C (?P \<union> child_privs S') (t_ret (fg (c_interp c')))"
    by (rule run_child_ok [where good = "\<lambda>_. True", OF E c okJ own' _ called(4)]) (simp_all add: ext_env.block_ok [OF E])
  have "st_ok C (?R + child_refs c' S') (?P \<union> child_privs S') s I'"
    using called(5) replace_ret_ref_ok [OF _ _ okL np] by (auto simp: take_ret_def bind_Some)
  moreover have "fam_ok cs' (A @ (Some c', S') # B)"
    using others c' upd by (simp add: fam_ok_def called(6))
  ultimately show ?thesis
    by (intro exI [of _ "A @ (Some c', S') # B"]) (simp add: fam_parts ac_simps Un_ac)
qed

section \<open>The end of a child\<close>

context ext_env begin

lemma destroy_child_ok:
  assumes ok: "st_ok C {#} {} s I" and one: "length (fst (snd s)) = 1"
  shows "okres (rbind (b6b_interp_destroy n I) (\<lambda>h J. Ret res (J\<lparr>hp := h\<rparr>))) (\<lambda>x D J. x = res \<and> all_given_up {#} D (hp J)) C"
proof -
  obtain i f fn d where s: "s = (i, [f], fn, d)"
    using one by (cases s) (auto simp: length_Suc_conv)
  show ?thesis
    by (rule okres_bind [OF interp_destroy_ok [OF ok [unfolded s]]]) simp
qed

end

text \<open>
  C6. The end of a child gives up all that the child and its threads owned, and nothing else: the counts are
  exact for what its caller and the other children own.
\<close>

theorem child_end_keeps:
  assumes E: "ext_env E" and fam: "fam_ok cs K" and own: "P \<subseteq> set_mset R"
    and ok: "st_ok C (R + fam_refs K) (P \<union> fam_privs K) s I" and k: "k < length cs"
    and run: "b6b_b6b_del E n k cs I = Ret cs' I'"
  shows "\<exists>K'. fam_ok cs' K' \<and> cs' = cs[k := None] \<and> st_ok C (R + fam_refs K') (P \<union> fam_privs K') s I'"
proof -
  from run obtain c x c' where c: "cs ! k = Some c" "cs' = cs[k := None]"
    and r: "run_child E n (\<lambda>J. rbind (b6b_interp_destroy n J) (\<lambda>h J. Ret B6B_OK (J\<lparr>hp := h\<rparr>))) c I = Ret (x, c') I'"
    by (auto simp: b6b_b6b_del_def rbind_Ret split: option.splits)
  obtain A S B where K: "K = A @ (Some c, S) # B" and cok: "child_ok c S"
    and upd: "\<And>c' S'. cs[k := c'] = map fst (A @ (c', S') # B)" and others: "list_all member_ok (A @ B)"
    by (rule fam_split [OF fam k c(1)]) (rule that)
  let ?R = "R + fam_refs (A @ B)" and ?P = "P \<union> fam_privs (A @ B)"
  let ?V = "c_priv C \<union> ?P" and ?B = "c_refs C + ?R + iroots I"
  have own': "?P \<subseteq> set_mset ?R" using own fam_own [OF others] by auto
  have ok': "st_ok C (?R + child_refs c S) (?P \<union> child_privs S) s I"
    using ok by (simp add: K fam_parts ac_simps Un_ac)
  have inv: "hinv (?V \<union> child_privs S) (?B + child_refs c S) (hp I)"
    using st_ok_hinv [OF ok'] by (simp add: ac_simps Un_ac)
  have sub: "?V \<subseteq> set_mset ?B" using ok own' by (auto simp: st_ok_def)
  have "length (fst (snd (child_fg c))) = 1" using cok by (simp add: child_ok_def tst_def)
  from child_run [OF E cok inv sub ext_env.destroy_child_ok [OF E _ this] r] obtain S' where
    g: "x = B6B_OK \<and> all_given_up {#} (ctx_of (?B, ?V) S' (fst (child_fg c))) (hp (c_interp c'))" and I': "I' = I\<lparr>hp := hp (c_interp c')\<rparr>" .
  then have "c_thr (ctx_of (?B, ?V) S' (fst (child_fg c))) = Map.empty" by (simp add: all_given_up_def)
  then have "S' = []" by (simp add: ctx_of_def)
  with g have "hinv ?V ?B (hp (c_interp c'))" by (simp add: all_given_up_def ctx_of_def)
  then have "st_ok C ?R ?P s I'"
    unfolding I' by (intro st_ok_heap [OF ok'] own') (simp add: ac_simps Un_ac)
  moreover have "fam_ok cs' (A @ (None, []) # B)" using others upd by (simp add: fam_ok_def c(2))
  moreover have "fam_refs (A @ (None, []) # B) = fam_refs (A @ B)" "fam_privs (A @ (None, []) # B) = fam_privs (A @ B)"
    by (simp_all add: fam_refs_def fam_privs_def)
  ultimately show ?thesis using c(2) by (intro exI [of _ "A @ (None, []) # B"]) simp
qed

section \<open>The start of a child\<close>

context ext_env begin

lemma child_new_ok:
  assumes ok: "st_ok C {#} {} s J" and one: "length (fst (snd s)) = 1"
  shows "okres (child_new E n exts inits opt J) (\<lambda>res D J. res = B6B_OK \<longrightarrow> st_ok D {#} {} s J) C"
  unfolding child_new_def
proof (rule okres_seq [OF interp_new_ok [OF ok]], rule okres_if)
  fix D J
  assume s: "st_ok D {#} {} s J"
  then show "okres (Ret B6B_OK J) (\<lambda>res D J. res = B6B_OK \<longrightarrow> st_ok D {#} {} s J) D" by simp
  show "okres (rbind (b6b_interp_destroy n J) (\<lambda>h J. Ret B6B_ERR (J\<lparr>hp := h\<rparr>)))
      (\<lambda>res D J. res = B6B_OK \<longrightarrow> st_ok D {#} {} s J) D"
    by (rule okres_mono [OF destroy_child_ok [OF s one]]) simp
qed

end

text \<open>
  When a child has been made, with an object \<open>l\<close> for its arguments, the counts are exact for what its maker and
  the other children own, and for what the new child owns besides.
\<close>

theorem child_start_keeps:
  assumes E: "ext_env E" and fam: "fam_ok cs K" and own: "P \<subseteq> set_mset R"
    and ok: "st_ok C (R + fam_refs K) (P \<union> fam_privs K) s I" and np: "npriv C (P \<union> fam_privs K) l"
    and start: "interp_start l opt now (hp I) = Some (True, J)"
    and run: "run_child E n (child_new E n exts inits opt) \<lparr>c_interp = J, c_susp = Map.empty\<rparr> (I\<lparr>hp := hp J\<rparr>) = Ret (B6B_OK, c) I'"
  shows "\<exists>K'. fam_ok (cs @ [Some c]) K' \<and> st_ok C (R + fam_refs K') (P \<union> fam_privs K') s I'"
proof -
  let ?R = "R + fam_refs K" and ?P = "P \<union> fam_privs K" and ?c = "\<lparr>c_interp = J, c_susp = Map.empty\<rparr>"
  let ?V = "c_priv C \<union> ?P" and ?B = "c_refs C + ?R + iroots I"
  have "list_all member_ok K" using fam by (simp add: fam_ok_def)
  with own fam_own have own': "?P \<subseteq> set_mset ?R" by fastforce
  then have sub: "?V \<subseteq> set_mset ?B" using ok by (auto simp: st_ok_def)
  have inv: "hinv ?V ?B (hp I)" using st_ok_hinv [OF ok] .
  have l: "l \<notin> ?V" using np by (simp add: npriv_def)
  obtain f where "st_ok \<lparr>c_refs = ?B, c_priv = ?V, c_thr = Map.empty, c_self = 0\<rparr> {#} {} (0, [f], None, 1) J"
    using interp_start_own [OF start inv l sub] .
  then have J: "st_ok (ctx_of (?B, ?V) [] 0) {#} {} (0, [f], None, 1) J" by (simp add: ctx_of_def)
  have none: "sched_inv (?B, ?V) (\<lambda>_ _ _. True) Map.empty 0 []" using sub by (simp add: sched_inv_def)
  have c0: "child_ok ?c []" and h0: "hinv (?V \<union> child_privs []) (?B + child_refs ?c []) (hp J)"
    using st_ok_child [OF J none] by (simp_all add: others_stay_def)
  have "hinv (c_priv C \<union> (?P \<union> child_privs [])) (c_refs C + (?R + child_refs ?c []) + iroots I) (hp J)"
    using h0 by (simp add: ac_simps Un_ac)
  moreover have "?P \<union> child_privs [] \<subseteq> set_mset (?R + child_refs ?c [])" using own' by (auto simp: child_privs_def)
  ultimately have ok': "st_ok C (?R + child_refs ?c []) (?P \<union> child_privs []) s (I\<lparr>hp := hp J\<rparr>)"
    by (rule st_ok_heap [OF ok])
  have one: "length (fst (snd (child_fg ?c))) = 1" using c0 by (simp add: child_ok_def tst_def)
  obtain S' where c: "child_ok c S'" and st: "st_ok C (?R + child_refs c S') (?P \<union> child_privs S') s I'"
    by (rule run_child_ok [where good = "\<lambda>res. res = B6B_OK", OF E c0 ok' own' ext_env.child_new_ok [OF E _ one] run]) simp_all
  have "fam_ok (cs @ [Some c]) (K @ [(Some c, S')])" using fam c by (simp add: fam_ok_def)
  moreover have "st_ok C (R + fam_refs (K @ [(Some c, S')])) (P \<union> fam_privs (K @ [(Some c, S')])) s I'"
    using st fam_parts [of K c S' "[]"] by (simp add: ac_simps Un_ac)
  ultimately show ?thesis by blast
qed

section \<open>A concrete child\<close>

text \<open>
  An interpreter with a child, and a list that calls the child's object with a program that starts a second
  thread, switches to it and ends with a status.
\<close>

definition demo_child :: "child \<Rightarrow> interp \<Rightarrow> (addr \<times> interp) option" where
  "demo_child c I =
     (case new_heap (b6b_new (\<lambda>ob. ob\<lparr>ob_s := Some ''b6b:0'', ob_priv := Priv_ext 0\<rparr>)) I of (a, I) \<Rightarrow>
      case new_heap b6b_list_new I of (l, I) \<Rightarrow> do {
        I \<leftarrow> upd_heap (b6b_list_add l a) I;
        I \<leftarrow> upd_heap (list_add_strs l [''call'', hd demo_argv]) I;
        Some (l, I)
      })"

definition demo_run_child :: "addr \<Rightarrow> interp \<Rightarrow> (b6b_res \<times> child) res" where
  "demo_run_child args I =
     (case interp_start args 0 0 (hp I) of
        Some (True, J) \<Rightarrow> run_child (no_ext demo_env) 20 (child_new (no_ext demo_env) 20 demo_exts [] 0)
          \<lparr>c_interp = J, c_susp = Map.empty\<rparr> (I\<lparr>hp := hp J\<rparr>)
      | _ \<Rightarrow> Undef)"

definition demo_family :: "(addr \<times> child \<times> interp) option" where
  "demo_family = do {
     (args, h) \<leftarrow> argv_list demo_argv empty_heap;
     (ok, I) \<leftarrow> interp_start args 0 0 h;
     (case (ok, demo_run_child args I) of
        (True, Ret (B6B_OK, c) I) \<Rightarrow> map_option (\<lambda>(l, I). (l, c, I)) (demo_child c I)
      | _ \<Rightarrow> None)
   }"

definition demo_called :: "(children \<times> interp) option" where
  "demo_called = do {
     (l, c, I) \<leftarrow> demo_family;
     (case b6b_b6b_proc (no_ext demo_env) 20 l [Some c] I of Ret (B6B_EXIT, cs) I \<Rightarrow> Some (cs, I) | _ \<Rightarrow> None)
   }"

lemma demo_calls: "case demo_called of Some (cs, I) \<Rightarrow>
    (case b6b_b6b_del (no_ext demo_env) 20 0 cs I of Ret cs I \<Rightarrow> list_all (\<lambda>c. Option.is_none c) cs | _ \<Rightarrow> False) \<and> length cs = 1 | None \<Rightarrow> False"
  by code_simp

lemma demo_called_Some: "demo_called \<noteq> None"
proof
  assume none: "demo_called = None"
  show False using demo_calls unfolding none option.case .
qed

lemma demo_child_ok:
  assumes run: "demo_child c I = Some (l, I')" and ok: "st_ok C R P s I"
  obtains a where "st_ok C ({#a, l#} + R) P s I'"
proof -
  obtain a I1 where a: "new_heap (b6b_new (\<lambda>ob. ob\<lparr>ob_s := Some ''b6b:0'', ob_priv := Priv_ext 0\<rparr>)) I = (a, I1)" by fastforce
  with run obtain I2 I3 where l: "new_heap b6b_list_new I1 = (l, I2)"
    and add: "upd_heap (b6b_list_add l a) I2 = Some I3" "upd_heap (list_add_strs l [''call'', hd demo_argv]) I3 = Some I'"
    by (auto simp: demo_child_def bind_Some split: prod.splits)
  have ok1: "st_ok C (add_mset a R) P s I1"
    by (rule new_heap_ok [OF a ok], erule (1) b6b_new_hinv(1)) (simp_all add: new_obj_def refs_of_def)
  have np: "npriv C P a"
    by (rule new_heap_npriv [OF a ok], erule (1) b6b_new_hinv(2)) (simp_all add: new_obj_def refs_of_def)
  from list_add_strs_ok [OF add(2) list_add_ok_st [OF add(1) list_new_ok(1) [OF l ok1] np]]
  show thesis by (intro that [of a]) (simp add: add_mset_commute)
qed

lemma demo_family_ok:
  obtains l c I K R s where "demo_family = Some (l, c, I)" and "fam_ok [Some c] K"
    and "st_ok ctx0 (R + fam_refs K) ({} \<union> fam_privs K) s I"
proof -
  from demo_called_Some obtain l c I where fam: "demo_family = Some (l, c, I)"
    by (cases demo_family) (auto simp: demo_called_def)
  then obtain args h I0 c1 I1 where a: "argv_list demo_argv empty_heap = Some (args, h)" "interp_start args 0 0 h = Some (True, I0)"
    and r: "demo_run_child args I0 = Ret (B6B_OK, c) I1" and d: "demo_child c I1 = Some (l, I)"
    by (auto simp: demo_family_def bind_Some split: bool.splits res.splits b6b_res.splits)
  obtain f where ok: "st_ok ctx0 {#args#} {} (0, [f], None, 1) I0"
    by (rule interp_start_ok [OF a(2) argv_list_hinv [OF a(1)]])
  from r obtain J where start: "interp_start args 0 0 (hp I0) = Some (True, J)"
    and run: "run_child (no_ext demo_env) 20 (child_new (no_ext demo_env) 20 demo_exts [] 0)
        \<lparr>c_interp = J, c_susp = Map.empty\<rparr> (I0\<lparr>hp := hp J\<rparr>) = Ret (B6B_OK, c) I1"
    by (auto simp: demo_run_child_def split: option.splits bool.splits)
  have "\<exists>K'. fam_ok ([] @ [Some c]) K' \<and> st_ok ctx0 ({#args#} + fam_refs K') ({} \<union> fam_privs K') (0, [f], None, 1) I1"
    by (rule child_start_keeps [where K = "[]", OF plain.ext_env_axioms _ _ _ _ start run])
      (use ok in \<open>simp_all add: fam_ok_def fam_refs_def fam_privs_def npriv_def\<close>)
  then obtain K where K: "fam_ok [Some c] K" "st_ok ctx0 ({#args#} + fam_refs K) ({} \<union> fam_privs K) (0, [f], None, 1) I1"
    by auto
  from demo_child_ok [OF d K(2)] obtain b where "st_ok ctx0 (({#b, l#} + {#args#}) + fam_refs K) ({} \<union> fam_privs K) (0, [f], None, 1) I"
    by (metis add.assoc)
  with fam K(1) show thesis by (rule that)
qed

lemma demo_called_run:
  assumes "demo_family = Some (l, c, I)"
  obtains cs' I' where "b6b_b6b_proc (no_ext demo_env) 20 l [Some c] I = Ret (B6B_EXIT, cs') I'" and "demo_called = Some (cs', I')"
proof -
  from demo_called_Some obtain cs' I' where d: "demo_called = Some (cs', I')" by (metis not_Some_eq prod.collapse)
  then have "b6b_b6b_proc (no_ext demo_env) 20 l [Some c] I = Ret (B6B_EXIT, cs') I'"
    by (simp add: demo_called_def assms split: res.splits b6b_res.splits prod.splits)
  then show thesis using d by (rule that)
qed

text \<open>The child is called, and then its end.\<close>

lemma child_call_keeps_witness:
  "\<exists>cs' I' K' R s. demo_called = Some (cs', I') \<and> fam_ok cs' K' \<and> st_ok ctx0 (R + fam_refs K') ({} \<union> fam_privs K') s I'"
proof -
  obtain l c I K R s where fam: "demo_family = Some (l, c, I)" "fam_ok [Some c] K"
    "st_ok ctx0 (R + fam_refs K) ({} \<union> fam_privs K) s I" by (rule demo_family_ok)
  obtain cs' I' where r: "b6b_b6b_proc (no_ext demo_env) 20 l [Some c] I = Ret (B6B_EXIT, cs') I'" "demo_called = Some (cs', I')"
    by (rule demo_called_run [OF fam(1)])
  from child_call_keeps [OF plain.ext_env_axioms fam(2) empty_subsetI fam(3) r(1)] r(2) show ?thesis by blast
qed

lemma child_end_keeps_witness:
  "\<exists>l c I cs' I' K' R s. demo_family = Some (l, c, I) \<and> b6b_b6b_del (no_ext demo_env) 20 0 [Some c] I = Ret cs' I'
    \<and> cs' = [None] \<and> fam_ok cs' K' \<and> st_ok ctx0 (R + fam_refs K') ({} \<union> fam_privs K') s I'"
proof -
  obtain l c I K R s where fam: "demo_family = Some (l, c, I)" "fam_ok [Some c] K"
    "st_ok ctx0 (R + fam_refs K) ({} \<union> fam_privs K) s I" by (rule demo_family_ok)
  have "case demo_family of Some (l, c, I) \<Rightarrow>
      (case b6b_b6b_del (no_ext demo_env) 20 0 [Some c] I of Ret _ _ \<Rightarrow> True | _ \<Rightarrow> False) | None \<Rightarrow> False"
    by code_simp
  from this [unfolded fam(1) option.case prod.case]
  obtain cs' I' where r: "b6b_b6b_del (no_ext demo_env) 20 0 [Some c] I = Ret cs' I'"
    by (cases "b6b_b6b_del (no_ext demo_env) 20 0 [Some c] I") simp_all
  from child_end_keeps [OF plain.ext_env_axioms fam(2) empty_subsetI fam(3) _ r]
  obtain K' where K': "fam_ok cs' K'" "cs' = [None]" "st_ok ctx0 (R + fam_refs K') ({} \<union> fam_privs K') s I'" by auto
  show ?thesis by (intro exI conjI) (rule fam(1) r K')+
qed

end
