(* ===== verification/Prompt.thy ===== *)
theory Prompt
  imports Nested
begin

text \<open>
  The prompt: src/b6b_linenoise.c, and the completion and the hints of src/b6b.c.  The editor of lines is a
  parameter; while it reads a line it asks for completions and hints.
\<close>

section \<open>The editor\<close>

text \<open>
  What \<^verbatim>\<open>linenoise\<close> does next: it returns a line or a null pointer, or calls one of the callbacks.  A hint is bold.
\<close>

datatype ln_event = Ln_line "string option" | Ln_complete string | Ln_hint string

record 'w ln_env =
  ln_next :: "string \<Rightarrow> 'w \<Rightarrow> ln_event \<times> 'w"
  ln_completions :: "string list \<Rightarrow> 'w \<Rightarrow> 'w"
  ln_hint :: "string option \<Rightarrow> 'w \<Rightarrow> 'w"
  ln_history_add :: "string \<Rightarrow> 'w \<Rightarrow> bool \<times> 'w"
  ln_history_save :: "string \<Rightarrow> 'w \<Rightarrow> bool \<times> 'w"
  ln_history_load :: "string \<Rightarrow> 'w \<Rightarrow> bool \<times> 'w"
  ln_history_max :: "nat \<Rightarrow> 'w \<Rightarrow> bool \<times> 'w"

text \<open>
  The interpreter of the prompt, its children, and the variable \<^verbatim>\<open>chld\<close> of src/b6b.c: which of them runs what
  the user types, once it is known.
\<close>

record 'w prompt =
  p_i :: interp
  p_w :: 'w
  p_kids :: children
  p_chld :: "nat option"

definition on_prompt :: "(interp \<Rightarrow> ('a \<times> interp) option) \<Rightarrow> 'w prompt \<Rightarrow> ('a \<times> 'w prompt) option" where
  "on_prompt f s = map_option (\<lambda>(x, I). (x, s\<lparr>p_i := I\<rparr>)) (f (p_i s))"

section \<open>Hints\<close>

definition hint :: "string \<Rightarrow> string option" where
  "hint s =
     (if s = [] then None
      else if last s = CHR ''{'' then Some ''}''
      else if last s = CHR ''['' then Some '']''
      else None)"

section \<open>Completion\<close>

text \<open>The private data of an object that is no child's is a null pointer, or of another type.\<close>

definition chld_in :: "interp \<Rightarrow> (nat option \<times> interp) option" where
  "chld_in I =
     (case new_heap (b6b_str_copy ''chld'') I of (k, I) \<Rightarrow> do {
        (r, I) \<leftarrow> on_heap (b6b_dict_get (locals (global I)) k) I;
        found \<leftarrow> (case r of
            Some (Some v) \<Rightarrow> do {
              ob \<leftarrow> obj_at v I;
              (case ob_priv ob of
                 Priv_ext n \<Rightarrow> Some (Some n)
               | No_priv \<Rightarrow> Some None
               | _ \<Rightarrow> None)
            }
          | _ \<Rightarrow> Some None);
        I \<leftarrow> upd_heap (b6b_destroy k) I;
        Some (found, I)
      })"

definition get_chld :: "'w prompt \<Rightarrow> (nat option \<times> 'w prompt) option" where
  "get_chld s =
     (if p_chld s \<noteq> None then Some (p_chld s, s)
      else do {
        (found, s) \<leftarrow> on_prompt chld_in s;
        Some (found, s\<lparr>p_chld := found\<rparr>)
      })"

definition c_strncmp_eq :: "string \<Rightarrow> string \<Rightarrow> nat \<Rightarrow> bool" where
  "c_strncmp_eq a b n \<longleftrightarrow> take n (c_str a @ [CHR 0x00]) = take n (c_str b @ [CHR 0x00])"

text \<open>The items that \<open>complete\<close> looks at, every second one of a dictionary's list.\<close>

fun every_second :: "'a list \<Rightarrow> 'a list" where
  "every_second [] = []"
| "every_second [k] = [k]"
| "every_second (k # v # r) = k # every_second r"

text \<open>
  The last item of the line \<open>l\<close> is replaced by each name that starts as \<open>tok\<close> does after the dollar.  The list
  of names is read once, as nothing here changes a dictionary.
\<close>

fun complete_names :: "addr \<Rightarrow> string \<Rightarrow> addr list \<Rightarrow> interp \<Rightarrow> (string list \<times> interp) option" where
  "complete_names l tok [] I = Some ([], I)"
| "complete_names l tok (k # ks) I = do {
     (ok, I) \<leftarrow> on_heap (b6b_as_str k) I;
     s \<leftarrow> (if ok then str_at k I else Some []);
     if ok \<and> c_strncmp_eq s (tl tok) (length tok - 1) then do {
       (x, I) \<leftarrow> on_heap (b6b_list_pop l None) I;
       x \<leftarrow> x;
       I \<leftarrow> upd_heap (b6b_unref x) I;
       s \<leftarrow> str_at k I;
       (c, I) \<leftarrow> Some (new_heap (b6b_str_new (''$'' @ c_str s)) I);
       I \<leftarrow> upd_heap (b6b_list_add l c) I;
       I \<leftarrow> upd_heap (b6b_unref c) I;
       (ok, I) \<leftarrow> on_heap (b6b_as_str l) I;
       if \<not> ok then Some ([], I)
       else do {
         t \<leftarrow> str_at l I;
         (ts, I) \<leftarrow> complete_names l tok ks I;
         Some (c_str t # ts, I)
       }
     }
     else complete_names l tok ks I
   }"

fun complete_dicts :: "addr \<Rightarrow> string \<Rightarrow> addr list \<Rightarrow> interp \<Rightarrow> (string list \<times> interp) option" where
  "complete_dicts l tok [] I = Some ([], I)"
| "complete_dicts l tok (d # ds) I = do {
     (ok, I) \<leftarrow> on_heap (b6b_as_list d) I;
     if \<not> ok then Some ([], I)
     else do {
       its \<leftarrow> items_at d I;
       (ts, I) \<leftarrow> complete_names l tok (every_second (map snd its)) I;
       (us, I) \<leftarrow> complete_dicts l tok ds I;
       Some (ts @ us, I)
     }
   }"

text \<open>The child whose variables are offered, if the line ends in a name.\<close>

definition complete_child :: "addr \<Rightarrow> 'w prompt \<Rightarrow> (nat option \<times> string \<times> 'w prompt) option" where
  "complete_child tok s = do {
     (ok, s) \<leftarrow> on_prompt (on_heap (b6b_as_str tok)) s;
     t \<leftarrow> (if ok then str_at tok (p_i s) else Some []);
     if \<not> ok \<or> t = [] \<or> hd t \<noteq> CHR ''$'' then Some (None, t, s)
     else do {
       (n, s) \<leftarrow> get_chld s;
       Some (n, t, s)
     }
   }"

text \<open>Local variables are offered before global ones.\<close>

definition complete_with :: "addr \<Rightarrow> addr \<Rightarrow> 'w prompt \<Rightarrow> (string list \<times> 'w prompt) option" where
  "complete_with l tok s = do {
     (n, t, s) \<leftarrow> complete_child tok s;
     (ts, s) \<leftarrow> (case n of
         None \<Rightarrow> Some ([], s)
       | Some n \<Rightarrow> do {
           c \<leftarrow> (if n < length (p_kids s) then p_kids s ! n else None);
           on_prompt (complete_dicts l t [locals (curr (c_interp c)), locals (global (c_interp c))]) s
         });
     (_, s) \<leftarrow> on_prompt (\<lambda>I. map_option (Pair ()) (upd_heap (b6b_unref tok) I)) s;
     (_, s) \<leftarrow> on_prompt (\<lambda>I. map_option (Pair ()) (upd_heap (b6b_destroy l) I)) s;
     Some (ts, s)
   }"

definition complete :: "string \<Rightarrow> 'w prompt \<Rightarrow> (string list \<times> 'w prompt) option" where
  "complete t s =
     (if t = [] then Some ([], s)
      else
        (case new_heap (b6b_str_copy t) (p_i s) of (l, I) \<Rightarrow> do {
           (ok, I) \<leftarrow> on_heap (b6b_as_list l) I;
           its \<leftarrow> (if ok then items_at l I else Some []);
           if \<not> ok \<or> its = [] then do {
             I \<leftarrow> upd_heap (b6b_destroy l) I;
             Some ([], s\<lparr>p_i := I\<rparr>)
           }
           else do {
             let tok = snd (last its);
             I \<leftarrow> upd_heap (b6b_ref tok) I;
             complete_with l tok (s\<lparr>p_i := I\<rparr>)
           }
         }))"

section \<open>Reading a line\<close>

text \<open>The result is \<open>None\<close> if \<open>n\<close> calls are not enough, \<open>Some None\<close> for undefined behaviour.\<close>

fun linenoise :: "'w ln_env \<Rightarrow> nat \<Rightarrow> string \<Rightarrow> 'w prompt \<Rightarrow> (string option \<times> 'w prompt) option option" where
  "linenoise L 0 p s = None"
| "linenoise L (Suc n) p s =
     (case ln_next L p (p_w s) of
        (Ln_line t, w) \<Rightarrow> Some (Some (t, s\<lparr>p_w := w\<rparr>))
      | (Ln_hint t, w) \<Rightarrow> linenoise L n p (s\<lparr>p_w := ln_hint L (hint t) w\<rparr>)
      | (Ln_complete t, w) \<Rightarrow>
          (case complete t (s\<lparr>p_w := w\<rparr>) of
             None \<Rightarrow> Some None
           | Some (ts, s) \<Rightarrow> linenoise L n p (s\<lparr>p_w := ln_completions L ts (p_w s)\<rparr>)))"

definition ln_args :: "addr \<Rightarrow> 'w prompt \<Rightarrow> (string option \<times> 'w prompt) option" where
  "ln_args args s = do {
     ((argc, ps), s) \<leftarrow> on_prompt (\<lambda>I. map_option (\<lambda>(n, ps, I). ((n, ps), I)) (b6b_proc_get_args args ''os'' [False, True] I)) s;
     if argc = 0 then Some (None, s)
     else case ps of
       [Arg a] \<Rightarrow> map_option (\<lambda>t. (Some (c_str t), s)) (str_at a (p_i s))
     | _ \<Rightarrow> None
   }"

definition b6b_linenoise_proc_read :: "'w ln_env \<Rightarrow> nat \<Rightarrow> addr \<Rightarrow> 'w prompt \<Rightarrow> (b6b_res \<times> 'w prompt) option option" where
  "b6b_linenoise_proc_read L n args s =
     (case ln_args args s of
        None \<Rightarrow> Some None
      | Some (None, s) \<Rightarrow> Some (Some (B6B_ERR, s))
      | Some (Some p, s) \<Rightarrow>
          (case linenoise L n p s of
             None \<Rightarrow> None
           | Some None \<Rightarrow> Some None
           | Some (Some (None, s)) \<Rightarrow> Some (Some (B6B_ERR, s))
           | Some (Some (Some t, s)) \<Rightarrow>
               Some (on_prompt (\<lambda>I. case new_heap (b6b_str_new (c_str t)) I of (a, I) \<Rightarrow> b6b_return a I) s)))"

text \<open>The history; 64 lines are kept.\<close>

definition ln_history :: "(string \<Rightarrow> 'w \<Rightarrow> bool \<times> 'w) \<Rightarrow> addr \<Rightarrow> 'w prompt \<Rightarrow> (b6b_res \<times> 'w prompt) option" where
  "ln_history f args s = do {
     (t, s) \<leftarrow> ln_args args s;
     (case t of
        None \<Rightarrow> Some (B6B_ERR, s)
      | Some t \<Rightarrow> (case f t (p_w s) of (ok, w) \<Rightarrow> Some (if ok then B6B_OK else B6B_ERR, s\<lparr>p_w := w\<rparr>)))
   }"

definition b6b_linenoise_proc_add :: "'w ln_env \<Rightarrow> addr \<Rightarrow> 'w prompt \<Rightarrow> (b6b_res \<times> 'w prompt) option" where
  "b6b_linenoise_proc_add L = ln_history (ln_history_add L)"

definition b6b_linenoise_proc_save :: "'w ln_env \<Rightarrow> addr \<Rightarrow> 'w prompt \<Rightarrow> (b6b_res \<times> 'w prompt) option" where
  "b6b_linenoise_proc_save L = ln_history (ln_history_save L)"

definition b6b_linenoise_proc_load :: "'w ln_env \<Rightarrow> addr \<Rightarrow> 'w prompt \<Rightarrow> (b6b_res \<times> 'w prompt) option" where
  "b6b_linenoise_proc_load L = ln_history (ln_history_load L)"

definition B6B_LINENOISE_HISTORY_SIZE :: nat where "B6B_LINENOISE_HISTORY_SIZE = 64"

definition b6b_linenoise_init :: "'w ln_env \<Rightarrow> 'w \<Rightarrow> bool \<times> 'w" where
  "b6b_linenoise_init L = ln_history_max L B6B_LINENOISE_HISTORY_SIZE"

definition b6b_linenoise_table :: "ext_obj list" where
  "b6b_linenoise_table = map (\<lambda>(n, f). ext_proc n (F_ext (late_num f))) (tl late_fns)"

end
