(* ===== verification/Prompt_Props.thy ===== *)
theory Prompt_Props
  imports Prompt Run_Props
begin

text \<open>
  The properties of the prompt: asking for completions and hints, as often as the editor likes, leaves the
  references of the interpreter and of its children as they are.
\<close>

section \<open>Completion\<close>

lemma list_pop_ok:
  assumes run: "on_heap (b6b_list_pop l li) I = Some (Some x, I')" and ok: "st_ok C R P s I"
  shows "st_ok C (add_mset x R) P s I'" and "npriv C P x"
proof -
  from run obtain h where h: "b6b_list_pop l li (hp I) = Some (Some x, h)" "I' = I\<lparr>hp := h\<rparr>"
    by (auto simp: on_heap_def bind_Some)
  note pop = b6b_list_pop_hinv [OF st_ok_hinv [OF ok] h(1)]
  show "st_ok C (add_mset x R) P s I'"
    unfolding h(2) using pop(1) st_ok_own [OF ok] by (intro st_ok_heap [OF ok]) auto
  show "npriv C P x" using pop(2) by (simp add: npriv_def)
qed

lemma complete_names_ok: "st_ok C R P s I \<Longrightarrow> pres C R P s (complete_names l tok ks I)"
proof (induction ks arbitrary: I)
  case (Cons k ks)
  show ?case
    unfolding complete_names.simps
  proof (intro pres_bind2 pres_bind pres_if pres_Some)
    fix ok I1 t x I2 y I3 u c I4 I5 I6 ok2 I7
    assume r: "on_heap (b6b_as_str k) I = Some (ok, I1)" "on_heap (b6b_list_pop l None) I1 = Some (x, I2)" "x = Some y"
      "upd_heap (b6b_unref y) I2 = Some I3" "Some (new_heap (b6b_str_new (''$'' @ c_str u)) I3) = Some (c, I4)"
      "upd_heap (b6b_list_add l c) I4 = Some I5" "upd_heap (b6b_unref c) I5 = Some I6"
      "on_heap (b6b_as_str l) I6 = Some (ok2, I7)"
    note s1 = as_str_ok [OF r(1) Cons.prems]
    note pop = list_pop_ok [OF r(2) [unfolded r(3)] s1]
    note s3 = unref_ok_st [OF r(4) pop]
    have "new_heap (b6b_str_new (''$'' @ c_str u)) I3 = (c, I4)" using r(5) by simp
    note new = str_new_ok [OF this s3]
    note s6 = unref_ok_st [OF r(7) list_add_ok_st [OF r(6) new] new(2)]
    show s7: "st_ok C R P s I7" by (rule as_str_ok [OF r(8) s6])
    show "st_ok C R P s J" if "complete_names l tok ks I7 = Some (ts, J)" for ts J
      using presD [OF Cons.IH [OF s7] that] .
  next
    fix ok I1
    assume "on_heap (b6b_as_str k) I = Some (ok, I1)"
    from Cons.IH [OF as_str_ok [OF this Cons.prems]] show "pres C R P s (complete_names l tok ks I1)" .
  qed
qed (simp add: pres_Some)

lemma complete_dicts_ok: "st_ok C R P s I \<Longrightarrow> pres C R P s (complete_dicts l tok ds I)"
proof (induction ds arbitrary: I)
  case (Cons d ds)
  show ?case
    unfolding complete_dicts.simps
  proof (intro pres_bind2 pres_bind pres_if pres_Some)
    fix ok I1
    assume "on_heap (b6b_as_list d) I = Some (ok, I1)"
    from as_list_ok [OF this Cons.prems] show s1: "st_ok C R P s I1" .
    fix its ts I2 us I3
    assume r: "complete_names l tok (every_second (map snd its)) I1 = Some (ts, I2)" "complete_dicts l tok ds I2 = Some (us, I3)"
    show "st_ok C R P s I3" by (rule presD [OF Cons.IH [OF presD [OF complete_names_ok [OF s1] r(1)]] r(2)])
  qed
qed (simp add: pres_Some)

text \<open>The same for the state of the prompt, whose children are left as they are.\<close>

definition prompt_ok :: "ctx \<Rightarrow> addr multiset \<Rightarrow> addr set \<Rightarrow> tst \<Rightarrow> children \<Rightarrow> 'w prompt \<Rightarrow> bool" where
  "prompt_ok C R P s cs x \<longleftrightarrow> st_ok C R P s (p_i x) \<and> p_kids x = cs"

lemma on_prompt_ok:
  assumes "on_prompt f x = Some (r, y)" and "prompt_ok C R P s cs x"
    and "\<And>I' . f (p_i x) = Some (r, I') \<Longrightarrow> st_ok C R P s (p_i x) \<Longrightarrow> st_ok C R' P' s I'"
  shows "prompt_ok C R' P' s cs y"
  using assms by (auto simp: on_prompt_def prompt_ok_def)

lemma chld_in_ok:
  assumes ok: "st_ok C R P s I" and run: "chld_in I = Some (r, I')"
  shows "st_ok C R P s I'"
proof -
  obtain k I1 where k: "new_heap (b6b_str_copy ''chld'') I = (k, I1)" by fastforce
  with run obtain q I2 where r: "on_heap (b6b_dict_get (locals (global I1)) k) I1 = Some (q, I2)"
    "upd_heap (b6b_destroy k) I2 = Some I'"
    by (auto simp: chld_in_def bind_Some)
  note new = str_copy_private [OF k ok]
  have "k \<notin> P" using str_copy_ok_st(2) [OF k ok] by (simp add: npriv_def)
  then show ?thesis by (rule destroy_private_ok [OF r(2) dict_get_ok [OF r(1) new(1)]])
qed

lemma get_chld_ok: "get_chld x = Some (r, y) \<Longrightarrow> prompt_ok C R P s cs x \<Longrightarrow> prompt_ok C R P s cs y"
  by (auto simp: get_chld_def on_prompt_def prompt_ok_def bind_Some split: if_splits intro: chld_in_ok)

lemma complete_child_ok:
  assumes run: "complete_child tok x = Some (n, t, y)" and ok: "prompt_ok C R P s cs x"
  shows "prompt_ok C R P s cs y"
proof -
  from run obtain b z where z: "on_prompt (on_heap (b6b_as_str tok)) x = Some (b, z)"
    and c: "y = z \<or> get_chld z = Some (n, y)"
    by (auto simp: complete_child_def bind_Some split: if_splits)
  have "prompt_ok C R P s cs z" by (rule on_prompt_ok [OF z ok]) (rule as_str_ok)
  with c show ?thesis using get_chld_ok by blast
qed

lemma complete_with_ok:
  assumes run: "complete_with l tok x = Some (ts, y)" and l: "l \<notin> P"
    and ok: "prompt_ok C (add_mset tok (add_mset l R)) (insert l P) s cs x" and tok: "npriv C (insert l P) tok"
  shows "prompt_ok C R P s cs y"
proof -
  let ?R = "add_mset tok (add_mset l R)" and ?P = "insert l P"
  from run obtain n t x1 x2 x3 where r: "complete_child tok x = Some (n, t, x1)"
    and c: "(case n of
         None \<Rightarrow> Some ([], x1)
       | Some n \<Rightarrow> do {
           c \<leftarrow> (if n < length (p_kids x1) then p_kids x1 ! n else None);
           on_prompt (complete_dicts l t [locals (curr (c_interp c)), locals (global (c_interp c))]) x1
         }) = Some (ts, x2)"
    and u: "on_prompt (\<lambda>I. map_option (Pair ()) (upd_heap (b6b_unref tok) I)) x2 = Some ((), x3)"
      "on_prompt (\<lambda>I. map_option (Pair ()) (upd_heap (b6b_destroy l) I)) x3 = Some ((), y)"
    by (auto simp: complete_with_def bind_Some)
  note ok1 = complete_child_ok [OF r ok]
  have ok2: "prompt_ok C ?R ?P s cs x2"
  proof (cases n)
    case None
    with c ok1 show ?thesis by simp
  next
    case (Some m)
    with c obtain ds where "on_prompt (complete_dicts l t ds) x1 = Some (ts, x2)" by (auto simp: bind_Some)
    then show ?thesis by (rule on_prompt_ok [OF _ ok1]) (rule presD [OF complete_dicts_ok])
  qed
  have "prompt_ok C (add_mset l R) ?P s cs x3"
    by (rule on_prompt_ok [OF u(1) ok2]) (auto intro: unref_ok_st tok)
  from on_prompt_ok [OF u(2) this] show ?thesis by (auto intro: destroy_private_ok [OF _ _ l])
qed

lemma complete_ok:
  assumes run: "complete t x = Some (ts, y)" and ok: "prompt_ok C R P s cs x"
  shows "prompt_ok C R P s cs y"
proof (cases "t = []")
  case True
  with run ok show ?thesis by (simp add: complete_def)
next
  case False
  have st: "st_ok C R P s (p_i x)" using ok by (simp add: prompt_ok_def)
  obtain l I where l: "new_heap (b6b_str_copy t) (p_i x) = (l, I)" by fastforce
  note new = str_copy_private(1) [OF l st]
  have np: "l \<notin> P" using str_copy_ok_st(2) [OF l st] by (simp add: npriv_def)
  from run False l obtain b I1 its where r: "on_heap (b6b_as_list l) I = Some (b, I1)"
    "(if b then items_at l I1 else Some []) = Some its"
    and cont: "(if \<not> b \<or> its = [] then do {
             I \<leftarrow> upd_heap (b6b_destroy l) I1;
             Some ([], x\<lparr>p_i := I\<rparr>)
           }
           else do {
             let tok = snd (last its);
             I \<leftarrow> upd_heap (b6b_ref tok) I1;
             complete_with l tok (x\<lparr>p_i := I\<rparr>)
           }) = Some (ts, y)"
    by (auto simp: complete_def bind_Some)
  note ok1 = as_list_ok [OF r(1) new]
  show ?thesis
  proof (cases "\<not> b \<or> its = []")
    case True
    with cont obtain I2 where "upd_heap (b6b_destroy l) I1 = Some I2" "y = x\<lparr>p_i := I2\<rparr>" by (auto simp: bind_Some)
    with destroy_private_ok [OF _ ok1 np] ok show ?thesis by (auto simp: prompt_ok_def)
  next
    case False
    with cont obtain I2 where c: "upd_heap (b6b_ref (snd (last its))) I1 = Some I2"
      "complete_with l (snd (last its)) (x\<lparr>p_i := I2\<rparr>) = Some (ts, y)" by (auto simp: bind_Some Let_def)
    have "items_at l I1 = Some its" using r(2) False by simp
    then have tok: "npriv C (insert l P) (snd (last its))" using False by (intro items_npriv [OF _ ok1]) auto
    from ref_ok_st [OF c(1) ok1 tok] ok
    have "prompt_ok C (add_mset (snd (last its)) (add_mset l R)) (insert l P) s cs (x\<lparr>p_i := I2\<rparr>)"
      by (simp add: prompt_ok_def)
    from complete_with_ok [OF c(2) np this tok] show ?thesis .
  qed
qed

section \<open>Reading a line\<close>

text \<open>
  However often the editor asks for completions and hints before it returns a line, the counts of the interpreter
  are exact for the same owned references, and its children are as they were.
\<close>

theorem linenoise_keeps:
  assumes "linenoise L n p x = Some (Some (t, y))" and "prompt_ok C R P s cs x"
  shows "prompt_ok C R P s cs y"
  using assms
proof (induction n arbitrary: x)
  case (Suc n)
  obtain e w where e: "ln_next L p (p_w x) = (e, w)" by fastforce
  have w: "prompt_ok C R P s cs (z\<lparr>p_w := v\<rparr>) = prompt_ok C R P s cs z" for z v by (simp add: prompt_ok_def)
  show ?case
  proof (cases e)
    case (Ln_complete u)
    with Suc.prems(1) e obtain ts z where c: "complete u (x\<lparr>p_w := w\<rparr>) = Some (ts, z)"
      "linenoise L n p (z\<lparr>p_w := ln_completions L ts (p_w z)\<rparr>) = Some (Some (t, y))"
      by (auto split: option.splits)
    have "prompt_ok C R P s cs z" by (rule complete_ok [OF c(1)]) (use Suc.prems(2) in \<open>simp add: w\<close>)
    with Suc.IH [OF c(2)] show ?thesis by (simp add: w)
  qed (use Suc.prems Suc.IH e in \<open>auto simp: w\<close>)
qed simp

theorem linenoise_read_keeps:
  assumes run: "b6b_linenoise_proc_read L n args x = Some (Some (res, y))" and ok: "prompt_ok C R P s cs x"
  shows "prompt_ok C R P s cs y"
proof -
  from run obtain p z where a: "ln_args args x = Some (p, z)"
    by (auto simp: b6b_linenoise_proc_read_def split: option.splits)
  then have z: "prompt_ok C R P s cs z"
    using ok by (auto simp: ln_args_def bind_Some on_prompt_def prompt_ok_def split: if_splits list.splits parg.splits
        intro: get_args_ok(1))
  show ?thesis
  proof (cases p)
    case None
    with run a z show ?thesis by (simp add: b6b_linenoise_proc_read_def)
  next
    case (Some q)
    with run a obtain t v where l: "linenoise L n q z = Some (Some (t, v))"
      by (auto simp: b6b_linenoise_proc_read_def split: option.splits)
    note v = linenoise_keeps [OF l z]
    show ?thesis
    proof (cases t)
      case None
      with run a Some l v show ?thesis by (simp add: b6b_linenoise_proc_read_def)
    next
      case (Some u)
      with run a \<open>p = Some q\<close> l
      have "on_prompt (\<lambda>I. case new_heap (b6b_str_new (c_str u)) I of (a, I) \<Rightarrow> b6b_return a I) v = Some (res, y)"
        by (simp add: b6b_linenoise_proc_read_def)
      then show ?thesis by (rule on_prompt_ok [OF _ v]) (auto split: prod.splits intro: b6b_return_ok str_new_ok)
    qed
  qed
qed

end
