(* ===== verification/Spec2Isabelle.thy ===== *)
theory Spec2Isabelle
  imports Boot Str_Lemmas Double_Lemmas Heap_Props Dict_Props Run_Props Interp_Props Args_Props Strm_Props Io_Props Offload_Props Zlib_Props Ffi_Props Nested_Props Prompt_Props
begin

text \<open>
  A verification library for b6b, an interpreter for a small language of lists and strings,
  written in C (src/).

  \<^bold>\<open>The program.\<close>  A value is an object (\<^verbatim>\<open>struct b6b_obj\<close>) with up to four representations of
  the same value, a text, a list, an integer and a floating point number, converted on demand
  and cached, a cached hash of the text, a procedure to call, private data, and a reference
  count.  A statement is a list; it is called by evaluating its items (\<^verbatim>\<open>$name\<close> looks up a
  variable, \<^verbatim>\<open>[...]\<close> calls a statement) into the arguments of a new frame and calling the
  procedure of the first.  A block is a list of statements.  Frames form a chain, with a
  dictionary of local variables each, that ends in the global frame.  Coroutines (threads with
  \<^verbatim>\<open>swapcontext\<close>) take turns, every 16 statements or when one yields.

  \<^bold>\<open>Theories.\<close>
  \<^item> \<open>Prelude\<close>: integer types, lemmas on options and lists.  \<open>CDouble\<close>: IEEE binary64 on
    integers, with what the code uses of the C library (\<^verbatim>\<open>strtod\<close>, \<^verbatim>\<open>strtoll\<close>, \<^verbatim>\<open>%.12f\<close>).
    \<open>Double_Lemmas\<close>: its arithmetic is exact on integers below 2^53.
  \<^item> \<open>Hash\<close>: src/b6b_hash.c.  \<open>Text\<close>: the syntax of lists (the tokens of src/b6b_list.c, the
    rendering of src/b6b_str.c), and the grammar of the items that survive writing and reading.
  \<^item> \<open>Obj\<close>: objects in an explicit store, src/b6b_obj.c, with the contract of a store as the
    locale \<open>object_store\<close>.  \<open>Conv\<close>: the conversions, src/b6b_str.c, src/b6b_list.c,
    src/b6b_int.c, src/b6b_float.c.  \<open>Lists\<close>: src/b6b_list.c.  \<open>Dict\<close>: src/b6b_dict.c.
  \<^item> \<open>Interp\<close>: the state of the interpreter, its frames and variables, src/b6b_frame.c and parts
    of src/b6b_interp.c and src/b6b_proc.c.  \<open>Procs_List\<close>, \<open>Procs_Str\<close>, \<open>Procs_Math\<close>,
    \<open>Procs_Core\<close>: the procedures that run no code.  \<open>Eval\<close>: evaluation, the switch of threads
    and the procedures that run code.  \<open>Boot\<close>: the tables of procedures, start and end of an
    interpreter, the main program (options, scripts and the text of the prompt) and the scheduler.
  \<^item> \<open>Conv_Lemmas\<close>, \<open>Str_Lemmas\<close>, \<open>Heap_Inv\<close>: lemmas on conversions, on the procedures on strings, and
    the invariant of the heap (exact counts, no dangling reference, well-formed lists) with its
    preservation by every operation.  \<open>Heap_Props\<close>, \<open>Dict_Props\<close>: the properties of objects and
    dictionaries; a dictionary refines a map from texts (locale \<open>text_map\<close>).
  \<^item> \<open>Run_Inv\<close>, \<open>Run_Procs\<close>, \<open>Run_Eval\<close>, \<open>Run_Sched\<close>, \<open>Run_Props\<close>: the invariant of a running
    interpreter with suspended threads, kept by every procedure, by evaluation (locales
    \<open>stmt_caller\<close> and \<open>ext_env\<close>), and by the scheduler, and what follows for whole programs.  \<open>Interp_Props\<close>:
    look-up of variables, frames, and the order in which threads run (locale \<open>ready_queue\<close>).
  \<^item> \<open>Os\<close>: what the code calls of the operating system and the C library, a record of functions on
    a world.  \<open>Strm\<close>: src/b6b_strm.c, streams with their tables of operations.  \<open>Fdops\<close>:
    src/b6b_fdops.c, src/b6b_sem.c, src/b6b_timer.c.  \<open>Stdio\<close>: src/b6b_stdio.c, src/b6b_file.c.
    \<open>Sockets\<close>: src/b6b_socket.c.  \<open>Events\<close>: src/b6b_poll.c, src/b6b_syscall.c, src/b6b_time.c,
    src/b6b_path.c, src/b6b_signal.c, src/b6b_sh.c.  \<open>Exts\<close>: their tables, and the text of
    src/b6b_evloop.c.  \<open>Strm_Props\<close>: what reading, writing and closing a stream do, for every
    table of operations that behaves like a file of bytes.
  \<^item> \<open>Io_Inv\<close>, \<open>Io_Procs\<close>, \<open>Io_Props\<close>: the invariant of a running interpreter carried over to the
    procedures on streams: what the tables of operations owe to a stream (locale
    \<open>stream_tables\<close>, interpreted by every table of the code), what running a blocking function
    owes (locale \<open>offloader\<close>), and that every procedure of these and of \<open>Zlib\<close>, but \<^verbatim>\<open>sh\<close>, keeps exact counts.
  \<^item> \<open>Offload\<close>: src/b6b_offload.c and \<^verbatim>\<open>b6b_offload\<close>, the threads of the operating system that run
    what would block, as a step relation with its invariant.  \<open>Offload_Props\<close>: a work runs once,
    for the thread that waits for it, and nobody waits for ever.

  \<^item> \<open>Zlib\<close>: src/b6b_zlib.c on an implementation of deflate that is a parameter.  \<open>Zlib_Props\<close>: what
    \<^verbatim>\<open>gzip\<close> compresses \<^verbatim>\<open>gunzip\<close> gives back, if the implementation keeps two laws; and an
    overrun of a buffer.  \<open>Args_Props\<close>: the arguments of a procedure have the representations it reads.

  \<^item> \<open>Ffi\<close>: src/b6b_ffi.c, with the bytes of C types on a little-endian machine.  \<open>Float_Lemmas\<close>: the bit
    patterns of doubles, and that the conversion to \<^verbatim>\<open>float\<close> gives a nearest one.  \<open>Ffi_Props\<close>: what
    \<^verbatim>\<open>ffi.pack\<close> writes \<^verbatim>\<open>ffi.unpack\<close> reads.

  \<^item> \<open>Nested\<close>: the interpreters that a script makes, at the end of src/b6b_interp.c, on the heap of their
    maker.  \<open>Nested_Props\<close>: making, calling and ending them keeps exact counts for all of them.
  \<^item> \<open>Prompt\<close>: src/b6b_linenoise.c and the completion and hints of src/b6b.c, on an editor of lines that is
    a parameter.  \<open>Prompt_Props\<close>: reading a line keeps exact counts.

  \<^bold>\<open>Conventions.\<close>  A C function on the heap returns an option: \<open>None\<close> is undefined behaviour
  (a freed pointer, a read out of bounds, signed overflow) or a loop that does not end; its
  failure status is a value.  Addresses are never reused, so a freed pointer is recognised.
  A reference count is a natural number: that the counter, an \<^verbatim>\<open>int\<close>, overflows after 2^31 references is absent.
  Allocation succeeds, and the errors that only follow from its failure do not occur.
  A computation that may switch threads is a value of \<open>res\<close>, with \<open>Swap I k\<close> the switch of
  stacks.

  \<^bold>\<open>Bounds and fuel.\<close>  \<open>stmt_call\<close> has fuel for the depth of nested statements and the rounds of
  the loops; a theorem about its results holds for every amount, and \<open>No_fuel\<close> is not a result.
  \<open>as_str_f\<close> has as much fuel as there are cells, which is enough for every heap without cycles
  (\<open>as_str_total\<close>).  Integers are words of the width in the code, and doubles are exact.

  \<^bold>\<open>The world.\<close>  A procedure on streams works on a state \<open>io\<close>: the interpreter, the world, the
  streams and the structures their private data points to.  The world and what its functions do
  are parameters (record \<open>os\<close>); so is how a blocking function is run (\<open>offload\<close>), which
  \<open>offload_direct\<close> instantiates for a single thread.  For the interpreter these procedures are the
  parameter \<open>e_ext\<close>, a step that does not switch threads, of which \<open>ext_env\<close> assumes that it keeps the invariant; it is
  interpreted by an interpreter without extensions and by one with the procedures of the byte order.  That the
  other extensions keep the invariant is proved apart, on their own states (\<open>Io_Props\<close>, \<open>Nested_Props\<close>,
  \<open>Prompt_Props\<close>; not for \<^verbatim>\<open>sh\<close> and \<^verbatim>\<open>ffi\<close>).  A child interpreter is another structure, with the heap in common, so a call of it can change
  nothing else of its maker; that is how \<open>run_child\<close> is written, not a result.

  \<^bold>\<open>Not modelled.\<close>  The editor of lines (src/linenoise, a vendored library).  The call of a destructor when the
  interpreter frees the object of a stream, a child, a function or a library: the destructors are modelled, and their
  private data is kept until they are called.  The failures of pthreads and of allocation, pool allocation and the
  annotations for valgrind.  \<^verbatim>\<open>mbrtowc\<close>, \<^verbatim>\<open>rand_r\<close> and the contents of files are the other parameters.
\<close>

end
